(* ===== verification/Arksh_Prelude.thy ===== *)
theory Arksh_Prelude
  imports Main "HOL-Library.Word" "HOL-Library.Sublist"
begin

text \<open>
  Shared vocabulary of the development: the C character classes the sources use (the program
  never calls \<^verbatim>\<open>setlocale\<close>, so they are those of the C locale), NUL-terminated strings as
  character lists, bounded copies into fixed buffers, and error results as sums with their bind.
  The collections \<open>buf_simps\<close> and \<open>err_simps\<close> carry the routine steps of the component proofs.
\<close>

named_theorems buf_simps \<open>facts about bounded copies and appends\<close>
named_theorems err_simps \<open>facts that open a chain of error results\<close>

subsection \<open>Error results\<close>

definition bind_err :: "'e + 'a \<Rightarrow> ('a \<Rightarrow> 'e + 'b) \<Rightarrow> 'e + 'b" where
  "bind_err m f = (case m of Inl e \<Rightarrow> Inl e | Inr x \<Rightarrow> f x)"

lemma bind_err_simps [simp]:
  "bind_err (Inl e) f = Inl e"
  "bind_err (Inr x) f = f x"
  by (simp_all add: bind_err_def)

lemma bind_err_cong [fundef_cong]:
  "m = m' \<Longrightarrow> (\<And>x. m' = Inr x \<Longrightarrow> f x = g x) \<Longrightarrow> bind_err m f = bind_err m' g"
  by (cases m') auto

lemma bind_err_eq_Inr [err_simps]:
  "bind_err m f = Inr y \<longleftrightarrow> (\<exists>x. m = Inr x \<and> f x = Inr y)"
  by (cases m) auto

lemma bind_err_eq_Inl [err_simps]:
  "bind_err m f = Inl e \<longleftrightarrow> m = Inl e \<or> (\<exists>x. m = Inr x \<and> f x = Inl e)"
  by (cases m) auto

subsection \<open>Characters\<close>

abbreviation bslash :: char where "bslash \<equiv> CHR 0x5C"
abbreviation squote :: char where "squote \<equiv> CHR 0x27"
abbreviation dquote :: char where "dquote \<equiv> CHR 0x22"

definition c_isspace :: "char \<Rightarrow> bool" where
  "c_isspace c \<longleftrightarrow> c \<in> {CHR '' '', CHR 0x09, CHR 0x0A, CHR 0x0B, CHR 0x0C, CHR 0x0D}"

definition c_isdigit :: "char \<Rightarrow> bool" where
  "c_isdigit c \<longleftrightarrow> 48 \<le> (of_char c :: nat) \<and> (of_char c :: nat) \<le> 57"

definition c_isalpha :: "char \<Rightarrow> bool" where
  "c_isalpha c \<longleftrightarrow>
     65 \<le> (of_char c :: nat) \<and> (of_char c :: nat) \<le> 90 \<or>
     97 \<le> (of_char c :: nat) \<and> (of_char c :: nat) \<le> 122"

definition c_isalnum :: "char \<Rightarrow> bool" where
  "c_isalnum c \<longleftrightarrow> c_isalpha c \<or> c_isdigit c"

text \<open>Whether the characters \<open>pre\<close> come next: the bounds checks \<open>i + k < len\<close> of the sources.\<close>

definition next_is :: "string \<Rightarrow> string \<Rightarrow> bool" where
  "next_is pre cs \<longleftrightarrow> take (length pre) cs = pre"

lemma next_is_simps [simp]:
  "next_is [] cs"
  "\<not> next_is (x # xs) []"
  "next_is (x # xs) (c # cs) \<longleftrightarrow> c = x \<and> next_is xs cs"
  by (auto simp: next_is_def)

lemma next_isD: "next_is pre cs \<Longrightarrow> \<exists>rest. cs = pre @ rest"
  unfolding next_is_def by (metis append_take_drop_id)

subsection \<open>Bounded buffers\<close>

text \<open>
  \<open>snprintf (dest, size, "%s", src)\<close> keeps at most \<open>size - 1\<close> characters; every caller's
  \<open>size\<close> is a positive array size.
\<close>

definition copy_string :: "nat \<Rightarrow> string \<Rightarrow> string" where
  "copy_string dest_size src = take (dest_size - 1) src"

lemma copy_string_id [buf_simps, simp]: "length s < n \<Longrightarrow> copy_string n s = s"
  by (simp add: copy_string_def)

lemma length_copy_string [buf_simps]: "0 < n \<Longrightarrow> length (copy_string n s) < n"
  by (simp add: copy_string_def)

lemma copy_string_idem [buf_simps, simp]: "copy_string n (copy_string n s) = copy_string n s"
  by (simp add: copy_string_def)

text \<open>The sizes of the output, line and token buffers.\<close>

definition max_output :: nat where "max_output = 8192"
definition max_line :: nat where "max_line = 2048"
definition max_name :: nat where "max_name = 128"

subsection \<open>Decimal numbers\<close>

text \<open>The digits that the conversions \<open>%d\<close>, \<open>%zu\<close> and \<open>%lld\<close> print.\<close>

definition digit_char :: "nat \<Rightarrow> char" where
  "digit_char n = char_of (48 + n)"

fun show_nat :: "nat \<Rightarrow> string" where
  "show_nat n = (if n < 10 then [digit_char n] else show_nat (n div 10) @ [digit_char (n mod 10)])"

definition show_int :: "int \<Rightarrow> string" where
  "show_int i = (if i < 0 then ''-'' @ show_nat (nat (- i)) else show_nat (nat i))"

declare show_nat.simps [simp del]

lemma of_digit_char: "n < 10 \<Longrightarrow> (of_char (digit_char n) :: nat) = 48 + n"
  by (simp add: digit_char_def)

lemma digit_char_isdigit [simp]: "n < 10 \<Longrightarrow> c_isdigit (digit_char n)"
  by (simp add: c_isdigit_def of_digit_char)

lemma show_nat_digits: "list_all c_isdigit (show_nat n)"
  by (induction n rule: show_nat.induct) (subst show_nat.simps, simp)

lemma show_nat_ne [simp]: "show_nat n \<noteq> []"
  by (subst show_nat.simps) simp

end
