(* ===== verification/Arena.thy ===== *)
theory Arena
  imports Arksh_Prelude
begin

unbundle bit_operations_syntax

text \<open>
  The scratch arena of \<^verbatim>\<open>src/arena.c\<close>: a chain of chunks, each a bump allocator, with frames
  that mark a position and release everything allocated after it.  \<open>size_t\<close> is a 64-bit word, so
  the wrap-around of the size computations is the code's.  A chunk keeps the address of its
  \<open>malloc\<close> block; the data area starts 24 bytes into it (three 8-byte header fields on an LP64
  target), and \<open>sizeof (max_align_t)\<close>, which the code uses as its alignment, is 32 there.
  \<open>malloc\<close> is an argument: the list of the results of the successive calls, each an address or
  \<open>None\<close>; past its end every call fails.
\<close>

type_synonym size_t = "64 word"

record chunk =
  base :: size_t
  capacity :: size_t
  used :: size_t

record arena =
  chunks :: "chunk list"
  current :: "nat option"
  default_chunk_size :: size_t

type_synonym mallocs = "size_t option list"

subsection \<open>Size arithmetic\<close>

definition header_size :: size_t where
  "header_size = 24"

definition max_align :: size_t where
  "max_align = 32"

definition align_up :: "size_t \<Rightarrow> size_t \<Rightarrow> size_t" where
  "align_up value alignment =
     (if alignment = 0 then value
      else let mask = alignment - 1 in (value + mask) AND NOT mask)"

definition multiply_size :: "size_t \<Rightarrow> size_t \<Rightarrow> size_t option" where
  "multiply_size left right =
     (if left = 0 \<or> right = 0 then Some 0
      else if left > (- 1) div right then None
      else Some (left * right))"

subsection \<open>Chunks and allocation\<close>

fun allocate_chunk :: "size_t \<Rightarrow> mallocs \<Rightarrow> chunk option \<times> mallocs" where
  "allocate_chunk cap (Some a # ms) = (Some \<lparr>base = a, capacity = cap, used = 0\<rparr>, ms)"
| "allocate_chunk cap (None # ms) = (None, ms)"
| "allocate_chunk cap [] = (None, [])"

definition arksh_scratch_arena_init :: arena where
  "arksh_scratch_arena_init = \<lparr>chunks = [], current = None, default_chunk_size = 64 * 1024\<rparr>"

definition arksh_scratch_arena_destroy :: "arena \<Rightarrow> arena" where
  "arksh_scratch_arena_destroy ar = ar\<lparr>chunks := [], current := None\<rparr>"

definition head_index :: "arena \<Rightarrow> nat option" where
  "head_index ar = (if chunks ar = [] then None else Some 0)"

definition arksh_scratch_arena_reset :: "arena \<Rightarrow> arena" where
  "arksh_scratch_arena_reset ar =
     ar\<lparr>chunks := map (\<lambda>c. c\<lparr>used := 0\<rparr>) (chunks ar), current := head_index ar\<rparr>"

definition chunk_capacity_for :: "arena \<Rightarrow> size_t \<Rightarrow> size_t" where
  "chunk_capacity_for ar bytes =
     (if bytes + max_align > default_chunk_size ar then bytes + max_align
      else default_chunk_size ar)"

text \<open>
  The search loop: \<open>pre\<close> are the chunks before the one looked at, \<open>post\<close> those after it.
  A result is the address, the new chunk chain, the index of the current chunk and the
  \<open>malloc\<close> results left.
\<close>

function alloc_search ::
  "size_t \<Rightarrow> size_t \<Rightarrow> chunk list \<Rightarrow> chunk \<Rightarrow> chunk list \<Rightarrow> mallocs
     \<Rightarrow> size_t option \<times> chunk list \<times> nat \<times> mallocs" where
  "alloc_search cap bytes pre c post ms =
     (let offset = align_up (used c) max_align in
      if offset \<le> capacity c \<and> bytes \<le> capacity c - offset then
        (Some (base c + header_size + offset), pre @ c\<lparr>used := offset + bytes\<rparr> # post,
         length pre, ms)
      else
        (case post of
           n # post' \<Rightarrow> alloc_search cap bytes (pre @ [c]) (n\<lparr>used := 0\<rparr>) post' ms
         | [] \<Rightarrow>
             (case ms of
                Some a # ms' \<Rightarrow>
                  alloc_search cap bytes (pre @ [c]) \<lparr>base = a, capacity = cap, used = 0\<rparr> [] ms'
              | _ \<Rightarrow> (None, pre @ [c], length pre, tl ms))))"
  by pat_completeness auto
termination
  by (relation "measure (\<lambda>(cap, bytes, pre, c, post, ms). length post + length ms)") auto

declare alloc_search.simps [simp del]

text \<open>The choice of the current chunk before the search.\<close>

definition ensure_current ::
  "arena \<Rightarrow> size_t \<Rightarrow> mallocs \<Rightarrow> (nat \<times> chunk list) option \<times> mallocs" where
  "ensure_current ar bytes ms =
     (case current ar of
        Some i \<Rightarrow> (Some (i, chunks ar), ms)
      | None \<Rightarrow>
          (case chunks ar of
             c # cs \<Rightarrow> (Some (0, c\<lparr>used := 0\<rparr> # cs), ms)
           | [] \<Rightarrow>
               (case allocate_chunk (chunk_capacity_for ar bytes) ms of
                  (None, ms') \<Rightarrow> (None, ms')
                | (Some c, ms') \<Rightarrow> (Some (0, [c]), ms'))))"

definition arksh_scratch_alloc_zero ::
  "arena \<Rightarrow> size_t \<Rightarrow> size_t \<Rightarrow> mallocs \<Rightarrow> size_t option \<times> arena \<times> mallocs" where
  "arksh_scratch_alloc_zero ar count item_size ms =
     (if count = 0 \<or> item_size = 0 then (None, ar, ms)
      else case multiply_size count item_size of
        None \<Rightarrow> (None, ar, ms)
      | Some bytes \<Rightarrow>
          (case ensure_current ar bytes ms of
             (None, ms') \<Rightarrow> (None, ar, ms')
           | (Some (i, cs), ms') \<Rightarrow>
               (let (r, cs', k, ms'') =
                  alloc_search (chunk_capacity_for ar bytes) bytes
                    (take i cs) (cs ! i) (drop (Suc i) cs) ms'
                in (r, ar\<lparr>chunks := cs', current := Some k\<rparr>, ms''))))"

subsection \<open>Frames\<close>

text \<open>Shells are numbered; each owns an arena, and one shell at most is active.\<close>

record scratch =
  arenas :: "nat \<Rightarrow> arena"
  active_shell :: "nat option"

record frame =
  fr_shell :: "nat option"
  previous_shell :: "nat option"
  fr_chunk :: "nat option"
  fr_used :: size_t
  fr_active :: bool

definition arksh_scratch_frame_begin :: "scratch \<Rightarrow> nat option \<Rightarrow> frame \<times> scratch" where
  "arksh_scratch_frame_begin g shell =
     (let ch = (case shell of None \<Rightarrow> None | Some s \<Rightarrow> current (arenas g s));
          us = (case shell of None \<Rightarrow> 0
                | Some s \<Rightarrow> (case ch of None \<Rightarrow> 0 | Some i \<Rightarrow> used (chunks (arenas g s) ! i)))
      in (\<lparr>fr_shell = shell, previous_shell = active_shell g, fr_chunk = ch, fr_used = us,
           fr_active = True\<rparr>,
          g\<lparr>active_shell := shell\<rparr>))"

definition release_to :: "arena \<Rightarrow> nat option \<Rightarrow> size_t \<Rightarrow> arena" where
  "release_to ar ch us =
     (case ch of
        None \<Rightarrow> ar\<lparr>chunks := map (\<lambda>c. c\<lparr>used := 0\<rparr>) (chunks ar), current := head_index ar\<rparr>
      | Some i \<Rightarrow>
          ar\<lparr>chunks := take i (chunks ar) @ (chunks ar ! i)\<lparr>used := us\<rparr> #
                      map (\<lambda>c. c\<lparr>used := 0\<rparr>) (drop (Suc i) (chunks ar)),
             current := Some i\<rparr>)"

definition arksh_scratch_frame_end :: "scratch \<Rightarrow> frame \<Rightarrow> frame \<times> scratch" where
  "arksh_scratch_frame_end g fr =
     (if \<not> fr_active fr then (fr, g)
      else
        (fr\<lparr>fr_active := False\<rparr>,
         (case fr_shell fr of
            None \<Rightarrow> g
          | Some s \<Rightarrow>
              g\<lparr>arenas := (arenas g)(s := release_to (arenas g s) (fr_chunk fr) (fr_used fr))\<rparr>)
           \<lparr>active_shell := previous_shell fr\<rparr>))"

text \<open>With no active shell the allocation is a plain \<open>calloc\<close>, the next \<open>malloc\<close> result.\<close>

definition arksh_scratch_alloc_active_zero ::
  "scratch \<Rightarrow> size_t \<Rightarrow> size_t \<Rightarrow> mallocs \<Rightarrow> size_t option \<times> scratch \<times> mallocs" where
  "arksh_scratch_alloc_active_zero g count item_size ms =
     (case active_shell g of
        None \<Rightarrow> ((case ms of [] \<Rightarrow> None | r # _ \<Rightarrow> r), g, tl ms)
      | Some s \<Rightarrow>
          (let (r, ar, ms') = arksh_scratch_alloc_zero (arenas g s) count item_size ms
           in (r, g\<lparr>arenas := (arenas g)(s := ar)\<rparr>, ms')))"

definition chunk_contains :: "chunk \<Rightarrow> size_t \<Rightarrow> bool" where
  "chunk_contains c ptr \<longleftrightarrow>
     (let start = base c + header_size in ptr \<ge> start \<and> ptr < start + capacity c)"

definition arksh_scratch_active_contains :: "scratch \<Rightarrow> size_t \<Rightarrow> bool" where
  "arksh_scratch_active_contains g ptr =
     (case active_shell g of
        None \<Rightarrow> False
      | Some s \<Rightarrow> ptr \<noteq> 0 \<and> list_ex (\<lambda>c. chunk_contains c ptr) (chunks (arenas g s)))"

subsection \<open>Alignment\<close>

lemma unat_size_t: "unat (x :: size_t) < 2 ^ 64"
  by (rule order_less_le_trans [OF unsigned_less]) simp

lemma and_not_31: "(x :: size_t) AND NOT 31 = x - take_bit 5 x"
proof -
  have "x AND NOT 31 = push_bit 5 (drop_bit 5 x)"
  proof (rule bit_word_eqI)
    fix n assume "n < LENGTH(64)"
    have "bit (31 :: size_t) n \<longleftrightarrow> n < 5"
      using bit_mask_iff [of 5 n, where 'a = size_t] \<open>n < LENGTH(64)\<close> by (simp add: mask_eq_exp_minus_1)
    then show "bit (x AND NOT 31) n \<longleftrightarrow> bit (push_bit 5 (drop_bit 5 x)) n"
      using \<open>n < LENGTH(64)\<close> by (auto simp: bit_simps)
  qed
  moreover have "push_bit 5 (drop_bit 5 x) = x - take_bit 5 x"
    using bits_ident [of 5 x] by (simp add: eq_diff_eq)
  ultimately show ?thesis by simp
qed

lemma unat_and_not_31: "unat ((x :: size_t) AND NOT 31) = unat x div 32 * 32"
proof -
  have t: "unat (take_bit 5 x) = unat x mod 32"
    by (simp add: take_bit_eq_mod unat_mod)
  then have "take_bit 5 x \<le> x"
    by (simp add: word_le_nat_alt)
  then have "unat (x - take_bit 5 x) = unat x - unat x mod 32"
    by (simp add: unat_sub t)
  then show ?thesis
    by (simp only: and_not_31 minus_mod_eq_div_mult)
qed

lemma unat_align_up:
  assumes "unat v < 2 ^ 63"
  shows "unat (align_up v max_align) = (unat v + 31) div 32 * 32"
proof -
  have "unat (v + 31) = unat v + 31"
    using assms by (simp add: unat_word_ariths)
  then show ?thesis
    using unat_and_not_31 [of "v + 31"] by (simp add: align_up_def max_align_def)
qed

lemma align_up_props:
  assumes "unat v < 2 ^ 63"
  shows "unat v \<le> unat (align_up v max_align)" and "unat (align_up v max_align) mod 32 = 0"
  using assms by (simp_all add: unat_align_up)

lemma unat_max_size [simp]: "unat (- 1 :: size_t) = 2 ^ 64 - 1"
  by (simp add: unsigned_minus_1_eq_mask mask_eq_exp_minus_1)

lemma multiply_size_Some:
  assumes "multiply_size a b = Some n"
  shows "unat n = unat a * unat b"
proof (cases "a = 0 \<or> b = 0")
  case True
  with assms show ?thesis by (auto simp: multiply_size_def)
next
  case False
  with assms have n: "n = a * b" and "a \<le> (- 1) div b"
    by (auto simp: multiply_size_def split: if_splits)
  then have "unat a \<le> (2 ^ 64 - 1) div unat b"
    by (simp add: word_le_nat_alt unat_div)
  then have "unat a * unat b \<le> (2 ^ 64 - 1) div unat b * unat b"
    by (rule mult_le_mono1)
  also have "\<dots> \<le> 2 ^ 64 - 1"
    by (metis div_times_less_eq_dividend)
  finally show ?thesis
    by (simp add: n unat_word_ariths)
qed

lemma multiply_size_None:
  assumes "multiply_size a b = None"
  shows "2 ^ 64 \<le> unat a * unat b"
proof -
  from assms have b: "b \<noteq> 0" and "(- 1) div b < a"
    by (auto simp: multiply_size_def split: if_splits)
  then have "(2 ^ 64 - 1) div unat b < unat a"
    by (simp add: word_less_nat_alt unat_div)
  moreover have "0 < unat b" using b by (simp add: unat_gt_0)
  ultimately have "2 ^ 64 - 1 < unat a * unat b"
    by (simp add: div_less_iff_less_mult)
  then show ?thesis by simp
qed

subsection \<open>Invariant\<close>

definition chunk_ok :: "chunk \<Rightarrow> bool" where
  "chunk_ok c \<longleftrightarrow> used c \<le> capacity c \<and> unat (capacity c) < 2 ^ 63"

definition arena_inv :: "arena \<Rightarrow> bool" where
  "arena_inv ar \<longleftrightarrow>
     list_all chunk_ok (chunks ar) \<and> unat (default_chunk_size ar) < 2 ^ 62 \<and>
     (case current ar of None \<Rightarrow> True | Some i \<Rightarrow> i < length (chunks ar))"

abbreviation sites :: "chunk list \<Rightarrow> (size_t \<times> size_t) list" where
  "sites cs \<equiv> map (\<lambda>c. (base c, capacity c)) cs"

lemma chunk_ok_reset [simp]: "chunk_ok c \<Longrightarrow> chunk_ok (c\<lparr>used := 0\<rparr>)"
  by (simp add: chunk_ok_def)

lemma fits_bounds:
  assumes "chunk_ok c" and "off = align_up (used c) max_align"
    and "off \<le> capacity c" and "bytes \<le> capacity c - off"
  shows "unat (used c) \<le> unat off" and "unat off + unat bytes \<le> unat (capacity c)"
    and "unat (off + bytes) = unat off + unat bytes"
proof -
  have u: "unat (used c) < 2 ^ 63"
    using assms(1) by (auto simp: chunk_ok_def word_le_nat_alt)
  then show "unat (used c) \<le> unat off"
    using assms(2) align_up_props(1) by blast
  show le: "unat off + unat bytes \<le> unat (capacity c)"
    using assms(3,4) by (simp add: word_le_nat_alt unat_sub)
  moreover have "unat (capacity c) < 2 ^ 64"
    using unsigned_less [of "capacity c"] by simp
  ultimately show "unat (off + bytes) = unat off + unat bytes"
    by (simp add: unat_word_ariths)
qed

text \<open>The four ways a search step goes, as equations and as an induction rule.\<close>

abbreviation fits :: "chunk \<Rightarrow> size_t \<Rightarrow> bool" where
  "fits c bytes \<equiv>
     align_up (used c) max_align \<le> capacity c \<and>
     bytes \<le> capacity c - align_up (used c) max_align"

abbreviation fresh_chunk :: "size_t \<Rightarrow> size_t \<Rightarrow> chunk" where
  "fresh_chunk a cap \<equiv> \<lparr>base = a, capacity = cap, used = 0\<rparr>"

lemma alloc_search_fit:
  "fits c bytes \<Longrightarrow> alloc_search cap bytes pre c post ms =
     (Some (base c + header_size + align_up (used c) max_align),
      pre @ c\<lparr>used := align_up (used c) max_align + bytes\<rparr> # post, length pre, ms)"
  by (subst alloc_search.simps) (simp add: Let_def)

lemma alloc_search_next:
  "\<not> fits c bytes \<Longrightarrow> alloc_search cap bytes pre c (n # post) ms =
     alloc_search cap bytes (pre @ [c]) (n\<lparr>used := 0\<rparr>) post ms"
  by (subst alloc_search.simps) (auto simp: Let_def)

lemma alloc_search_grow:
  "\<not> fits c bytes \<Longrightarrow> alloc_search cap bytes pre c [] (Some a # ms) =
     alloc_search cap bytes (pre @ [c]) (fresh_chunk a cap) [] ms"
  by (subst alloc_search.simps) (auto simp: Let_def)

lemma alloc_search_fail:
  "\<not> fits c bytes \<Longrightarrow> (\<And>a ms'. ms \<noteq> Some a # ms') \<Longrightarrow>
     alloc_search cap bytes pre c [] ms = (None, pre @ [c], length pre, tl ms)"
  by (subst alloc_search.simps) (auto simp: Let_def split: list.split option.split)

lemmas alloc_search_eqs = alloc_search_fit alloc_search_next alloc_search_grow alloc_search_fail

lemma alloc_search_induct [case_names fit next_chunk grow fail]:
  assumes fit: "\<And>pre c post ms. fits c bytes \<Longrightarrow> P pre c post ms"
    and nxt: "\<And>pre c n post ms. \<not> fits c bytes \<Longrightarrow>
      P (pre @ [c]) (n\<lparr>used := 0\<rparr>) post ms \<Longrightarrow> P pre c (n # post) ms"
    and grow: "\<And>pre c a ms. \<not> fits c bytes \<Longrightarrow>
      P (pre @ [c]) (fresh_chunk a cap) [] ms \<Longrightarrow> P pre c [] (Some a # ms)"
    and fail: "\<And>pre c ms. \<not> fits c bytes \<Longrightarrow> (\<And>a ms'. ms \<noteq> Some a # ms') \<Longrightarrow> P pre c [] ms"
  shows "P pre c post ms"
proof (induction "length post + length ms" arbitrary: pre c post ms)
  case 0
  then show ?case using fit fail by (cases "fits c bytes") auto
next
  case (Suc n)
  show ?case
  proof (cases "fits c bytes")
    case True then show ?thesis by (rule fit)
  next
    case False
    show ?thesis
    proof (cases "post = [] \<and> (\<forall>a ms'. ms \<noteq> Some a # ms')")
      case True
      then show ?thesis using fail [OF False] by blast
    next
      case more: False
      from more consider (n) x xs where "post = x # xs" | (g) a ms' where "post = []" "ms = Some a # ms'"
        by (cases post) auto
      then show ?thesis
        by cases (use Suc nxt grow False in auto)
    qed
  qed
qed

text \<open>What a search leaves of the chain: earlier chunks as they were, no chunk moved or resized.\<close>

lemma take_snocD:
  "take (Suc (length pre)) cs = pre @ [c] \<Longrightarrow> take (length pre) cs = pre \<and> cs ! length pre = c"
proof -
  assume a: "take (Suc (length pre)) cs = pre @ [c]"
  then have "take (length pre) (take (Suc (length pre)) cs) = pre" by simp
  moreover have "take (Suc (length pre)) cs ! length pre = c" using a by simp
  ultimately show ?thesis by (simp add: min_def)
qed

lemma alloc_search_frame:
  assumes "unat cap < 2 ^ 63"
  shows "alloc_search cap bytes pre c post ms = (r, cs', k, ms') \<Longrightarrow> chunk_ok c \<Longrightarrow>
         list_all chunk_ok post \<Longrightarrow>
         take (length pre) cs' = pre \<and> length pre \<le> k \<and> k < length cs' \<and>
         unat (used c) \<le> unat (used (cs' ! length pre)) \<and>
         (\<exists>extra. sites cs' = sites (pre @ c # post) @ extra)"
proof (induction pre c post ms rule: alloc_search_induct [where bytes = bytes and cap = cap])
  case (fit pre c post ms)
  moreover have "unat (used c) \<le> unat (align_up (used c) max_align + bytes)"
    using fits_bounds [OF fit(3) refl conjunct1 [OF fit(1)] conjunct2 [OF fit(1)]] by simp
  ultimately show ?case by (auto simp: alloc_search_fit)
next
  case (next_chunk pre c n post ms)
  then show ?case by (auto simp: alloc_search_next dest: take_snocD)
next
  case (grow pre c a ms)
  then show ?case using assms by (auto simp: alloc_search_grow chunk_ok_def dest: take_snocD)
next
  case (fail pre c ms)
  then show ?case by (auto simp: alloc_search_fail)
qed

lemma alloc_search_ok:
  assumes "unat cap < 2 ^ 63"
  shows "alloc_search cap bytes pre c post ms = (r, cs', k, ms') \<Longrightarrow> chunk_ok c \<Longrightarrow>
         list_all chunk_ok (pre @ post) \<Longrightarrow> list_all chunk_ok cs'"
proof (induction pre c post ms rule: alloc_search_induct [where bytes = bytes and cap = cap])
  case (fit pre c post ms)
  moreover have "chunk_ok (c\<lparr>used := align_up (used c) max_align + bytes\<rparr>)"
    using fits_bounds [OF fit(3) refl conjunct1 [OF fit(1)] conjunct2 [OF fit(1)]] fit(3)
    by (simp add: chunk_ok_def word_le_nat_alt)
  ultimately show ?case by (auto simp: alloc_search_fit)
qed (use assms in \<open>auto simp: alloc_search_eqs chunk_ok_def\<close>)

text \<open>The region handed out: inside the chunk it names, above what was in use there.\<close>

lemma alloc_search_region:
  assumes "unat cap < 2 ^ 63"
  shows "alloc_search cap bytes pre c post ms = (Some a, cs', k, ms') \<Longrightarrow> chunk_ok c \<Longrightarrow>
         list_all chunk_ok post \<Longrightarrow>
         \<exists>off. a = base (cs' ! k) + header_size + off \<and> unat off mod 32 = 0 \<and>
               unat (used (cs' ! k)) = unat off + unat bytes \<and>
               (k = length pre \<longrightarrow> unat (used c) \<le> unat off)"
proof (induction pre c post ms rule: alloc_search_induct [where bytes = bytes and cap = cap])
  case (fit pre c post ms)
  have "unat (used c) < 2 ^ 63"
    using fit(3) by (auto simp: chunk_ok_def word_le_nat_alt)
  with fit fits_bounds [OF fit(3) refl conjunct1 [OF fit(1)] conjunct2 [OF fit(1)]]
  show ?case by (auto simp: alloc_search_fit align_up_props(2))
next
  case (next_chunk pre c n post ms)
  then have "length (pre @ [c]) \<le> k"
    using alloc_search_frame [OF assms, of bytes "pre @ [c]"] by (simp add: alloc_search_next)
  with next_chunk show ?case by (auto simp: alloc_search_next)
next
  case (grow pre c x ms)
  then have "length (pre @ [c]) \<le> k"
    using alloc_search_frame [OF assms, of bytes "pre @ [c]" "fresh_chunk x cap" "[]" ms] assms
    by (simp add: alloc_search_grow chunk_ok_def)
  with grow show ?case using assms by (auto simp: alloc_search_grow chunk_ok_def)
next
  case (fail pre c ms)
  then show ?case by (simp add: alloc_search_fail)
qed

subsection \<open>Live bytes and the frame discipline\<close>

text \<open>
  A byte position is a chunk number and an offset in that chunk's data area; the live ones are
  those below the fill mark of a chunk up to the current one.
\<close>

definition live_bytes :: "arena \<Rightarrow> (nat \<times> nat) set" where
  "live_bytes ar =
     {(k, n). \<exists>i. current ar = Some i \<and> k \<le> i \<and> n < unat (used (chunks ar ! k))}"

definition arena_grows :: "arena \<Rightarrow> arena \<Rightarrow> bool" where
  "arena_grows ar ar' \<longleftrightarrow>
     default_chunk_size ar' = default_chunk_size ar \<and>
     (\<exists>extra. sites (chunks ar') = sites (chunks ar) @ extra) \<and>
     (case current ar of None \<Rightarrow> True | Some i \<Rightarrow>
        \<exists>j. current ar' = Some j \<and> i \<le> j \<and> take i (chunks ar') = take i (chunks ar) \<and>
            unat (used (chunks ar ! i)) \<le> unat (used (chunks ar' ! i)))"

lemma ensure_current_spec:
  assumes "ensure_current ar bytes ms = (Some (i, cs), ms')" and "arena_inv ar"
    and "unat bytes < 2 ^ 62"
  shows "i < length cs \<and> list_all chunk_ok cs \<and>
         (\<exists>extra. sites cs = sites (chunks ar) @ extra) \<and>
         (\<forall>j. current ar = Some j \<longrightarrow> i = j \<and> cs = chunks ar)"
proof -
  have "unat (bytes + max_align) < 2 ^ 63"
    using assms(3) by (simp add: unat_word_ariths max_align_def)
  with assms show ?thesis
    by (auto simp: ensure_current_def arena_inv_def chunk_ok_def chunk_capacity_for_def
        split: option.splits list.splits prod.splits if_splits elim!: allocate_chunk.elims)
qed

lemma chunk_capacity_small:
  "arena_inv ar \<Longrightarrow> unat bytes < 2 ^ 62 \<Longrightarrow> unat (chunk_capacity_for ar bytes) < 2 ^ 63"
  by (auto simp: arena_inv_def chunk_capacity_for_def max_align_def unat_word_ariths)

lemma take_nth_drop_sites:
  "i < length cs \<Longrightarrow> take i cs @ cs ! i # drop (Suc i) cs = cs"
  by (simp add: id_take_nth_drop [symmetric])

lemma alloc_zero_cases:
  assumes "arksh_scratch_alloc_zero ar count sz ms = (r, ar', ms')" and "arena_inv ar"
    and "unat count * unat sz < 2 ^ 62"
  obtains (same) "r = None" "ar' = ar"
  | (searched) bytes i cs cs' k m where
      "unat bytes = unat count * unat sz" "0 < unat bytes"
      "i < length cs" "list_all chunk_ok cs" "\<exists>extra. sites cs = sites (chunks ar) @ extra"
      "\<forall>j. current ar = Some j \<longrightarrow> i = j \<and> cs = chunks ar"
      "alloc_search (chunk_capacity_for ar bytes) bytes (take i cs) (cs ! i) (drop (Suc i) cs) m
         = (r, cs', k, ms')"
      "ar' = ar\<lparr>chunks := cs', current := Some k\<rparr>"
proof (cases "count = 0 \<or> sz = 0")
  case True
  with assms(1) same show ?thesis by (auto simp: arksh_scratch_alloc_zero_def)
next
  case False
  then obtain bytes where b: "multiply_size count sz = Some bytes"
    using multiply_size_None [of count sz] assms(3) by (cases "multiply_size count sz") auto
  have ub: "unat bytes = unat count * unat sz" by (rule multiply_size_Some [OF b])
  with False have pos: "0 < unat bytes" by (simp add: unat_gt_0)
  show ?thesis
  proof (cases "ensure_current ar bytes ms")
    case (Pair p m)
    show ?thesis
    proof (cases p)
      case None
      with Pair b False assms(1) same show ?thesis by (auto simp: arksh_scratch_alloc_zero_def)
    next
      case (Some q)
      obtain i cs where q: "q = (i, cs)" by (cases q)
      obtain r' cs' k m' where se: "alloc_search (chunk_capacity_for ar bytes) bytes
          (take i cs) (cs ! i) (drop (Suc i) cs) m = (r', cs', k, m')"
        by (metis prod_cases4)
      with Pair b False assms(1) Some q
      have res: "r' = r" "m' = ms'" "ar' = ar\<lparr>chunks := cs', current := Some k\<rparr>"
        by (auto simp: arksh_scratch_alloc_zero_def)
      have "unat bytes < 2 ^ 62" using ub assms(3) by simp
      note ec = ensure_current_spec [OF Pair [unfolded Some q] assms(2) this]
      show ?thesis
        by (rule searched [OF ub pos _ _ _ _ se [unfolded res(1,2)] res(3)]) (use ec in simp_all)
    qed
  qed
qed

lemma alloc_zero_ok:
  assumes "arksh_scratch_alloc_zero ar count sz ms = (r, ar', ms')" and "arena_inv ar"
    and "unat count * unat sz < 2 ^ 62"
  shows "arena_inv ar' \<and> arena_grows ar ar'"
  using assms
proof (cases rule: alloc_zero_cases)
  case same
  with assms(2) show ?thesis
    by (auto simp: arena_grows_def split: option.splits)
next
  case (searched bytes i cs cs' k m)
  have cap: "unat (chunk_capacity_for ar bytes) < 2 ^ 63"
    using chunk_capacity_small assms(2,3) searched(1) by simp
  have ok: "chunk_ok (cs ! i)" "list_all chunk_ok (take i cs @ drop (Suc i) cs)"
    "list_all chunk_ok (drop (Suc i) cs)"
    using searched(3,4) by (auto simp: list_all_iff dest: in_set_takeD in_set_dropD)
  note f = alloc_search_frame [OF cap searched(7) ok(1,3)]
  obtain e1 where "sites cs' = sites cs @ e1"
    using f by (auto simp only: take_nth_drop_sites [OF searched(3)])
  moreover obtain e2 where "sites cs = sites (chunks ar) @ e2"
    using searched(5) by blast
  ultimately have "sites cs' = sites (chunks ar) @ (e2 @ e1)" by simp
  then have sites: "\<exists>extra. sites cs' = sites (chunks ar) @ extra" by blast
  have inv: "arena_inv ar'"
    using conjunct1 [OF conjunct2 [OF conjunct2 [OF f]]]
      alloc_search_ok [OF cap searched(7) ok(1,2)] assms(2)
    unfolding searched(8) by (simp add: arena_inv_def)
  have "arena_grows ar ar'"
  proof (cases "current ar")
    case None
    with sites searched(8) show ?thesis by (simp add: arena_grows_def)
  next
    case (Some j)
    with searched(3,6) f have "take j cs' = take j (chunks ar)" "j \<le> k"
      "unat (used (chunks ar ! j)) \<le> unat (used (cs' ! j))"
      by (simp_all add: min_def)
    with sites searched(8) Some show ?thesis by (simp add: arena_grows_def)
  qed
  with inv show ?thesis ..
qed

lemma alloc_zero_region:
  assumes "arksh_scratch_alloc_zero ar count sz ms = (Some a, ar', ms')" and "arena_inv ar"
    and "unat count * unat sz < 2 ^ 62"
  obtains k off where
    "a = base (chunks ar' ! k) + header_size + off" and "current ar' = Some k"
    and "k < length (chunks ar')" and "unat off mod 32 = 0"
    and "unat (used (chunks ar' ! k)) = unat off + unat count * unat sz"
    and "{k} \<times> {unat off ..< unat off + unat count * unat sz} \<inter> live_bytes ar = {}"
  using assms
proof (cases rule: alloc_zero_cases)
  case (searched bytes i cs cs' k m)
  have cap: "unat (chunk_capacity_for ar bytes) < 2 ^ 63"
    using chunk_capacity_small assms(2,3) searched(1) by simp
  have ok: "chunk_ok (cs ! i)" "list_all chunk_ok (drop (Suc i) cs)"
    using searched(3,4) by (auto simp: list_all_iff dest: in_set_dropD)
  from alloc_search_region [OF cap searched(7) ok] obtain off where
    off: "a = base (cs' ! k) + header_size + off" "unat off mod 32 = 0"
      "unat (used (cs' ! k)) = unat off + unat bytes"
      "k = length (take i cs) \<longrightarrow> unat (used (cs ! i)) \<le> unat off"
    by (elim exE conjE)
  have "length (take i cs) \<le> k" and k: "k < length cs'"
    using alloc_search_frame [OF cap searched(7) ok] by blast+
  then have ik: "i \<le> k" using searched(3) by simp
  have "{k} \<times> {unat off ..< unat off + unat bytes} \<inter> live_bytes ar = {}"
    using off(4) ik searched(3,6) by (auto simp: live_bytes_def)
  with off k searched(1,8) show ?thesis by (intro that [of k off]) simp_all
qed simp

lemma arena_grows_refl [simp]: "arena_grows ar ar"
  by (simp add: arena_grows_def split: option.splits)

lemma take_eq_nth: "take j xs = take j ys \<Longrightarrow> i < j \<Longrightarrow> xs ! i = ys ! i"
  by (metis nth_take)

lemma take_eq_le: "take j xs = take j ys \<Longrightarrow> i \<le> j \<Longrightarrow> take i xs = take i ys"
  by (metis min.absorb1 take_take)

lemma arena_grows_trans:
  assumes 1: "arena_grows a b" and 2: "arena_grows b c"
  shows "arena_grows a c"
proof -
  obtain e1 e2 where "sites (chunks b) = sites (chunks a) @ e1"
    "sites (chunks c) = sites (chunks b) @ e2"
    using 1 2 by (auto simp: arena_grows_def)
  then have sites: "sites (chunks c) = sites (chunks a) @ (e1 @ e2)" by simp
  show ?thesis
  proof (cases "current a")
    case None
    with 1 2 sites show ?thesis by (auto simp: arena_grows_def)
  next
    case (Some i)
    with 1 obtain j where j: "current b = Some j" "i \<le> j"
      "take i (chunks b) = take i (chunks a)"
      "unat (used (chunks a ! i)) \<le> unat (used (chunks b ! i))"
      by (auto simp: arena_grows_def)
    with 2 obtain k where k: "current c = Some k" "j \<le> k" "take j (chunks c) = take j (chunks b)"
      "unat (used (chunks b ! j)) \<le> unat (used (chunks c ! j))"
      by (auto simp: arena_grows_def)
    have "take i (chunks c) = take i (chunks a)"
      using take_eq_le [OF k(3) j(2)] j(3) by simp
    moreover have "unat (used (chunks b ! i)) \<le> unat (used (chunks c ! i))"
      using k(3,4) j(2) take_eq_nth [OF k(3), of i] by (cases "i = j") auto
    ultimately show ?thesis
      using 1 2 sites Some j k by (auto simp: arena_grows_def)
  qed
qed

lemma arena_grows_live: "arena_grows a b \<Longrightarrow> live_bytes a \<subseteq> live_bytes b"
proof
  fix x assume e: "arena_grows a b" and x: "x \<in> live_bytes a"
  obtain k n i where x': "x = (k, n)" "current a = Some i" "k \<le> i" "n < unat (used (chunks a ! k))"
    using x by (auto simp: live_bytes_def)
  with e obtain j where j: "current b = Some j" "i \<le> j" "take i (chunks b) = take i (chunks a)"
    "unat (used (chunks a ! i)) \<le> unat (used (chunks b ! i))"
    by (auto simp: arena_grows_def)
  have "n < unat (used (chunks b ! k))"
    using x' j take_eq_nth [OF j(3), of k] by (cases "k = i") auto
  with x' j show "x \<in> live_bytes b" by (auto simp: live_bytes_def)
qed

lemma sites_set_used:
  assumes "i < length cs"
  shows "sites (take i cs @ (cs ! i)\<lparr>used := us\<rparr> # map (\<lambda>c. c\<lparr>used := 0\<rparr>) (drop (Suc i) cs)) = sites cs"
proof -
  have "sites cs = take i (sites cs) @ sites cs ! i # drop (Suc i) (sites cs)"
    using assms by (intro id_take_nth_drop) simp
  then show ?thesis using assms by (simp add: take_map drop_map comp_def)
qed

lemma release_to_spec:
  assumes inv: "arena_inv ar" "arena_inv ar'" and e: "arena_grows ar ar'"
    and us: "us = (case current ar of None \<Rightarrow> 0 | Some i \<Rightarrow> used (chunks ar ! i))"
  shows "arena_inv (release_to ar' (current ar) us)"
    and "arena_grows ar (release_to ar' (current ar) us)"
    and "live_bytes (release_to ar' (current ar) us) = live_bytes ar"
proof -
  have "arena_inv (release_to ar' (current ar) us) \<and> arena_grows ar (release_to ar' (current ar) us) \<and>
        live_bytes (release_to ar' (current ar) us) = live_bytes ar"
  proof (cases "current ar")
    case None
    with inv e show ?thesis
      by (auto simp: release_to_def arena_inv_def arena_grows_def head_index_def live_bytes_def
          list_all_iff comp_def)
  next
    case (Some i)
    from e Some obtain j extra where j: "current ar' = Some j" "i \<le> j"
      "take i (chunks ar') = take i (chunks ar)"
      and x: "sites (chunks ar') = sites (chunks ar) @ extra"
      by (auto simp: arena_grows_def)
    have i: "i < length (chunks ar)" "i < length (chunks ar')"
      using inv Some j by (auto simp: arena_inv_def)
    let ?c = "(chunks ar' ! i)\<lparr>used := used (chunks ar ! i)\<rparr>"
    let ?cs = "take i (chunks ar') @ ?c # map (\<lambda>c. c\<lparr>used := 0\<rparr>) (drop (Suc i) (chunks ar'))"
    have same: "base (chunks ar' ! i) = base (chunks ar ! i)"
      "capacity (chunks ar' ! i) = capacity (chunks ar ! i)"
      using i arg_cong [OF x, of "\<lambda>l. l ! i"] by (simp_all add: nth_append)
    have "chunk_ok (chunks ar ! i)" using inv(1) i by (simp add: arena_inv_def list_all_length)
    then have "chunk_ok ?c" using same by (simp add: chunk_ok_def)
    then have ok: "list_all chunk_ok ?cs"
      using inv(2) by (auto simp: arena_inv_def list_all_iff dest: in_set_takeD in_set_dropD)
    have sites: "\<exists>extra. sites ?cs = sites (chunks ar) @ extra"
      using sites_set_used [OF i(2)] x by auto
    have nth: "?cs ! i = ?c" "\<And>k. k < i \<Longrightarrow> ?cs ! k = chunks ar ! k" "take i ?cs = take i (chunks ar)"
    proof -
      show "?cs ! i = ?c" using i(2) by (simp add: nth_append)
      show "take i ?cs = take i (chunks ar)" using i j(3) by simp
      fix k assume "k < i"
      then show "?cs ! k = chunks ar ! k"
        using i(2) take_eq_nth [OF j(3), of k] by (simp add: nth_append)
    qed
    have rel: "release_to ar' (current ar) us = ar'\<lparr>chunks := ?cs, current := Some i\<rparr>"
      using Some us by (simp add: release_to_def)
    have "arena_inv (ar'\<lparr>chunks := ?cs, current := Some i\<rparr>)"
      using ok i(2) inv(2) by (simp add: arena_inv_def)
    moreover have "arena_grows ar (ar'\<lparr>chunks := ?cs, current := Some i\<rparr>)"
      using sites nth(1,3) e Some by (simp add: arena_grows_def)
    moreover have "live_bytes (ar'\<lparr>chunks := ?cs, current := Some i\<rparr>) = live_bytes ar"
      using nth(1,2) Some by (auto simp: live_bytes_def le_less simp del: append_take_drop_id)
    ultimately show ?thesis unfolding rel by blast
  qed
  then show "arena_inv (release_to ar' (current ar) us)"
    and "arena_grows ar (release_to ar' (current ar) us)"
    and "live_bytes (release_to ar' (current ar) us) = live_bytes ar" by blast+
qed

text \<open>
  The contract of a frame stack: programs that allocate and open nested frames, run over the
  operations a stack provides.
\<close>

datatype ('h, 'r) prog = Alloc 'r | Frame 'h "('h, 'r) prog list"

fun run_prog ::
  "('s \<Rightarrow> 'h \<Rightarrow> 'f \<times> 's) \<Rightarrow> ('s \<Rightarrow> 'f \<Rightarrow> 's) \<Rightarrow> ('s \<Rightarrow> 'r \<Rightarrow> 's) \<Rightarrow> ('h, 'r) prog \<Rightarrow> 's \<Rightarrow> 's" where
  "run_prog beg fin alloc (Alloc r) s = alloc s r"
| "run_prog beg fin alloc (Frame h ps) s =
     (case beg s h of (f, s1) \<Rightarrow> fin (fold (run_prog beg fin alloc) ps s1) f)"

primrec prog_ok :: "('r \<Rightarrow> bool) \<Rightarrow> ('h, 'r) prog \<Rightarrow> bool" where
  "prog_ok ok (Alloc r) = ok r"
| "prog_ok ok (Frame h ps) = list_all (prog_ok ok) ps"

locale frame_stack =
  fixes beg :: "'s \<Rightarrow> 'h \<Rightarrow> 'f \<times> 's" and fin :: "'s \<Rightarrow> 'f \<Rightarrow> 's" and alloc :: "'s \<Rightarrow> 'r \<Rightarrow> 's"
    and live :: "'s \<Rightarrow> 'b set" and ext :: "'s \<Rightarrow> 's \<Rightarrow> bool" and inv :: "'s \<Rightarrow> bool"
    and ok :: "'r \<Rightarrow> bool"
  assumes ext_refl: "ext s s"
    and ext_trans: "ext s t \<Longrightarrow> ext t u \<Longrightarrow> ext s u"
    and ext_live: "ext s t \<Longrightarrow> live s \<subseteq> live t"
    and alloc_law: "inv s \<Longrightarrow> ok r \<Longrightarrow> inv (alloc s r) \<and> ext s (alloc s r)"
    and beg_law: "inv s \<Longrightarrow> beg s h = (f, t) \<Longrightarrow> inv t"
    and fin_law: "inv s \<Longrightarrow> beg s h = (f, t) \<Longrightarrow> inv u \<Longrightarrow> ext t u \<Longrightarrow>
       inv (fin u f) \<and> ext s (fin u f) \<and> live (fin u f) = live s"
begin

lemma fold_keeps:
  assumes "\<And>p s. p \<in> set ps \<Longrightarrow> inv s \<Longrightarrow> inv (run p s) \<and> ext s (run p s)" and "inv s"
  shows "inv (fold run ps s) \<and> ext s (fold run ps s)"
  using assms
proof (induction ps arbitrary: s)
  case Nil
  then show ?case by (simp add: ext_refl)
next
  case (Cons p ps)
  then have p: "inv (run p s)" "ext s (run p s)" by auto
  with Cons have "inv (fold run ps (run p s)) \<and> ext (run p s) (fold run ps (run p s))" by simp
  with p show ?case using ext_trans by auto
qed

lemma run_keeps:
  "prog_ok ok p \<Longrightarrow> inv s \<Longrightarrow> inv (run_prog beg fin alloc p s) \<and> ext s (run_prog beg fin alloc p s)"
proof (induction p arbitrary: s)
  case (Alloc r)
  then show ?case using alloc_law by simp
next
  case (Frame h ps)
  obtain f t where b: "beg s h = (f, t)" by (cases "beg s h")
  have "inv t" using beg_law Frame.prems b by blast
  then have "inv (fold (run_prog beg fin alloc) ps t) \<and> ext t (fold (run_prog beg fin alloc) ps t)"
    using Frame by (intro fold_keeps) (auto simp: list_all_iff)
  then show ?case using fin_law [OF Frame.prems(2) b] b by simp
qed

lemma frame_restores:
  assumes "list_all (prog_ok ok) ps" and "inv s"
  shows "live (run_prog beg fin alloc (Frame h ps) s) = live s"
proof -
  obtain f t where b: "beg s h = (f, t)" by (cases "beg s h")
  have "inv t" using beg_law assms b by blast
  then have "inv (fold (run_prog beg fin alloc) ps t) \<and> ext t (fold (run_prog beg fin alloc) ps t)"
    using assms run_keeps by (intro fold_keeps) (auto simp: list_all_iff)
  then show ?thesis using fin_law [OF assms(2) b] b by simp
qed

lemma run_live: "prog_ok ok p \<Longrightarrow> inv s \<Longrightarrow> live s \<subseteq> live (run_prog beg fin alloc p s)"
  using run_keeps ext_live by blast

end

text \<open>The arenas of all shells provide that contract.\<close>

definition scratch_inv :: "scratch \<Rightarrow> bool" where
  "scratch_inv g \<longleftrightarrow> (\<forall>s. arena_inv (arenas g s))"

definition scratch_live :: "scratch \<Rightarrow> (nat \<times> nat \<times> nat) set" where
  "scratch_live g = {(s, b). b \<in> live_bytes (arenas g s)}"

definition scratch_ext :: "scratch \<Rightarrow> scratch \<Rightarrow> bool" where
  "scratch_ext g g' \<longleftrightarrow> active_shell g' = active_shell g \<and>
     (\<forall>s. arena_grows (arenas g s) (arenas g' s) \<and>
          (Some s \<noteq> active_shell g \<longrightarrow> live_bytes (arenas g' s) = live_bytes (arenas g s)))"

definition scratch_request_ok :: "size_t \<times> size_t \<times> mallocs \<Rightarrow> bool" where
  "scratch_request_ok r = (case r of (count, sz, ms) \<Rightarrow> unat count * unat sz < 2 ^ 62)"

definition scratch_alloc :: "scratch \<Rightarrow> size_t \<times> size_t \<times> mallocs \<Rightarrow> scratch" where
  "scratch_alloc g r =
     (case r of (count, sz, ms) \<Rightarrow> fst (snd (arksh_scratch_alloc_active_zero g count sz ms)))"

definition scratch_end :: "scratch \<Rightarrow> frame \<Rightarrow> scratch" where
  "scratch_end g fr = snd (arksh_scratch_frame_end g fr)"

lemma scratch_alloc_law:
  assumes "scratch_inv g" and "scratch_request_ok r"
  shows "scratch_inv (scratch_alloc g r) \<and> scratch_ext g (scratch_alloc g r)"
proof (cases "active_shell g")
  case None
  with assms show ?thesis
    by (auto simp: scratch_alloc_def arksh_scratch_alloc_active_zero_def scratch_ext_def
        split: prod.splits)
next
  case (Some s)
  obtain count sz ms where r: "r = (count, sz, ms)" by (cases r)
  obtain q ar ms' where e: "arksh_scratch_alloc_zero (arenas g s) count sz ms = (q, ar, ms')"
    by (metis prod_cases3)
  have "arena_inv ar \<and> arena_grows (arenas g s) ar"
    using alloc_zero_ok [OF e] assms by (simp add: r scratch_inv_def scratch_request_ok_def)
  with Some e r assms(1) show ?thesis
    by (simp add: scratch_alloc_def arksh_scratch_alloc_active_zero_def scratch_ext_def
        scratch_inv_def)
qed

lemma scratch_fin_law:
  assumes inv: "scratch_inv g" "scratch_inv u"
    and b: "arksh_scratch_frame_begin g sh = (f, t)" and e: "scratch_ext t u"
  shows "scratch_inv (scratch_end u f) \<and> scratch_ext g (scratch_end u f) \<and>
         scratch_live (scratch_end u f) = scratch_live g"
proof (cases sh)
  case None
  with b have "t = g\<lparr>active_shell := None\<rparr>" "fr_shell f = None" "previous_shell f = active_shell g"
    "fr_active f"
    by (auto simp: arksh_scratch_frame_begin_def)
  with inv e show ?thesis
    by (auto simp: scratch_end_def arksh_scratch_frame_end_def scratch_inv_def scratch_ext_def
        scratch_live_def)
next
  case (Some s)
  let ?us = "case current (arenas g s) of None \<Rightarrow> 0 | Some i \<Rightarrow> used (chunks (arenas g s) ! i)"
  from b Some have t: "t = g\<lparr>active_shell := Some s\<rparr>" and f: "fr_shell f = Some s"
    "previous_shell f = active_shell g" "fr_chunk f = current (arenas g s)" "fr_used f = ?us"
    "fr_active f"
    by (auto simp: arksh_scratch_frame_begin_def Let_def)
  let ?r = "release_to (arenas u s) (current (arenas g s)) ?us"
  have end': "scratch_end u f = u\<lparr>arenas := (arenas u)(s := ?r), active_shell := active_shell g\<rparr>"
    using f by (simp add: scratch_end_def arksh_scratch_frame_end_def)
  have "arena_grows (arenas g s) (arenas u s)" using e t by (simp add: scratch_ext_def)
  from release_to_spec [OF _ _ this refl] inv
  have r: "arena_inv ?r" "arena_grows (arenas g s) ?r" "live_bytes ?r = live_bytes (arenas g s)"
    by (simp_all add: scratch_inv_def)
  have o: "arena_grows (arenas g s') (arenas u s')"
    "live_bytes (arenas u s') = live_bytes (arenas g s')" if "s' \<noteq> s" for s'
    using e t that by (auto simp: scratch_ext_def)
  from r o inv show ?thesis
    by (auto simp: end' scratch_inv_def scratch_ext_def scratch_live_def split: if_splits)
qed

interpretation arena_frames: frame_stack arksh_scratch_frame_begin scratch_end scratch_alloc
  scratch_live scratch_ext scratch_inv scratch_request_ok
proof unfold_locales
  fix s t u :: scratch
  show "scratch_ext s s" by (simp add: scratch_ext_def)
  show "scratch_ext s t \<Longrightarrow> scratch_ext t u \<Longrightarrow> scratch_ext s u"
    by (auto simp: scratch_ext_def intro: arena_grows_trans)
  show "scratch_ext s t \<Longrightarrow> scratch_live s \<subseteq> scratch_live t"
    using arena_grows_live by (auto simp: scratch_ext_def scratch_live_def)
next
  fix s t :: scratch and h f
  assume "scratch_inv s" and "arksh_scratch_frame_begin s h = (f, t)"
  then show "scratch_inv t"
    by (auto simp: scratch_inv_def arksh_scratch_frame_begin_def Let_def)
qed (use scratch_alloc_law scratch_fin_law in blast)+

subsection \<open>Requests close to the end of the address space\<close>

lemma alloc_search_exhausts:
  assumes "\<And>a. \<not> fits (fresh_chunk a cap) bytes"
  shows "\<not> fits c bytes \<Longrightarrow>
     \<exists>cs k. alloc_search cap bytes pre c [] (map Some as) = (None, cs, k, []) \<and>
            length cs = length pre + 1 + length as"
proof (induction as arbitrary: pre c)
  case Nil
  then show ?case by (simp add: alloc_search_fail)
next
  case (Cons a as)
  then show ?case using Cons.IH [OF assms, of "pre @ [c]" a] by (simp add: alloc_search_grow)
qed

lemma huge_request_never_fits:
  assumes "2 ^ 64 - 32 \<le> unat bytes"
  shows "\<not> fits (fresh_chunk a (64 * 1024)) bytes"
    and "chunk_capacity_for arksh_scratch_arena_init bytes = 64 * 1024"
proof -
  have "align_up 0 max_align = 0" by (simp add: align_up_def max_align_def)
  then show "\<not> fits (fresh_chunk a (64 * 1024)) bytes"
    using assms by (simp add: word_le_nat_alt)
  have lt: "unat bytes + 32 - 2 ^ 64 < 32"
    using unat_size_t [of bytes] by simp
  have "unat (bytes + max_align) = (unat bytes + 32) mod 2 ^ 64"
    by (simp add: max_align_def unat_word_ariths)
  also have "\<dots> = (unat bytes + 32 - 2 ^ 64) mod 2 ^ 64"
    using assms by (intro le_mod_geq) simp
  also have "\<dots> = unat bytes + 32 - 2 ^ 64"
    using lt by (intro mod_less) simp
  finally have "unat (bytes + max_align) < 32" using lt by simp
  then show "chunk_capacity_for arksh_scratch_arena_init bytes = 64 * 1024"
    by (simp add: chunk_capacity_for_def arksh_scratch_arena_init_def word_less_nat_alt)
qed

lemma header_offset_mod: "(b :: nat) mod 16 = 0 \<Longrightarrow> n mod 16 = 0 \<Longrightarrow> (b + 24 + n) mod 16 = 8"
proof -
  assume "b mod 16 = 0" "n mod 16 = 0"
  then obtain x y where "b = 16 * x" "n = 16 * y" by (auto elim!: dvdE)
  then have "b + 24 + n = 8 + 16 * (x + 1 + y)" by simp
  then show ?thesis by (simp only: mod_mult_self2) simp
qed

lemma scratch_alloc_disjoint_region:
  assumes "arksh_scratch_alloc_zero ar count sz ms = (Some a, ar', ms')" and "arena_inv ar"
    and "unat count * unat sz < 2 ^ 62"
  shows "arena_inv ar' \<and> live_bytes ar \<subseteq> live_bytes ar' \<and>
    (\<exists>k off. k < length (chunks ar') \<and> a = base (chunks ar' ! k) + header_size + off \<and>
       unat off mod 32 = 0 \<and>
       unat off + unat count * unat sz \<le> unat (capacity (chunks ar' ! k)) \<and>
       {k} \<times> {unat off ..< unat off + unat count * unat sz} \<inter> live_bytes ar = {} \<and>
       {k} \<times> {unat off ..< unat off + unat count * unat sz} \<subseteq> live_bytes ar')"
proof -
  have ok: "arena_inv ar'" "live_bytes ar \<subseteq> live_bytes ar'"
    using alloc_zero_ok [OF assms] arena_grows_live by blast+
  from assms show ?thesis
  proof (rule alloc_zero_region)
    fix k off
    assume a: "a = base (chunks ar' ! k) + header_size + off" "current ar' = Some k"
      "k < length (chunks ar')" "unat off mod 32 = 0"
      "unat (used (chunks ar' ! k)) = unat off + unat count * unat sz"
      "{k} \<times> {unat off ..< unat off + unat count * unat sz} \<inter> live_bytes ar = {}"
    have "chunk_ok (chunks ar' ! k)"
      using ok(1) a(3) by (simp add: arena_inv_def list_all_length)
    then have "unat off + unat count * unat sz \<le> unat (capacity (chunks ar' ! k))"
      using a(5) by (simp add: chunk_ok_def word_le_nat_alt)
    moreover have "{k} \<times> {unat off ..< unat off + unat count * unat sz} \<subseteq> live_bytes ar'"
      using a(2,5) by (auto simp: live_bytes_def)
    ultimately show ?thesis
      by (intro conjI exI [of _ k] exI [of _ off] ok a(1,3,4,6))
  qed
qed

subsection \<open>Properties\<close>

text \<open>
  (C23) An allocation hands out bytes no live allocation holds: under the invariant, a request of
  less than 2^62 bytes that succeeds names a chunk of the new chain and an offset in its data
  area, a multiple of 32, such that the bytes from there on are not live before, are live after,
  and fit in the chunk; whatever was live stays live, and the invariant holds again.
\<close>

theorem scratch_alloc_disjoint:
  assumes "arksh_scratch_alloc_zero ar count sz ms = (Some a, ar', ms')" and "arena_inv ar"
    and "unat count * unat sz < 2 ^ 62"
  shows "arena_inv ar' \<and> live_bytes ar \<subseteq> live_bytes ar' \<and>
    (\<exists>k off. k < length (chunks ar') \<and> a = base (chunks ar' ! k) + header_size + off \<and>
       unat off mod 32 = 0 \<and>
       unat off + unat count * unat sz \<le> unat (capacity (chunks ar' ! k)) \<and>
       {k} \<times> {unat off ..< unat off + unat count * unat sz} \<inter> live_bytes ar = {} \<and>
       {k} \<times> {unat off ..< unat off + unat count * unat sz} \<subseteq> live_bytes ar')"
  using assms by (rule scratch_alloc_disjoint_region)

text \<open>
  Frames nest: opening a frame, running any program that allocates and opens further frames
  (on any shell), and closing the frame leaves the live bytes of every shell as they were.
\<close>

theorem scratch_frame_restores:
  assumes "list_all (prog_ok scratch_request_ok) ps" and "scratch_inv g"
  shows "scratch_live (run_prog arksh_scratch_frame_begin scratch_end scratch_alloc (Frame h ps) g)
           = scratch_live g"
  using assms by (rule arena_frames.frame_restores)

text \<open>
  A request within 32 bytes of the end of the address space wraps the chunk size computed
  for it, so the fresh arena takes every block \<open>malloc\<close> grants, as many as there are, and still
  returns NULL: the search only ends when \<open>malloc\<close> fails.
\<close>

theorem scratch_alloc_huge_exhausts_malloc:
  assumes "2 ^ 64 - 32 \<le> unat bytes"
  shows "\<exists>ar. arksh_scratch_alloc_zero arksh_scratch_arena_init bytes 1 (map Some as) = (None, ar, [])
           \<and> length (chunks ar) = length as"
proof (cases as)
  case Nil
  have "bytes \<noteq> 0" using assms by auto
  with Nil show ?thesis
    by (auto simp: arksh_scratch_alloc_zero_def multiply_size_def ensure_current_def
        arksh_scratch_arena_init_def)
next
  case (Cons a as')
  have "bytes \<noteq> 0" using assms by auto
  moreover have "multiply_size bytes 1 = Some bytes"
    using multiply_size_None [of bytes 1] multiply_size_Some [of bytes 1] unat_size_t [of bytes]
    by (cases "multiply_size bytes 1") (auto intro: word_unat_eq_iff [THEN iffD2])
  moreover obtain cs k where "alloc_search (64 * 1024) bytes [] (fresh_chunk a (64 * 1024)) [] (map Some as')
      = (None, cs, k, [])" "length cs = 1 + length as'"
    using alloc_search_exhausts [OF huge_request_never_fits(1) [OF assms] huge_request_never_fits(1) [OF assms]]
    by fastforce
  ultimately show ?thesis
    using Cons huge_request_never_fits(2) [OF assms]
    by (auto simp: arksh_scratch_alloc_zero_def ensure_current_def arksh_scratch_arena_init_def)
qed

text \<open>
  The addresses handed out are not aligned for \<open>max_align_t\<close>: over blocks aligned to 16
  bytes, as \<open>malloc\<close> returns them, every result is 8 modulo 16.
\<close>

theorem scratch_alloc_alignment:
  assumes "arksh_scratch_alloc_zero ar count sz ms = (Some a, ar', ms')" and "arena_inv ar"
    and "unat count * unat sz < 2 ^ 62"
    and "list_all (\<lambda>c. unat (base c) mod 16 = 0) (chunks ar')"
  shows "unat a mod 16 = 8"
  using assms(1-3)
proof (rule alloc_zero_region)
  fix k off
  assume a: "a = base (chunks ar' ! k) + header_size + off" and "k < length (chunks ar')"
    and off: "unat off mod 32 = 0"
  then have "unat (base (chunks ar' ! k)) mod 16 = 0"
    using assms(4) by (simp add: list_all_length)
  moreover have "unat off mod 16 = 0"
    using off by presburger
  moreover have "unat a mod 16 = (unat (base (chunks ar' ! k)) + 24 + unat off) mod 16"
  proof -
    have "unat a = (unat (base (chunks ar' ! k)) + 24 + unat off) mod 2 ^ 64"
      by (simp add: a header_size_def unat_word_ariths mod_simps)
    then show ?thesis by (simp only:) (rule mod_mod_cancel, simp)
  qed
  ultimately show ?thesis by (simp only: header_offset_mod)
qed

subsection \<open>Witnesses\<close>

lemma arena_init_inv: "arena_inv arksh_scratch_arena_init"
  by (simp add: arena_inv_def arksh_scratch_arena_init_def)

lemma alloc_example:
  "arksh_scratch_alloc_zero arksh_scratch_arena_init 5 8 [Some 4096] =
     (Some 4120, \<lparr>chunks = [\<lparr>base = 4096, capacity = 65536, used = 40\<rparr>], current = Some 0,
                  default_chunk_size = 65536\<rparr>, [])"
proof -
  have "align_up 0 max_align = 0" by (simp add: align_up_def max_align_def)
  then have "alloc_search 65536 40 [] (fresh_chunk 4096 65536) [] [] =
      (Some 4120, [\<lparr>base = 4096, capacity = 65536, used = 40\<rparr>], 0, [])"
    by (subst alloc_search_fit) (simp_all add: header_size_def)
  then show ?thesis
    by (simp add: arksh_scratch_alloc_zero_def arksh_scratch_arena_init_def multiply_size_def
        ensure_current_def chunk_capacity_for_def max_align_def)
qed

theorem scratch_alloc_disjoint_witness:
  "\<exists>ar'. arksh_scratch_alloc_zero arksh_scratch_arena_init 5 8 [Some 4096] = (Some 4120, ar', []) \<and>
     arena_inv ar' \<and> live_bytes arksh_scratch_arena_init \<subseteq> live_bytes ar'"
proof -
  have "unat (5 :: size_t) * unat (8 :: size_t) < 2 ^ 62" by simp
  from scratch_alloc_disjoint [OF alloc_example arena_init_inv this] alloc_example
  show ?thesis by blast
qed

theorem scratch_frame_restores_witness:
  "scratch_live (run_prog arksh_scratch_frame_begin scratch_end scratch_alloc
      (Frame (Some 0) [Alloc (5, 8, [Some 4096]), Frame (Some 1) [Alloc (1, 8, [Some 8192])]])
      \<lparr>arenas = \<lambda>_. arksh_scratch_arena_init, active_shell = None\<rparr>)
   = scratch_live \<lparr>arenas = \<lambda>_. arksh_scratch_arena_init, active_shell = None\<rparr>"
  by (rule scratch_frame_restores)
    (simp_all add: scratch_request_ok_def scratch_inv_def arena_init_inv)

theorem scratch_alloc_huge_exhausts_malloc_witness:
  "\<exists>ar. arksh_scratch_alloc_zero arksh_scratch_arena_init (- 16) 1 (map Some [4096, 8192, 12288])
          = (None, ar, []) \<and> length (chunks ar) = 3"
proof -
  have "2 ^ 64 - 32 \<le> unat (- 16 :: size_t)" by simp
  from scratch_alloc_huge_exhausts_malloc [OF this, of "[4096, 8192, 12288]"]
  show ?thesis by (simp add: eval_nat_numeral)
qed

theorem scratch_alloc_alignment_witness: "unat (4120 :: size_t) mod 16 = 8"
  using scratch_alloc_alignment [OF alloc_example arena_init_inv] by simp

end
