(* ===== verification/Perf.thy ===== *)
theory Perf
  imports Arena
begin

text \<open>
  The allocation counters of \<^verbatim>\<open>src/perf.c\<close>.  The global counter block is a record of 64-bit
  words (\<open>unsigned long long\<close>), passed and returned.  The wrapped allocator calls are the caller's
  (\<open>malloc\<close> results are arguments); what a wrapper decides is which counters move and whether the
  block is handed to \<open>free\<close>.
\<close>

type_synonym ull = "64 word"

record perf_counters =
  enabled :: bool
  malloc_calls :: ull
  calloc_calls :: ull
  realloc_calls :: ull
  free_calls :: ull
  malloc_bytes :: ull
  calloc_bytes :: ull
  realloc_bytes :: ull
  temp_buffer_calls :: ull
  temp_buffer_bytes :: ull
  value_copy_calls :: ull
  value_render_calls :: ull

definition perf_zero :: perf_counters where
  "perf_zero = \<lparr>enabled = False, malloc_calls = 0, calloc_calls = 0, realloc_calls = 0,
     free_calls = 0, malloc_bytes = 0, calloc_bytes = 0, realloc_bytes = 0,
     temp_buffer_calls = 0, temp_buffer_bytes = 0, value_copy_calls = 0, value_render_calls = 0\<rparr>"

definition multiply_ull :: "size_t \<Rightarrow> size_t \<Rightarrow> ull" where
  "multiply_ull left right =
     (if left = 0 \<or> right = 0 then 0
      else if left > (- 1) div right then - 1
      else left * right)"

definition arksh_perf_enable :: "int \<Rightarrow> perf_counters \<Rightarrow> perf_counters" where
  "arksh_perf_enable flag g = g\<lparr>enabled := flag \<noteq> 0\<rparr>"

definition arksh_perf_reset :: "perf_counters \<Rightarrow> perf_counters" where
  "arksh_perf_reset g = perf_zero\<lparr>enabled := enabled g\<rparr>"

definition arksh_perf_note_temp_buffer :: "size_t \<Rightarrow> size_t \<Rightarrow> perf_counters \<Rightarrow> perf_counters" where
  "arksh_perf_note_temp_buffer count item_size g =
     (if \<not> enabled g then g
      else g\<lparr>temp_buffer_calls := temp_buffer_calls g + 1,
             temp_buffer_bytes := temp_buffer_bytes g + multiply_ull count item_size\<rparr>)"

definition arksh_perf_note_value_copy :: "perf_counters \<Rightarrow> perf_counters" where
  "arksh_perf_note_value_copy g =
     (if \<not> enabled g then g else g\<lparr>value_copy_calls := value_copy_calls g + 1\<rparr>)"

definition arksh_perf_note_value_render :: "perf_counters \<Rightarrow> perf_counters" where
  "arksh_perf_note_value_render g =
     (if \<not> enabled g then g else g\<lparr>value_render_calls := value_render_calls g + 1\<rparr>)"

definition arksh_perf_malloc_impl :: "size_t \<Rightarrow> perf_counters \<Rightarrow> perf_counters" where
  "arksh_perf_malloc_impl sz g =
     (if enabled g then g\<lparr>malloc_calls := malloc_calls g + 1, malloc_bytes := malloc_bytes g + sz\<rparr>
      else g)"

definition arksh_perf_calloc_impl :: "size_t \<Rightarrow> size_t \<Rightarrow> perf_counters \<Rightarrow> perf_counters" where
  "arksh_perf_calloc_impl count sz g =
     (if enabled g
      then g\<lparr>calloc_calls := calloc_calls g + 1,
             calloc_bytes := calloc_bytes g + multiply_ull count sz\<rparr>
      else g)"

definition arksh_perf_realloc_impl :: "size_t \<Rightarrow> perf_counters \<Rightarrow> perf_counters" where
  "arksh_perf_realloc_impl sz g =
     (if enabled g
      then g\<lparr>realloc_calls := realloc_calls g + 1, realloc_bytes := realloc_bytes g + sz\<rparr>
      else g)"

text \<open>The counters after the call, and whether the block went to \<open>free\<close>.\<close>

definition arksh_perf_free_impl :: "scratch \<Rightarrow> size_t \<Rightarrow> perf_counters \<Rightarrow> perf_counters \<times> bool" where
  "arksh_perf_free_impl sc ptr g =
     (if ptr = 0 then (g, False)
      else if arksh_scratch_active_contains sc ptr then (g, False)
      else (if enabled g then g\<lparr>free_calls := free_calls g + 1\<rparr> else g, True))"

lemma multiply_ull_eq:
  "unat (multiply_ull a b) = (if unat a * unat b < 2 ^ 64 then unat a * unat b else 2 ^ 64 - 1)"
proof (cases "multiply_size a b")
  case None
  then have "2 ^ 64 \<le> unat a * unat b" by (rule multiply_size_None)
  moreover have "multiply_ull a b = - 1"
    using None by (auto simp: multiply_ull_def multiply_size_def split: if_splits)
  ultimately show ?thesis by simp
next
  case (Some n)
  then have "multiply_ull a b = n"
    by (auto simp: multiply_ull_def multiply_size_def split: if_splits)
  moreover have "unat n = unat a * unat b" by (rule multiply_size_Some [OF Some])
  ultimately show ?thesis using unat_size_t [of n] by simp
qed

text \<open>Data areas that do not reach past the end of the address space.\<close>

definition chunk_placed :: "chunk \<Rightarrow> bool" where
  "chunk_placed c \<longleftrightarrow> unat (base c) + 24 + unat (capacity c) < 2 ^ 64 \<and> 0 < unat (base c)"

lemma chunk_contains_offset:
  assumes "chunk_placed c" and "unat off < unat (capacity c)"
  shows "chunk_contains c (base c + header_size + off)" and "base c + header_size + off \<noteq> 0"
proof -
  have "unat (base c + header_size + off) = unat (base c) + 24 + unat off"
    "unat (base c + header_size) = unat (base c) + 24"
    "unat (base c + header_size + capacity c) = unat (base c) + 24 + unat (capacity c)"
    using assms by (simp_all add: header_size_def chunk_placed_def unat_word_ariths)
  then show "chunk_contains c (base c + header_size + off)" "base c + header_size + off \<noteq> 0"
    using assms by (auto simp: chunk_contains_def Let_def word_le_nat_alt word_less_nat_alt
        word_unat_eq_iff)
qed

text \<open>
  Memory handed out by the active arena never reaches \<open>free\<close>: a successful allocation by the
  active shell, over chunks placed inside the address space, returns a pointer that the \<open>free\<close>
  wrapper recognises, so it changes no counter and releases nothing.
\<close>

theorem perf_free_spares_arena:
  assumes "active_shell g = Some s" and "scratch_inv g"
    and "arksh_scratch_alloc_active_zero g count sz ms = (Some a, g', ms')"
    and "unat count * unat sz < 2 ^ 62" and "list_all chunk_placed (chunks (arenas g' s))"
    and "count \<noteq> 0" and "sz \<noteq> 0"
  shows "arksh_perf_free_impl g' a pc = (pc, False)"
proof -
  obtain q ar ms'' where e: "arksh_scratch_alloc_zero (arenas g s) count sz ms = (q, ar, ms'')"
    by (metis prod_cases3)
  with assms(1,3) have e: "arksh_scratch_alloc_zero (arenas g s) count sz ms = (Some a, ar, ms')"
    and g': "g' = g\<lparr>arenas := (arenas g)(s := ar)\<rparr>"
    by (auto simp: arksh_scratch_alloc_active_zero_def)
  have inv: "arena_inv (arenas g s)" using assms(2) by (simp add: scratch_inv_def)
  obtain k off where k: "k < length (chunks ar)" "a = base (chunks ar ! k) + header_size + off"
    and le: "unat off + unat count * unat sz \<le> unat (capacity (chunks ar ! k))"
    using scratch_alloc_disjoint_region [OF e inv assms(4)] by metis
  have "0 < unat count * unat sz" using assms(6,7) by (simp add: unat_gt_0)
  with le have lt: "unat off < unat (capacity (chunks ar ! k))" by linarith
  have "chunk_placed (chunks ar ! k)" using assms(5) k(1) g' by (simp add: list_all_length)
  from chunk_contains_offset [OF this lt] k
  have "a \<noteq> 0" "list_ex (\<lambda>c. chunk_contains c a) (chunks ar)"
    by (auto simp: list_ex_length)
  with assms(1) g' show ?thesis
    by (simp add: arksh_perf_free_impl_def arksh_scratch_active_contains_def)
qed

theorem perf_free_spares_arena_witness:
  "\<exists>g'. arksh_scratch_alloc_active_zero
      \<lparr>arenas = \<lambda>_. arksh_scratch_arena_init, active_shell = Some 0\<rparr> 5 8 [Some 4096] = (Some 4120, g', []) \<and>
    arksh_perf_free_impl g' 4120 perf_zero = (perf_zero, False)"
proof -
  let ?g = "\<lparr>arenas = \<lambda>_. arksh_scratch_arena_init, active_shell = Some 0\<rparr>"
  obtain g' where e: "arksh_scratch_alloc_active_zero ?g 5 8 [Some 4096] = (Some 4120, g', [])"
    and c: "chunks (arenas g' 0) = [\<lparr>base = 4096, capacity = 65536, used = 40\<rparr>]"
    by (simp add: arksh_scratch_alloc_active_zero_def alloc_example)
  have "list_all chunk_placed (chunks (arenas g' 0))"
    unfolding c by (simp add: chunk_placed_def)
  then have "arksh_perf_free_impl g' 4120 perf_zero = (perf_zero, False)"
    by (intro perf_free_spares_arena [OF _ _ e]) (simp_all add: scratch_inv_def arena_init_inv)
  with e show ?thesis by blast
qed

subsection \<open>Accounting over runs\<close>

datatype perf_op =
    Op_malloc size_t | Op_calloc size_t size_t | Op_realloc size_t | Op_temp size_t size_t
  | Op_copy | Op_render | Op_enable int

fun perf_step :: "perf_op \<Rightarrow> perf_counters \<Rightarrow> perf_counters" where
  "perf_step (Op_malloc n) g = arksh_perf_malloc_impl n g"
| "perf_step (Op_calloc n m) g = arksh_perf_calloc_impl n m g"
| "perf_step (Op_realloc n) g = arksh_perf_realloc_impl n g"
| "perf_step (Op_temp n m) g = arksh_perf_note_temp_buffer n m g"
| "perf_step Op_copy g = arksh_perf_note_value_copy g"
| "perf_step Op_render g = arksh_perf_note_value_render g"
| "perf_step (Op_enable b) g = arksh_perf_enable b g"

text \<open>What a run should have counted: the operations met while the switch was on.\<close>

fun recorded :: "bool \<Rightarrow> perf_op list \<Rightarrow> perf_op list" where
  "recorded on [] = []"
| "recorded on (Op_enable b # ops) = recorded (b \<noteq> 0) ops"
| "recorded on (x # ops) = (if on then x # recorded on ops else recorded on ops)"

fun malloc_size :: "perf_op \<Rightarrow> size_t" where
  "malloc_size (Op_malloc n) = n"
| "malloc_size _ = 0"

fun calloc_size :: "perf_op \<Rightarrow> ull" where
  "calloc_size (Op_calloc n m) = multiply_ull n m"
| "calloc_size _ = 0"

fun is_malloc :: "perf_op \<Rightarrow> bool" where
  "is_malloc (Op_malloc _) = True"
| "is_malloc _ = False"

lemmas perf_op_defs = arksh_perf_malloc_impl_def arksh_perf_calloc_impl_def
  arksh_perf_realloc_impl_def arksh_perf_note_temp_buffer_def arksh_perf_note_value_copy_def
  arksh_perf_note_value_render_def arksh_perf_enable_def

text \<open>
  Profiling counts exactly what happens while it is on: after any run of allocator calls,
  notes and switches, the \<open>malloc\<close> counter has grown by the number of \<open>malloc\<close> calls made while
  enabled, the byte counters by the sums of their sizes (a \<open>calloc\<close> product that overflows counts
  as the largest value), all modulo 2^64.
\<close>

theorem perf_accounting:
  "malloc_calls (fold perf_step ops g) =
     malloc_calls g + of_nat (length (filter is_malloc (recorded (enabled g) ops))) \<and>
   malloc_bytes (fold perf_step ops g) =
     malloc_bytes g + sum_list (map malloc_size (recorded (enabled g) ops)) \<and>
   calloc_bytes (fold perf_step ops g) =
     calloc_bytes g + sum_list (map calloc_size (recorded (enabled g) ops))"
proof (induction ops arbitrary: g)
  case Nil
  show ?case by simp
next
  case (Cons x ops)
  then show ?case by (cases x) (simp_all add: perf_op_defs)
qed

end
