(* ===== verification/Lexer.thy ===== *)
theory Lexer
  imports Arksh_Prelude
begin

text \<open>
  The lexer of \<^verbatim>\<open>src/lexer.c\<close>, function by function.  The scanners take the rest of the line (the
  characters from \<open>line[*index]\<close> on) and return the rest that is left, so an index is the
  difference of two lengths; \<open>raw\<close> and \<open>cooked\<close> are the token buffers built so far, of capacity
  \<open>ARKSH_MAX_TOKEN\<close>.  Every \<open>snprintf (error, ...)\<close> with its \<open>return 1\<close> is a value of
  \<open>lex_error\<close>.  The loop of \<open>arksh_lex_line\<close> is a step function on the loop's variables, iterated.
\<close>

definition max_token :: nat where
  "max_token = 256"

definition max_lexer_tokens :: nat where
  "max_lexer_tokens = 128"

datatype token_kind =
    Tok_invalid | Tok_eof | Tok_word | Tok_string | Tok_arrow | Tok_object_pipe | Tok_shell_pipe
  | Tok_redirect_in | Tok_redirect_out | Tok_redirect_append | Tok_proc_subst_in
  | Tok_proc_subst_out | Tok_here_string | Tok_heredoc | Tok_heredoc_strip | Tok_redirect_error
  | Tok_redirect_error_append | Tok_redirect_error_to_output | Tok_redirect_fd_in
  | Tok_redirect_fd_out | Tok_redirect_fd_append | Tok_redirect_dup_in | Tok_redirect_dup_out
  | Tok_and_if | Tok_or_if | Tok_sequence | Tok_background | Tok_lparen | Tok_rparen | Tok_comma

record token =
  tok_kind :: token_kind
  tok_text :: string
  tok_raw :: string
  tok_pos :: nat

datatype lex_error =
    Too_long string
  | Invalid_arith_start | Dangling_escape_arith | Unterminated_arith
  | Dangling_escape_cmdsubst | Unterminated_cmdsubst
  | Dangling_escape_line | Dangling_escape_dquote | Unterminated_string | Invalid_token nat
  | Invalid_procsubst_start | Dangling_escape_procsubst | Unterminated_procsubst
  | Fd_token_too_long | Too_many_tokens | Unterminated_conditional

subsection \<open>Buffers\<close>

definition append_char :: "string \<Rightarrow> string \<Rightarrow> char \<Rightarrow> lex_error + string" where
  "append_char label dest c =
     (if length dest + 1 \<ge> max_token then Inl (Too_long label) else Inr (dest @ [c]))"

fun append_chars :: "string \<Rightarrow> string \<Rightarrow> string \<Rightarrow> lex_error + string" where
  "append_chars label dest [] = Inr dest"
| "append_chars label dest (c # cs) =
     bind_err (append_char label dest c) (\<lambda>d. append_chars label d cs)"

text \<open>The sources' chained calls: to the raw buffer first, then to the cooked one.\<close>

definition append_both ::
  "string \<Rightarrow> string \<Rightarrow> string \<Rightarrow> string \<Rightarrow> lex_error + (string \<times> string)" where
  "append_both label raw_buf cooked s =
     bind_err (append_chars ''raw token'' raw_buf s) (\<lambda>r.
     bind_err (append_chars label cooked s) (\<lambda>k. Inr (r, k)))"

definition push_token :: "token list \<Rightarrow> token_kind \<Rightarrow> string \<Rightarrow> string \<Rightarrow> nat \<Rightarrow> lex_error + token list"
where
  "push_token toks k txt rw pos =
     (if length toks \<ge> max_lexer_tokens then Inl Too_many_tokens
      else Inr (toks @ [\<lparr>tok_kind = k, tok_text = copy_string max_token txt,
                         tok_raw = copy_string max_token rw, tok_pos = pos\<rparr>]))"

subsection \<open>File-descriptor redirections and token starts\<close>

definition match_fd_redirection_token :: "string \<Rightarrow> (token_kind \<times> nat) option" where
  "match_fd_redirection_token cs =
     (let digits = takeWhile c_isdigit cs; cursor = length digits; rest = drop cursor cs in
      if cursor = 0 \<or> rest = [] then None
      else if next_is ''>&'' rest then Some (Tok_redirect_dup_out, cursor + 2)
      else if next_is ''<&'' rest then Some (Tok_redirect_dup_in, cursor + 2)
      else if next_is ''>>'' rest then Some (Tok_redirect_fd_append, cursor + 2)
      else if next_is ''>'' rest then Some (Tok_redirect_fd_out, cursor + 1)
      else if next_is ''<'' rest then Some (Tok_redirect_fd_in, cursor + 1)
      else None)"

definition is_special_token_start :: "string \<Rightarrow> bool" where
  "is_special_token_start cs \<longleftrightarrow>
     cs \<noteq> [] \<and>
     (match_fd_redirection_token cs \<noteq> None \<or>
      next_is ''<('' cs \<or> next_is ''>('' cs \<or> next_is ''|>'' cs \<or> next_is ''||'' cs \<or>
      next_is ''->'' cs \<or> next_is ''&&'' cs \<or> next_is ''2>&1'' cs \<or> next_is ''2>>'' cs \<or>
      next_is ''2>'' cs \<or> next_is ''<<-'' cs \<or> next_is ''<<'' cs \<or>
      next_is ''|'' cs \<or> next_is ''&'' cs \<or> next_is '';'' cs \<or> next_is ''<'' cs \<or>
      next_is ''>'' cs \<or> next_is ''('' cs \<or> next_is '')'' cs \<or> next_is '','' cs)"

subsection \<open>Quotes and nesting\<close>

text \<open>The quote open after a character that is not an escape, and the nesting depth after it.\<close>

definition quote_after :: "char option \<Rightarrow> char \<Rightarrow> char option" where
  "quote_after quote c =
     (case quote of
        None \<Rightarrow> if c = squote \<or> c = dquote then Some c else None
      | Some q \<Rightarrow> if c = q then None else Some q)"

definition cmdsubst_depth :: "char option \<Rightarrow> nat \<Rightarrow> char \<Rightarrow> string \<Rightarrow> nat" where
  "cmdsubst_depth quote depth c cs =
     (if quote = None \<and> c = CHR ''$'' \<and> next_is ''('' cs then depth + 1
      else if quote = None \<and> c = CHR '')'' then depth - 1 else depth)"

definition procsubst_depth :: "char option \<Rightarrow> nat \<Rightarrow> char \<Rightarrow> nat" where
  "procsubst_depth quote depth c =
     (if quote = None \<and> c = CHR ''('' then depth + 1
      else if quote = None \<and> c = CHR '')'' then depth - 1 else depth)"

subsection \<open>Arithmetic expansion\<close>

text \<open>
  The scan after \<open>$((\<close>.  A backslash outside quotes and inside double quotes is copied with the
  character after it; single quotes copy everything up to the closing quote.
\<close>

fun scan_arith_loop ::
  "char option \<Rightarrow> nat \<Rightarrow> string \<Rightarrow> string \<Rightarrow> string \<Rightarrow> lex_error + (string \<times> string \<times> string)" where
  "scan_arith_loop quote depth rw ck [] = Inl Unterminated_arith"
| "scan_arith_loop quote depth rw ck (c # cs) =
     (if c = bslash \<and> (quote = None \<or> quote = Some dquote) then
        bind_err (append_both ''word token'' rw ck [c]) (\<lambda>(rw, ck).
          (case cs of
             [] \<Rightarrow> Inl Dangling_escape_arith
           | d # ds \<Rightarrow>
               bind_err (append_both ''word token'' rw ck [d]) (\<lambda>(rw, ck).
                 scan_arith_loop quote depth rw ck ds)))
      else if quote = None \<and> c = CHR ''$'' \<and> next_is ''(('' cs then
        bind_err (append_both ''word token'' rw ck ''$(('') (\<lambda>(rw, ck).
          scan_arith_loop quote (depth + 1) rw ck (drop 2 cs))
      else if quote = None \<and> c = CHR '')'' \<and> next_is '')'' cs then
        bind_err (append_both ''word token'' rw ck ''))'') (\<lambda>(rw, ck).
          if depth - 1 = 0 then Inr (rw, ck, drop 1 cs)
          else scan_arith_loop quote (depth - 1) rw ck (drop 1 cs))
      else
        (let quote' = quote_after quote c
         in bind_err (append_both ''word token'' rw ck [c]) (\<lambda>(rw, ck).
              scan_arith_loop quote' depth rw ck cs)))"

definition scan_arithmetic_expansion ::
  "string \<Rightarrow> string \<Rightarrow> string \<Rightarrow> lex_error + (string \<times> string \<times> string)" where
  "scan_arithmetic_expansion rw ck cs =
     (if \<not> next_is ''$(('' cs then Inl Invalid_arith_start
      else bind_err (append_both ''word token'' rw ck ''$(('') (\<lambda>(rw, ck).
             scan_arith_loop None 1 rw ck (drop 3 cs)))"

subsection \<open>Command substitution\<close>

text \<open>
  The scan after \<open>$(\<close>.  Here a backslash goes to the raw buffer only.  Nesting counts \<open>$(\<close> up and
  every unquoted \<open>)\<close> down.
\<close>

fun scan_cmdsubst_loop ::
  "char option \<Rightarrow> nat \<Rightarrow> string \<Rightarrow> string \<Rightarrow> string \<Rightarrow> lex_error + (string \<times> string \<times> string)" where
  "scan_cmdsubst_loop quote depth rw ck [] =
     (if depth \<noteq> 0 then Inl Unterminated_cmdsubst else Inr (rw, ck, []))"
| "scan_cmdsubst_loop quote depth rw ck (c # cs) =
     (if c = bslash \<and> (quote = None \<or> quote = Some dquote) then
        bind_err (append_char ''raw token'' rw c) (\<lambda>rw.
          (case cs of
             [] \<Rightarrow> Inl Dangling_escape_cmdsubst
           | d # ds \<Rightarrow>
               bind_err (append_both ''word token'' rw ck [d]) (\<lambda>(rw, ck).
                 if quote = None \<and> depth = 0 then Inr (rw, ck, ds)
                 else scan_cmdsubst_loop quote depth rw ck ds)))
      else
        (let quote' = quote_after quote c; depth' = cmdsubst_depth quote depth c cs
         in bind_err (append_both ''word token'' rw ck [c]) (\<lambda>(rw, ck).
              if quote' = None \<and> depth' = 0 then Inr (rw, ck, cs)
              else scan_cmdsubst_loop quote' depth' rw ck cs)))"

subsection \<open>Quoted strings\<close>

fun scan_quoted_loop ::
  "char \<Rightarrow> string \<Rightarrow> string \<Rightarrow> string \<Rightarrow> lex_error + (string \<times> string \<times> string)" where
  "scan_quoted_loop q rw ck [] = Inl Unterminated_string"
| "scan_quoted_loop q rw ck (c # cs) =
     (if c = q then
        bind_err (append_char ''raw token'' rw c) (\<lambda>rw. Inr (rw, ck, cs))
      else if q = dquote \<and> c = bslash then
        bind_err (append_char ''raw token'' rw c) (\<lambda>rw.
          (case cs of
             [] \<Rightarrow> Inl Dangling_escape_dquote
           | d # ds \<Rightarrow>
               bind_err (append_both ''string token'' rw ck [d]) (\<lambda>(rw, ck).
                 scan_quoted_loop q rw ck ds)))
      else
        bind_err (append_both ''string token'' rw ck [c]) (\<lambda>(rw, ck).
          scan_quoted_loop q rw ck cs))"

subsection \<open>Process substitution\<close>

fun scan_procsubst_loop ::
  "char option \<Rightarrow> nat \<Rightarrow> string \<Rightarrow> string \<Rightarrow> string \<Rightarrow> lex_error + (string \<times> string \<times> string)" where
  "scan_procsubst_loop quote depth rw ck [] = Inl Unterminated_procsubst"
| "scan_procsubst_loop quote depth rw ck (c # cs) =
     (if c = bslash \<and> (quote = None \<or> quote = Some dquote) then
        bind_err (append_both ''word token'' rw ck [c]) (\<lambda>(rw, ck).
          (case cs of
             [] \<Rightarrow> Inl Dangling_escape_procsubst
           | d # ds \<Rightarrow>
               bind_err (append_both ''word token'' rw ck [d]) (\<lambda>(rw, ck).
                 scan_procsubst_loop quote depth rw ck ds)))
      else if quote = None \<and> c = CHR '')'' \<and> depth - 1 = 0 then
        bind_err (append_char ''raw token'' rw c) (\<lambda>rw. Inr (rw, ck, cs))
      else
        (let quote' = quote_after quote c; depth' = procsubst_depth quote depth c
         in bind_err (append_both ''word token'' rw ck [c]) (\<lambda>(rw, ck).
              scan_procsubst_loop quote' depth' rw ck cs)))"

definition scan_process_substitution_token ::
  "token_kind \<Rightarrow> nat \<Rightarrow> string \<Rightarrow> lex_error + (token \<times> string)" where
  "scan_process_substitution_token k start cs =
     (case cs of
        c # d # ds \<Rightarrow>
          if d \<noteq> CHR ''('' then Inl Invalid_procsubst_start
          else
            bind_err (append_chars ''raw token'' [] [c, CHR ''('']) (\<lambda>rw.
            bind_err (scan_procsubst_loop None 1 rw [] ds) (\<lambda>(rw, ck, rest).
              Inr (\<lparr>tok_kind = k, tok_text = copy_string max_token rw,
                    tok_raw = copy_string max_token rw, tok_pos = start\<rparr>, rest)))
      | _ \<Rightarrow> Inl Invalid_procsubst_start)"

subsection \<open>What a scan consumes\<close>

text \<open>
  A scan that succeeds has moved the characters it consumed to the raw buffer, one for one, and at
  most as many to the cooked buffer, and stays below the token capacity.  The facts follow from
  one law for a single step of each loop, stated as an interface; they carry the termination of
  the loops that call the scanners and the properties of the whole lexer.
\<close>

definition consumes :: "string \<Rightarrow> string \<Rightarrow> string \<Rightarrow> string \<times> string \<times> string \<Rightarrow> bool" where
  "consumes rw ck cs r \<longleftrightarrow>
     (\<exists>used extra rest. r = (rw @ used, ck @ extra, rest) \<and> cs = used @ rest \<and>
        length extra \<le> length used \<and> (used = [] \<or> length rw + length used < max_token))"

lemma append_char_Inr [simp]:
  "append_char l b c = Inr b' \<longleftrightarrow> length b + 1 < max_token \<and> b' = b @ [c]"
  by (auto simp: append_char_def)

lemma append_char_Inl [simp]:
  "append_char l b c = Inl e \<longleftrightarrow> max_token \<le> length b + 1 \<and> e = Too_long l"
  by (auto simp: append_char_def)

lemma append_chars_eq:
  "append_chars l b s =
     (if s = [] \<or> length b + length s < max_token then Inr (b @ s) else Inl (Too_long l))"
  by (induction s arbitrary: b) (auto simp: append_char_def)

lemma append_both_Inr [simp]:
  "append_both l rw ck s = Inr r \<longleftrightarrow>
     (s = [] \<or> length rw + length s < max_token \<and> length ck + length s < max_token) \<and>
     r = (rw @ s, ck @ s)"
  by (auto simp: append_both_def append_chars_eq err_simps split: if_splits)

lemma append_both_Inl:
  "append_both l rw ck s = Inl e \<Longrightarrow> length ck \<le> length rw \<Longrightarrow> e = Too_long ''raw token''"
  by (auto simp: append_both_def append_chars_eq err_simps split: if_splits)

lemma consumes_last:
  "used = [] \<or> length rw + length used < max_token \<Longrightarrow> length extra \<le> length used \<Longrightarrow>
   consumes rw ck (used @ rest) (rw @ used, ck @ extra, rest)"
  by (auto simp: consumes_def)

lemma consumes_more:
  assumes "consumes (rw @ u) (ck @ x) cs r" and "length x \<le> length u"
    and "u = [] \<or> length rw + length u < max_token"
  shows "consumes rw ck (u @ cs) r"
proof -
  from assms(1) obtain u' x' rest' where "r = (rw @ u @ u', ck @ x @ x', rest')" "cs = u' @ rest'"
    "length x' \<le> length u'" "u' = [] \<or> length rw + length u + length u' < max_token"
    by (auto simp: consumes_def)
  with assms(2,3) show ?thesis
    unfolding consumes_def
    by (intro exI [of _ "u @ u'"] exI [of _ "x @ x'"] exI [of _ rest']) auto
qed

lemma consumes_done1:
  "length rw + 1 < max_token \<Longrightarrow> consumes rw ck (c # cs) (rw @ [c], ck @ [c], cs)"
  "length rw + 1 < max_token \<Longrightarrow> consumes rw ck (c # cs) (rw @ [c], ck, cs)"
  "length rw + 2 < max_token \<Longrightarrow> consumes rw ck (c # d # cs) (rw @ [c, d], ck @ [d], cs)"
  "length rw + 2 < max_token \<Longrightarrow> consumes rw ck (c # d # cs) (rw @ [c, d], ck @ [c, d], cs)"
  using consumes_last [of "[c]" rw "[c]" ck cs] consumes_last [of "[c]" rw "[]" ck cs]
    consumes_last [of "[c, d]" rw "[d]" ck cs] consumes_last [of "[c, d]" rw "[c, d]" ck cs]
  by simp_all

lemma consumes_next:
  "consumes (rw @ [c]) (ck @ [c]) cs r \<Longrightarrow> length rw + 1 < max_token \<Longrightarrow> consumes rw ck (c # cs) r"
  "consumes (rw @ [c, d]) (ck @ [c, d]) cs r \<Longrightarrow> length rw + 2 < max_token \<Longrightarrow>
     consumes rw ck (c # d # cs) r"
  "consumes (rw @ [c, d]) (ck @ [d]) cs r \<Longrightarrow> length rw + 2 < max_token \<Longrightarrow>
     consumes rw ck (c # d # cs) r"
  "consumes (rw @ [c, d, e]) (ck @ [c, d, e]) cs r \<Longrightarrow> length rw + 3 < max_token \<Longrightarrow>
     consumes rw ck (c # d # e # cs) r"
  using consumes_more [of rw "[c, d, e]" ck "[c, d, e]" cs r]
    consumes_more [of rw "[c]" ck "[c]" cs r] consumes_more [of rw "[c, d]" ck "[c, d]" cs r]
    consumes_more [of rw "[c, d]" ck "[d]" cs r]
  by simp_all

lemma next_is_split [simp]:
  "next_is [a, b] cs \<longleftrightarrow> (\<exists>ds. cs = a # b # ds)"
  "next_is [a] cs \<longleftrightarrow> (\<exists>ds. cs = a # ds)"
  by (cases cs; cases "tl cs"; auto)+

lemmas consumes_intros = consumes_done1 consumes_next

lemma scan_quoted_loop_consumes:
  "scan_quoted_loop q rw ck cs = Inr r \<Longrightarrow> consumes rw ck cs r"
  by (induction q rw ck cs rule: scan_quoted_loop.induct)
    (auto simp: err_simps split: if_splits list.splits intro: consumes_intros)

lemma scan_arith_loop_consumes:
  "scan_arith_loop q d rw ck cs = Inr r \<Longrightarrow> consumes rw ck cs r"
  by (induction q d rw ck cs rule: scan_arith_loop.induct)
    (auto simp: err_simps Let_def split: if_splits list.splits intro: consumes_intros)

lemma scan_cmdsubst_loop_consumes:
  "scan_cmdsubst_loop q d rw ck cs = Inr r \<Longrightarrow> consumes rw ck cs r"
proof (induction q d rw ck cs rule: scan_cmdsubst_loop.induct)
  case (1 quote depth rw ck)
  then show ?case using consumes_last [of "[]" rw "[]" ck "[]"] by (auto split: if_splits)
next
  case (2 quote depth rw ck c cs)
  then show ?case
    by (auto simp: err_simps Let_def split: if_splits list.splits intro: consumes_intros)
qed

lemma scan_procsubst_loop_consumes:
  "scan_procsubst_loop q d rw ck cs = Inr r \<Longrightarrow> consumes rw ck cs r"
  by (induction q d rw ck cs rule: scan_procsubst_loop.induct)
    (auto simp: err_simps Let_def split: if_splits list.splits intro: consumes_intros)

lemma scan_arithmetic_expansion_consumes:
  "scan_arithmetic_expansion rw ck cs = Inr r \<Longrightarrow> consumes rw ck cs r"
  by (cases cs)
    (auto simp: scan_arithmetic_expansion_def err_simps split: if_splits intro: consumes_next
      dest!: scan_arith_loop_consumes)

text \<open>Errors: with no more cooked than raw characters, the raw buffer is the one that overflows.\<close>

lemma append_errs:
  "append_both l rw ck s = Inl e \<Longrightarrow> length ck \<le> length rw \<Longrightarrow> e = Too_long ''raw token''"
  by (rule append_both_Inl)

lemma scan_quoted_loop_errs:
  "scan_quoted_loop q rw ck cs = Inl e \<Longrightarrow> length ck \<le> length rw \<Longrightarrow>
   e \<in> {Too_long ''raw token'', Unterminated_string, Dangling_escape_dquote}"
  by (induction q rw ck cs rule: scan_quoted_loop.induct)
    (auto simp: err_simps split: if_splits list.splits dest: append_errs)

lemma scan_arith_loop_errs:
  "scan_arith_loop q d rw ck cs = Inl e \<Longrightarrow> length ck \<le> length rw \<Longrightarrow>
   e \<in> {Too_long ''raw token'', Unterminated_arith, Dangling_escape_arith}"
  by (induction q d rw ck cs rule: scan_arith_loop.induct)
    (auto simp: err_simps Let_def split: if_splits list.splits dest: append_errs)

lemma scan_cmdsubst_loop_errs:
  "scan_cmdsubst_loop q d rw ck cs = Inl e \<Longrightarrow> length ck \<le> length rw \<Longrightarrow>
   e \<in> {Too_long ''raw token'', Unterminated_cmdsubst, Dangling_escape_cmdsubst}"
  by (induction q d rw ck cs rule: scan_cmdsubst_loop.induct)
    (auto simp: err_simps Let_def split: if_splits list.splits dest: append_errs)

lemma scan_procsubst_loop_errs:
  "scan_procsubst_loop q d rw ck cs = Inl e \<Longrightarrow> length ck \<le> length rw \<Longrightarrow>
   e \<in> {Too_long ''raw token'', Unterminated_procsubst, Dangling_escape_procsubst}"
  by (induction q d rw ck cs rule: scan_procsubst_loop.induct)
    (auto simp: err_simps Let_def split: if_splits list.splits dest: append_errs)

lemma scan_arithmetic_expansion_errs:
  "scan_arithmetic_expansion rw ck cs = Inl e \<Longrightarrow> length ck \<le> length rw \<Longrightarrow> next_is ''$(('' cs \<Longrightarrow>
   e \<in> {Too_long ''raw token'', Unterminated_arith, Dangling_escape_arith}"
  by (auto simp: scan_arithmetic_expansion_def err_simps split: if_splits
      dest!: append_errs scan_arith_loop_errs)

lemma consumes_shorter: "consumes rw ck cs (rw', ck', rest) \<Longrightarrow> length rest \<le> length cs"
  by (auto simp: consumes_def)

lemma scan_arithmetic_expansion_shorter:
  "scan_arithmetic_expansion rw ck cs = Inr (rw', ck', rest) \<Longrightarrow> length rest < length cs"
  by (cases cs)
    (auto simp: scan_arithmetic_expansion_def err_simps split: if_splits
      dest!: scan_arith_loop_consumes consumes_shorter)

subsection \<open>Words\<close>

definition cond_word_stop :: "char \<Rightarrow> string \<Rightarrow> bool" where
  "cond_word_stop c cs \<longleftrightarrow>
     c = CHR '']'' \<and> next_is '']'' cs \<or> c = CHR ''&'' \<and> next_is ''&'' cs \<or>
     c = CHR ''|'' \<and> next_is ''|'' cs \<or> c = CHR ''!'' \<or> c = CHR ''('' \<or> c = CHR '')''"

text \<open>
  The loop of \<open>scan_word_token\<close>; the flag \<open>cond\<close> is \<open>conditional_mode\<close>, \<open>saw\<close> is \<open>saw_any\<close>.
\<close>

function scan_word_loop ::
  "bool \<Rightarrow> bool \<Rightarrow> string \<Rightarrow> string \<Rightarrow> string \<Rightarrow> lex_error + (bool \<times> string \<times> string \<times> string)" where
  "scan_word_loop cond saw rw ck [] = Inr (saw, rw, ck, [])"
| "scan_word_loop cond saw rw ck (c # cs) =
     (if c = CHR ''$'' \<and> next_is ''(('' cs then
        bind_err (scan_arithmetic_expansion rw ck (c # cs)) (\<lambda>(rw, ck, rest).
          scan_word_loop cond True rw ck rest)
      else if c = CHR ''$'' \<and> next_is ''('' cs then
        bind_err (append_both ''word token'' rw ck ''$('') (\<lambda>(rw, ck).
        bind_err (scan_cmdsubst_loop None 1 rw ck (drop 1 cs)) (\<lambda>(rw, ck, rest).
          scan_word_loop cond True rw ck rest))
      else if c_isspace c then Inr (saw, rw, ck, c # cs)
      else if (if cond then cond_word_stop c cs else is_special_token_start (c # cs)) then
        Inr (saw, rw, ck, c # cs)
      else if c = bslash then
        bind_err (append_char ''raw token'' rw c) (\<lambda>rw.
          (case cs of
             [] \<Rightarrow> Inl Dangling_escape_line
           | d # ds \<Rightarrow>
               bind_err (append_both ''word token'' rw ck [d]) (\<lambda>(rw, ck).
                 scan_word_loop cond True rw ck ds)))
      else if c = squote \<or> c = dquote then
        bind_err (append_char ''raw token'' rw c) (\<lambda>rw.
        bind_err (scan_quoted_loop c rw ck cs) (\<lambda>(rw, ck, rest).
          scan_word_loop cond True rw ck rest))
      else
        bind_err (append_both ''word token'' rw ck [c]) (\<lambda>(rw, ck).
          scan_word_loop cond True rw ck cs))"
  by pat_completeness auto
termination
  by (relation "measure (\<lambda>(cond, saw, rw, ck, cs). length cs)")
    (auto dest!: scan_cmdsubst_loop_consumes scan_quoted_loop_consumes consumes_shorter
      scan_arithmetic_expansion_shorter)

definition scan_word_token :: "bool \<Rightarrow> nat \<Rightarrow> string \<Rightarrow> lex_error + (token \<times> string)" where
  "scan_word_token cond start cs =
     bind_err (scan_word_loop cond False [] [] cs) (\<lambda>(saw, rw, ck, rest).
       if \<not> saw then Inl (Invalid_token start)
       else Inr (\<lparr>tok_kind = Tok_word, tok_text = copy_string max_token ck,
                  tok_raw = copy_string max_token rw, tok_pos = start\<rparr>, rest))"

subsection \<open>The line\<close>

record lex_state =
  ls_tokens :: "token list"
  in_double_bracket :: bool
  command_word_allowed :: bool
  pending_redirect_target :: bool
  ls_rest :: string

text \<open>
  \<open>emit\<close> is a \<open>push_token\<close> of fixed characters and the advance over them; \<open>emit_scanned\<close> is the
  count check and a scanner's token.  The position of a token is \<open>len\<close>, the length of the line,
  less what is left of it.
\<close>

definition emit :: "nat \<Rightarrow> token_kind \<Rightarrow> string \<Rightarrow> lex_state \<Rightarrow> lex_error + lex_state" where
  "emit len k s st =
     bind_err (push_token (ls_tokens st) k s s (len - length (ls_rest st))) (\<lambda>toks.
       Inr (st\<lparr>ls_tokens := toks, ls_rest := drop (length s) (ls_rest st)\<rparr>))"

definition emit_scanned ::
  "(nat \<Rightarrow> string \<Rightarrow> lex_error + (token \<times> string)) \<Rightarrow> nat \<Rightarrow> lex_state \<Rightarrow> lex_error + lex_state" where
  "emit_scanned scan len st =
     (if length (ls_tokens st) \<ge> max_lexer_tokens then Inl Too_many_tokens
      else bind_err (scan (len - length (ls_rest st)) (ls_rest st)) (\<lambda>(t, rest).
             Inr (st\<lparr>ls_tokens := ls_tokens st @ [t], ls_rest := rest\<rparr>)))"

definition set_flags :: "bool \<Rightarrow> bool \<Rightarrow> lex_error + lex_state \<Rightarrow> lex_error + lex_state" where
  "set_flags cwa prt m =
     bind_err m (\<lambda>st. Inr (st\<lparr>command_word_allowed := cwa, pending_redirect_target := prt\<rparr>))"

definition set_pending :: "bool \<Rightarrow> lex_error + lex_state \<Rightarrow> lex_error + lex_state" where
  "set_pending prt m = bind_err m (\<lambda>st. Inr (st\<lparr>pending_redirect_target := prt\<rparr>))"

definition proc_subst_kind :: "string \<Rightarrow> token_kind" where
  "proc_subst_kind cs = (if next_is ''<'' cs then Tok_proc_subst_in else Tok_proc_subst_out)"

definition lex_bracket_step :: "nat \<Rightarrow> lex_state \<Rightarrow> lex_error + lex_state" where
  "lex_bracket_step len st =
     (let cs = ls_rest st in
      if next_is ''<('' cs \<or> next_is ''>('' cs then
        emit_scanned (scan_process_substitution_token (proc_subst_kind cs)) len st
      else if next_is '']]'' cs then
        bind_err (set_flags False False (emit len Tok_word '']]'' st)) (\<lambda>st'.
          Inr (st'\<lparr>in_double_bracket := False\<rparr>))
      else if next_is ''&&'' cs then emit len Tok_word ''&&'' st
      else if next_is ''||'' cs then emit len Tok_word ''||'' st
      else if next_is ''!'' cs \<or> next_is ''('' cs \<or> next_is '')'' cs then
        emit len Tok_word (take 1 cs) st
      else emit_scanned (scan_word_token True) len st)"

definition lex_word_step :: "nat \<Rightarrow> lex_state \<Rightarrow> lex_error + lex_state" where
  "lex_word_step len st =
     (let cs = ls_rest st in
      if next_is ''('' cs then set_flags True False (emit len Tok_lparen ''('' st)
      else if next_is '')'' cs then set_flags False False (emit len Tok_rparen '')'' st)
      else if next_is '','' cs then emit len Tok_comma '','' st
      else if pending_redirect_target st then
        set_pending False (emit_scanned (scan_word_token False) len st)
      else set_flags False False (emit_scanned (scan_word_token False) len st))"

definition lex_redirect_step :: "nat \<Rightarrow> lex_state \<Rightarrow> lex_error + lex_state" where
  "lex_redirect_step len st =
     (let cs = ls_rest st in
      if next_is ''2>&1'' cs then
        set_pending False (emit len Tok_redirect_error_to_output ''2>&1'' st)
      else if next_is ''2>>'' cs then
        set_pending True (emit len Tok_redirect_error_append ''2>>'' st)
      else if next_is ''2>'' cs then set_pending True (emit len Tok_redirect_error ''2>'' st)
      else if next_is ''<<<'' cs then set_pending True (emit len Tok_here_string ''<<<'' st)
      else if next_is ''<<-'' cs then set_pending True (emit len Tok_heredoc_strip ''<<-'' st)
      else if next_is ''<<'' cs then set_pending True (emit len Tok_heredoc ''<<'' st)
      else if next_is ''>>'' cs then set_pending True (emit len Tok_redirect_append ''>>'' st)
      else if next_is ''>'' cs then set_pending True (emit len Tok_redirect_out ''>'' st)
      else if next_is ''<'' cs then set_pending True (emit len Tok_redirect_in ''<'' st)
      else lex_word_step len st)"

definition opens_double_bracket :: "string \<Rightarrow> bool" where
  "opens_double_bracket cs \<longleftrightarrow>
     next_is ''[['' cs \<and>
     (case drop 2 cs of [] \<Rightarrow> True | d # _ \<Rightarrow> c_isspace d \<or> d = CHR ''!'' \<or> d = CHR ''('')"

definition lex_operator_step :: "nat \<Rightarrow> lex_state \<Rightarrow> lex_error + lex_state" where
  "lex_operator_step len st =
     (let cs = ls_rest st in
      if next_is ''|>'' cs then set_flags True False (emit len Tok_object_pipe ''|>'' st)
      else if next_is ''||'' cs then set_flags True False (emit len Tok_or_if ''||'' st)
      else if next_is ''->'' cs then emit len Tok_arrow ''->'' st
      else if next_is ''|'' cs then set_flags True False (emit len Tok_shell_pipe ''|'' st)
      else if next_is ''&&'' cs then set_flags True False (emit len Tok_and_if ''&&'' st)
      else if next_is ''&'' cs then set_flags True False (emit len Tok_background ''&'' st)
      else if next_is '';'' cs then set_flags True False (emit len Tok_sequence '';'' st)
      else lex_redirect_step len st)"

definition lex_command_step :: "nat \<Rightarrow> lex_state \<Rightarrow> lex_error + lex_state" where
  "lex_command_step len st =
     (let cs = ls_rest st in
      if command_word_allowed st \<and> \<not> pending_redirect_target st \<and> opens_double_bracket cs then
        bind_err (emit len Tok_word ''[['' st) (\<lambda>st'.
          Inr (st'\<lparr>in_double_bracket := True, command_word_allowed := False\<rparr>))
      else case match_fd_redirection_token cs of
        Some (fd_kind, fd_length) \<Rightarrow>
          if fd_length \<ge> max_token then Inl Fd_token_too_long
          else set_pending True (emit len fd_kind (take fd_length cs) st)
      | None \<Rightarrow>
          if next_is ''<('' cs \<or> next_is ''>('' cs then
            set_flags False False
              (emit_scanned (scan_process_substitution_token (proc_subst_kind cs)) len st)
          else lex_operator_step len st)"

definition lex_step :: "nat \<Rightarrow> lex_state \<Rightarrow> lex_error + lex_state" where
  "lex_step len st =
     (if c_isspace (hd (ls_rest st)) then Inr (st\<lparr>ls_rest := tl (ls_rest st)\<rparr>)
      else if in_double_bracket st then lex_bracket_step len st
      else lex_command_step len st)"

definition lex_finish :: "nat \<Rightarrow> lex_state \<Rightarrow> lex_error + token list" where
  "lex_finish len st =
     (if in_double_bracket st then Inl Unterminated_conditional
      else push_token (ls_tokens st) Tok_eof [] [] len)"

subsection \<open>The word loop\<close>

lemma consumes_trans:
  "consumes rw ck cs (rw1, ck1, cs1) \<Longrightarrow> consumes rw1 ck1 cs1 r \<Longrightarrow> consumes rw ck cs r"
  using consumes_more by (fastforce simp: consumes_def)

lemma consumes_refl: "consumes rw ck cs (rw, ck, cs)"
  by (simp add: consumes_def)

lemma consumes_raw1:
  "consumes (rw @ [c]) ck cs r \<Longrightarrow> length rw + 1 < max_token \<Longrightarrow> consumes rw ck (c # cs) r"
  using consumes_more [of rw "[c]" ck "[]" cs r] by simp

text \<open>The branches of the word loop as equations, and as an induction rule.\<close>

definition subst_start :: "char \<Rightarrow> string \<Rightarrow> bool" where
  "subst_start c cs \<longleftrightarrow> c = CHR ''$'' \<and> next_is ''('' cs"

definition word_stop :: "bool \<Rightarrow> char \<Rightarrow> string \<Rightarrow> bool" where
  "word_stop cond c cs \<longleftrightarrow> \<not> subst_start c cs \<and>
     (c_isspace c \<or> (if cond then cond_word_stop c cs else is_special_token_start (c # cs)))"

lemma next_is_2_1: "next_is [a, b] cs \<Longrightarrow> next_is [a] cs"
  by (cases cs) auto

declare scan_word_loop.simps(2) [simp del]

lemma word_arith:
  "c = CHR ''$'' \<Longrightarrow> next_is ''(('' cs \<Longrightarrow> scan_word_loop cond saw rw ck (c # cs) =
     bind_err (scan_arithmetic_expansion rw ck (c # cs)) (\<lambda>(rw, ck, rest).
       scan_word_loop cond True rw ck rest)"
  by (subst scan_word_loop.simps(2)) (simp del: next_is_split)

lemma word_cmdsubst:
  "\<not> next_is ''('' cs \<Longrightarrow> scan_word_loop cond saw rw ck (CHR ''$'' # CHR ''('' # cs) =
     bind_err (append_both ''word token'' rw ck ''$('') (\<lambda>(rw, ck).
     bind_err (scan_cmdsubst_loop None 1 rw ck cs) (\<lambda>(rw, ck, rest).
       scan_word_loop cond True rw ck rest))"
  by (subst scan_word_loop.simps(2)) (simp del: next_is_split)

lemma word_stop:
  assumes "word_stop cond c cs"
  shows "scan_word_loop cond saw rw ck (c # cs) = Inr (saw, rw, ck, c # cs)"
proof -
  have n2: "\<not> (c = CHR ''$'' \<and> next_is ''('' cs)"
    and s: "c_isspace c \<or> (if cond then cond_word_stop c cs else is_special_token_start (c # cs))"
    using assms unfolding word_stop_def subst_start_def by blast+
  then have n1: "\<not> (c = CHR ''$'' \<and> next_is ''(('' cs)"
    using next_is_2_1 by blast
  show ?thesis
    unfolding scan_word_loop.simps(2) if_not_P [OF n1] if_not_P [OF n2]
    using s by (cases cond; cases "c_isspace c") (simp_all only: if_True if_False simp_thms)
qed

lemma word_escape:
  "\<not> word_stop cond bslash cs \<Longrightarrow> scan_word_loop cond saw rw ck (bslash # cs) =
     bind_err (append_char ''raw token'' rw bslash) (\<lambda>rw.
       (case cs of
          [] \<Rightarrow> Inl Dangling_escape_line
        | d # ds \<Rightarrow>
            bind_err (append_both ''word token'' rw ck [d]) (\<lambda>(rw, ck).
              scan_word_loop cond True rw ck ds)))"
  by (subst scan_word_loop.simps(2)) (auto simp: word_stop_def subst_start_def next_is_2_1 simp del: next_is_split)

lemma word_quoted:
  "\<not> word_stop cond c cs \<Longrightarrow> c = squote \<or> c = dquote \<Longrightarrow>
   scan_word_loop cond saw rw ck (c # cs) =
     bind_err (append_char ''raw token'' rw c) (\<lambda>rw.
     bind_err (scan_quoted_loop c rw ck cs) (\<lambda>(rw, ck, rest).
       scan_word_loop cond True rw ck rest))"
  by (subst scan_word_loop.simps(2)) (auto simp: word_stop_def subst_start_def next_is_2_1 simp del: next_is_split)

lemma word_plain:
  "\<not> word_stop cond c cs \<Longrightarrow> \<not> subst_start c cs \<Longrightarrow> c \<noteq> bslash \<Longrightarrow> c \<noteq> squote \<Longrightarrow> c \<noteq> dquote \<Longrightarrow>
   scan_word_loop cond saw rw ck (c # cs) =
     bind_err (append_both ''word token'' rw ck [c]) (\<lambda>(rw, ck). scan_word_loop cond True rw ck cs)"
  by (subst scan_word_loop.simps(2)) (auto simp: word_stop_def subst_start_def next_is_2_1 simp del: next_is_split)

lemmas word_eqs = word_arith word_cmdsubst word_stop word_escape word_quoted word_plain

lemma word_cases [case_names nil arith cmdsubst stop escape quoted plain]:
  assumes "cs = [] \<Longrightarrow> P"
    and "\<And>c cs'. cs = c # cs' \<Longrightarrow> c = CHR ''$'' \<Longrightarrow> next_is ''(('' cs' \<Longrightarrow> P"
    and "\<And>ds. cs = CHR ''$'' # CHR ''('' # ds \<Longrightarrow> \<not> next_is ''('' ds \<Longrightarrow> P"
    and "\<And>c cs'. cs = c # cs' \<Longrightarrow> word_stop cond c cs' \<Longrightarrow> P"
    and "\<And>cs'. cs = bslash # cs' \<Longrightarrow> \<not> word_stop cond bslash cs' \<Longrightarrow> P"
    and "\<And>c cs'. cs = c # cs' \<Longrightarrow> \<not> word_stop cond c cs' \<Longrightarrow> c = squote \<or> c = dquote \<Longrightarrow> P"
    and "\<And>c cs'. cs = c # cs' \<Longrightarrow> \<not> word_stop cond c cs' \<Longrightarrow> \<not> subst_start c cs' \<Longrightarrow>
           c \<noteq> bslash \<Longrightarrow> c \<noteq> squote \<Longrightarrow> c \<noteq> dquote \<Longrightarrow> P"
  shows P
proof (cases cs)
  case Nil
  then show ?thesis by (rule assms(1))
next
  case (Cons c cs')
  show ?thesis
  proof (cases "subst_start c cs'")
    case True
    then obtain ds where "c = CHR ''$''" "cs' = CHR ''('' # ds" by (auto simp: subst_start_def)
    then show ?thesis using assms(2,3) Cons by (cases "next_is ''('' ds") auto
  next
    case False
    then show ?thesis using assms(4-7) Cons by metis
  qed
qed

text \<open>
  One iteration: the loop stops where it is, or fails, or consumes some characters and goes on
  with \<open>saw_any\<close> set.  The properties of the loop are inductions over this.
\<close>

definition word_errs :: "lex_error set" where
  "word_errs = {Too_long ''raw token'', Unterminated_arith, Dangling_escape_arith,
     Unterminated_cmdsubst, Dangling_escape_cmdsubst, Unterminated_string, Dangling_escape_dquote,
     Dangling_escape_line}"

definition word_res ::
  "bool \<Rightarrow> bool \<Rightarrow> string \<Rightarrow> string \<Rightarrow> string \<Rightarrow>
   lex_error + (bool \<times> string \<times> string \<times> string) \<Rightarrow> bool" where
  "word_res cond saw rw ck cs res \<longleftrightarrow>
     res = Inr (saw, rw, ck, cs) \<and> (case cs of [] \<Rightarrow> True | c # cs' \<Rightarrow> word_stop cond c cs') \<or>
     (\<exists>e \<in> word_errs. res = Inl e) \<or>
     (\<exists>rw1 ck1 rest. consumes rw ck cs (rw1, ck1, rest) \<and> length rest < length cs \<and>
        res = scan_word_loop cond True rw1 ck1 rest)"

lemma word_res_bind:
  "(\<And>e. m = Inl e \<Longrightarrow> e \<in> word_errs) \<Longrightarrow> (\<And>x. m = Inr x \<Longrightarrow> word_res cond saw rw ck cs (f x)) \<Longrightarrow>
   word_res cond saw rw ck cs (bind_err m f)"
  by (cases m) (auto simp: word_res_def)

lemma word_res_errI: "e \<in> word_errs \<Longrightarrow> word_res cond saw rw ck cs (Inl e)"
  by (simp add: word_res_def)

lemma word_res_goI:
  "consumes rw ck cs (rw1, ck1, rest) \<Longrightarrow> length rest < length cs \<Longrightarrow>
   word_res cond saw rw ck cs (scan_word_loop cond True rw1 ck1 rest)"
  unfolding word_res_def by blast

lemma word_res_moreI:
  assumes "consumes (rw @ u) (ck @ x) cs (rw1, ck1, rest)" and "length x \<le> length u" and "u \<noteq> []"
    and "length rw + length u < max_token" and "cs' = u @ cs"
  shows "word_res cond saw rw ck cs' (scan_word_loop cond True rw1 ck1 rest)"
proof (rule word_res_goI)
  show "consumes rw ck cs' (rw1, ck1, rest)"
    using consumes_more [OF assms(1,2)] assms(4,5) by simp
  show "length rest < length cs'"
    using consumes_shorter [OF assms(1)] assms(3,5) by (cases u) auto
qed

lemma word_res_one:
  "length rw + 1 < max_token \<Longrightarrow>
   word_res cond saw rw ck (c # cs) (scan_word_loop cond True (rw @ [c]) (ck @ [c]) cs)"
  "length rw + 2 < max_token \<Longrightarrow>
   word_res cond saw rw ck (c # d # cs) (scan_word_loop cond True (rw @ [c, d]) (ck @ [d]) cs)"
  using consumes_done1(1) [of rw ck c cs] consumes_done1(3) [of rw ck c d cs]
  by (auto intro: word_res_goI)

lemma append_word_err:
  "append_both l rw ck s = Inl e \<Longrightarrow> length ck \<le> length rw \<Longrightarrow> e \<in> word_errs"
  using append_both_Inl by (auto simp: word_errs_def)

lemma word_err_simps [simp]:
  "Too_long ''raw token'' \<in> word_errs" "Dangling_escape_line \<in> word_errs"
  by (simp_all add: word_errs_def)

lemma word_loop_step:
  assumes le: "length ck \<le> length rw"
  shows "word_res cond saw rw ck cs (scan_word_loop cond saw rw ck cs)"
proof (cases cs rule: word_cases [where cond = cond])
  case (arith c cs')
  have "e \<in> word_errs" if "scan_arithmetic_expansion rw ck (c # cs') = Inl e" for e
    using scan_arithmetic_expansion_errs [OF that le] arith by (auto simp: word_errs_def)
  moreover have "word_res cond saw rw ck (c # cs') (scan_word_loop cond True rw1 ck1 rest)"
    if "scan_arithmetic_expansion rw ck (c # cs') = Inr (rw1, ck1, rest)" for rw1 ck1 rest
    using scan_arithmetic_expansion_consumes [OF that] scan_arithmetic_expansion_shorter [OF that]
    unfolding word_res_def by blast
  ultimately show ?thesis
    using arith by (auto simp: word_arith simp del: next_is_split intro!: word_res_bind)
next
  case (cmdsubst ds)
  have "word_res cond saw rw ck cs (scan_word_loop cond True rw1 ck1 rest)"
    if "scan_cmdsubst_loop None 1 (rw @ ''$('') (ck @ ''$('') ds = Inr (rw1, ck1, rest)"
      "length rw + 2 < max_token" for rw1 ck1 rest
    using word_res_moreI [OF scan_cmdsubst_loop_consumes [OF that(1)]] that(2) cmdsubst(1) by simp
  moreover have "e \<in> word_errs"
    if "scan_cmdsubst_loop None 1 (rw @ ''$('') (ck @ ''$('') ds = Inl e" for e
    using scan_cmdsubst_loop_errs [OF that] le by (auto simp: word_errs_def)
  ultimately show ?thesis
    unfolding cmdsubst(1) word_cmdsubst [OF cmdsubst(2)]
    by (auto intro!: word_res_bind dest: append_word_err [OF _ le])
next
  case (escape cs')
  have "e \<in> word_errs" if "append_both l (rw @ [bslash]) ck s = Inl e" for l s e
    using append_word_err [OF that] le by simp
  with escape show ?thesis
    by (auto simp: word_escape split: list.split
        intro!: word_res_bind word_res_errI word_res_one)
next
  case (quoted c cs')
  have "word_res cond saw rw ck cs (scan_word_loop cond True rw1 ck1 rest)"
    if "scan_quoted_loop c (rw @ [c]) ck cs' = Inr (rw1, ck1, rest)"
      "length rw + 1 < max_token" for rw1 ck1 rest
    using word_res_moreI [of rw "[c]" ck "[]", OF _] scan_quoted_loop_consumes [OF that(1)] that(2)
      quoted(1) by simp
  moreover have "e \<in> word_errs" if "scan_quoted_loop c (rw @ [c]) ck cs' = Inl e" for e
    using scan_quoted_loop_errs [OF that] le by (auto simp: word_errs_def)
  ultimately show ?thesis
    unfolding quoted(1) word_quoted [OF quoted(2,3)] by (auto intro!: word_res_bind)
next
  case (plain c cs')
  then show ?thesis
    by (auto simp: word_plain le intro!: word_res_bind word_res_one intro: append_word_err)
qed (simp_all add: word_stop word_res_def)

lemma consumes_le: "consumes rw ck cs (rw', ck', rest) \<Longrightarrow> length ck \<le> length rw \<Longrightarrow> length ck' \<le> length rw'"
  by (auto simp: consumes_def)

lemma scan_word_loop_result:
  "length ck \<le> length rw \<Longrightarrow>
   case scan_word_loop cond saw rw ck cs of
     Inl e \<Rightarrow> e \<in> word_errs
   | Inr (saw', rw', ck', rest) \<Rightarrow>
       consumes rw ck cs (rw', ck', rest) \<and> saw' = (saw \<or> length rest < length cs) \<and>
       (case rest of [] \<Rightarrow> True | c # cs' \<Rightarrow> word_stop cond c cs')"
proof (induction "length cs" arbitrary: saw rw ck cs rule: less_induct)
  case less
  from word_loop_step [OF less.prems, where cond = cond and saw = saw and cs = cs] show ?case
    unfolding word_res_def
  proof (elim disjE)
    assume "\<exists>rw1 ck1 rest. consumes rw ck cs (rw1, ck1, rest) \<and> length rest < length cs \<and>
      scan_word_loop cond saw rw ck cs = scan_word_loop cond True rw1 ck1 rest"
    then obtain rw1 ck1 rest where c: "consumes rw ck cs (rw1, ck1, rest)"
      and l: "length rest < length cs"
      and eq: "scan_word_loop cond saw rw ck cs = scan_word_loop cond True rw1 ck1 rest"
      by blast
    from less.hyps [OF l, of ck1 rw1 True] consumes_le [OF c less.prems] eq l show ?thesis
      by (auto split: sum.splits dest: consumes_trans [OF c] consumes_shorter)
  qed (auto simp: consumes_refl)
qed

text \<open>A line never starts a word at a place where the word loop stops at once.\<close>

lemma scan_word_token_result:
  "case scan_word_token cond start cs of
     Inl e \<Rightarrow> e \<in> word_errs \<or> (e = Invalid_token start \<and>
                (cs = [] \<or> word_stop cond (hd cs) (tl cs)))
   | Inr (t, rest) \<Rightarrow>
       \<exists>u. cs = u @ rest \<and> u \<noteq> [] \<and> tok_raw t = u \<and> tok_kind t = Tok_word \<and> tok_pos t = start \<and>
           length (tok_text t) \<le> length u \<and> length u < max_token"
proof (cases "scan_word_loop cond False [] [] cs")
  case (Inl e)
  with scan_word_loop_result [of "[]" "[]", where cond = cond and saw = False and cs = cs] show ?thesis
    by (auto simp: scan_word_token_def)
next
  case (Inr r)
  obtain saw rw ck rest where r: "r = (saw, rw, ck, rest)" by (cases r)
  from scan_word_loop_result [of "[]" "[]", where cond = cond and saw = False and cs = cs] Inr r
  have c: "consumes [] [] cs (rw, ck, rest)" "saw = (length rest < length cs)"
    "case rest of [] \<Rightarrow> True | c # cs' \<Rightarrow> word_stop cond c cs'"
    by simp_all
  then obtain u x where u: "rw = u" "ck = x" "cs = u @ rest" "length x \<le> length u"
    "u = [] \<or> length u < max_token"
    by (auto simp: consumes_def)
  show ?thesis
  proof (cases "u = []")
    case True
    with u c Inr r show ?thesis by (cases cs) (auto simp: scan_word_token_def)
  next
    case False
    with u c Inr r show ?thesis by (auto simp: scan_word_token_def)
  qed
qed

lemma scan_process_substitution_token_result:
  "next_is ''<('' cs \<or> next_is ''>('' cs \<Longrightarrow>
   case scan_process_substitution_token k start cs of
     Inl e \<Rightarrow> e \<in> {Too_long ''raw token'', Unterminated_procsubst, Dangling_escape_procsubst}
   | Inr (t, rest) \<Rightarrow>
       \<exists>u. cs = u @ rest \<and> u \<noteq> [] \<and> tok_raw t = u \<and> tok_kind t = k \<and> tok_pos t = start \<and>
           length (tok_text t) \<le> length u \<and> length u < max_token"
proof -
  assume "next_is ''<('' cs \<or> next_is ''>('' cs"
  then obtain c ds where cs: "cs = c # CHR ''('' # ds" by auto
  let ?rw = "[c, CHR ''('']"
  have eq: "scan_process_substitution_token k start cs =
      bind_err (scan_procsubst_loop None 1 ?rw [] ds) (\<lambda>(rw, ck, rest).
        Inr (\<lparr>tok_kind = k, tok_text = copy_string max_token rw,
              tok_raw = copy_string max_token rw, tok_pos = start\<rparr>, rest))"
    by (simp add: scan_process_substitution_token_def cs append_chars_eq max_token_def)
  show ?thesis
  proof (cases "scan_procsubst_loop None 1 ?rw [] ds")
    case (Inl e)
    then show ?thesis using scan_procsubst_loop_errs [OF Inl] by (simp add: eq)
  next
    case (Inr r)
    from scan_procsubst_loop_consumes [OF Inr] obtain u ck rest where
      "r = (?rw @ u, ck, rest)" "ds = u @ rest" "u = [] \<or> 2 + length u < max_token"
      by (auto simp: consumes_def)
    with Inr have "scan_process_substitution_token k start cs =
        Inr (\<lparr>tok_kind = k, tok_text = ?rw @ u, tok_raw = ?rw @ u, tok_pos = start\<rparr>, rest)"
      and "cs = (?rw @ u) @ rest" and "length (?rw @ u) < max_token"
      using eq cs by (auto simp: max_token_def)
    then show ?thesis by auto
  qed
qed

end
