(* ===== verification/Lexer_Line.thy ===== *)
theory Lexer_Line
  imports Lexer
begin

text \<open>
  The loop of \<open>arksh_lex_line\<close> over the steps of \<open>Lexer\<close>, and the properties of a lexed line: the
  tokens are disjoint slices of the line with only white space between them, they stay within
  the array bounds, and only some of the declared kinds and errors can occur.
\<close>

subsection \<open>What a step does\<close>

definition emitted_kind :: "token_kind \<Rightarrow> bool" where
  "emitted_kind k \<longleftrightarrow> k \<notin> {Tok_invalid, Tok_eof, Tok_string, Tok_redirect_error,
     Tok_redirect_error_append, Tok_redirect_error_to_output}"

definition token_at :: "nat \<Rightarrow> string \<Rightarrow> string \<Rightarrow> token \<Rightarrow> bool" where
  "token_at len cs u t \<longleftrightarrow>
     tok_raw t = u \<and> tok_pos t = len - length cs \<and> emitted_kind (tok_kind t) \<and>
     length (tok_text t) \<le> length u \<and> length u < max_token"

definition lex_advance :: "nat \<Rightarrow> lex_state \<Rightarrow> lex_state \<Rightarrow> bool" where
  "lex_advance len st st' \<longleftrightarrow>
     (\<exists>u. u \<noteq> [] \<and> ls_rest st = u @ ls_rest st' \<and>
        (length u = 1 \<and> c_isspace (hd u) \<and> ls_tokens st' = ls_tokens st \<or>
         (\<exists>t. ls_tokens st' = ls_tokens st @ [t] \<and> token_at len (ls_rest st) u t \<and>
              length (ls_tokens st) < max_lexer_tokens \<and> \<not> c_isspace (hd u))))"

lemma emit_advance:
  assumes "emit len k s st = Inr st'" and "ls_rest st = s @ r" and "s \<noteq> []"
    and "length s < max_token" and "emitted_kind k" and "\<not> c_isspace (hd s)"
  shows "lex_advance len st st' \<and> ls_rest st' = r"
proof -
  have "ls_tokens st' = ls_tokens st @
      [\<lparr>tok_kind = k, tok_text = s, tok_raw = s, tok_pos = len - length (ls_rest st)\<rparr>]"
    and "length (ls_tokens st) < max_lexer_tokens" and "ls_rest st' = r"
    using assms by (auto simp: emit_def push_token_def err_simps split: if_splits)
  with assms show ?thesis
    by (auto simp: lex_advance_def token_at_def intro!: exI [of _ s])
qed

lemma emit_errs: "emit len k s st = Inl e \<Longrightarrow> e = Too_many_tokens"
  by (auto simp: emit_def push_token_def err_simps split: if_splits)

text \<open>What a scanner has to provide for its token to be a step.\<close>

locale token_scanner =
  fixes scan :: "nat \<Rightarrow> string \<Rightarrow> lex_error + (token \<times> string)" and starts :: "string \<Rightarrow> bool"
    and errs :: "lex_error set"
  assumes scan_law: "starts cs \<Longrightarrow>
     case scan pos cs of
       Inl e \<Rightarrow> e \<in> errs
     | Inr (t, rest) \<Rightarrow>
         \<exists>u. cs = u @ rest \<and> u \<noteq> [] \<and> tok_raw t = u \<and> emitted_kind (tok_kind t) \<and>
             tok_pos t = pos \<and> length (tok_text t) \<le> length u \<and> length u < max_token"
begin

lemma emit_scanned_advance:
  assumes "emit_scanned scan len st = Inr st'" and "starts (ls_rest st)"
    and "\<not> c_isspace (hd (ls_rest st))"
  shows "lex_advance len st st'"
proof -
  from assms(1) obtain t rest where
    s: "scan (len - length (ls_rest st)) (ls_rest st) = Inr (t, rest)"
    and st': "st' = st\<lparr>ls_tokens := ls_tokens st @ [t], ls_rest := rest\<rparr>"
      "length (ls_tokens st) < max_lexer_tokens"
    by (auto simp: emit_scanned_def err_simps split: if_splits)
  from scan_law [OF assms(2), of "len - length (ls_rest st)"] s obtain u where
    "ls_rest st = u @ rest" "u \<noteq> []" "tok_raw t = u" "emitted_kind (tok_kind t)"
    "tok_pos t = len - length (ls_rest st)" "length (tok_text t) \<le> length u" "length u < max_token"
    by auto
  with st' assms(3) show ?thesis
    by (auto simp: lex_advance_def token_at_def intro!: exI [of _ u])
qed

lemma emit_scanned_errs:
  "emit_scanned scan len st = Inl e \<Longrightarrow> starts (ls_rest st) \<Longrightarrow> e = Too_many_tokens \<or> e \<in> errs"
  using scan_law [of "ls_rest st" "len - length (ls_rest st)"]
  by (auto simp: emit_scanned_def err_simps split: if_splits)

end

definition procsubst_errs :: "lex_error set" where
  "procsubst_errs = {Too_long ''raw token'', Unterminated_procsubst, Dangling_escape_procsubst}"

interpretation procsubst_token: token_scanner
  "scan_process_substitution_token (proc_subst_kind cs0)"
  "\<lambda>cs. next_is ''<('' cs \<or> next_is ''>('' cs" procsubst_errs for cs0
proof (unfold_locales, goal_cases)
  case (1 cs pos)
  then show ?case
    using scan_process_substitution_token_result [of cs "proc_subst_kind cs0" pos]
    by (auto simp: procsubst_errs_def proc_subst_kind_def emitted_kind_def split: sum.splits)
qed

interpretation word_token: token_scanner "scan_word_token cond"
  "\<lambda>cs. cs \<noteq> [] \<and> \<not> word_stop cond (hd cs) (tl cs)" word_errs for cond
proof (unfold_locales, goal_cases)
  case (1 cs pos)
  then show ?case
    using scan_word_token_result [where cond = cond and start = pos and cs = cs]
    by (auto simp: emitted_kind_def split: sum.splits)
qed

subsection \<open>Redirection tokens\<close>

lemma match_fd_two: "next_is ''2>'' cs \<Longrightarrow> match_fd_redirection_token cs \<noteq> None"
  by (cases cs; cases "tl cs") (auto simp: match_fd_redirection_token_def Let_def c_isdigit_def)

lemma match_fd_Some:
  assumes "match_fd_redirection_token cs = Some (k, n)"
  shows "n \<le> length cs \<and> 0 < n \<and> emitted_kind k \<and> c_isdigit (hd cs) \<and> cs \<noteq> []"
proof -
  let ?m = "length (takeWhile c_isdigit cs)"
  have m: "0 < ?m" "drop ?m cs \<noteq> []"
    using assms by (auto simp: match_fd_redirection_token_def Let_def split: if_splits)
  then have "c_isdigit (hd cs)" "cs \<noteq> []"
    by (cases cs; auto split: if_splits)+
  moreover have "n \<le> length cs \<and> emitted_kind k \<and> 0 < n"
    using assms m next_isD [of _ "drop ?m cs"]
    by (auto simp: match_fd_redirection_token_def Let_def emitted_kind_def length_takeWhile_le
        split: if_splits dest!: arg_cong [of _ _ length])
  ultimately show ?thesis by simp
qed

lemma digit_not_space: "c_isdigit c \<Longrightarrow> \<not> c_isspace c"
  by (auto simp: c_isdigit_def c_isspace_def)

subsection \<open>Every step advances\<close>

definition lex_errs :: "lex_error set" where
  "lex_errs = {Too_many_tokens, Fd_token_too_long, Unterminated_conditional} \<union> word_errs \<union> procsubst_errs"

definition step_ok :: "nat \<Rightarrow> lex_state \<Rightarrow> lex_error + lex_state \<Rightarrow> bool" where
  "step_ok len st m \<longleftrightarrow> (case m of Inl e \<Rightarrow> e \<in> lex_errs | Inr st' \<Rightarrow> lex_advance len st st')"

lemma step_ok_flags [simp]:
  "step_ok len st m \<Longrightarrow> step_ok len st (set_flags a b m)"
  "step_ok len st m \<Longrightarrow> step_ok len st (set_pending b m)"
  by (auto simp: step_ok_def set_flags_def set_pending_def lex_advance_def split: sum.splits)

lemma step_ok_bracket [simp]:
  "step_ok len st m \<Longrightarrow> step_ok len st (bind_err m (\<lambda>st'. Inr (st'\<lparr>in_double_bracket := b\<rparr>)))"
  "step_ok len st m \<Longrightarrow>
   step_ok len st (bind_err m (\<lambda>st'. Inr (st'\<lparr>in_double_bracket := b, command_word_allowed := c\<rparr>)))"
  by (auto simp: step_ok_def lex_advance_def split: sum.splits)

lemma step_ok_emit:
  assumes "next_is s (ls_rest st)" and "s \<noteq> []" and "length s < max_token" and "emitted_kind k"
    and "\<not> c_isspace (hd (ls_rest st))"
  shows "step_ok len st (emit len k s st)"
proof (cases "emit len k s st")
  case (Inl e)
  then show ?thesis using emit_errs by (auto simp: step_ok_def lex_errs_def)
next
  case (Inr st')
  obtain r where r: "ls_rest st = s @ r" using next_isD [OF assms(1)] by blast
  with assms(2,5) have "\<not> c_isspace (hd s)" by simp
  with emit_advance [OF Inr r assms(2-4)] Inr show ?thesis by (simp add: step_ok_def)
qed

lemma step_ok_procsubst:
  "next_is ''<('' (ls_rest st) \<or> next_is ''>('' (ls_rest st) \<Longrightarrow> \<not> c_isspace (hd (ls_rest st)) \<Longrightarrow>
   step_ok len st (emit_scanned (scan_process_substitution_token (proc_subst_kind cs0)) len st)"
  using procsubst_token.emit_scanned_advance [of cs0 len st] procsubst_token.emit_scanned_errs [of cs0 len st]
  by (auto simp: step_ok_def lex_errs_def simp del: next_is_split split: sum.splits)

lemma step_ok_word:
  "ls_rest st \<noteq> [] \<Longrightarrow> \<not> word_stop cond (hd (ls_rest st)) (tl (ls_rest st)) \<Longrightarrow>
   \<not> c_isspace (hd (ls_rest st)) \<Longrightarrow> step_ok len st (emit_scanned (scan_word_token cond) len st)"
  using word_token.emit_scanned_advance [of cond len st] word_token.emit_scanned_errs [of cond len st]
  by (auto simp: step_ok_def lex_errs_def split: sum.splits)

lemma step_ok_if:
  "(P \<Longrightarrow> step_ok len st a) \<Longrightarrow> (\<not> P \<Longrightarrow> step_ok len st b) \<Longrightarrow> step_ok len st (if P then a else b)"
  by simp

lemmas step_ok_intros = step_ok_if step_ok_flags step_ok_bracket step_ok_emit step_ok_procsubst
  step_ok_word

lemma max_token_lits [simp]: "Suc 0 < max_token" "Suc (Suc 0) < max_token"
  "Suc (Suc (Suc 0)) < max_token" "Suc (Suc (Suc (Suc 0))) < max_token"
  by (simp_all add: max_token_def)

lemma lex_bracket_step_ok:
  assumes "ls_rest st \<noteq> []" and "\<not> c_isspace (hd (ls_rest st))"
  shows "step_ok len st (lex_bracket_step len st)"
proof -
  let ?cs = "ls_rest st"
  have one: "next_is (take 1 ?cs) ?cs" "take 1 ?cs \<noteq> []" "length (take 1 ?cs) < max_token"
    using assms(1) by (cases ?cs; simp add: max_token_def)+
  have stop: "\<not> word_stop True (hd ?cs) (tl ?cs)"
    if "\<not> next_is '']]'' ?cs" "\<not> next_is ''&&'' ?cs" "\<not> next_is ''||'' ?cs"
      "\<not> (next_is ''!'' ?cs \<or> next_is ''('' ?cs \<or> next_is '')'' ?cs)"
    using that assms by (cases ?cs) (auto simp: word_stop_def cond_word_stop_def)
  show ?thesis
    unfolding lex_bracket_step_def Let_def
    by (intro step_ok_intros)
      (use assms one stop in \<open>simp_all add: emitted_kind_def del: next_is_split next_is_simps\<close>)
qed

lemma lex_word_step_ok:
  assumes "ls_rest st \<noteq> []" and "\<not> c_isspace (hd (ls_rest st))"
    and sp: "\<not> next_is ''('' (ls_rest st) \<Longrightarrow> \<not> next_is '')'' (ls_rest st) \<Longrightarrow>
         \<not> next_is '','' (ls_rest st) \<Longrightarrow> \<not> is_special_token_start (ls_rest st)"
  shows "step_ok len st (lex_word_step len st)"
proof -
  let ?cs = "ls_rest st"
  have stop: "\<not> word_stop False (hd ?cs) (tl ?cs)"
    if "\<not> next_is ''('' ?cs" "\<not> next_is '')'' ?cs" "\<not> next_is '','' ?cs"
    using sp [OF that] assms(1,2) by (simp add: word_stop_def)
  show ?thesis
    unfolding lex_word_step_def Let_def
    by (intro step_ok_intros)
      (use assms(1,2) stop in \<open>simp_all add: emitted_kind_def del: next_is_split next_is_simps\<close>)
qed

lemma next_is_take: "next_is (s @ t) cs \<Longrightarrow> next_is s cs"
proof -
  assume "next_is (s @ t) cs"
  then obtain r where "cs = (s @ t) @ r" using next_isD by blast
  then show ?thesis by (simp add: next_is_def)
qed

lemma lex_redirect_step_ok:
  assumes "ls_rest st \<noteq> []" and "\<not> c_isspace (hd (ls_rest st))"
    and "match_fd_redirection_token (ls_rest st) = None"
    and n: "\<not> next_is ''|'' (ls_rest st)" "\<not> next_is ''&'' (ls_rest st)"
      "\<not> next_is '';'' (ls_rest st)" "\<not> next_is ''->'' (ls_rest st)"
  shows "step_ok len st (lex_redirect_step len st)"
proof -
  let ?cs = "ls_rest st"
  have two: "\<not> next_is ''2>'' ?cs" using match_fd_two assms(3) by blast
  then have two': "\<not> next_is ''2>&1'' ?cs" "\<not> next_is ''2>>'' ?cs"
    using next_is_take [of "''2>''" "''&1''" ?cs] next_is_take [of "''2>''" "''>''" ?cs] by auto
  have pre: "next_is [a] ?cs" if "next_is (a # s) ?cs" for a s
    using next_is_take [of "[a]" s] that by simp
  have word: "step_ok len st (lex_word_step len st)"
    if "\<not> next_is ''<'' ?cs" "\<not> next_is ''>'' ?cs"
    by (rule lex_word_step_ok)
      (use assms that two two' pre in \<open>auto simp: is_special_token_start_def simp del: next_is_split next_is_simps\<close>)
  show ?thesis
    unfolding lex_redirect_step_def Let_def
    by (intro step_ok_intros)
      (use assms(1,2) two two' word in \<open>simp_all add: emitted_kind_def del: next_is_split next_is_simps\<close>)
qed

lemma lex_operator_step_ok:
  assumes "ls_rest st \<noteq> []" and "\<not> c_isspace (hd (ls_rest st))"
    and "match_fd_redirection_token (ls_rest st) = None"
  shows "step_ok len st (lex_operator_step len st)"
  unfolding lex_operator_step_def Let_def
  by (intro step_ok_intros)
    (use assms lex_redirect_step_ok [OF assms] in
      \<open>simp_all add: emitted_kind_def del: next_is_split next_is_simps\<close>)

lemma lex_command_step_ok:
  assumes "ls_rest st \<noteq> []" and "\<not> c_isspace (hd (ls_rest st))"
  shows "step_ok len st (lex_command_step len st)"
proof -
  let ?cs = "ls_rest st"
  have fd: "step_ok len st (emit len k (take n ?cs) st)"
    if "match_fd_redirection_token ?cs = Some (k, n)" "n < max_token" for k n
    using match_fd_Some [OF that(1)] that(2) assms
    by (intro step_ok_emit) (auto simp: next_is_def min_def)
  have rest: "step_ok len st (if next_is ''<('' ?cs \<or> next_is ''>('' ?cs
      then set_flags False False
        (emit_scanned (scan_process_substitution_token (proc_subst_kind ?cs)) len st)
      else lex_operator_step len st)" if "match_fd_redirection_token ?cs = None"
    by (intro step_ok_intros)
      (use assms lex_operator_step_ok [OF assms that] in \<open>simp_all del: next_is_split next_is_simps\<close>)
  have bb: "step_ok len st (emit len Tok_word ''[['' st)" if "opens_double_bracket ?cs"
    by (intro step_ok_emit)
      (use that assms in \<open>simp_all add: opens_double_bracket_def emitted_kind_def del: next_is_split\<close>)
  show ?thesis
    unfolding lex_command_step_def Let_def
    using fd rest bb by (auto simp: step_ok_def [of _ _ "Inl _"] lex_errs_def split: option.split)
qed

lemma lex_step_ok: "ls_rest st \<noteq> [] \<Longrightarrow> step_ok len st (lex_step len st)"
proof -
  assume ne: "ls_rest st \<noteq> []"
  show ?thesis
  proof (cases "c_isspace (hd (ls_rest st))")
    case True
    with ne have "lex_advance len st (st\<lparr>ls_rest := tl (ls_rest st)\<rparr>)"
      by (auto simp: lex_advance_def intro!: exI [of _ "[hd (ls_rest st)]"])
    with True show ?thesis by (simp add: lex_step_def step_ok_def)
  next
    case False
    with ne show ?thesis by (simp add: lex_step_def lex_bracket_step_ok lex_command_step_ok)
  qed
qed

lemma lex_step_shorter:
  "lex_step len st = Inr st' \<Longrightarrow> ls_rest st \<noteq> [] \<Longrightarrow> length (ls_rest st') < length (ls_rest st)"
  using lex_step_ok [of st len] by (auto simp: step_ok_def lex_advance_def)

subsection \<open>The line\<close>

function lex_loop :: "nat \<Rightarrow> lex_state \<Rightarrow> lex_error + token list" where
  "lex_loop len st =
     (if ls_rest st = [] then lex_finish len st
      else bind_err (lex_step len st) (\<lambda>st'. lex_loop len st'))"
  by pat_completeness auto
termination
  by (relation "measure (\<lambda>(len, st). length (ls_rest st))") (auto intro: lex_step_shorter)

declare lex_loop.simps [simp del]

definition arksh_lex_line :: "string \<Rightarrow> lex_error + token list" where
  "arksh_lex_line line =
     lex_loop (length line)
       \<lparr>ls_tokens = [], in_double_bracket = False, command_word_allowed = True,
        pending_redirect_target = False, ls_rest = line\<rparr>"

text \<open>
  A lexing of a line: white space, then tokens whose raw text is the line's own text at their
  position, each followed by more white space, up to the end.
\<close>

fun lexes :: "nat \<Rightarrow> string \<Rightarrow> token list \<Rightarrow> bool" where
  "lexes pos cs [] = False"
| "lexes pos cs [t] \<longleftrightarrow> list_all c_isspace cs \<and> tok_kind t = Tok_eof \<and> tok_raw t = [] \<and>
     tok_text t = [] \<and> tok_pos t = pos + length cs"
| "lexes pos cs (t # ts) \<longleftrightarrow>
     (let ws = takeWhile c_isspace cs; start = length ws; u = tok_raw t in
      tok_pos t = pos + start \<and> u \<noteq> [] \<and> length u < max_token \<and>
      length (tok_text t) \<le> length u \<and> emitted_kind (tok_kind t) \<and>
      next_is u (drop start cs) \<and> lexes (pos + start + length u) (drop (start + length u) cs) ts)"

lemma lexes_nonempty: "lexes pos cs ts \<Longrightarrow> ts \<noteq> []"
  by auto

lemma lexes_space: "c_isspace c \<Longrightarrow> lexes pos (c # cs) ts = lexes (Suc pos) cs ts"
  by (cases "(pos, cs, ts)" rule: lexes.cases) (auto simp: Let_def)

lemma lexes_token:
  assumes "token_at len (u @ r) u t" and "u \<noteq> []" and "\<not> c_isspace (hd u)"
    and "length (u @ r) \<le> len" and "lexes (len - length r) r ts"
  shows "lexes (len - length (u @ r)) (u @ r) (t # ts)"
proof -
  from assms(5) obtain t' ts' where ts: "ts = t' # ts'" by (cases ts) auto
  have ws: "takeWhile c_isspace (u @ r) = []" using assms(2,3) by (cases u) auto
  have pos: "len - length (u @ r) + length u = len - length r" using assms(4) by simp
  show ?thesis
    using assms pos by (simp add: ts ws token_at_def Let_def next_is_def)
qed

lemma lex_loop_lexes:
  "lex_loop len st = Inr toks \<Longrightarrow> length (ls_rest st) \<le> len \<Longrightarrow>
   length toks \<le> max_lexer_tokens \<and>
   (\<exists>new. toks = ls_tokens st @ new \<and> lexes (len - length (ls_rest st)) (ls_rest st) new)"
proof (induction len st rule: lex_loop.induct)
  case (1 len st)
  show ?case
  proof (cases "ls_rest st = []")
    case True
    with "1.prems" have "lex_finish len st = Inr toks" by (simp add: lex_loop.simps)
    then show ?thesis
      using True by (auto simp: lex_finish_def push_token_def err_simps copy_string_def split: if_splits)
  next
    case False
    with "1.prems"(1) obtain st' where st': "lex_step len st = Inr st'" "lex_loop len st' = Inr toks"
      by (auto simp: lex_loop.simps [of len st] err_simps)
    from lex_step_ok [OF False, of len] st'(1) have adv: "lex_advance len st st'"
      by (simp add: step_ok_def)
    then obtain u where u: "u \<noteq> []" "ls_rest st = u @ ls_rest st'"
      and how: "length u = 1 \<and> c_isspace (hd u) \<and> ls_tokens st' = ls_tokens st \<or>
         (\<exists>t. ls_tokens st' = ls_tokens st @ [t] \<and> token_at len (ls_rest st) u t \<and>
              length (ls_tokens st) < max_lexer_tokens \<and> \<not> c_isspace (hd u))"
      by (auto simp: lex_advance_def)
    from "1.IH" [OF False st'] u "1.prems"(2) obtain new where
      IH: "length toks \<le> max_lexer_tokens" "toks = ls_tokens st' @ new"
        "lexes (len - length (ls_rest st')) (ls_rest st') new"
      by auto
    from how show ?thesis
    proof
      assume sp: "length u = 1 \<and> c_isspace (hd u) \<and> ls_tokens st' = ls_tokens st"
      then obtain c where c: "u = [c]" "c_isspace c" by (cases u) auto
      have "len - length (ls_rest st') = Suc (len - length (ls_rest st))"
        using u(2) c "1.prems"(2) by simp
      with IH sp u(2) c show ?thesis by (auto simp: lexes_space)
    next
      assume "\<exists>t. ls_tokens st' = ls_tokens st @ [t] \<and> token_at len (ls_rest st) u t \<and>
              length (ls_tokens st) < max_lexer_tokens \<and> \<not> c_isspace (hd u)"
      then show ?thesis
        using lexes_token [of len u "ls_rest st'"] IH u "1.prems"(2) by auto
    qed
  qed
qed

lemma lex_loop_errs: "lex_loop len st = Inl e \<Longrightarrow> e \<in> lex_errs"
proof (induction len st rule: lex_loop.induct)
  case (1 len st)
  show ?case
  proof (cases "ls_rest st = []")
    case True
    with "1.prems" show ?thesis
      by (auto simp: lex_loop.simps [of len st] lex_finish_def push_token_def err_simps lex_errs_def
          split: if_splits)
  next
    case False
    with "1.prems" "1.IH" lex_step_ok [OF False, of len] show ?thesis
      by (auto simp: lex_loop.simps [of len st] err_simps step_ok_def)
  qed
qed

text \<open>
  (C5) Lexing loses nothing: when \<open>arksh_lex_line\<close> accepts a line, the raw texts of the tokens are the
  line's own characters at the recorded positions, in order and without overlap, with only white
  space between them and after the last one, and the list ends in one end-of-line token.  Each
  text fits the token arrays, there are at most \<open>ARKSH_MAX_LEXER_TOKENS\<close> tokens, and kinds the
  lexer declares but never produces (a string token, the dedicated \<open>2>\<close> tokens) do not occur.
\<close>

theorem lex_line_lossless:
  assumes "arksh_lex_line line = Inr toks"
  shows "lexes 0 line toks \<and> length toks \<le> max_lexer_tokens"
  using lex_loop_lexes [OF assms [unfolded arksh_lex_line_def]] by simp

theorem lex_line_lossless_witness:
  "\<exists>toks. arksh_lex_line ''ls -l  2>err'' = Inr toks \<and> lexes 0 ''ls -l  2>err'' toks \<and> length toks = 5"
proof -
  have "case arksh_lex_line ''ls -l  2>err'' of Inl e \<Rightarrow> False | Inr toks \<Rightarrow> length toks = 5"
    by code_simp
  then show ?thesis using lex_line_lossless [of "''ls -l  2>err''"] by (auto split: sum.splits)
qed

text \<open>
  The errors of \<open>arksh_lex_line\<close> are among the limits (too many tokens, a token too long for
  its raw buffer) and the unterminated or dangling constructs.  The \<open>unexpected token\<close> message, the
  checks of the scanners' entry characters and the overflow of the cooked buffer are unreachable.
\<close>

theorem lex_line_errors:
  assumes "arksh_lex_line line = Inl e"
  shows "e \<in> lex_errs"
  using lex_loop_errs [OF assms [unfolded arksh_lex_line_def]] .

theorem lex_line_errors_witness:
  "arksh_lex_line [squote] = Inl Unterminated_string \<and> Unterminated_string \<in> lex_errs"
proof -
  have e: "arksh_lex_line [squote] = Inl Unterminated_string" by code_simp
  with lex_line_errors [OF e] show ?thesis by blast
qed

subsection \<open>Quoting\<close>

text \<open>
  A word written in quotes: single quotes take any text without a single quote, double quotes
  take any text with its backslashes and double quotes escaped.
\<close>

fun dq_escape :: "string \<Rightarrow> string" where
  "dq_escape [] = []"
| "dq_escape (c # s) = (if c = dquote \<or> c = bslash then [bslash, c] else [c]) @ dq_escape s"

lemma dq_escape_longer: "length s \<le> length (dq_escape s)"
  by (induction s) auto

definition quote_char :: "string \<Rightarrow> char" where
  "quote_char s = (if squote \<in> set s then dquote else squote)"

definition quote_body :: "string \<Rightarrow> string" where
  "quote_body s =
     (if squote \<in> set s then dq_escape s else s)"

definition quote_word :: "string \<Rightarrow> string" where
  "quote_word s = quote_char s # quote_body s @ [quote_char s]"

lemma scan_squoted:
  "squote \<notin> set s \<Longrightarrow> length rw + length s + 1 < max_token \<Longrightarrow> length ck \<le> length rw \<Longrightarrow>
   scan_quoted_loop squote rw ck (s @ squote # rest) = Inr (rw @ s @ [squote], ck @ s, rest)"
  by (induction s arbitrary: rw ck) (auto simp: append_both_def append_chars_eq append_char_def)

lemma scan_dquoted:
  "length rw + length (dq_escape s) + 1
     < max_token \<Longrightarrow> length ck \<le> length rw \<Longrightarrow>
   scan_quoted_loop dquote rw ck
     (dq_escape s @ dquote # rest) =
   Inr (rw @ dq_escape s @ [dquote],
        ck @ s, rest)"
  by (induction s arbitrary: rw ck) (auto simp: append_both_def append_chars_eq append_char_def)

lemma scan_quote_word:
  assumes "length (quote_word s) < max_token" and "rest = [] \<or> c_isspace (hd rest)"
  shows "scan_word_token False pos (quote_word s @ rest) =
    Inr (\<lparr>tok_kind = Tok_word, tok_text = s, tok_raw = quote_word s, tok_pos = pos\<rparr>, rest)"
proof -
  let ?q = "quote_char s" and ?b = "quote_body s"
  have q: "?q = squote \<or> ?q = dquote" by (simp add: quote_char_def)
  then have go: "\<not> word_stop False ?q (?b @ ?q # rest)"
    by (auto simp: word_stop_def is_special_token_start_def match_fd_redirection_token_def
        c_isspace_def c_isdigit_def)
  have body: "scan_quoted_loop ?q [?q] [] (?b @ ?q # rest) = Inr (quote_word s, s, rest)"
    using assms(1) scan_squoted [of s "[squote]" "[]" rest] scan_dquoted [of "[dquote]" s "[]" rest]
    by (auto simp: quote_word_def quote_char_def quote_body_def)
  have stop: "scan_word_loop False True (quote_word s) s rest = Inr (True, quote_word s, s, rest)"
    using assms(2) by (cases rest) (auto simp: word_stop word_stop_def subst_start_def c_isspace_def)
  have "scan_word_loop False False [] [] (quote_word s @ rest) = Inr (True, quote_word s, s, rest)"
    using word_quoted [OF go q, of False "[]" "[]"] body stop
    by (simp add: quote_word_def append_char_def max_token_def)
  moreover have "length s \<le> length (quote_word s)"
    using dq_escape_longer [of s] by (simp add: quote_word_def quote_body_def)
  ultimately show ?thesis
    using assms(1) by (simp add: scan_word_token_def)
qed

fun quote_line :: "string list \<Rightarrow> string" where
  "quote_line [] = []"
| "quote_line (s # args) = quote_word s @ CHR '' '' # quote_line args"

lemma lex_step_quote_word:
  assumes "length (quote_word s) < max_token" and "ls_rest st = quote_word s @ CHR '' '' # r"
    and "\<not> in_double_bracket st" and "length (ls_tokens st) < max_lexer_tokens"
  shows "\<exists>st' t. lex_step len st = Inr st' \<and> ls_rest st' = CHR '' '' # r \<and>
     \<not> in_double_bracket st' \<and> ls_tokens st' = ls_tokens st @ [t] \<and>
     tok_kind t = Tok_word \<and> tok_text t = s"
proof -
  obtain q where q: "ls_rest st = q # quote_body s @ q # CHR '' '' # r" "q = squote \<or> q = dquote"
    using assms(2) by (simp add: quote_word_def quote_char_def)
  have scan: "scan_word_token False pos (ls_rest st) =
      Inr (\<lparr>tok_kind = Tok_word, tok_text = s, tok_raw = quote_word s, tok_pos = pos\<rparr>, CHR '' '' # r)"
    for pos using scan_quote_word [OF assms(1), of "CHR '' '' # r" pos] assms(2)
    by (simp add: c_isspace_def)
  have nn: "\<not> next_is (a # x) (ls_rest st)" if "a \<noteq> squote" "a \<noteq> dquote" for a x
    using q that by auto
  have fd: "match_fd_redirection_token (ls_rest st) = None" and "\<not> c_isspace (hd (ls_rest st))"
    using q by (auto simp: match_fd_redirection_token_def c_isdigit_def c_isspace_def)
  then have "lex_step len st = lex_command_step len st"
    using assms(3) by (simp add: lex_step_def)
  also have "\<dots> = lex_operator_step len st"
    by (simp add: lex_command_step_def Let_def fd opens_double_bracket_def nn
        del: next_is_split next_is_simps)
  also have "\<dots> = lex_redirect_step len st"
    by (simp add: lex_operator_step_def Let_def nn del: next_is_split next_is_simps)
  also have "\<dots> = lex_word_step len st"
    by (simp add: lex_redirect_step_def Let_def nn del: next_is_split next_is_simps)
  also have "\<dots> = (if pending_redirect_target st
      then set_pending False (emit_scanned (scan_word_token False) len st)
      else set_flags False False (emit_scanned (scan_word_token False) len st))"
    by (simp add: lex_word_step_def Let_def nn del: next_is_split next_is_simps)
  finally show ?thesis
    using scan assms(3,4) by (simp add: emit_scanned_def set_flags_def set_pending_def)
qed

lemma lex_step_space:
  "c_isspace c \<Longrightarrow> ls_rest st = c # r \<Longrightarrow> lex_step len st = Inr (st\<lparr>ls_rest := r\<rparr>)"
  by (simp add: lex_step_def)

lemma lex_loop_quote_line:
  "ls_rest st = quote_line args \<Longrightarrow> \<not> in_double_bracket st \<Longrightarrow>
   length (ls_tokens st) + length args < max_lexer_tokens \<Longrightarrow>
   \<forall>s \<in> set args. length (quote_word s) < max_token \<Longrightarrow>
   \<exists>words eof. lex_loop len st = Inr (ls_tokens st @ words @ [eof]) \<and> map tok_text words = args \<and>
     list_all (\<lambda>t. tok_kind t = Tok_word) words \<and> tok_kind eof = Tok_eof"
proof (induction args arbitrary: st)
  case Nil
  then show ?case
    by (auto simp: lex_loop.simps [of len st] lex_finish_def push_token_def)
next
  case (Cons s args)
  from lex_step_quote_word [of s st "quote_line args" len] Cons.prems obtain st' t where
    st': "lex_step len st = Inr st'" "ls_rest st' = CHR '' '' # quote_line args"
      "\<not> in_double_bracket st'" "ls_tokens st' = ls_tokens st @ [t]"
    and t: "tok_kind t = Tok_word" "tok_text t = s"
    by auto
  have ne: "ls_rest st \<noteq> []" using Cons.prems(1) by (simp add: quote_word_def)
  have sp: "lex_step len st' = Inr (st'\<lparr>ls_rest := quote_line args\<rparr>)"
    by (rule lex_step_space [OF _ st'(2)]) (simp add: c_isspace_def)
  have "lex_loop len st = lex_loop len st'"
    by (simp add: lex_loop.simps [of len st] ne st'(1))
  also have "\<dots> = lex_loop len (st'\<lparr>ls_rest := quote_line args\<rparr>)"
    by (simp add: lex_loop.simps [of len st'] st'(2) sp)
  finally have loop: "lex_loop len st = lex_loop len (st'\<lparr>ls_rest := quote_line args\<rparr>)" .
  from Cons.IH [of "st'\<lparr>ls_rest := quote_line args\<rparr>"] Cons.prems st' obtain words eof where
    "lex_loop len (st'\<lparr>ls_rest := quote_line args\<rparr>) = Inr (ls_tokens st @ [t] @ words @ [eof])"
    "map tok_text words = args" "list_all (\<lambda>t. tok_kind t = Tok_word) words" "tok_kind eof = Tok_eof"
    by auto
  with loop t show ?case
    by (intro exI [of _ "t # words"] exI [of _ eof]) simp
qed

text \<open>
  Quoting protects everything: a list of argument texts, each written in single or double
  quotes and separated by spaces, lexes to exactly one word token per argument with that argument
  as its text, whatever operators, substitutions, blanks or quotes the arguments contain.
\<close>

theorem lex_quoted_arguments:
  assumes "length args < max_lexer_tokens"
    and "\<forall>s \<in> set args. length (quote_word s) < max_token"
  shows "\<exists>words eof. arksh_lex_line (quote_line args) = Inr (words @ [eof]) \<and>
     map tok_text words = args \<and> list_all (\<lambda>t. tok_kind t = Tok_word) words \<and> tok_kind eof = Tok_eof"
  unfolding arksh_lex_line_def
  using lex_loop_quote_line [where len = "length (quote_line args)" and args = args and st =
      "\<lparr>ls_tokens = [], in_double_bracket = False, command_word_allowed = True,
        pending_redirect_target = False, ls_rest = quote_line args\<rparr>"] assms by simp

theorem lex_quoted_arguments_witness:
  "\<exists>words eof. arksh_lex_line (quote_line [''echo'', ''a|b; $(c)'', ''it'' @ [squote, bslash, dquote]]) =
       Inr (words @ [eof]) \<and>
     map tok_text words = [''echo'', ''a|b; $(c)'', ''it'' @ [squote, bslash, dquote]] \<and>
     list_all (\<lambda>t. tok_kind t = Tok_word) words \<and> tok_kind eof = Tok_eof"
  by (rule lex_quoted_arguments)
    (simp_all add: max_lexer_tokens_def max_token_def quote_word_def quote_body_def)

end
