(* ===== verification/Glob.thy ===== *)
theory Glob
  imports Arksh_Prelude
begin

text \<open>
  Pattern matching: the matchers behind \<open>${var#pat}\<close>, \<open>${var%pat}\<close> and \<open>${var/pat/repl}\<close> of
  \<^verbatim>\<open>src/expand.c\<close> and the matcher of \<open>case\<close> branches of \<^verbatim>\<open>src/executor.c\<close>.  Strings are the
  characters before the terminating NUL.  The reference is \<open>pmatch\<close>, the language of a list of
  pattern elements; the matchers are proved equal to it, the greedy prefix matcher is proved to
  find the longest match, and the trims and substitutions are characterised through it.
\<close>

subsection \<open>The matchers of expand.c\<close>

text \<open>The \<open>if (*pat == '\' && *(pat + 1) != 0) pat++\<close> of every matcher.\<close>

definition escaped :: "char \<Rightarrow> string \<Rightarrow> char \<times> string" where
  "escaped p ps = (if p = bslash \<and> ps \<noteq> [] then (hd ps, tl ps) else (p, ps))"

lemma escaped_shorter: "(l, r) = escaped p ps \<Longrightarrow> length r < Suc (length ps)"
  by (auto simp: escaped_def split: if_splits)

text \<open>
  The loop over \<open>k\<close> of \<open>glob_match_prefix\<close>, from the end of the string down; \<open>None\<close> is the
  result \<open>-1\<close>.
\<close>

fun star_greedy :: "(string \<Rightarrow> nat option) \<Rightarrow> string \<Rightarrow> nat \<Rightarrow> nat option" where
  "star_greedy f str k =
     (case f (drop k str) of
        Some rest \<Rightarrow> Some (k + rest)
      | None \<Rightarrow> (case k of 0 \<Rightarrow> None | Suc k' \<Rightarrow> star_greedy f str k'))"

declare star_greedy.simps [simp del]

lemma star_greedy_cong [fundef_cong]:
  assumes "str = str'" "k = k'" "\<And>x. f x = g x"
  shows "star_greedy f str k = star_greedy g str' k'"
proof -
  from assms(3) have "f = g" by (rule ext)
  with assms(1,2) show ?thesis by simp
qed

function glob_match_prefix :: "string \<Rightarrow> string \<Rightarrow> nat option" where
  "glob_match_prefix [] str = Some 0"
| "glob_match_prefix (p # ps) str =
     (if p = CHR ''*'' then star_greedy (\<lambda>s. glob_match_prefix ps s) str (length str)
      else if p = CHR ''?'' then
        (case str of [] \<Rightarrow> None | _ # s \<Rightarrow> map_option Suc (glob_match_prefix ps s))
      else
        (let (lit, rest) = escaped p ps in
         case str of
           [] \<Rightarrow> None
         | c # s \<Rightarrow> if lit \<noteq> c then None else map_option Suc (glob_match_prefix rest s)))"
  by pat_completeness auto
termination
  by (relation "measure (\<lambda>(ps, str). length ps)") (auto dest: escaped_shorter)

text \<open>The \<open>do ... while (*str++ != 0)\<close> of \<open>glob_match_full\<close>.\<close>

fun star_any :: "(string \<Rightarrow> bool) \<Rightarrow> string \<Rightarrow> bool" where
  "star_any f str = (f str \<or> (case str of [] \<Rightarrow> False | _ # s \<Rightarrow> star_any f s))"

declare star_any.simps [simp del]

lemma star_any_cong [fundef_cong]:
  assumes "str = str'" "\<And>x. f x = g x"
  shows "star_any f str = star_any g str'"
proof -
  from assms(2) have "f = g" by (rule ext)
  with assms(1) show ?thesis by simp
qed

function glob_match_full :: "string \<Rightarrow> string \<Rightarrow> bool" where
  "glob_match_full [] str \<longleftrightarrow> str = []"
| "glob_match_full (p # ps) str \<longleftrightarrow>
     (if p = CHR ''*'' then star_any (\<lambda>s. glob_match_full ps s) str
      else if p = CHR ''?'' then (case str of [] \<Rightarrow> False | _ # s \<Rightarrow> glob_match_full ps s)
      else
        (let (lit, rest) = escaped p ps in
         case str of [] \<Rightarrow> False | c # s \<Rightarrow> lit = c \<and> glob_match_full rest s))"
  by pat_completeness auto
termination
  by (relation "measure (\<lambda>(ps, str). length ps)") (auto dest: escaped_shorter)

subsection \<open>The matcher of case patterns\<close>

text \<open>\<open>char\<close> is signed on the supported targets, so ranges compare signed values.\<close>

definition schar :: "char \<Rightarrow> int" where
  "schar c = (let n = (of_char c :: int) in if n \<ge> 128 then n - 256 else n)"

definition class_end :: "char \<Rightarrow> string \<Rightarrow> char \<times> string" where
  "class_end start cs =
     (case cs of
        d # e # ds \<Rightarrow>
          if d = CHR ''-'' \<and> e \<noteq> CHR '']'' then escaped e ds else (start, cs)
      | _ \<Rightarrow> (start, cs))"

lemma class_end_shorter: "(l, r) = class_end c cs \<Longrightarrow> length r \<le> length cs"
  using escaped_shorter by (force simp: class_end_def split: list.splits if_splits)

function class_loop :: "char \<Rightarrow> bool \<Rightarrow> string \<Rightarrow> (bool \<times> string) option" where
  "class_loop t matched [] = None"
| "class_loop t matched (c # cs) =
     (if c = CHR '']'' then Some (matched, cs)
      else
        (let (start, cs1) = escaped c cs; (stop, cs2) = class_end start cs1 in
         class_loop t (matched \<or> schar start \<le> schar t \<and> schar t \<le> schar stop) cs2))"
  by pat_completeness auto
termination
  by (relation "measure (\<lambda>(t, m, cs). length cs)")
    (auto dest!: escaped_shorter class_end_shorter)

text \<open>
  \<open>case_char_class_matches\<close> at a \<open>[\<close>: \<open>None\<close> when the class is not closed, else the verdict and
  the pattern after the class.
\<close>

definition case_char_class_matches :: "string \<Rightarrow> char \<Rightarrow> (bool \<times> string) option" where
  "case_char_class_matches pattern t =
     (case pattern of
        [] \<Rightarrow> None
      | b # ps \<Rightarrow>
          if b \<noteq> CHR ''['' then None
          else
            (let negate = next_is ''!'' ps \<or> next_is ''^'' ps;
                 body = (if negate then tl ps else ps) in
             case class_loop t False body of
               None \<Rightarrow> None
             | Some (matched, rest) \<Rightarrow> Some (if negate then \<not> matched else matched, rest)))"

lemma class_loop_shorter: "class_loop t m cs = Some (b, rest) \<Longrightarrow> length rest < length cs"
proof (induction t m cs rule: class_loop.induct)
  case (2 t matched c cs)
  show ?case
  proof (cases "c = CHR '']''")
    case True
    with "2.prems" show ?thesis by simp
  next
    case False
    obtain start cs1 where s: "escaped c cs = (start, cs1)" by fastforce
    obtain stop cs2 where e: "class_end start cs1 = (stop, cs2)" by fastforce
    from "2.IH" [OF False s [symmetric] refl e [symmetric] refl] "2.prems" False s e
    have "length rest < length cs2" by simp
    then show ?thesis
      using escaped_shorter [OF s [symmetric]] class_end_shorter [OF e [symmetric]] by simp
  qed
qed simp

lemma case_class_shorter:
  "case_char_class_matches (p # ps) t = Some (b, rest) \<Longrightarrow> length rest < Suc (length ps)"
  by (auto simp: case_char_class_matches_def Let_def split: if_splits option.splits list.splits
      dest!: class_loop_shorter)

function shell_pattern_matches :: "string \<Rightarrow> string \<Rightarrow> bool" where
  "shell_pattern_matches [] subj \<longleftrightarrow> subj = []"
| "shell_pattern_matches (p # ps) subj \<longleftrightarrow>
     (if p = CHR ''*'' then
        (let rest = dropWhile (\<lambda>c. c = CHR ''*'') ps in
         rest = [] \<or> star_any (\<lambda>s. shell_pattern_matches rest s) subj)
      else
        (case subj of
           [] \<Rightarrow> False
         | t # ts \<Rightarrow>
             if p = CHR ''?'' then shell_pattern_matches ps ts
             else if p = CHR ''['' then
               (case case_char_class_matches (p # ps) t of
                  Some (True, rest) \<Rightarrow> shell_pattern_matches rest ts
                | _ \<Rightarrow> False)
             else
               (let (lit, rest) = escaped p ps in
                lit = t \<and> shell_pattern_matches rest ts)))"
  by pat_completeness auto
termination
  by (relation "measure (\<lambda>(ps, subj). length ps)")
    (auto dest: case_class_shorter escaped_shorter simp: le_imp_less_Suc length_dropWhile_le)

subsection \<open>The language of a pattern\<close>

datatype pelem = Star | One | Lit char | Class bool "(char \<times> char) list"

definition in_class :: "bool \<Rightarrow> (char \<times> char) list \<Rightarrow> char \<Rightarrow> bool" where
  "in_class negate rs t \<longleftrightarrow>
     negate \<noteq> list_ex (\<lambda>(a, b). schar a \<le> schar t \<and> schar t \<le> schar b) rs"

primrec pmatch :: "pelem list \<Rightarrow> string \<Rightarrow> bool" where
  "pmatch [] s \<longleftrightarrow> s = []"
| "pmatch (e # es) s \<longleftrightarrow>
     (case e of
        Star \<Rightarrow> \<exists>k \<in> {0..length s}. pmatch es (drop k s)
      | One \<Rightarrow> s \<noteq> [] \<and> pmatch es (tl s)
      | Lit c \<Rightarrow> s \<noteq> [] \<and> hd s = c \<and> pmatch es (tl s)
      | Class neg rs \<Rightarrow> s \<noteq> [] \<and> in_class neg rs (hd s) \<and> pmatch es (tl s))"

function glob_elems :: "string \<Rightarrow> pelem list" where
  "glob_elems [] = []"
| "glob_elems (p # ps) =
     (if p = CHR ''*'' then Star # glob_elems ps
      else if p = CHR ''?'' then One # glob_elems ps
      else (let (lit, rest) = escaped p ps in Lit lit # glob_elems rest))"
  by pat_completeness auto
termination by (relation "measure length") (auto dest: escaped_shorter)

lemma star_any_iff: "star_any f s \<longleftrightarrow> (\<exists>k \<in> {0..length s}. f (drop k s))"
proof (induction s)
  case Nil
  show ?case by (simp add: star_any.simps)
next
  case (Cons c s)
  have "(\<exists>k \<in> {0..length (c # s)}. f (drop k (c # s))) \<longleftrightarrow>
    f (c # s) \<or> (\<exists>k \<in> {0..length s}. f (drop k s))"
    by (auto simp: Bex_def) (metis Suc_le_mono drop0 drop_Suc_Cons not0_implies_Suc zero_le)+
  with Cons show ?case by (simp add: star_any.simps [of f "c # s"])
qed

lemma glob_match_full_elems: "glob_match_full pat str = pmatch (glob_elems pat) str"
proof (induction pat str rule: glob_match_full.induct)
  case (2 p ps str)
  obtain lit rest where e: "escaped p ps = (lit, rest)" by fastforce
  show ?case
    using 2 e by (auto simp: star_any_iff Let_def split: list.splits)
qed simp

text \<open>The greedy matcher over elements.\<close>

primrec greedy :: "pelem list \<Rightarrow> string \<Rightarrow> nat option" where
  "greedy [] s = Some 0"
| "greedy (e # es) s =
     (case e of
        Star \<Rightarrow> star_greedy (greedy es) s (length s)
      | One \<Rightarrow> if s = [] then None else map_option Suc (greedy es (tl s))
      | Lit c \<Rightarrow> if s = [] \<or> hd s \<noteq> c then None else map_option Suc (greedy es (tl s))
      | Class neg rs \<Rightarrow>
          if s = [] \<or> \<not> in_class neg rs (hd s) then None else map_option Suc (greedy es (tl s)))"

lemma glob_match_prefix_elems: "glob_match_prefix pat str = greedy (glob_elems pat) str"
proof (induction pat str rule: glob_match_prefix.induct)
  case (2 p ps str)
  obtain lit rest where e: "escaped p ps = (lit, rest)" by fastforce
  have "(\<lambda>s. glob_match_prefix ps s) = greedy (glob_elems ps)" if "p = CHR ''*''"
    using 2(1) [OF that] by blast
  with 2(2,3) e show ?case by (auto simp: Let_def split: list.splits)
qed simp

lemma star_greedy_Some:
  "star_greedy f s k = Some n \<longleftrightarrow>
     (\<exists>j r. j \<le> k \<and> f (drop j s) = Some r \<and> n = j + r \<and> (\<forall>i. j < i \<and> i \<le> k \<longrightarrow> f (drop i s) = None))"
proof (induction k)
  case 0
  show ?case by (auto simp: star_greedy.simps [of f s 0] split: option.split)
next
  case (Suc k)
  show ?case
  proof (cases "f (drop (Suc k) s)")
    case None
    then have "star_greedy f s (Suc k) = star_greedy f s k" by (simp add: star_greedy.simps [of f s "Suc k"])
    with Suc None show ?thesis by (auto simp: le_Suc_eq)
  next
    case (Some r)
    then have "star_greedy f s (Suc k) = Some (Suc k + r)" by (simp add: star_greedy.simps [of f s "Suc k"])
    moreover have "n = Suc k + r"
      if "j \<le> Suc k" "f (drop j s) = Some t" "n = j + t"
        "\<forall>i. j < i \<and> i \<le> Suc k \<longrightarrow> f (drop i s) = None" for j t
      using that Some by (cases "j = Suc k") auto
    moreover have "\<forall>i. Suc k < i \<and> i \<le> Suc k \<longrightarrow> f (drop i s) = None" by auto
    ultimately show ?thesis
      using Some by (metis option.inject order_refl)
  qed
qed

lemma star_greedy_None: "star_greedy f s k = None \<longleftrightarrow> (\<forall>j \<le> k. f (drop j s) = None)"
  by (induction k) (auto simp: star_greedy.simps [of f s] le_Suc_eq split: option.split)

lemma greedy_sound: "greedy es s = Some n \<Longrightarrow> n \<le> length s \<and> pmatch es (take n s)"
proof (induction es arbitrary: s n)
  case (Cons e es)
  show ?case
  proof (cases e)
    case Star
    with Cons.prems obtain j r where j: "j \<le> length s" "greedy es (drop j s) = Some r" "n = j + r"
      by (auto simp: star_greedy_Some)
    with Cons.IH [OF j(2)] have "drop j (take n s) = take r (drop j s)" "n \<le> length s"
      by (auto simp: drop_take)
    with Cons.IH [OF j(2)] j Star show ?thesis by (auto intro!: bexI [of _ j])
  qed (use Cons in \<open>auto split: if_splits; cases s; auto\<close>)+
qed simp

lemma greedy_mono:
  "a \<le> b \<Longrightarrow> b \<le> length s \<Longrightarrow> greedy es (drop a s) = Some x \<Longrightarrow> greedy es (drop b s) = Some y \<Longrightarrow>
   a + x \<le> b + y"
proof (induction es arbitrary: a b x y)
  case (Cons e es)
  have one: "a + x' \<le> b + y'"
    if "greedy es (tl (drop a s)) = Some x'" "greedy es (tl (drop b s)) = Some y'" "length s \<noteq> b"
    for x' y'
    using Cons.IH [of "Suc a" "Suc b" x' y'] that Cons.prems(1,2) by (simp add: drop_Suc tl_drop)
  show ?case
  proof (cases e)
    case Star
    with Cons.prems(3,4) obtain i r j t where
      i: "i \<le> length s - a" "greedy es (drop (a + i) s) = Some r" "x = i + r"
        "\<forall>k. i < k \<and> k \<le> length s - a \<longrightarrow> greedy es (drop (a + k) s) = None"
      and j: "j \<le> length s - b" "greedy es (drop (b + j) s) = Some t" "y = j + t"
        "\<forall>k. j < k \<and> k \<le> length s - b \<longrightarrow> greedy es (drop (b + k) s) = None"
      by (auto simp: star_greedy_Some add.commute)
    have "a + i = b + j"
    proof (rule antisym)
      show "a + i \<le> b + j"
      proof (rule ccontr)
        assume "\<not> a + i \<le> b + j"
        with i(1) Cons.prems(1,2) have "j < a + i - b \<and> a + i - b \<le> length s - b" "b + (a + i - b) = a + i"
          by linarith+
        with j(4) i(2) show False by fastforce
      qed
      show "b + j \<le> a + i"
      proof (rule ccontr)
        assume "\<not> b + j \<le> a + i"
        with j(1) Cons.prems(1,2) have "i < b + j - a \<and> b + j - a \<le> length s - a" "a + (b + j - a) = b + j"
          by linarith+
        with i(4) j(2) show False by fastforce
      qed
    qed
    with i j show ?thesis by simp
  qed (use Cons.prems in \<open>auto split: if_splits intro: one\<close>)
qed simp

lemma greedy_longest:
  "pmatch es (take m s) \<Longrightarrow> m \<le> length s \<Longrightarrow> \<exists>n. greedy es s = Some n \<and> m \<le> n"
proof (induction es arbitrary: m s)
  case (Cons e es)
  have one: "\<exists>n. greedy es (tl s) = Some n \<and> m \<le> Suc n" "s \<noteq> []" "m \<noteq> 0" "hd (take m s) = hd s"
    if "take m s \<noteq> []" "pmatch es (tl (take m s))"
    using Cons.IH [of "m - 1" "tl s"] that Cons.prems(2) by (cases s; cases m; auto)+
  show ?case
  proof (cases e)
    case Star
    with Cons.prems obtain k where k: "k \<le> m" "pmatch es (take (m - k) (drop k s))"
      by (auto simp: drop_take)
    have "m - k \<le> length (drop k s)" using Cons.prems(2) by simp
    from Cons.IH [OF k(2) this] obtain r where r: "greedy es (drop k s) = Some r" "m - k \<le> r"
      by blast
    have "star_greedy (greedy es) s (length s) \<noteq> None"
    proof
      assume "star_greedy (greedy es) s (length s) = None"
      then have "greedy es (drop k s) = None"
        using k(1) Cons.prems(2) unfolding star_greedy_None by simp
      with r(1) show False by simp
    qed
    then obtain n where n: "star_greedy (greedy es) s (length s) = Some n" by auto
    then obtain j t where j: "j \<le> length s" "greedy es (drop j s) = Some t" "n = j + t"
        "\<forall>i. j < i \<and> i \<le> length s \<longrightarrow> greedy es (drop i s) = None"
      by (auto simp: star_greedy_Some)
    have "k \<le> j" using j(4) [rule_format, of k] r(1) k(1) Cons.prems(2) by fastforce
    from greedy_mono [OF this j(1) r(1) j(2)] r(2) j(3) k(1) n Star show ?thesis by simp
  qed (use Cons.prems one in \<open>fastforce split: if_splits\<close>)+
qed auto

text \<open>
  (C24) \<open>glob_match_prefix\<close> is exact: it answers \<open>n\<close> iff the first \<open>n\<close> characters are in the
  pattern's language and no longer prefix is, so taking every \<open>*\<close> greedily finds the longest
  match, and it answers \<open>-1\<close> iff no prefix matches.
\<close>

theorem glob_match_prefix_longest:
  "glob_match_prefix pat str = Some n \<longleftrightarrow>
     n \<le> length str \<and> pmatch (glob_elems pat) (take n str) \<and>
     \<not> (\<exists>m \<le> length str. n < m \<and> pmatch (glob_elems pat) (take m str))" (is "?l \<longleftrightarrow> ?r")
proof
  assume ?l
  with greedy_sound [of "glob_elems pat" str n] greedy_longest [of "glob_elems pat" _ str] show ?r
    by (fastforce simp: glob_match_prefix_elems)
next
  assume ?r
  then obtain n' where n': "greedy (glob_elems pat) str = Some n'" "n \<le> n'"
    using greedy_longest by blast
  with greedy_sound [OF n'(1)] \<open>?r\<close> have "n' = n" by (metis le_neq_implies_less)
  with n' show ?l by (simp add: glob_match_prefix_elems)
qed

subsection \<open>Trimming\<close>

text \<open>The loops over \<open>k\<close>: upwards from \<open>k\<close> over \<open>n\<close> more, and downwards to 0.\<close>

fun scan_up :: "(nat \<Rightarrow> bool) \<Rightarrow> nat \<Rightarrow> nat \<Rightarrow> nat option" where
  "scan_up P k 0 = (if P k then Some k else None)"
| "scan_up P k (Suc n) = (if P k then Some k else scan_up P (Suc k) n)"

fun scan_down :: "(nat \<Rightarrow> bool) \<Rightarrow> nat \<Rightarrow> nat option" where
  "scan_down P 0 = (if P 0 then Some 0 else None)"
| "scan_down P (Suc k) = (if P (Suc k) then Some (Suc k) else scan_down P k)"

definition apply_suffix_trim :: "string \<Rightarrow> string \<Rightarrow> bool \<Rightarrow> nat \<Rightarrow> string" where
  "apply_suffix_trim val pat longest out_size =
     (let len = length val; hit = (\<lambda>k. glob_match_full pat (drop k val)) in
      case (if longest then scan_up hit 0 len else scan_down hit len) of
        Some k \<Rightarrow> take (if k < out_size - 1 then k else out_size - 1) val
      | None \<Rightarrow> copy_string out_size val)"

definition apply_prefix_trim :: "string \<Rightarrow> string \<Rightarrow> bool \<Rightarrow> nat \<Rightarrow> string" where
  "apply_prefix_trim val pat longest out_size =
     (let len = length val;
          tmp = (\<lambda>k. take (if k < max_output - 1 then k else max_output - 1) val);
          hit = (\<lambda>k. glob_match_full pat (tmp k)) in
      case (if longest then scan_down hit len else scan_up hit 0 len) of
        Some match_len \<Rightarrow> copy_string out_size (drop match_len val)
      | None \<Rightarrow> copy_string out_size val)"

lemma Suc_le_split: "(\<forall>j. k \<le> j \<and> Q j \<longrightarrow> \<not> P j) \<longleftrightarrow> (Q k \<longrightarrow> \<not> P k) \<and> (\<forall>j. Suc k \<le> j \<and> Q j \<longrightarrow> \<not> P j)"
  by (metis Suc_leI Suc_leD le_neq_implies_less order_refl)

lemma scan_up_Some:
  "scan_up P k n = Some m \<Longrightarrow> k \<le> m \<and> m \<le> k + n \<and> P m \<and> (\<forall>j. k \<le> j \<and> j < m \<longrightarrow> \<not> P j)"
proof (induction P k n rule: scan_up.induct)
  case (2 P k n)
  then show ?case by (cases "P k") (auto simp: Suc_le_split [of k])
qed (auto split: if_splits)

lemma scan_up_None: "scan_up P k n = None \<longleftrightarrow> (\<forall>j. k \<le> j \<and> j \<le> k + n \<longrightarrow> \<not> P j)"
proof (induction P k n rule: scan_up.induct)
  case (2 P k n)
  then show ?case by (simp add: Suc_le_split [of k])
qed auto

lemma scan_down_Some:
  "scan_down P n = Some k \<Longrightarrow> k \<le> n \<and> P k \<and> (\<forall>j \<le> n. k < j \<longrightarrow> \<not> P j)"
proof (induction n)
  case (Suc n)
  then show ?case by (cases "P (Suc n)") (auto simp: le_Suc_eq)
qed (auto split: if_splits)

lemma scan_down_None: "scan_down P n = None \<longleftrightarrow> (\<forall>j \<le> n. \<not> P j)"
  by (induction n) (auto simp: le_Suc_eq)

lemmas scan_dests = scan_up_Some scan_down_Some
lemmas scan_None = scan_up_None scan_down_None

text \<open>
  \<open>${var%pat}\<close> and \<open>${var%%pat}\<close>: what is left and what is removed make up the value; what
  is removed is the shortest, for \<open>%%\<close> the longest, suffix in the pattern's language, and
  nothing is removed when no suffix matches.
\<close>

theorem suffix_trim_correct:
  assumes "length val < out_size"
  shows "\<exists>suf. val = apply_suffix_trim val pat longest out_size @ suf \<and>
    (if \<exists>k \<le> length val. pmatch (glob_elems pat) (drop k val)
     then pmatch (glob_elems pat) suf \<and>
       (\<forall>k \<le> length val. pmatch (glob_elems pat) (drop k val) \<longrightarrow>
          (if longest then length (drop k val) \<le> length suf else length suf \<le> length (drop k val)))
     else suf = [])"
proof (cases "if longest then scan_up (\<lambda>k. glob_match_full pat (drop k val)) 0 (length val)
    else scan_down (\<lambda>k. glob_match_full pat (drop k val)) (length val)")
  case None
  then have "\<not> (\<exists>k \<le> length val. pmatch (glob_elems pat) (drop k val))"
    by (auto simp: scan_None glob_match_full_elems split: if_splits)
  then show ?thesis
    using None assms by (auto simp: apply_suffix_trim_def Let_def)
next
  case (Some k)
  then have k: "k \<le> length val" "pmatch (glob_elems pat) (drop k val)"
    and j: "if longest then \<forall>j<k. \<not> pmatch (glob_elems pat) (drop j val)
       else \<forall>j \<le> length val. k < j \<longrightarrow> \<not> pmatch (glob_elems pat) (drop j val)"
    by (auto simp: glob_match_full_elems split: if_splits
        dest!: scan_dests)
  have "apply_suffix_trim val pat longest out_size = take k val"
    using Some assms k(1) by (auto simp: apply_suffix_trim_def Let_def)
  moreover have "if longest then length (drop i val) \<le> length (drop k val)
      else length (drop k val) \<le> length (drop i val)"
    if "i \<le> length val" "pmatch (glob_elems pat) (drop i val)" for i
    using j that k(1) by (cases "i < k"; cases longest) auto
  ultimately show ?thesis
    using k by (intro exI [of _ "drop k val"]) auto
qed

theorem suffix_trim_correct_witness:
  "length ''a.tar.gz'' < max_output \<and> apply_suffix_trim ''a.tar.gz'' ''.*'' True max_output = ''a'' \<and>
   (\<exists>suf. ''a.tar.gz'' = ''a'' @ suf \<and> pmatch (glob_elems ''.*'') suf)"
proof -
  have r: "apply_suffix_trim ''a.tar.gz'' ''.*'' True max_output = ''a''" by code_simp
  have m: "\<exists>k \<le> length ''a.tar.gz''. pmatch (glob_elems ''.*'') (drop k ''a.tar.gz'')"
    by (rule exI [of _ 1]) code_simp
  from suffix_trim_correct [of "''a.tar.gz''" max_output "''.*''" True] m show ?thesis
    unfolding r by (auto simp: max_output_def)
qed

text \<open>
  \<open>${var#pat}\<close> and \<open>${var##pat}\<close>, for the values that fit an expansion buffer: the part
  removed is the shortest, for \<open>##\<close> the longest, prefix in the pattern's language.
\<close>

theorem prefix_trim_correct:
  assumes "length val < out_size" and "length val < max_output"
  shows "\<exists>pre. val = pre @ apply_prefix_trim val pat longest out_size \<and>
    (if \<exists>k \<le> length val. pmatch (glob_elems pat) (take k val)
     then pmatch (glob_elems pat) pre \<and>
       (\<forall>k \<le> length val. pmatch (glob_elems pat) (take k val) \<longrightarrow>
          (if longest then k \<le> length pre else length pre \<le> k))
     else pre = [])"
proof -
  have cut: "(\<lambda>k. glob_match_full pat (take (if k < max_output - 1 then k else max_output - 1) val)) =
      (\<lambda>k. glob_match_full pat (take k val))"
    using assms(2) by auto
  note eq = apply_prefix_trim_def [of val pat longest out_size, unfolded Let_def cut]
  show ?thesis
proof (cases "if longest then scan_down (\<lambda>k. glob_match_full pat (take k val)) (length val)
    else scan_up (\<lambda>k. glob_match_full pat (take k val)) 0 (length val)")
  case None
  then have "\<not> (\<exists>k \<le> length val. pmatch (glob_elems pat) (take k val))"
    using assms(2) by (fastforce simp: scan_None glob_match_full_elems split: if_splits)
  then show ?thesis
    using None assms by (auto simp: eq)
next
  case (Some k)
  from Some have k: "k \<le> length val" "pmatch (glob_elems pat) (take k val)"
    and j: "if longest then \<forall>j \<le> length val. k < j \<longrightarrow> \<not> pmatch (glob_elems pat) (take j val)
       else \<forall>j<k. \<not> pmatch (glob_elems pat) (take j val)"
    by (auto simp: glob_match_full_elems split: if_splits
        dest!: scan_dests)
  have "apply_prefix_trim val pat longest out_size = drop k val"
    using Some assms k(1) by (auto simp: eq)
  moreover have "if longest then i \<le> k else k \<le> i"
    if "i \<le> length val" "pmatch (glob_elems pat) (take i val)" for i
    using j that by (metis not_le)
  ultimately show ?thesis
    using k by (intro exI [of _ "take k val"]) auto
qed
qed

theorem prefix_trim_correct_witness:
  "apply_prefix_trim ''/usr/lib/x.so'' ''*/'' True max_output = ''x.so'' \<and>
   (\<exists>pre. ''/usr/lib/x.so'' = pre @ ''x.so'' \<and> pmatch (glob_elems ''*/'') pre)"
proof -
  have r: "apply_prefix_trim ''/usr/lib/x.so'' ''*/'' True max_output = ''x.so''" by code_simp
  have m: "\<exists>k \<le> length ''/usr/lib/x.so''. pmatch (glob_elems ''*/'') (take k ''/usr/lib/x.so'')"
    by (rule exI [of _ 9]) code_simp
  from prefix_trim_correct [of "''/usr/lib/x.so''" max_output "''*/''" True] m show ?thesis
    unfolding r by (auto simp: max_output_def)
qed

subsection \<open>Substitution\<close>

text \<open>
  The loop of \<open>apply_pattern_subst\<close>: \<open>i\<close> is the position in the value and \<open>res\<close> what was
  written to \<open>out\<close>.  The loop need not end, so \<open>None\<close> is a loop that never returns.
\<close>

definition put_repl :: "nat \<Rightarrow> string \<Rightarrow> string \<Rightarrow> string" where
  "put_repl out_size res repl =
     res @ take (if length res + length repl \<ge> out_size then out_size - 1 - length res
                 else length repl) repl"

definition put_at :: "nat \<Rightarrow> string \<Rightarrow> string \<Rightarrow> nat \<Rightarrow> string" where
  "put_at out_size val res i =
     (if i < length val \<and> length res < out_size - 1 then res @ [val ! i] else res)"

partial_function (option) subst_loop ::
  "string \<Rightarrow> string \<Rightarrow> bool \<Rightarrow> nat \<Rightarrow> string \<Rightarrow> nat \<Rightarrow> string \<Rightarrow> string option" where
  "subst_loop pat repl global out_size val i res =
     (if i > length val then Some res
      else
        (case (if i < length val \<or> pat = [] then glob_match_prefix pat (drop i val) else None) of
           Some match_len \<Rightarrow>
             (let res1 = put_repl out_size res repl;
                  zero = (match_len = 0 \<and> i < length val);
                  res2 = (if zero then put_at out_size val res1 i else res1);
                  i2 = (if zero then i + 1 else i + match_len) in
              if \<not> global then Some (res2 @ take (out_size - 1 - length res2) (drop i2 val))
              else subst_loop pat repl global out_size val i2 res2)
         | None \<Rightarrow> subst_loop pat repl global out_size val (i + 1) (put_at out_size val res i)))"

definition apply_pattern_subst ::
  "string \<Rightarrow> string \<Rightarrow> string \<Rightarrow> bool \<Rightarrow> nat \<Rightarrow> string option" where
  "apply_pattern_subst val pat repl global out_size = subst_loop pat repl global out_size val 0 []"

text \<open>The reference: replace the longest match at the first place that has one, or at every place.\<close>

function subst_ref :: "string \<Rightarrow> string \<Rightarrow> bool \<Rightarrow> string \<Rightarrow> string" where
  "subst_ref pat repl global [] = (if pat = [] then repl else [])"
| "subst_ref pat repl global (c # cs) =
     (case glob_match_prefix pat (c # cs) of
        None \<Rightarrow> c # subst_ref pat repl global cs
      | Some 0 \<Rightarrow> repl @ c # (if global then subst_ref pat repl global cs else cs)
      | Some (Suc n) \<Rightarrow>
          repl @ (if global then subst_ref pat repl global (drop n cs) else drop n cs))"
  by pat_completeness auto
termination by (relation "measure (\<lambda>(p, r, g, cs). length cs)") auto

lemma put_repl_eq:
  "length res < out_size \<Longrightarrow> put_repl out_size res repl = res @ take (out_size - 1 - length res) repl"
  by (auto simp: put_repl_def)

lemma put_at_eq:
  "i < length val \<Longrightarrow> put_at out_size val res i = res @ take (out_size - 1 - length res) [val ! i]"
  by (auto simp: put_at_def)

definition room :: "nat \<Rightarrow> string \<Rightarrow> string \<Rightarrow> string" where
  "room out_size res more = res @ take (out_size - 1 - length res) more"

lemma room_room: "length res < out_size \<Longrightarrow> room out_size (room out_size res x) y = room out_size res (x @ y)"
  by (simp add: room_def min_def)

lemma length_room: "length res < out_size \<Longrightarrow> length (room out_size res x) < out_size"
  by (simp add: room_def)

lemma room_nil [simp]: "room n res [] = res"
  by (simp add: room_def)

lemmas put_room = put_repl_eq [folded room_def] put_at_eq [folded room_def]

lemma subst_loop_ref:
  "i \<le> length val \<Longrightarrow> length res < out_size \<Longrightarrow> pat \<noteq> [] \<or> \<not> global \<Longrightarrow>
   subst_loop pat repl global out_size val i res =
     Some (room out_size res (subst_ref pat repl global (drop i val)))"
proof (induction "length val - i" arbitrary: i res rule: less_induct)
  case less
  note loop = subst_loop.simps [of pat repl global out_size val, folded room_def]
  show ?case
  proof (cases "i = length val")
    case True
    have "subst_loop pat repl global out_size val (Suc i) res = Some res"
      using True by (simp add: loop)
    then show ?thesis
      using True less.prems by (subst loop) (auto simp: put_at_def put_room Let_def room_def)
  next
    case False
    then have i: "i < length val" and d: "drop i val = val ! i # drop (Suc i) val"
      using less.prems(1) by (simp_all add: Cons_nth_drop_Suc)
    note IH = less.hyps [OF _ _ _ less.prems(3)]
    show ?thesis
    proof (cases "glob_match_prefix pat (drop i val)")
      case None
      have "subst_loop pat repl global out_size val i res =
          subst_loop pat repl global out_size val (Suc i) (room out_size res [val ! i])"
        using i None less.prems by (subst loop) (simp add: put_room)
      also have "\<dots> = Some (room out_size (room out_size res [val ! i])
          (subst_ref pat repl global (drop (Suc i) val)))"
        using i less.prems(2) by (intro IH) (auto simp: length_room)
      finally show ?thesis
        using None less.prems(2) by (simp add: room_room d)
    next
      case (Some n)
      have n: "n \<le> length (drop i val)"
        using Some greedy_sound unfolding glob_match_prefix_elems by blast
      let ?i = "if n = 0 then Suc i else i + n" and ?x = "if n = 0 then [val ! i] else []"
      have step: "subst_loop pat repl global out_size val i res =
          (if \<not> global then Some (room out_size (room out_size res (repl @ ?x)) (drop ?i val))
           else subst_loop pat repl global out_size val ?i (room out_size res (repl @ ?x)))"
        using i Some less.prems
        by (subst loop) (auto simp: put_room Let_def length_room room_room)
      have "subst_loop pat repl global out_size val ?i (room out_size res (repl @ ?x)) =
          Some (room out_size (room out_size res (repl @ ?x)) (subst_ref pat repl global (drop ?i val)))"
        using i n less.prems(2) by (intro IH) (auto simp: length_room)
      then show ?thesis
        using step Some less.prems(2)
        by (cases n) (auto simp: room_room d add.commute)
    qed
  qed
qed

text \<open>
  (C30) \<open>${var/pat/repl}\<close>, and \<open>${var//pat/repl}\<close> with a non-empty pattern: the loop ends and writes
  the leftmost-longest replacement, cut to the buffer.
\<close>

theorem pattern_subst_correct:
  assumes "0 < out_size" and "pat \<noteq> [] \<or> \<not> global"
  shows "apply_pattern_subst val pat repl global out_size =
    Some (take (out_size - 1) (subst_ref pat repl global val))"
  using subst_loop_ref [of 0 val "[]" out_size pat global repl] assms
  by (simp add: apply_pattern_subst_def room_def)

theorem pattern_subst_correct_witness:
  "apply_pattern_subst ''banana'' ''a?'' ''-'' True max_output = Some ''b--a'' \<and>
   subst_ref ''a?'' ''-'' True ''banana'' = ''b--a''"
proof -
  have r: "subst_ref ''a?'' ''-'' True ''banana'' = ''b--a''" by code_simp
  with pattern_subst_correct [of max_output "''a?''" True "''banana''" "''-''"] show ?thesis
    by (simp add: max_output_def)
qed

lemma subst_loop_empty:
  assumes "subst_loop pat repl global out_size val i res = Some r"
  shows "\<not> (pat = [] \<and> global \<and> i \<le> length val)"
proof (rule subst_loop.raw_induct [where P = "\<lambda>pat repl global out_size val i res r.
      \<not> (pat = [] \<and> global \<and> i \<le> length val)", OF _ assms], goal_cases)
  case (1 f pat repl global out_size val i res r)
  show ?case
  proof
    assume e: "pat = [] \<and> global \<and> i \<le> length val"
    let ?i = "if i < length val then i + 1 else i"
    from e 1(2) obtain res' where "f pat repl global out_size val ?i res' = Some r"
      by (auto simp: Let_def split: if_splits)
    from 1(1) [OF this] e show False by (simp split: if_splits)
  qed
qed

text \<open>
  (C31) \<open>${var//}\<close>, and \<open>${var///repl}\<close>: with an empty pattern and global replacement the loop of
  \<open>apply_pattern_subst\<close> never returns, for every value.
\<close>

theorem pattern_subst_empty_hangs: "apply_pattern_subst val [] repl True out_size = None"
  using subst_loop_empty [of "[]" repl True out_size val 0 "[]"]
  by (cases "subst_loop [] repl True out_size val 0 []") (auto simp: apply_pattern_subst_def)

subsection \<open>Case patterns\<close>

function class_ranges :: "string \<Rightarrow> ((char \<times> char) list \<times> string) option" where
  "class_ranges [] = None"
| "class_ranges (c # cs) =
     (if c = CHR '']'' then Some ([], cs)
      else
        (let (a, cs1) = escaped c cs; (b, cs2) = class_end a cs1 in
         map_option (\<lambda>(rs, rest). ((a, b) # rs, rest)) (class_ranges cs2)))"
  by pat_completeness auto
termination by (relation "measure length") (auto dest!: escaped_shorter class_end_shorter)

lemma class_loop_ranges:
  "class_loop t m cs =
     map_option (\<lambda>(rs, rest). (m \<or> in_class False rs t, rest)) (class_ranges cs)"
proof (induction t m cs rule: class_loop.induct)
  case (2 t m c cs)
  obtain a cs1 where a: "escaped c cs = (a, cs1)" by fastforce
  obtain b cs2 where b: "class_end a cs1 = (b, cs2)" by fastforce
  show ?case
  proof (cases "c = CHR '']''")
    case True
    then show ?thesis by (simp add: in_class_def)
  next
    case False
    from "2.IH" [OF False a [symmetric] refl b [symmetric] refl] False a b show ?thesis
      by (cases "class_ranges cs2") (auto simp: in_class_def)
  qed
qed simp

lemma class_ranges_shorter: "class_ranges cs = Some (rs, rest) \<Longrightarrow> length rest < length cs"
  using class_loop_shorter [of undefined False cs] by (simp add: class_loop_ranges)

text \<open>A class that is never closed matches no character.\<close>

function case_elems :: "string \<Rightarrow> pelem list" where
  "case_elems [] = []"
| "case_elems (p # ps) =
     (if p = CHR ''*'' then Star # case_elems ps
      else if p = CHR ''?'' then One # case_elems ps
      else if p = CHR ''['' then
        (let negate = next_is ''!'' ps \<or> next_is ''^'' ps in
         case class_ranges (if negate then tl ps else ps) of
           None \<Rightarrow> [Class False []]
         | Some (rs, rest) \<Rightarrow> Class negate rs # case_elems rest)
      else (let (lit, rest) = escaped p ps in Lit lit # case_elems rest))"
  by pat_completeness auto
termination
  by (relation "measure length")
    (auto dest!: escaped_shorter class_ranges_shorter split: if_splits)

lemma pmatch_star: "pmatch (Star # es) s \<longleftrightarrow> (\<exists>k \<le> length s. pmatch es (drop k s))"
  by (auto simp: Bex_def)

lemma pmatch_star_star: "pmatch (Star # Star # es) s = pmatch (Star # es) s"
proof
  assume "pmatch (Star # Star # es) s"
  then obtain k j where "k \<le> length s" "j \<le> length s - k" "pmatch es (drop (j + k) s)"
    unfolding pmatch_star by (auto simp: add.commute)
  then show "pmatch (Star # es) s" unfolding pmatch_star by (intro exI [of _ "j + k"]) simp
next
  assume "pmatch (Star # es) s"
  then show "pmatch (Star # Star # es) s"
    unfolding pmatch_star [of "Star # es"] by (intro exI [of _ 0]) (simp del: pmatch.simps)
qed

lemma pmatch_stars:
  "pmatch (Star # case_elems ps) s = pmatch (Star # case_elems (dropWhile (\<lambda>c. c = CHR ''*'') ps)) s"
proof (induction ps)
  case (Cons p ps)
  then show ?case
    using pmatch_star_star [of "case_elems ps" s] by (simp del: pmatch.simps)
qed simp

lemma pmatch_star_only: "pmatch [Star] s"
  unfolding pmatch_star by (intro exI [of _ "length s"]) simp

lemma shell_pattern_matches_elems:
  "shell_pattern_matches pattern subj = pmatch (case_elems pattern) subj"
proof (induction pattern subj rule: shell_pattern_matches.induct)
  case (2 p ps subj)
  obtain lit rest where e: "escaped p ps = (lit, rest)" by fastforce
  show ?case
  proof (cases "p = CHR ''*''")
    case True
    let ?rest = "dropWhile (\<lambda>c. c = CHR ''*'') ps"
    have "star_any (\<lambda>s. shell_pattern_matches ?rest s) subj = pmatch (Star # case_elems ?rest) subj"
      using "2.IH"(1) [OF True refl] by (simp add: star_any_iff)
    then show ?thesis
      using True pmatch_stars [of ps subj] pmatch_star_only [of subj]
      by (cases "?rest = []") (auto simp: Let_def simp del: pmatch.simps)
  next
    case False
    show ?thesis
    proof (cases subj)
      case Nil
      then show ?thesis using False e by (auto simp: Let_def split: option.split)
    next
      case (Cons t ts)
      note IH = "2.IH"(2) [OF False Cons] "2.IH"(3) [OF False Cons] "2.IH"(4) [OF False Cons]
      show ?thesis
      proof (cases "p = CHR ''[''")
        case True
        let ?neg = "next_is ''!'' ps \<or> next_is ''^'' ps"
        show ?thesis
        proof (cases "class_ranges (if ?neg then tl ps else ps)")
          case None
          with True Cons show ?thesis
            by (simp add: Let_def case_char_class_matches_def class_loop_ranges in_class_def)
        next
          case (Some r)
          obtain rs rest' where r: "r = (rs, rest')" by fastforce
          have cl: "case_char_class_matches (p # ps) t = Some (in_class ?neg rs t, rest')"
            using True Some r
            by (simp add: Let_def case_char_class_matches_def class_loop_ranges in_class_def)
          then have "shell_pattern_matches rest' ts = pmatch (case_elems rest') ts"
            if "in_class ?neg rs t" using IH(2) [of "(True, rest')" True rest'] True that by simp
          with cl Some r True Cons show ?thesis by (cases "in_class ?neg rs t") (simp_all add: Let_def)
        qed
      next
        case False
        with \<open>p \<noteq> CHR ''*''\<close> Cons e IH(1,3) show ?thesis by auto
      qed
    qed
  qed
qed simp

text \<open>
  (C32) The matcher of \<open>case\<close> branches decides the pattern's language: \<open>*\<close>, \<open>?\<close>, escaped characters and
  bracket classes with ranges and negation, where its collapsing of adjacent \<open>*\<close> changes nothing
  and a class that is not closed matches nothing.
\<close>

theorem shell_pattern_matches_language:
  "shell_pattern_matches pattern subj = pmatch (case_elems pattern) subj"
  by (rule shell_pattern_matches_elems)

text \<open>
  The two matchers agree on patterns without bracket classes, so \<open>case\<close> and the parameter
  expansions see the same pattern language there.
\<close>

theorem matchers_agree:
  assumes "CHR ''['' \<notin> set pat"
  shows "shell_pattern_matches pat str = glob_match_full pat str"
proof -
  have "case_elems pat = glob_elems pat"
    using assms
  proof (induction pat rule: glob_elems.induct)
    case (2 p ps)
    obtain lit rest where e: "escaped p ps = (lit, rest)" by fastforce
    then have "set rest \<subseteq> set ps" by (auto simp: escaped_def split: if_splits dest: list.set_sel(2))
    with 2 e show ?case by auto
  qed simp
  then show ?thesis
    by (simp add: shell_pattern_matches_elems glob_match_full_elems)
qed

theorem matchers_agree_witness:
  "shell_pattern_matches ''*.t?r'' ''a.tar'' = glob_match_full ''*.t?r'' ''a.tar'' \<and>
   shell_pattern_matches ''*.t?r'' ''a.tar''"
proof -
  have "glob_match_full ''*.t?r'' ''a.tar''" by code_simp
  with matchers_agree [of "''*.t?r''" "''a.tar''"] show ?thesis by simp
qed

end
