(* ===== verification/Arith.thy ===== *)
theory Arith
  imports Arksh_Prelude "HOL-Library.Signed_Division"
begin

text \<open>
  The arithmetic evaluator \<open>$((...))\<close> of \<^verbatim>\<open>src/expand.c\<close>: a recursive-descent parser that
  computes as it reads, one function per precedence level.  A parser takes the characters from
  \<open>ctx->expr[ctx->pos]\<close> on and returns the value and the characters left, or stops.  The values are
  those of \<open>long long\<close>; an operation that C leaves undefined (signed overflow, a shift by a negative
  or too large count, \<open>LLONG_MIN / -1\<close>) is the outcome \<open>Undefined\<close>, and \<open>Stuck\<close> marks the bounds of
  the model itself, proved unreachable.  The value of a sub-expression that failed is not used:
  every caller tests \<open>has_error\<close> first.
\<close>

unbundle bit_operations_syntax

datatype arith_error =
    Unexpected_end | Missing_paren | Unterminated_nested | Unexpected_char char
  | Negative_exponent | Division_by_zero | Modulo_by_zero | Missing_colon | Unexpected_token char

datatype arith_stop = Arith_error arith_error | Undefined | Stuck

type_synonym arith_parser = "string \<Rightarrow> arith_stop + (int \<times> string)"

definition llong_max :: int where
  "llong_max = 2 ^ 63 - 1"

definition llong_min :: int where
  "llong_min = - (2 ^ 63)"

definition as_llong :: "int \<Rightarrow> arith_stop + int" where
  "as_llong v = (if llong_min \<le> v \<and> v \<le> llong_max then Inr v else Inl Undefined)"

subsection \<open>Number syntax\<close>

text \<open>\<open>strtoll (s, &end, 0)\<close> of the C library: the value, saturated, and the characters from \<open>end\<close>.\<close>

definition digit_value :: "char \<Rightarrow> nat" where
  "digit_value c =
     (let n = (of_char c :: nat) in
      if c_isdigit c then n - 48
      else if 97 \<le> n \<and> n \<le> 122 then n - 87
      else if 65 \<le> n \<and> n \<le> 90 then n - 55 else 36)"

definition digits_of :: "nat \<Rightarrow> string \<Rightarrow> string" where
  "digits_of base cs = takeWhile (\<lambda>c. digit_value c < base) cs"

definition from_digits :: "nat \<Rightarrow> string \<Rightarrow> int" where
  "from_digits base ds = foldl (\<lambda>acc c. acc * int base + int (digit_value c)) 0 ds"

definition saturate :: "int \<Rightarrow> int" where
  "saturate v = (if v > llong_max then llong_max else if v < llong_min then llong_min else v)"

definition is_hex :: "string \<Rightarrow> bool" where
  "is_hex s \<longleftrightarrow> (next_is ''0x'' s \<or> next_is ''0X'' s) \<and> digits_of 16 (drop 2 s) \<noteq> []"

definition strtoll_magnitude :: "string \<Rightarrow> (int \<times> string) option" where
  "strtoll_magnitude s =
     (let base = (if is_hex s then 16 else if next_is ''0'' s then 8 else 10);
          s' = (if is_hex s then drop 2 s else s);
          ds = digits_of base s' in
      if ds = [] then None else Some (from_digits base ds, drop (length ds) s'))"

definition strtoll :: "string \<Rightarrow> int \<times> string" where
  "strtoll s =
     (let s1 = dropWhile c_isspace s;
          neg = next_is ''-'' s1;
          s2 = (if neg \<or> next_is ''+'' s1 then tl s1 else s1) in
      case strtoll_magnitude s2 of
        None \<Rightarrow> (0, s)
      | Some (v, rest) \<Rightarrow> (saturate (if neg then - v else v), rest))"

definition arith_skip_ws :: "string \<Rightarrow> string" where
  "arith_skip_ws cs = dropWhile c_isspace cs"

lemma skip_ws_le: "length (arith_skip_ws cs) \<le> length cs"
  by (simp add: arith_skip_ws_def length_dropWhile_le)

lemma skip_ws_shorter: "c # r = arith_skip_ws cs \<Longrightarrow> length r < length cs"
  using skip_ws_le [of cs] by (metis Suc_le_eq length_Cons)

subsection \<open>Primary expressions\<close>

text \<open>The scan of \<open>arith_parse_nested_expansion\<close> after \<open>$((\<close>: the text inside and what follows.\<close>

fun nested_scan :: "nat \<Rightarrow> string \<Rightarrow> string \<Rightarrow> (string \<times> string) option" where
  "nested_scan depth acc [] = None"
| "nested_scan depth acc (c # cs) =
     (if c = CHR ''$'' \<and> next_is ''(('' cs then
        nested_scan (depth + 1) (acc @ ''$(('') (drop 2 cs)
      else if c = CHR '')'' \<and> next_is '')'' cs then
        (if depth - 1 = 0 then Some (acc, drop 1 cs)
         else nested_scan (depth - 1) (acc @ ''))'') (drop 1 cs))
      else nested_scan depth (acc @ [c]) cs)"

definition nested_expr_size :: nat where
  "nested_expr_size = 8192"

definition arith_parse_nested_expansion :: "string \<Rightarrow> arith_stop + (string \<times> string)" where
  "arith_parse_nested_expansion cs =
     (case nested_scan 1 [] (drop 3 cs) of
        None \<Rightarrow> Inl (Arith_error Unterminated_nested)
      | Some (inner, rest) \<Rightarrow> Inr (take (nested_expr_size - 1) inner, rest))"

definition name_char :: "char \<Rightarrow> bool" where
  "name_char c \<longleftrightarrow> c_isalnum c \<or> c = CHR ''_''"

text \<open>The value of a variable: its whole text as a number, or 0.\<close>

definition variable_value :: "(string \<Rightarrow> string option) \<Rightarrow> string \<Rightarrow> int" where
  "variable_value get_var name =
     (case get_var name of
        None \<Rightarrow> 0
      | Some v \<Rightarrow>
          if v = [] then 0
          else (let (num, rest) = strtoll v in
                if dropWhile c_isspace rest = [] then num else 0))"

definition arith_primary ::
  "(string \<Rightarrow> string option) \<Rightarrow> arith_parser \<Rightarrow> (string \<Rightarrow> arith_stop + int) \<Rightarrow> arith_parser" where
  "arith_primary get_var arith_expr evaluate_arith cs0 =
     (let cs = arith_skip_ws cs0 in
      case cs of
        [] \<Rightarrow> Inl (Arith_error Unexpected_end)
      | c # r \<Rightarrow>
          if c = CHR ''('' then
            bind_err (arith_expr r) (\<lambda>(val, rest).
              (case arith_skip_ws rest of
                 d # rest' \<Rightarrow> if d = CHR '')'' then Inr (val, rest') else Inl (Arith_error Missing_paren)
               | [] \<Rightarrow> Inl (Arith_error Missing_paren)))
          else if next_is ''$(('' cs then
            bind_err (arith_parse_nested_expansion cs) (\<lambda>(inner, rest).
            bind_err (evaluate_arith inner) (\<lambda>val. Inr (val, rest)))
          else if c = CHR ''$'' \<or> c_isalpha c \<or> c = CHR ''_'' then
            (let body = (if c = CHR ''$'' then r else cs);
                 name = take 127 (takeWhile name_char body);
                 rest = dropWhile name_char body in
             Inr (if name = [] then 0 else variable_value get_var name, rest))
          else if c_isdigit c then Inr (strtoll cs)
          else Inl (Arith_error (Unexpected_char c)))"

subsection \<open>Unary operators and powers\<close>

definition truth :: "bool \<Rightarrow> int" where
  "truth b = (if b then 1 else 0)"

fun pow_loop :: "int \<Rightarrow> nat \<Rightarrow> int \<Rightarrow> arith_stop + int" where
  "pow_loop base 0 result = Inr result"
| "pow_loop base (Suc n) result = bind_err (as_llong (result * base)) (pow_loop base n)"

definition arith_pow_int :: "int \<Rightarrow> int \<Rightarrow> arith_stop + int" where
  "arith_pow_int base exponent =
     (if exponent < 0 then Inl (Arith_error Negative_exponent)
      else pow_loop base (nat exponent) 1)"

function arith_unary :: "arith_parser \<Rightarrow> arith_parser" where
  "arith_unary prim cs0 =
     (let cs = arith_skip_ws cs0 in
      case cs of
        [] \<Rightarrow> prim cs
      | c # r \<Rightarrow>
          if c = CHR ''-'' then
            bind_err (arith_unary prim r) (\<lambda>(v, rest). bind_err (as_llong (- v)) (\<lambda>w. Inr (w, rest)))
          else if c = CHR ''+'' then arith_unary prim r
          else if c = CHR ''!'' then
            bind_err (arith_unary prim r) (\<lambda>(v, rest). Inr (truth (v = 0), rest))
          else if c = CHR ''~'' then bind_err (arith_unary prim r) (\<lambda>(v, rest). Inr (NOT v, rest))
          else prim cs)"
  by pat_completeness auto
termination
  by (relation "measure (\<lambda>(prim, cs). length cs)") (auto dest: skip_ws_shorter)

declare arith_unary.simps [simp del]

text \<open>
  Right-associative powers.  The guard makes the recursion well-founded; it always holds, since a
  parser consumes what it reads.
\<close>

function arith_power :: "arith_parser \<Rightarrow> arith_parser" where
  "arith_power prim cs =
     bind_err (arith_unary prim cs) (\<lambda>(left, rest).
       (let r = arith_skip_ws rest in
        if next_is ''**'' r then
          (if length r < length cs then
             bind_err (arith_power prim (drop 2 r)) (\<lambda>(right, rest').
             bind_err (arith_pow_int left right) (\<lambda>v. Inr (v, rest')))
           else Inl Stuck)
        else Inr (left, r)))"
  by pat_completeness auto
termination by (relation "measure (\<lambda>(prim, cs). length cs)") auto

declare arith_power.simps [simp del]

subsection \<open>Binary operators\<close>

text \<open>
  The ten binary levels share one loop: skip blanks, test for one of the level's operators, read
  the right operand at the next level, compute, repeat.  An operator test gives the operation and
  the characters after the operator.
\<close>

type_synonym arith_op = "(int \<Rightarrow> int \<Rightarrow> arith_stop + int) \<times> string"

function binary_loop :: "arith_parser \<Rightarrow> (string \<Rightarrow> arith_op option) \<Rightarrow> int \<Rightarrow> arith_parser" where
  "binary_loop next_level op left cs =
     (let r = arith_skip_ws cs in
      case op r of
        None \<Rightarrow> Inr (left, r)
      | Some (f, r1) \<Rightarrow>
          bind_err (next_level r1) (\<lambda>(right, r2).
          bind_err (f left right) (\<lambda>v.
            if length r2 < length cs then binary_loop next_level op v r2 else Inl Stuck)))"
  by pat_completeness auto
termination by (relation "measure (\<lambda>(p, op, l, cs). length cs)") auto

declare binary_loop.simps [simp del]

definition binary_level :: "arith_parser \<Rightarrow> (string \<Rightarrow> arith_op option) \<Rightarrow> arith_parser" where
  "binary_level next_level op cs =
     bind_err (next_level cs) (\<lambda>(left, rest). binary_loop next_level op left rest)"

definition do_divide :: "int \<Rightarrow> int \<Rightarrow> arith_stop + int" where
  "do_divide l r = (if r = 0 then Inl (Arith_error Division_by_zero) else as_llong (l sdiv r))"

definition do_modulo :: "int \<Rightarrow> int \<Rightarrow> arith_stop + int" where
  "do_modulo l r =
     (if r = 0 then Inl (Arith_error Modulo_by_zero)
      else bind_err (as_llong (l sdiv r)) (\<lambda>q. Inr (l smod r)))"

definition mul_op :: "string \<Rightarrow> arith_op option" where
  "mul_op cs =
     (case cs of
        c # r \<Rightarrow>
          if c = CHR ''*'' then Some (\<lambda>a b. as_llong (a * b), r)
          else if c = CHR ''/'' then Some (do_divide, r)
          else if c = CHR ''%'' then Some (do_modulo, r)
          else None
      | [] \<Rightarrow> None)"

definition arith_multiplicative :: "arith_parser \<Rightarrow> arith_parser" where
  "arith_multiplicative prim = binary_level (arith_power prim) mul_op"

definition add_op :: "string \<Rightarrow> arith_op option" where
  "add_op cs =
     (case cs of
        c # r \<Rightarrow>
          if c = CHR ''+'' then Some (\<lambda>a b. as_llong (a + b), r)
          else if c = CHR ''-'' then Some (\<lambda>a b. as_llong (a - b), r)
          else None
      | [] \<Rightarrow> None)"

definition arith_additive :: "arith_parser \<Rightarrow> arith_parser" where
  "arith_additive prim = binary_level (arith_multiplicative prim) add_op"

definition do_shift_left :: "int \<Rightarrow> int \<Rightarrow> arith_stop + int" where
  "do_shift_left l r =
     (if r < 0 \<or> r \<ge> 64 \<or> l < 0 then Inl Undefined else as_llong (push_bit (nat r) l))"

definition do_shift_right :: "int \<Rightarrow> int \<Rightarrow> arith_stop + int" where
  "do_shift_right l r =
     (if r < 0 \<or> r \<ge> 64 then Inl Undefined else Inr (drop_bit (nat r) l))"

definition shift_op :: "string \<Rightarrow> arith_op option" where
  "shift_op cs =
     (if next_is ''<<'' cs then Some (do_shift_left, drop 2 cs)
      else if next_is ''>>'' cs then Some (do_shift_right, drop 2 cs)
      else None)"

definition arith_shift :: "arith_parser \<Rightarrow> arith_parser" where
  "arith_shift prim = binary_level (arith_additive prim) shift_op"

definition cmp_op :: "string \<Rightarrow> arith_op option" where
  "cmp_op cs =
     (let is_le = next_is ''<='' cs; is_ge = next_is ''>='' cs;
          is_lt = (\<not> is_le \<and> next_is ''<'' cs \<and> \<not> next_is ''<<'' cs);
          is_gt = (\<not> is_ge \<and> next_is ''>'' cs \<and> \<not> next_is ''>>'' cs) in
      if \<not> is_le \<and> \<not> is_ge \<and> \<not> is_lt \<and> \<not> is_gt then None
      else Some (\<lambda>a b. Inr (truth (if is_le then a \<le> b else if is_ge then a \<ge> b
                               else if is_lt then a < b else a > b)),
                 drop (if is_le \<or> is_ge then 2 else 1) cs))"

definition arith_comparison :: "arith_parser \<Rightarrow> arith_parser" where
  "arith_comparison prim = binary_level (arith_shift prim) cmp_op"

definition eq_op :: "string \<Rightarrow> arith_op option" where
  "eq_op cs =
     (if next_is ''=='' cs then Some (\<lambda>a b. Inr (truth (a = b)), drop 2 cs)
      else if next_is ''!='' cs then Some (\<lambda>a b. Inr (truth (a \<noteq> b)), drop 2 cs)
      else None)"

definition arith_equality :: "arith_parser \<Rightarrow> arith_parser" where
  "arith_equality prim = binary_level (arith_comparison prim) eq_op"

definition band_op :: "string \<Rightarrow> arith_op option" where
  "band_op cs =
     (if \<not> next_is ''&'' cs \<or> next_is ''&&'' cs then None
      else Some (\<lambda>a b. Inr (a AND b), drop 1 cs))"

definition arith_bitwise_and :: "arith_parser \<Rightarrow> arith_parser" where
  "arith_bitwise_and prim = binary_level (arith_equality prim) band_op"

definition bxor_op :: "string \<Rightarrow> arith_op option" where
  "bxor_op cs = (if next_is ''^'' cs then Some (\<lambda>a b. Inr (a XOR b), drop 1 cs) else None)"

definition arith_bitwise_xor :: "arith_parser \<Rightarrow> arith_parser" where
  "arith_bitwise_xor prim = binary_level (arith_bitwise_and prim) bxor_op"

definition bor_op :: "string \<Rightarrow> arith_op option" where
  "bor_op cs =
     (if \<not> next_is ''|'' cs \<or> next_is ''||'' cs then None
      else Some (\<lambda>a b. Inr (a OR b), drop 1 cs))"

definition arith_bitwise_or :: "arith_parser \<Rightarrow> arith_parser" where
  "arith_bitwise_or prim = binary_level (arith_bitwise_xor prim) bor_op"

definition land_op :: "string \<Rightarrow> arith_op option" where
  "land_op cs =
     (if next_is ''&&'' cs then Some (\<lambda>a b. Inr (truth (a \<noteq> 0 \<and> b \<noteq> 0)), drop 2 cs) else None)"

definition arith_logical_and :: "arith_parser \<Rightarrow> arith_parser" where
  "arith_logical_and prim = binary_level (arith_bitwise_or prim) land_op"

definition lor_op :: "string \<Rightarrow> arith_op option" where
  "lor_op cs =
     (if next_is ''||'' cs then Some (\<lambda>a b. Inr (truth (a \<noteq> 0 \<or> b \<noteq> 0)), drop 2 cs) else None)"

definition arith_logical_or :: "arith_parser \<Rightarrow> arith_parser" where
  "arith_logical_or prim = binary_level (arith_logical_and prim) lor_op"

subsection \<open>The whole expression\<close>

definition ternary_tail :: "arith_parser \<Rightarrow> int \<Rightarrow> arith_parser" where
  "ternary_tail prim cond cs =
     (case arith_skip_ws cs of
        c # r \<Rightarrow>
          if c = CHR ''?'' then
            bind_err (arith_logical_or prim r) (\<lambda>(t, r1).
              (case arith_skip_ws r1 of
                 d # r2 \<Rightarrow>
                   if d = CHR '':'' then
                     bind_err (arith_logical_or prim r2) (\<lambda>(f, r3).
                       Inr (if cond \<noteq> 0 then t else f, r3))
                   else Inl (Arith_error Missing_colon)
               | [] \<Rightarrow> Inl (Arith_error Missing_colon)))
          else Inr (cond, c # r)
      | [] \<Rightarrow> Inr (cond, []))"

definition arith_ternary :: "arith_parser \<Rightarrow> arith_parser" where
  "arith_ternary prim cs =
     bind_err (arith_logical_or prim cs) (\<lambda>(cond, rest). ternary_tail prim cond rest)"

text \<open>
  \<open>evaluate_arith\<close> after \<open>arith_expr\<close>, and the recursion of the two, which goes through
  parentheses and \<open>$((...))\<close>; the first argument bounds its depth.
\<close>

definition finish_arith :: "arith_stop + (int \<times> string) \<Rightarrow> arith_stop + int" where
  "finish_arith m =
     bind_err m (\<lambda>(v, rest).
       (case arith_skip_ws rest of
          [] \<Rightarrow> Inr v
        | c # r \<Rightarrow> Inl (Arith_error (Unexpected_token c))))"

fun arith_expr :: "nat \<Rightarrow> (string \<Rightarrow> string option) \<Rightarrow> arith_parser" where
  "arith_expr 0 get_var cs = Inl Stuck"
| "arith_expr (Suc n) get_var cs =
     arith_ternary
       (arith_primary get_var (arith_expr n get_var) (\<lambda>s. finish_arith (arith_expr n get_var s))) cs"

definition evaluate_arith :: "(string \<Rightarrow> string option) \<Rightarrow> string \<Rightarrow> arith_stop + int" where
  "evaluate_arith get_var expr = finish_arith (arith_expr (Suc (length expr)) get_var expr)"

text \<open>
  The extraction of the expression's text from a word (\<open>parse_arith_expansion\<close>), from after
  \<open>$((\<close>; the rest is what follows the closing \<open>))\<close>.
\<close>

datatype arith_word_error = Unmatched_paren | Unterminated_expansion

fun arith_text :: "nat \<Rightarrow> string \<Rightarrow> string \<Rightarrow> arith_word_error + (string \<times> string)" where
  "arith_text depth expr [] = Inl Unterminated_expansion"
| "arith_text depth expr (c # cs) =
     (let expr' = (if length expr + 1 < nested_expr_size then expr @ [c] else expr) in
      if c = CHR ''('' then arith_text (depth + 1) expr' cs
      else if c = CHR '')'' then
        (if depth > 0 then arith_text (depth - 1) expr' cs
         else if next_is '')'' cs then Inr (expr, drop 1 cs)
         else Inl Unmatched_paren)
      else arith_text depth expr' cs)"

definition parse_arith_expansion :: "nat \<Rightarrow> string \<Rightarrow> arith_word_error + (string \<times> string)" where
  "parse_arith_expansion out_size raw =
     bind_err (arith_text 0 [] (drop 3 raw)) (\<lambda>(expr, rest). Inr (copy_string out_size expr, rest))"

subsection \<open>The contract of a level\<close>

definition in_llong :: "int \<Rightarrow> bool" where
  "in_llong v \<longleftrightarrow> llong_min \<le> v \<and> v \<le> llong_max"

lemma in_llong_bit: "in_llong v \<longleftrightarrow> (\<forall>n. bit v (min 63 n) = bit v n)"
proof -
  have "in_llong v \<longleftrightarrow> signed_take_bit 63 v = v"
    unfolding in_llong_def llong_min_def llong_max_def signed_take_bit_int_eq_self_iff by auto
  then show ?thesis by (simp add: bit_eq_iff bit_signed_take_bit_iff)
qed

lemma as_llong_simps [simp]:
  "as_llong v = Inr w \<longleftrightarrow> in_llong v \<and> w = v"
  "as_llong v = Inl e \<longleftrightarrow> \<not> in_llong v \<and> e = Undefined"
  by (auto simp: as_llong_def in_llong_def)

lemma in_llong_bits:
  "in_llong a \<Longrightarrow> in_llong b \<Longrightarrow> in_llong (a AND b)"
  "in_llong a \<Longrightarrow> in_llong b \<Longrightarrow> in_llong (a OR b)"
  "in_llong a \<Longrightarrow> in_llong b \<Longrightarrow> in_llong (a XOR b)"
  "in_llong a \<Longrightarrow> in_llong (NOT a)"
  by (simp_all add: in_llong_bit bit_and_iff bit_or_iff bit_xor_iff bit_not_iff)

lemma in_llong_truth [simp]: "in_llong (truth b)"
  by (simp add: truth_def in_llong_def llong_min_def llong_max_def)

lemma in_llong_smod: "in_llong b \<Longrightarrow> b \<noteq> 0 \<Longrightarrow> in_llong (a smod b)"
  using smod_int_range [of b a] by (auto simp: in_llong_def llong_min_def llong_max_def)

lemma in_llong_drop_bit: "in_llong a \<Longrightarrow> in_llong (drop_bit n a)"
proof -
  assume "in_llong a"
  then have top: "bit a k = bit a 63" if "63 \<le> k" for k
    using that unfolding in_llong_bit by (metis min.absorb1)
  show ?thesis
    unfolding in_llong_bit bit_drop_bit_eq comp_def
  proof
    fix k
    show "bit a (n + min 63 k) = bit a (n + k)"
      using top [of "n + 63"] top [of "n + k"] by (cases "k \<le> 63") (simp_all add: min_def)
  qed
qed

lemma next_is_length: "next_is s cs \<Longrightarrow> length s \<le> length cs"
  using next_isD by fastforce

definition op_ok :: "(string \<Rightarrow> arith_op option) \<Rightarrow> bool" where
  "op_ok op \<longleftrightarrow>
     (\<forall>cs f r. op cs = Some (f, r) \<longrightarrow> length r < length cs \<and>
        (\<forall>a b v. in_llong a \<and> in_llong b \<and> f a b = Inr v \<longrightarrow> in_llong v) \<and>
        (\<forall>a b. f a b \<noteq> Inl Stuck))"

lemma op_okD:
  assumes "op_ok op" and "op cs = Some (f, r)"
  shows "length r < length cs" and "in_llong a \<Longrightarrow> in_llong b \<Longrightarrow> f a b = Inr v \<Longrightarrow> in_llong v"
    and "f a b \<noteq> Inl Stuck"
  using assms unfolding op_ok_def by blast+

lemma ops_ok:
  "op_ok mul_op" "op_ok add_op" "op_ok shift_op" "op_ok cmp_op" "op_ok eq_op" "op_ok band_op"
  "op_ok bxor_op" "op_ok bor_op" "op_ok land_op" "op_ok lor_op"
  unfolding op_ok_def
  by (auto simp: mul_op_def add_op_def shift_op_def cmp_op_def eq_op_def band_op_def bxor_op_def
      bor_op_def land_op_def lor_op_def do_divide_def do_modulo_def do_shift_left_def
      do_shift_right_def in_llong_bits in_llong_smod in_llong_drop_bit Let_def err_simps
      dest!: next_is_length split: list.splits if_splits)

text \<open>
  The result of a parser on a string of \<open>n\<close> characters: it consumed at least one, the value is
  one of \<open>long long\<close>, and the model's own bound is not reached when \<open>n\<close> is below \<open>N\<close>.
\<close>

definition ok_res :: "nat \<Rightarrow> nat \<Rightarrow> arith_stop + (int \<times> string) \<Rightarrow> bool" where
  "ok_res N n m \<longleftrightarrow>
     (case m of Inl e \<Rightarrow> n < N \<longrightarrow> e \<noteq> Stuck | Inr (v, r) \<Rightarrow> length r < n \<and> in_llong v)"

lemma ok_res_simps [simp]:
  "ok_res N n (Inr (v, r)) \<longleftrightarrow> length r < n \<and> in_llong v"
  "ok_res N n (Inl (Arith_error e))" "ok_res N n (Inl Undefined)"
  by (simp_all add: ok_res_def)

lemma ok_res_mono: "ok_res N n m \<Longrightarrow> n \<le> n' \<Longrightarrow> ok_res N n' m"
  by (auto simp: ok_res_def split: sum.splits)

lemma ok_res_bind:
  "ok_res N n m \<Longrightarrow> (\<And>v r. length r < n \<Longrightarrow> in_llong v \<Longrightarrow> ok_res N n (f (v, r))) \<Longrightarrow>
   ok_res N n (bind_err m f)"
  by (cases m) (auto simp: ok_res_def)

lemma ok_res_compute:
  fixes m :: "arith_stop + int"
  shows "m \<noteq> Inl Stuck \<Longrightarrow> (\<And>v. m = Inr v \<Longrightarrow> ok_res N n (f v)) \<Longrightarrow> ok_res N n (bind_err m f)"
  by (cases m) (auto simp: ok_res_def)

lemma pow_loop_ok:
  "pow_loop b n v \<noteq> Inl Stuck" "in_llong v \<Longrightarrow> pow_loop b n v = Inr w \<Longrightarrow> in_llong w"
  by (induction n arbitrary: v) (auto simp: err_simps)

lemma arith_pow_int_ok: "arith_pow_int a b \<noteq> Inl Stuck"
  by (auto simp: arith_pow_int_def pow_loop_ok)

lemma arith_pow_int_range: "arith_pow_int a b = Inr w \<Longrightarrow> in_llong w"
  using pow_loop_ok(2) [of 1 a "nat b" w]
  by (auto simp: arith_pow_int_def in_llong_def [of 1] llong_min_def llong_max_def split: if_splits)

text \<open>What every level relies on and promises.\<close>

locale arith_level =
  fixes p :: arith_parser and N :: nat
  assumes ok: "ok_res N (length cs) (p cs)"
begin

lemma unary_ok: "ok_res N (length cs) (arith_unary p cs)"
proof (induction cs rule: length_induct)
  case (1 cs)
  show ?case
  proof (cases "arith_skip_ws cs")
    case Nil
    then show ?thesis
      using ok_res_mono [OF ok [of "[]"], of "length cs"] by (simp add: arith_unary.simps [of p cs])
  next
    case (Cons c r)
    have r: "length r < length cs" using skip_ws_shorter Cons by metis
    with 1 have IH: "ok_res N (length cs) (arith_unary p r)" using ok_res_mono by force
    have "length (c # r) \<le> length cs" using r by simp
    with ok_res_mono [OF ok] have base: "ok_res N (length cs) (p (c # r))" by blast
    show ?thesis
      using IH base Cons
      by (auto simp: arith_unary.simps [of p cs] Let_def in_llong_bits
          intro!: ok_res_bind ok_res_compute)
  qed
qed

lemma power_ok: "ok_res N (length cs) (arith_power p cs)"
proof (induction cs rule: length_induct)
  case (1 cs)
  have "ok_res N (length cs) (if next_is ''**'' (arith_skip_ws r) then
          (if length (arith_skip_ws r) < length cs then
             bind_err (arith_power p (drop 2 (arith_skip_ws r))) (\<lambda>(right, rest').
             bind_err (arith_pow_int v right) (\<lambda>v. Inr (v, rest')))
           else Inl Stuck)
        else Inr (v, arith_skip_ws r))" if "length r < length cs" "in_llong v" for v r
  proof -
    have s: "length (arith_skip_ws r) < length cs" using skip_ws_le [of r] that by linarith
    then have "length (drop 2 (arith_skip_ws r)) < length cs" by simp
    with 1 have "ok_res N (length cs) (arith_power p (drop 2 (arith_skip_ws r)))"
      using ok_res_mono by (metis less_imp_le)
    with s that show ?thesis
      by (auto intro!: ok_res_bind ok_res_compute arith_pow_int_ok dest: arith_pow_int_range)
  qed
  with unary_ok [of cs] show ?case
    by (subst arith_power.simps) (auto simp: Let_def intro!: ok_res_bind)
qed

lemma binary_loop_ok:
  assumes "op_ok op"
  shows "in_llong left \<Longrightarrow> length cs < n \<Longrightarrow> ok_res N n (binary_loop p op left cs)"
proof (induction "length cs" arbitrary: left cs rule: less_induct)
  case less
  show ?case
  proof (cases "op (arith_skip_ws cs)")
    case None
    then show ?thesis
      using less.prems skip_ws_le [of cs] by (subst binary_loop.simps) simp
  next
    case (Some fr)
    then obtain f r1 where o: "op (arith_skip_ws cs) = Some (f, r1)" by (cases fr) auto
    have r1: "length r1 < length cs" using op_okD(1) [OF assms o] skip_ws_le [of cs] by linarith
    have nx: "ok_res N (length cs) (p r1)" using ok_res_mono [OF ok] r1 by simp
    have step: "ok_res N n (bind_err (f left w) (\<lambda>v.
        if length r2 < length cs then binary_loop p op v r2 else Inl Stuck))"
      if "length r2 < length cs" "in_llong w" for w r2
    proof (rule ok_res_compute)
      show "f left w \<noteq> Inl Stuck" by (rule op_okD(3) [OF assms o])
      fix v
      assume "f left w = Inr v"
      with op_okD(2) [OF assms o less.prems(1) that(2)] have "in_llong v" .
      with less.hyps [OF that(1)] that(1) less.prems(2)
      show "ok_res N n (if length r2 < length cs then binary_loop p op v r2 else Inl Stuck)" by simp
    qed
    have "ok_res N n (bind_err (p r1) (\<lambda>(w, r2). bind_err (f left w) (\<lambda>v.
        if length r2 < length cs then binary_loop p op v r2 else Inl Stuck)))"
      using nx step less.prems(2) by (cases "p r1") (auto simp: ok_res_def)
    then show ?thesis using o by (subst binary_loop.simps) (simp add: Let_def)
  qed
qed

lemma binary_level_ok: "op_ok op \<Longrightarrow> ok_res N (length cs) (binary_level p op cs)"
  using ok [of cs] binary_loop_ok [of op _ _ "length cs"]
  by (auto simp: binary_level_def intro!: ok_res_bind)

end

lemma binary_level_contract: "arith_level p N \<Longrightarrow> op_ok op \<Longrightarrow> arith_level (binary_level p op) N"
  using arith_level.binary_level_ok by (auto intro: arith_level.intro)

lemma power_contract: "arith_level p N \<Longrightarrow> arith_level (arith_power p) N"
  using arith_level.power_ok by (auto intro: arith_level.intro)

lemma logical_or_contract:
  assumes "arith_level p N"
  shows "arith_level (arith_logical_or p) N"
  unfolding arith_logical_or_def arith_logical_and_def arith_bitwise_or_def arith_bitwise_xor_def
    arith_bitwise_and_def arith_equality_def arith_comparison_def arith_shift_def arith_additive_def
    arith_multiplicative_def
  by (intro binary_level_contract power_contract ops_ok assms)

lemma ternary_contract:
  assumes "arith_level p N"
  shows "arith_level (arith_ternary p) N"
proof
  fix cs :: string
  note or_ok = arith_level.ok [OF logical_or_contract [OF assms]]
  have more: "ok_res N (length cs) (arith_logical_or p s)" if "length s \<le> length cs" for s
    using ok_res_mono [OF or_ok that] .
  have tail: "ok_res N (length cs) (ternary_tail p v r)" if r: "length r < length cs" "in_llong v" for v r
  proof (cases "arith_skip_ws r")
    case Nil
    then show ?thesis using r by (auto simp: ternary_tail_def)
  next
    case (Cons c r1)
    then have len: "length r1 < length r" using skip_ws_shorter by metis
    have colon: "ok_res N (length cs) (case arith_skip_ws r2 of
        d # r3 \<Rightarrow> if d = CHR '':'' then bind_err (arith_logical_or p r3) (\<lambda>(f, r4).
            Inr (if v \<noteq> 0 then t else f, r4)) else Inl (Arith_error Missing_colon)
      | [] \<Rightarrow> Inl (Arith_error Missing_colon))"
      if "length r2 < length cs" "in_llong t" for r2 t
    proof (cases "arith_skip_ws r2")
      case (Cons d r3)
      then have "length r3 < length r2" using skip_ws_shorter by metis
      with that more [of r3] Cons show ?thesis by (auto intro!: ok_res_bind)
    qed simp
    show ?thesis
      using Cons len r more [of r1] colon
      by (auto simp: ternary_tail_def intro!: ok_res_bind)
  qed
  show "ok_res N (length cs) (arith_ternary p cs)"
    unfolding arith_ternary_def using or_ok tail by (auto intro!: ok_res_bind)
qed

lemma in_llong_saturate [simp]: "in_llong (saturate v)"
  by (auto simp: saturate_def in_llong_def llong_max_def llong_min_def)

lemma in_llong_0 [simp]: "in_llong 0"
  by (simp add: in_llong_def llong_max_def llong_min_def)

lemma strtoll_range: "in_llong (fst (strtoll s))"
  by (auto simp: strtoll_def Let_def split: option.split)

lemma variable_value_range [simp]: "in_llong (variable_value get_var name)"
  using strtoll_range by (auto simp: variable_value_def Let_def split: option.split prod.split) (metis fst_conv)+

lemma digit_not_sign: "c_isdigit c \<Longrightarrow> \<not> c_isspace c \<and> c \<noteq> CHR ''-'' \<and> c \<noteq> CHR ''+''"
  by (auto simp: c_isdigit_def c_isspace_def)

lemma digit_value_digit: "c_isdigit c \<Longrightarrow> digit_value c < 10"
  by (auto simp: digit_value_def c_isdigit_def Let_def)

lemma strtoll_digit:
  "c_isdigit c \<Longrightarrow> strtoll (c # cs) =
     (case strtoll_magnitude (c # cs) of None \<Rightarrow> (0, c # cs) | Some (v, rest) \<Rightarrow> (saturate v, rest))"
  using digit_not_sign [of c] by (simp add: strtoll_def Let_def split: option.split)

lemma strtoll_magnitude_digit:
  assumes "c_isdigit c"
  shows "\<exists>v rest. strtoll_magnitude (c # cs) = Some (v, rest) \<and> length rest \<le> length cs"
proof (cases "is_hex (c # cs)")
  case True
  then have "digits_of 16 (drop 1 cs) \<noteq> []" "length cs > 0"
    using next_is_length by (fastforce simp: is_hex_def)+
  with True show ?thesis by (simp add: strtoll_magnitude_def Let_def)
next
  case False
  let ?b = "if c = CHR ''0'' then 8 else 10 :: nat"
  have "digit_value c < ?b" using digit_value_digit [OF assms] by (auto simp: digit_value_def c_isdigit_def)
  then have "digits_of ?b (c # cs) = c # digits_of ?b cs" by (simp add: digits_of_def)
  with False show ?thesis by (simp add: strtoll_magnitude_def Let_def)
qed

lemma strtoll_literal: "c_isdigit c \<Longrightarrow> length (snd (strtoll (c # cs))) \<le> length cs"
  using strtoll_magnitude_digit [of c cs] by (auto simp: strtoll_digit)

lemma nested_scan_shorter:
  "nested_scan d acc cs = Some (inner, rest) \<Longrightarrow> length inner + length rest < length acc + length cs"
proof (induction d acc cs rule: nested_scan.induct)
  case (2 d acc c cs)
  have two: "length cs \<ge> 2" if "next_is ''(('' cs" using next_is_length [OF that] by simp
  from 2 two show ?case
    by (auto split: if_splits dest: next_is_length)
qed simp

lemma finish_not_stuck: "ok_res N n m \<Longrightarrow> n < N \<Longrightarrow> finish_arith m \<noteq> Inl Stuck"
  by (cases m) (auto simp: finish_arith_def ok_res_def split: list.splits)

lemma finish_range: "ok_res N n m \<Longrightarrow> finish_arith m = Inr v \<Longrightarrow> in_llong v"
  by (cases m) (auto simp: finish_arith_def split: list.splits)

lemma dropWhile_name: "length (dropWhile name_char cs) \<le> length cs"
  by (rule length_dropWhile_le)

lemma primary_contract:
  assumes "arith_level rec n"
  shows "arith_level (arith_primary get_var rec (\<lambda>s. finish_arith (rec s))) (Suc n)"
proof
  fix cs0 :: string
  let ?p = "arith_primary get_var rec (\<lambda>s. finish_arith (rec s))"
  note rec_ok = arith_level.ok [OF assms]
  have less: "ok_res (Suc n) (length cs0) m" if "ok_res n (length r) m" "length r < length cs0" for m r
    using that by (auto simp: ok_res_def split: sum.splits)
  show "ok_res (Suc n) (length cs0) (?p cs0)"
  proof (cases "arith_skip_ws cs0")
    case Nil
    then show ?thesis by (simp add: arith_primary_def)
  next
    case (Cons c r)
    then have len: "length r < length cs0" using skip_ws_shorter by metis
    have close: "ok_res (Suc n) (length cs0) (case arith_skip_ws rest of
          d # rest' \<Rightarrow> if d = CHR '')'' then Inr (v, rest') else Inl (Arith_error Missing_paren)
        | [] \<Rightarrow> Inl (Arith_error Missing_paren))" if "length rest < length cs0" "in_llong v" for v rest
      using that skip_ws_shorter [of _ _ rest] by (auto split: list.split dest: sym)
    have inside: "ok_res (Suc n) (length cs0) (bind_err (finish_arith (rec inner)) (\<lambda>v. Inr (v, rest)))"
      if "length inner < length cs0" "length rest < length cs0" for inner rest
      using that finish_not_stuck [OF rec_ok [of inner]] finish_range [OF rec_ok [of inner]]
      by (cases "finish_arith (rec inner)") (auto simp: ok_res_def)
    consider (paren) "c = CHR ''(''" | (nested) "c \<noteq> CHR ''(''" "next_is ''$(('' (c # r)"
      | (var) "c \<noteq> CHR ''(''" "\<not> next_is ''$(('' (c # r)" "c = CHR ''$'' \<or> c_isalpha c \<or> c = CHR ''_''"
      | (other) "c \<noteq> CHR ''(''" "\<not> next_is ''$(('' (c # r)" "\<not> (c = CHR ''$'' \<or> c_isalpha c \<or> c = CHR ''_'')"
      by blast
    then show ?thesis
    proof cases
      case paren
      have "ok_res (Suc n) (length cs0) (rec r)" using less [OF rec_ok len] .
      then show ?thesis
        using paren Cons by (auto simp: arith_primary_def Let_def intro!: ok_res_bind close)
    next
      case nested
      have "inner' = take (nested_expr_size - 1) inner \<longrightarrow> ok_res (Suc n) (length cs0)
          (bind_err (finish_arith (rec inner')) (\<lambda>v. Inr (v, rest)))"
        if "nested_scan 1 [] (drop 3 (c # r)) = Some (inner, rest)" for inner inner' rest
        using nested_scan_shorter [OF that] len inside [of inner' rest] by auto
      with nested Cons show ?thesis
        by (auto simp: arith_primary_def arith_parse_nested_expansion_def Let_def
            simp del: next_is_simps split: option.split)
    next
      case var
      have "length (dropWhile name_char (if c = CHR ''$'' then r else c # r)) < length cs0"
        using length_dropWhile_le [of name_char r] var(3) len by (auto simp: name_char_def c_isalnum_def)
      with var Cons show ?thesis
        by (auto simp: arith_primary_def Let_def simp del: next_is_simps)
    next
      case other
      then show ?thesis
        using Cons len strtoll_literal [of c r] strtoll_range [of "c # r"]
        by (cases "strtoll (c # r)") (auto simp: arith_primary_def Let_def)
    qed
  qed
qed

lemma arith_expr_contract: "arith_level (arith_expr n get_var) n"
proof (induction n)
  case 0
  show ?case by unfold_locales (simp add: ok_res_def)
next
  case (Suc n)
  show ?case
    using arith_level.ok [OF ternary_contract [OF primary_contract [OF Suc]]] by unfold_locales simp
qed

interpretation expr_level: arith_level "arith_expr n get_var" n for n get_var
  by (rule arith_expr_contract)

text \<open>
  (C26) \<open>evaluate_arith\<close> always gives an answer, whatever the text and the variables: a value that
  fits \<open>long long\<close>, one of its error messages, or a computation that C leaves undefined; neither the
  recursion through parentheses nor any of the operator loops runs away.
\<close>

theorem evaluate_arith_total:
  "(\<exists>v. evaluate_arith get_var expr = Inr v \<and> llong_min \<le> v \<and> v \<le> llong_max) \<or>
   (\<exists>e. evaluate_arith get_var expr = Inl (Arith_error e)) \<or>
   evaluate_arith get_var expr = Inl Undefined"
proof -
  note ok = expr_level.ok [where n = "Suc (length expr)" and get_var = get_var and cs = expr]
  have "evaluate_arith get_var expr \<noteq> Inl Stuck"
    using finish_not_stuck [OF ok] by (simp add: evaluate_arith_def)
  moreover have "in_llong v" if "evaluate_arith get_var expr = Inr v" for v
    using finish_range [OF ok] that by (simp add: evaluate_arith_def)
  ultimately show ?thesis
    by (cases "evaluate_arith get_var expr") (auto simp: in_llong_def intro: arith_stop.exhaust)
qed

lemma pow_out_of_range:
  assumes "\<not> in_llong (b ^ k)"
  shows "\<not> in_llong (b ^ (k + n))"
proof (cases "n = 0")
  case True
  with assms show ?thesis by simp
next
  case False
  have "\<not> \<bar>b\<bar> \<le> 1"
  proof
    assume "\<bar>b\<bar> \<le> 1"
    then have "\<bar>b\<bar> ^ k \<le> 1" by (simp add: power_le_one)
    then have "\<bar>b ^ k\<bar> \<le> 1" by (simp add: power_abs)
    with assms show False by (auto simp: in_llong_def llong_min_def llong_max_def)
  qed
  then have "2 ^ n \<le> \<bar>b\<bar> ^ n" by (intro power_mono) auto
  moreover have "(2::int) ^ 1 \<le> 2 ^ n" using False by (intro power_increasing) auto
  ultimately have "2 \<le> \<bar>b\<bar> ^ n" by simp
  moreover have "2 ^ 63 \<le> \<bar>b ^ k\<bar>" using assms by (auto simp: in_llong_def llong_min_def llong_max_def)
  ultimately have "2 ^ 63 * 2 \<le> \<bar>b ^ k\<bar> * \<bar>b\<bar> ^ n" by (intro mult_mono) auto
  then have "2 ^ 64 \<le> \<bar>b ^ (k + n)\<bar>" by (simp add: abs_mult power_abs power_add)
  then show ?thesis by (auto simp: in_llong_def llong_min_def llong_max_def)
qed

lemma pow_loop_power: "in_llong (b ^ k) \<Longrightarrow> pow_loop b n (b ^ k) = as_llong (b ^ (k + n))"
proof (induction n arbitrary: k)
  case 0
  then show ?case by (simp add: as_llong_def in_llong_def)
next
  case (Suc n)
  show ?case
  proof (cases "in_llong (b ^ Suc k)")
    case True
    then have "as_llong (b ^ k * b) = Inr (b ^ Suc k)" by (simp add: mult.commute)
    then have "pow_loop b (Suc n) (b ^ k) = pow_loop b n (b ^ Suc k)"
      by (simp only: pow_loop.simps bind_err_simps)
    with Suc.IH [OF True] show ?thesis by simp
  next
    case False
    then have "as_llong (b ^ k * b) = Inl Undefined" "as_llong (b ^ (k + Suc n)) = Inl Undefined"
      using pow_out_of_range [OF False, of n] by (simp_all add: mult.commute)
    then show ?thesis by (simp only: pow_loop.simps bind_err_simps)
  qed
qed

text \<open>
  \<open>**\<close> is exact: the multiplication loop gives the power when it fits \<open>long long\<close>, and overflows
  on the way only if the power itself does not fit; a negative exponent is an error.
\<close>

theorem arith_pow_int_exact:
  "arith_pow_int base exponent =
     (if exponent < 0 then Inl (Arith_error Negative_exponent) else as_llong (base ^ nat exponent))"
  using pow_loop_power [of base 0 "nat exponent"]
  by (simp add: arith_pow_int_def in_llong_def llong_min_def llong_max_def)

end
