(* ===== verification/Arith_Syntax.thy ===== *)
theory Arith_Syntax
  imports Arith
begin

text \<open>
  The syntax that \<open>evaluate_arith\<close> accepts, as a round trip: an expression tree is printed with the
  parentheses that C's precedence and associativity make necessary and no others, and evaluating
  the text gives the value of the tree.  So the thirteen levels of the parser have the order, the
  left and right associativity and the operations they should have.
\<close>

subsection \<open>Expressions\<close>

datatype unop = Neg | Pos | Lnot | Compl

datatype binop =
    Lor | Land | Bor | Bxor | Band | Eq | Ne | Le | Ge | Lt | Gt | Shl | Shr | Add | Sub
  | Mul | Div | Mod

datatype aexp =
    Num nat | Var string | Unary unop aexp | Binary binop aexp aexp | Pow aexp aexp
  | Cond aexp aexp aexp

fun unop_char :: "unop \<Rightarrow> char" where
  "unop_char Neg = CHR ''-''"
| "unop_char Pos = CHR ''+''"
| "unop_char Lnot = CHR ''!''"
| "unop_char Compl = CHR ''~''"

fun unop_value :: "unop \<Rightarrow> int \<Rightarrow> arith_stop + int" where
  "unop_value Neg v = as_llong (- v)"
| "unop_value Pos v = Inr v"
| "unop_value Lnot v = Inr (truth (v = 0))"
| "unop_value Compl v = Inr (NOT v)"

fun binop_text :: "binop \<Rightarrow> string" where
  "binop_text Lor = ''||''" | "binop_text Land = ''&&''" | "binop_text Bor = ''|''"
| "binop_text Bxor = ''^''" | "binop_text Band = ''&''" | "binop_text Eq = ''==''"
| "binop_text Ne = ''!=''" | "binop_text Le = ''<=''" | "binop_text Ge = ''>=''"
| "binop_text Lt = ''<''" | "binop_text Gt = ''>''" | "binop_text Shl = ''<<''"
| "binop_text Shr = ''>>''" | "binop_text Add = ''+''" | "binop_text Sub = ''-''"
| "binop_text Mul = ''*''" | "binop_text Div = ''/''" | "binop_text Mod = ''%''"

fun binop_level :: "binop \<Rightarrow> nat" where
  "binop_level Lor = 1" | "binop_level Land = 2" | "binop_level Bor = 3" | "binop_level Bxor = 4"
| "binop_level Band = 5" | "binop_level Eq = 6" | "binop_level Ne = 6" | "binop_level Le = 7"
| "binop_level Ge = 7" | "binop_level Lt = 7" | "binop_level Gt = 7" | "binop_level Shl = 8"
| "binop_level Shr = 8" | "binop_level Add = 9" | "binop_level Sub = 9" | "binop_level Mul = 10"
| "binop_level Div = 10" | "binop_level Mod = 10"

fun binop_value :: "binop \<Rightarrow> int \<Rightarrow> int \<Rightarrow> arith_stop + int" where
  "binop_value Lor = (\<lambda>a b. Inr (truth (a \<noteq> 0 \<or> b \<noteq> 0)))"
| "binop_value Land = (\<lambda>a b. Inr (truth (a \<noteq> 0 \<and> b \<noteq> 0)))"
| "binop_value Bor = (\<lambda>a b. Inr (a OR b))"
| "binop_value Bxor = (\<lambda>a b. Inr (a XOR b))"
| "binop_value Band = (\<lambda>a b. Inr (a AND b))"
| "binop_value Eq = (\<lambda>a b. Inr (truth (a = b)))"
| "binop_value Ne = (\<lambda>a b. Inr (truth (a \<noteq> b)))"
| "binop_value Le = (\<lambda>a b. Inr (truth (a \<le> b)))"
| "binop_value Ge = (\<lambda>a b. Inr (truth (a \<ge> b)))"
| "binop_value Lt = (\<lambda>a b. Inr (truth (a < b)))"
| "binop_value Gt = (\<lambda>a b. Inr (truth (a > b)))"
| "binop_value Shl = do_shift_left"
| "binop_value Shr = do_shift_right"
| "binop_value Add = (\<lambda>a b. as_llong (a + b))"
| "binop_value Sub = (\<lambda>a b. as_llong (a - b))"
| "binop_value Mul = (\<lambda>a b. as_llong (a * b))"
| "binop_value Div = do_divide"
| "binop_value Mod = do_modulo"

text \<open>
  The value of a tree.  Every operand is evaluated, left to right; a literal that does not fit
  saturates, as \<open>strtoll\<close> makes it.
\<close>

fun aval :: "(string \<Rightarrow> string option) \<Rightarrow> aexp \<Rightarrow> arith_stop + int" where
  "aval env (Num n) = Inr (saturate (int n))"
| "aval env (Var x) = Inr (variable_value env x)"
| "aval env (Unary u e) = bind_err (aval env e) (unop_value u)"
| "aval env (Binary b e1 e2) = bind_err (aval env e1) (\<lambda>v. bind_err (aval env e2) (binop_value b v))"
| "aval env (Pow e1 e2) = bind_err (aval env e1) (\<lambda>v. bind_err (aval env e2) (arith_pow_int v))"
| "aval env (Cond c t f) =
     bind_err (aval env c) (\<lambda>v. bind_err (aval env t) (\<lambda>x. bind_err (aval env f) (\<lambda>y.
       Inr (if v \<noteq> 0 then x else y))))"

fun aexp_level :: "aexp \<Rightarrow> nat" where
  "aexp_level (Num n) = 13"
| "aexp_level (Var x) = 13"
| "aexp_level (Unary u e) = 12"
| "aexp_level (Pow e1 e2) = 11"
| "aexp_level (Binary b e1 e2) = binop_level b"
| "aexp_level (Cond c t f) = 0"

definition wrap :: "nat \<Rightarrow> aexp \<Rightarrow> string \<Rightarrow> string" where
  "wrap l e s = (if aexp_level e < l then CHR ''('' # s @ '')'' else s)"

fun show_aexp :: "aexp \<Rightarrow> string" where
  "show_aexp (Num n) = show_nat n"
| "show_aexp (Var x) = x"
| "show_aexp (Unary u e) = unop_char u # wrap 12 e (show_aexp e)"
| "show_aexp (Pow e1 e2) = wrap 12 e1 (show_aexp e1) @ ''**'' @ wrap 11 e2 (show_aexp e2)"
| "show_aexp (Binary b e1 e2) =
     wrap (binop_level b) e1 (show_aexp e1) @ binop_text b @
     wrap (Suc (binop_level b)) e2 (show_aexp e2)"
| "show_aexp (Cond c t f) =
     wrap 1 c (show_aexp c) @ ''?'' @ wrap 1 t (show_aexp t) @ '':'' @ wrap 1 f (show_aexp f)"

definition var_name :: "string \<Rightarrow> bool" where
  "var_name x \<longleftrightarrow> x \<noteq> [] \<and> length x < 128 \<and> list_all name_char x \<and> \<not> c_isdigit (hd x)"

fun aexp_ok :: "aexp \<Rightarrow> bool" where
  "aexp_ok (Num n) = True"
| "aexp_ok (Var x) = var_name x"
| "aexp_ok (Unary u e) = aexp_ok e"
| "aexp_ok (Pow e1 e2) = (aexp_ok e1 \<and> aexp_ok e2)"
| "aexp_ok (Binary b e1 e2) = (aexp_ok e1 \<and> aexp_ok e2)"
| "aexp_ok (Cond c t f) = (aexp_ok c \<and> aexp_ok t \<and> aexp_ok f)"

subsection \<open>Levels by number\<close>

definition op_at :: "nat \<Rightarrow> string \<Rightarrow> arith_op option" where
  "op_at l = [\<lambda>_. None, lor_op, land_op, bor_op, bxor_op, band_op, eq_op, cmp_op, shift_op, add_op,
     mul_op] ! l"

definition level :: "arith_parser \<Rightarrow> nat \<Rightarrow> arith_parser" where
  "level prim l = [arith_ternary prim, arith_logical_or prim, arith_logical_and prim,
     arith_bitwise_or prim, arith_bitwise_xor prim, arith_bitwise_and prim, arith_equality prim,
     arith_comparison prim, arith_shift prim, arith_additive prim, arith_multiplicative prim,
     arith_power prim, arith_unary prim, prim] ! l"

text \<open>What a level does after its first operand.\<close>

definition level_tail :: "arith_parser \<Rightarrow> nat \<Rightarrow> int \<Rightarrow> arith_parser" where
  "level_tail prim l v cs =
     (if l = 0 then ternary_tail prim v cs
      else if l \<le> 10 then binary_loop (level prim (Suc l)) (op_at l) v cs
      else if l = 11 \<and> next_is ''**'' cs then
        bind_err (level prim 11 (drop 2 cs)) (\<lambda>(right, rest).
        bind_err (arith_pow_int v right) (\<lambda>w. Inr (w, rest)))
      else Inr (v, cs))"

lemma level_simps:
  "level prim 0 = arith_ternary prim" "level prim (Suc 0) = arith_logical_or prim"
  "level prim 11 = arith_power prim" "level prim 12 = arith_unary prim" "level prim 13 = prim"
  by (simp_all add: level_def)

lemma level_binary:
  "1 \<le> l \<Longrightarrow> l \<le> 10 \<Longrightarrow> level prim l = binary_level (level prim (Suc l)) (op_at l)"
proof -
  assume "1 \<le> l" "l \<le> 10"
  then have "l = 1 \<or> l = 2 \<or> l = 3 \<or> l = 4 \<or> l = 5 \<or> l = 6 \<or> l = 7 \<or> l = 8 \<or> l = 9 \<or> l = 10" by presburger
  then show ?thesis
    by (auto simp: level_def op_at_def arith_logical_or_def arith_logical_and_def
        arith_bitwise_or_def arith_bitwise_xor_def arith_bitwise_and_def arith_equality_def
        arith_comparison_def arith_shift_def arith_additive_def arith_multiplicative_def)
qed

lemma level_split:
  assumes "l \<le> 10"
  shows "level prim l cs = bind_err (level prim (Suc l) cs) (\<lambda>(v, r). level_tail prim l v r)"
proof (cases "l = 0")
  case True
  then show ?thesis by (simp add: level_simps level_tail_def arith_ternary_def)
next
  case False
  with assms show ?thesis by (simp add: level_binary binary_level_def level_tail_def)
qed

text \<open>A text that does not continue an operand at level \<open>l\<close> or above.\<close>

definition ends :: "nat \<Rightarrow> string \<Rightarrow> bool" where
  "ends l rest \<longleftrightarrow>
     (rest = [] \<or> \<not> name_char (hd rest) \<and> \<not> c_isspace (hd rest)) \<and>
     (\<forall>k. l < k \<and> k \<le> 10 \<longrightarrow> op_at k rest = None) \<and>
     (l \<le> 11 \<longrightarrow> \<not> next_is ''**'' rest) \<and> (l = 0 \<longrightarrow> \<not> next_is ''?'' rest)"

lemma ends_mono: "ends l rest \<Longrightarrow> l \<le> m \<Longrightarrow> ends m rest"
  by (auto simp: ends_def)

lemma ends_skip: "ends l rest \<Longrightarrow> arith_skip_ws rest = rest"
  by (cases rest) (auto simp: ends_def arith_skip_ws_def)

lemma tail_stops:
  assumes "ends l rest" and "l < k \<or> l = k \<and> (k = 0 \<or> k = 11)"
  shows "level_tail prim k v rest = Inr (v, rest)"
proof -
  have skip: "arith_skip_ws rest = rest" using ends_skip [OF assms(1)] .
  consider "k = 0" "\<not> next_is ''?'' rest" | "0 < k" "k \<le> 10" "op_at k rest = None"
    | "k \<ge> 11" "k = 11 \<longrightarrow> \<not> next_is ''**'' rest"
    using assms by (cases "k = 0"; cases "k \<le> 10") (auto simp: ends_def)
  then show ?thesis
  proof cases
    case 1
    with skip show ?thesis by (cases rest) (auto simp: level_tail_def ternary_tail_def)
  next
    case 2
    then show ?thesis by (simp add: level_tail_def binary_loop.simps [of _ _ v rest] skip)
  next
    case 3
    then show ?thesis by (auto simp: level_tail_def)
  qed
qed

subsection \<open>Climbing the levels\<close>

lemma bind_err_assoc: "bind_err (bind_err m f) g = bind_err m (\<lambda>x. bind_err (f x) g)"
  by (cases m) auto

lemma bind_err_ext: "(\<And>x. m = Inr x \<Longrightarrow> f x = g x) \<Longrightarrow> bind_err m f = bind_err m g"
  by (cases m) auto

text \<open>
  \<open>reads prim l s rest d\<close>: at level \<open>l\<close> the text \<open>s\<close> followed by \<open>rest\<close> is read as an operand of value
  \<open>d\<close>, after which the level goes on with \<open>rest\<close>.
\<close>

definition reads :: "arith_parser \<Rightarrow> nat \<Rightarrow> string \<Rightarrow> string \<Rightarrow> arith_stop + int \<Rightarrow> bool" where
  "reads prim l s rest d \<longleftrightarrow>
     level prim l (s @ rest) = bind_err d (\<lambda>v. level_tail prim l v rest)"

lemma reads_down:
  assumes "reads prim (Suc l) s rest d" and "l \<le> 10" and "ends l rest"
  shows "reads prim l s rest d"
  using assms tail_stops [OF assms(3), of "Suc l"]
  by (simp add: reads_def level_split bind_err_assoc)

lemma reads_power:
  assumes "reads prim 12 s rest d" and "s \<noteq> []" and "ends 11 rest"
  shows "reads prim 11 s rest d"
proof -
  have skip: "arith_skip_ws rest = rest" using ends_skip [OF assms(3)] .
  have "arith_unary prim (s @ rest) = bind_err d (\<lambda>v. Inr (v, rest))"
    using assms(1) by (simp add: reads_def level_simps level_tail_def)
  then show ?thesis
    using assms(2,3) unfolding reads_def level_simps
    by (subst arith_power.simps)
      (auto simp: bind_err_assoc Let_def skip level_tail_def ends_def intro!: bind_err_ext)
qed

definition unary_free :: "string \<Rightarrow> bool" where
  "unary_free s \<longleftrightarrow> s \<noteq> [] \<and> \<not> c_isspace (hd s) \<and> hd s \<notin> {CHR ''-'', CHR ''+'', CHR ''!'', CHR ''~''}"

lemma reads_unary:
  assumes "reads prim 13 s rest d" and "unary_free s"
  shows "reads prim 12 s rest d"
  using assms
  by (cases s) (auto simp: reads_def level_simps level_tail_def unary_free_def arith_skip_ws_def
      arith_unary.simps [of prim "_ # _"])

lemma reads_from:
  assumes "reads prim m s rest d" and "l \<le> m" and "m \<le> 11" and "ends l rest"
  shows "reads prim l s rest d"
  using assms(2,1)
proof (induction rule: inc_induct)
  case (step n)
  then show ?case using reads_down [of prim n s rest d] ends_mono [OF assms(4)] assms(3) by simp
qed simp

text \<open>From its own level, an operand is read at every level below.\<close>

lemma reads_at:
  assumes "reads prim m s rest d" and "l \<le> m" and "m \<le> 13" and "ends l rest" and "s \<noteq> []"
    and "m = 13 \<Longrightarrow> unary_free s"
  shows "reads prim l s rest d"
proof (cases "m \<le> 11")
  case True
  with reads_from assms show ?thesis by blast
next
  case False
  with assms have m: "m = 12 \<or> m = 13" by auto
  show ?thesis
  proof (cases "l = 13")
    case True
    with assms m show ?thesis by auto
  next
    case l: False
    have r12: "reads prim 12 s rest d" using m assms reads_unary by blast
    show ?thesis
    proof (cases "l = 12")
      case False
      with l assms(2,3) have "l \<le> 11" by simp
      with reads_power [OF r12 assms(5) ends_mono [OF assms(4)]] reads_from [of prim 11 s rest d l] assms(4)
      show ?thesis by simp
    qed (use r12 in simp)
  qed
qed

subsection \<open>Operands\<close>

lemma digit_value_stop: "\<not> name_char c \<Longrightarrow> digit_value c = 36"
  by (auto simp: digit_value_def name_char_def c_isalnum_def c_isalpha_def c_isdigit_def Let_def)

lemma digit_value_digit_char: "n < 10 \<Longrightarrow> digit_value (digit_char n) = n"
  by (simp add: digit_value_def of_digit_char)

lemma from_digits_snoc: "from_digits b (ds @ [c]) = from_digits b ds * int b + int (digit_value c)"
  by (simp add: from_digits_def)

lemma from_digits_show_nat: "from_digits 10 (show_nat n) = int n"
proof (induction n rule: show_nat.induct)
  case (1 n)
  show ?case
  proof (cases "n < 10")
    case True
    then show ?thesis
      by (subst show_nat.simps) (simp add: from_digits_def digit_value_digit_char)
  next
    case False
    have "int n = int (n div 10) * 10 + int (n mod 10)" by (simp add: zdiv_int zmod_int)
    with False 1 show ?thesis
      by (subst show_nat.simps) (simp add: from_digits_snoc digit_value_digit_char)
  qed
qed

lemma show_nat_head: "0 < n \<Longrightarrow> hd (show_nat n) \<noteq> CHR ''0''"
proof (induction n rule: show_nat.induct)
  case (1 n)
  show ?case
  proof (cases "n < 10")
    case True
    then have "digit_char n \<noteq> CHR ''0''" using 1(2) of_digit_char [OF True] by force
    with True show ?thesis by (subst show_nat.simps) simp
  next
    case False
    with 1 show ?thesis by (subst show_nat.simps) simp
  qed
qed

lemma digits_of_show_nat:
  assumes "rest = [] \<or> \<not> name_char (hd rest)"
  shows "digits_of 10 (show_nat n @ rest) = show_nat n"
proof -
  have "\<forall>c \<in> set (show_nat n). digit_value c < 10"
    using show_nat_digits [of n] digit_value_digit by (auto simp: list_all_iff)
  moreover have "takeWhile (\<lambda>c. digit_value c < 10) rest = []"
    using assms digit_value_stop by (cases rest) auto
  ultimately show ?thesis by (simp add: digits_of_def takeWhile_append2)
qed

lemma strtoll_show_nat:
  assumes "rest = [] \<or> \<not> name_char (hd rest)"
  shows "strtoll (show_nat n @ rest) = (saturate (int n), rest)"
proof -
  obtain c ds where s: "show_nat n = c # ds" by (cases "show_nat n") auto
  have c: "c_isdigit c" using show_nat_digits [of n] s by simp
  have "strtoll_magnitude (show_nat n @ rest) = Some (int n, rest)"
  proof (cases "n = 0")
    case True
    have "digit_char 0 = CHR ''0''" by code_simp
    with True have z: "show_nat n = ''0''" by (simp add: show_nat.simps)
    have "\<not> is_hex (''0'' @ rest)"
      using assms by (cases rest) (auto simp: is_hex_def name_char_def c_isalnum_def c_isalpha_def)
    moreover have "digits_of 8 (''0'' @ rest) = ''0''"
      using assms digit_value_stop by (cases rest) (auto simp: digits_of_def digit_value_def c_isdigit_def)
    ultimately show ?thesis
      using True z by (simp add: strtoll_magnitude_def from_digits_def digit_value_def c_isdigit_def)
  next
    case False
    then have "c \<noteq> CHR ''0''" using show_nat_head [of n] s by simp
    then have "\<not> is_hex (show_nat n @ rest)" "\<not> next_is ''0'' (show_nat n @ rest)"
      using s by (auto simp: is_hex_def)
    then show ?thesis
      by (simp add: strtoll_magnitude_def Let_def digits_of_show_nat [OF assms] from_digits_show_nat)
  qed
  with strtoll_digit [OF c, of "ds @ rest"] s show ?thesis by simp
qed

abbreviation prim_at :: "nat \<Rightarrow> (string \<Rightarrow> string option) \<Rightarrow> arith_parser" where
  "prim_at n env \<equiv> arith_primary env (arith_expr n env) (\<lambda>s. finish_arith (arith_expr n env s))"

lemma reads_num: "ends l rest \<Longrightarrow> reads (prim_at n env) 13 (show_nat k) rest (aval env (Num k))"
proof -
  assume e: "ends l rest"
  obtain c ds where s: "show_nat k = c # ds" by (cases "show_nat k") auto
  have c: "c_isdigit c" using show_nat_digits [of k] s by simp
  then have "c \<noteq> CHR ''(''" "c \<noteq> CHR ''$''" "\<not> c_isalpha c" "c \<noteq> CHR ''_''" "\<not> c_isspace c"
    by (auto simp: c_isdigit_def c_isalpha_def c_isspace_def)
  moreover have "strtoll (show_nat k @ rest) = (saturate (int k), rest)"
    using strtoll_show_nat [of rest k] e unfolding ends_def by blast
  ultimately show ?thesis
    using s c by (simp add: reads_def level_simps level_tail_def arith_primary_def arith_skip_ws_def)
qed

lemma reads_var:
  assumes "ends l rest" and "var_name x"
  shows "reads (prim_at n env) 13 x rest (aval env (Var x))"
proof -
  obtain c ds where s: "x = c # ds" using assms(2) by (cases x) (auto simp: var_name_def)
  have c: "name_char c" "\<not> c_isdigit c" "list_all name_char x" "length x < 128"
    using assms(2) s by (auto simp: var_name_def)
  then have h: "c_isalpha c \<or> c = CHR ''_''" "c \<noteq> CHR ''(''" "c \<noteq> CHR ''$''" "\<not> c_isspace c"
    by (auto simp: name_char_def c_isalnum_def c_isalpha_def c_isdigit_def c_isspace_def)
  have tw: "takeWhile name_char (x @ rest) = x" "dropWhile name_char (x @ rest) = rest"
    using c(3) assms(1) by (cases rest; auto simp: list_all_iff ends_def takeWhile_append2 dropWhile_append2)+
  with h c(4) s show ?thesis
    by (auto simp: reads_def level_simps level_tail_def arith_primary_def arith_skip_ws_def Let_def)
qed

lemma reads_paren:
  assumes "reads (prim_at m env) 0 s (CHR '')'' # rest) d"
  shows "reads (prim_at (Suc m) env) 13 (CHR ''('' # s @ '')'') rest d"
proof -
  have e: "ends 0 (CHR '')'' # rest)"
    by (auto simp: ends_def op_at_def name_char_def c_isalnum_def c_isalpha_def c_isdigit_def
        c_isspace_def less_Suc_eq numeral_eq_Suc le_Suc_eq lor_op_def land_op_def bor_op_def
        bxor_op_def band_op_def eq_op_def cmp_op_def shift_op_def add_op_def mul_op_def)
  have "arith_expr (Suc m) env (s @ CHR '')'' # rest) = bind_err d (\<lambda>v. Inr (v, CHR '')'' # rest))"
    using assms tail_stops [OF e, of 0] by (simp add: reads_def level_simps)
  then show ?thesis
    by (simp add: reads_def level_simps level_tail_def arith_primary_def arith_skip_ws_def
        c_isspace_def bind_err_assoc del: arith_expr.simps)
qed

definition operand_start :: "string \<Rightarrow> bool" where
  "operand_start s \<longleftrightarrow> s \<noteq> [] \<and> hd s \<notin> set ''<>=&|*?: ''"

lemma op_at_text:
  assumes "operand_start s"
  shows "op_at (binop_level b) (binop_text b @ s) = Some (binop_value b, s)"
  using assms
  by (cases b; cases s) (auto simp: op_at_def operand_start_def lor_op_def land_op_def bor_op_def
      bxor_op_def band_op_def eq_op_def cmp_op_def shift_op_def add_op_def mul_op_def Let_def)

lemma all_above: "(\<forall>k. l < k \<and> k \<le> 10 \<longrightarrow> P k) \<longleftrightarrow> list_all P [Suc l..<11]"
  by (auto simp: list_all_iff)

lemma ends_text:
  assumes "operand_start s"
  shows "ends (binop_level b) (binop_text b @ s)"
proof -
  have "list_all (\<lambda>k. op_at k (binop_text b @ s) = None) [Suc (binop_level b)..<11]"
    using assms by (cases b; cases s) (auto simp: op_at_def upt_rec operand_start_def lor_op_def
        land_op_def bor_op_def bxor_op_def band_op_def eq_op_def cmp_op_def shift_op_def add_op_def
        mul_op_def Let_def)
  moreover have "\<not> next_is ''**'' (binop_text b @ s) \<and> \<not> name_char (hd (binop_text b @ s)) \<and>
      \<not> c_isspace (hd (binop_text b @ s))"
    using assms by (cases b; cases s) (auto simp: operand_start_def name_char_def c_isalnum_def
        c_isalpha_def c_isdigit_def c_isspace_def)
  moreover have "binop_level b \<noteq> 0" by (cases b) auto
  ultimately show ?thesis unfolding ends_def all_above by auto
qed

subsection \<open>Whole expressions\<close>

text \<open>\<open>prints env e s\<close>: the text \<open>s\<close> is read as \<open>e\<close> at the level of \<open>e\<close>, whatever can follow it there.\<close>

definition prints :: "(string \<Rightarrow> string option) \<Rightarrow> aexp \<Rightarrow> string \<Rightarrow> bool" where
  "prints env e s \<longleftrightarrow> s \<noteq> [] \<and> operand_start s \<and> (aexp_level e = 13 \<longrightarrow> unary_free s) \<and>
     (\<forall>n rest. ends (aexp_level e) rest \<longrightarrow> length (s @ rest) \<le> n \<longrightarrow>
        reads (prim_at n env) (aexp_level e) s rest (aval env e))"

lemma aexp_level_le: "aexp_level e \<le> 13"
  by (cases e rule: aexp_level.cases) (auto, (case_tac b; simp)+)

lemma ends_paren: "ends 0 (CHR '')'' # rest)"
  unfolding ends_def all_above
  by (auto simp: upt_rec op_at_def name_char_def c_isalnum_def c_isalpha_def c_isdigit_def
      c_isspace_def lor_op_def land_op_def bor_op_def bxor_op_def band_op_def eq_op_def cmp_op_def
      shift_op_def add_op_def mul_op_def)

lemma ends_ternary: "ends 1 (CHR ''?'' # rest)" "ends 1 (CHR '':'' # rest)" "ends 0 []"
  unfolding ends_def all_above
  by (auto simp: upt_rec op_at_def name_char_def c_isalnum_def c_isalpha_def c_isdigit_def
      c_isspace_def lor_op_def land_op_def bor_op_def bxor_op_def band_op_def eq_op_def cmp_op_def
      shift_op_def add_op_def mul_op_def)

lemma prints_wrap:
  assumes p: "prints env e s" and "l \<le> 13" and "ends l rest" and "length (wrap l e s @ rest) \<le> n"
  shows "reads (prim_at n env) l (wrap l e s) rest (aval env e)"
proof (cases "aexp_level e < l")
  case False
  then have "reads (prim_at n env) (aexp_level e) s rest (aval env e)"
    using p assms(3,4) ends_mono [of l rest "aexp_level e"] by (auto simp: prints_def wrap_def)
  then show ?thesis
    using reads_at [of _ "aexp_level e" s rest _ l] False p assms(3) aexp_level_le [of e]
    by (simp add: prints_def wrap_def)
next
  case True
  then obtain m where m: "n = Suc m" "length (s @ CHR '')'' # rest) \<le> m"
    using assms(4) by (cases n) (auto simp: wrap_def)
  have "reads (prim_at m env) (aexp_level e) s (CHR '')'' # rest) (aval env e)"
    using p m(2) ends_mono [OF ends_paren, of "aexp_level e"] by (simp add: prints_def)
  then have "reads (prim_at m env) 0 s (CHR '')'' # rest) (aval env e)"
    using reads_at [of _ "aexp_level e" s "CHR '')'' # rest" _ 0] p ends_paren aexp_level_le [of e]
    by (simp add: prints_def)
  then have "reads (prim_at n env) 13 (CHR ''('' # s @ '')'') rest (aval env e)"
    using reads_paren m(1) by blast
  then show ?thesis
    using reads_at [of _ 13 "CHR ''('' # s @ '')''" rest _ l] True assms(2,3)
    by (simp add: wrap_def unary_free_def c_isspace_def)
qed

lemma wrap_start: "prints env e s \<Longrightarrow> operand_start (wrap l e s) \<and> wrap l e s \<noteq> []"
  by (auto simp: prints_def wrap_def operand_start_def)

lemma operand_start_append: "operand_start s \<Longrightarrow> operand_start (s @ t)"
  by (auto simp: operand_start_def)

lemma prints_binary:
  assumes "prints env e1 s1" and "prints env e2 s2"
  shows "prints env (Binary b e1 e2)
    (wrap (binop_level b) e1 s1 @ binop_text b @ wrap (Suc (binop_level b)) e2 s2)"
proof -
  let ?l = "binop_level b" and ?s2 = "wrap (Suc (binop_level b)) e2 s2"
  let ?s = "wrap ?l e1 s1 @ binop_text b @ ?s2"
  have l: "1 \<le> ?l" "?l \<le> 10" by (cases b; simp)+
  have "reads (prim_at n env) ?l ?s rest (aval env (Binary b e1 e2))"
    if e: "ends ?l rest" and n: "length (?s @ rest) \<le> n" for n rest
  proof -
    let ?tl = "binop_text b @ ?s2 @ rest" and ?p = "prim_at n env"
    have st: "operand_start (?s2 @ rest)" using wrap_start [OF assms(2)] operand_start_append by blast
    have 1: "reads ?p ?l (wrap ?l e1 s1) ?tl (aval env e1)"
      using prints_wrap [OF assms(1) _ ends_text [OF st]] l n by simp
    have "reads ?p (Suc ?l) ?s2 rest (aval env e2)"
      using prints_wrap [OF assms(2) _ ends_mono [OF e]] l n by simp
    then have 2: "level ?p (Suc ?l) (?s2 @ rest) = bind_err (aval env e2) (\<lambda>y. Inr (y, rest))"
      using tail_stops [OF e, of "Suc ?l"] by (simp add: reads_def)
    have "level_tail ?p ?l v ?tl =
        bind_err (aval env e2) (\<lambda>y. bind_err (binop_value b v y) (\<lambda>w. level_tail ?p ?l w rest))" for v
      using l ends_skip [OF ends_text [OF st]] op_at_text [OF st, of b] 2
        wrap_start [OF assms(2), of "Suc ?l"]
      by (simp add: level_tail_def binary_loop.simps [of _ _ v ?tl] bind_err_assoc)
    with 1 show ?thesis by (simp add: reads_def bind_err_assoc)
  qed
  then show ?thesis
    using wrap_start [OF assms(1)] l operand_start_append by (auto simp: prints_def)
qed

lemma prints_power:
  assumes "prints env e1 s1" and "prints env e2 s2"
  shows "prints env (Pow e1 e2) (wrap 12 e1 s1 @ ''**'' @ wrap 11 e2 s2)"
proof -
  let ?s = "wrap 12 e1 s1 @ ''**'' @ wrap 11 e2 s2"
  have "reads (prim_at n env) 11 ?s rest (aval env (Pow e1 e2))"
    if e: "ends 11 rest" and n: "length (?s @ rest) \<le> n" for n rest
  proof -
    let ?tl = "''**'' @ wrap 11 e2 s2 @ rest" and ?p = "prim_at n env"
    have e12: "ends 12 ?tl" by (auto simp: ends_def name_char_def c_isalnum_def c_isalpha_def
          c_isdigit_def c_isspace_def)
    have skip: "arith_skip_ws ?tl = ?tl" by (rule ends_skip [OF e12])
    have "reads ?p 12 (wrap 12 e1 s1) ?tl (aval env e1)"
      using prints_wrap [OF assms(1) _ e12] n by simp
    then have 1: "arith_unary ?p (wrap 12 e1 s1 @ ?tl) = bind_err (aval env e1) (\<lambda>v. Inr (v, ?tl))"
      by (simp add: reads_def level_simps level_tail_def)
    have "reads ?p 11 (wrap 11 e2 s2) rest (aval env e2)"
      using prints_wrap [OF assms(2) _ e] n by simp
    then have 2: "arith_power ?p (wrap 11 e2 s2 @ rest) = bind_err (aval env e2) (\<lambda>y. Inr (y, rest))"
      using tail_stops [OF e, of 11] by (simp add: reads_def level_simps)
    have "arith_power ?p (wrap 12 e1 s1 @ ?tl) =
        bind_err (aval env e1) (\<lambda>v. bind_err (aval env e2) (\<lambda>y.
          bind_err (arith_pow_int v y) (\<lambda>w. Inr (w, rest))))"
      using wrap_start [OF assms(1), of 12] 2
      by (subst arith_power.simps)
        (simp add: 1 [simplified] bind_err_assoc Let_def skip [simplified])
    then show ?thesis
      using tail_stops [OF e, of 11] by (simp add: reads_def level_simps bind_err_assoc)
  qed
  then show ?thesis
    using wrap_start [OF assms(1)] operand_start_append by (auto simp: prints_def)
qed

lemma prints_unary:
  assumes "prints env e s"
  shows "prints env (Unary u e) (unop_char u # wrap 12 e s)"
proof -
  have "reads (prim_at n env) 12 (unop_char u # wrap 12 e s) rest (aval env (Unary u e))"
    if "ends 12 rest" and "length (unop_char u # wrap 12 e s @ rest) \<le> n" for n rest
  proof -
    let ?p = "prim_at n env"
    have "reads ?p 12 (wrap 12 e s) rest (aval env e)"
      using prints_wrap [OF assms _ that(1)] that(2) by simp
    then have sub: "arith_unary ?p (wrap 12 e s @ rest) = bind_err (aval env e) (\<lambda>v. Inr (v, rest))"
      by (simp add: reads_def level_simps level_tail_def)
    show ?thesis
      unfolding reads_def level_simps
      by (cases u) (simp_all add: arith_unary.simps [of ?p "_ # _"] arith_skip_ws_def c_isspace_def
          sub bind_err_assoc level_tail_def)
  qed
  then show ?thesis by (cases u) (auto simp: prints_def operand_start_def)
qed

definition cond_text :: "aexp \<Rightarrow> string \<Rightarrow> aexp \<Rightarrow> string \<Rightarrow> aexp \<Rightarrow> string \<Rightarrow> string" where
  "cond_text c s1 t s2 f s3 = wrap 1 c s1 @ ''?'' @ wrap 1 t s2 @ '':'' @ wrap 1 f s3"

lemma ternary_reads:
  assumes "prints env c s1" and "prints env t s2" and "prints env f s3"
    and e: "ends 1 rest" and stop3: "op_at 1 rest = None"
    and n: "length (cond_text c s1 t s2 f s3 @ rest) \<le> n"
  shows "arith_ternary (prim_at n env) (cond_text c s1 t s2 f s3 @ rest) =
    bind_err (aval env (Cond c t f)) (\<lambda>v. Inr (v, rest))"
proof -
  let ?p = "prim_at n env"
  let ?r3 = "wrap 1 f s3 @ rest"
  let ?r2 = "wrap 1 t s2 @ CHR '':'' # ?r3"
  have rd: "arith_logical_or ?p (wrap 1 x s @ r) = bind_err (aval env x) (\<lambda>v. Inr (v, r))"
    if "prints env x s" "ends 1 r" "op_at 1 r = None" "length (wrap 1 x s @ r) \<le> n" for x s r
    using prints_wrap [OF that(1) _ that(2,4)] that(3) ends_skip [OF that(2)]
    by (simp add: reads_def level_simps level_tail_def binary_loop.simps [of _ _ _ r])
  have "arith_logical_or ?p (wrap 1 c s1 @ CHR ''?'' # ?r2) =
      bind_err (aval env c) (\<lambda>v. Inr (v, CHR ''?'' # ?r2))"
    "arith_logical_or ?p ?r2 = bind_err (aval env t) (\<lambda>v. Inr (v, CHR '':'' # ?r3))"
    "arith_logical_or ?p ?r3 = bind_err (aval env f) (\<lambda>v. Inr (v, rest))"
    using rd [OF assms(1) ends_ternary(1)] rd [OF assms(2) ends_ternary(2)] rd [OF assms(3) e stop3] n
    by (simp_all add: cond_text_def op_at_def lor_op_def)
  then show ?thesis
    by (simp add: cond_text_def arith_ternary_def ternary_tail_def bind_err_assoc arith_skip_ws_def
        c_isspace_def)
qed

lemma prints_cond:
  assumes "prints env c s1" and "prints env t s2" and "prints env f s3"
  shows "prints env (Cond c t f) (cond_text c s1 t s2 f s3)"
proof -
  have "reads (prim_at n env) 0 (cond_text c s1 t s2 f s3) rest (aval env (Cond c t f))"
    if e: "ends 0 rest" and n: "length (cond_text c s1 t s2 f s3 @ rest) \<le> n" for n rest
    using ternary_reads [OF assms ends_mono [OF e] _ n] e tail_stops [OF e, of 0]
    by (simp add: reads_def level_simps ends_def)
  then show ?thesis
    using wrap_start [OF assms(1)] operand_start_append by (auto simp: prints_def cond_text_def)
qed

lemma operand_start_alnum: "s \<noteq> [] \<Longrightarrow> name_char (hd s) \<Longrightarrow> operand_start s \<and> unary_free s"
  by (auto simp: operand_start_def unary_free_def name_char_def c_isalnum_def c_isalpha_def
      c_isdigit_def c_isspace_def)

lemma show_prints: "aexp_ok e \<Longrightarrow> prints env e (show_aexp e)"
proof (induction e)
  case (Num k)
  have "name_char (hd (show_nat k))"
    using show_nat_digits [of k] by (cases "show_nat k") (auto simp: name_char_def c_isalnum_def)
  then show ?case using operand_start_alnum [of "show_nat k"] reads_num by (auto simp: prints_def)
next
  case (Var x)
  then have "name_char (hd x)" "x \<noteq> []" by (cases x; auto simp: var_name_def)+
  then show ?case using Var operand_start_alnum [of x] reads_var by (auto simp: prints_def)
next
  case (Pow e1 e2)
  then show ?case using prints_power [of env e1 _ e2] by simp
next
  case (Cond c t f)
  then show ?case using prints_cond [of env c _ t _ f] by (simp add: cond_text_def)
qed (auto intro: prints_unary prints_binary)

text \<open>
  (C9) Printing and evaluating: the text of an expression tree with only the parentheses that C's
  precedence and associativity require evaluates to the value of the tree, for every operator,
  every variable environment and every error.  (The value evaluates both operands of \<open>&&\<close> and \<open>||\<close>
  and both branches of \<open>?:\<close>.)
\<close>

theorem evaluate_show_aexp:
  assumes "aexp_ok e"
  shows "evaluate_arith env (show_aexp e) = aval env e"
proof -
  let ?n = "length (show_aexp e)"
  have "reads (prim_at ?n env) 0 (wrap 0 e (show_aexp e)) [] (aval env e)"
    using prints_wrap [OF show_prints [OF assms] _ ends_ternary(3)] by (simp add: wrap_def)
  then have "arith_expr (Suc ?n) env (show_aexp e) = bind_err (aval env e) (\<lambda>v. Inr (v, []))"
    using tail_stops [OF ends_ternary(3), of 0] by (simp add: reads_def wrap_def level_simps)
  then show ?thesis
    unfolding evaluate_arith_def finish_arith_def
    by (cases "aval env e") (simp_all add: arith_skip_ws_def del: arith_expr.simps)
qed

theorem evaluate_show_aexp_witness:
  "evaluate_arith (\<lambda>_. Some ''5'') ''x-(2-3)*-4**2'' =
   aval (\<lambda>_. Some ''5'')
     (Binary Sub (Var ''x'') (Binary Mul (Binary Sub (Num 2) (Num 3)) (Pow (Unary Neg (Num 4)) (Num 2)))) \<and>
   evaluate_arith (\<lambda>_. Some ''5'') ''x-(2-3)*-4**2'' = Inr 21"
proof -
  let ?e = "Binary Sub (Var ''x'') (Binary Mul (Binary Sub (Num 2) (Num 3)) (Pow (Unary Neg (Num 4)) (Num 2)))"
  have s: "show_aexp ?e = ''x-(2-3)*-4**2''" and ok: "aexp_ok ?e"
    and v: "aval (\<lambda>_. Some ''5'') ?e = Inr 21"
    by code_simp+
  show ?thesis using evaluate_show_aexp [OF ok, of "\<lambda>_. Some ''5''"] unfolding s v by simp
qed

text \<open>
  The false branch of \<open>?:\<close> cannot be another \<open>?:\<close>, unlike in C and in POSIX arithmetic: whatever
  follows a complete conditional and a further \<open>?\<close>, the text is rejected at that \<open>?\<close>, unless an
  operand already failed.  As every operand is evaluated, an error in the branch that is not
  taken is one of those.
\<close>

theorem chained_conditional_rejected:
  assumes "aexp_ok (Cond c t f)"
  shows "evaluate_arith env (show_aexp (Cond c t f) @ CHR ''?'' # more) =
    bind_err (aval env (Cond c t f)) (\<lambda>v. Inl (Arith_error (Unexpected_token CHR ''?'')))"
proof -
  let ?s = "show_aexp (Cond c t f) @ CHR ''?'' # more"
  have "arith_expr (Suc (length ?s)) env ?s =
      bind_err (aval env (Cond c t f)) (\<lambda>v. Inr (v, CHR ''?'' # more))"
    using assms ternary_reads [OF show_prints show_prints show_prints ends_ternary(1),
        where c = c and t = t and f = f and env = env and rest1 = more and n = "length ?s"]
    by (simp add: cond_text_def op_at_def lor_op_def)
  then show ?thesis
    unfolding evaluate_arith_def finish_arith_def
    by (simp add: arith_skip_ws_def c_isspace_def bind_err_assoc del: arith_expr.simps show_aexp.simps)
qed

theorem chained_conditional_rejected_witness:
  "evaluate_arith Map.empty ''1?2:0?3:4'' = Inl (Arith_error (Unexpected_token CHR ''?''))"
proof -
  let ?e = "Cond (Num 1) (Num 2) (Num 0)"
  have ok: "aexp_ok ?e" and s: "show_aexp ?e = ''1?2:0''" and v: "aval Map.empty ?e = Inr 2"
    by code_simp+
  show ?thesis
    using chained_conditional_rejected [OF ok, of Map.empty "''3:4''"] unfolding s v by simp
qed

end
