(* ===== verification/Field_Splitting.thy ===== *)
theory Field_Splitting
  imports Arksh_Prelude
begin

text \<open>
  Field splitting of expanded words (\<open>apply_ifs_splitting\<close> of \<^verbatim>\<open>src/expand.c\<close>).  A word arrives as
  its characters with their \<open>split_flags\<close>; the result is the list \<open>out_values\<close>, or the error that
  there are more fields than \<open>max_values\<close>.
\<close>

subsection \<open>The code\<close>

definition field_size :: nat where
  "field_size = 256"

datatype ifs_error = Too_many_fields

fun is_ifs_char :: "char \<Rightarrow> string \<Rightarrow> bool" where
  "is_ifs_char c [] = False"
| "is_ifs_char c (p # ifs) = (p = c \<or> is_ifs_char c ifs)"

definition is_ifs_whitespace :: "char \<Rightarrow> string \<Rightarrow> bool" where
  "is_ifs_whitespace c ifs \<longleftrightarrow> is_ifs_char c ifs \<and> c_isspace c"

definition put_field :: "nat \<Rightarrow> string list \<Rightarrow> string \<Rightarrow> ifs_error + string list" where
  "put_field max_values out_values field =
     (if length out_values \<ge> max_values then Inl Too_many_fields
      else Inr (out_values @ [copy_string field_size field]))"

fun ifs_loop ::
  "string \<Rightarrow> nat \<Rightarrow> string list \<Rightarrow> string \<Rightarrow> bool \<Rightarrow> (char \<times> bool) list \<Rightarrow>
   ifs_error + (string list \<times> string \<times> bool)" where
  "ifs_loop ifs max_values out_values field after_nonwhite [] = Inr (out_values, field, after_nonwhite)"
| "ifs_loop ifs max_values out_values field after_nonwhite ((c, splittable) # xs) =
     (if splittable \<and> is_ifs_char c ifs then
        (if \<not> is_ifs_whitespace c ifs then
           bind_err (put_field max_values out_values field) (\<lambda>outs.
             ifs_loop ifs max_values outs [] True xs)
         else if field \<noteq> [] then
           bind_err (put_field max_values out_values field) (\<lambda>outs.
             ifs_loop ifs max_values outs [] False xs)
         else ifs_loop ifs max_values out_values field False xs)
      else
        ifs_loop ifs max_values out_values
          (if length field + 1 < field_size then field @ [c] else field) False xs)"

definition apply_ifs_splitting ::
  "(char \<times> bool) list \<Rightarrow> bool \<Rightarrow> string \<Rightarrow> nat \<Rightarrow> ifs_error + string list" where
  "apply_ifs_splitting expanded saw_quote_open ifs max_values =
     (if ifs = [] then
        Inr (if expanded \<noteq> [] \<or> saw_quote_open then [copy_string field_size (map fst expanded)] else [])
      else
        bind_err (ifs_loop ifs max_values [] [] False expanded) (\<lambda>(outs, field, after_nonwhite).
        bind_err (if field \<noteq> [] then put_field max_values outs field
                  else if after_nonwhite then put_field max_values outs []
                  else Inr outs) (\<lambda>outs.
          Inr (if outs = [] \<and> saw_quote_open then [[]] else outs))))"

subsection \<open>What the fields are\<close>

text \<open>
  The characters of a word are data, blank separators or hard separators (the \<open>IFS\<close> characters
  that are not white space).  The hard separators cut the word into segments; a segment's fields
  are its maximal runs of data.
\<close>

datatype mark = Data char | Blank | Hard

definition mark_of :: "string \<Rightarrow> char \<times> bool \<Rightarrow> mark" where
  "mark_of ifs x =
     (case x of (c, splittable) \<Rightarrow>
        if splittable \<and> is_ifs_char c ifs then (if c_isspace c then Blank else Hard) else Data c)"

fun segments :: "mark list \<Rightarrow> mark list list" where
  "segments [] = [[]]"
| "segments (m # ms) =
     (if m = Hard then [] # segments ms
      else (m # hd (segments ms)) # tl (segments ms))"

fun runs :: "mark list \<Rightarrow> string list" where
  "runs [] = []"
| "runs (Data c # ms) =
     (case ms of
        Data d # _ \<Rightarrow> (c # hd (runs ms)) # tl (runs ms)
      | _ \<Rightarrow> [c] # runs ms)"
| "runs (m # ms) = runs ms"

text \<open>
  A hard separator closes a field of its own when the segment before it is empty or ends in a
  blank, and one more empty field follows a hard separator that ends the word.
\<close>

definition closed_segment :: "mark list \<Rightarrow> string list" where
  "closed_segment seg = runs seg @ (if seg = [] \<or> last seg = Blank then [[]] else [])"

definition fields_from :: "bool \<Rightarrow> mark list \<Rightarrow> string list" where
  "fields_from after_hard ms =
     (let segs = segments ms in
      concat (map closed_segment (butlast segs)) @ runs (last segs) @
      (if last segs = [] \<and> (after_hard \<or> length segs > 1) then [[]] else []))"

definition word_fields :: "string \<Rightarrow> (char \<times> bool) list \<Rightarrow> string list" where
  "word_fields ifs expanded = fields_from False (map (mark_of ifs) expanded)"

lemma segments_ne [simp]: "segments ms \<noteq> []"
  by (induction ms) auto

lemma segments_data: "segments (map Data f @ ms) = (map Data f @ hd (segments ms)) # tl (segments ms)"
  by (induction f) auto

lemma runs_data: "runs (map Data f @ Blank # ms) = (if f = [] then [] else [f]) @ runs ms"
  by (induction f rule: induct_list012) auto

lemma runs_only_data: "runs (map Data f) = (if f = [] then [] else [f])"
  by (induction f rule: induct_list012) auto

lemma closed_data: "closed_segment (map Data f) = [f]"
proof (cases "f = []")
  case False
  then have "last (map Data f) \<noteq> Blank" by (simp add: last_map)
  with False show ?thesis by (simp add: closed_segment_def runs_only_data)
qed (simp add: closed_segment_def)

lemma closed_blank: "closed_segment (map Data f @ Blank # s) = (if f = [] then [] else [f]) @ closed_segment s"
  by (simp add: closed_segment_def runs_data)

lemma fields_hard: "fields_from a (map Data f @ Hard # ms) = f # fields_from True ms"
proof -
  have "segments (map Data f @ Hard # ms) = map Data f # segments ms" by (simp add: segments_data)
  then show ?thesis by (simp add: fields_from_def closed_data Let_def)
qed

lemma fields_blank:
  "fields_from a (map Data f @ Blank # ms) = (if f = [] then [] else [f]) @ fields_from False ms"
proof -
  obtain s ss where s: "segments ms = s # ss" by (cases "segments ms") auto
  have seg: "segments (map Data f @ Blank # ms) = (map Data f @ Blank # s) # ss"
    by (simp add: segments_data s)
  show ?thesis
  proof (cases "ss = []")
    case True
    then show ?thesis unfolding fields_from_def seg s by (simp add: runs_data)
  next
    case False
    then show ?thesis unfolding fields_from_def seg s Let_def by (simp add: closed_blank)
  qed
qed

lemma fields_data:
  assumes "f \<noteq> []"
  shows "fields_from a (map Data f @ ms) = fields_from False (map Data f @ ms)"
proof -
  obtain s ss where s: "segments ms = s # ss" by (cases "segments ms") auto
  have seg: "segments (map Data f @ ms) = (map Data f @ s) # ss" by (simp add: segments_data s)
  show ?thesis
    unfolding fields_from_def seg using assms by (cases "ss = []") (simp_all add: Let_def)
qed

text \<open>The loop appends the fields of the rest of the word, each cut to its buffer, while there is room.\<close>

definition put_fields :: "nat \<Rightarrow> string list \<Rightarrow> string list \<Rightarrow> ifs_error + string list" where
  "put_fields max_values outs fs =
     (if fs \<noteq> [] \<and> length outs + length fs > max_values then Inl Too_many_fields
      else Inr (outs @ map (take (field_size - 1)) fs))"

lemma put_fields_Nil [simp]: "put_fields n outs [] = Inr outs"
  by (simp add: put_fields_def)

lemma put_fields_Cons:
  "put_fields n outs (f # fs) = bind_err (put_field n outs f) (\<lambda>outs. put_fields n outs fs)"
  by (auto simp: put_fields_def put_field_def copy_string_def)

definition finish_fields :: "nat \<Rightarrow> ifs_error + (string list \<times> string \<times> bool) \<Rightarrow> ifs_error + string list" where
  "finish_fields n m = bind_err m (\<lambda>(outs, field, after_nonwhite).
     if field \<noteq> [] then put_field n outs field
     else if after_nonwhite then put_field n outs [] else Inr outs)"

lemma finish_bind: "finish_fields n (bind_err m f) = bind_err m (\<lambda>x. finish_fields n (f x))"
  by (cases m) (auto simp: finish_fields_def)

lemma put_field_take: "put_field n outs (take (field_size - 1) f) = put_field n outs f"
  by (simp add: put_field_def copy_string_def)

lemma ifs_loop_fields:
  "(after_nonwhite \<longrightarrow> f = []) \<Longrightarrow>
   finish_fields n (ifs_loop ifs n outs (take (field_size - 1) f) after_nonwhite xs) =
     put_fields n outs (fields_from after_nonwhite (map Data f @ map (mark_of ifs) xs))"
proof (induction xs arbitrary: outs f after_nonwhite)
  case Nil
  have "fields_from after_nonwhite (map Data f) =
      (if f \<noteq> [] then [f] else if after_nonwhite then [[]] else [])"
    using segments_data [of f "[]"] by (simp add: fields_from_def runs_only_data)
  then show ?case
    using put_field_take [of n outs f]
    by (auto simp: finish_fields_def put_fields_Cons field_size_def bind_err_def split: sum.split)
next
  case (Cons x xs)
  obtain c sp where x: "x = (c, sp)" by fastforce
  have f0: "(take (field_size - 1) f \<noteq> []) = (f \<noteq> [])" by (simp add: field_size_def)
  consider (hard) "mark_of ifs x = Hard" "sp \<and> is_ifs_char c ifs" "\<not> is_ifs_whitespace c ifs"
    | (blank) "mark_of ifs x = Blank" "sp \<and> is_ifs_char c ifs" "is_ifs_whitespace c ifs"
    | (data) "mark_of ifs x = Data c" "\<not> (sp \<and> is_ifs_char c ifs)"
    by (auto simp: x mark_of_def is_ifs_whitespace_def split: if_splits)
  then show ?case
  proof cases
    case hard
    then show ?thesis
      using Cons.IH [of True "[]"] put_field_take [of n outs f]
      by (simp add: x fields_hard finish_bind put_fields_Cons)
  next
    case blank
    then show ?thesis
      using Cons.IH [of False "[]"] put_field_take [of n outs f] f0
      by (auto simp: x fields_blank finish_bind put_fields_Cons)
  next
    case data
    have t: "(if length (take (field_size - 1) f) + 1 < field_size then take (field_size - 1) f @ [c]
        else take (field_size - 1) f) = take (field_size - 1) (f @ [c])"
      by (auto simp: field_size_def)
    have 1: "ifs_loop ifs n outs (take (field_size - 1) f) after_nonwhite (x # xs) =
        ifs_loop ifs n outs (take (field_size - 1) (f @ [c])) False xs"
      unfolding x ifs_loop.simps if_not_P [OF data(2)] t ..
    have 2: "map Data f @ map (mark_of ifs) (x # xs) = map Data (f @ [c]) @ map (mark_of ifs) xs"
      using data(1) by simp
    have 3: "fields_from after_nonwhite (map Data (f @ [c]) @ map (mark_of ifs) xs) =
        fields_from False (map Data (f @ [c]) @ map (mark_of ifs) xs)"
      by (rule fields_data) simp
    show ?thesis
      unfolding 1 2 3 by (rule Cons.IH) simp
  qed
qed

lemma ifs_split_eq:
  assumes "ifs \<noteq> []"
  shows "apply_ifs_splitting expanded saw_quote_open ifs max_values =
    (let fs = word_fields ifs expanded in
     if fs = [] then Inr (if saw_quote_open then [[]] else [])
     else if length fs > max_values then Inl Too_many_fields
     else Inr (map (take (field_size - 1)) fs))"
proof -
  have "finish_fields max_values (ifs_loop ifs max_values [] [] False expanded) =
      put_fields max_values [] (word_fields ifs expanded)"
    using ifs_loop_fields [of False "[]" max_values ifs "[]" expanded] by (simp add: word_fields_def)
  moreover have "apply_ifs_splitting expanded saw_quote_open ifs max_values =
      bind_err (finish_fields max_values (ifs_loop ifs max_values [] [] False expanded))
        (\<lambda>outs. Inr (if outs = [] \<and> saw_quote_open then [[]] else outs))"
    using assms
    by (cases "ifs_loop ifs max_values [] [] False expanded")
      (auto simp: apply_ifs_splitting_def finish_fields_def)
  ultimately show ?thesis by (auto simp: put_fields_def Let_def)
qed

text \<open>
  (C25) Field splitting with a non-empty \<open>IFS\<close>: the fields are exactly those of the segments between
  the hard separators, each cut to its buffer; more fields than \<open>max_values\<close> are an error, and a
  word that has none but opened a quote gives one empty field.
\<close>

theorem ifs_splitting_fields:
  assumes "ifs \<noteq> []"
  shows "apply_ifs_splitting expanded saw_quote_open ifs max_values =
    (let fs = word_fields ifs expanded in
     if fs = [] then Inr (if saw_quote_open then [[]] else [])
     else if length fs > max_values then Inl Too_many_fields
     else Inr (map (take (field_size - 1)) fs))"
  using assms by (rule ifs_split_eq)

theorem ifs_splitting_fields_witness:
  "apply_ifs_splitting (map (\<lambda>c. (c, True)) ''/bin::/usr bin'') False '': '' 8 =
     Inr [''/bin'', [], ''/usr'', ''bin'']"
proof -
  have "word_fields '': '' (map (\<lambda>c. (c, True)) ''/bin::/usr bin'') = [''/bin'', [], ''/usr'', ''bin'']"
    by code_simp
  with ifs_splitting_fields [of "'': ''" "map (\<lambda>c. (c, True)) ''/bin::/usr bin''" False 8] show ?thesis
    by (simp add: field_size_def)
qed

subsection \<open>Separators\<close>

abbreviation splittable :: "string \<Rightarrow> (char \<times> bool) list" where
  "splittable s \<equiv> map (\<lambda>c. (c, True)) s"

fun join :: "char \<Rightarrow> string list \<Rightarrow> string" where
  "join c [] = []"
| "join c [f] = f"
| "join c (f # fs) = f @ c # join c fs"

lemma join_Cons: "fs \<noteq> [] \<Longrightarrow> join c (f # fs) = f @ c # join c fs"
  by (cases fs) auto

lemma marks_data: "c \<notin> set f \<Longrightarrow> map (mark_of [c]) (splittable f) = map Data f"
  by (induction f) (auto simp: mark_of_def)

lemma data_fields: "fields_from True (map Data f) = [f]"
  using segments_data [of f "[]"] by (simp add: fields_from_def runs_only_data)

lemma hard_fields:
  assumes "\<not> c_isspace c"
  shows "join c (fields_from True (map (mark_of [c]) (splittable s))) = s \<and>
     fields_from True (map (mark_of [c]) (splittable s)) \<noteq> [] \<and>
     length (fields_from True (map (mark_of [c]) (splittable s))) \<le> Suc (length s) \<and>
     (\<forall>f \<in> set (fields_from True (map (mark_of [c]) (splittable s))). length f \<le> length s)"
proof (induction s rule: length_induct)
  case (1 s)
  show ?case
  proof (cases "c \<in> set s")
    case False
    show ?thesis unfolding marks_data [OF False] data_fields by simp
  next
    case True
    then obtain f r where s: "s = f @ c # r" and f: "c \<notin> set f" using split_list_first by force
    have hard: "mark_of [c] (c, True) = Hard" using assms by (simp add: mark_of_def)
    have eq: "fields_from True (map (mark_of [c]) (splittable s)) =
        f # fields_from True (map (mark_of [c]) (splittable r))"
      by (simp only: s map_append list.map marks_data [OF f] hard fields_hard)
    have "length r < length s" using s by simp
    with 1 have IH: "join c (fields_from True (map (mark_of [c]) (splittable r))) = r"
      "fields_from True (map (mark_of [c]) (splittable r)) \<noteq> []"
      "length (fields_from True (map (mark_of [c]) (splittable r))) \<le> Suc (length r)"
      "\<forall>f \<in> set (fields_from True (map (mark_of [c]) (splittable r))). length f \<le> length r"
      by blast+
    then show ?thesis unfolding eq by (auto simp: join_Cons s)
  qed
qed

lemma fields_from_first:
  "s \<noteq> [] \<Longrightarrow> \<not> c_isspace c \<Longrightarrow>
   fields_from False (map (mark_of [c]) (splittable s)) = fields_from True (map (mark_of [c]) (splittable s))"
proof (cases "hd s = c")
  case True
  assume "s \<noteq> []" "\<not> c_isspace c"
  then obtain r where "map (mark_of [c]) (splittable s) = map Data [] @ Hard # r"
    using True by (cases s) (auto simp: mark_of_def)
  then show ?thesis using fields_hard by metis
next
  case False
  assume "s \<noteq> []"
  then obtain r where "map (mark_of [c]) (splittable s) = map Data [hd s] @ r"
    using False by (cases s) (auto simp: mark_of_def)
  then show ?thesis using fields_data [of "[hd s]"] by (metis list.distinct(1))
qed

text \<open>
  Splitting at one hard separator loses nothing: a word such as a search path, split at its
  separator, gives fields that joined with that separator are the word again.
\<close>

theorem ifs_split_join:
  assumes "\<not> c_isspace c" and "length s < field_size" and "length s < max_values" and "s \<noteq> []"
  shows "\<exists>fs. apply_ifs_splitting (splittable s) q [c] max_values = Inr fs \<and> join c fs = s"
proof -
  let ?fs = "word_fields [c] (splittable s)"
  have fs: "join c ?fs = s" "?fs \<noteq> []" "length ?fs \<le> Suc (length s)" "\<forall>f \<in> set ?fs. length f \<le> length s"
    using hard_fields [OF assms(1), of s] fields_from_first [OF assms(4,1)] by (simp_all add: word_fields_def)
  then have "map (take (field_size - 1)) ?fs = ?fs"
    using assms(2) by (intro map_idI) (auto intro!: take_all)
  moreover have "\<not> max_values < length ?fs" using fs(3) assms(3) by simp
  ultimately have "apply_ifs_splitting (splittable s) q [c] max_values = Inr ?fs"
    using ifs_split_eq [of "[c]" "splittable s" q max_values] fs(2) by (simp add: Let_def)
  with fs(1) show ?thesis by blast
qed

theorem ifs_split_join_witness:
  "\<exists>fs. apply_ifs_splitting (splittable ''/bin::/usr/bin:'') False '':'' 16 = Inr fs \<and>
     join (CHR '':'') fs = ''/bin::/usr/bin:''"
  by (rule ifs_split_join) (simp_all add: field_size_def c_isspace_def)

text \<open>
  Where the splitting departs from POSIX, which the comment on the function names: white space
  next to a hard separator is not absorbed by it, so \<open>a : b\<close> gives an empty field between \<open>a\<close> and
  \<open>b\<close>, and a separator that ends the word gives one more, empty field.
\<close>

theorem ifs_extra_empty_fields:
  assumes "\<forall>c \<in> set (x @ y). c \<noteq> CHR '' '' \<and> c \<noteq> CHR '':''" and "x \<noteq> []" and "y \<noteq> []"
    and "length x < field_size" and "length y < field_size"
  shows "apply_ifs_splitting (splittable (x @ '' :'' @ y)) False '' :'' 16 = Inr [x, [], y] \<and>
    apply_ifs_splitting (splittable (x @ '':'')) False '' :'' 16 = Inr [x, []]"
proof -
  have d: "map (mark_of '' :'') (splittable w) = map Data w" if w: "set w \<subseteq> set (x @ y)" for w
  proof -
    have "mark_of '' :'' (c, True) = Data c" if "c \<in> set w" for c
    proof -
      have "c \<noteq> CHR '' ''" "c \<noteq> CHR '':''" using assms(1) w that by blast+
      then show ?thesis by (simp add: mark_of_def)
    qed
    then show ?thesis by simp
  qed
  have dx: "map (mark_of '' :'') (splittable x) = map Data x"
    and dy: "map (mark_of '' :'') (splittable y) = map Data y"
    by (rule d; simp)+
  have sep: "mark_of '' :'' (CHR '' '', True) = Blank" "mark_of '' :'' (CHR '':'', True) = Hard"
    by (simp_all add: mark_of_def c_isspace_def)
  have "map (mark_of '' :'') (splittable (x @ '' :'' @ y)) = map Data x @ Blank # map Data [] @ Hard # map Data y"
    by (simp only: map_append list.map append.simps dx dy sep)
  then have "word_fields '' :'' (splittable (x @ '' :'' @ y)) = [x, [], y]"
    unfolding word_fields_def by (simp only: fields_blank fields_hard data_fields assms(2) if_False append.simps)
  moreover have "map (mark_of '' :'') (splittable (x @ '':'')) = map Data x @ Hard # map Data []"
    by (simp only: map_append list.map append.simps dx sep)
  then have "word_fields '' :'' (splittable (x @ '':'')) = [x, []]"
    unfolding word_fields_def by (simp only: fields_hard data_fields)
  ultimately show ?thesis
    using assms(4,5) by (simp add: ifs_split_eq Let_def)
qed

theorem ifs_extra_empty_fields_witness:
  "apply_ifs_splitting (splittable ''a :b'') False '' :'' 16 = Inr [''a'', [], ''b'']"
  using ifs_extra_empty_fields [of "''a''" "''b''"] by (simp add: field_size_def)

end
