(* ===== verification/Platform_Path.thy ===== *)
theory Platform_Path
  imports Arksh_Prelude
begin

text \<open>
  Path handling of \<^verbatim>\<open>src/platform.c\<close> on POSIX systems: lexical normalisation, resolution against the
  working directory, and the split of a path into directory and name.  Paths are the characters
  before the NUL; fixed arrays cut what they are given, and \<open>None\<close> is the error return.
\<close>

definition max_path :: nat where
  "max_path = 1024"

definition max_segments :: nat where
  "max_segments = 64"

abbreviation slash :: char where "slash \<equiv> CHR ''/''"
abbreviation dot :: string where "dot \<equiv> ''.''"
abbreviation dotdot :: string where "dotdot \<equiv> ''..''"

subsection \<open>The code\<close>

definition is_separator :: "char \<Rightarrow> bool" where
  "is_separator c \<longleftrightarrow> c = slash \<or> c = bslash"

definition is_absolute_path :: "string \<Rightarrow> bool" where
  "is_absolute_path path \<longleftrightarrow> next_is ''/'' path"

definition normalize_separators :: "nat \<Rightarrow> string \<Rightarrow> string" where
  "normalize_separators dest_size src =
     map (\<lambda>c. if is_separator c then slash else c) (take (dest_size - 1) src)"

definition push_segment :: "string list \<Rightarrow> string \<Rightarrow> string list option" where
  "push_segment segments segment =
     (if length segments \<ge> max_segments then None
      else Some (segments @ [copy_string max_name segment]))"

definition end_token :: "bool \<Rightarrow> string list \<Rightarrow> string \<Rightarrow> string list option" where
  "end_token absolute segments token =
     (if token = [] \<or> token = dot then Some segments
      else if token = dotdot then
        (if segments \<noteq> [] \<and> last segments \<noteq> dotdot then Some (butlast segments)
         else if \<not> absolute then push_segment segments dotdot
         else Some segments)
      else push_segment segments token)"

fun segment_loop :: "bool \<Rightarrow> string list \<Rightarrow> string \<Rightarrow> string \<Rightarrow> string list option" where
  "segment_loop absolute segments token [] = end_token absolute segments token"
| "segment_loop absolute segments token (c # cursor) =
     (if c \<noteq> slash then
        segment_loop absolute segments
          (if length token + 1 < max_name then token @ [c] else token) cursor
      else
        (case end_token absolute segments token of
           None \<Rightarrow> None
         | Some segs \<Rightarrow> segment_loop absolute segs [] cursor))"

text \<open>\<open>snprintf (out + strlen (out), out_size - strlen (out), ...)\<close>\<close>

definition append_out :: "nat \<Rightarrow> string \<Rightarrow> string \<Rightarrow> string" where
  "append_out out_size dest s = dest @ take (out_size - 1 - length dest) s"

fun put_segments :: "nat \<Rightarrow> string \<Rightarrow> string list \<Rightarrow> string" where
  "put_segments out_size dest [] = dest"
| "put_segments out_size dest (seg # segs) =
     (let dest1 = (if dest \<noteq> [] \<and> last dest \<noteq> slash then append_out out_size dest ''/'' else dest)
      in put_segments out_size (append_out out_size dest1 seg) segs)"

definition normalize_path :: "nat \<Rightarrow> string \<Rightarrow> string option" where
  "normalize_path out_size input =
     (if out_size = 0 then None else
      let temp = normalize_separators max_path input;
          absolute = next_is ''/'' temp;
          cursor = (if absolute then drop 1 temp else temp) in
      case segment_loop absolute [] [] cursor of
        None \<Rightarrow> None
      | Some segments \<Rightarrow>
          (let dest = (if absolute then append_out out_size [] ''/'' else []) in
           if segments = [] then
             Some (if dest = [] then copy_string out_size (if absolute then ''/'' else dot) else dest)
           else Some (put_segments out_size dest segments)))"

definition arksh_platform_resolve_path :: "nat \<Rightarrow> string \<Rightarrow> string \<Rightarrow> string option" where
  "arksh_platform_resolve_path out_size cwd input =
     (if input = [] then Some (copy_string out_size cwd)
      else if is_absolute_path input then normalize_path out_size input
      else if input = dot then Some (copy_string out_size cwd)
      else normalize_path out_size (copy_string (max_path * 2) (cwd @ slash # input)))"

definition strip_separators :: "nat \<Rightarrow> string \<Rightarrow> string" where
  "strip_separators keep path =
     (let n = length path - length (takeWhile is_separator (rev path)) in
      take (max keep n) path)"

definition arksh_platform_basename :: "nat \<Rightarrow> string \<Rightarrow> string" where
  "arksh_platform_basename out_size path =
     (if path = [] then []
      else
        (let cursor = strip_separators 0 path in
         if cursor = [] then copy_string out_size ''/''
         else
           (let name = length (takeWhile (\<lambda>c. \<not> is_separator c) (rev cursor)) in
            copy_string out_size (drop (length cursor - name) path))))"

definition arksh_platform_dirname :: "nat \<Rightarrow> string \<Rightarrow> string" where
  "arksh_platform_dirname out_size path =
     (let temp = copy_string max_path path;
          temp1 = strip_separators 1 temp;
          temp2 = take (length temp1 - length (takeWhile (\<lambda>c. \<not> is_separator c) (rev temp1))) temp1;
          temp3 = strip_separators 1 temp2 in
      if temp3 = [] then copy_string out_size dot else copy_string out_size temp3)"

subsection \<open>Paths as directories\<close>

text \<open>
  A path read as instructions: the parts between the slashes, followed from a directory (the names
  from the root) in a tree without links.  Going up from the root stays there.
\<close>

fun split_path :: "string \<Rightarrow> string list" where
  "split_path [] = [[]]"
| "split_path (c # cs) =
     (if c = slash then [] # split_path cs else (c # hd (split_path cs)) # tl (split_path cs))"

definition walk1 :: "string list \<Rightarrow> string \<Rightarrow> string list" where
  "walk1 d t = (if t = [] \<or> t = dot then d else if t = dotdot then butlast d else d @ [t])"

definition walk :: "string list \<Rightarrow> string list \<Rightarrow> string list" where
  "walk d ts = foldl walk1 d ts"

definition reach :: "string list \<Rightarrow> string \<Rightarrow> string list" where
  "reach d p = walk (if is_absolute_path p then [] else d) (split_path p)"

lemma reach_absolute: "is_absolute_path p \<Longrightarrow> reach d p = reach e p"
  by (simp add: reach_def)

text \<open>Normal forms: no empty part and no dot, and \<open>..\<close> only in front of a relative path.\<close>

definition plain :: "string \<Rightarrow> bool" where
  "plain t \<longleftrightarrow> t \<noteq> [] \<and> t \<noteq> dot \<and> t \<noteq> dotdot \<and> slash \<notin> set t"

definition canon :: "bool \<Rightarrow> string list \<Rightarrow> bool" where
  "canon absolute segs \<longleftrightarrow>
     (\<exists>k names. segs = replicate k dotdot @ names \<and> (absolute \<longrightarrow> k = 0) \<and> list_all plain names)"

definition render :: "bool \<Rightarrow> string list \<Rightarrow> string" where
  "render absolute segs =
     (if segs = [] then (if absolute then ''/'' else dot)
      else (if absolute then ''/'' else []) @ hd segs @ concat (map ((#) slash) (tl segs)))"

definition norm_step :: "bool \<Rightarrow> string list \<Rightarrow> string \<Rightarrow> string list" where
  "norm_step absolute segs t =
     (if t = [] \<or> t = dot then segs
      else if t = dotdot then
        (if segs \<noteq> [] \<and> last segs \<noteq> dotdot then butlast segs
         else if absolute then segs else segs @ [dotdot])
      else segs @ [t])"

lemma split_path_ne [simp]: "split_path s \<noteq> []"
  by (induction s) auto

lemma split_path_noslash: "t \<in> set (split_path s) \<Longrightarrow> slash \<notin> set t"
proof (induction s arbitrary: t)
  case (Cons c cs)
  then show ?case
    using list.set_sel(1) [OF split_path_ne [of cs]] list.set_sel(2) [OF split_path_ne [of cs]]
    by (auto split: if_splits)
qed simp

lemma canon_split:
  assumes "canon absolute segs"
  obtains (names) pre n where "segs = pre @ [n]" "plain n" "canon absolute pre"
  | (ups) k where "segs = replicate k dotdot" "absolute \<longrightarrow> k = 0"
proof -
  from assms obtain k names where s: "segs = replicate k dotdot @ names" "absolute \<longrightarrow> k = 0"
    "list_all plain names" by (auto simp: canon_def)
  show ?thesis
  proof (cases names rule: rev_cases)
    case Nil
    with s that(2) show ?thesis by simp
  next
    case (snoc ns n)
    with s that(1) [of "replicate k dotdot @ ns" n] show ?thesis by (auto simp: canon_def)
  qed
qed

lemma canon_snoc: "canon absolute segs \<Longrightarrow> plain t \<Longrightarrow> canon absolute (segs @ [t])"
proof -
  assume "canon absolute segs" "plain t"
  then obtain k names where "segs @ [t] = replicate k dotdot @ (names @ [t])" "absolute \<longrightarrow> k = 0"
    "list_all plain (names @ [t])" by (auto simp: canon_def)
  then show ?thesis unfolding canon_def by blast
qed

lemma canon_ups: "(absolute \<longrightarrow> k = 0) \<Longrightarrow> canon absolute (replicate k dotdot)"
  unfolding canon_def by (intro exI [of _ k] exI [of _ "[]"]) simp

lemma norm_step_canon:
  assumes "canon absolute segs" and "slash \<notin> set t"
  shows "canon absolute (norm_step absolute segs t)"
proof (cases "t = dotdot")
  case True
  from assms(1) show ?thesis
  proof (cases rule: canon_split)
    case (names pre n)
    then show ?thesis using True by (simp add: norm_step_def plain_def)
  next
    case (ups k)
    then show ?thesis
      using True assms(1) canon_ups [of False "Suc k"]
      by (auto simp: norm_step_def replicate_append_same)
  qed
next
  case False
  with assms show ?thesis by (auto simp: norm_step_def plain_def intro: canon_snoc)
qed

lemma walk_simps: "walk d [] = d" "walk d (ts @ us) = walk (walk d ts) us" "walk d (t # ts) = walk (walk1 d t) ts"
  by (simp_all add: walk_def)

lemma norm_step_walk:
  assumes "canon absolute segs" and "absolute \<longrightarrow> d = []"
  shows "walk d (norm_step absolute segs t) = walk1 (walk d segs) t"
proof (cases "t = dotdot")
  case True
  from assms(1) show ?thesis
  proof (cases rule: canon_split)
    case (names pre n)
    then show ?thesis using True by (simp add: norm_step_def plain_def walk_simps walk1_def)
  next
    case (ups k)
    then show ?thesis
      using True assms(2) by (auto simp: norm_step_def walk_simps walk1_def)
  qed
qed (simp add: norm_step_def walk_simps walk1_def)

lemma norm_steps:
  assumes "canon absolute segs" and "absolute \<longrightarrow> d = []" and "\<forall>t \<in> set ts. slash \<notin> set t"
  shows "canon absolute (foldl (norm_step absolute) segs ts) \<and>
     walk d (foldl (norm_step absolute) segs ts) = walk (walk d segs) ts"
  using assms(1,3)
proof (induction ts arbitrary: segs)
  case (Cons t ts)
  then show ?case
    using norm_step_canon [of absolute segs t] norm_step_walk [OF Cons.prems(1) assms(2), of t]
    by (simp add: walk_simps)
qed (simp add: walk_simps)

subsection \<open>The loop computes the normal form\<close>

lemma end_token_step:
  assumes "end_token absolute segs t = Some r" and "length t < max_name"
  shows "r = norm_step absolute segs t"
  using assms by (auto simp: end_token_def norm_step_def push_segment_def max_name_def split: if_splits)

lemma segment_loop_steps:
  "segment_loop absolute segs tok cs = Some r \<Longrightarrow>
   \<forall>t \<in> set ((tok @ hd (split_path cs)) # tl (split_path cs)). length t < max_name \<Longrightarrow>
   r = foldl (norm_step absolute) segs ((tok @ hd (split_path cs)) # tl (split_path cs))"
proof (induction absolute segs tok cs rule: segment_loop.induct)
  case (1 absolute segs tok)
  then show ?case using end_token_step by simp
next
  case (2 absolute segs tok c cs)
  obtain p ps where p: "split_path cs = p # ps" by (cases "split_path cs") auto
  show ?case
  proof (cases "c = slash")
    case False
    with 2 p have "length tok + 1 < max_name" by auto
    with 2(1) [OF False] "2.prems" False p show ?thesis by simp
  next
    case True
    with "2.prems" obtain segs' where e: "end_token absolute segs tok = Some segs'"
      "segment_loop absolute segs' [] cs = Some r" by (auto split: option.splits)
    from "2.IH"(2) [OF _ e] True "2.prems"(2) p
    have "r = foldl (norm_step absolute) segs' (split_path cs)" by simp
    moreover have "segs' = norm_step absolute segs tok" using end_token_step [OF e(1)] "2.prems"(2) True by simp
    ultimately show ?thesis using True by simp
  qed
qed

definition weight :: "string list \<Rightarrow> nat" where
  "weight segs = sum_list (map (\<lambda>s. Suc (length s)) segs)"

lemma weight_simps [simp]: "weight [] = 0" "weight (s # ss) = Suc (length s) + weight ss"
  "weight (ss @ ts) = weight ss + weight ts"
  by (simp_all add: weight_def)

lemma weight_butlast: "weight (butlast ss) \<le> weight ss"
  by (cases ss rule: rev_cases) simp_all

lemma weight_split: "weight (split_path s) = Suc (length s)"
proof (induction s)
  case (Cons c cs)
  obtain p ps where p: "split_path cs = p # ps" by (cases "split_path cs") auto
  with Cons show ?case by auto
qed simp

lemma weight_norm_step: "weight (norm_step absolute segs t) \<le> weight segs + Suc (length t)"
  using weight_butlast [of segs] by (auto simp: norm_step_def)

lemma weight_norm_steps: "weight (foldl (norm_step absolute) segs ts) \<le> weight segs + weight ts"
proof (induction ts arbitrary: segs)
  case (Cons t ts)
  show ?case using Cons [of "norm_step absolute segs t"] weight_norm_step [of absolute segs t] by simp
qed simp

lemma length_concat_slash: "length (concat (map ((#) slash) ss)) = weight ss"
  by (induction ss) auto

lemma length_render:
  "segs \<noteq> [] \<Longrightarrow> length (render absolute segs) = weight segs - (if absolute then 0 else 1)"
  by (cases segs) (auto simp: render_def length_concat_slash)

text \<open>Writing the segments.\<close>

lemma append_out_fits: "length dest + length s < n \<Longrightarrow> append_out n dest s = dest @ s"
  by (simp add: append_out_def)

lemma put_segments_eq:
  "\<forall>s \<in> set segs. s \<noteq> [] \<and> last s \<noteq> slash \<Longrightarrow> dest \<noteq> [] \<Longrightarrow> last dest \<noteq> slash \<Longrightarrow>
   length dest + weight segs < n \<Longrightarrow> put_segments n dest segs = dest @ concat (map ((#) slash) segs)"
proof (induction segs arbitrary: dest)
  case (Cons s segs)
  have "append_out n (append_out n dest ''/'') s = dest @ slash # s"
    using Cons.prems(4) by (simp add: append_out_fits)
  with Cons.IH [of "dest @ slash # s"] Cons.prems show ?case by (simp add: Let_def)
qed simp

lemma canon_elems:
  assumes "canon absolute segs" and "s \<in> set segs"
  shows "s \<noteq> [] \<and> last s \<noteq> slash \<and> slash \<notin> set s"
proof -
  from assms consider "s = dotdot" | "plain s" by (auto simp: canon_def list_all_iff)
  then show ?thesis by cases (auto simp: plain_def dest: last_in_set)
qed

lemma put_render:
  assumes "canon absolute segs" and "segs \<noteq> []" and "length (render absolute segs) < n"
  shows "put_segments n (if absolute then append_out n [] ''/'' else []) segs = render absolute segs"
proof -
  obtain s ss where segs: "segs = s # ss" using assms(2) by (cases segs) auto
  let ?pre = "if absolute then ''/'' else []"
  have s: "s \<noteq> []" "last s \<noteq> slash" "\<forall>t \<in> set ss. t \<noteq> [] \<and> last t \<noteq> slash"
    using canon_elems [OF assms(1)] segs by auto
  have len: "length ?pre + length s + weight ss < n"
    using assms(3) length_render [OF assms(2), of absolute] segs by auto
  have "put_segments n (if absolute then append_out n [] ''/'' else []) segs = put_segments n (?pre @ s) ss"
    using len by (auto simp: segs append_out_fits Let_def)
  also have "\<dots> = (?pre @ s) @ concat (map ((#) slash) ss)"
    using s len by (intro put_segments_eq) auto
  finally show ?thesis by (simp add: render_def segs)
qed

lemma split_path_append:
  "slash \<notin> set s \<Longrightarrow> split_path (s @ slash # t) = s # split_path t"
  "slash \<notin> set s \<Longrightarrow> split_path s = [s]"
  by (induction s) auto

lemma split_slashes: "\<forall>s \<in> set ss. slash \<notin> set s \<Longrightarrow> slash \<notin> set s0 \<Longrightarrow>
   split_path (s0 @ concat (map ((#) slash) ss)) = s0 # ss"
  by (induction ss arbitrary: s0) (simp_all add: split_path_append)

lemma split_render:
  assumes "canon absolute segs"
  shows "split_path (render absolute segs) =
    (if absolute then [] # (if segs = [] then [[]] else segs) else if segs = [] then [dot] else segs)"
proof (cases segs)
  case (Cons s ss)
  then show ?thesis
    using split_slashes [of ss s] canon_elems [OF assms] by (auto simp: render_def)
qed (simp add: render_def)

lemma render_absolute: "canon absolute segs \<Longrightarrow> next_is ''/'' (render absolute segs) = absolute"
proof -
  assume c: "canon absolute segs"
  show ?thesis
  proof (cases segs)
    case (Cons s ss)
    then have "s \<noteq> []" "slash \<notin> set s" using canon_elems [OF c, of s] by auto
    then show ?thesis using Cons by (cases s) (auto simp: render_def)
  qed (simp add: render_def)
qed

lemma walk_render:
  assumes "canon absolute segs"
  shows "reach d (render absolute segs) = walk (if absolute then [] else d) segs"
  using render_absolute [OF assms] split_render [OF assms]
  by (auto simp: reach_def is_absolute_path_def walk_simps walk1_def)

subsection \<open>Success and failure\<close>

lemma end_token_None: "end_token absolute segs t = None \<Longrightarrow> max_segments \<le> length segs"
  by (auto simp: end_token_def push_segment_def split: if_splits)

lemma end_token_length: "end_token absolute segs t = Some r \<Longrightarrow> length r \<le> Suc (length segs)"
  by (auto simp: end_token_def push_segment_def split: if_splits)

lemma end_token_max: "end_token absolute segs t = Some r \<Longrightarrow> length segs \<le> max_segments \<Longrightarrow> length r \<le> max_segments"
  by (auto simp: end_token_def push_segment_def split: if_splits)

lemma segment_loop_None:
  "segment_loop absolute segs tok cs = None \<Longrightarrow> max_segments < length segs + length (split_path cs)"
proof (induction absolute segs tok cs rule: segment_loop.induct)
  case (2 absolute segs tok c cs)
  show ?case
  proof (cases "c = slash")
    case False
    with 2 show ?thesis by (auto simp: Suc_le_eq)
  next
    case True
    show ?thesis
    proof (cases "end_token absolute segs tok")
      case None
      then show ?thesis using end_token_None [OF None] True by simp
    next
      case (Some segs')
      with "2.IH"(2) [of segs'] "2.prems" True end_token_length [OF Some] show ?thesis by simp
    qed
  qed
qed (auto dest!: end_token_None)

lemma segment_loop_max:
  "segment_loop absolute segs tok cs = Some r \<Longrightarrow> length segs \<le> max_segments \<Longrightarrow> length r \<le> max_segments"
proof (induction absolute segs tok cs rule: segment_loop.induct)
  case (2 absolute segs tok c cs)
  then show ?case by (auto split: if_splits option.splits dest: end_token_max)
qed (simp add: end_token_max)

lemma segment_loop_token:
  "slash \<notin> set s \<Longrightarrow> length tok + length s < max_name \<Longrightarrow>
   segment_loop absolute segs tok (s @ cs) = segment_loop absolute segs (tok @ s) cs"
  by (induction s arbitrary: tok) auto

lemma end_token_canon:
  assumes "canon absolute (segs @ [s])" and "length segs < max_segments" and "length s < max_name"
  shows "end_token absolute segs s = Some (segs @ [s])"
proof -
  from assms(1) obtain k names where e: "segs @ [s] = replicate k dotdot @ names"
    and a: "absolute \<longrightarrow> k = 0" and p: "list_all plain names" by (auto simp: canon_def)
  show ?thesis
  proof (cases names rule: rev_cases)
    case Nil
    with e obtain j where j: "k = Suc j" by (cases k) auto
    with e Nil have "segs = replicate j dotdot" "s = dotdot"
      by (simp_all flip: replicate_append_same)
    with assms(2) a j show ?thesis by (auto simp: end_token_def push_segment_def max_name_def)
  next
    case (snoc ns n)
    with e p have "plain s" by simp
    with assms show ?thesis by (auto simp: end_token_def push_segment_def plain_def)
  qed
qed

lemma canon_prefix: "canon absolute (segs @ ss) \<Longrightarrow> canon absolute segs"
proof (induction ss rule: rev_induct)
  case (snoc s ss)
  from snoc.prems have "canon absolute (segs @ ss)"
  proof (cases rule: canon_split)
    case (ups k)
    then obtain j where "segs @ ss = replicate j dotdot" "absolute \<longrightarrow> j = 0"
      by (cases k) (auto simp flip: replicate_append_same)
    then show ?thesis using canon_ups by simp
  qed auto
  with snoc.IH show ?case .
qed simp

lemma segment_loop_canon:
  "canon absolute (segs @ s # ss) \<Longrightarrow> length (segs @ s # ss) \<le> max_segments \<Longrightarrow>
   \<forall>t \<in> set (s # ss). length t < max_name \<Longrightarrow>
   segment_loop absolute segs [] (s @ concat (map ((#) slash) ss)) = Some (segs @ s # ss)"
proof (induction ss arbitrary: segs s)
  case Nil
  then show ?case
    using segment_loop_token [of s "[]" absolute segs "[]"] canon_elems [OF Nil.prems(1)]
    by (simp add: end_token_canon)
next
  case (Cons u ss)
  have "end_token absolute segs s = Some (segs @ [s])"
    using canon_prefix [of absolute "segs @ [s]" "u # ss"] Cons.prems by (intro end_token_canon) auto
  moreover have "slash \<notin> set s" using canon_elems [OF Cons.prems(1), of s] by simp
  ultimately show ?case
    using segment_loop_token [of s "[]" absolute segs] Cons.IH [of "segs @ [s]" u] Cons.prems by simp
qed

subsection \<open>Normalisation\<close>

definition path_fits :: "nat \<Rightarrow> string \<Rightarrow> bool" where
  "path_fits n p \<longleftrightarrow> length p < max_path \<and> length p < n \<and> 1 < n \<and> bslash \<notin> set p \<and>
     list_all (\<lambda>t. length t < max_name) (split_path p)"

lemma normalize_separators_id: "length p < n \<Longrightarrow> bslash \<notin> set p \<Longrightarrow> normalize_separators n p = p"
  by (auto simp: normalize_separators_def is_separator_def intro!: map_idI)

lemma normalize_path_eq:
  assumes "path_fits n p"
  shows "normalize_path n p =
    (let a = is_absolute_path p in
     case segment_loop a [] [] (if a then drop 1 p else p) of
       None \<Rightarrow> None
     | Some segs \<Rightarrow> Some (render a segs)) \<and>
    (\<forall>segs. segment_loop (is_absolute_path p) [] [] (if is_absolute_path p then drop 1 p else p) = Some segs \<longrightarrow>
       segs = foldl (norm_step (is_absolute_path p)) [] (split_path p) \<and>
       canon (is_absolute_path p) segs \<and> length (render (is_absolute_path p) segs) \<le> max 1 (length p))"
proof -
  define a where "a = is_absolute_path p"
  define cur where "cur = (if a then drop 1 p else p)"
  have sp: "split_path p = (if a then [] # split_path cur else split_path cur)"
    by (cases p) (auto simp: a_def cur_def is_absolute_path_def)
  have short: "\<forall>t \<in> set (split_path cur). length t < max_name"
    using assms sp by (auto simp: path_fits_def list_all_iff split: if_splits)
  have facts: "segs = foldl (norm_step a) [] (split_path p) \<and> canon a segs \<and>
      length (render a segs) \<le> max 1 (length p)" if "segment_loop a [] [] cur = Some segs" for segs
  proof -
    have "segs = foldl (norm_step a) [] (split_path cur)"
      using segment_loop_steps [OF that] short by simp
    then have 1: "segs = foldl (norm_step a) [] (split_path p)"
      unfolding sp by (simp add: norm_step_def [of _ "[]" "[]"])
    have 2: "canon a segs"
      using norm_steps [of a "[]" "[]" "split_path p"] canon_ups [of a 0] split_path_noslash
      unfolding 1 by auto
    have "weight segs \<le> Suc (length cur)"
      using weight_norm_steps [of a "[]" "split_path cur"] \<open>segs = foldl (norm_step a) [] (split_path cur)\<close>
        weight_split [of cur] by simp
    moreover have "length cur = length p - (if a then 1 else 0)" "a \<Longrightarrow> 0 < length p"
      by (auto simp: cur_def a_def is_absolute_path_def)
    ultimately have "length (render a segs) \<le> max 1 (length p)"
      by (cases "segs = []") (auto simp: length_render, auto simp: render_def)
    with 1 2 show ?thesis by simp
  qed
  have id: "normalize_separators max_path p = p" and n: "1 < n"
    using assms by (simp_all add: normalize_separators_id path_fits_def)
  let ?dest = "if a then append_out n [] ''/'' else []"
  have np: "normalize_path n p = (case segment_loop a [] [] cur of
       None \<Rightarrow> None
     | Some segs \<Rightarrow> if segs = [] then Some (if ?dest = [] then copy_string n (if a then ''/'' else dot) else ?dest)
         else Some (put_segments n ?dest segs))"
    using n unfolding normalize_path_def id Let_def a_def cur_def is_absolute_path_def by simp
  have "normalize_path n p = (case segment_loop a [] [] cur of None \<Rightarrow> None | Some segs \<Rightarrow> Some (render a segs))"
  proof (cases "segment_loop a [] [] cur")
    case None
    then show ?thesis by (simp add: np)
  next
    case (Some segs)
    have "length (render a segs) < n" using facts [OF Some] assms by (auto simp: path_fits_def)
    with put_render [of a segs n] facts [OF Some]
    have "segs \<noteq> [] \<Longrightarrow> put_segments n ?dest segs = render a segs" by blast
    moreover have "(if ?dest = [] then copy_string n (if a then ''/'' else dot) else ?dest) = render a []"
      using n by (simp add: append_out_def render_def)
    ultimately show ?thesis unfolding np Some option.case by (cases "segs = []") simp_all
  qed
  with facts show ?thesis unfolding Let_def a_def [symmetric] cur_def [symmetric] by blast
qed

lemma normalize_path_result:
  assumes "path_fits n p" and "length (split_path p) \<le> max_segments"
  shows "\<exists>q segs. normalize_path n p = Some q \<and> (\<forall>d. reach d q = reach d p) \<and>
     canon (is_absolute_path p) segs \<and> q = render (is_absolute_path p) segs \<and>
     length q \<le> max 1 (length p)"
proof -
  let ?a = "is_absolute_path p"
  let ?cur = "if ?a then drop 1 p else p"
  have "length (split_path ?cur) \<le> length (split_path p)"
    by (cases p) (auto simp: is_absolute_path_def)
  then obtain segs where segs: "segment_loop ?a [] [] ?cur = Some segs"
    using segment_loop_None [of ?a "[]" "[]" ?cur] assms(2) by fastforce
  have q: "normalize_path n p = Some (render ?a segs)"
    using conjunct1 [OF normalize_path_eq [OF assms(1)]] segs by (simp add: Let_def)
  have f: "segs = foldl (norm_step ?a) [] (split_path p)" "canon ?a segs"
    "length (render ?a segs) \<le> max 1 (length p)"
    using conjunct2 [OF normalize_path_eq [OF assms(1)]] segs by blast+
  have "reach d (render ?a segs) = reach d p" for d
    using walk_render [OF f(2), of d] norm_steps [of ?a "[]" "if ?a then [] else d" "split_path p"]
      canon_ups [of ?a 0] split_path_noslash f(1)
    by (auto simp: reach_def walk_simps)
  with q f show ?thesis by blast
qed



text \<open>
  Normalising is idempotent: a normal form of at most 64 short names that fits is left as it is.
\<close>

theorem normalize_path_idem:
  assumes "canon a segs" and "length segs \<le> max_segments" and "path_fits n (render a segs)"
  shows "normalize_path n (render a segs) = Some (render a segs)"
proof -
  let ?p = "render a segs"
  have a: "is_absolute_path ?p = a" using render_absolute [OF assms(1)] by (simp add: is_absolute_path_def)
  have "segment_loop a [] [] (if a then drop 1 ?p else ?p) = Some segs"
  proof (cases segs)
    case Nil
    then show ?thesis by (simp add: render_def end_token_def max_name_def)
  next
    case (Cons s ss)
    have "set (s # ss) \<subseteq> set (split_path ?p)" unfolding split_render [OF assms(1)] using Cons by auto
    then have "\<forall>t \<in> set (s # ss). length t < max_name"
      using assms(3) unfolding path_fits_def list_all_iff by blast
    moreover have "(if a then drop 1 ?p else ?p) = s @ concat (map ((#) slash) ss)"
      using Cons by (simp add: render_def)
    ultimately show ?thesis
      using segment_loop_canon [of a "[]" s ss] assms(1,2) Cons by simp
  qed
  with normalize_path_eq [OF assms(3)] a show ?thesis by (simp add: Let_def)
qed

theorem normalize_path_idem_witness:
  "normalize_path 1024 (render False [''..'', ''src'']) = Some (render False [''..'', ''src''])"
  by (rule normalize_path_idem, unfold canon_def, intro exI [of _ 1] exI [of _ "[''src'']"])
    (simp_all add: plain_def max_segments_def path_fits_def render_def max_path_def max_name_def)

lemma walk_plain: "list_all plain ts \<Longrightarrow> walk d ts = d @ ts"
  by (induction ts arbitrary: d) (auto simp: walk_simps walk1_def plain_def)

lemma canon_True: "canon True ds \<longleftrightarrow> list_all plain ds"
  by (auto simp: canon_def intro: exI [of _ ds])

lemma split_path_slash: "split_path (s @ slash # t) = split_path s @ split_path t"
proof (induction s)
  case (Cons c s)
  obtain p ps where "split_path s = p # ps" by (cases "split_path s") auto
  with Cons show ?case by auto
qed simp

text \<open>
  Resolution is \<open>cd\<close>: with an absolute working directory in normal form, resolving a path gives
  an absolute path, again in normal form, that leads where following the path from the working
  directory leads; no path climbs above the root.
\<close>

theorem resolve_path_correct:
  assumes "canon True ds" and "input \<noteq> []" and "path_fits n (render True ds @ slash # input)"
    and "length (split_path (render True ds @ slash # input)) \<le> max_segments"
  shows "\<exists>q segs. arksh_platform_resolve_path n (render True ds) input = Some q \<and>
     canon True segs \<and> q = render True segs \<and> reach [] q = reach ds input"
proof -
  let ?cwd = "render True ds"
  let ?cand = "?cwd @ slash # input"
  have abs: "is_absolute_path ?cwd"
    using render_absolute [OF assms(1)] by (simp add: is_absolute_path_def)
  then have "is_absolute_path ?cand" by (cases ?cwd) (auto simp: is_absolute_path_def)
  have ds: "reach [] ?cwd = ds"
    using walk_render [OF assms(1)] assms(1) by (simp add: canon_True walk_plain)
  have parts: "split_path ?cand = split_path ?cwd @ split_path input" by (rule split_path_slash)
  have fits: "path_fits n input" "length (split_path input) \<le> max_segments"
    using assms(3,4) parts by (auto simp: path_fits_def)
  consider (absolute) "is_absolute_path input" | (here) "input = dot"
    | (relative) "\<not> is_absolute_path input" "input \<noteq> dot" by blast
  then show ?thesis
  proof cases
    case absolute
    from normalize_path_result [OF fits] absolute obtain segs where
      q: "normalize_path n input = Some (render True segs)" "reach [] (render True segs) = reach [] input"
        "canon True segs" by auto
    have "reach ds input = reach [] input" using absolute by (simp add: reach_def)
    with q absolute assms(2) show ?thesis
      by (intro exI [of _ "render True segs"] exI [of _ segs]) (simp add: arksh_platform_resolve_path_def)
  next
    case here
    have "copy_string n ?cwd = ?cwd" using assms(3) by (simp add: path_fits_def)
    with here show ?thesis
      using assms(1) ds
      by (auto simp: arksh_platform_resolve_path_def is_absolute_path_def reach_def [of ds] walk_simps walk1_def)
  next
    case relative
    have "copy_string (max_path * 2) ?cand = ?cand"
      using assms(3) by (simp add: path_fits_def max_path_def)
    then have "arksh_platform_resolve_path n ?cwd input = normalize_path n ?cand"
      using relative assms(2) by (simp add: arksh_platform_resolve_path_def)
    moreover have "reach [] ?cand = reach ds input"
      using ds relative abs \<open>is_absolute_path ?cand\<close> parts by (simp add: reach_def walk_simps)
    ultimately show ?thesis
      using normalize_path_result [OF assms(3,4)] \<open>is_absolute_path ?cand\<close> by auto
  qed
qed

theorem resolve_path_correct_witness:
  "\<exists>q. arksh_platform_resolve_path 1024 (render True [''home'', ''u'']) ''../../../etc'' = Some q \<and>
     reach [] q = [''etc'']"
proof -
  have "canon True [''home'', ''u'']" by (simp add: canon_True plain_def)
  moreover have "path_fits 1024 (render True [''home'', ''u''] @ slash # ''../../../etc'')"
    and "length (split_path (render True [''home'', ''u''] @ slash # ''../../../etc'')) \<le> max_segments"
    and "reach [''home'', ''u''] ''../../../etc'' = [''etc'']"
    by code_simp+
  ultimately show ?thesis
    using resolve_path_correct [of "[''home'', ''u'']" "''../../../etc''" 1024] by (metis list.distinct(1))
qed

subsection \<open>Directory and name\<close>

lemma takeWhile_rev_snoc: "\<not> P (last xs) \<Longrightarrow> xs \<noteq> [] \<Longrightarrow> takeWhile P (rev xs) = []"
  by (cases xs rule: rev_cases) auto

text \<open>
  \<open>dirname\<close> and \<open>basename\<close> split a path at its last separator.  With trailing separators \<open>dirname\<close>
  still names the parent, but \<open>basename\<close> returns the name with the separators on it.
\<close>

theorem dirname_basename:
  assumes "name \<noteq> []" and "list_all (\<lambda>c. \<not> is_separator c) name" and "dir \<noteq> []"
    and "\<not> is_separator (last dir)" and "length (dir @ slash # name @ seps) < max_path"
    and "list_all is_separator seps"
  shows "arksh_platform_dirname max_path (dir @ slash # name @ seps) = dir \<and>
     arksh_platform_basename max_path (dir @ slash # name @ seps) = name @ seps"
proof -
  let ?p = "dir @ slash # name @ seps"
  have n: "\<not> is_separator (last name)" using assms(1,2) by (auto simp: list_all_iff)
  have tw: "takeWhile is_separator (rev (xs @ seps)) = rev seps"
    if "xs \<noteq> []" "\<not> is_separator (last xs)" for xs
  proof -
    have "takeWhile is_separator (rev seps @ rev xs) = rev seps @ takeWhile is_separator (rev xs)"
      using assms(6) by (intro takeWhile_append2) (auto simp: list_all_iff)
    then show ?thesis using takeWhile_rev_snoc [of is_separator xs] that by simp
  qed
  have strip: "strip_separators k (xs @ seps) = xs"
    if "xs \<noteq> []" "\<not> is_separator (last xs)" "k \<le> 1" for xs k
  proof -
    have "max k (length xs) = length xs" using that by (cases xs) auto
    then show ?thesis using tw [OF that(1,2)] by (simp add: strip_separators_def)
  qed
  have last: "\<not> is_separator (last (dir @ slash # name))" using n assms(1) by simp
  have name: "takeWhile (\<lambda>c. \<not> is_separator c) (rev (dir @ slash # name)) = rev name"
  proof -
    have "takeWhile (\<lambda>c. \<not> is_separator c) (rev name @ slash # rev dir) =
        rev name @ takeWhile (\<lambda>c. \<not> is_separator c) (slash # rev dir)"
      using assms(2) by (intro takeWhile_append2) (auto simp: list_all_iff)
    then show ?thesis by (simp add: is_separator_def)
  qed
  have s1: "strip_separators k ?p = dir @ slash # name" if "k \<le> 1" for k
    using strip [of "dir @ slash # name" k] last that by simp
  have s2: "strip_separators 1 (dir @ [slash]) = dir"
  proof -
    have "takeWhile is_separator (rev (dir @ [slash])) = [slash]"
      using takeWhile_rev_snoc [of is_separator dir] assms(3,4) by (simp add: is_separator_def)
    moreover have "max 1 (length dir) = length dir" using assms(3) by (cases dir) auto
    ultimately show ?thesis by (simp add: strip_separators_def)
  qed
  have "take (length (dir @ slash # name) - length name) (dir @ slash # name) = dir @ [slash]" by simp
  then have "arksh_platform_dirname max_path ?p = dir"
    using s1 [of 1] s2 assms(3,5) name by (simp add: arksh_platform_dirname_def Let_def)
  moreover have "arksh_platform_basename max_path ?p = name @ seps"
    using s1 [of 0] assms(5) name by (simp add: arksh_platform_basename_def Let_def)
  ultimately show ?thesis by simp
qed

theorem dirname_basename_witness:
  "arksh_platform_dirname max_path ''/usr/lib/'' = ''/usr'' \<and>
   arksh_platform_basename max_path ''/usr/lib/'' = ''lib/''"
  using dirname_basename [of "''lib''" "''/usr''" "''/''"] by (simp add: is_separator_def max_path_def)

end
