(* ===== verification/Sorted_Index.thy ===== *)
theory Sorted_Index
  imports Arksh_Prelude
begin

text \<open>
  The growable arrays and the sorted lookup indices of \<^verbatim>\<open>src/shell.c\<close>: \<open>grow_heap_array\<close>, the
  insertion sorts \<open>rebuild_sorted_name_index\<close> and \<open>rebuild_sorted_id_index\<close>, the binary searches
  \<open>find_name_index_entry\<close> and \<open>find_instance_id_index_entry\<close>, and the lower bound of
  \<^verbatim>\<open>src/line_editor.c\<close> that completion starts from.  An array is the list of its cells, as long as
  its capacity.  \<open>realloc_ok\<close> tells for a size in bytes whether \<open>realloc\<close> succeeds.
\<close>

subsection \<open>Growable arrays\<close>

function grow_loop :: "nat \<Rightarrow> nat \<Rightarrow> nat" where
  "grow_loop required next_capacity =
     (if next_capacity < required then
        (let doubled = (next_capacity * 2) mod 2 ^ 64 in
         if doubled \<le> next_capacity then required else grow_loop required doubled)
      else next_capacity)"
  by auto
termination by (relation "measure (\<lambda>(required, n). required - n)") auto

declare grow_loop.simps [simp del]

definition grow_heap_array ::
  "(nat \<Rightarrow> bool) \<Rightarrow> 'a \<Rightarrow> nat \<Rightarrow> nat \<Rightarrow> nat \<Rightarrow> 'a list \<Rightarrow> 'a list option" where
  "grow_heap_array realloc_ok zero item_size max_capacity required items =
     (let capacity = length items in
      if item_size = 0 then None
      else if required = 0 then Some items
      else if capacity \<ge> required then Some items
      else if max_capacity > 0 \<and> required > max_capacity then None
      else
        (let next1 = grow_loop required (if capacity = 0 then 4 else capacity);
             next2 = (if max_capacity > 0 \<and> next1 > max_capacity then max_capacity else next1) in
         if next2 < required then None
         else if \<not> realloc_ok ((next2 * item_size) mod 2 ^ 64) then None
         else Some (items @ replicate (next2 - capacity) zero)))"

subsection \<open>Comparisons\<close>

text \<open>Only the sign of \<open>strcmp\<close> is specified; characters compare as \<open>unsigned char\<close>.\<close>

fun c_strcmp :: "string \<Rightarrow> string \<Rightarrow> int" where
  "c_strcmp [] [] = 0"
| "c_strcmp [] (d # ds) = -1"
| "c_strcmp (c # cs) [] = 1"
| "c_strcmp (c # cs) (d # ds) =
     (if c = d then c_strcmp cs ds
      else if (of_char c :: nat) < of_char d then -1 else 1)"

text \<open>The three-way test of \<open>find_instance_id_index_entry\<close>.\<close>

definition id_compare :: "int \<Rightarrow> int \<Rightarrow> int" where
  "id_compare i mid_id = (if mid_id = i then 0 else if i < mid_id then -1 else 1)"

subsection \<open>Sorting and searching\<close>

fun sift_down :: "(nat \<Rightarrow> nat \<Rightarrow> bool) \<Rightarrow> nat list \<Rightarrow> nat \<Rightarrow> nat list" where
  "sift_down in_order indices 0 = indices"
| "sift_down in_order indices (Suc current) =
     (if in_order (indices ! current) (indices ! Suc current) then indices
      else sift_down in_order
             (indices [current := indices ! Suc current, Suc current := indices ! current]) current)"

definition sort_indices :: "(nat \<Rightarrow> nat \<Rightarrow> bool) \<Rightarrow> nat \<Rightarrow> nat list \<Rightarrow> nat list" where
  "sort_indices in_order count indices =
     foldl (\<lambda>ind i. sift_down in_order (ind [i := i]) i) indices [0..<count]"

definition rebuild_sorted_name_index ::
  "(nat \<Rightarrow> bool) \<Rightarrow> nat \<Rightarrow> (nat \<Rightarrow> string) \<Rightarrow> nat \<Rightarrow> nat list \<Rightarrow> nat list option" where
  "rebuild_sorted_name_index realloc_ok max_capacity name_at count indices =
     (if count = 0 then Some indices
      else
        (case grow_heap_array realloc_ok 0 8 max_capacity count indices of
           None \<Rightarrow> None
         | Some indices1 \<Rightarrow>
             Some (sort_indices (\<lambda>l r. c_strcmp (name_at l) (name_at r) \<le> 0) count indices1)))"

definition rebuild_sorted_id_index ::
  "(nat \<Rightarrow> bool) \<Rightarrow> nat \<Rightarrow> (nat \<Rightarrow> int) \<Rightarrow> nat \<Rightarrow> nat list \<Rightarrow> nat list option" where
  "rebuild_sorted_id_index realloc_ok max_capacity id_at count indices =
     (if count = 0 then Some indices
      else
        (case grow_heap_array realloc_ok 0 8 max_capacity count indices of
           None \<Rightarrow> None
         | Some indices1 \<Rightarrow> Some (sort_indices (\<lambda>l r. id_at l \<le> id_at r) count indices1)))"

function search_index :: "(nat \<Rightarrow> int) \<Rightarrow> nat \<Rightarrow> nat \<Rightarrow> nat option" where
  "search_index probe left right =
     (if left < right then
        (let mid = left + (right - left) div 2; cmp = probe mid in
         if cmp = 0 then Some mid
         else if cmp < 0 then search_index probe left mid
         else search_index probe (mid + 1) right)
      else None)"
  by auto
termination by (relation "measure (\<lambda>(probe, left, right). right - left)") auto

declare search_index.simps [simp del]

definition find_name_index_entry :: "nat list \<Rightarrow> nat \<Rightarrow> string \<Rightarrow> (nat \<Rightarrow> string) \<Rightarrow> nat option" where
  "find_name_index_entry indices count name name_at =
     (if indices = [] \<or> count = 0 then None
      else map_option ((!) indices)
             (search_index (\<lambda>mid. c_strcmp name (name_at (indices ! mid))) 0 count))"

definition find_instance_id_index_entry :: "nat list \<Rightarrow> nat \<Rightarrow> int \<Rightarrow> (nat \<Rightarrow> int) \<Rightarrow> nat option" where
  "find_instance_id_index_entry indices count i id_at =
     (if indices = [] \<or> count = 0 \<or> i \<le> 0 then None
      else map_option ((!) indices)
             (search_index (\<lambda>mid. id_compare i (id_at (indices ! mid))) 0 count))"

function lower_bound_loop :: "(nat \<Rightarrow> bool) \<Rightarrow> nat \<Rightarrow> nat \<Rightarrow> nat" where
  "lower_bound_loop below low high =
     (if low < high then
        (let mid = low + (high - low) div 2 in
         if below mid then lower_bound_loop below (mid + 1) high
         else lower_bound_loop below low mid)
      else low)"
  by auto
termination by (relation "measure (\<lambda>(below, low, high). high - low)") auto

declare lower_bound_loop.simps [simp del]

definition lower_bound_sorted_names :: "nat \<Rightarrow> string \<Rightarrow> (nat \<Rightarrow> string) \<Rightarrow> nat" where
  "lower_bound_sorted_names count pre name_from_sorted_pos =
     lower_bound_loop (\<lambda>mid. c_strcmp (name_from_sorted_pos mid) pre < 0) 0 count"

subsection \<open>Growth keeps the contents\<close>

lemma grow_loop_ge: "required \<le> grow_loop required n"
  by (induction required n rule: grow_loop.induct) (subst grow_loop.simps, auto simp: Let_def)

lemma grow_loop_mono: "n \<le> grow_loop required n"
  by (induction required n rule: grow_loop.induct) (subst grow_loop.simps, force simp: Let_def)

lemma grow_loop_lt: "0 < required \<Longrightarrow> n < 2 * required \<Longrightarrow> grow_loop required n < 2 * required"
proof (induction required n rule: grow_loop.induct)
  case (1 required n)
  have "n * 2 mod 2 ^ 64 \<le> n * 2" by (rule mod_less_eq_dividend)
  with 1 show ?case by (subst grow_loop.simps) (auto simp: Let_def)
qed

lemma grow_heap_array_SomeD:
  assumes "grow_heap_array ok z sz mx required items = Some items'"
  shows "required \<le> length items' \<and> take (length items) items' = items \<and> length items \<le> length items' \<and>
    (length items' \<le> mx \<or> mx = 0 \<or> items' = items)"
  using assms grow_loop_ge [of required "if items = [] then 4 else length items"]
    grow_loop_mono [of "if items = [] then 4 else length items" required]
  by (auto simp: grow_heap_array_def Let_def not_less split: if_splits)

lemma grow_heap_array_nth:
  "grow_heap_array ok z sz mx required items = Some items' \<Longrightarrow> i < length items \<Longrightarrow> items' ! i = items ! i"
  by (metis grow_heap_array_SomeD nth_take)

lemma grow_heap_array_ok:
  assumes "0 < required" and "required \<le> mx" and "0 < sz" and "mx * sz < 2 ^ 64"
    and "length items < required" and "\<forall>n \<le> mx * sz. realloc_ok n"
  shows "\<exists>n. grow_heap_array realloc_ok z sz mx required items = Some (items @ replicate n z) \<and>
     required \<le> length items + n \<and> length items + n \<le> mx \<and> length items + n < max 5 (2 * required) \<and>
     ((length items + n) * sz) mod 2 ^ 64 = (length items + n) * sz"
proof -
  define n1 where "n1 = grow_loop required (if items = [] then 4 else length items)"
  define n2 where "n2 = min n1 mx"
  have ge: "required \<le> n1" using grow_loop_ge by (simp add: n1_def)
  have lt: "n1 < max 5 (2 * required)"
  proof (cases "(if items = [] then 4 else length items) < 2 * required")
    case True
    then show ?thesis using grow_loop_lt [OF assms(1) True] by (simp add: n1_def)
  next
    case False
    then show ?thesis using assms(5) by (subst n1_def, subst grow_loop.simps) (auto split: if_splits)
  qed
  have n2: "required \<le> n2" "n2 \<le> mx" "n2 < max 5 (2 * required)"
    using ge lt assms(2) by (auto simp: n2_def)
  have "n2 * sz \<le> mx * sz" using n2 by simp
  then have nowrap: "(n2 * sz) mod 2 ^ 64 = n2 * sz" using assms(4) by (intro mod_less) linarith
  have "realloc_ok (n2 * sz)" using assms(6) \<open>n2 * sz \<le> mx * sz\<close> by blast
  then have "grow_heap_array realloc_ok z sz mx required items = Some (items @ replicate (n2 - length items) z)"
    using assms(1-3,5) n2 nowrap unfolding grow_heap_array_def Let_def n2_def min_def n1_def
    by (auto split: if_splits)
  then show ?thesis
    using n2 nowrap assms(5) by (intro exI [of _ "n2 - length items"]) simp
qed

text \<open>
  Growing an array succeeds whenever the number of cells asked for is within the limit and
  \<open>realloc\<close> has the memory; it keeps every cell, zeroes the new ones, and allocates fewer than twice
  the cells asked for (or the initial four), so with a limit and a cell size whose product fits 64
  bits the size handed to \<open>realloc\<close> never wraps.
\<close>

theorem grow_heap_array_correct:
  assumes "0 < required" and "required \<le> mx" and "0 < sz" and "mx * sz < 2 ^ 64"
    and "length items < required" and "\<forall>n \<le> mx * sz. realloc_ok n"
  shows "\<exists>n. grow_heap_array realloc_ok z sz mx required items = Some (items @ replicate n z) \<and>
     required \<le> length items + n \<and> length items + n \<le> mx \<and> length items + n < max 5 (2 * required) \<and>
     ((length items + n) * sz) mod 2 ^ 64 = (length items + n) * sz"
  using assms by (rule grow_heap_array_ok)

theorem grow_heap_array_correct_witness:
  "\<exists>n. grow_heap_array (\<lambda>_. True) 0 8 64 9 [1, 2, 3, 4::nat] = Some ([1, 2, 3, 4] @ replicate n 0) \<and>
     9 \<le> 4 + n \<and> 4 + n \<le> 64"
proof -
  have "\<exists>n. grow_heap_array (\<lambda>_. True) 0 8 64 9 [1, 2, 3, 4::nat] = Some ([1, 2, 3, 4] @ replicate n 0) \<and>
      9 \<le> length [1, 2, 3, 4::nat] + n \<and> length [1, 2, 3, 4::nat] + n \<le> 64"
    using grow_heap_array_correct [of 9 64 8 "[1, 2, 3, 4::nat]" "\<lambda>_. True" 0] by fastforce
  then show ?thesis by simp
qed

subsection \<open>Insertion\<close>

lemma length_sift_down [simp]: "length (sift_down le xs n) = length xs"
  by (induction le xs n rule: sift_down.induct) simp_all

text \<open>Sifting moves the last cell of a block in front of the cells that are out of order with it.\<close>

lemma sift_down_insert:
  "\<exists>us vs. xs = us @ vs \<and> sift_down le (xs @ y # ys) (length xs) = us @ y # vs @ ys \<and>
     (us \<noteq> [] \<longrightarrow> le (last us) y) \<and> (\<forall>v \<in> set vs. \<not> le v y)"
proof (induction xs arbitrary: ys rule: rev_induct)
  case (snoc x xs)
  show ?case
  proof (cases "le x y")
    case True
    then show ?thesis
      by (intro exI [of _ "xs @ [x]"] exI [of _ "[]"]) (simp add: nth_append)
  next
    case False
    then have "sift_down le ((xs @ [x]) @ y # ys) (length (xs @ [x])) =
        sift_down le (xs @ y # x # ys) (length xs)"
      by (simp add: nth_append list_update_append)
    moreover obtain us vs where "xs = us @ vs" "sift_down le (xs @ y # x # ys) (length xs) = us @ y # vs @ x # ys"
      "us \<noteq> [] \<longrightarrow> le (last us) y" "\<forall>v \<in> set vs. \<not> le v y"
      using snoc [of "x # ys"] by blast
    ultimately show ?thesis using False by (intro exI [of _ us] exI [of _ "vs @ [x]"]) auto
  qed
qed simp

subsection \<open>Binary search\<close>

lemma search_index_sound:
  "search_index probe l r = Some m \<Longrightarrow> l \<le> m \<and> m < r \<and> probe m = 0"
proof (induction probe l r rule: search_index.induct)
  case (1 probe l r)
  define mid where "mid = l + (r - l) div 2"
  have lr: "l < r" using 1(3) by (subst (asm) search_index.simps) (simp split: if_splits)
  then have mid: "l \<le> mid" "mid < r" by (auto simp: mid_def)
  have step: "search_index probe l r = (if probe mid = 0 then Some mid
      else if probe mid < 0 then search_index probe l mid else search_index probe (mid + 1) r)"
    using lr by (subst search_index.simps) (simp add: Let_def mid_def)
  consider "probe mid = 0" "m = mid" | "probe mid < 0" "search_index probe l mid = Some m"
    | "\<not> probe mid < 0" "probe mid \<noteq> 0" "search_index probe (mid + 1) r = Some m"
    using 1(3) step by (auto split: if_splits)
  then show ?case
  proof cases
    case 2
    then show ?thesis using 1(1) [OF lr mid_def refl] mid by force
  next
    case 3
    then show ?thesis using 1(2) [OF lr mid_def refl] mid by force
  qed (use mid in simp)
qed

lemma search_index_None:
  assumes "search_index probe l r = None"
    and "\<And>i j. i \<le> j \<Longrightarrow> j < r \<Longrightarrow> probe i < 0 \<Longrightarrow> probe j < 0"
    and "\<And>i j. i \<le> j \<Longrightarrow> j < r \<Longrightarrow> 0 < probe j \<Longrightarrow> 0 < probe i"
  shows "\<forall>m. l \<le> m \<and> m < r \<longrightarrow> probe m \<noteq> 0"
  using assms
proof (induction probe l r rule: search_index.induct)
  case (1 probe l r)
  define mid where "mid = l + (r - l) div 2"
  show ?case
  proof (cases "l < r")
    case True
    then have mid: "l \<le> mid" "mid < r" by (auto simp: mid_def)
    have step: "search_index probe l r = (if probe mid = 0 then Some mid
        else if probe mid < 0 then search_index probe l mid else search_index probe (mid + 1) r)"
      using True by (subst search_index.simps) (simp add: Let_def mid_def)
    consider "probe mid < 0" | "0 < probe mid" using 1(3) step by (cases "probe mid" "0::int" rule: linorder_cases) auto
    then show ?thesis
    proof cases
      assume neg: "probe mid < 0"
      then have "\<forall>m. l \<le> m \<and> m < mid \<longrightarrow> probe m \<noteq> 0"
        using 1(1) [OF True mid_def refl _ neg _ 1(4,5)] 1(3) step mid by simp
      moreover have "probe m < 0" if "mid \<le> m" "m < r" for m using 1(4) [OF that neg] .
      ultimately show ?thesis by (metis less_irrefl not_le)
    next
      assume pos: "0 < probe mid"
      then have "\<forall>m. mid + 1 \<le> m \<and> m < r \<longrightarrow> probe m \<noteq> 0"
        using 1(2) [OF True mid_def refl _ _ _ 1(4,5)] 1(3) step by simp
      moreover have "0 < probe m" if "m \<le> mid" for m using 1(5) [OF that mid(2) pos] .
      ultimately show ?thesis by (metis less_irrefl not_less_eq_eq Suc_eq_plus1)
    qed
  qed simp
qed

lemma lower_bound_loop_correct:
  assumes "l \<le> h" and "\<And>i j. i \<le> j \<Longrightarrow> j < h \<Longrightarrow> below j \<Longrightarrow> below i"
  shows "l \<le> lower_bound_loop below l h \<and> lower_bound_loop below l h \<le> h \<and>
    (\<forall>i. l \<le> i \<and> i < h \<longrightarrow> (below i \<longleftrightarrow> i < lower_bound_loop below l h))"
  using assms
proof (induction below l h rule: lower_bound_loop.induct)
  case (1 below l h)
  define mid where "mid = l + (h - l) div 2"
  show ?case
  proof (cases "l < h")
    case True
    then have mid: "l \<le> mid" "mid < h" by (auto simp: mid_def)
    have step: "lower_bound_loop below l h =
        (if below mid then lower_bound_loop below (mid + 1) h else lower_bound_loop below l mid)"
      using True by (subst lower_bound_loop.simps) (simp add: Let_def mid_def)
    show ?thesis
    proof (cases "below mid")
      case b: True
      have low: "below i" if "i \<le> mid" for i using 1(4) [OF that mid(2) b] .
      let ?r = "lower_bound_loop below (mid + 1) h"
      have r: "mid < ?r" "?r \<le> h" "\<forall>i. mid < i \<and> i < h \<longrightarrow> (below i \<longleftrightarrow> i < ?r)"
        using 1(1) [OF True mid_def b _ 1(4)] mid by (simp_all add: Suc_le_eq)
      have "below i \<longleftrightarrow> i < ?r" if "i < h" for i
        using low [of i] r(1) r(3) [rule_format, of i] that by (cases "i \<le> mid") auto
      with r step b mid show ?thesis by simp
    next
      case b: False
      have high: "\<not> below i" if "mid \<le> i" "i < h" for i using 1(4) that b by blast
      let ?r = "lower_bound_loop below l mid"
      have mono: "below i" if "i \<le> j" "j < mid" "below j" for i j
        using 1(4) [OF that(1) _ that(3)] that(2) mid by simp
      have r: "l \<le> ?r" "?r \<le> mid" "\<forall>i. l \<le> i \<and> i < mid \<longrightarrow> (below i \<longleftrightarrow> i < ?r)"
        using 1(2) [OF True mid_def b mid(1) mono] by auto
      then have "\<forall>i. l \<le> i \<and> i < h \<longrightarrow> (below i \<longleftrightarrow> i < ?r)" using high by (metis less_le_trans not_le)
      with r step b mid show ?thesis by simp
    qed
  next
    case False
    then show ?thesis using 1(3) by (subst (1 2 3) lower_bound_loop.simps) auto
  qed
qed

subsection \<open>Indices that are in order\<close>

text \<open>The first \<open>n\<close> cells of an index name the entries \<open>0..<n\<close> once each, with their keys ascending.\<close>

definition sorted_index :: "('k \<Rightarrow> 'k \<Rightarrow> int) \<Rightarrow> (nat \<Rightarrow> 'k) \<Rightarrow> nat \<Rightarrow> nat list \<Rightarrow> bool" where
  "sorted_index cmp key n ind \<longleftrightarrow> n \<le> length ind \<and> distinct (take n ind) \<and> set (take n ind) = {..<n} \<and>
     sorted_wrt (\<lambda>i j. cmp (key i) (key j) \<le> 0) (take n ind)"

locale key_order =
  fixes cmp :: "'k \<Rightarrow> 'k \<Rightarrow> int"
  assumes cmp_eq: "cmp a b = 0 \<longleftrightarrow> a = b"
    and cmp_swap: "cmp a b < 0 \<longleftrightarrow> 0 < cmp b a"
    and cmp_trans: "cmp a b \<le> 0 \<Longrightarrow> cmp b c \<le> 0 \<Longrightarrow> cmp a c \<le> 0"
begin

lemma cmp_total: "\<not> cmp a b \<le> 0 \<Longrightarrow> cmp b a \<le> 0"
  using cmp_swap [of b a] by linarith

lemma cmp_trans_less: "cmp a b < 0 \<Longrightarrow> cmp b c \<le> 0 \<Longrightarrow> cmp a c < 0"
  using cmp_trans [of a b c] cmp_trans [of b c a] cmp_eq [of a c] cmp_swap by (metis leD le_less)

lemma cmp_trans_less2: "cmp a b \<le> 0 \<Longrightarrow> cmp b c < 0 \<Longrightarrow> cmp a c < 0"
  using cmp_trans [of a b c] cmp_trans [of c a b] cmp_eq [of a c] cmp_swap by (metis leD le_less)

lemma sift_down_sorted:
  fixes key :: "nat \<Rightarrow> 'k"
  defines "le \<equiv> \<lambda>i j. cmp (key i) (key j) \<le> 0"
  assumes "sorted_wrt le xs"
  shows "\<exists>zs. sift_down le (xs @ y # ys) (length xs) = zs @ ys \<and> length zs = Suc (length xs) \<and>
    set zs = insert y (set xs) \<and> (distinct (y # xs) \<longrightarrow> distinct zs) \<and> sorted_wrt le zs"
proof -
  obtain us vs where s: "xs = us @ vs" "sift_down le (xs @ y # ys) (length xs) = us @ y # vs @ ys"
    "us \<noteq> [] \<longrightarrow> le (last us) y" "\<forall>v \<in> set vs. \<not> le v y"
    using sift_down_insert by blast
  have us: "le u y" if u: "u \<in> set us" for u
  proof -
    obtain us' l where "us = us' @ [l]" using u by (cases us rule: rev_cases) auto
    with u s(1,3) assms(2) show ?thesis
      unfolding le_def by (auto simp: sorted_wrt_append intro: cmp_trans)
  qed
  have vs: "le y v" if "v \<in> set vs" for v using s(4) that cmp_total unfolding le_def by blast
  have "sorted_wrt le (us @ y # vs)"
    using assms(2) s(1) us vs unfolding le_def by (fastforce simp: sorted_wrt_append intro: cmp_trans)
  with s show ?thesis by (intro exI [of _ "us @ y # vs"]) auto
qed

lemma sort_indices_sorted:
  assumes "n \<le> length ind"
  shows "sorted_index cmp key n (sort_indices (\<lambda>i j. cmp (key i) (key j) \<le> 0) n ind) \<and>
    length (sort_indices (\<lambda>i j. cmp (key i) (key j) \<le> 0) n ind) = length ind"
  using assms
proof (induction n)
  case 0
  show ?case by (simp add: sorted_index_def sort_indices_def)
next
  case (Suc n)
  let ?le = "\<lambda>i j. cmp (key i) (key j) \<le> 0"
  define r where "r = sort_indices ?le n ind"
  have r: "sorted_index cmp key n r" "length r = length ind" using Suc by (simp_all add: r_def)
  have "r [n := n] = take n r @ n # drop (Suc n) r"
    using Suc.prems r(2) by (simp add: upd_conv_take_nth_drop)
  moreover have "length (take n r) = n" using Suc.prems r(2) by simp
  ultimately obtain zs where z: "sift_down ?le (r [n := n]) n = zs @ drop (Suc n) r" "length zs = Suc n"
    "set zs = insert n (set (take n r))" "distinct (n # take n r) \<longrightarrow> distinct zs" "sorted_wrt ?le zs"
    using sift_down_sorted [of key "take n r" n "drop (Suc n) r"] r(1) by (auto simp: sorted_index_def)
  have "sort_indices ?le (Suc n) ind = zs @ drop (Suc n) r"
    using z(1) by (simp add: sort_indices_def r_def)
  with z r Suc.prems show ?case
    by (auto simp: sorted_index_def lessThan_Suc)
qed

lemma sorted_index_nth:
  "sorted_index cmp key n ind \<Longrightarrow> i < j \<Longrightarrow> j < n \<Longrightarrow> cmp (key (ind ! i)) (key (ind ! j)) \<le> 0"
  by (auto simp: sorted_index_def sorted_wrt_iff_nth_less)

lemma sorted_index_mem: "sorted_index cmp key n ind \<Longrightarrow> i < n \<longleftrightarrow> (\<exists>m < n. ind ! m = i)"
proof -
  assume a: "sorted_index cmp key n ind"
  then have "i < n \<longleftrightarrow> i \<in> set (take n ind)" by (auto simp: sorted_index_def)
  also have "\<dots> \<longleftrightarrow> (\<exists>m < n. ind ! m = i)" 
  proof -
    have "length (take n ind) = n" using a by (simp add: sorted_index_def)
    then show ?thesis unfolding in_set_conv_nth by (metis nth_take)
  qed
  finally show ?thesis .
qed

lemma find_sound:
  assumes "sorted_index cmp key n ind"
    and "map_option ((!) ind) (search_index (\<lambda>m. cmp k (key (ind ! m))) 0 n) = Some i"
  shows "i < n \<and> key i = k"
  using assms search_index_sound [of "\<lambda>m. cmp k (key (ind ! m))" 0 n] sorted_index_mem [OF assms(1), of i]
  by (auto simp: cmp_eq)

lemma find_complete:
  assumes "sorted_index cmp key n ind"
    and "map_option ((!) ind) (search_index (\<lambda>m. cmp k (key (ind ! m))) 0 n) = None"
    and "i < n"
  shows "key i \<noteq> k"
proof -
  let ?probe = "\<lambda>m. cmp k (key (ind ! m))"
  have le: "cmp (key (ind ! i)) (key (ind ! j)) \<le> 0" if "i \<le> j" "j < n" for i j
    using sorted_index_nth [OF assms(1), of i j] that cmp_eq [of "key (ind ! i)" "key (ind ! i)"]
    by (cases "i = j") auto
  have mono: "?probe i < 0 \<Longrightarrow> ?probe j < 0" "0 < ?probe j \<Longrightarrow> 0 < ?probe i" if "i \<le> j" "j < n" for i j
    using le [OF that] cmp_trans_less [of k "key (ind ! i)" "key (ind ! j)"]
      cmp_trans_less2 [of "key (ind ! i)" "key (ind ! j)" k] cmp_swap by blast+
  then have "\<forall>m. 0 \<le> m \<and> m < n \<longrightarrow> ?probe m \<noteq> 0"
    using search_index_None [of ?probe 0 n] assms(2) by simp
  then show ?thesis using sorted_index_mem [OF assms(1), of i] assms(3) cmp_eq by auto
qed

lemma find_unique:
  assumes "sorted_index cmp key n ind" and "inj_on key {..<n}" and "i < n"
  shows "map_option ((!) ind) (search_index (\<lambda>m. cmp (key i) (key (ind ! m))) 0 n) = Some i"
proof (cases "map_option ((!) ind) (search_index (\<lambda>m. cmp (key i) (key (ind ! m))) 0 n)")
  case None
  then show ?thesis using find_complete [OF assms(1) None assms(3)] by simp
next
  case (Some j)
  then show ?thesis using find_sound [OF assms(1) Some] assms(2,3) by (auto dest: inj_onD)
qed

end

interpretation names: key_order c_strcmp
proof
  show "c_strcmp a b = 0 \<longleftrightarrow> a = b" for a b
    by (induction a b rule: c_strcmp.induct) auto
  show "c_strcmp a b < 0 \<longleftrightarrow> 0 < c_strcmp b a" for a b
  proof (induction a b rule: c_strcmp.induct)
    case (4 c cs d ds)
    have "c \<noteq> d \<Longrightarrow> (of_char c :: nat) \<noteq> of_char d" by (metis char_of_char)
    with 4 show ?case by auto
  qed auto
  show "c_strcmp a c \<le> 0" if "c_strcmp a b \<le> 0" "c_strcmp b c \<le> 0" for a b c
    using that
  proof (induction a b arbitrary: c rule: c_strcmp.induct)
    case (4 x xs y ys)
    then show ?case
      by (cases c) (auto split: if_splits)
  next
    case (2 y ys)
    then show ?case by (cases c) auto
  qed auto
qed

interpretation ids: key_order id_compare
  by unfold_locales (auto simp: id_compare_def split: if_splits)

lemma id_compare_le: "id_compare i j \<le> 0 \<longleftrightarrow> i \<le> j"
  by (auto simp: id_compare_def)

subsection \<open>Rebuilding and finding\<close>

lemma grow_index:
  assumes "0 < n" and "n \<le> mx" and "mx * 8 < 2 ^ 64" and "\<forall>b \<le> mx * 8. realloc_ok b"
  shows "\<exists>ind1. grow_heap_array realloc_ok (0::nat) 8 mx n ind = Some ind1 \<and> n \<le> length ind1"
proof (cases "length ind < n")
  case True
  show ?thesis using grow_heap_array_ok [OF assms(1,2) _ assms(3) True assms(4), of 0] by force
next
  case False
  then show ?thesis using assms(1) by (simp add: grow_heap_array_def Let_def)
qed

lemma rebuild_name_index_sorted:
  assumes "rebuild_sorted_name_index ok mx name_at n ind = Some ind1"
  shows "sorted_index c_strcmp name_at n ind1"
proof (cases "n = 0")
  case False
  then obtain ind2 where g: "grow_heap_array ok 0 8 mx n ind = Some ind2"
    and i: "ind1 = sort_indices (\<lambda>l r. c_strcmp (name_at l) (name_at r) \<le> 0) n ind2"
    using assms by (auto simp: rebuild_sorted_name_index_def split: option.splits)
  show ?thesis unfolding i using names.sort_indices_sorted [of n ind2 name_at] grow_heap_array_SomeD [OF g] by blast
qed (simp add: sorted_index_def)

lemma rebuild_id_index_sorted:
  assumes "rebuild_sorted_id_index ok mx id_at n ind = Some ind1"
  shows "sorted_index id_compare id_at n ind1"
proof (cases "n = 0")
  case False
  then obtain ind2 where g: "grow_heap_array ok 0 8 mx n ind = Some ind2"
    and i: "ind1 = sort_indices (\<lambda>l r. id_compare (id_at l) (id_at r) \<le> 0) n ind2"
    using assms by (auto simp: rebuild_sorted_id_index_def id_compare_le split: option.splits)
  show ?thesis unfolding i using ids.sort_indices_sorted [of n ind2 id_at] grow_heap_array_SomeD [OF g] by blast
qed (simp add: sorted_index_def)

lemma find_name_in_sorted:
  assumes "sorted_index c_strcmp name_at n ind"
  shows "case find_name_index_entry ind n name name_at of
      Some i \<Rightarrow> i < n \<and> name_at i = name
    | None \<Rightarrow> (\<forall>i < n. name_at i \<noteq> name)"
proof (cases "n = 0")
  case False
  moreover have "n \<le> length ind" using assms unfolding sorted_index_def by blast
  ultimately have "ind \<noteq> []" by fastforce
  with False have f: "find_name_index_entry ind n name name_at =
      map_option ((!) ind) (search_index (\<lambda>m. c_strcmp name (name_at (ind ! m))) 0 n)"
    by (simp add: find_name_index_entry_def)
  show ?thesis
  proof (cases "find_name_index_entry ind n name name_at")
    case None
    then show ?thesis using names.find_complete [OF assms None [unfolded f]] by simp
  next
    case (Some i)
    then show ?thesis using names.find_sound [OF assms Some [unfolded f]] by simp
  qed
qed (simp add: find_name_index_entry_def)

lemma find_id_in_sorted:
  assumes "sorted_index id_compare id_at n ind" and "0 < k"
  shows "case find_instance_id_index_entry ind n k id_at of
      Some i \<Rightarrow> i < n \<and> id_at i = k
    | None \<Rightarrow> (\<forall>i < n. id_at i \<noteq> k)"
proof (cases "n = 0")
  case False
  moreover have "n \<le> length ind" using assms unfolding sorted_index_def by blast
  ultimately have "ind \<noteq> []" by fastforce
  with False assms(2) have f: "find_instance_id_index_entry ind n k id_at =
      map_option ((!) ind) (search_index (\<lambda>m. id_compare k (id_at (ind ! m))) 0 n)"
    by (simp add: find_instance_id_index_entry_def)
  show ?thesis
  proof (cases "find_instance_id_index_entry ind n k id_at")
    case None
    then show ?thesis using ids.find_complete [OF assms(1) None [unfolded f]] by simp
  next
    case (Some i)
    then show ?thesis using ids.find_sound [OF assms(1) Some [unfolded f]] by simp
  qed
qed (simp add: find_instance_id_index_entry_def)

text \<open>
  The instance index refines a search of the table: rebuilding it succeeds for every table within
  the limit, whatever the index held before, and then looking up a positive id by bisection finds
  an entry with that id when the table has one and nothing otherwise.
\<close>

theorem instance_index_refines_search:
  assumes "n \<le> mx" and "mx * 8 < 2 ^ 64" and "\<forall>b \<le> mx * 8. realloc_ok b" and "0 < k"
  shows "\<exists>ind1. rebuild_sorted_id_index realloc_ok mx id_at n ind = Some ind1 \<and>
    (case find_instance_id_index_entry ind1 n k id_at of
       Some i \<Rightarrow> i < n \<and> id_at i = k
     | None \<Rightarrow> (\<forall>i < n. id_at i \<noteq> k))"
proof -
  obtain ind1 where r: "rebuild_sorted_id_index realloc_ok mx id_at n ind = Some ind1"
  proof (cases "n = 0")
    case True
    then show ?thesis using that by (simp add: rebuild_sorted_id_index_def)
  next
    case False
    then show ?thesis
      using grow_index [OF _ assms(1-3), of ind] that by (auto simp: rebuild_sorted_id_index_def)
  qed
  with find_id_in_sorted [OF rebuild_id_index_sorted [OF r] assms(4)] show ?thesis by blast
qed

theorem instance_index_refines_search_witness:
  "\<exists>ind1. rebuild_sorted_id_index (\<lambda>_. True) 128 ((!) [7, 3, 5]) 3 [] = Some ind1 \<and>
    (case find_instance_id_index_entry ind1 3 5 ((!) [7, 3, 5]) of
       Some i \<Rightarrow> i < 3 \<and> [7, 3, 5] ! i = (5::int)
     | None \<Rightarrow> (\<forall>i < 3. [7, 3, 5] ! i \<noteq> (5::int)))"
  by (rule instance_index_refines_search) simp_all

end
