(* ===== verification/Registry.thy ===== *)
theory Registry
  imports Sorted_Index "HOL-Library.AList"
begin

text \<open>
  The registries of \<^verbatim>\<open>src/shell.c\<close>: commands, value resolvers and pipeline stages with their sorted
  name indices, aliases and functions in plain tables, and the generation counter that tells the
  completion caches that something changed.  Sizes are those of a 64-bit POSIX build.  A table cell
  past the count holds whatever was there before; a missing handler is \<open>None\<close>, the null pointer.
\<close>

subsection \<open>State\<close>

datatype builtin_kind = BUILTIN_PURE | BUILTIN_MUTANT | BUILTIN_MIXED

text \<open>\<open>ArkshValueResolverDef\<close> and \<open>ArkshPipelineStageDef\<close>; \<open>ArkshCommandDef\<close> adds the kind.\<close>

record 'f reg_def =
  d_name :: string
  d_description :: string
  d_fn :: "'f option"
  d_is_plugin :: bool
  d_owner :: int

record 'f command_def = "'f reg_def" +
  d_kind :: builtin_kind

record 'd table =
  t_cells :: "'d list"
  t_count :: nat
  t_index :: "nat list"

record shell_alias =
  a_name :: string
  a_value :: string

record shell_function =
  f_name :: string
  f_params :: "string list"
  f_param_count :: int
  f_body :: string
  f_source :: string

record 'f shell =
  commands :: "'f command_def table"
  value_resolvers :: "'f reg_def table"
  pipeline_stages :: "'f reg_def table"
  aliases :: "shell_alias list"
  alias_count :: nat
  shell_functions :: "shell_function list"
  function_count :: nat
  plugin_active :: "bool list"
  loading_plugin_index :: int
  completion_generation :: nat

definition zero_def :: "'f reg_def" where
  "zero_def = \<lparr>d_name = [], d_description = [], d_fn = None, d_is_plugin = False, d_owner = 0\<rparr>"

definition zero_command :: "'f command_def" where
  "zero_command = \<lparr>d_name = [], d_description = [], d_fn = None, d_is_plugin = False, d_owner = 0,
     d_kind = BUILTIN_PURE\<rparr>"

definition zero_alias :: shell_alias where
  "zero_alias = \<lparr>a_name = [], a_value = []\<rparr>"

definition max_function_params :: nat where
  "max_function_params = 8"

definition zero_function :: shell_function where
  "zero_function = \<lparr>f_name = [], f_params = replicate max_function_params [], f_param_count = 0,
     f_body = [], f_source = []\<rparr>"

subsection \<open>Names\<close>

definition is_valid_identifier :: "string \<Rightarrow> bool" where
  "is_valid_identifier name \<longleftrightarrow>
     (case name of
        [] \<Rightarrow> False
      | c # cs \<Rightarrow> (c_isalpha c \<or> c = CHR ''_'') \<and> list_all (\<lambda>d. c_isalnum d \<or> d = CHR ''_'') cs)"

definition is_valid_alias_name :: "string \<Rightarrow> bool" where
  "is_valid_alias_name name \<longleftrightarrow>
     name \<noteq> [] \<and> list_all (\<lambda>c. \<not> c_isspace c \<and> c \<notin> set ''|<>()=,'') name"

subsection \<open>Indexed tables\<close>

definition mark_completion_cache_dirty :: "'f shell \<Rightarrow> 'f shell" where
  "mark_completion_cache_dirty shell =
     (let g = (completion_generation shell + 1) mod 2 ^ 64 in
      shell\<lparr>completion_generation := (if g = 0 then 1 else g)\<rparr>)"

definition name_at :: "('f, 'z) reg_def_scheme table \<Rightarrow> nat \<Rightarrow> string" where
  "name_at t i = d_name (t_cells t ! i)"

definition rebuild_name_index ::
  "(nat \<Rightarrow> bool) \<Rightarrow> nat \<Rightarrow> ('f, 'z) reg_def_scheme table \<Rightarrow> ('f, 'z) reg_def_scheme table option" where
  "rebuild_name_index realloc_ok max_entries t =
     map_option (\<lambda>ind. t\<lparr>t_index := ind\<rparr>)
       (rebuild_sorted_name_index realloc_ok max_entries (name_at t) (t_count t) (t_index t))"

definition find_entry :: "('f, 'z) reg_def_scheme table \<Rightarrow> string \<Rightarrow> ('f, 'z) reg_def_scheme option" where
  "find_entry t name =
     map_option ((!) (t_cells t)) (find_name_index_entry (t_index t) (t_count t) name (name_at t))"

definition plugin_index_is_active :: "'f shell \<Rightarrow> int \<Rightarrow> bool" where
  "plugin_index_is_active shell plugin_index \<longleftrightarrow>
     plugin_index < 0 \<or>
     nat plugin_index < length (plugin_active shell) \<and> plugin_active shell ! nat plugin_index"

definition visible_entry ::
  "'f shell \<Rightarrow> ('f, 'z) reg_def_scheme option \<Rightarrow> ('f, 'z) reg_def_scheme option" where
  "visible_entry shell found =
     (case found of
        None \<Rightarrow> None
      | Some d \<Rightarrow>
          if d_is_plugin d \<and> \<not> plugin_index_is_active shell (d_owner d) then None else Some d)"

definition arksh_shell_find_command :: "'f shell \<Rightarrow> string \<Rightarrow> 'f command_def option" where
  "arksh_shell_find_command shell name = visible_entry shell (find_entry (commands shell) name)"

definition arksh_shell_find_value_resolver :: "'f shell \<Rightarrow> string \<Rightarrow> 'f reg_def option" where
  "arksh_shell_find_value_resolver shell name = visible_entry shell (find_entry (value_resolvers shell) name)"

definition arksh_shell_find_pipeline_stage :: "'f shell \<Rightarrow> string \<Rightarrow> 'f reg_def option" where
  "arksh_shell_find_pipeline_stage shell name = visible_entry shell (find_entry (pipeline_stages shell) name)"

subsection \<open>Registration\<close>

definition max_commands :: nat where "max_commands = 64"
definition max_value_resolvers :: nat where "max_value_resolvers = 32"
definition max_pipeline_stage_handlers :: nat where "max_pipeline_stage_handlers = 64"
definition max_aliases :: nat where "max_aliases = 32"
definition max_functions :: nat where "max_functions = 32"
definition max_description :: nat where "max_description = 160"

definition names_of :: "('f, 'z) reg_def_scheme table \<Rightarrow> string list" where
  "names_of t = map d_name (take (t_count t) (t_cells t))"

text \<open>Position of the first entry with a name: the linear scans in front of every registration.\<close>

fun scan_names :: "string list \<Rightarrow> string \<Rightarrow> nat option" where
  "scan_names [] name = None"
| "scan_names (n # ns) name = (if n = name then Some 0 else map_option Suc (scan_names ns name))"

text \<open>
  Writing the entry behind the last one, counting it and rebuilding the index; when that fails the
  entry is taken back and its cell cleared.
\<close>

definition append_entry ::
  "(nat \<Rightarrow> bool) \<Rightarrow> nat \<Rightarrow> ('f, 'z) reg_def_scheme \<Rightarrow> ('f, 'z) reg_def_scheme table \<Rightarrow>
   ('f, 'z) reg_def_scheme \<Rightarrow> bool \<times> ('f, 'z) reg_def_scheme table" where
  "append_entry realloc_ok max_entries zero t d =
     (let n = t_count t; t1 = t\<lparr>t_cells := (t_cells t)[n := d], t_count := Suc n\<rparr> in
      case rebuild_name_index realloc_ok max_entries t1 of
        None \<Rightarrow> (False, t\<lparr>t_cells := (t_cells t)[n := zero]\<rparr>)
      | Some t2 \<Rightarrow> (True, t2))"

definition arksh_shell_register_command ::
  "(nat \<Rightarrow> bool) \<Rightarrow> 'f shell \<Rightarrow> string \<Rightarrow> string \<Rightarrow> 'f option \<Rightarrow> bool \<Rightarrow> int \<times> 'f shell" where
  "arksh_shell_register_command realloc_ok shell name description fn is_plugin_command =
     (if fn = None then (1, shell)
      else
        (let t = commands shell in
         case grow_heap_array realloc_ok zero_command 248 max_commands (t_count t + 1) (t_cells t) of
           None \<Rightarrow> (1, shell)
         | Some cells1 \<Rightarrow>
             (let t1 = t\<lparr>t_cells := cells1\<rparr> in
              if scan_names (names_of t1) name \<noteq> None then (1, shell\<lparr>commands := t1\<rparr>)
              else
                (case append_entry realloc_ok max_commands zero_command t1
                        \<lparr>d_name = copy_string 64 name,
                         d_description = copy_string max_description description,
                         d_fn = fn, d_is_plugin = is_plugin_command,
                         d_owner = (if is_plugin_command then loading_plugin_index shell else -1),
                         d_kind = BUILTIN_PURE\<rparr> of
                   (False, t2) \<Rightarrow> (1, shell\<lparr>commands := t2\<rparr>)
                 | (True, t2) \<Rightarrow> (0, mark_completion_cache_dirty (shell\<lparr>commands := t2\<rparr>))))))"

definition register_builtin ::
  "(nat \<Rightarrow> bool) \<Rightarrow> 'f shell \<Rightarrow> string \<Rightarrow> string \<Rightarrow> 'f option \<Rightarrow> builtin_kind \<Rightarrow> int \<times> 'f shell" where
  "register_builtin realloc_ok shell name description fn kind =
     (case arksh_shell_register_command realloc_ok shell name description fn False of
        (status, shell1) \<Rightarrow>
          if status \<noteq> 0 then (1, shell1)
          else
            (let t = commands shell1; i = t_count t - 1 in
             (0, shell1\<lparr>commands :=
                t\<lparr>t_cells := (t_cells t)[i := (t_cells t ! i)\<lparr>d_kind := kind\<rparr>]\<rparr>\<rparr>)))"

definition update_description :: "string option \<Rightarrow> ('f, 'z) reg_def_scheme \<Rightarrow> ('f, 'z) reg_def_scheme" where
  "update_description description d =
     (case description of
        None \<Rightarrow> d
      | Some s \<Rightarrow> if s = [] then d else d\<lparr>d_description := copy_string max_description s\<rparr>)"

definition arksh_shell_register_value_resolver ::
  "(nat \<Rightarrow> bool) \<Rightarrow> 'f shell \<Rightarrow> string \<Rightarrow> string option \<Rightarrow> 'f option \<Rightarrow> bool \<Rightarrow> int \<times> 'f shell" where
  "arksh_shell_register_value_resolver realloc_ok shell name description fn is_plugin_resolver =
     (let t = value_resolvers shell;
          owner = (if is_plugin_resolver then loading_plugin_index shell else -1) in
      if fn = None \<or> \<not> is_valid_identifier name then (1, shell)
      else
        (case scan_names (names_of t) name of
           Some i \<Rightarrow>
             (let t1 = t\<lparr>t_cells := (t_cells t)[i := (update_description description (t_cells t ! i))
                           \<lparr>d_fn := fn, d_is_plugin := is_plugin_resolver, d_owner := owner\<rparr>]\<rparr> in
              case rebuild_name_index realloc_ok max_value_resolvers t1 of
                None \<Rightarrow> (1, shell\<lparr>value_resolvers := t1\<rparr>)
              | Some t2 \<Rightarrow> (0, mark_completion_cache_dirty (shell\<lparr>value_resolvers := t2\<rparr>)))
         | None \<Rightarrow>
             (case grow_heap_array realloc_ok zero_def 304 max_value_resolvers (t_count t + 1) (t_cells t) of
                None \<Rightarrow> (1, shell)
              | Some cells1 \<Rightarrow>
                  (case append_entry realloc_ok max_value_resolvers zero_def (t\<lparr>t_cells := cells1\<rparr>)
                          \<lparr>d_name = copy_string 128 name,
                           d_description = copy_string max_description (case description of None \<Rightarrow> [] | Some s \<Rightarrow> s),
                           d_fn = fn, d_is_plugin = is_plugin_resolver, d_owner = owner\<rparr> of
                     (False, t2) \<Rightarrow> (1, shell\<lparr>value_resolvers := t2\<rparr>)
                   | (True, t2) \<Rightarrow> (0, mark_completion_cache_dirty (shell\<lparr>value_resolvers := t2\<rparr>))))))"

definition arksh_shell_register_pipeline_stage ::
  "(nat \<Rightarrow> bool) \<Rightarrow> 'f shell \<Rightarrow> string \<Rightarrow> string option \<Rightarrow> 'f option \<Rightarrow> bool \<Rightarrow> int \<times> 'f shell" where
  "arksh_shell_register_pipeline_stage realloc_ok shell name description fn is_plugin_stage =
     (let t = pipeline_stages shell;
          owner = (if is_plugin_stage then loading_plugin_index shell else -1) in
      if \<not> is_valid_identifier name then (1, shell)
      else
        (case scan_names (names_of t) name of
           Some i \<Rightarrow>
             (let d = update_description description (t_cells t ! i);
                  d1 = (if fn \<noteq> None then d\<lparr>d_fn := fn\<rparr> else d);
                  t1 = t\<lparr>t_cells := (t_cells t)[i := d1\<lparr>d_is_plugin := is_plugin_stage, d_owner := owner\<rparr>]\<rparr> in
              case rebuild_name_index realloc_ok max_pipeline_stage_handlers t1 of
                None \<Rightarrow> (1, shell\<lparr>pipeline_stages := t1\<rparr>)
              | Some t2 \<Rightarrow> (0, mark_completion_cache_dirty (shell\<lparr>pipeline_stages := t2\<rparr>)))
         | None \<Rightarrow>
             (case grow_heap_array realloc_ok zero_def 304 max_pipeline_stage_handlers (t_count t + 1) (t_cells t) of
                None \<Rightarrow> (1, shell)
              | Some cells1 \<Rightarrow>
                  (case append_entry realloc_ok max_pipeline_stage_handlers zero_def (t\<lparr>t_cells := cells1\<rparr>)
                          \<lparr>d_name = copy_string 128 name,
                           d_description = copy_string max_description (case description of None \<Rightarrow> [] | Some s \<Rightarrow> s),
                           d_fn = fn, d_is_plugin = is_plugin_stage, d_owner = owner\<rparr> of
                     (False, t2) \<Rightarrow> (1, shell\<lparr>pipeline_stages := t2\<rparr>)
                   | (True, t2) \<Rightarrow> (0, mark_completion_cache_dirty (shell\<lparr>pipeline_stages := t2\<rparr>))))))"

subsection \<open>Aliases and functions\<close>

definition find_alias_entry :: "'f shell \<Rightarrow> string \<Rightarrow> nat option" where
  "find_alias_entry shell name = scan_names (map a_name (take (alias_count shell) (aliases shell))) name"

definition arksh_shell_get_alias :: "'f shell \<Rightarrow> string \<Rightarrow> string option" where
  "arksh_shell_get_alias shell name =
     map_option (\<lambda>i. a_value (aliases shell ! i)) (find_alias_entry shell name)"

definition arksh_shell_set_alias ::
  "(nat \<Rightarrow> bool) \<Rightarrow> 'f shell \<Rightarrow> string \<Rightarrow> string \<Rightarrow> int \<times> 'f shell" where
  "arksh_shell_set_alias realloc_ok shell name v =
     (if \<not> is_valid_alias_name name then (1, shell)
      else
        (case find_alias_entry shell name of
           Some i \<Rightarrow>
             (0, mark_completion_cache_dirty
                   (shell\<lparr>aliases := (aliases shell)[i := (aliases shell ! i)\<lparr>a_value := copy_string 1024 v\<rparr>]\<rparr>))
         | None \<Rightarrow>
             (let n = alias_count shell in
              case grow_heap_array realloc_ok zero_alias 1088 max_aliases (n + 1) (aliases shell) of
                None \<Rightarrow> (1, shell)
              | Some cells1 \<Rightarrow>
                  (0, mark_completion_cache_dirty
                        (shell\<lparr>aliases := cells1[n := \<lparr>a_name = copy_string 64 name, a_value = copy_string 1024 v\<rparr>],
                               alias_count := n + 1\<rparr>)))))"

definition arksh_shell_unset_alias :: "'f shell \<Rightarrow> string \<Rightarrow> int \<times> 'f shell" where
  "arksh_shell_unset_alias shell name =
     (if \<not> is_valid_alias_name name then (1, shell)
      else
        (case find_alias_entry shell name of
           None \<Rightarrow> (1, shell)
         | Some i \<Rightarrow>
             (let n = alias_count shell; cells = aliases shell; remaining = n - i - 1 in
              (0, mark_completion_cache_dirty
                    (shell\<lparr>aliases := (if remaining > 0
                              then take i cells @ take remaining (drop (i + 1) cells) @ drop (n - 1) cells
                              else cells),
                           alias_count := n - 1\<rparr>)))))"

definition find_function_entry :: "'f shell \<Rightarrow> string \<Rightarrow> nat option" where
  "find_function_entry shell name =
     scan_names (map f_name (take (function_count shell) (shell_functions shell))) name"

definition store_function :: "shell_function \<Rightarrow> shell_function \<Rightarrow> shell_function" where
  "store_function node entry =
     (let n = min (nat (f_param_count node)) max_function_params in
      \<lparr>f_name = copy_string 128 (f_name node),
       f_params = map (copy_string 128) (take n (f_params node)) @ drop n (f_params entry),
       f_param_count = f_param_count node,
       f_body = copy_string 2048 (f_body node),
       f_source = copy_string 2048 (f_source node)\<rparr>)"

definition arksh_shell_set_function ::
  "(nat \<Rightarrow> bool) \<Rightarrow> 'f shell \<Rightarrow> shell_function \<Rightarrow> int \<times> 'f shell" where
  "arksh_shell_set_function realloc_ok shell node =
     (if \<not> is_valid_identifier (f_name node) then (1, shell)
      else
        (case find_function_entry shell (f_name node) of
           Some i \<Rightarrow>
             (0, mark_completion_cache_dirty
                   (shell\<lparr>shell_functions := (shell_functions shell)[i := store_function node (shell_functions shell ! i)]\<rparr>))
         | None \<Rightarrow>
             (let n = function_count shell in
              case grow_heap_array realloc_ok zero_function 5252 max_functions (n + 1) (shell_functions shell) of
                None \<Rightarrow> (1, shell)
              | Some cells1 \<Rightarrow>
                  (0, mark_completion_cache_dirty
                        (shell\<lparr>shell_functions := cells1[n := store_function node zero_function],
                               function_count := n + 1\<rparr>)))))"

subsection \<open>Scanning\<close>

lemma scan_names_Some: "scan_names ns x = Some i \<Longrightarrow> i < length ns \<and> ns ! i = x"
  by (induction ns arbitrary: i) (auto split: if_splits)

lemma scan_names_None: "scan_names ns x = None \<longleftrightarrow> x \<notin> set ns"
  by (induction ns) auto

lemma scan_names_nth:
  assumes "distinct ns" and "i < length ns"
  shows "scan_names ns (ns ! i) = Some i"
proof (cases "scan_names ns (ns ! i)")
  case None
  then show ?thesis using assms by (simp add: scan_names_None)
next
  case (Some j)
  then show ?thesis using scan_names_Some [OF Some] assms nth_eq_iff_index_eq [of ns j i] by simp
qed

subsection \<open>Tables as maps\<close>

text \<open>What a table means: the map from the names of its entries to the entries.\<close>

definition table_map :: "('f, 'z) reg_def_scheme table \<Rightarrow> string \<Rightarrow> ('f, 'z) reg_def_scheme option" where
  "table_map t = map_of (map (\<lambda>d. (d_name d, d)) (take (t_count t) (t_cells t)))"

definition table_ok :: "('f, 'z) reg_def_scheme table \<Rightarrow> bool" where
  "table_ok t \<longleftrightarrow> t_count t \<le> length (t_cells t) \<and> distinct (names_of t) \<and>
     sorted_index c_strcmp (name_at t) (t_count t) (t_index t)"

lemma length_names_of: "t_count t \<le> length (t_cells t) \<Longrightarrow> length (names_of t) = t_count t"
  by (simp add: names_of_def)

lemma nth_names_of: "t_count t \<le> length (t_cells t) \<Longrightarrow> i < t_count t \<Longrightarrow> names_of t ! i = name_at t i"
  by (simp add: names_of_def name_at_def)

lemma table_map_Some:
  assumes "table_ok t"
  shows "table_map t x = Some d \<longleftrightarrow> (\<exists>i < t_count t. t_cells t ! i = d \<and> d_name d = x)"
proof -
  have len: "length (take (t_count t) (t_cells t)) = t_count t" using assms by (simp add: table_ok_def)
  have "distinct (map fst (map (\<lambda>d. (d_name d, d)) (take (t_count t) (t_cells t))))"
    using assms by (simp add: table_ok_def names_of_def comp_def)
  then have "table_map t x = Some d \<longleftrightarrow> d \<in> set (take (t_count t) (t_cells t)) \<and> d_name d = x"
    unfolding table_map_def by (auto simp: map_of_eq_Some_iff)
  then show ?thesis using len unfolding in_set_conv_nth by (metis nth_take)
qed

lemma table_map_None: "table_map t x = None \<longleftrightarrow> x \<notin> set (names_of t)"
  by (auto simp: table_map_def names_of_def map_of_eq_None_iff image_image)

lemma find_entry_map:
  assumes "table_ok t"
  shows "find_entry t = table_map t"
proof
  fix x
  have f: "case find_name_index_entry (t_index t) (t_count t) x (name_at t) of
      Some i \<Rightarrow> i < t_count t \<and> name_at t i = x
    | None \<Rightarrow> (\<forall>i < t_count t. name_at t i \<noteq> x)"
    using find_name_in_sorted assms by (simp add: table_ok_def)
  show "find_entry t x = table_map t x"
  proof (cases "find_name_index_entry (t_index t) (t_count t) x (name_at t)")
    case None
    with f have "\<nexists>d. table_map t x = Some d"
      using table_map_Some [OF assms] by (auto simp: name_at_def)
    with None show ?thesis by (simp add: find_entry_def)
  next
    case (Some i)
    with f have "table_map t x = Some (t_cells t ! i)"
      using table_map_Some [OF assms] by (auto simp: name_at_def)
    with Some show ?thesis by (simp add: find_entry_def)
  qed
qed

lemma sorted_index_cong:
  assumes "sorted_index cmp key n ind" and "\<And>i. i < n \<Longrightarrow> key' i = key i"
  shows "sorted_index cmp key' n ind"
proof -
  have "\<forall>i \<in> set (take n ind). key' i = key i" using assms by (auto simp: sorted_index_def)
  then have "sorted_wrt (\<lambda>i j. cmp (key' i) (key' j) \<le> 0) (take n ind)"
    using assms(1) unfolding sorted_index_def by (auto intro: sorted_wrt_mono_rel [rotated])
  with assms(1) show ?thesis by (simp add: sorted_index_def)
qed

text \<open>Cells past the count do not matter.\<close>

lemma table_same_front:
  assumes "table_ok t" and "take (t_count t) cells' = take (t_count t) (t_cells t)"
    and "t_count t \<le> length cells'"
  shows "table_ok (t\<lparr>t_cells := cells'\<rparr>)" and "table_map (t\<lparr>t_cells := cells'\<rparr>) = table_map t"
    and "names_of (t\<lparr>t_cells := cells'\<rparr>) = names_of t"
proof -
  have "name_at (t\<lparr>t_cells := cells'\<rparr>) i = name_at t i" if "i < t_count t" for i
    using nth_take [OF that, of cells'] nth_take [OF that, of "t_cells t"] assms(2) by (simp add: name_at_def)
  then have "sorted_index c_strcmp (name_at (t\<lparr>t_cells := cells'\<rparr>)) (t_count t) (t_index t)"
    using assms(1) unfolding table_ok_def by (blast intro: sorted_index_cong)
  then show "table_ok (t\<lparr>t_cells := cells'\<rparr>)"
    using assms by (simp add: table_ok_def names_of_def)
qed (use assms in \<open>simp_all add: table_map_def names_of_def\<close>)

lemma rebuild_table:
  assumes "rebuild_name_index ok mx t = Some t2" and "t_count t \<le> length (t_cells t)"
    and "distinct (names_of t)"
  shows "table_ok t2" and "table_map t2 = table_map t" and "t_count t2 = t_count t" and "t_cells t2 = t_cells t"
proof -
  obtain ind where r: "rebuild_sorted_name_index ok mx (name_at t) (t_count t) (t_index t) = Some ind"
    and t2: "t2 = t\<lparr>t_index := ind\<rparr>"
    using assms(1) by (auto simp: rebuild_name_index_def)
  have "name_at t2 = name_at t" by (auto simp: t2 name_at_def)
  then show "table_ok t2"
    using rebuild_name_index_sorted [OF r] assms(2,3) by (simp add: table_ok_def t2 names_of_def)
qed (use assms in \<open>auto simp: rebuild_name_index_def table_map_def\<close>)

lemma append_entry_map:
  assumes "table_ok t" and "t_count t < length (t_cells t)" and "d_name d \<notin> set (names_of t)"
    and "append_entry ok mx z t d = (b, t2)"
  shows "table_ok t2 \<and> table_map t2 = (if b then (table_map t)(d_name d \<mapsto> d) else table_map t)"
proof -
  define n where "n = t_count t"
  define t1 where "t1 = t\<lparr>t_cells := (t_cells t)[n := d], t_count := Suc n\<rparr>"
  have tk: "take (Suc n) ((t_cells t)[n := d]) = take n (t_cells t) @ [d]"
    using assms(2) by (simp add: take_Suc_conv_app_nth n_def)
  then have names: "names_of t1 = names_of t @ [d_name d]" by (simp add: names_of_def t1_def n_def)
  have map: "table_map t1 = (table_map t)(d_name d \<mapsto> d)"
  proof
    fix x
    have "table_map t (d_name d) = None" using assms(3) by (simp add: table_map_None)
    then show "table_map t1 x = ((table_map t)(d_name d \<mapsto> d)) x"
      by (auto simp: table_map_def t1_def tk n_def [symmetric] map_add_def split: option.splits)
  qed
  show ?thesis
  proof (cases b)
    case True
    then have "rebuild_name_index ok mx t1 = Some t2"
      using assms(4) by (auto simp: append_entry_def Let_def t1_def n_def split: option.splits)
    moreover have "t_count t1 \<le> length (t_cells t1)" using assms(2) by (simp add: t1_def n_def)
    moreover have "distinct (names_of t1)" using assms(1,3) names by (simp add: table_ok_def)
    ultimately show ?thesis using rebuild_table map True by metis
  next
    case False
    then have "t2 = t\<lparr>t_cells := (t_cells t)[n := z]\<rparr>"
      using assms(4) by (auto simp: append_entry_def Let_def n_def split: option.splits)
    with table_same_front [OF assms(1), of "(t_cells t)[n := z]"] assms(2) False show ?thesis
      by (simp add: n_def)
  qed
qed

text \<open>Writing over an entry without renaming it.\<close>

lemma table_update:
  assumes "table_ok t" and "i < t_count t" and "d_name d = name_at t i"
  shows "table_ok (t\<lparr>t_cells := (t_cells t)[i := d]\<rparr>)"
    and "table_map (t\<lparr>t_cells := (t_cells t)[i := d]\<rparr>) = (table_map t)(d_name d \<mapsto> d)"
proof -
  let ?t = "t\<lparr>t_cells := (t_cells t)[i := d]\<rparr>"
  have len: "t_count t \<le> length (t_cells t)" using assms(1) by (simp add: table_ok_def)
  have na: "name_at ?t j = name_at t j" for j
    using assms(2,3) len by (cases "j = i") (auto simp: name_at_def)
  have names: "names_of ?t = names_of t"
    using len na by (intro nth_equalityI) (simp_all add: length_names_of nth_names_of)
  have "sorted_index c_strcmp (name_at ?t) (t_count t) (t_index t)"
    using assms(1) na unfolding table_ok_def by (blast intro: sorted_index_cong)
  then show ok: "table_ok ?t"
    using assms(1) names by (simp add: table_ok_def)
  show "table_map ?t = (table_map t)(d_name d \<mapsto> d)"
  proof
    fix x
    show "table_map ?t x = ((table_map t)(d_name d \<mapsto> d)) x"
    proof (cases "x = d_name d")
      case True
      then have "table_map ?t x = Some d" using table_map_Some [OF ok] assms(2) len by auto
      with True show ?thesis by simp
    next
      case False
      have "t_cells ?t ! j = e \<and> d_name e = x \<longleftrightarrow> t_cells t ! j = e \<and> d_name e = x" for j e
        using False assms(2,3) len by (cases "j = i") (auto simp: name_at_def)
      then have "table_map ?t x = Some e \<longleftrightarrow> table_map t x = Some e" for e
        unfolding table_map_Some [OF ok] table_map_Some [OF assms(1)] by simp
      then have "table_map ?t x = table_map t x" by (metis not_None_eq)
      with False show ?thesis by simp
    qed
  qed
qed

subsection \<open>Stores with keys\<close>

text \<open>
  The contract the named tables share: storing either succeeds and updates the looked-up map at the
  key, or fails and leaves it alone.
\<close>

fun store_all :: "('s \<Rightarrow> 'k \<Rightarrow> 'v \<Rightarrow> int \<times> 's) \<Rightarrow> 's \<Rightarrow> ('k \<times> 'v) list \<Rightarrow> 's" where
  "store_all store s [] = s"
| "store_all store s ((k, v) # kvs) = store_all store (snd (store s k v)) kvs"

fun stored :: "('s \<Rightarrow> 'k \<Rightarrow> 'v \<Rightarrow> int \<times> 's) \<Rightarrow> 's \<Rightarrow> ('k \<times> 'v) list \<Rightarrow> ('k \<times> 'v) list" where
  "stored store s [] = []"
| "stored store s ((k, v) # kvs) =
     (if fst (store s k v) = 0 then [(k, v)] else []) @ stored store (snd (store s k v)) kvs"

locale keyed_store =
  fixes ok :: "'s \<Rightarrow> bool" and fits :: "'k \<Rightarrow> 'v \<Rightarrow> bool"
    and lookup :: "'s \<Rightarrow> 'k \<Rightarrow> 'v option"
    and store :: "'s \<Rightarrow> 'k \<Rightarrow> 'v \<Rightarrow> int \<times> 's"
  assumes store_ok: "ok s \<Longrightarrow> fits k v \<Longrightarrow> ok (snd (store s k v))"
    and store_success: "ok s \<Longrightarrow> fits k v \<Longrightarrow> fst (store s k v) = 0 \<Longrightarrow>
      lookup (snd (store s k v)) = (lookup s)(k \<mapsto> v)"
    and store_failure: "ok s \<Longrightarrow> fits k v \<Longrightarrow> fst (store s k v) \<noteq> 0 \<Longrightarrow>
      lookup (snd (store s k v)) = lookup s"
begin

lemma store_all_ok: "ok s \<Longrightarrow> \<forall>(k, v) \<in> set kvs. fits k v \<Longrightarrow> ok (store_all store s kvs)"
  by (induction kvs arbitrary: s) (auto simp: store_ok)

text \<open>After any sequence of stores, a key has the value of the last store to it that succeeded.\<close>

lemma lookup_store_all:
  assumes "ok s" and "\<forall>(k, v) \<in> set kvs. fits k v"
  shows "lookup (store_all store s kvs) = lookup s ++ map_of (rev (stored store s kvs))"
  using assms
proof (induction kvs arbitrary: s)
  case (Cons kv kvs)
  obtain k v where kv: "kv = (k, v)" by (cases kv)
  have fit: "fits k v" "\<forall>(k, v) \<in> set kvs. fits k v" using Cons.prems by (auto simp: kv)
  have IH: "lookup (store_all store (snd (store s k v)) kvs) =
      lookup (snd (store s k v)) ++ map_of (rev (stored store (snd (store s k v)) kvs))"
    by (rule Cons.IH [OF store_ok [OF Cons.prems(1) fit(1)] fit(2)])
  show ?case
    using IH store_success [OF Cons.prems(1) fit(1)] store_failure [OF Cons.prems(1) fit(1)]
    by (cases "fst (store s k v) = 0") (simp_all add: kv map_of_append map_add_assoc)
qed simp

end

subsection \<open>Aliases\<close>

definition alias_list :: "'f shell \<Rightarrow> (string \<times> string) list" where
  "alias_list shell = map (\<lambda>a. (a_name a, a_value a)) (take (alias_count shell) (aliases shell))"

definition aliases_ok :: "'f shell \<Rightarrow> bool" where
  "aliases_ok shell \<longleftrightarrow> alias_count shell \<le> length (aliases shell) \<and> distinct (map fst (alias_list shell))"

lemma find_alias_list: "find_alias_entry shell name = scan_names (map fst (alias_list shell)) name"
  by (simp add: find_alias_entry_def alias_list_def comp_def)

lemma mark_dirty_select [simp]:
  "commands (mark_completion_cache_dirty shell) = commands shell"
  "value_resolvers (mark_completion_cache_dirty shell) = value_resolvers shell"
  "pipeline_stages (mark_completion_cache_dirty shell) = pipeline_stages shell"
  "aliases (mark_completion_cache_dirty shell) = aliases shell"
  "alias_count (mark_completion_cache_dirty shell) = alias_count shell"
  "shell_functions (mark_completion_cache_dirty shell) = shell_functions shell"
  "function_count (mark_completion_cache_dirty shell) = function_count shell"
  "plugin_active (mark_completion_cache_dirty shell) = plugin_active shell"
  by (simp_all add: mark_completion_cache_dirty_def Let_def)

lemma scan_map_of: "map_of al x = map_option (\<lambda>i. snd (al ! i)) (scan_names (map fst al) x)"
  by (induction al) (auto simp: option.map_comp comp_def)

lemma get_alias_map_of: "arksh_shell_get_alias shell = map_of (alias_list shell)"
proof
  fix x
  have "map_option (\<lambda>i. snd (alias_list shell ! i)) (find_alias_entry shell x) =
      map_option (\<lambda>i. a_value (aliases shell ! i)) (find_alias_entry shell x)"
    using scan_names_Some [of "map fst (alias_list shell)" x]
    by (cases "find_alias_entry shell x") (auto simp: find_alias_list alias_list_def)
  then show "arksh_shell_get_alias shell x = map_of (alias_list shell) x"
    by (simp add: arksh_shell_get_alias_def scan_map_of find_alias_list)
qed

lemma update_scan:
  "AList.update x v al = (case scan_names (map fst al) x of None \<Rightarrow> al @ [(x, v)] | Some i \<Rightarrow> al[i := (x, v)])"
  by (induction al) (auto split: option.split)

lemma delete_scan:
  "distinct (map fst al) \<Longrightarrow> AList.delete x al =
     (case scan_names (map fst al) x of None \<Rightarrow> al | Some i \<Rightarrow> take i al @ drop (Suc i) al)"
proof (induction al)
  case (Cons p al)
  show ?case
  proof (cases "fst p = x")
    case True
    moreover from True Cons.prems have "AList.delete x al = al" by (intro AList.delete_id) auto
    ultimately show ?thesis by (cases p) (simp add: AList.delete_eq)
  next
    case False
    then show ?thesis
      using Cons by (cases p; cases "scan_names (map fst al) x") (simp_all add: AList.delete_eq)
  qed
qed simp

lemma alias_list_front: "aliases_ok shell \<Longrightarrow> length (alias_list shell) = alias_count shell"
  by (simp add: aliases_ok_def alias_list_def)

lemma set_alias_list:
  assumes "aliases_ok shell" and "is_valid_alias_name name"
    and "arksh_shell_set_alias realloc_ok shell name v = (st, shell')"
  shows "(st = 0 \<and> alias_list shell' = (case find_alias_entry shell name of
             None \<Rightarrow> alias_list shell @ [(copy_string 64 name, copy_string 1024 v)]
           | Some i \<Rightarrow> (alias_list shell)[i := (name, copy_string 1024 v)]) \<and>
           alias_count shell' \<le> length (aliases shell')) \<or>
         (st = 1 \<and> shell' = shell \<and> find_alias_entry shell name = None \<and>
           grow_heap_array realloc_ok zero_alias 1088 max_aliases (alias_count shell + 1) (aliases shell) = None)"
proof (cases "find_alias_entry shell name")
  case None
  show ?thesis
  proof (cases "grow_heap_array realloc_ok zero_alias 1088 max_aliases (alias_count shell + 1) (aliases shell)")
    case g: None
    with None assms(2,3) show ?thesis by (simp add: arksh_shell_set_alias_def Let_def)
  next
    case (Some cells1)
    note g = grow_heap_array_SomeD [OF Some]
    let ?n = "alias_count shell"
    have le: "?n \<le> length (aliases shell)" using assms(1) by (simp add: aliases_ok_def)
    have tk: "take ?n cells1 = take ?n (aliases shell)"
      using g le by (metis min.absorb1 take_take)
    have "take (Suc ?n) (cells1[?n := a]) = take ?n (aliases shell) @ [a]" for a
      using g tk by (simp add: take_Suc_conv_app_nth)
    with None assms(2,3) Some g show ?thesis
      by (auto simp: arksh_shell_set_alias_def Let_def alias_list_def)
  qed
next
  case (Some i)
  then have i: "i < alias_count shell" "map fst (alias_list shell) ! i = name"
    using scan_names_Some [of "map fst (alias_list shell)" name i] alias_list_front [OF assms(1)]
    by (simp_all add: find_alias_list)
  moreover have "alias_count shell \<le> length (aliases shell)" using assms(1) by (simp add: aliases_ok_def)
  ultimately have "a_name (aliases shell ! i) = name" by (simp add: alias_list_def)
  with Some i assms show ?thesis
    by (auto simp: arksh_shell_set_alias_def alias_list_def aliases_ok_def take_update_swap map_update)
qed

lemma set_alias_update:
  assumes "aliases_ok shell" and "is_valid_alias_name name" and "length name < 64"
    and "arksh_shell_set_alias realloc_ok shell name v = (st, shell')"
  shows "aliases_ok shell' \<and>
    alias_list shell' = (if st = 0 then AList.update name (copy_string 1024 v) (alias_list shell) else alias_list shell)"
proof -
  from set_alias_list [OF assms(1,2,4)] consider
    (set_ok) "st = 0" "alias_list shell' = AList.update name (copy_string 1024 v) (alias_list shell)"
      "alias_count shell' \<le> length (aliases shell')"
    | (failed) "st = 1" "shell' = shell"
    using assms(3) by (auto simp: update_scan find_alias_list split: option.splits)
  then show ?thesis
    using assms(1) by cases (auto simp: aliases_ok_def intro: AList.distinct_update)
qed

lemma unset_alias_delete:
  assumes "aliases_ok shell" and "arksh_shell_unset_alias shell name = (st, shell')"
  shows "aliases_ok shell' \<and>
    alias_list shell' = (if st = 0 then AList.delete name (alias_list shell) else alias_list shell)"
proof (cases "is_valid_alias_name name \<and> find_alias_entry shell name \<noteq> None")
  case False
  then have "st = 1 \<and> shell' = shell" using assms(2) by (auto simp: arksh_shell_unset_alias_def split: if_splits)
  with assms(1) show ?thesis by simp
next
  case True
  then obtain i where f: "find_alias_entry shell name = Some i" and v: "is_valid_alias_name name" by auto
  let ?n = "alias_count shell" and ?cells = "aliases shell"
  have n: "?n \<le> length ?cells" and d: "distinct (map fst (alias_list shell))"
    using assms(1) by (simp_all add: aliases_ok_def)
  have i: "i < ?n"
    using scan_names_Some [of "map fst (alias_list shell)" name i] f alias_list_front [OF assms(1)]
    by (simp add: find_alias_list)
  define cells' where "cells' = (if ?n - i - 1 > 0
      then take i ?cells @ take (?n - i - 1) (drop (i + 1) ?cells) @ drop (?n - 1) ?cells else ?cells)"
  have s: "st = 0" "aliases shell' = cells'" "alias_count shell' = ?n - 1"
    using assms(2) f v by (auto simp: arksh_shell_unset_alias_def Let_def cells'_def)
  have "take (?n - 1) cells' = take i (take ?n ?cells) @ drop (Suc i) (take ?n ?cells)"
  proof (cases "Suc i = ?n")
    case True
    then have "?n - 1 = i" by simp
    with True n show ?thesis by (simp add: cells'_def)
  next
    case False
    with i n show ?thesis by (auto simp: cells'_def drop_take min_def)
  qed
  then have al: "alias_list shell' = take i (alias_list shell) @ drop (Suc i) (alias_list shell)"
    using s by (simp add: alias_list_def take_map drop_map)
  then have "alias_list shell' = AList.delete name (alias_list shell)"
    using delete_scan [OF d, of name] f by (simp add: find_alias_list)
  moreover have "?n - 1 \<le> length cells'" using i n by (auto simp: cells'_def)
  ultimately show ?thesis
    using s d by (simp add: aliases_ok_def AList.distinct_delete)
qed

interpretation alias_store: keyed_store aliases_ok
  "\<lambda>name v. is_valid_alias_name name \<and> length name < 64 \<and> length v < 1024"
  arksh_shell_get_alias "arksh_shell_set_alias realloc_ok"
proof
  fix s :: "'f shell" and k v :: string
  assume ok: "aliases_ok s" and fits: "is_valid_alias_name k \<and> length k < 64 \<and> length v < 1024"
  obtain st s' where r: "arksh_shell_set_alias realloc_ok s k v = (st, s')" by fastforce
  note upd = set_alias_update [OF ok _ _ r]
  show "aliases_ok (snd (arksh_shell_set_alias realloc_ok s k v))" using upd fits r by simp
  show "fst (arksh_shell_set_alias realloc_ok s k v) = 0 \<Longrightarrow>
      arksh_shell_get_alias (snd (arksh_shell_set_alias realloc_ok s k v)) = (arksh_shell_get_alias s)(k \<mapsto> v)"
    using upd fits r by (simp add: get_alias_map_of AList.update_conv')
  show "fst (arksh_shell_set_alias realloc_ok s k v) \<noteq> 0 \<Longrightarrow>
      arksh_shell_get_alias (snd (arksh_shell_set_alias realloc_ok s k v)) = arksh_shell_get_alias s"
    using upd fits r by (simp add: get_alias_map_of)
qed

text \<open>
  Aliases behave as a map: after any sequence of \<open>arksh_shell_set_alias\<close> calls, whatever the memory
  allocator does, an alias has the value of the last call for it that reported success, and every
  other alias what it had before.
\<close>

theorem alias_last_set_wins:
  assumes "aliases_ok shell"
    and "\<forall>(name, v) \<in> set sets. is_valid_alias_name name \<and> length name < 64 \<and> length v < 1024"
  shows "arksh_shell_get_alias (store_all (arksh_shell_set_alias realloc_ok) shell sets) =
    arksh_shell_get_alias shell ++ map_of (rev (stored (arksh_shell_set_alias realloc_ok) shell sets))"
  using alias_store.lookup_store_all [OF assms(1)] assms(2) by blast

definition empty_shell :: "'f shell" where
  "empty_shell = \<lparr>commands = \<lparr>t_cells = [], t_count = 0, t_index = []\<rparr>,
     value_resolvers = \<lparr>t_cells = [], t_count = 0, t_index = []\<rparr>,
     pipeline_stages = \<lparr>t_cells = [], t_count = 0, t_index = []\<rparr>,
     aliases = [], alias_count = 0, shell_functions = [], function_count = 0,
     plugin_active = [], loading_plugin_index = -1, completion_generation = 1\<rparr>"

lemma replicate_4: "replicate 4 x = [x, x, x, x]"
  by (simp add: numeral_eq_Suc)

theorem alias_last_set_wins_witness:
  "arksh_shell_get_alias (store_all (arksh_shell_set_alias (\<lambda>_. True)) (empty_shell :: nat shell)
     [(''ll'', ''ls -l''), (''la'', ''ls -a''), (''ll'', ''ls'')]) ''ll'' = Some ''ls''"
proof -
  let ?sets = "[(''ll'', ''ls -l''), (''la'', ''ls -a''), (''ll'', ''ls'')]"
  have ok: "aliases_ok (empty_shell :: nat shell)" by (simp add: aliases_ok_def empty_shell_def alias_list_def)
  have fits: "\<forall>(name, v) \<in> set ?sets. is_valid_alias_name name \<and> length name < 64 \<and> length v < 1024"
    by code_simp
  have all: "stored (arksh_shell_set_alias (\<lambda>_. True)) (empty_shell :: nat shell) ?sets = ?sets"
    by (simp add: arksh_shell_set_alias_def replicate_4 grow_heap_array_def grow_loop.simps find_alias_entry_def
        empty_shell_def is_valid_alias_name_def c_isspace_def max_aliases_def Let_def)
  show ?thesis unfolding alias_last_set_wins [OF ok fits] all by (simp add: map_add_def)
qed

subsection \<open>Commands, resolvers and stages\<close>

lemma grow_total:
  assumes "0 < required" and "required \<le> mx" and "0 < sz" and "mx * sz < 2 ^ 64" and "\<forall>n. realloc_ok n"
  shows "\<exists>items1. grow_heap_array realloc_ok z sz mx required items = Some items1"
proof (cases "length items < required")
  case True
  then show ?thesis using grow_heap_array_ok [OF assms(1-4), of items realloc_ok z] assms(5) by blast
next
  case False
  then show ?thesis using assms(1,3) by (simp add: grow_heap_array_def Let_def)
qed

lemma rebuild_total:
  assumes "t_count t \<le> mx" and "mx * 8 < 2 ^ 64" and "\<forall>n. realloc_ok n"
  shows "\<exists>t1. rebuild_name_index realloc_ok mx t = Some t1"
  using grow_total [OF _ assms(1) _ assms(2,3), of "0::nat" "t_index t"]
  by (cases "t_count t = 0") (auto simp: rebuild_name_index_def rebuild_sorted_name_index_def)

lemma rebuild_in_place: "table_ok t \<Longrightarrow> \<exists>t1. rebuild_name_index ok mx t = Some t1"
proof -
  assume "table_ok t"
  then have "t_count t \<le> length (t_index t)" unfolding table_ok_def sorted_index_def by blast
  then show ?thesis
    by (auto simp: rebuild_name_index_def rebuild_sorted_name_index_def grow_heap_array_def Let_def)
qed

text \<open>Room for one more entry keeps the table as it is.\<close>

lemma grow_table:
  assumes "table_ok t" and "grow_heap_array ok z sz mx (t_count t + 1) (t_cells t) = Some cells1"
  shows "table_ok (t\<lparr>t_cells := cells1\<rparr>)" and "table_map (t\<lparr>t_cells := cells1\<rparr>) = table_map t"
    and "names_of (t\<lparr>t_cells := cells1\<rparr>) = names_of t" and "t_count t < length cells1"
proof -
  note g = grow_heap_array_SomeD [OF assms(2)]
  have "t_count t \<le> length (t_cells t)" using assms(1) by (simp add: table_ok_def)
  then have "take (t_count t) cells1 = take (t_count t) (t_cells t)"
    using g by (metis min.absorb1 take_take)
  note front = table_same_front [OF assms(1) this]
  show "table_ok (t\<lparr>t_cells := cells1\<rparr>)" "table_map (t\<lparr>t_cells := cells1\<rparr>) = table_map t"
    "names_of (t\<lparr>t_cells := cells1\<rparr>) = names_of t" "t_count t < length cells1"
    using front g by simp_all
qed

definition new_command :: "'f shell \<Rightarrow> string \<Rightarrow> string \<Rightarrow> 'f option \<Rightarrow> bool \<Rightarrow> 'f command_def" where
  "new_command shell name description fn plug =
     \<lparr>d_name = copy_string 64 name, d_description = copy_string max_description description, d_fn = fn,
      d_is_plugin = plug, d_owner = (if plug then loading_plugin_index shell else -1), d_kind = BUILTIN_PURE\<rparr>"

lemma register_command_map:
  assumes "table_ok (commands shell)" and "length name < 64"
    and "arksh_shell_register_command ok shell name description fn plug = (st, shell')"
  shows "table_ok (commands shell') \<and>
    (if st = 0 then name \<notin> set (names_of (commands shell)) \<and>
       table_map (commands shell') = (table_map (commands shell))(name \<mapsto> new_command shell name description fn plug)
     else st = 1 \<and> table_map (commands shell') = table_map (commands shell))"
proof -
  let ?t = "commands shell"
  let ?d = "new_command shell name description fn plug"
  have dn: "d_name ?d = name" using assms(2) by (simp add: new_command_def)
  show ?thesis
  proof (cases "fn = None \<or> grow_heap_array ok zero_command 248 max_commands (t_count ?t + 1) (t_cells ?t) = None")
    case True
    then have "st = 1 \<and> shell' = shell"
      using assms(3) by (cases "fn = None") (simp_all add: arksh_shell_register_command_def Let_def)
    with assms(1) show ?thesis by simp
  next
    case False
    then obtain cells1 where fn: "fn \<noteq> None"
      and g: "grow_heap_array ok zero_command 248 max_commands (t_count ?t + 1) (t_cells ?t) = Some cells1" by auto
    let ?t1 = "?t\<lparr>t_cells := cells1\<rparr>"
    note t1 = grow_table [OF assms(1) g]
    obtain b t2 where ap: "append_entry ok max_commands zero_command ?t1 ?d = (b, t2)" by fastforce
    have r: "(st, shell') = (if name \<in> set (names_of ?t) then (1, shell\<lparr>commands := ?t1\<rparr>)
        else if b then (0, mark_completion_cache_dirty (shell\<lparr>commands := t2\<rparr>))
        else (1, shell\<lparr>commands := t2\<rparr>))"
      using assms(3) fn g ap scan_names_None [of "names_of ?t1" name] t1(3)
      by (auto simp: arksh_shell_register_command_def new_command_def Let_def split: bool.splits)
    show ?thesis
    proof (cases "name \<in> set (names_of ?t)")
      case True
      with r t1 show ?thesis by simp
    next
      case False
      with append_entry_map [OF t1(1) _ _ ap] t1 dn r show ?thesis by (cases b) auto
    qed
  qed
qed

lemma register_command_succeeds:
  assumes "table_ok (commands shell)" and "fn \<noteq> None" and "name \<notin> set (names_of (commands shell))"
    and "t_count (commands shell) < max_commands" and "\<forall>n. realloc_ok n"
  shows "fst (arksh_shell_register_command realloc_ok shell name description fn plug) = 0"
proof -
  let ?t = "commands shell"
  obtain cells1 where g: "grow_heap_array realloc_ok zero_command 248 max_commands (t_count ?t + 1) (t_cells ?t) = Some cells1"
    using grow_total [of "t_count ?t + 1" max_commands 248 realloc_ok zero_command "t_cells ?t"] assms(4,5)
    by (auto simp: max_commands_def)
  note t1 = grow_table [OF assms(1) g]
  let ?d = "new_command shell name description fn plug"
  obtain t2 where "append_entry realloc_ok max_commands zero_command (?t\<lparr>t_cells := cells1\<rparr>) ?d = (True, t2)"
    using rebuild_total [of "?t\<lparr>t_cells := cells1[t_count ?t := ?d], t_count := Suc (t_count ?t)\<rparr>" max_commands realloc_ok]
      assms(4,5) by (auto simp: append_entry_def Let_def max_commands_def)
  then show ?thesis
    using assms(2,3) g t1(3) scan_names_None [of "names_of ?t" name]
    by (simp add: arksh_shell_register_command_def new_command_def Let_def)
qed

lemma find_command_map:
  "table_ok (commands shell) \<Longrightarrow>
     arksh_shell_find_command shell name = visible_entry shell (table_map (commands shell) name)"
  by (simp add: arksh_shell_find_command_def find_entry_map)

text \<open>
  (C34) Registering a command refines inserting into a finite map of at most 64 names: when the call
  reports success the name was free and looking it up by bisection now finds the new entry, every
  other lookup is unchanged; when it fails no lookup changes; and it does succeed for a free name
  while there is room and memory.
\<close>

theorem register_command_refines_map:
  assumes "table_ok (commands shell)" and "length name < 64"
    and "arksh_shell_register_command realloc_ok shell name description fn plug = (st, shell')"
  shows "table_ok (commands shell') \<and>
    (st = 0 \<longrightarrow> find_entry (commands shell) name = None \<and>
       find_entry (commands shell') = (find_entry (commands shell))(name \<mapsto> new_command shell name description fn plug)) \<and>
    (st \<noteq> 0 \<longrightarrow> find_entry (commands shell') = find_entry (commands shell)) \<and>
    (fn \<noteq> None \<and> find_entry (commands shell) name = None \<and> t_count (commands shell) < max_commands \<and>
       (\<forall>n. realloc_ok n) \<longrightarrow> st = 0)"
proof -
  note r = register_command_map [OF assms]
  have ok': "table_ok (commands shell')" using r by blast
  show ?thesis
    unfolding find_entry_map [OF assms(1)] find_entry_map [OF ok'] table_map_None
    using r register_command_succeeds [OF assms(1), of fn name realloc_ok description plug] assms(3)
    by (cases "st = 0") auto
qed

theorem register_command_refines_map_witness:
  "case arksh_shell_register_command (\<lambda>_. True) empty_shell ''cd'' ''change directory'' (Some (7::nat)) False of
     (st, shell') \<Rightarrow> st = 0 \<and> map_option d_fn (find_entry (commands shell') ''cd'') = Some (Some 7)"
proof -
  have ok: "table_ok (commands (empty_shell :: nat shell))"
    by (simp add: empty_shell_def table_ok_def names_of_def sorted_index_def)
  have none: "find_entry (commands (empty_shell :: nat shell)) ''cd'' = None"
    by (simp add: empty_shell_def find_entry_def find_name_index_entry_def)
  obtain st shell' where r: "arksh_shell_register_command (\<lambda>_. True) (empty_shell :: nat shell) ''cd''
      ''change directory'' (Some 7) False = (st, shell')" by fastforce
  have "t_count (commands (empty_shell :: nat shell)) < max_commands"
    by (simp add: empty_shell_def max_commands_def)
  with register_command_refines_map [OF ok _ r] none r show ?thesis by (simp add: new_command_def)
qed

subsection \<open>Plugins that take over a name\<close>

text \<open>
  A plugin that registers an existing resolver's name takes the entry over: looking the name up
  finds the plugin's handler while the plugin is active, and once the plugin is disabled the name
  is gone; the built-in resolver it replaced does not come back.
\<close>

theorem plugin_override_hides_builtin:
  assumes "table_ok (value_resolvers shell)" and "table_map (value_resolvers shell) name = Some d"
    and "is_valid_identifier name" and "fn \<noteq> None" and "loading_plugin_index shell = int p"
    and "arksh_shell_register_value_resolver realloc_ok shell name description fn True = (st, shell')"
  shows "st = 0 \<and>
    (\<exists>e. d_fn e = fn \<and>
       (p < length act \<and> act ! p \<longrightarrow>
          arksh_shell_find_value_resolver (shell'\<lparr>plugin_active := act\<rparr>) name = Some e) \<and>
       (\<not> (p < length act \<and> act ! p) \<longrightarrow>
          arksh_shell_find_value_resolver (shell'\<lparr>plugin_active := act\<rparr>) name = None))"
proof -
  let ?t = "value_resolvers shell"
  obtain i where i: "i < t_count ?t" "t_cells ?t ! i = d" "d_name d = name"
    using table_map_Some [OF assms(1)] assms(2) by blast
  have len: "t_count ?t \<le> length (t_cells ?t)" and dist: "distinct (names_of ?t)"
    using assms(1) by (simp_all add: table_ok_def)
  have "names_of ?t ! i = name" using nth_names_of [OF len i(1)] i by (simp add: name_at_def)
  then have scan: "scan_names (names_of ?t) name = Some i"
    using scan_names_nth [OF dist, of i] length_names_of [OF len] i(1) by simp
  define e where "e = (update_description description d)\<lparr>d_fn := fn, d_is_plugin := True, d_owner := int p\<rparr>"
  let ?t1 = "?t\<lparr>t_cells := (t_cells ?t)[i := e]\<rparr>"
  have en: "d_name e = name" by (simp add: e_def update_description_def i(3) split: option.splits)
  then have "d_name e = name_at ?t i" using i by (simp add: name_at_def)
  note up = table_update [OF assms(1) i(1) this]
  obtain t2 where r: "rebuild_name_index realloc_ok max_value_resolvers ?t1 = Some t2"
    using rebuild_in_place [OF up(1)] by blast
  have "t_count ?t1 \<le> length (t_cells ?t1)" "distinct (names_of ?t1)" using up(1) by (simp_all add: table_ok_def)
  note t2 = rebuild_table [OF r this]
  have s: "st = 0" "value_resolvers shell' = t2"
    using assms(3-6) scan r i(2) by (auto simp: arksh_shell_register_value_resolver_def Let_def e_def)
  have "find_entry t2 name = Some e" using find_entry_map [OF t2(1)] t2(2) up(2) en by simp
  then show ?thesis
    using s by (intro conjI exI [of _ e])
      (simp_all add: arksh_shell_find_value_resolver_def visible_entry_def plugin_index_is_active_def e_def)
qed

definition env_resolver :: "nat reg_def" where
  "env_resolver = \<lparr>d_name = ''env'', d_description = ''environment'', d_fn = Some 1, d_is_plugin = False, d_owner = -1\<rparr>"

definition env_shell :: "nat shell" where
  "env_shell = empty_shell\<lparr>value_resolvers := \<lparr>t_cells = [env_resolver], t_count = 1, t_index = [0]\<rparr>,
     plugin_active := [True], loading_plugin_index := 0\<rparr>"

theorem plugin_override_hides_builtin_witness:
  "map_option d_fn (arksh_shell_find_value_resolver env_shell ''env'') = Some (Some 1) \<and>
   (case arksh_shell_register_value_resolver (\<lambda>_. True) env_shell ''env'' None (Some 2) True of
      (st, shell') \<Rightarrow> st = 0 \<and> arksh_shell_find_value_resolver (shell'\<lparr>plugin_active := [False]\<rparr>) ''env'' = None)"
proof
  let ?t = "value_resolvers env_shell"
  have t: "?t = \<lparr>t_cells = [env_resolver], t_count = 1, t_index = [0]\<rparr>" by (simp add: env_shell_def)
  have ok: "table_ok ?t"
    unfolding t by (auto simp: table_ok_def names_of_def sorted_index_def)
  have m: "table_map ?t ''env'' = Some env_resolver"
    unfolding t by (simp add: table_map_def env_resolver_def)
  show "map_option d_fn (arksh_shell_find_value_resolver env_shell ''env'') = Some (Some 1)"
    unfolding arksh_shell_find_value_resolver_def find_entry_map [OF ok] m
    by (simp add: visible_entry_def env_resolver_def)
  obtain st shell' where r: "arksh_shell_register_value_resolver (\<lambda>_. True) env_shell ''env'' None (Some 2) True = (st, shell')"
    by fastforce
  have "loading_plugin_index env_shell = int 0" by (simp add: env_shell_def)
  moreover have "is_valid_identifier ''env''" by code_simp
  ultimately show "case arksh_shell_register_value_resolver (\<lambda>_. True) env_shell ''env'' None (Some 2) True of
      (st, shell') \<Rightarrow> st = 0 \<and> arksh_shell_find_value_resolver (shell'\<lparr>plugin_active := [False]\<rparr>) ''env'' = None"
    using plugin_override_hides_builtin [OF ok m _ _ _ r, of 0 "[False]"] r by auto
qed

end
