(* ===== verification/Completion.thy ===== *)
theory Completion
  imports Registry
begin

text \<open>
  Name completion of \<^verbatim>\<open>src/line_editor.c\<close>: the matches a prefix has among commands, aliases and
  functions, and among pipeline stages, with the one-entry caches in front of both.  A cache is keyed
  by the shell, its generation counter and the prefix; the shell pointer is a number here.
\<close>

datatype completion_kind =
  CMATCH_CMD | CMATCH_FN | CMATCH_ALIAS | CMATCH_PATHCMD | CMATCH_FILE | CMATCH_DIR |
  CMATCH_VAR | CMATCH_BINDING | CMATCH_STAGE

type_synonym matches = "(string \<times> completion_kind) list"

record prefix_cache =
  pc_valid :: bool
  pc_shell :: nat
  pc_generation :: nat
  pc_prefix :: string
  pc_matches :: matches

definition max_completion_matches :: nat where "max_completion_matches = 64"

definition starts_with :: "string \<Rightarrow> string \<Rightarrow> bool" where
  "starts_with t pre \<longleftrightarrow> next_is pre t"

definition append_match_kind :: "matches \<Rightarrow> string \<Rightarrow> completion_kind \<Rightarrow> matches" where
  "append_match_kind ms v kind =
     (if v = [] then ms
      else if v \<in> fst ` set ms then ms
      else if length ms \<ge> max_completion_matches then ms
      else ms @ [(copy_string 1024 v, kind)])"

definition append_matches :: "matches \<Rightarrow> matches \<Rightarrow> matches" where
  "append_matches dest src = foldl (\<lambda>ms (v, kind). append_match_kind ms v kind) dest src"

definition name_from_sorted_pos :: "('f, 'z) reg_def_scheme table \<Rightarrow> nat \<Rightarrow> string" where
  "name_from_sorted_pos t pos =
     (if t_index t = [] \<or> pos \<ge> t_count t \<or> t_index t ! pos \<ge> t_count t then []
      else d_name (t_cells t ! (t_index t ! pos)))"

definition plugin_entry_is_active :: "'f shell \<Rightarrow> int \<Rightarrow> bool" where
  "plugin_entry_is_active shell plugin_index \<longleftrightarrow>
     plugin_index < 0 \<or>
     nat plugin_index < length (plugin_active shell) \<and> plugin_active shell ! nat plugin_index"

definition entry_shown :: "'f shell \<Rightarrow> ('f, 'z) reg_def_scheme \<Rightarrow> bool" where
  "entry_shown shell d \<longleftrightarrow> \<not> (d_is_plugin d \<and> \<not> plugin_entry_is_active shell (d_owner d))"

fun sorted_matches ::
  "'f shell \<Rightarrow> completion_kind \<Rightarrow> string \<Rightarrow> ('f, 'z) reg_def_scheme list \<Rightarrow> nat list \<Rightarrow> matches \<Rightarrow> matches" where
  "sorted_matches shell kind pre cells [] cached = cached"
| "sorted_matches shell kind pre cells (i # is) cached =
     (let d = cells ! i in
      if \<not> starts_with (d_name d) pre then cached
      else sorted_matches shell kind pre cells is
             (if entry_shown shell d then append_match_kind cached (d_name d) kind else cached))"

definition table_matches ::
  "'f shell \<Rightarrow> completion_kind \<Rightarrow> string \<Rightarrow> ('f, 'z) reg_def_scheme table \<Rightarrow> matches" where
  "table_matches shell kind pre t =
     (if t_index t \<noteq> [] \<and> t_count t > 0 then
        (let start = (if pre = [] then 0
                      else lower_bound_sorted_names (t_count t) pre (name_from_sorted_pos t)) in
         sorted_matches shell kind pre (t_cells t) (drop start (take (t_count t) (t_index t))) [])
      else
        foldl (\<lambda>ms d. if starts_with (d_name d) pre \<and> entry_shown shell d
                      then append_match_kind ms (d_name d) kind else ms) [] (take (t_count t) (t_cells t)))"

definition name_matches :: "completion_kind \<Rightarrow> string \<Rightarrow> matches \<Rightarrow> string list \<Rightarrow> matches" where
  "name_matches kind pre ms names =
     foldl (\<lambda>ms n. if starts_with n pre then append_match_kind ms n kind else ms) ms names"

text \<open>The part of each function that runs when the cache has no answer.\<close>

definition command_matches :: "'f shell \<Rightarrow> string \<Rightarrow> matches" where
  "command_matches shell pre =
     (let ms1 = table_matches shell CMATCH_CMD pre (commands shell);
          ms2 = name_matches CMATCH_ALIAS pre ms1 (map a_name (take (alias_count shell) (aliases shell)))
      in name_matches CMATCH_FN pre ms2 (map f_name (take (function_count shell) (shell_functions shell))))"

definition stage_matches :: "'f shell \<Rightarrow> string \<Rightarrow> matches" where
  "stage_matches shell pre = table_matches shell CMATCH_STAGE pre (pipeline_stages shell)"

definition collect_cached ::
  "(string \<Rightarrow> matches) \<Rightarrow> nat \<Rightarrow> nat \<Rightarrow> prefix_cache \<Rightarrow> string \<Rightarrow> matches \<Rightarrow> prefix_cache \<times> matches" where
  "collect_cached compute shell_id generation cache pre ms =
     (if pc_valid cache \<and> pc_shell cache = shell_id \<and> pc_generation cache = generation \<and> pc_prefix cache = pre
      then (cache, append_matches ms (pc_matches cache))
      else
        (let cached = compute pre in
         (\<lparr>pc_valid = True, pc_shell = shell_id, pc_generation = generation,
           pc_prefix = copy_string 1024 pre, pc_matches = cached\<rparr>,
          append_matches ms cached)))"

definition collect_registered_command_matches ::
  "nat \<Rightarrow> 'f shell \<Rightarrow> prefix_cache \<Rightarrow> string \<Rightarrow> matches \<Rightarrow> prefix_cache \<times> matches" where
  "collect_registered_command_matches shell_id shell cache pre ms =
     collect_cached (command_matches shell) shell_id (completion_generation shell) cache pre ms"

definition collect_stage_matches ::
  "nat \<Rightarrow> 'f shell \<Rightarrow> prefix_cache \<Rightarrow> string \<Rightarrow> matches \<Rightarrow> prefix_cache \<times> matches" where
  "collect_stage_matches shell_id shell cache pre ms =
     collect_cached (stage_matches shell) shell_id (completion_generation shell) cache pre ms"

text \<open>\<open>plugin enable\<close> and \<open>plugin disable\<close> once the plugin is found.\<close>

definition set_plugin_active :: "'f shell \<Rightarrow> nat \<Rightarrow> bool \<Rightarrow> 'f shell" where
  "set_plugin_active shell i on =
     mark_completion_cache_dirty (shell\<lparr>plugin_active := (plugin_active shell)[i := on]\<rparr>)"

subsection \<open>Prefixes in the order of \<open>strcmp\<close>\<close>

lemma starts_with_le: "starts_with n pre \<Longrightarrow> c_strcmp pre n \<le> 0"
  unfolding starts_with_def by (induction pre n rule: c_strcmp.induct) auto

text \<open>What lies between a prefix and one of its extensions extends it too.\<close>

lemma starts_with_between:
  "c_strcmp pre n \<le> 0 \<Longrightarrow> c_strcmp n m \<le> 0 \<Longrightarrow> starts_with m pre \<Longrightarrow> starts_with n pre"
  unfolding starts_with_def
proof (induction pre n arbitrary: m rule: c_strcmp.induct)
  case (4 p pre c n)
  then show ?case by (cases m) (auto split: if_splits)
qed auto

lemma sorted_matches_filter:
  assumes "sorted_wrt (\<lambda>i j. c_strcmp (d_name (cells ! i)) (d_name (cells ! j)) \<le> 0) is"
    and "\<forall>i \<in> set is. c_strcmp pre (d_name (cells ! i)) \<le> 0"
  shows "sorted_matches shell kind pre cells is ms =
    foldl (\<lambda>ms d. append_match_kind ms (d_name d) kind) ms
      (filter (\<lambda>d. starts_with (d_name d) pre \<and> entry_shown shell d) (map ((!) cells) is))"
  using assms
proof (induction "is" arbitrary: ms)
  case (Cons i "is")
  show ?case
  proof (cases "starts_with (d_name (cells ! i)) pre")
    case True
    with Cons show ?thesis by (simp add: Let_def)
  next
    case False
    have "\<not> starts_with (d_name (cells ! j)) pre" if "j \<in> set is" for j
      using starts_with_between [of pre "d_name (cells ! i)" "d_name (cells ! j)"] Cons.prems False that by auto
    then have "filter (\<lambda>d. starts_with (d_name d) pre \<and> entry_shown shell d) (map ((!) cells) is) = []"
      by (auto simp: filter_empty_conv)
    with False show ?thesis by (simp add: Let_def)
  qed
qed simp

definition sorted_entries :: "('f, 'z) reg_def_scheme table \<Rightarrow> ('f, 'z) reg_def_scheme list" where
  "sorted_entries t = map ((!) (t_cells t)) (take (t_count t) (t_index t))"

definition wanted :: "'f shell \<Rightarrow> string \<Rightarrow> ('f, 'z) reg_def_scheme \<Rightarrow> bool" where
  "wanted shell pre d \<longleftrightarrow> starts_with (d_name d) pre \<and> entry_shown shell d"

lemma sorted_entries_sorted:
  assumes "table_ok t"
  shows "sorted_wrt (\<lambda>d e. c_strcmp (d_name d) (d_name e) \<le> 0) (sorted_entries t)"
    and "set (sorted_entries t) = set (take (t_count t) (t_cells t))"
    and "length (sorted_entries t) = t_count t"
proof -
  have s: "sorted_index c_strcmp (name_at t) (t_count t) (t_index t)" using assms by (simp add: table_ok_def)
  then show "sorted_wrt (\<lambda>d e. c_strcmp (d_name d) (d_name e) \<le> 0) (sorted_entries t)"
    by (simp add: sorted_entries_def sorted_wrt_map sorted_index_def name_at_def)
  have "t_count t \<le> length (t_cells t)" using assms by (simp add: table_ok_def)
  then have "set (take (t_count t) (t_cells t)) = (!) (t_cells t) ` {..<t_count t}"
    by (simp add: nth_image lessThan_atLeast0)
  with s show "set (sorted_entries t) = set (take (t_count t) (t_cells t))"
    by (simp add: sorted_entries_def sorted_index_def)
  show "length (sorted_entries t) = t_count t" using s by (simp add: sorted_entries_def sorted_index_def)
qed

lemma table_matches_filter:
  assumes "table_ok t"
  shows "table_matches shell kind pre t =
    foldl (\<lambda>ms d. append_match_kind ms (d_name d) kind) [] (filter (wanted shell pre) (sorted_entries t))"
proof (cases "t_count t = 0")
  case True
  then show ?thesis by (simp add: table_matches_def sorted_entries_def)
next
  case False
  define ind where "ind = take (t_count t) (t_index t)"
  define start where "start = (if pre = [] then 0
      else lower_bound_sorted_names (t_count t) pre (name_from_sorted_pos t))"
  have s: "sorted_index c_strcmp (name_at t) (t_count t) (t_index t)" using assms by (simp add: table_ok_def)
  have len: "t_count t \<le> length (t_index t)" using s by (simp add: sorted_index_def)
  then have ne: "t_index t \<noteq> []" using False by auto
  have pos: "name_from_sorted_pos t i = d_name (t_cells t ! (t_index t ! i))" if "i < t_count t" for i
    using that ne names.sorted_index_mem [OF s, of "t_index t ! i"] by (auto simp: name_from_sorted_pos_def)
  have sw: "sorted_wrt (\<lambda>i j. c_strcmp (d_name (t_cells t ! i)) (d_name (t_cells t ! j)) \<le> 0) ind"
    using s by (simp add: sorted_index_def name_at_def ind_def)
  let ?below = "\<lambda>i. c_strcmp (d_name (t_cells t ! (ind ! i))) pre < 0"
  have start: "\<forall>i < t_count t. ?below i \<longleftrightarrow> i < start"
  proof (cases "pre = []")
    case True
    have "\<not> c_strcmp n [] < 0" for n by (cases n) auto
    with True show ?thesis by (simp add: start_def)
  next
    case pre: False
    have mono: "c_strcmp (name_from_sorted_pos t i) pre < 0"
      if "i \<le> j" "j < t_count t" "c_strcmp (name_from_sorted_pos t j) pre < 0" for i j
      using names.sorted_index_nth [OF s, of i j] that pos [of i] pos [of j]
        names.cmp_trans_less2 [of "name_from_sorted_pos t i" "name_from_sorted_pos t j" pre]
      by (cases "i = j") (auto simp: name_at_def)
    have "\<forall>i < t_count t. c_strcmp (name_from_sorted_pos t i) pre < 0 \<longleftrightarrow> i < start"
      using lower_bound_loop_correct [of 0 "t_count t" "\<lambda>i. c_strcmp (name_from_sorted_pos t i) pre < 0", OF _ mono]
        pre by (auto simp: start_def lower_bound_sorted_names_def)
    then show ?thesis using pos by (simp add: ind_def)
  qed
  have low: "\<not> starts_with (d_name (t_cells t ! i)) pre" if i: "i \<in> set (take start ind)" for i
  proof -
    obtain k where "k < start" "k < t_count t" "i = ind ! k"
      using i len by (auto simp: in_set_conv_nth ind_def)
    with start have "c_strcmp (d_name (t_cells t ! i)) pre < 0" by auto
    then show ?thesis using starts_with_le names.cmp_swap by (metis not_less)
  qed
  have high: "c_strcmp pre (d_name (t_cells t ! i)) \<le> 0" if i: "i \<in> set (drop start ind)" for i
  proof -
    obtain k where "k < length ind - start" "i = ind ! (start + k)"
      using i by (auto simp: in_set_conv_nth)
    then have k: "start + k < length ind" "i = ind ! (start + k)" by simp_all
    then have "\<not> ?below (start + k)" using start by (simp add: ind_def)
    then show ?thesis using k names.cmp_swap by (metis not_less)
  qed
  have "filter (wanted shell pre) (map ((!) (t_cells t)) (take start ind)) = []"
    using low by (auto simp: filter_empty_conv wanted_def)
  then have split: "filter (wanted shell pre) (sorted_entries t) =
      filter (wanted shell pre) (map ((!) (t_cells t)) (drop start ind))"
    unfolding sorted_entries_def ind_def [symmetric]
    by (metis append_Nil append_take_drop_id filter_append map_append)
  have "table_matches shell kind pre t = sorted_matches shell kind pre (t_cells t) (drop start ind) []"
    using ne False by (simp add: table_matches_def Let_def ind_def start_def)
  also have "\<dots> = foldl (\<lambda>ms d. append_match_kind ms (d_name d) kind) []
      (filter (wanted shell pre) (map ((!) (t_cells t)) (drop start ind)))"
    unfolding wanted_def by (rule sorted_matches_filter) (use sw high in \<open>auto intro: sorted_wrt_drop\<close>)
  finally show ?thesis unfolding split .
qed

lemma append_all:
  assumes "distinct (map d_name ds)" and "\<forall>d \<in> set ds. d_name d \<noteq> [] \<and> length (d_name d) < 1024"
    and "\<forall>d \<in> set ds. d_name d \<notin> fst ` set ms" and "length ms + length ds \<le> max_completion_matches"
  shows "foldl (\<lambda>ms d. append_match_kind ms (d_name d) kind) ms ds = ms @ map (\<lambda>d. (d_name d, kind)) ds"
  using assms
proof (induction ds arbitrary: ms)
  case (Cons d ds)
  have "append_match_kind ms (d_name d) kind = ms @ [(d_name d, kind)]"
    using Cons.prems by (auto simp: append_match_kind_def)
  moreover have "\<forall>e \<in> set ds. d_name e \<notin> fst ` set (ms @ [(d_name d, kind)])"
  proof
    fix e assume e: "e \<in> set ds"
    then have "d_name e \<in> set (map d_name ds)" by simp
    with Cons.prems(1) have "d_name e \<noteq> d_name d" by (metis distinct.simps(2) list.simps(9))
    with e Cons.prems(3) show "d_name e \<notin> fst ` set (ms @ [(d_name d, kind)])" by simp
  qed
  ultimately show ?case using Cons.IH [of "ms @ [(d_name d, kind)]"] Cons.prems by simp
qed simp

text \<open>
  Stage completion is exact: with at most 64 stages the offered names are exactly the names of the
  registered stages that start with what was typed and whose plugin is active, in ascending order
  without repetition, although only the entries from the lower bound on are looked at.
\<close>

theorem stage_completion_exact:
  assumes "table_ok (pipeline_stages shell)" and "t_count (pipeline_stages shell) \<le> max_completion_matches"
    and "\<forall>n \<in> set (names_of (pipeline_stages shell)). n \<noteq> [] \<and> length n < 1024"
  shows "set (stage_matches shell pre) =
      {(n, CMATCH_STAGE) | n d. find_entry (pipeline_stages shell) n = Some d \<and> starts_with n pre \<and> entry_shown shell d} \<and>
    sorted_wrt (\<lambda>a b. c_strcmp a b < 0) (map fst (stage_matches shell pre))"
proof -
  let ?t = "pipeline_stages shell"
  let ?ds = "filter (wanted shell pre) (sorted_entries ?t)"
  note se = sorted_entries_sorted [OF assms(1)]
  have names: "d_name ` set (sorted_entries ?t) = set (names_of ?t)" by (simp add: se(2) names_of_def)
  have "card (set (names_of ?t)) = length (names_of ?t)"
    using assms(1) by (intro distinct_card) (simp add: table_ok_def)
  then have "card (set (map d_name (sorted_entries ?t))) = length (map d_name (sorted_entries ?t))"
    using names se(3) assms(1) length_names_of [of ?t] by (simp add: table_ok_def)
  then have dist: "distinct (map d_name (sorted_entries ?t))" by (rule card_distinct)
  have sub: "d \<in> set ?ds \<Longrightarrow> d_name d \<in> set (names_of ?t)" for d using names by auto
  have ms: "stage_matches shell pre = map (\<lambda>d. (d_name d, CMATCH_STAGE)) ?ds"
  proof -
    have "length ?ds \<le> max_completion_matches"
      using length_filter_le [of "wanted shell pre" "sorted_entries ?t"] se(3) assms(2) by linarith
    then show ?thesis
      using append_all [of ?ds "[]" CMATCH_STAGE] distinct_map_filter [OF dist] assms(3) sub
      unfolding stage_matches_def table_matches_filter [OF assms(1)] by simp
  qed
  have "set ?ds = {d. find_entry ?t (d_name d) = Some d \<and> wanted shell pre d}"
    unfolding find_entry_map [OF assms(1)] table_map_Some [OF assms(1)] set_filter se(2)
    using assms(1) by (auto simp: in_set_conv_nth table_ok_def)
  moreover have "find_entry ?t n = Some d \<Longrightarrow> d_name d = n" for n d
    unfolding find_entry_map [OF assms(1)] table_map_Some [OF assms(1)] by blast
  ultimately have "set (stage_matches shell pre) =
      {(n, CMATCH_STAGE) | n d. find_entry ?t n = Some d \<and> starts_with n pre \<and> entry_shown shell d}"
    unfolding ms by (auto simp: wanted_def)
  moreover have "sorted_wrt (\<lambda>d e. c_strcmp (d_name d) (d_name e) < 0) ?ds"
  proof -
    have "sorted_wrt (\<lambda>d e. d_name d \<noteq> d_name e) (sorted_entries ?t)"
      using dist by (simp add: distinct_map sorted_wrt_iff_nth_less distinct_conv_nth inj_on_eq_iff)
    with se(1) have "sorted_wrt (\<lambda>d e. c_strcmp (d_name d) (d_name e) < 0) (sorted_entries ?t)"
      by (auto simp: sorted_wrt_iff_nth_less names.cmp_eq order.order_iff_strict)
    then show ?thesis by (rule sorted_wrt_filter)
  qed
  ultimately show ?thesis unfolding ms by (simp add: sorted_wrt_map comp_def)
qed

definition stage_def :: "string \<Rightarrow> nat reg_def" where
  "stage_def n = \<lparr>d_name = n, d_description = [], d_fn = None, d_is_plugin = False, d_owner = -1\<rparr>"

definition stage_shell :: "nat shell" where
  "stage_shell = empty_shell\<lparr>pipeline_stages :=
     \<lparr>t_cells = [stage_def ''take'', stage_def ''sort''], t_count = 2, t_index = [1, 0]\<rparr>\<rparr>"

theorem stage_completion_exact_witness:
  "(''sort'', CMATCH_STAGE) \<in> set (stage_matches stage_shell ''so'') \<and>
   (''take'', CMATCH_STAGE) \<notin> set (stage_matches stage_shell ''so'')"
proof -
  let ?t = "pipeline_stages stage_shell"
  have t: "?t = \<lparr>t_cells = [stage_def ''take'', stage_def ''sort''], t_count = 2, t_index = [1, 0]\<rparr>"
    by (simp add: stage_shell_def)
  have two: "{..<2::nat} = {1, 0}" by auto
  have names: "names_of ?t = [''take'', ''sort'']" unfolding t by (simp add: names_of_def stage_def_def)
  have ok: "table_ok ?t"
    using names unfolding t by (simp add: table_ok_def sorted_index_def two name_at_def stage_def_def)
  have "find_entry ?t ''sort'' = Some (stage_def ''sort'')"
    unfolding find_entry_map [OF ok] unfolding t by (simp add: table_map_def stage_def_def)
  moreover have "t_count ?t \<le> max_completion_matches" by (simp add: t max_completion_matches_def)
  moreover have "starts_with ''sort'' ''so''" "\<not> starts_with ''take'' ''so''"
    "entry_shown stage_shell (stage_def ''sort'')"
    by (simp_all add: starts_with_def entry_shown_def stage_def_def)
  ultimately show ?thesis using stage_completion_exact [OF ok, of "''so''"] names by auto
qed

subsection \<open>The caches\<close>

lemma grow_front:
  assumes "table_ok t" and "grow_heap_array ok z sz mx (t_count t + 1) (t_cells t) = Some cells1"
  shows "take (t_count t) cells1 = take (t_count t) (t_cells t)" and "t_count t < length cells1"
proof -
  have "t_count t \<le> length (t_cells t)" using assms(1) by (simp add: table_ok_def)
  then show "take (t_count t) cells1 = take (t_count t) (t_cells t)" "t_count t < length cells1"
    using grow_heap_array_SomeD [OF assms(2)] by (metis min.absorb1 take_take, simp)
qed

text \<open>A command registration either moves the generation on or touches only cells past the count.\<close>

lemma register_command_effect:
  assumes "table_ok (commands shell)"
    and "arksh_shell_register_command ok shell name description fn plug = (st, shell')"
  shows "(\<exists>s. shell' = mark_completion_cache_dirty s \<and> completion_generation s = completion_generation shell) \<or>
    (\<exists>cells'. shell' = shell\<lparr>commands := (commands shell)\<lparr>t_cells := cells'\<rparr>\<rparr> \<and>
       take (t_count (commands shell)) cells' = take (t_count (commands shell)) (t_cells (commands shell)) \<and>
       t_count (commands shell) \<le> length cells')"
proof -
  let ?t = "commands shell" and ?n = "t_count (commands shell)"
  have len: "?n \<le> length (t_cells ?t)" using assms(1) by (simp add: table_ok_def)
  have id: "shell = shell\<lparr>commands := ?t\<lparr>t_cells := t_cells ?t\<rparr>\<rparr>" by simp
  show ?thesis
  proof (cases "fn = None \<or> grow_heap_array ok zero_command 248 max_commands (?n + 1) (t_cells ?t) = None")
    case True
    then have "shell' = shell"
      using assms(2) by (cases "fn = None") (simp_all add: arksh_shell_register_command_def Let_def)
    with id len show ?thesis by blast
  next
    case False
    then obtain cells1 where fn: "fn \<noteq> None"
      and g: "grow_heap_array ok zero_command 248 max_commands (?n + 1) (t_cells ?t) = Some cells1" by auto
    note front = grow_front [OF assms(1) g]
    let ?t1 = "?t\<lparr>t_cells := cells1\<rparr>"
    obtain b t2 where ap: "append_entry ok max_commands zero_command ?t1 (new_command shell name description fn plug) = (b, t2)"
      by fastforce
    have r: "shell' = (if scan_names (names_of ?t1) name \<noteq> None then shell\<lparr>commands := ?t1\<rparr>
        else if b then mark_completion_cache_dirty (shell\<lparr>commands := t2\<rparr>)
        else shell\<lparr>commands := t2\<rparr>)"
      using assms(2) fn g ap
      by (auto simp: arksh_shell_register_command_def new_command_def Let_def split: bool.splits if_splits)
    have t2: "\<not> b \<Longrightarrow> t2 = ?t\<lparr>t_cells := cells1[?n := zero_command]\<rparr>"
      using ap by (auto simp: append_entry_def Let_def split: option.splits)
    have zero: "take ?n (cells1[?n := zero_command]) = take ?n (t_cells ?t)" using front by simp
    consider (known) "shell' = shell\<lparr>commands := ?t1\<rparr>"
      | (added) "shell' = mark_completion_cache_dirty (shell\<lparr>commands := t2\<rparr>)"
      | (failed) "shell' = shell\<lparr>commands := ?t\<lparr>t_cells := cells1[?n := zero_command]\<rparr>\<rparr>"
      using r t2 by (auto split: if_splits)
    then show ?thesis
    proof cases
      case known
      then show ?thesis using front by (intro disjI2 exI [of _ cells1]) simp
    next
      case added
      then show ?thesis by (intro disjI1 exI [of _ "shell\<lparr>commands := t2\<rparr>"]) simp
    next
      case failed
      then show ?thesis using front zero by (intro disjI2 exI [of _ "cells1[?n := zero_command]"]) simp
    qed
  qed
qed

lemma mark_dirty_generation:
  "completion_generation s < 2 ^ 64 - 1 \<Longrightarrow>
     completion_generation (mark_completion_cache_dirty s) = completion_generation s + 1"
  by (simp add: mark_completion_cache_dirty_def Let_def)

lemma wanted_cong: "plugin_active s = plugin_active s' \<Longrightarrow> wanted s = wanted s'"
  by (simp add: fun_eq_iff wanted_def entry_shown_def plugin_entry_is_active_def)

lemma command_matches_front:
  fixes s :: "'f shell"
  assumes "table_ok (commands s)" and "take (t_count (commands s)) cells' = take (t_count (commands s)) (t_cells (commands s))"
    and "t_count (commands s) \<le> length cells'"
  shows "command_matches (s\<lparr>commands := (commands s)\<lparr>t_cells := cells'\<rparr>\<rparr>) = command_matches s"
proof
  fix pre
  let ?t = "commands s" and ?t' = "(commands s)\<lparr>t_cells := cells'\<rparr>"
  let ?s = "s\<lparr>commands := ?t'\<rparr>"
  have ok': "table_ok ?t'" using table_same_front [OF assms] by blast
  have "sorted_index c_strcmp (name_at ?t) (t_count ?t) (t_index ?t)" using assms(1) by (simp add: table_ok_def)
  then have "set (take (t_count ?t) (t_index ?t)) = {..<t_count ?t}" by (simp add: sorted_index_def)
  moreover have "cells' ! i = t_cells ?t ! i" if "i < t_count ?t" for i
    using nth_take [OF that, of cells'] nth_take [OF that, of "t_cells ?t"] assms(2) by simp
  ultimately have "sorted_entries ?t' = sorted_entries ?t" by (auto simp: sorted_entries_def)
  moreover have "wanted ?s = (wanted s :: string \<Rightarrow> 'f command_def \<Rightarrow> bool)" by (rule wanted_cong) simp
  ultimately have "table_matches ?s CMATCH_CMD pre ?t' = table_matches s CMATCH_CMD pre ?t"
    by (simp add: table_matches_filter [OF assms(1)] table_matches_filter [OF ok'])
  then show "command_matches ?s pre = command_matches s pre" by (simp add: command_matches_def)
qed

text \<open>
  The commands of a session that matter to the cache: the registry operations, switching a plugin,
  and completion requests themselves.  The counter is 64 bits wide; a session makes fewer changes.
  Loading a plugin is not one of them: it raises the number of plugins without touching the counter.
\<close>

inductive session :: "nat \<Rightarrow> 'f shell \<times> prefix_cache \<Rightarrow> bool" for sid :: nat where
  start: "table_ok (commands s) \<Longrightarrow> \<not> pc_valid c \<Longrightarrow> session sid (s, c)"
| command: "session sid (s, c) \<Longrightarrow> completion_generation s < 2 ^ 64 - 1 \<Longrightarrow> length name < 64 \<Longrightarrow>
    session sid (snd (arksh_shell_register_command ok s name description fn plug), c)"
| set_alias: "session sid (s, c) \<Longrightarrow> completion_generation s < 2 ^ 64 - 1 \<Longrightarrow>
    session sid (snd (arksh_shell_set_alias ok s name v), c)"
| unset_alias: "session sid (s, c) \<Longrightarrow> completion_generation s < 2 ^ 64 - 1 \<Longrightarrow>
    session sid (snd (arksh_shell_unset_alias s name), c)"
| set_function: "session sid (s, c) \<Longrightarrow> completion_generation s < 2 ^ 64 - 1 \<Longrightarrow>
    session sid (snd (arksh_shell_set_function ok s node), c)"
| plugin: "session sid (s, c) \<Longrightarrow> completion_generation s < 2 ^ 64 - 1 \<Longrightarrow>
    session sid (set_plugin_active s i on, c)"
| complete: "session sid (s, c) \<Longrightarrow> length pre < 1024 \<Longrightarrow>
    session sid (s, fst (collect_registered_command_matches sid s c pre ms))"

definition cache_fresh :: "nat \<Rightarrow> 'f shell \<times> prefix_cache \<Rightarrow> bool" where
  "cache_fresh sid sc \<longleftrightarrow> (case sc of (s, c) \<Rightarrow>
     table_ok (commands s) \<and>
     (pc_valid c \<and> pc_shell c = sid \<longrightarrow> pc_generation c \<le> completion_generation s \<and>
        (pc_generation c = completion_generation s \<longrightarrow> pc_matches c = command_matches s (pc_prefix c))))"

lemma cache_fresh_dirty:
  assumes "cache_fresh sid (s, c)" and "completion_generation s < 2 ^ 64 - 1"
    and "completion_generation s' = completion_generation s" and "table_ok (commands s')"
  shows "cache_fresh sid (mark_completion_cache_dirty s', c)"
  using assms by (auto simp: cache_fresh_def mark_dirty_generation)

lemma alias_function_effect:
  "(\<exists>s'. snd (arksh_shell_set_alias ok s name v) = mark_completion_cache_dirty s' \<and>
      completion_generation s' = completion_generation s \<and> commands s' = commands s) \<or>
    snd (arksh_shell_set_alias ok s name v) = s"
  "(\<exists>s'. snd (arksh_shell_unset_alias s name) = mark_completion_cache_dirty s' \<and>
      completion_generation s' = completion_generation s \<and> commands s' = commands s) \<or>
    snd (arksh_shell_unset_alias s name) = s"
  "(\<exists>s'. snd (arksh_shell_set_function ok s node) = mark_completion_cache_dirty s' \<and>
      completion_generation s' = completion_generation s \<and> commands s' = commands s) \<or>
    snd (arksh_shell_set_function ok s node) = s"
  unfolding arksh_shell_set_alias_def arksh_shell_unset_alias_def arksh_shell_set_function_def Let_def
  by (auto split: option.splits)

lemma session_cache_fresh: "session sid sc \<Longrightarrow> cache_fresh sid sc"
proof (induction rule: session.induct)
  case (command s c name ok description fn plug)
  obtain st s' where r: "arksh_shell_register_command ok s name description fn plug = (st, s')" by fastforce
  have ok: "table_ok (commands s)" using command.IH by (simp add: cache_fresh_def)
  have ok': "table_ok (commands s')" using register_command_map [OF ok command.hyps(3) r] by blast
  from register_command_effect [OF ok r] show ?case
  proof (elim disjE exE conjE)
    fix s1 assume "s' = mark_completion_cache_dirty s1" "completion_generation s1 = completion_generation s"
    then show ?thesis using cache_fresh_dirty [OF command.IH command.hyps(2), of s1] ok' r by simp
  next
    fix cells' assume s': "s' = s\<lparr>commands := (commands s)\<lparr>t_cells := cells'\<rparr>\<rparr>"
      and f: "take (t_count (commands s)) cells' = take (t_count (commands s)) (t_cells (commands s))"
        "t_count (commands s) \<le> length cells'"
    show ?thesis using command.IH ok' command_matches_front [OF ok f] r by (simp add: cache_fresh_def s')
  qed
next
  case (set_alias s c ok name v)
  then show ?case
    using alias_function_effect(1) [of ok s name v] cache_fresh_dirty by (fastforce simp: cache_fresh_def)
next
  case (unset_alias s c name)
  then show ?case
    using alias_function_effect(2) [of s name] cache_fresh_dirty by (fastforce simp: cache_fresh_def)
next
  case (set_function s c ok node)
  then show ?case
    using alias_function_effect(3) [of ok s node] cache_fresh_dirty by (fastforce simp: cache_fresh_def)
next
  case (plugin s c i on)
  then show ?case
    unfolding set_plugin_active_def
    by (intro cache_fresh_dirty [OF plugin.IH plugin.hyps(2)]) (simp_all add: cache_fresh_def)
next
  case (complete s c pre ms)
  then show ?case
    by (auto simp: cache_fresh_def collect_registered_command_matches_def collect_cached_def Let_def)
qed (simp add: cache_fresh_def)

text \<open>
  (C35) The completion cache is never stale: at every point of a session a completion request answers
  exactly what it would answer without the cache.
\<close>

theorem completion_cache_coherent:
  assumes "session sid (s, c)"
  shows "snd (collect_registered_command_matches sid s c pre ms) = append_matches ms (command_matches s pre)"
  using session_cache_fresh [OF assms]
  by (auto simp: cache_fresh_def collect_registered_command_matches_def collect_cached_def Let_def)

theorem completion_cache_coherent_witness:
  "snd (collect_registered_command_matches 0
      (set_plugin_active (empty_shell :: nat shell) 0 True)
      (fst (collect_registered_command_matches 0 (empty_shell :: nat shell)
         \<lparr>pc_valid = False, pc_shell = 0, pc_generation = 0, pc_prefix = [], pc_matches = []\<rparr> ''c'' [])) ''c'' []) =
   append_matches [] (command_matches (set_plugin_active (empty_shell :: nat shell) 0 True) ''c'')"
proof -
  let ?c = "\<lparr>pc_valid = False, pc_shell = 0, pc_generation = 0, pc_prefix = [], pc_matches = []\<rparr>"
  have "session 0 (empty_shell :: nat shell, ?c)"
    by (rule session.start) (simp_all add: empty_shell_def table_ok_def names_of_def sorted_index_def)
  then have "session 0 (empty_shell :: nat shell, fst (collect_registered_command_matches 0 (empty_shell :: nat shell) ?c ''c'' []))"
    by (rule session.complete) simp
  then have "session 0 (set_plugin_active (empty_shell :: nat shell) 0 True,
      fst (collect_registered_command_matches 0 (empty_shell :: nat shell) ?c ''c'' []))"
    by (rule session.plugin) (simp add: empty_shell_def)
  then show ?thesis by (rule completion_cache_coherent)
qed

end
