(* ===== verification/Shell_Vars.thy ===== *)
theory Shell_Vars
  imports Registry
begin

text \<open>
  Variables, scopes and positional parameters of \<^verbatim>\<open>src/shell.c\<close>.  A table of variables is the list
  of its first \<open>count\<close> cells with its capacity; growing the array keeps those cells.  The scope
  frames are a list, the innermost first.  The process environment is part of the state, and \<open>mem\<close>
  says which \<open>realloc\<close>, \<open>calloc\<close> and \<open>setenv\<close> calls succeed.
\<close>

subsection \<open>State\<close>

record memory =
  realloc_ok :: "nat \<Rightarrow> bool"
  calloc_ok :: bool
  setenv_ok :: "string \<Rightarrow> string \<Rightarrow> bool"

record shell_var =
  v_name :: string
  v_value :: string
  v_exported :: bool

record scoped_var = shell_var +
  v_deleted :: bool

record 'e var_table =
  entries :: "'e list"
  capacity :: nat

record positional =
  pos_params :: "string list"
  pos_count :: nat

record scope_frame =
  f_vars :: "scoped_var var_table"
  f_pos :: positional
  has_positional :: bool

record vshell =
  vars :: "shell_var var_table"
  frames :: "scope_frame list"
  top_pos :: positional
  env :: "string \<Rightarrow> string option"

definition max_shell_vars :: nat where "max_shell_vars = 64"
definition max_var_name :: nat where "max_var_name = 64"
definition max_var_value :: nat where "max_var_value = 1024"
definition max_positional_params :: nat where "max_positional_params = 64"

definition empty_frame :: scope_frame where
  "empty_frame = \<lparr>f_vars = \<lparr>entries = [], capacity = 0\<rparr>, f_pos = \<lparr>pos_params = [], pos_count = 0\<rparr>,
     has_positional = False\<rparr>"

subsection \<open>Tables\<close>

text \<open>\<open>grow_heap_array\<close> as far as the capacity goes.\<close>

definition grow_capacity :: "memory \<Rightarrow> nat \<Rightarrow> nat \<Rightarrow> nat \<Rightarrow> nat \<Rightarrow> nat option" where
  "grow_capacity mem item_size max_capacity required cap =
     map_option length (grow_heap_array (realloc_ok mem) () item_size max_capacity required (replicate cap ()))"

definition find_var :: "(('z) shell_var_scheme) list \<Rightarrow> string \<Rightarrow> nat option" where
  "find_var es name = scan_names (map v_name es) name"

text \<open>The index of the entry for a name, appending a cleared one when there is none.\<close>

definition reserve_entry ::
  "memory \<Rightarrow> nat \<Rightarrow> (string \<Rightarrow> 'z shell_var_scheme) \<Rightarrow> string \<Rightarrow> 'z shell_var_scheme var_table \<Rightarrow>
   (nat \<times> 'z shell_var_scheme var_table) option" where
  "reserve_entry mem item_size blank name t =
     (case find_var (entries t) name of
        Some i \<Rightarrow> Some (i, t)
      | None \<Rightarrow>
          (case grow_capacity mem item_size max_shell_vars (length (entries t) + 1) (capacity t) of
             None \<Rightarrow> None
           | Some cap \<Rightarrow>
               Some (length (entries t),
                     t\<lparr>entries := entries t @ [blank (copy_string max_var_name name)], capacity := cap\<rparr>)))"

definition blank_var :: "string \<Rightarrow> shell_var" where
  "blank_var name = \<lparr>v_name = name, v_value = [], v_exported = False\<rparr>"

definition blank_scoped_var :: "string \<Rightarrow> scoped_var" where
  "blank_scoped_var name = \<lparr>v_name = name, v_value = [], v_exported = False, v_deleted = False\<rparr>"

subsection \<open>Lookup\<close>

fun find_in_frames :: "scope_frame list \<Rightarrow> string \<Rightarrow> scoped_var option" where
  "find_in_frames [] name = None"
| "find_in_frames (f # fs) name =
     (case find_var (entries (f_vars f)) name of
        Some i \<Rightarrow> Some (entries (f_vars f) ! i)
      | None \<Rightarrow> find_in_frames fs name)"

text \<open>The out parameters of \<open>lookup_visible_var\<close>: whether the name was found, its value and its export flag.\<close>

type_synonym visible = "bool \<times> string option \<times> bool"

definition lookup_visible_var :: "vshell \<Rightarrow> scope_frame list \<Rightarrow> string \<Rightarrow> bool \<Rightarrow> visible" where
  "lookup_visible_var shell start_frame name include_process_env =
     (case find_in_frames start_frame name of
        Some e \<Rightarrow> if v_deleted e then (True, None, False) else (True, Some (v_value e), v_exported e)
      | None \<Rightarrow>
          (case find_var (entries (vars shell)) name of
             Some i \<Rightarrow> (let e = entries (vars shell) ! i in (True, Some (v_value e), v_exported e))
           | None \<Rightarrow>
               if include_process_env then
                 (case env shell name of
                    Some v \<Rightarrow> (True, Some v, True)
                  | None \<Rightarrow> (False, None, False))
               else (False, None, False)))"

definition arksh_shell_get_var :: "vshell \<Rightarrow> string \<Rightarrow> string option" where
  "arksh_shell_get_var shell name =
     (if name = [] then None
      else
        (case lookup_visible_var shell (frames shell) name True of
           (found, v, exported) \<Rightarrow> if found then v else None))"

definition set_process_env :: "memory \<Rightarrow> string \<Rightarrow> string \<Rightarrow> vshell \<Rightarrow> int \<times> vshell" where
  "set_process_env mem name v shell =
     (if setenv_ok mem name v then (0, shell\<lparr>env := (env shell)(name \<mapsto> v)\<rparr>) else (-1, shell))"

definition unset_process_env :: "string \<Rightarrow> vshell \<Rightarrow> vshell" where
  "unset_process_env name shell = shell\<lparr>env := (env shell)(name := None)\<rparr>"

definition sync_visible_var_env :: "memory \<Rightarrow> string \<Rightarrow> vshell \<Rightarrow> int \<times> vshell" where
  "sync_visible_var_env mem name shell =
     (case lookup_visible_var shell (frames shell) name False of
        (found, Some v, exported) \<Rightarrow>
          if found \<and> exported then set_process_env mem name v shell else (0, unset_process_env name shell)
      | (found, None, exported) \<Rightarrow> (0, unset_process_env name shell))"

subsection \<open>Assignment\<close>

definition arksh_shell_set_var :: "memory \<Rightarrow> vshell \<Rightarrow> string \<Rightarrow> string \<Rightarrow> bool \<Rightarrow> int \<times> vshell" where
  "arksh_shell_set_var mem shell name v exported =
     (if \<not> is_valid_identifier name then (1, shell)
      else
        (case frames shell of
           f # fs \<Rightarrow>
             (case reserve_entry mem 1096 blank_scoped_var name (f_vars f) of
                None \<Rightarrow> (1, shell)
              | Some (i, t) \<Rightarrow>
                  (let (visible_found, visible_value, visible_exported) = lookup_visible_var shell fs name False;
                       e = entries t ! i;
                       effective_exported = (exported \<or> v_exported e \<or> visible_found \<and> visible_exported);
                       e1 = e\<lparr>v_value := copy_string max_var_value v, v_exported := effective_exported, v_deleted := False\<rparr>;
                       shell1 = shell\<lparr>frames := f\<lparr>f_vars := t\<lparr>entries := (entries t)[i := e1]\<rparr>\<rparr> # fs\<rparr> in
                   if effective_exported then
                     (case set_process_env mem name (copy_string max_var_value v) shell1 of
                        (status, shell2) \<Rightarrow> (if status \<noteq> 0 then 1 else 0, shell2))
                   else (0, shell1)))
         | [] \<Rightarrow>
             (case reserve_entry mem 1092 blank_var name (vars shell) of
                None \<Rightarrow> (1, shell)
              | Some (i, t) \<Rightarrow>
                  (let e = entries t ! i;
                       effective_exported = (exported \<or> v_exported e);
                       e1 = e\<lparr>v_value := copy_string max_var_value v, v_exported := effective_exported\<rparr>;
                       shell1 = shell\<lparr>vars := t\<lparr>entries := (entries t)[i := e1]\<rparr>\<rparr> in
                   if effective_exported then
                     (case set_process_env mem name (copy_string max_var_value v) shell1 of
                        (status, shell2) \<Rightarrow> (if status \<noteq> 0 then 1 else 0, shell2))
                   else (0, shell1)))))"

definition arksh_shell_unset_var :: "memory \<Rightarrow> vshell \<Rightarrow> string \<Rightarrow> int \<times> vshell" where
  "arksh_shell_unset_var mem shell name =
     (if \<not> is_valid_identifier name then (1, shell)
      else
        (case frames shell of
           f # fs \<Rightarrow>
             (case reserve_entry mem 1096 blank_scoped_var name (f_vars f) of
                None \<Rightarrow> (1, shell)
              | Some (i, t) \<Rightarrow>
                  (let e1 = (entries t ! i)\<lparr>v_value := [], v_exported := False, v_deleted := True\<rparr>;
                       shell1 = shell\<lparr>frames := f\<lparr>f_vars := t\<lparr>entries := (entries t)[i := e1]\<rparr>\<rparr> # fs\<rparr> in
                   sync_visible_var_env mem name shell1))
         | [] \<Rightarrow>
             (let t = vars shell;
                  shell1 = (case find_var (entries t) name of
                      None \<Rightarrow> shell
                    | Some i \<Rightarrow> shell\<lparr>vars := t\<lparr>entries := take i (entries t) @ drop (i + 1) (entries t)\<rparr>\<rparr>) in
              (0, unset_process_env name shell1))))"

subsection \<open>Scopes\<close>

definition arksh_shell_push_scope_frame :: "memory \<Rightarrow> vshell \<Rightarrow> int \<times> vshell" where
  "arksh_shell_push_scope_frame mem shell =
     (if calloc_ok mem then (0, shell\<lparr>frames := empty_frame # frames shell\<rparr>) else (1, shell))"

definition arksh_shell_pop_scope_frame :: "memory \<Rightarrow> vshell \<Rightarrow> vshell" where
  "arksh_shell_pop_scope_frame mem shell =
     (case frames shell of
        [] \<Rightarrow> shell
      | f # fs \<Rightarrow>
          foldl (\<lambda>s e. snd (sync_visible_var_env mem (v_name e) s)) (shell\<lparr>frames := fs\<rparr>) (entries (f_vars f)))"

subsection \<open>Positional parameters\<close>

definition assign_positional :: "string list \<Rightarrow> string list \<Rightarrow> nat \<Rightarrow> positional" where
  "assign_positional values cells old_count =
     (let n = length values in
      \<lparr>pos_params = map (copy_string max_var_value) values @
         map (\<lambda>i. if i < old_count then [] else cells ! i) [n..<length cells],
       pos_count = n\<rparr>)"

definition arksh_shell_set_positional_argv :: "memory \<Rightarrow> vshell \<Rightarrow> string list \<Rightarrow> int \<times> vshell" where
  "arksh_shell_set_positional_argv mem shell values =
     (let n = length values;
          target = (case frames shell of [] \<Rightarrow> top_pos shell | f # fs \<Rightarrow> f_pos f) in
      if n > max_positional_params then (1, shell)
      else
        (case (if n > 0
               then grow_heap_array (realloc_ok mem) [] max_var_value max_positional_params n (pos_params target)
               else Some (pos_params target)) of
           None \<Rightarrow> (1, shell)
         | Some cells \<Rightarrow>
             (let p = assign_positional values cells (pos_count target) in
              (0, case frames shell of
                    [] \<Rightarrow> shell\<lparr>top_pos := p\<rparr>
                  | f # fs \<Rightarrow> shell\<lparr>frames := f\<lparr>f_pos := p, has_positional := True\<rparr> # fs\<rparr>))))"

fun find_nearest_positional_frame :: "scope_frame list \<Rightarrow> nat option" where
  "find_nearest_positional_frame [] = None"
| "find_nearest_positional_frame (f # fs) =
     (if has_positional f then Some 0 else map_option Suc (find_nearest_positional_frame fs))"

definition current_positional :: "vshell \<Rightarrow> positional" where
  "current_positional shell =
     (case find_nearest_positional_frame (frames shell) of
        Some k \<Rightarrow> f_pos (frames shell ! k)
      | None \<Rightarrow> top_pos shell)"

definition arksh_shell_get_positional_count :: "vshell \<Rightarrow> nat" where
  "arksh_shell_get_positional_count shell = pos_count (current_positional shell)"

definition arksh_shell_get_positional :: "vshell \<Rightarrow> int \<Rightarrow> string option" where
  "arksh_shell_get_positional shell index =
     (if index < 0 then None
      else
        (let p = current_positional shell in
         if nat index < pos_count p then Some (pos_params p ! nat index) else None))"

definition shift_params :: "nat \<Rightarrow> positional \<Rightarrow> positional" where
  "shift_params n p =
     (let c = pos_count p; cells = pos_params p in
      p\<lparr>pos_params := map (copy_string max_var_value) (drop n (take c cells)) @ replicate n [] @ drop c cells,
        pos_count := c - n\<rparr>)"

definition arksh_shell_shift_positional :: "vshell \<Rightarrow> int \<Rightarrow> int \<times> vshell" where
  "arksh_shell_shift_positional shell cnt =
     (if cnt < 0 then (1, shell)
      else if nat cnt > pos_count (current_positional shell) then (1, shell)
      else
        (case find_nearest_positional_frame (frames shell) of
           Some k \<Rightarrow>
             (let f = frames shell ! k in
              (0, shell\<lparr>frames := (frames shell)[k := f\<lparr>f_pos := shift_params (nat cnt) (f_pos f)\<rparr>]\<rparr>))
         | None \<Rightarrow> (0, shell\<lparr>top_pos := shift_params (nat cnt) (top_pos shell)\<rparr>)))"

subsection \<open>Name references\<close>

definition nameref_prefix :: string where
  "nameref_prefix = ''__ARKSH_NAMEREF__''"

definition arksh_shell_set_nameref :: "memory \<Rightarrow> vshell \<Rightarrow> string \<Rightarrow> string \<Rightarrow> int \<times> vshell" where
  "arksh_shell_set_nameref mem shell name target =
     (if \<not> is_valid_identifier name \<or> \<not> is_valid_identifier target then (1, shell)
      else if name = target then (1, shell)
      else if length (nameref_prefix @ target) \<ge> max_var_value then (1, shell)
      else arksh_shell_set_var mem shell name (nameref_prefix @ target) False)"

fun nameref_loop :: "vshell \<Rightarrow> nat \<Rightarrow> string \<Rightarrow> string option" where
  "nameref_loop shell 0 current = None"
| "nameref_loop shell (Suc hops) current =
     (case arksh_shell_get_var shell current of
        None \<Rightarrow> Some current
      | Some v \<Rightarrow>
          if \<not> next_is nameref_prefix v then Some current
          else nameref_loop shell hops (copy_string max_var_name (drop (length nameref_prefix) v)))"

definition arksh_shell_resolve_nameref :: "vshell \<Rightarrow> string \<Rightarrow> nat \<Rightarrow> string option" where
  "arksh_shell_resolve_nameref shell name out_size =
     (if out_size = 0 then None
      else
        (case arksh_shell_get_var shell name of
           None \<Rightarrow> None
         | Some v \<Rightarrow>
             if \<not> next_is nameref_prefix v then None
             else map_option (copy_string out_size)
                    (nameref_loop shell 32 (copy_string max_var_name (drop (length nameref_prefix) v)))))"

subsection \<open>Tables as maps\<close>

definition vmap :: "'z shell_var_scheme list \<Rightarrow> string \<Rightarrow> 'z shell_var_scheme option" where
  "vmap es = map_of (map (\<lambda>e. (v_name e, e)) es)"

lemma find_var_vmap: "vmap es name = map_option ((!) es) (find_var es name)"
proof -
  have "find_var es name = scan_names (map fst (map (\<lambda>e. (v_name e, e)) es)) name"
    by (simp add: find_var_def comp_def)
  then show ?thesis
    using scan_names_Some [of "map v_name es" name]
    by (cases "find_var es name") (auto simp: vmap_def scan_map_of find_var_def)
qed

lemma find_var_Some: "find_var es name = Some i \<Longrightarrow> i < length es \<and> v_name (es ! i) = name"
  using scan_names_Some [of "map v_name es" name i] by (auto simp: find_var_def)

lemma vmap_name: "vmap es name = Some e \<Longrightarrow> v_name e = name"
  by (auto simp: find_var_vmap dest: find_var_Some)

lemma vmap_update:
  "find_var es name = Some i \<Longrightarrow> v_name e = name \<Longrightarrow> vmap (es[i := e]) = (vmap es)(name \<mapsto> e)"
proof -
  assume f: "find_var es name = Some i" and n: "v_name e = name"
  let ?al = "map (\<lambda>e. (v_name e, e)) es"
  have "map (\<lambda>e. (v_name e, e)) (es[i := e]) = ?al[i := (name, e)]" using n by (simp add: map_update)
  also have "\<dots> = AList.update name e ?al"
    using f by (simp add: update_scan find_var_def comp_def)
  finally show ?thesis by (simp add: vmap_def AList.update_conv')
qed

lemma vmap_append:
  "find_var es name = None \<Longrightarrow> v_name e = name \<Longrightarrow> vmap (es @ [e]) = (vmap es)(name \<mapsto> e)"
proof -
  assume f: "find_var es name = None" and n: "v_name e = name"
  let ?al = "map (\<lambda>e. (v_name e, e)) es"
  have "map (\<lambda>e. (v_name e, e)) (es @ [e]) = ?al @ [(name, e)]" using n by simp
  also have "\<dots> = AList.update name e ?al"
    using f by (simp add: update_scan find_var_def comp_def)
  finally show ?thesis by (simp add: vmap_def AList.update_conv')
qed

text \<open>Reserving an entry and writing it updates the table's map.\<close>

lemma reserve_entry_update:
  assumes "reserve_entry mem sz blank name t0 = Some (i, t)" and "length name < 64"
    and "\<And>n. v_name (blank n) = n"
  shows "entries t ! i = (case vmap (entries t0) name of Some e \<Rightarrow> e | None \<Rightarrow> blank name)"
    and "v_name (entries t ! i) = name"
    and "v_name e = name \<Longrightarrow> vmap ((entries t)[i := e]) = (vmap (entries t0))(name \<mapsto> e)"
    and "v_name e = name \<Longrightarrow> distinct (map v_name (entries t0)) \<Longrightarrow> distinct (map v_name ((entries t)[i := e]))"
proof -
  have cp: "copy_string max_var_name name = name" using assms(2) by (simp add: max_var_name_def)
  consider (old) "find_var (entries t0) name = Some i" "t = t0"
    | (new) cap where "find_var (entries t0) name = None" "i = length (entries t0)"
        "t = t0\<lparr>entries := entries t0 @ [blank name], capacity := cap\<rparr>"
    using assms(1) cp by (auto simp: reserve_entry_def split: option.splits)
  note cases = this
  show "entries t ! i = (case vmap (entries t0) name of Some e \<Rightarrow> e | None \<Rightarrow> blank name)"
    by (cases rule: cases) (simp_all add: find_var_vmap)
  then show "v_name (entries t ! i) = name"
    using assms(3) vmap_name [of "entries t0" name] by (auto split: option.splits)
  show "vmap ((entries t)[i := e]) = (vmap (entries t0))(name \<mapsto> e)" if "v_name e = name"
    using that by (cases rule: cases) (simp_all add: vmap_update vmap_append)
  show "distinct (map v_name ((entries t)[i := e]))" if "v_name e = name" "distinct (map v_name (entries t0))"
  proof (cases rule: cases)
    case old
    then have "map v_name ((entries t)[i := e]) = map v_name (entries t0)"
      using that(1) find_var_Some [OF old(1)] by (simp add: map_update list_update_same_conv)
    with that(2) show ?thesis by simp
  next
    case (new cap)
    then show ?thesis using that scan_names_None [of "map v_name (entries t0)" name] by (simp add: find_var_def)
  qed
qed

lemma find_in_frames_vmap:
  "find_in_frames (f # fs) name =
     (case vmap (entries (f_vars f)) name of Some e \<Rightarrow> Some e | None \<Rightarrow> find_in_frames fs name)"
  by (simp add: find_var_vmap split: option.split)

lemma lookup_visible_var_vmap:
  "lookup_visible_var shell fs name incl =
     (case find_in_frames fs name of
        Some e \<Rightarrow> if v_deleted e then (True, None, False) else (True, Some (v_value e), v_exported e)
      | None \<Rightarrow>
          (case vmap (entries (vars shell)) name of
             Some e \<Rightarrow> (True, Some (v_value e), v_exported e)
           | None \<Rightarrow> (case (if incl then env shell name else None) of
                 Some v \<Rightarrow> (True, Some v, True) | None \<Rightarrow> (False, None, False))))"
  by (simp add: lookup_visible_var_def find_var_vmap Let_def split: option.split)

declare find_in_frames.simps(2) [simp del]

text \<open>What a name means without the environment, which is only consulted for unknown names.\<close>

definition visible_var :: "vshell \<Rightarrow> string \<Rightarrow> visible" where
  "visible_var shell name = lookup_visible_var shell (frames shell) name False"

lemma get_var_visible:
  "name \<noteq> [] \<Longrightarrow> arksh_shell_get_var shell name =
     (if fst (visible_var shell name) then fst (snd (visible_var shell name)) else env shell name)"
  by (auto simp: arksh_shell_get_var_def visible_var_def lookup_visible_var_vmap split: option.splits)

subsection \<open>Effect of the operations\<close>

definition tables_ok :: "vshell \<Rightarrow> bool" where
  "tables_ok shell \<longleftrightarrow> distinct (map v_name (entries (vars shell))) \<and>
     list_all (\<lambda>f. distinct (map v_name (entries (f_vars f)))) (frames shell)"

lemma vmap_blank: "v_name (blank_var n) = n" "v_name (blank_scoped_var n) = n"
  by (simp_all add: blank_var_def blank_scoped_var_def)

text \<open>
  What an assignment to \<open>name\<close> leaves: the state of the new shell in terms of the old one.  The flag
  \<open>ef\<close> is the export flag the variable ends up with.
\<close>

definition assigned :: "vshell \<Rightarrow> string \<Rightarrow> string \<Rightarrow> bool \<Rightarrow> vshell \<Rightarrow> bool" where
  "assigned shell name v ef shell' \<longleftrightarrow>
     visible_var shell' = (visible_var shell)(name := (True, Some v, ef)) \<and>
     env shell' = (if ef then (env shell)(name \<mapsto> v) else env shell) \<and>
     (snd (snd (visible_var shell name)) \<longrightarrow> ef) \<and>
     tl (frames shell') = tl (frames shell) \<and> length (frames shell') = length (frames shell) \<and>
     (frames shell \<noteq> [] \<longrightarrow> vars shell' = vars shell) \<and>
     (tables_ok shell \<longrightarrow> tables_ok shell') \<and> top_pos shell' = top_pos shell"

lemma set_var_frame:
  assumes "frames shell = f # fs" and "length name < 64" and "\<forall>n v. setenv_ok mem n v"
    and "arksh_shell_set_var mem shell name v ex = (st, shell')"
  shows "(st = 1 \<and> shell' = shell) \<or>
    (\<exists>ef. st = 0 \<and> (ex \<longrightarrow> ef) \<and> assigned shell name (copy_string max_var_value v) ef shell')"
proof (cases "\<not> is_valid_identifier name \<or> reserve_entry mem 1096 blank_scoped_var name (f_vars f) = None")
  case True
  then have "arksh_shell_set_var mem shell name v ex = (1, shell)"
    using assms(1) by (cases "is_valid_identifier name") (simp_all add: arksh_shell_set_var_def)
  with assms(4) show ?thesis by simp
next
  case False
  then obtain i t where r: "reserve_entry mem 1096 blank_scoped_var name (f_vars f) = Some (i, t)"
    and valid: "is_valid_identifier name" by auto
  note u = reserve_entry_update [OF r assms(2) vmap_blank(2)]
  obtain vf vv vx where vis: "lookup_visible_var shell fs name False = (vf, vv, vx)" by (metis prod_cases3)
  define e where "e = entries t ! i"
  define ef where "ef = (ex \<or> v_exported e \<or> vf \<and> vx)"
  define e1 where "e1 = e\<lparr>v_value := copy_string max_var_value v, v_exported := ef, v_deleted := False\<rparr>"
  define f' where "f' = f\<lparr>f_vars := t\<lparr>entries := (entries t)[i := e1]\<rparr>\<rparr>"
  have n1: "v_name e1 = name" using u(2) by (simp add: e1_def e_def)
  have "arksh_shell_set_var mem shell name v ex = (0, shell\<lparr>frames := f' # fs,
      env := (if ef then (env shell)(name \<mapsto> copy_string max_var_value v) else env shell)\<rparr>)"
    unfolding arksh_shell_set_var_def assms(1) list.case r option.case prod.case vis Let_def
      e_def [symmetric] ef_def [symmetric] e1_def [symmetric] f'_def [symmetric]
    using valid assms(3) by (simp add: set_process_env_def)
  then have s: "st = 0" "shell' = shell\<lparr>frames := f' # fs,
      env := (if ef then (env shell)(name \<mapsto> copy_string max_var_value v) else env shell)\<rparr>"
    using assms(4) by simp_all
  have m: "vmap (entries (f_vars f')) = (vmap (entries (f_vars f)))(name \<mapsto> e1)"
    using u(3) [OF n1] by (simp add: f'_def)
  have "visible_var shell' = (visible_var shell)(name := (True, Some (copy_string max_var_value v), ef))"
  proof
    fix x
    show "visible_var shell' x = ((visible_var shell)(name := (True, Some (copy_string max_var_value v), ef))) x"
      using m assms(1) by (auto simp: s visible_var_def lookup_visible_var_vmap find_in_frames_vmap e1_def split: option.splits)
  qed
  moreover have "snd (snd (visible_var shell name)) \<longrightarrow> ef"
    using vis assms(1) u(1)
    by (auto simp: visible_var_def lookup_visible_var_vmap find_in_frames_vmap ef_def e_def split: option.splits if_splits)
  moreover have "tables_ok shell \<longrightarrow> tables_ok shell'"
    using assms(1) u(4) [OF n1] by (simp add: tables_ok_def s f'_def)
  ultimately have "assigned shell name (copy_string max_var_value v) ef shell'"
    using assms(1) unfolding assigned_def s(2) by simp
  moreover have "ex \<longrightarrow> ef" by (simp add: ef_def)
  ultimately show ?thesis using s(1) by blast
qed

lemma set_var_top:
  assumes "frames shell = []" and "length name < 64" and "\<forall>n v. setenv_ok mem n v"
    and "arksh_shell_set_var mem shell name v ex = (st, shell')"
  shows "(st = 1 \<and> shell' = shell) \<or>
    (\<exists>ef. st = 0 \<and> (ex \<longrightarrow> ef) \<and> assigned shell name (copy_string max_var_value v) ef shell')"
proof (cases "\<not> is_valid_identifier name \<or> reserve_entry mem 1092 blank_var name (vars shell) = None")
  case True
  then have "arksh_shell_set_var mem shell name v ex = (1, shell)"
    using assms(1) by (cases "is_valid_identifier name") (simp_all add: arksh_shell_set_var_def)
  with assms(4) show ?thesis by simp
next
  case False
  then obtain i t where r: "reserve_entry mem 1092 blank_var name (vars shell) = Some (i, t)"
    and valid: "is_valid_identifier name" by auto
  note u = reserve_entry_update [OF r assms(2) vmap_blank(1)]
  define e where "e = entries t ! i"
  define ef where "ef = (ex \<or> v_exported e)"
  define e1 where "e1 = e\<lparr>v_value := copy_string max_var_value v, v_exported := ef\<rparr>"
  define t' where "t' = t\<lparr>entries := (entries t)[i := e1]\<rparr>"
  have n1: "v_name e1 = name" using u(2) by (simp add: e1_def e_def)
  have "arksh_shell_set_var mem shell name v ex = (0, shell\<lparr>vars := t',
      env := (if ef then (env shell)(name \<mapsto> copy_string max_var_value v) else env shell)\<rparr>)"
    unfolding arksh_shell_set_var_def assms(1) list.case r option.case prod.case Let_def
      e_def [symmetric] ef_def [symmetric] e1_def [symmetric] t'_def [symmetric]
    using valid assms(3) by (simp add: set_process_env_def)
  then have s: "st = 0" "shell' = shell\<lparr>vars := t',
      env := (if ef then (env shell)(name \<mapsto> copy_string max_var_value v) else env shell)\<rparr>"
    using assms(4) by simp_all
  have m: "vmap (entries t') = (vmap (entries (vars shell)))(name \<mapsto> e1)"
    using u(3) [OF n1] by (simp add: t'_def)
  have "visible_var shell' = (visible_var shell)(name := (True, Some (copy_string max_var_value v), ef))"
  proof
    fix x
    show "visible_var shell' x = ((visible_var shell)(name := (True, Some (copy_string max_var_value v), ef))) x"
      using m assms(1) by (auto simp: s visible_var_def lookup_visible_var_vmap e1_def split: option.splits)
  qed
  moreover have "snd (snd (visible_var shell name)) \<longrightarrow> ef"
    using assms(1) u(1) by (auto simp: visible_var_def lookup_visible_var_vmap ef_def e_def split: option.splits)
  moreover have "tables_ok shell \<longrightarrow> tables_ok shell'"
    using assms(1) u(4) [OF n1] by (simp add: tables_ok_def s t'_def)
  ultimately have "assigned shell name (copy_string max_var_value v) ef shell'"
    using assms(1) unfolding assigned_def s(2) by simp
  moreover have "ex \<longrightarrow> ef" by (simp add: ef_def)
  ultimately show ?thesis using s(1) by blast
qed

lemma set_var_effect:
  assumes "length name < 64" and "\<forall>n v. setenv_ok mem n v"
    and "arksh_shell_set_var mem shell name v ex = (st, shell')"
  shows "(st = 1 \<and> shell' = shell) \<or>
    (\<exists>ef. st = 0 \<and> (ex \<longrightarrow> ef) \<and> assigned shell name (copy_string max_var_value v) ef shell')"
  using set_var_frame [OF _ assms] set_var_top [OF _ assms] by (cases "frames shell") blast+

lemma visible_env [simp]: "visible_var (shell\<lparr>env := x\<rparr>) = visible_var shell"
  by (auto simp: fun_eq_iff visible_var_def lookup_visible_var_vmap split: option.splits)

lemma find_in_frames_cong: "map f_vars fs = map f_vars gs \<Longrightarrow> find_in_frames fs name = find_in_frames gs name"
proof (induction fs arbitrary: gs)
  case (Cons f fs)
  then obtain g gs' where "gs = g # gs'" "f_vars g = f_vars f" "map f_vars fs = map f_vars gs'" by auto
  with Cons.IH [of gs'] show ?case by (simp add: find_in_frames_vmap cong: option.case_cong)
qed simp

lemma visible_cong:
  "map f_vars (frames s) = map f_vars (frames s') \<Longrightarrow> vars s = vars s' \<Longrightarrow> visible_var s = visible_var s'"
  by (rule ext) (simp add: visible_var_def lookup_visible_var_vmap find_in_frames_cong [of "frames s" "frames s'"]
      cong: option.case_cong)

text \<open>The value a name should have in the environment of a child process.\<close>

definition exported_value :: "vshell \<Rightarrow> string \<Rightarrow> string option" where
  "exported_value shell name =
     (case visible_var shell name of (found, v, exported) \<Rightarrow> if found \<and> exported then v else None)"

lemma sync_effect:
  assumes "\<forall>n v. setenv_ok mem n v"
  shows "sync_visible_var_env mem name shell = (0, shell\<lparr>env := (env shell)(name := exported_value shell name)\<rparr>)"
proof -
  obtain fd v ex where vis: "visible_var shell name = (fd, v, ex)" by (metis prod_cases3)
  then have "exported_value shell name = (if fd \<and> ex then v else None)" by (simp add: exported_value_def)
  with assms show ?thesis
    unfolding sync_visible_var_env_def visible_var_def [symmetric] vis prod.case
    by (cases v) (auto simp: set_process_env_def unset_process_env_def)
qed

lemma sync_all_effect:
  assumes "\<forall>n v. setenv_ok mem n v"
  shows "foldl (\<lambda>s e. snd (sync_visible_var_env mem (v_name e) s)) shell es =
    shell\<lparr>env := (\<lambda>n. if n \<in> v_name ` set es then exported_value shell n else env shell n)\<rparr>"
proof (induction es arbitrary: shell)
  case (Cons e es)
  have ev: "exported_value (shell\<lparr>env := x\<rparr>) = exported_value shell" for x
    by (simp add: fun_eq_iff exported_value_def)
  let ?x = "(env shell)(v_name e := exported_value shell (v_name e))"
  have "snd (sync_visible_var_env mem (v_name e) shell) = shell\<lparr>env := ?x\<rparr>"
    by (simp add: sync_effect [OF assms])
  moreover have "(\<lambda>n. if n \<in> v_name ` set es then exported_value (shell\<lparr>env := ?x\<rparr>) n else ?x n) =
      (\<lambda>n. if n \<in> v_name ` set (e # es) then exported_value shell n else env shell n)"
    unfolding ev by (auto simp: fun_eq_iff)
  ultimately show ?case using Cons [of "shell\<lparr>env := ?x\<rparr>"] by (simp cong: if_cong)
qed simp

lemma pop_effect:
  assumes "\<forall>n v. setenv_ok mem n v" and "frames shell = f # fs"
  shows "arksh_shell_pop_scope_frame mem shell = shell\<lparr>frames := fs,
    env := (\<lambda>n. if n \<in> v_name ` set (entries (f_vars f)) then exported_value (shell\<lparr>frames := fs\<rparr>) n else env shell n)\<rparr>"
  using sync_all_effect [OF assms(1), of "shell\<lparr>frames := fs\<rparr>"] assms(2)
  by (simp add: arksh_shell_pop_scope_frame_def cong: if_cong)

lemma vmap_delete:
  assumes "distinct (map v_name es)" and "find_var es name = Some i"
  shows "vmap (take i es @ drop (i + 1) es) = (vmap es)(name := None)"
proof -
  let ?al = "map (\<lambda>e. (v_name e, e)) es"
  have "distinct (map fst ?al)" using assms(1) by (simp add: comp_def)
  from delete_scan [OF this, of name] have "AList.delete name ?al = take i ?al @ drop (Suc i) ?al"
    using assms(2) by (simp add: find_var_def comp_def)
  then show ?thesis by (simp add: vmap_def take_map drop_map AList.delete_conv' [symmetric])
qed

text \<open>What removing \<open>name\<close> leaves.\<close>

definition removed :: "vshell \<Rightarrow> string \<Rightarrow> vshell \<Rightarrow> bool" where
  "removed shell name shell' \<longleftrightarrow>
     (\<exists>fd. visible_var shell' = (visible_var shell)(name := (fd, None, False))) \<and>
     env shell' = (env shell)(name := None) \<and>
     tl (frames shell') = tl (frames shell) \<and> length (frames shell') = length (frames shell) \<and>
     (frames shell \<noteq> [] \<longrightarrow> vars shell' = vars shell) \<and> tables_ok shell' \<and> top_pos shell' = top_pos shell"

lemma unset_var_top:
  assumes "frames shell = []" and "tables_ok shell" and "arksh_shell_unset_var mem shell name = (st, shell')"
  shows "(st = 1 \<and> shell' = shell) \<or> (st = 0 \<and> removed shell name shell')"
proof (cases "is_valid_identifier name")
  case False
  then show ?thesis using assms by (simp add: arksh_shell_unset_var_def)
next
  case True
  define es' where "es' = (case find_var (entries (vars shell)) name of None \<Rightarrow> entries (vars shell)
      | Some i \<Rightarrow> take i (entries (vars shell)) @ drop (i + 1) (entries (vars shell)))"
  have s: "st = 0" "shell' = shell\<lparr>vars := (vars shell)\<lparr>entries := es'\<rparr>, env := (env shell)(name := None)\<rparr>"
    using assms(1,3) True
    by (auto simp: arksh_shell_unset_var_def Let_def unset_process_env_def es'_def split: option.splits)
  have d: "distinct (map v_name (entries (vars shell)))" using assms(2) by (simp add: tables_ok_def)
  have m: "vmap es' = (vmap (entries (vars shell)))(name := None)"
  proof (cases "find_var (entries (vars shell)) name")
    case None
    then have "vmap (entries (vars shell)) name = None" by (simp add: find_var_vmap)
    then show ?thesis using None by (auto simp: es'_def)
  next
    case (Some i)
    then show ?thesis using vmap_delete [OF d Some] by (simp add: es'_def)
  qed
  have "distinct (map v_name es')"
  proof (cases "find_var (entries (vars shell)) name")
    case None
    then show ?thesis using d by (simp add: es'_def)
  next
    case (Some i)
    let ?ns = "map v_name (entries (vars shell))"
    have "distinct (take i ?ns @ drop (Suc i) ?ns)"
      using d set_take_disj_set_drop_if_distinct [of ?ns i "Suc i"] by simp
    then show ?thesis using Some by (simp add: es'_def take_map drop_map)
  qed
  then have "tables_ok shell'" using assms(1) by (simp add: tables_ok_def s)
  moreover have "visible_var shell' = (visible_var shell)(name := (False, None, False))"
    using m assms(1) by (auto simp: fun_eq_iff s visible_var_def lookup_visible_var_vmap)
  ultimately have "removed shell name shell'"
    using assms(1) unfolding removed_def s(2) by auto
  with s(1) show ?thesis by blast
qed

lemma unset_var_frame:
  assumes "frames shell = f # fs" and "tables_ok shell" and "length name < 64" and "\<forall>n v. setenv_ok mem n v"
    and "arksh_shell_unset_var mem shell name = (st, shell')"
  shows "(st = 1 \<and> shell' = shell) \<or> (st = 0 \<and> removed shell name shell')"
proof (cases "\<not> is_valid_identifier name \<or> reserve_entry mem 1096 blank_scoped_var name (f_vars f) = None")
  case True
  then have "arksh_shell_unset_var mem shell name = (1, shell)"
    using assms(1) by (cases "is_valid_identifier name") (simp_all add: arksh_shell_unset_var_def)
  with assms(5) show ?thesis by simp
next
  case False
  then obtain i t where r: "reserve_entry mem 1096 blank_scoped_var name (f_vars f) = Some (i, t)"
    and valid: "is_valid_identifier name" by auto
  note u = reserve_entry_update [OF r assms(3) vmap_blank(2)]
  define e1 where "e1 = (entries t ! i)\<lparr>v_value := [], v_exported := False, v_deleted := True\<rparr>"
  define f' where "f' = f\<lparr>f_vars := t\<lparr>entries := (entries t)[i := e1]\<rparr>\<rparr>"
  let ?s1 = "shell\<lparr>frames := f' # fs\<rparr>"
  have n1: "v_name e1 = name" using u(2) by (simp add: e1_def)
  have m: "vmap (entries (f_vars f')) = (vmap (entries (f_vars f)))(name \<mapsto> e1)"
    using u(3) [OF n1] by (simp add: f'_def)
  have vis: "visible_var ?s1 = (visible_var shell)(name := (True, None, False))"
  proof
    fix x
    show "visible_var ?s1 x = ((visible_var shell)(name := (True, None, False))) x"
      using m assms(1) by (auto simp: visible_var_def lookup_visible_var_vmap find_in_frames_vmap e1_def split: option.splits)
  qed
  then have "exported_value ?s1 name = None" by (simp add: exported_value_def)
  then have "arksh_shell_unset_var mem shell name = (0, ?s1\<lparr>env := (env shell)(name := None)\<rparr>)"
    unfolding arksh_shell_unset_var_def assms(1) list.case r option.case prod.case Let_def
      e1_def [symmetric] f'_def [symmetric]
    using valid by (simp add: sync_effect [OF assms(4)])
  then have s: "st = 0" "shell' = ?s1\<lparr>env := (env shell)(name := None)\<rparr>" using assms(5) by simp_all
  have "tables_ok shell'" using assms(1,2) u(4) [OF n1] by (simp add: tables_ok_def s(2) f'_def)
  then have "removed shell name shell'"
    using assms(1) vis unfolding removed_def s(2) by (auto intro!: exI [of _ True])
  with s(1) show ?thesis by blast
qed

lemma unset_var_effect:
  assumes "tables_ok shell" and "length name < 64" and "\<forall>n v. setenv_ok mem n v"
    and "arksh_shell_unset_var mem shell name = (st, shell')"
  shows "(st = 1 \<and> shell' = shell) \<or> (st = 0 \<and> removed shell name shell')"
  using unset_var_frame [OF _ assms] unset_var_top [OF _ assms(1,4)] by (cases "frames shell") blast+

subsection \<open>Variables as a map\<close>

lemma assigned_get_var:
  "assigned shell name v ef shell' \<Longrightarrow> name \<noteq> [] \<Longrightarrow>
     arksh_shell_get_var shell' = (arksh_shell_get_var shell)(name \<mapsto> v)"
proof
  fix x
  assume "assigned shell name v ef shell'" "name \<noteq> []"
  then show "arksh_shell_get_var shell' x = ((arksh_shell_get_var shell)(name \<mapsto> v)) x"
    by (cases "x = []") (auto simp: arksh_shell_get_var_def [of _ "[]"] get_var_visible assigned_def)
qed

lemma removed_get_var:
  "removed shell name shell' \<Longrightarrow> arksh_shell_get_var shell' = (arksh_shell_get_var shell)(name := None)"
proof
  fix x
  assume "removed shell name shell'"
  then show "arksh_shell_get_var shell' x = ((arksh_shell_get_var shell)(name := None)) x"
    by (cases "x = []") (auto simp: arksh_shell_get_var_def [of _ "[]"] get_var_visible removed_def)
qed

lemma valid_identifier_ne: "is_valid_identifier name \<Longrightarrow> name \<noteq> []"
  by (auto simp: is_valid_identifier_def)

lemma reserve_entry_total:
  assumes "\<forall>n. realloc_ok mem n" and "0 < sz" and "sz < 2 ^ 16"
    and "length (entries t) < max_shell_vars \<or> find_var (entries t) name \<noteq> None"
  shows "\<exists>i t'. reserve_entry mem sz blank name t = Some (i, t')"
proof (cases "find_var (entries t) name")
  case None
  then have "length (entries t) + 1 \<le> max_shell_vars" using assms(4) by simp
  moreover have "max_shell_vars * sz < 2 ^ 64" using assms(3) by (simp add: max_shell_vars_def)
  ultimately obtain xs where "grow_heap_array (realloc_ok mem) () sz max_shell_vars (length (entries t) + 1)
      (replicate (capacity t) ()) = Some xs"
    using grow_total [of "length (entries t) + 1" max_shell_vars sz "realloc_ok mem" "()" "replicate (capacity t) ()"]
      assms(1,2) by auto
  with None show ?thesis by (simp add: reserve_entry_def grow_capacity_def)
qed (simp add: reserve_entry_def)

definition scope_room :: "vshell \<Rightarrow> string \<Rightarrow> bool" where
  "scope_room shell name \<longleftrightarrow>
     (case frames shell of
        [] \<Rightarrow> length (entries (vars shell)) < max_shell_vars \<or> find_var (entries (vars shell)) name \<noteq> None
      | f # fs \<Rightarrow> length (entries (f_vars f)) < max_shell_vars \<or> find_var (entries (f_vars f)) name \<noteq> None)"

lemma set_var_succeeds:
  assumes "is_valid_identifier name" and "\<forall>n. realloc_ok mem n" and "\<forall>n v. setenv_ok mem n v"
    and "scope_room shell name"
  shows "fst (arksh_shell_set_var mem shell name v ex) = 0"
proof (cases "frames shell")
  case Nil
  then obtain i t where "reserve_entry mem 1092 blank_var name (vars shell) = Some (i, t)"
    using reserve_entry_total [OF assms(2), of 1092 "vars shell" name blank_var] assms(4)
    by (auto simp: scope_room_def)
  then show ?thesis
    using Nil assms(1,3) by (simp add: arksh_shell_set_var_def Let_def set_process_env_def)
next
  case (Cons f fs)
  then obtain i t where "reserve_entry mem 1096 blank_scoped_var name (f_vars f) = Some (i, t)"
    using reserve_entry_total [OF assms(2), of 1096 "f_vars f" name blank_scoped_var] assms(4)
    by (auto simp: scope_room_def)
  then show ?thesis
    using Cons assms(1,3) by (simp add: arksh_shell_set_var_def Let_def set_process_env_def split: prod.split)
qed

text \<open>
  (C37) Assignment refines updating a map from names to values.  With names below 64 characters,
  a successful assignment makes the name read as the value, cut to 1023 characters, and leaves every
  other name alone; a refused one changes nothing; unsetting makes the name unknown; and an
  assignment to a valid name succeeds while the innermost scope has room and memory lasts.
\<close>

theorem set_var_refines_map:
  assumes "tables_ok shell" and "length name < 64" and "\<forall>n v. setenv_ok mem n v"
    and "arksh_shell_set_var mem shell name v ex = (st, shell')"
    and "arksh_shell_unset_var mem shell name = (ust, ushell')"
  shows "(st = 0 \<longrightarrow> arksh_shell_get_var shell' = (arksh_shell_get_var shell)(name \<mapsto> copy_string max_var_value v)) \<and>
    (st \<noteq> 0 \<longrightarrow> shell' = shell) \<and>
    (is_valid_identifier name \<and> scope_room shell name \<and> (\<forall>n. realloc_ok mem n) \<longrightarrow> st = 0) \<and>
    (ust = 0 \<longrightarrow> arksh_shell_get_var ushell' = (arksh_shell_get_var shell)(name := None)) \<and>
    (ust \<noteq> 0 \<longrightarrow> ushell' = shell)"
proof -
  have ne: "name \<noteq> []" if "st = 0"
  proof
    assume "name = []"
    then show False using assms(4) that by (simp add: arksh_shell_set_var_def is_valid_identifier_def)
  qed
  have "(st = 1 \<and> shell' = shell) \<or>
      (st = 0 \<and> arksh_shell_get_var shell' = (arksh_shell_get_var shell)(name \<mapsto> copy_string max_var_value v))"
    using set_var_effect [OF assms(2-4)] assigned_get_var [OF _ ne] by blast
  moreover have "(ust = 1 \<and> ushell' = shell) \<or>
      (ust = 0 \<and> arksh_shell_get_var ushell' = (arksh_shell_get_var shell)(name := None))"
    using unset_var_effect [OF assms(1-3,5)] removed_get_var by blast
  moreover have "is_valid_identifier name \<and> scope_room shell name \<and> (\<forall>n. realloc_ok mem n) \<longrightarrow> st = 0"
    using set_var_succeeds [of name mem shell v ex] assms(3,4) by simp
  ultimately show ?thesis by (elim disjE) simp_all
qed

text \<open>The variables meet the contract of a table with names when \<open>setenv\<close> has memory.\<close>

interpretation var_store: keyed_store "\<lambda>_. True"
  "\<lambda>name v. is_valid_identifier name \<and> length name < 64 \<and> length v < 1024"
  arksh_shell_get_var
  "\<lambda>s name v. arksh_shell_set_var (mem\<lparr>setenv_ok := \<lambda>_ _. True\<rparr>) s name v ex"
  for mem ex
proof
  fix s :: vshell and k v :: string
  let ?mem = "mem\<lparr>setenv_ok := \<lambda>_ _. True\<rparr>"
  assume fits: "is_valid_identifier k \<and> length k < 64 \<and> length v < 1024"
  obtain st s' where r: "arksh_shell_set_var ?mem s k v ex = (st, s')" by fastforce
  have v: "copy_string max_var_value v = v" using fits by (simp add: max_var_value_def)
  have "k \<noteq> []" using fits valid_identifier_ne by blast
  then have e: "(st = 1 \<and> s' = s) \<or> (st = 0 \<and> arksh_shell_get_var s' = (arksh_shell_get_var s)(k \<mapsto> v))"
    using set_var_effect [OF _ _ r] fits assigned_get_var unfolding v by auto
  show "fst (arksh_shell_set_var ?mem s k v ex) = 0 \<Longrightarrow>
      arksh_shell_get_var (snd (arksh_shell_set_var ?mem s k v ex)) = (arksh_shell_get_var s)(k \<mapsto> v)"
    using e r by auto
  show "fst (arksh_shell_set_var ?mem s k v ex) \<noteq> 0 \<Longrightarrow>
      arksh_shell_get_var (snd (arksh_shell_set_var ?mem s k v ex)) = arksh_shell_get_var s"
    using e r by auto
qed simp

subsection \<open>Exported variables and the environment\<close>

definition env_ok :: "vshell \<Rightarrow> bool" where
  "env_ok shell \<longleftrightarrow> tables_ok shell \<and> (\<forall>n v. exported_value shell n = Some v \<longrightarrow> env shell n = Some v)"

text \<open>Operations that touch only positional parameters.\<close>

definition same_vars :: "vshell \<Rightarrow> vshell \<Rightarrow> bool" where
  "same_vars shell shell' \<longleftrightarrow> map f_vars (frames shell') = map f_vars (frames shell) \<and>
     vars shell' = vars shell \<and> env shell' = env shell"

lemma same_vars_positional: "same_vars shell (snd (arksh_shell_set_positional_argv mem shell values))"
  by (auto simp: same_vars_def arksh_shell_set_positional_argv_def Let_def split: option.splits list.splits)

lemma nearest_Some: "find_nearest_positional_frame fs = Some k \<Longrightarrow> k < length fs"
  by (induction fs arbitrary: k) (auto split: if_splits)

lemma same_vars_shift: "same_vars shell (snd (arksh_shell_shift_positional shell n))"
  using nearest_Some [of "frames shell"]
  by (auto simp: same_vars_def arksh_shell_shift_positional_def Let_def map_update split: option.splits
      intro!: list_update_same_conv [THEN iffD2])

lemma same_vars_visible: "same_vars shell shell' \<Longrightarrow> visible_var shell' = visible_var shell"
  by (rule visible_cong) (simp_all add: same_vars_def)

lemma tables_ok_cong:
  "tables_ok shell \<longleftrightarrow> distinct (map v_name (entries (vars shell))) \<and>
     list_all (\<lambda>t. distinct (map v_name (entries t))) (map f_vars (frames shell))"
  by (simp add: tables_ok_def list_all_iff)

lemma same_vars_env_ok: "same_vars shell shell' \<Longrightarrow> env_ok shell \<Longrightarrow> env_ok shell'"
  using same_vars_visible [of shell shell']
  by (simp add: env_ok_def tables_ok_cong exported_value_def same_vars_def)

lemma assigned_env_ok: "assigned shell name v ef shell' \<Longrightarrow> env_ok shell \<Longrightarrow> env_ok shell'"
  by (auto simp: env_ok_def exported_value_def assigned_def split: if_splits)

lemma removed_env_ok: "removed shell name shell' \<Longrightarrow> env_ok shell \<Longrightarrow> env_ok shell'"
  by (auto simp: env_ok_def exported_value_def removed_def split: if_splits)

lemma push_visible: "visible_var (shell\<lparr>frames := empty_frame # frames shell\<rparr>) = visible_var shell"
  by (rule ext) (simp add: visible_var_def lookup_visible_var_vmap find_in_frames_vmap empty_frame_def vmap_def
      cong: option.case_cong)

lemma push_env_ok: "env_ok shell \<Longrightarrow> env_ok (shell\<lparr>frames := empty_frame # frames shell\<rparr>)"
  using push_visible [of shell]
  by (auto simp: env_ok_def exported_value_def tables_ok_def empty_frame_def)

lemma pop_env_ok:
  assumes "\<forall>n v. setenv_ok mem n v" and "env_ok shell"
  shows "env_ok (arksh_shell_pop_scope_frame mem shell)"
proof (cases "frames shell")
  case Nil
  then show ?thesis using assms(2) by (simp add: arksh_shell_pop_scope_frame_def)
next
  case (Cons f fs)
  let ?s = "shell\<lparr>frames := fs\<rparr>"
  have hidden: "exported_value ?s n = exported_value shell n" if "n \<notin> v_name ` set (entries (f_vars f))" for n
  proof -
    have "vmap (entries (f_vars f)) n = None" using that by (auto simp: vmap_def map_of_eq_None_iff)
    then have "find_in_frames (f # fs) n = find_in_frames fs n" by (simp add: find_in_frames_vmap)
    then show ?thesis using Cons by (simp add: exported_value_def visible_var_def lookup_visible_var_vmap cong: option.case_cong)
  qed
  have "exported_value (?s\<lparr>env := x\<rparr>) = exported_value ?s" for x by (simp add: fun_eq_iff exported_value_def)
  moreover have "tables_ok (?s\<lparr>env := x\<rparr>)" for x using assms(2) Cons by (simp add: env_ok_def tables_ok_def)
  ultimately show ?thesis
    unfolding pop_effect [OF assms(1) Cons] using assms(2) hidden by (simp add: env_ok_def)
qed

text \<open>The states a shell can be in, from a start without variables of its own.\<close>

inductive var_session :: "memory \<Rightarrow> vshell \<Rightarrow> bool" for mem :: memory where
  start: "entries (vars s) = [] \<Longrightarrow> frames s = [] \<Longrightarrow> var_session mem s"
| set: "var_session mem s \<Longrightarrow> length name < 64 \<Longrightarrow> var_session mem (snd (arksh_shell_set_var mem s name v ex))"
| unset: "var_session mem s \<Longrightarrow> length name < 64 \<Longrightarrow> var_session mem (snd (arksh_shell_unset_var mem s name))"
| nameref: "var_session mem s \<Longrightarrow> length name < 64 \<Longrightarrow> var_session mem (snd (arksh_shell_set_nameref mem s name target))"
| push: "var_session mem s \<Longrightarrow> var_session mem (snd (arksh_shell_push_scope_frame mem s))"
| pop: "var_session mem s \<Longrightarrow> var_session mem (arksh_shell_pop_scope_frame mem s)"
| positional: "var_session mem s \<Longrightarrow> var_session mem (snd (arksh_shell_set_positional_argv mem s values))"
| shift: "var_session mem s \<Longrightarrow> var_session mem (snd (arksh_shell_shift_positional s n))"

lemma set_var_env_ok:
  assumes "env_ok s" and "length name < 64" and "\<forall>n v. setenv_ok mem n v"
  shows "env_ok (snd (arksh_shell_set_var mem s name v ex))"
proof -
  obtain st s' where r: "arksh_shell_set_var mem s name v ex = (st, s')" by fastforce
  show ?thesis using set_var_effect [OF assms(2,3) r] assigned_env_ok assms(1) r by auto
qed

lemma unset_var_env_ok:
  assumes "env_ok s" and "length name < 64" and "\<forall>n v. setenv_ok mem n v"
  shows "env_ok (snd (arksh_shell_unset_var mem s name))"
proof -
  obtain st s' where r: "arksh_shell_unset_var mem s name = (st, s')" by fastforce
  have "tables_ok s" using assms(1) by (simp add: env_ok_def)
  then show ?thesis using unset_var_effect [OF _ assms(2,3) r] removed_env_ok assms(1) r by auto
qed

lemma set_nameref_env_ok:
  assumes "env_ok s" and "length name < 64" and "\<forall>n v. setenv_ok mem n v"
  shows "env_ok (snd (arksh_shell_set_nameref mem s name target))"
  using set_var_env_ok [OF assms] assms(1) by (simp add: arksh_shell_set_nameref_def)

lemma var_session_env_ok:
  assumes "var_session mem s" and "\<forall>n v. setenv_ok mem n v"
  shows "env_ok s"
  using assms(1)
proof induction
  case (start s)
  then show ?case
    by (simp add: env_ok_def tables_ok_def exported_value_def visible_var_def lookup_visible_var_vmap vmap_def)
next
  case (push s)
  then show ?case using push_env_ok by (auto simp: arksh_shell_push_scope_frame_def)
qed (use assms(2) in \<open>auto intro: set_var_env_ok unset_var_env_ok set_nameref_env_ok pop_env_ok
    same_vars_env_ok [OF same_vars_positional] same_vars_env_ok [OF same_vars_shift]\<close>)


definition plenty :: memory where
  "plenty = \<lparr>realloc_ok = (\<lambda>_. True), calloc_ok = True, setenv_ok = (\<lambda>_ _. True)\<rparr>"

definition login_shell :: vshell where
  "login_shell = \<lparr>vars = \<lparr>entries = [], capacity = 0\<rparr>, frames = [], top_pos = \<lparr>pos_params = [], pos_count = 0\<rparr>,
     env = [''PATH'' \<mapsto> ''/bin'']\<rparr>"

lemma plenty_ok: "\<forall>n. realloc_ok plenty n" "\<forall>n v. setenv_ok plenty n v" "calloc_ok plenty"
  by (simp_all add: plenty_def)

lemma login_shell_session: "var_session plenty login_shell"
  by (rule var_session.start) (simp_all add: login_shell_def)

lemma reserve_first:
  "find_var (entries t) name = None \<Longrightarrow> entries t = [] \<Longrightarrow> capacity t = 0 \<Longrightarrow> 0 < sz \<Longrightarrow> length name < 64 \<Longrightarrow>
     reserve_entry plenty sz blank name t = Some (0, t\<lparr>entries := [blank name], capacity := 4\<rparr>)"
  by (simp add: reserve_entry_def grow_capacity_def grow_heap_array_def grow_loop.simps plenty_def Let_def
      max_shell_vars_def max_var_name_def)

theorem set_var_refines_map_witness:
  "arksh_shell_get_var (snd (arksh_shell_set_var plenty login_shell ''EDITOR'' ''vi'' False)) ''EDITOR'' = Some ''vi'' \<and>
   arksh_shell_get_var (snd (arksh_shell_unset_var plenty login_shell ''PATH'')) ''PATH'' = None"
proof -
  have ok: "tables_ok login_shell" by (simp add: tables_ok_def login_shell_def)
  have valid: "is_valid_identifier ''EDITOR''" "is_valid_identifier ''PATH''" by code_simp+
  have room: "scope_room login_shell ''EDITOR''" by (simp add: scope_room_def login_shell_def max_shell_vars_def)
  obtain st s' where r: "arksh_shell_set_var plenty login_shell ''EDITOR'' ''vi'' False = (st, s')" by fastforce
  obtain ust us' where u: "arksh_shell_unset_var plenty login_shell ''EDITOR'' = (ust, us')" by fastforce
  obtain st1 s1 where r1: "arksh_shell_set_var plenty login_shell ''PATH'' [] False = (st1, s1)" by fastforce
  obtain ust1 us1 where u1: "arksh_shell_unset_var plenty login_shell ''PATH'' = (ust1, us1)" by fastforce
  have "ust1 = 0" using u1 valid(2) by (auto simp: arksh_shell_unset_var_def login_shell_def Let_def)
  then have "arksh_shell_get_var us1 ''PATH'' = None"
    using set_var_refines_map [OF ok _ plenty_ok(2) r1 u1] by simp
  moreover have "arksh_shell_get_var s' ''EDITOR'' = Some ''vi''"
    using set_var_refines_map [OF ok _ plenty_ok(2) r u] valid(1) room plenty_ok(1)
    by (simp add: max_var_value_def)
  ultimately show ?thesis using r u1 by simp
qed

lemma set_first_exported:
  "arksh_shell_set_var plenty login_shell ''EDITOR'' ''vi'' True =
     (0, login_shell\<lparr>vars := \<lparr>entries = [\<lparr>v_name = ''EDITOR'', v_value = ''vi'', v_exported = True\<rparr>], capacity = 4\<rparr>,
           env := [''PATH'' \<mapsto> ''/bin'', ''EDITOR'' \<mapsto> ''vi'']\<rparr>)"
proof -
  have "is_valid_identifier ''EDITOR''" by code_simp
  moreover have "reserve_entry plenty 1092 blank_var ''EDITOR'' (vars login_shell) =
      Some (0, (vars login_shell)\<lparr>entries := [blank_var ''EDITOR''], capacity := 4\<rparr>)"
    by (rule reserve_first) (simp_all add: login_shell_def find_var_def)
  ultimately show ?thesis
    by (simp add: arksh_shell_set_var_def login_shell_def blank_var_def Let_def set_process_env_def plenty_def max_var_value_def)
qed


subsection \<open>Scopes\<close>

text \<open>
  What can run inside a function: assignments, removals, positional parameters, and calls of further
  functions, each in a scope of its own that is left again.
\<close>

inductive runs :: "memory \<Rightarrow> vshell \<Rightarrow> vshell \<Rightarrow> bool" for mem :: memory where
  runs_refl: "runs mem s s"
| runs_set: "runs mem s s1 \<Longrightarrow> length name < 64 \<Longrightarrow> runs mem s (snd (arksh_shell_set_var mem s1 name v ex))"
| runs_unset: "runs mem s s1 \<Longrightarrow> length name < 64 \<Longrightarrow> runs mem s (snd (arksh_shell_unset_var mem s1 name))"
| runs_positional: "runs mem s s1 \<Longrightarrow> runs mem s (snd (arksh_shell_set_positional_argv mem s1 values))"
| runs_shift: "runs mem s s1 \<Longrightarrow> runs mem s (snd (arksh_shell_shift_positional s1 n))"
| runs_call: "runs mem s s1 \<Longrightarrow> arksh_shell_push_scope_frame mem s1 = (0, s2) \<Longrightarrow> runs mem s2 s3 \<Longrightarrow>
    runs mem s (arksh_shell_pop_scope_frame mem s3)"

text \<open>Only the innermost scope changes.\<close>

definition outer_same :: "vshell \<Rightarrow> vshell \<Rightarrow> bool" where
  "outer_same s s' \<longleftrightarrow> env_ok s' \<and> length (frames s') = length (frames s) \<and>
     map f_vars (tl (frames s')) = map f_vars (tl (frames s)) \<and> vars s' = vars s"

lemma outer_same_trans: "outer_same s s1 \<Longrightarrow> outer_same s1 s2 \<Longrightarrow> outer_same s s2"
  by (simp add: outer_same_def)

lemma outer_same_step:
  assumes "env_ok s" and "frames s \<noteq> []" and "\<forall>n v. setenv_ok mem n v"
  shows "length name < 64 \<Longrightarrow> outer_same s (snd (arksh_shell_set_var mem s name v ex))"
    and "length name < 64 \<Longrightarrow> outer_same s (snd (arksh_shell_unset_var mem s name))"
    and "same_vars s s' \<Longrightarrow> outer_same s s'"
proof -
  have ok: "tables_ok s" using assms(1) by (simp add: env_ok_def)
  show "outer_same s (snd (arksh_shell_set_var mem s name v ex))" if "length name < 64"
    using set_var_effect [OF that assms(3), of s v ex] set_var_env_ok [OF assms(1) that assms(3), of v ex] assms(1,2)
    by (cases "arksh_shell_set_var mem s name v ex") (auto simp: outer_same_def assigned_def)
  show "outer_same s (snd (arksh_shell_unset_var mem s name))" if "length name < 64"
    using unset_var_effect [OF ok that assms(3)] unset_var_env_ok [OF assms(1) that assms(3)] assms(1,2)
    by (cases "arksh_shell_unset_var mem s name") (auto simp: outer_same_def removed_def)
  show "outer_same s s'" if "same_vars s s'"
    using same_vars_env_ok [OF that assms(1)] that map_eq_imp_length_eq [of f_vars "frames s'" f_vars "frames s"]
    by (auto simp: outer_same_def same_vars_def map_tl)
qed

lemma pop_frames:
  assumes "\<forall>n v. setenv_ok mem n v" and "frames s \<noteq> []"
  shows "frames (arksh_shell_pop_scope_frame mem s) = tl (frames s)"
    and "vars (arksh_shell_pop_scope_frame mem s) = vars s"
  using assms pop_effect [OF assms(1)] by (cases "frames s"; simp)+

lemma runs_outer_same:
  assumes "\<forall>n v. setenv_ok mem n v" and "runs mem s s'" and "env_ok s" and "frames s \<noteq> []"
  shows "outer_same s s'"
  using assms(2-4)
proof induction
  case (runs_refl s)
  then show ?case by (simp add: outer_same_def)
next
  case (runs_call s s1 s2 s3)
  have s1: "outer_same s s1" using runs_call by blast
  then have "env_ok s1" "frames s1 \<noteq> []" using runs_call.prems(2) by (auto simp: outer_same_def)
  moreover have s2: "s2 = s1\<lparr>frames := empty_frame # frames s1\<rparr>"
    using runs_call.hyps(2) by (simp add: arksh_shell_push_scope_frame_def split: if_splits)
  ultimately have s3: "outer_same s2 s3" using runs_call.IH(2) push_env_ok by simp
  have ne: "frames s3 \<noteq> []" using s3 s2 by (auto simp: outer_same_def)
  have "map f_vars (tl (tl (frames s3))) = map f_vars (tl (frames s1))"
    using s3 s2 by (simp add: outer_same_def map_tl)
  moreover have "env_ok (arksh_shell_pop_scope_frame mem s3)"
    using s3 pop_env_ok [OF assms(1)] by (simp add: outer_same_def)
  ultimately show ?case
    using s1 s3 s2 ne pop_frames [OF assms(1) ne] by (simp add: outer_same_def)
next
  case (runs_set s s1 name v ex)
  then show ?case using outer_same_step(1) [OF _ _ assms(1), of s1 name v ex] outer_same_trans [of s s1]
    by (fastforce simp: outer_same_def)
next
  case (runs_unset s s1 name)
  then show ?case using outer_same_step(2) [OF _ _ assms(1), of s1 name] outer_same_trans [of s s1]
    by (fastforce simp: outer_same_def)
next
  case (runs_positional s s1 vs)
  then show ?case
    using outer_same_step(3) [OF _ _ assms(1), of s1, OF _ _ same_vars_positional] outer_same_trans [of s s1]
    by (fastforce simp: outer_same_def)
next
  case (runs_shift s s1 n)
  then show ?case
    using outer_same_step(3) [OF _ _ assms(1), of s1, OF _ _ same_vars_shift] outer_same_trans [of s s1]
    by (fastforce simp: outer_same_def)
qed

lemma scope_outer:
  assumes "env_ok s" and "\<forall>n v. setenv_ok mem n v" and "arksh_shell_push_scope_frame mem s = (0, s1)"
    and "runs mem s1 s2"
  shows "frames s2 \<noteq> []" and "map f_vars (tl (frames s2)) = map f_vars (frames s)" and "vars s2 = vars s"
    and "env_ok s2"
proof -
  have s1: "s1 = s\<lparr>frames := empty_frame # frames s\<rparr>"
    using assms(3) by (simp add: arksh_shell_push_scope_frame_def split: if_splits)
  then have "outer_same s1 s2" using runs_outer_same [OF assms(2,4)] push_env_ok [OF assms(1)] by simp
  then show "frames s2 \<noteq> []" "map f_vars (tl (frames s2)) = map f_vars (frames s)" "vars s2 = vars s" "env_ok s2"
    using s1 by (auto simp: outer_same_def)
qed

text \<open>
  A name the caller has in no table is found in a table of the call, reads as before, or has been
  removed from the environment.
\<close>

definition kept_or_lost :: "vshell \<Rightarrow> vshell \<Rightarrow> bool" where
  "kept_or_lost s s' \<longleftrightarrow>
     (\<forall>x. \<not> fst (visible_var s x) \<longrightarrow> fst (visible_var s' x) \<or> env s' x = env s x \<or> env s' x = None)"

lemma kept_or_lost_trans: "kept_or_lost s s1 \<Longrightarrow> kept_or_lost s1 s2 \<Longrightarrow>
    (\<And>x. fst (visible_var s1 x) \<Longrightarrow> fst (visible_var s2 x) \<or> env s2 x = None) \<Longrightarrow> kept_or_lost s s2"
  unfolding kept_or_lost_def by metis

lemma kept_or_lost_set:
  assumes "length name < 64" and "\<forall>n v. setenv_ok mem n v" and "kept_or_lost s s1"
  shows "kept_or_lost s (snd (arksh_shell_set_var mem s1 name v ex))"
proof -
  obtain st s2 where r: "arksh_shell_set_var mem s1 name v ex = (st, s2)" by fastforce
  from set_var_effect [OF assms(1,2) r] consider "s2 = s1" | v' ef where "assigned s1 name v' ef s2" by blast
  then show ?thesis
  proof cases
    case 2
    then show ?thesis using assms(3) r by (auto simp: kept_or_lost_def assigned_def)
  qed (use assms(3) r in simp)
qed

lemma kept_or_lost_unset:
  assumes "length name < 64" and "\<forall>n v. setenv_ok mem n v" and "tables_ok s1" and "kept_or_lost s s1"
  shows "kept_or_lost s (snd (arksh_shell_unset_var mem s1 name))"
proof -
  obtain st s2 where r: "arksh_shell_unset_var mem s1 name = (st, s2)" by fastforce
  from unset_var_effect [OF assms(3,1,2) r] consider "s2 = s1" | "removed s1 name s2" by blast
  then show ?thesis
  proof cases
    case 2
    then show ?thesis using assms(4) r by (auto simp: kept_or_lost_def removed_def)
  qed (use assms(4) r in simp)
qed

lemma kept_or_lost_same: "same_vars s1 s2 \<Longrightarrow> kept_or_lost s s1 \<Longrightarrow> kept_or_lost s s2"
  using same_vars_visible [of s1 s2] by (simp add: kept_or_lost_def same_vars_def)

lemma visible_names: "fst (visible_var (s\<lparr>frames := f # fs\<rparr>) x) \<Longrightarrow> x \<notin> v_name ` set (entries (f_vars f)) \<Longrightarrow>
    fst (visible_var (s\<lparr>frames := fs\<rparr>) x)"
proof -
  assume "fst (visible_var (s\<lparr>frames := f # fs\<rparr>) x)" and x: "x \<notin> v_name ` set (entries (f_vars f))"
  moreover have "vmap (entries (f_vars f)) x = None" using x by (auto simp: vmap_def map_of_eq_None_iff)
  ultimately show ?thesis
    by (auto simp: visible_var_def lookup_visible_var_vmap find_in_frames_vmap split: option.splits)
qed

text \<open>Leaving a scope that was entered in \<open>s\<close>.\<close>

lemma kept_or_lost_pop:
  assumes "\<forall>n v. setenv_ok mem n v" and "frames s3 \<noteq> []"
    and "visible_var (arksh_shell_pop_scope_frame mem s3) = visible_var s"
    and "kept_or_lost (s\<lparr>frames := empty_frame # frames s\<rparr>) s3"
  shows "kept_or_lost s (arksh_shell_pop_scope_frame mem s3)"
proof -
  obtain f fs where f: "frames s3 = f # fs" using assms(2) by (cases "frames s3") auto
  let ?s4 = "arksh_shell_pop_scope_frame mem s3"
  note pop = pop_effect [OF assms(1) f]
  have vis4: "visible_var (s3\<lparr>frames := fs\<rparr>) = visible_var s" using assms(3) unfolding pop by simp
  have vs2: "visible_var (s\<lparr>frames := empty_frame # frames s\<rparr>) = visible_var s"
    by (rule ext) (simp add: visible_var_def lookup_visible_var_vmap find_in_frames_vmap empty_frame_def vmap_def
        cong: option.case_cong)
  have "env ?s4 x = env s x \<or> env ?s4 x = None" if nf: "\<not> fst (visible_var s x)" for x
  proof (cases "x \<in> v_name ` set (entries (f_vars f))")
    case True
    then have "env ?s4 x = exported_value (s3\<lparr>frames := fs\<rparr>) x" unfolding pop by simp
    also have "\<dots> = None" using nf by (cases "visible_var s x") (simp add: exported_value_def vis4)
    finally show ?thesis by simp
  next
    case False
    have "s3\<lparr>frames := f # fs\<rparr> = s3" using f by (cases s3) simp
    then have "\<not> fst (visible_var s3 x)"
      using visible_names [where s = s3 and f = f and fs = fs and x = x] False nf vis4 by auto
    then have "env s3 x = env s x \<or> env s3 x = None"
      using assms(4) nf unfolding kept_or_lost_def vs2 by auto
    then show ?thesis using False unfolding pop by simp
  qed
  then show ?thesis by (simp add: kept_or_lost_def)
qed

lemma runs_kept_or_lost:
  assumes "\<forall>n v. setenv_ok mem n v" and "runs mem s s'" and "env_ok s" and "frames s \<noteq> []"
  shows "kept_or_lost s s'"
  using assms(2-4)
proof induction
  case (runs_refl s)
  then show ?case by (simp add: kept_or_lost_def)
next
  case (runs_call s s1 s2 s3)
  have s1: "outer_same s s1" using runs_outer_same [OF assms(1) runs_call.hyps(1) runs_call.prems] .
  then have ok1: "env_ok s1" "frames s1 \<noteq> []" using runs_call.prems(2) by (auto simp: outer_same_def)
  have s2: "s2 = s1\<lparr>frames := empty_frame # frames s1\<rparr>"
    using runs_call.hyps(2) by (simp add: arksh_shell_push_scope_frame_def split: if_splits)
  have ok2: "env_ok s2" "frames s2 \<noteq> []" using push_env_ok [OF ok1(1)] by (simp_all add: s2)
  have s3: "outer_same s2 s3" by (rule runs_outer_same [OF assms(1) runs_call.hyps(3) ok2])
  have ne: "frames s3 \<noteq> []" using s3 s2 by (auto simp: outer_same_def)
  have vis: "visible_var (arksh_shell_pop_scope_frame mem s3) = visible_var s1"
    by (rule visible_cong) (use s3 s2 pop_frames [OF assms(1) ne] in \<open>simp_all add: outer_same_def\<close>)
  have "kept_or_lost s1 (arksh_shell_pop_scope_frame mem s3)"
    using kept_or_lost_pop [OF assms(1) ne vis] runs_call.IH(2) [OF ok2] s2 by simp
  then show ?case
    using kept_or_lost_trans [OF runs_call.IH(1) [OF runs_call.prems]] by (simp add: vis)
next
  case (runs_set s s1 name v ex)
  then show ?case using kept_or_lost_set [OF _ assms(1)] by blast
next
  case (runs_unset s s1 name)
  have "env_ok s1" using runs_outer_same [OF assms(1) runs_unset.hyps(1) runs_unset.prems] by (simp add: outer_same_def)
  then show ?case using runs_unset kept_or_lost_unset [OF _ assms(1)] by (simp add: env_ok_def)
next
  case (runs_positional s s1 vals)
  then show ?case using kept_or_lost_same [OF same_vars_positional] by blast
next
  case (runs_shift s s1 n)
  then show ?case using kept_or_lost_same [OF same_vars_shift] by blast
qed

text \<open>
  (C36) A function call leaves alone the variables its caller keeps in the tables of the shell, global
  ones and those of its scopes: whatever runs in the scope of the call, nested calls included, after
  the scope is left every such name reads as before, and the exported ones have their values back in
  the process environment.  A variable that is only inherited in the process environment is not
  protected like that: it reads as before or it is unknown afterwards.
\<close>

theorem scope_restores_variables:
  assumes "var_session mem s" and "\<forall>n v. setenv_ok mem n v"
    and "arksh_shell_push_scope_frame mem s = (0, s1)" and "runs mem s1 s2"
    and "s' = arksh_shell_pop_scope_frame mem s2"
  shows "lookup_visible_var s' (frames s') name False = lookup_visible_var s (frames s) name False \<and>
    (if fst (lookup_visible_var s (frames s) name False)
     then arksh_shell_get_var s' name = arksh_shell_get_var s name
     else arksh_shell_get_var s' name \<in> {arksh_shell_get_var s name, None}) \<and>
    (\<forall>found v. lookup_visible_var s (frames s) name False = (found, Some v, True) \<longrightarrow> env s' name = Some v)"
proof -
  have sok: "env_ok s" by (rule var_session_env_ok [OF assms(1,2)])
  note o = scope_outer [OF sok assms(2-4)]
  note p = pop_frames [OF assms(2) o(1)]
  have vis: "visible_var s' = visible_var s" by (rule visible_cong) (simp_all add: assms(5) p o)
  have ok: "env_ok s'" using pop_env_ok [OF assms(2) o(4)] by (simp add: assms(5))
  have env: "env s' name = Some v" if "lookup_visible_var s (frames s) name False = (found, Some v, True)" for found v
  proof -
    have "found" using that by (auto simp: lookup_visible_var_vmap split: option.splits if_splits)
    with that have "exported_value s' name = Some v" by (simp add: exported_value_def vis visible_var_def)
    then show ?thesis using ok by (simp add: env_ok_def)
  qed
  have s1: "s1 = s\<lparr>frames := empty_frame # frames s\<rparr>"
    using assms(3) by (simp add: arksh_shell_push_scope_frame_def split: if_splits)
  have "kept_or_lost s1 s2"
    by (rule runs_kept_or_lost [OF assms(2,4)]) (use push_env_ok [OF sok] in \<open>simp_all add: s1\<close>)
  then have "kept_or_lost s s'"
    using kept_or_lost_pop [OF assms(2) o(1)] vis by (simp add: assms(5) s1)
  then have "if fst (visible_var s name) then arksh_shell_get_var s' name = arksh_shell_get_var s name
      else arksh_shell_get_var s' name \<in> {arksh_shell_get_var s name, None}"
    by (cases "name = []") (auto simp: arksh_shell_get_var_def [of _ "[]"] get_var_visible vis kept_or_lost_def)
  with vis env show ?thesis by (auto simp: visible_var_def fun_eq_iff)
qed

text \<open>
  Variables the shell only inherits are not protected: they live in the process environment and not
  in a table, so a plain local assignment to one makes leaving the scope remove it from the
  environment, and the caller has lost it.
\<close>

theorem local_assignment_drops_inherited:
  assumes "var_session mem s" and "\<forall>n v. setenv_ok mem n v"
    and "lookup_visible_var s (frames s) name False = (False, None, False)" and "env s name = Some v"
    and "length name < 64" and "arksh_shell_push_scope_frame mem s = (0, s1)"
    and "arksh_shell_set_var mem s1 name x False = (0, s2)"
  shows "arksh_shell_get_var s name = Some v \<and>
    arksh_shell_get_var (arksh_shell_pop_scope_frame mem s2) name = None"
proof -
  have run: "runs mem s1 s2" using runs.runs_set [OF runs.runs_refl assms(5), of mem s1 x False] assms(7) by simp
  note o = scope_outer [OF var_session_env_ok [OF assms(1,2)] assms(2,6) run]
  obtain f fs where f: "frames s2 = f # fs" using o(1) by (cases "frames s2") auto
  let ?s = "s2\<lparr>frames := fs\<rparr>"
  have vis: "visible_var ?s = visible_var s" by (rule visible_cong) (use o f in simp_all)
  have gone: "visible_var ?s name = (False, None, False)" using assms(3) unfolding vis by (simp add: visible_var_def)
  obtain ef where "assigned s1 name (copy_string max_var_value x) ef s2"
    using set_var_effect [OF assms(5,2,7)] by auto
  then have "visible_var s2 name = (True, Some (copy_string max_var_value x), ef)" by (simp add: assigned_def)
  with gone have "vmap (entries (f_vars f)) name \<noteq> None"
    using f by (auto simp: visible_var_def lookup_visible_var_vmap find_in_frames_vmap split: option.splits)
  then have "name \<in> v_name ` set (entries (f_vars f))" by (auto simp: vmap_def map_of_eq_None_iff image_image)
  then have e: "env (arksh_shell_pop_scope_frame mem s2) name = None"
    unfolding pop_effect [OF assms(2) f] using gone by (simp add: exported_value_def)
  have "visible_var (arksh_shell_pop_scope_frame mem s2) = visible_var ?s"
    unfolding pop_effect [OF assms(2) f] by simp
  moreover have ne: "name \<noteq> []"
    using assms(7) valid_identifier_ne [of name] by (cases "is_valid_identifier name") (auto simp: arksh_shell_set_var_def)
  ultimately show ?thesis
    using e gone assms(3,4) by (simp add: get_var_visible visible_var_def)
qed

lemma login_push:
  "arksh_shell_push_scope_frame plenty login_shell = (0, login_shell\<lparr>frames := [empty_frame]\<rparr>)"
  by (simp add: arksh_shell_push_scope_frame_def plenty_def login_shell_def)

theorem scope_restores_variables_witness:
  "arksh_shell_get_var (arksh_shell_pop_scope_frame plenty
       (snd (arksh_shell_set_var plenty ((snd (arksh_shell_set_var plenty login_shell ''X'' ''0'' True))
         \<lparr>frames := [empty_frame]\<rparr>) ''X'' ''1'' True))) ''X'' = Some ''0'' \<and>
   env (arksh_shell_pop_scope_frame plenty
       (snd (arksh_shell_set_var plenty ((snd (arksh_shell_set_var plenty login_shell ''X'' ''0'' True))
         \<lparr>frames := [empty_frame]\<rparr>) ''X'' ''1'' True))) ''X'' = Some ''0''"
proof -
  let ?s = "snd (arksh_shell_set_var plenty login_shell ''X'' ''0'' True)"
  let ?s1 = "?s\<lparr>frames := [empty_frame]\<rparr>"
  have session: "var_session plenty ?s" by (rule var_session.set [OF login_shell_session]) simp
  have "frames ?s = []" by code_simp
  then have push: "arksh_shell_push_scope_frame plenty ?s = (0, ?s1)"
    by (simp add: arksh_shell_push_scope_frame_def plenty_def)
  have run: "runs plenty ?s1 (snd (arksh_shell_set_var plenty ?s1 ''X'' ''1'' True))"
    by (rule runs.runs_set [OF runs.runs_refl]) simp
  have "lookup_visible_var ?s (frames ?s) ''X'' False = (True, Some ''0'', True)" by code_simp
  moreover have "arksh_shell_get_var ?s ''X'' = Some ''0''" by code_simp
  ultimately show ?thesis
    using scope_restores_variables [OF session plenty_ok(2) push run refl, of "''X''"] by auto
qed

theorem local_assignment_drops_inherited_witness:
  "arksh_shell_get_var login_shell ''PATH'' = Some ''/bin'' \<and>
   arksh_shell_get_var (arksh_shell_pop_scope_frame plenty
     (snd (arksh_shell_set_var plenty (login_shell\<lparr>frames := [empty_frame]\<rparr>) ''PATH'' ''/tmp'' False))) ''PATH'' = None"
proof -
  let ?s1 = "login_shell\<lparr>frames := [empty_frame]\<rparr>"
  obtain st s2 where r: "arksh_shell_set_var plenty ?s1 ''PATH'' ''/tmp'' False = (st, s2)" by fastforce
  have "is_valid_identifier ''PATH''" by code_simp
  moreover have "scope_room ?s1 ''PATH''" by (simp add: scope_room_def empty_frame_def max_shell_vars_def)
  ultimately have st: "st = 0" using set_var_succeeds [OF _ plenty_ok(1,2), of "''PATH''" ?s1 "''/tmp''" False] r by simp
  have "lookup_visible_var login_shell (frames login_shell) ''PATH'' False = (False, None, False)"
    by (simp add: lookup_visible_var_def login_shell_def find_var_def)
  moreover have "env login_shell ''PATH'' = Some ''/bin''" by (simp add: login_shell_def)
  ultimately show ?thesis
    using local_assignment_drops_inherited [OF login_shell_session plenty_ok(2) _ _ _ login_push, of "''PATH''" "''/bin''" "''/tmp''" s2]
      r st by simp
qed

text \<open>
  A name of 64 characters or more is stored cut short, so an assignment to it succeeds and the name
  still reads as before.
\<close>

lemma set_long_name_lost:
  assumes "frames shell = []" and "max_var_name \<le> length name" and "vmap (entries (vars shell)) name = None"
    and "arksh_shell_set_var mem shell name v False = (0, shell')"
  shows "arksh_shell_get_var shell' name = arksh_shell_get_var shell name"
proof -
  have nf: "find_var (entries (vars shell)) name = None"
    using assms(3) by (simp add: find_var_vmap)
  let ?cut = "copy_string max_var_name name"
  have "length ?cut = max_var_name - 1" using assms(2) by (simp add: copy_string_def)
  then have cut: "?cut \<noteq> name" using assms(2) by (auto simp: max_var_name_def)
  have s: "entries (vars shell') = entries (vars shell) @ [(blank_var ?cut)\<lparr>v_value := copy_string max_var_value v\<rparr>]"
    "frames shell' = []" "env shell' = env shell"
    using assms(1,4) nf
    by (auto simp: arksh_shell_set_var_def reserve_entry_def Let_def blank_var_def split: if_splits option.splits)
  have "vmap (entries (vars shell')) name = None"
    using assms(3) cut by (auto simp: s vmap_def map_of_eq_None_iff blank_var_def)
  then show ?thesis
    using assms(1,3) s
    by (simp add: arksh_shell_get_var_def lookup_visible_var_vmap)
qed

subsection \<open>Following name references\<close>

text \<open>The name a reference points to, and the reference chain followed for a number of steps.\<close>

definition nameref_of :: "vshell \<Rightarrow> string \<Rightarrow> string option" where
  "nameref_of shell name =
     (case arksh_shell_get_var shell name of
        None \<Rightarrow> None
      | Some v \<Rightarrow> if next_is nameref_prefix v then Some (copy_string max_var_name (drop (length nameref_prefix) v)) else None)"

fun follow :: "vshell \<Rightarrow> nat \<Rightarrow> string \<Rightarrow> string option" where
  "follow shell 0 name = Some name"
| "follow shell (Suc k) name = Option.bind (nameref_of shell name) (follow shell k)"

lemma nameref_loop_step:
  "nameref_loop shell (Suc hops) current =
     (case nameref_of shell current of None \<Rightarrow> Some current | Some m \<Rightarrow> nameref_loop shell hops m)"
  by (simp add: nameref_of_def split: option.split)

lemma nameref_loop_follow:
  "nameref_loop shell hops current = Some t \<longleftrightarrow>
     (\<exists>k < hops. follow shell k current = Some t \<and> nameref_of shell t = None)"
proof (induction hops arbitrary: current)
  case (Suc hops)
  show ?case
  proof (cases "nameref_of shell current")
    case None
    have "(\<exists>k < Suc hops. follow shell k current = Some t \<and> nameref_of shell t = None) \<longleftrightarrow> t = current"
    proof
      assume "\<exists>k < Suc hops. follow shell k current = Some t \<and> nameref_of shell t = None"
      then obtain k where "follow shell k current = Some t" by blast
      with None show "t = current" by (cases k) auto
    qed (use None in auto)
    with None show ?thesis unfolding nameref_loop_step by auto
  next
    case (Some m)
    have "(\<exists>k < Suc hops. follow shell k current = Some t \<and> nameref_of shell t = None) \<longleftrightarrow>
        (\<exists>k < hops. follow shell k m = Some t \<and> nameref_of shell t = None)"
    proof
      assume "\<exists>k < Suc hops. follow shell k current = Some t \<and> nameref_of shell t = None"
      then obtain k where k: "k < Suc hops" "follow shell k current = Some t" "nameref_of shell t = None" by blast
      with Some obtain j where "k = Suc j" by (cases k) auto
      with k Some show "\<exists>k < hops. follow shell k m = Some t \<and> nameref_of shell t = None" by auto
    next
      assume "\<exists>k < hops. follow shell k m = Some t \<and> nameref_of shell t = None"
      then obtain k where "k < hops" "follow shell k m = Some t" "nameref_of shell t = None" by blast
      with Some show "\<exists>k < Suc hops. follow shell k current = Some t \<and> nameref_of shell t = None"
        by (intro exI [of _ "Suc k"]) auto
    qed
    with Suc [of m] Some show ?thesis unfolding nameref_loop_step by simp
  qed
qed simp

lemma nameref_of_short: "nameref_of shell n = Some m \<Longrightarrow> length m < max_var_name"
  by (auto simp: nameref_of_def copy_string_def max_var_name_def split: option.splits if_splits)

lemma follow_short: "follow shell (Suc k) n = Some m \<Longrightarrow> length m < max_var_name"
  by (induction k arbitrary: n) (auto simp: bind_eq_Some_conv dest: nameref_of_short)

text \<open>
  Resolving a name reference ends, cycles included, and gives exactly the name at the end of the
  chain: \<open>t\<close> is the answer when between one and 32 references lead from the name to \<open>t\<close> and \<open>t\<close> is
  not a reference; a plain name, a cycle and a longer chain have no answer.
\<close>

theorem resolve_nameref_chain:
  "arksh_shell_resolve_nameref shell name max_var_name = Some t \<longleftrightarrow>
     (\<exists>k < 32. follow shell (Suc k) name = Some t \<and> nameref_of shell t = None)"
proof -
  have "arksh_shell_resolve_nameref shell name max_var_name =
      Option.bind (nameref_of shell name) (\<lambda>m. map_option (copy_string max_var_name) (nameref_loop shell 32 m))"
    by (simp add: arksh_shell_resolve_nameref_def nameref_of_def max_var_name_def split: option.split)
  moreover have "map_option (copy_string max_var_name) (nameref_loop shell 32 m) = nameref_loop shell 32 m"
    if "nameref_of shell name = Some m" for m
  proof (cases "nameref_loop shell 32 m")
    case (Some u)
    then obtain k where "follow shell k m = Some u" unfolding nameref_loop_follow by blast
    with that have "follow shell (Suc k) name = Some u" by simp
    from follow_short [OF this] Some show ?thesis by simp
  qed simp
  ultimately show ?thesis
    by (cases "nameref_of shell name") (auto simp: nameref_loop_follow)
qed

subsection \<open>Positional parameters\<close>

lemma current_positional_set:
  assumes "arksh_shell_set_positional_argv mem shell vs = (0, s1)"
  shows "\<exists>cells. current_positional s1 = assign_positional vs cells (pos_count
      (case frames shell of [] \<Rightarrow> top_pos shell | f # fs \<Rightarrow> f_pos f)) \<and> length vs \<le> length cells"
proof -
  define target where "target = (case frames shell of [] \<Rightarrow> top_pos shell | f # fs \<Rightarrow> f_pos f)"
  obtain cells where c: "(if length vs > 0
      then grow_heap_array (realloc_ok mem) [] max_var_value max_positional_params (length vs) (pos_params target)
      else Some (pos_params target)) = Some cells"
    and s: "s1 = (let p = assign_positional vs cells (pos_count target) in
        case frames shell of [] \<Rightarrow> shell\<lparr>top_pos := p\<rparr>
        | f # fs \<Rightarrow> shell\<lparr>frames := f\<lparr>f_pos := p, has_positional := True\<rparr> # fs\<rparr>)"
    using assms unfolding arksh_shell_set_positional_argv_def Let_def target_def [symmetric]
    by (auto split: if_splits option.splits)
  have "length vs \<le> length cells"
    using c grow_heap_array_SomeD [of "realloc_ok mem" "[]" max_var_value max_positional_params "length vs" "pos_params target" cells]
    by (auto split: if_splits)
  moreover have "current_positional s1 = assign_positional vs cells (pos_count target)"
    unfolding s by (cases "frames shell") (simp_all add: current_positional_def Let_def)
  ultimately show ?thesis unfolding target_def by blast
qed

lemma shift_current:
  assumes "0 \<le> n" and "nat n \<le> pos_count (current_positional s)"
    and "arksh_shell_shift_positional s n = (st, s2)"
  shows "st = 0 \<and> current_positional s2 = shift_params (nat n) (current_positional s)"
proof (cases "find_nearest_positional_frame (frames s)")
  case None
  with assms show ?thesis by (auto simp: arksh_shell_shift_positional_def current_positional_def)
next
  case (Some k)
  let ?g = "\<lambda>f. f\<lparr>f_pos := shift_params (nat n) (f_pos f)\<rparr>"
  have near: "find_nearest_positional_frame (fs[k := (fs ! k)\<lparr>f_pos := p\<rparr>]) = find_nearest_positional_frame fs"
    for fs k p
  proof (induction fs arbitrary: k)
    case (Cons f fs)
    then show ?case by (cases k) auto
  qed simp
  have "k < length (frames s)" using nearest_Some [OF Some] .
  with assms Some near [of "frames s" k] show ?thesis
    by (auto simp: arksh_shell_shift_positional_def current_positional_def Let_def)
qed

text \<open>
  Positional parameters behave as a list: after setting them to \<open>vs\<close>, shifting by a number between
  0 and their count drops that many from the front, so that parameter \<open>i\<close> reads as element \<open>i + n\<close> of
  \<open>vs\<close> cut to 1023 characters and reading past the end finds nothing; any other shift is refused.
\<close>

theorem positional_set_shift:
  assumes "arksh_shell_set_positional_argv mem shell vs = (0, s1)"
    and "arksh_shell_shift_positional s1 n = (st, s2)"
  shows "if 0 \<le> n \<and> n \<le> int (length vs)
    then st = 0 \<and> arksh_shell_get_positional_count s2 = length vs - nat n \<and>
      (\<forall>i. arksh_shell_get_positional s2 i =
         (if 0 \<le> i \<and> i + n < int (length vs) then Some (copy_string max_var_value (vs ! nat (i + n))) else None))
    else st = 1 \<and> s2 = s1"
proof -
  obtain cells old where cur: "current_positional s1 = assign_positional vs cells old" and len: "length vs \<le> length cells"
    using current_positional_set [OF assms(1)] by blast
  have c: "pos_count (current_positional s1) = length vs" by (simp add: cur assign_positional_def Let_def)
  show ?thesis
  proof (cases "0 \<le> n \<and> n \<le> int (length vs)")
    case True
    then have "st = 0 \<and> current_positional s2 = shift_params (nat n) (current_positional s1)"
      using shift_current [of n s1] assms(2) c by auto
    then have p: "st = 0" "pos_count (current_positional s2) = length vs - nat n"
      "take (length vs - nat n) (pos_params (current_positional s2)) = map (copy_string max_var_value) (drop (nat n) vs)"
      using cur by (simp_all add: shift_params_def assign_positional_def Let_def drop_map comp_def)
    have "pos_params (current_positional s2) ! j = copy_string max_var_value (vs ! (j + nat n))" if "j < length vs - nat n" for j
      using nth_take [OF that, of "pos_params (current_positional s2)"] p(3) that by (simp add: add.commute)
    with True p show ?thesis
      by (auto simp: arksh_shell_get_positional_def arksh_shell_get_positional_count_def Let_def nat_add_distrib)
  next
    case False
    then show ?thesis using assms(2) c by (auto simp: arksh_shell_shift_positional_def split: if_splits)
  qed
qed

theorem positional_set_shift_witness:
  "case arksh_shell_set_positional_argv plenty login_shell [''a'', ''b'', ''c''] of
     (st1, s1) \<Rightarrow> st1 = 0 \<and>
       (case arksh_shell_shift_positional s1 2 of
          (st2, s2) \<Rightarrow> st2 = 0 \<and> arksh_shell_get_positional_count s2 = 1 \<and>
            arksh_shell_get_positional s2 0 = Some ''c'')"
proof -
  obtain st1 s1 where r: "arksh_shell_set_positional_argv plenty login_shell [''a'', ''b'', ''c''] = (st1, s1)" by fastforce
  obtain st2 s2 where r2: "arksh_shell_shift_positional s1 2 = (st2, s2)" by fastforce
  have st1: "st1 = 0"
    using r by (auto simp: arksh_shell_set_positional_argv_def login_shell_def plenty_def grow_heap_array_def
        grow_loop.simps max_positional_params_def max_var_value_def Let_def)
  have "if 0 \<le> (2::int) \<and> 2 \<le> int (length [''a'', ''b'', ''c''])
    then st2 = 0 \<and> arksh_shell_get_positional_count s2 = length [''a'', ''b'', ''c''] - nat 2 \<and>
      (\<forall>i. arksh_shell_get_positional s2 i = (if 0 \<le> i \<and> i + 2 < int (length [''a'', ''b'', ''c''])
         then Some (copy_string max_var_value ([''a'', ''b'', ''c''] ! nat (i + 2))) else None))
    else st2 = 1 \<and> s2 = s1"
    by (rule positional_set_shift [OF r [unfolded st1] r2])
  then have "st2 = 0" "arksh_shell_get_positional_count s2 = 1"
    "arksh_shell_get_positional s2 0 = Some (copy_string max_var_value ([''a'', ''b'', ''c''] ! nat (0 + 2)))"
    by (auto simp: Let_def)
  moreover have "copy_string max_var_value ([''a'', ''b'', ''c''] ! nat (0 + 2)) = ''c''"
    by (simp add: max_var_value_def numeral_2_eq_2)
  ultimately show ?thesis using r r2 st1 by simp
qed

end
