(* ===== verification/Text_Codecs.thy ===== *)
theory Text_Codecs
  imports Arksh_Prelude
begin

text \<open>
  The text encodings of the program: JSON strings and file permissions of \<^verbatim>\<open>src/object.c\<close>, and the
  Base64 stages of \<^verbatim>\<open>src/executor.c\<close>.  Output buffers hold one character less than their size.
\<close>

unbundle bit_operations_syntax


subsection \<open>Buffers\<close>

definition append_char :: "nat \<Rightarrow> string \<Rightarrow> char \<Rightarrow> string option" where
  "append_char out_size out c = (if length out + 1 \<ge> out_size then None else Some (out @ [c]))"

definition append_text :: "nat \<Rightarrow> string \<Rightarrow> string \<Rightarrow> string option" where
  "append_text out_size out t = (if length out + length t \<ge> out_size then None else Some (out @ t))"

subsection \<open>Writing JSON strings\<close>

definition hex_digit :: "nat \<Rightarrow> char" where
  "hex_digit n = (if n < 10 then char_of (48 + n) else char_of (87 + n))"

definition json_escape :: "char \<Rightarrow> string" where
  "json_escape c =
     (if c = dquote then [bslash, dquote]
      else if c = bslash then [bslash, bslash]
      else if c = CHR 0x08 then [bslash, CHR ''b'']
      else if c = CHR 0x0C then [bslash, CHR ''f'']
      else if c = CHR 0x0A then [bslash, CHR ''n'']
      else if c = CHR 0x0D then [bslash, CHR ''r'']
      else if c = CHR 0x09 then [bslash, CHR ''t'']
      else
        (let n = (of_char c :: nat) in
         if n < 32 then [bslash, CHR ''u'', CHR ''0'', CHR ''0'', hex_digit (n div 16), hex_digit (n mod 16)]
         else [c]))"

fun json_escape_loop :: "nat \<Rightarrow> string \<Rightarrow> string \<Rightarrow> string option" where
  "json_escape_loop out_size out [] = Some out"
| "json_escape_loop out_size out (c # cs) =
     (case append_text out_size out (json_escape c) of
        None \<Rightarrow> None
      | Some out1 \<Rightarrow> json_escape_loop out_size out1 cs)"

definition append_json_escaped_string :: "nat \<Rightarrow> string \<Rightarrow> string option" where
  "append_json_escaped_string out_size t =
     (case append_char out_size [] dquote of
        None \<Rightarrow> None
      | Some out \<Rightarrow>
          (case json_escape_loop out_size out t of
             None \<Rightarrow> None
           | Some out1 \<Rightarrow> append_char out_size out1 dquote))"

subsection \<open>Reading JSON strings\<close>

datatype json_error =
  Expected_string | Control_character nat | String_too_large | Unterminated_escape |
  Invalid_escape char | Unterminated_string | Expected_hex | High_surrogate_alone |
  Expected_hex_low | Expected_low_surrogate | Unexpected_low_surrogate | No_message

definition is_hex :: "char \<Rightarrow> bool" where
  "is_hex h \<longleftrightarrow> (let n = (of_char h :: nat) in 48 \<le> n \<and> n \<le> 57 \<or> 97 \<le> n \<and> n \<le> 102 \<or> 65 \<le> n \<and> n \<le> 70)"

definition hex_value :: "char \<Rightarrow> nat" where
  "hex_value h = (let n = of_char h in if n \<le> 57 then n - 48 else if n \<le> 70 then n - 55 else n - 87)"

text \<open>The loop over four digits with the \<open>strtoul\<close> that follows it.\<close>

definition parse_hex4 :: "json_error \<Rightarrow> string \<Rightarrow> json_error + (nat \<times> string)" where
  "parse_hex4 err cs =
     (if length cs < 4 \<or> \<not> list_all is_hex (take 4 cs) then Inl err
      else Inr (foldl (\<lambda>n h. 16 * n + hex_value h) 0 (take 4 cs), drop 4 cs))"

definition utf8 :: "nat \<Rightarrow> string" where
  "utf8 cp =
     (if cp \<le> 0x7F then [char_of cp]
      else if cp \<le> 0x7FF then [char_of (0xC0 OR drop_bit 6 cp), char_of (0x80 OR cp AND 0x3F)]
      else if cp \<le> 0xFFFF then
        [char_of (0xE0 OR drop_bit 12 cp), char_of (0x80 OR drop_bit 6 cp AND 0x3F), char_of (0x80 OR cp AND 0x3F)]
      else
        [char_of (0xF0 OR drop_bit 18 cp), char_of (0x80 OR drop_bit 12 cp AND 0x3F),
         char_of (0x80 OR drop_bit 6 cp AND 0x3F), char_of (0x80 OR cp AND 0x3F)])"

text \<open>Characters are appended one by one; the call fails at the first that does not fit.\<close>

fun append_chars :: "nat \<Rightarrow> string \<Rightarrow> string \<Rightarrow> string option" where
  "append_chars out_size out [] = Some out"
| "append_chars out_size out (c # cs) =
     (case append_char out_size out c of None \<Rightarrow> None | Some out1 \<Rightarrow> append_chars out_size out1 cs)"

text \<open>
  A code point of zero is kept as a character of the text here.  In the buffer of the program it is a
  NUL, so whoever reads the buffer as a C string sees the text only up to it.
\<close>

definition put_code_point :: "nat \<Rightarrow> string \<Rightarrow> nat \<Rightarrow> string \<Rightarrow> json_error + (string \<times> string)" where
  "put_code_point out_size out cp rest =
     (case append_chars out_size out (utf8 cp) of None \<Rightarrow> Inl No_message | Some out1 \<Rightarrow> Inr (out1, rest))"

definition json_parse_unicode_escape ::
  "nat \<Rightarrow> string \<Rightarrow> string \<Rightarrow> json_error + (string \<times> string)" where
  "json_parse_unicode_escape out_size out cursor =
     bind_err (parse_hex4 Expected_hex cursor) (\<lambda>(cp, r).
       if 0xD800 \<le> cp \<and> cp \<le> 0xDBFF then
         (if \<not> next_is [bslash, CHR ''u''] r then Inl High_surrogate_alone
          else
            bind_err (parse_hex4 Expected_hex_low (drop 2 r)) (\<lambda>(low, r2).
              if low < 0xDC00 \<or> low > 0xDFFF then Inl Expected_low_surrogate
              else put_code_point out_size out (0x10000 + (cp - 0xD800) * 0x400 + (low - 0xDC00)) r2))
       else if 0xDC00 \<le> cp \<and> cp \<le> 0xDFFF then Inl Unexpected_low_surrogate
       else put_code_point out_size out cp r)"

lemma parse_hex4_shorter: "parse_hex4 err cs = Inr (n, r) \<Longrightarrow> length r < length cs"
  by (auto simp: parse_hex4_def split: if_splits)

lemma unicode_escape_shorter:
  "json_parse_unicode_escape out_size out cs = Inr (o1, r) \<Longrightarrow> length r < length cs"
  by (fastforce simp: json_parse_unicode_escape_def put_code_point_def err_simps
      dest!: parse_hex4_shorter split: if_splits option.splits)

definition simple_escape :: "char \<Rightarrow> char option" where
  "simple_escape c =
     (if c = dquote then Some dquote
      else if c = bslash then Some bslash
      else if c = CHR ''/'' then Some (CHR ''/'')
      else if c = CHR ''b'' then Some (CHR 0x08)
      else if c = CHR ''f'' then Some (CHR 0x0C)
      else if c = CHR ''n'' then Some (CHR 0x0A)
      else if c = CHR ''r'' then Some (CHR 0x0D)
      else if c = CHR ''t'' then Some (CHR 0x09)
      else None)"

definition put_char :: "nat \<Rightarrow> string \<Rightarrow> char \<Rightarrow> string \<Rightarrow> json_error + (string \<times> string)" where
  "put_char out_size out c rest =
     (case append_char out_size out c of None \<Rightarrow> Inl String_too_large | Some out1 \<Rightarrow> Inr (out1, rest))"

lemma put_char_rest: "put_char out_size out c rest = Inr (o1, r) \<Longrightarrow> r = rest"
  by (auto simp: put_char_def split: option.splits)

text \<open>One turn of the loop, at a character that is not the closing quote.\<close>

definition json_string_step :: "nat \<Rightarrow> string \<Rightarrow> char \<Rightarrow> string \<Rightarrow> json_error + (string \<times> string)" where
  "json_string_step out_size out c cs =
     (if c \<noteq> bslash then
        (if (of_char c :: nat) < 32 then Inl (Control_character (of_char c)) else put_char out_size out c cs)
      else
        (case cs of
           [] \<Rightarrow> Inl Unterminated_escape
         | e # es \<Rightarrow>
             if e = CHR ''u'' then json_parse_unicode_escape out_size out es
             else (case simple_escape e of
                     None \<Rightarrow> Inl (Invalid_escape e)
                   | Some d \<Rightarrow> put_char out_size out d es)))"

lemma json_string_step_shorter:
  assumes "json_string_step out_size out c cs = Inr (o1, r)"
  shows "length r < Suc (length cs)"
  using assms
  by (auto simp: json_string_step_def dest!: put_char_rest dest: unicode_escape_shorter
      split: if_splits list.splits option.splits)

function json_string_loop :: "nat \<Rightarrow> string \<Rightarrow> string \<Rightarrow> json_error + (string \<times> string)" where
  "json_string_loop out_size out [] = Inl Unterminated_string"
| "json_string_loop out_size out (c # cs) =
     (if c = dquote then Inr (out, cs)
      else bind_err (json_string_step out_size out c cs) (\<lambda>(o1, r). json_string_loop out_size o1 r))"
  by pat_completeness auto
termination
  by (relation "measure (\<lambda>(n, out, cs). length cs)") (auto dest: json_string_step_shorter)

definition json_parse_string :: "nat \<Rightarrow> string \<Rightarrow> json_error + (string \<times> string)" where
  "json_parse_string out_size cursor =
     (if \<not> next_is [dquote] cursor then Inl Expected_string
      else json_string_loop out_size [] (drop 1 cursor))"

subsection \<open>JSON strings round trip\<close>

lemma hex_digit_props:
  assumes "n < 16"
  shows "is_hex (hex_digit n)" and "hex_value (hex_digit n) = n" and "32 \<le> (of_char (hex_digit n) :: nat)"
proof -
  have "of_char (hex_digit n) = (if n < 10 then 48 + n else 87 + n)"
    using assms by (simp add: hex_digit_def)
  then show "is_hex (hex_digit n)" "hex_value (hex_digit n) = n" "32 \<le> (of_char (hex_digit n) :: nat)"
    using assms by (auto simp: is_hex_def hex_value_def Let_def)
qed

lemma hex_zero: "is_hex (CHR ''0'')" "hex_value (CHR ''0'') = 0"
  by code_simp+

lemma json_string_loop_step:
  "c \<noteq> dquote \<Longrightarrow> json_string_step m out c cs = Inr (o1, r) \<Longrightarrow>
     json_string_loop m out (c # cs) = json_string_loop m o1 r"
  by simp

lemma put_char_fits: "length out + 1 < m \<Longrightarrow> put_char m out c rest = Inr (out @ [c], rest)"
  by (simp add: put_char_def append_char_def)

lemma simple_step:
  assumes "simple_escape e = Some d" and "e \<noteq> CHR ''u''" and "length out + 1 < m"
  shows "json_string_loop m out (bslash # e # cs) = json_string_loop m (out @ [d]) cs"
  using assms by (intro json_string_loop_step) (simp_all add: json_string_step_def put_char_fits)

lemma unicode_step:
  assumes "n < 32" and "length out + 1 < m"
  shows "json_string_loop m out ([bslash, CHR ''u'', CHR ''0'', CHR ''0'', hex_digit (n div 16), hex_digit (n mod 16)] @ cs) =
    json_string_loop m (out @ [char_of n]) cs"
proof -
  have "n div 16 < 16" "n mod 16 < 16" using assms(1) by auto
  then have "parse_hex4 Expected_hex (CHR ''0'' # CHR ''0'' # hex_digit (n div 16) # hex_digit (n mod 16) # cs) = Inr (n, cs)"
    by (simp add: parse_hex4_def hex_zero hex_digit_props)
  then have "json_parse_unicode_escape m out (CHR ''0'' # CHR ''0'' # hex_digit (n div 16) # hex_digit (n mod 16) # cs) =
      Inr (out @ [char_of n], cs)"
    using assms by (simp add: json_parse_unicode_escape_def put_code_point_def utf8_def append_char_def)
  then show ?thesis by (simp add: json_string_step_def)
qed

lemma escape_step:
  assumes "length out + 1 < m"
  shows "json_string_loop m out (json_escape c @ cs) = json_string_loop m (out @ [c]) cs"
proof -
  let ?short = "{dquote, bslash, CHR 0x08, CHR 0x0C, CHR 0x0A, CHR 0x0D, CHR 0x09}"
  have short: "\<exists>e. json_escape c = [bslash, e] \<and> simple_escape e = Some c \<and> e \<noteq> CHR ''u''" if "c \<in> ?short"
    using that by (auto simp: json_escape_def simple_escape_def)
  have long: "json_escape c = (let n = (of_char c :: nat) in if n < 32
      then [bslash, CHR ''u'', CHR ''0'', CHR ''0'', hex_digit (n div 16), hex_digit (n mod 16)] else [c])"
    if "c \<notin> ?short"
    using that by (simp add: json_escape_def)
  consider (simple) e where "json_escape c = [bslash, e]" "simple_escape e = Some c" "e \<noteq> CHR ''u''"
    | (unicode) "(of_char c :: nat) < 32" "json_escape c = [bslash, CHR ''u'', CHR ''0'', CHR ''0'',
        hex_digit ((of_char c :: nat) div 16), hex_digit ((of_char c :: nat) mod 16)]"
    | (plain) "json_escape c = [c]" "c \<noteq> dquote" "c \<noteq> bslash" "\<not> (of_char c :: nat) < 32"
    using short long by (cases "c \<in> ?short"; cases "(of_char c :: nat) < 32") (auto simp: Let_def)
  then show ?thesis
  proof cases
    case (simple e)
    then show ?thesis using simple_step [OF simple(2,3) assms] by simp
  next
    case unicode
    then show ?thesis using unicode_step [OF unicode(1) assms, of cs] by simp
  next
    case plain
    have "json_string_loop m out (c # cs) = json_string_loop m (out @ [c]) cs"
      using plain by (intro json_string_loop_step) (simp_all add: json_string_step_def put_char_fits [OF assms])
    with plain(1) show ?thesis by simp
  qed
qed

lemma json_string_loop_escaped:
  "length out + length t < m \<Longrightarrow>
     json_string_loop m out (concat (map json_escape t) @ dquote # rest) = Inr (out @ t, rest)"
proof (induction t arbitrary: out)
  case (Cons c t)
  then show ?case using escape_step [of out m c "concat (map json_escape t) @ dquote # rest"] by simp
qed simp

lemma json_escape_loop_eq:
  "json_escape_loop n out t =
     (if t = [] \<or> length out + length (concat (map json_escape t)) < n then Some (out @ concat (map json_escape t)) else None)"
proof (induction t arbitrary: out)
  case (Cons c t)
  have "0 < length (json_escape c)" by (simp add: json_escape_def Let_def)
  with Cons show ?case by (auto simp: append_text_def)
qed simp

lemma append_json_escaped_string_eq:
  "append_json_escaped_string n t =
     (if length (concat (map json_escape t)) + 2 < n then Some (dquote # concat (map json_escape t) @ [dquote]) else None)"
  by (auto simp: append_json_escaped_string_def append_char_def json_escape_loop_eq)

lemma json_escape_printable: "list_all (\<lambda>d. 32 \<le> (of_char d :: nat)) (json_escape c)"
  by (auto simp: json_escape_def Let_def hex_digit_props)

text \<open>
  JSON strings round trip: a text whose escaped form fits is written as a quoted string without raw
  control characters, and reading that string, whatever follows it, gives the text back and stops
  behind the closing quote; otherwise writing reports that there is no room.
\<close>

theorem json_string_roundtrip:
  "case append_json_escaped_string n t of
     Some e \<Rightarrow> list_all (\<lambda>c. 32 \<le> (of_char c :: nat)) e \<and> length e < n \<and>
       (length t < m \<longrightarrow> json_parse_string m (e @ rest) = Inr (t, rest))
   | None \<Rightarrow> n \<le> length (concat (map json_escape t)) + 2"
proof -
  have "list_all (\<lambda>d. 32 \<le> (of_char d :: nat)) (concat (map json_escape t))"
    using json_escape_printable by (auto simp: list_all_iff)
  moreover have "json_parse_string m ((dquote # concat (map json_escape t) @ [dquote]) @ rest) = Inr (t, rest)"
    if "length t < m"
    using json_string_loop_escaped [of "[]" t m rest] that by (simp add: json_parse_string_def)
  ultimately show ?thesis by (auto simp: append_json_escaped_string_eq)
qed

theorem json_string_roundtrip_witness:
  "append_json_escaped_string 64 [CHR ''a'', dquote, CHR 0x0A, CHR 0x01] =
     Some [dquote, CHR ''a'', bslash, dquote, bslash, CHR ''n'', bslash, CHR ''u'', CHR ''0'', CHR ''0'', CHR ''0'', CHR ''1'', dquote] \<and>
   json_parse_string 64 ([dquote, CHR ''a'', bslash, dquote, bslash, CHR ''n'', bslash, CHR ''u'', CHR ''0'', CHR ''0'', CHR ''0'', CHR ''1'', dquote] @ '', 2]'') =
     Inr ([CHR ''a'', dquote, CHR 0x0A, CHR 0x01], '', 2]'')"
proof -
  have e: "append_json_escaped_string 64 [CHR ''a'', dquote, CHR 0x0A, CHR 0x01] =
     Some [dquote, CHR ''a'', bslash, dquote, bslash, CHR ''n'', bslash, CHR ''u'', CHR ''0'', CHR ''0'', CHR ''0'', CHR ''1'', dquote]"
    by code_simp
  with json_string_roundtrip [of 64 "[CHR ''a'', dquote, CHR 0x0A, CHR 0x01]" 64 "'', 2]''"] show ?thesis by simp
qed

subsection \<open>Base64\<close>

definition base64_alphabet :: string where
  "base64_alphabet = ''ABCDEFGHIJKLMNOPQRSTUVWXYZabcdefghijklmnopqrstuvwxyz0123456789+/''"

definition b64 :: "nat \<Rightarrow> char" where
  "b64 n = base64_alphabet ! n"

fun encode_groups :: "nat list \<Rightarrow> string" where
  "encode_groups [] = []"
| "encode_groups [b0] = [b64 (drop_bit 2 b0 AND 0x3F), b64 (push_bit 4 b0 AND 0x3F), CHR ''='', CHR ''='']"
| "encode_groups [b0, b1] =
     [b64 (drop_bit 2 b0 AND 0x3F), b64 ((push_bit 4 b0 OR drop_bit 4 b1) AND 0x3F), b64 (push_bit 2 b1 AND 0x3F), CHR ''='']"
| "encode_groups (b0 # b1 # b2 # bs) =
     [b64 (drop_bit 2 b0 AND 0x3F), b64 ((push_bit 4 b0 OR drop_bit 4 b1) AND 0x3F),
      b64 ((push_bit 2 b1 OR drop_bit 6 b2) AND 0x3F), b64 (b2 AND 0x3F)] @ encode_groups bs"

datatype base64_error = Input_too_long | Invalid_length | Invalid_character nat | Output_too_long

definition apply_base64_encode_stage :: "string \<Rightarrow> base64_error + string" where
  "apply_base64_encode_stage src =
     (if src = [] then Inr []
      else if ((length src + 2) div 3) * 4 \<ge> max_output then Inl Input_too_long
      else Inr (encode_groups (map of_char src)))"

definition decode_table :: "char \<Rightarrow> int" where
  "decode_table c =
     (let n = (of_char c :: int) in
      if n = 43 then 62 else if n = 47 then 63
      else if 48 \<le> n \<and> n \<le> 57 then n + 4
      else if n = 61 then -2
      else if 65 \<le> n \<and> n \<le> 90 then n - 65
      else if 97 \<le> n \<and> n \<le> 122 then n - 71
      else -1)"

text \<open>\<open>(unsigned char) c\<close> of a table entry, and the narrowing of the result to \<open>char\<close>.\<close>

definition u8 :: "int \<Rightarrow> nat" where
  "u8 c = nat (c mod 256)"

fun decode_groups :: "nat \<Rightarrow> string \<Rightarrow> string \<Rightarrow> base64_error + string" where
  "decode_groups i out (s0 # s1 # s2 # s3 # src) =
     (let c0 = decode_table s0; c1 = decode_table s1; c2 = decode_table s2; c3 = decode_table s3 in
      if c0 < 0 then Inl (Invalid_character i)
      else if c1 < 0 then Inl (Invalid_character (i + 1))
      else if c2 = -1 then Inl (Invalid_character (i + 2))
      else if c3 = -1 then Inl (Invalid_character (i + 3))
      else if length out + 3 \<ge> max_output then Inl Output_too_long
      else
        decode_groups (i + 4)
          (out @ [char_of (push_bit 2 (u8 c0) OR drop_bit 4 (u8 c1))] @
           (if c2 \<noteq> -2 then [char_of (push_bit 4 (u8 c1 AND 0x0F) OR drop_bit 2 (u8 c2))] else []) @
           (if c3 \<noteq> -2 then [char_of (push_bit 6 (u8 c2 AND 0x03) OR u8 c3)] else [])) src)"
| "decode_groups i out src = Inr out"

text \<open>The result is read back as a C string, up to the first NUL.\<close>

definition apply_base64_decode_stage :: "string \<Rightarrow> base64_error + string" where
  "apply_base64_decode_stage src =
     (if src = [] then Inr []
      else if length src mod 4 \<noteq> 0 then Inl Invalid_length
      else bind_err (decode_groups 0 [] src) (\<lambda>out. Inr (takeWhile (\<lambda>c. c \<noteq> CHR 0x00) out)))"

lemma decode_b64_all: "list_all (\<lambda>n. decode_table (b64 n) = int n) [0..<64]"
  by code_simp

lemma decode_b64: "n < 64 \<Longrightarrow> decode_table (b64 n) = int n"
  using decode_b64_all by (simp add: list_all_iff)

lemma and_63: "(n AND 0x3F :: nat) < 64"
  using take_bit_nat_less_exp [of 6 n] by (simp add: take_bit_eq_mask mask_eq_exp_minus_1)

lemma u8_small: "n < 64 \<Longrightarrow> u8 (int n) = n"
  by (simp add: u8_def)

lemma byte_bits: "(b::nat) < 256 \<Longrightarrow> bit b k \<Longrightarrow> k < 8"
  using take_bit_nat_eq_self_iff [of 8 b] bit_take_bit_iff [of 8 b k] by simp

lemma masks: "(63::nat) = mask 6" "(15::nat) = mask 4" "(3::nat) = mask 2"
  by (simp_all add: mask_eq_exp_minus_1)

lemmas b64_bits = bit_or_iff bit_and_iff bit_push_bit_iff bit_drop_bit_eq bit_mask_iff

lemma first_byte:
  assumes "(b0::nat) < 256" and "b1 < 256"
  shows "push_bit 2 (drop_bit 2 b0 AND 63) OR drop_bit 4 ((push_bit 4 b0 OR drop_bit 4 b1) AND 63) = b0"
proof (rule bit_eqI)
  fix n
  show "bit (push_bit 2 (drop_bit 2 b0 AND 63) OR drop_bit 4 ((push_bit 4 b0 OR drop_bit 4 b1) AND 63)) n \<longleftrightarrow> bit b0 n"
    using byte_bits [OF assms(1), of n] byte_bits [OF assms(2), of "8 + n"]
      le_add_diff_inverse [of 2 n]
    unfolding masks b64_bits by (cases "2 \<le> n") (auto simp del: le_add_diff_inverse add_2_eq_Suc)
qed

lemma second_byte:
  assumes "(b1::nat) < 256" and "b2 < 256"
  shows "push_bit 4 (((push_bit 4 b0 OR drop_bit 4 b1) AND 63) AND 15) OR
    drop_bit 2 ((push_bit 2 b1 OR drop_bit 6 b2) AND 63) = b1"
proof (rule bit_eqI)
  fix n
  show "bit (push_bit 4 (((push_bit 4 b0 OR drop_bit 4 b1) AND 63) AND 15) OR
      drop_bit 2 ((push_bit 2 b1 OR drop_bit 6 b2) AND 63)) n \<longleftrightarrow> bit b1 n"
    using byte_bits [OF assms(1), of n] byte_bits [OF assms(2), of "8 + n"]
    unfolding masks b64_bits by auto
qed

lemma third_byte:
  assumes "(b2::nat) < 256"
  shows "push_bit 6 (((push_bit 2 b1 OR drop_bit 6 b2) AND 63) AND 3) OR (b2 AND 63) = b2"
proof (rule bit_eqI)
  fix n
  show "bit (push_bit 6 (((push_bit 2 b1 OR drop_bit 6 b2) AND 63) AND 3) OR (b2 AND 63)) n \<longleftrightarrow> bit b2 n"
    using byte_bits [OF assms(1), of n] unfolding masks b64_bits by auto
qed

lemma b64_group:
  assumes "b0 < 256" and "b1 < 256" and "b2 < 256" and "length out + 3 < max_output"
  shows "decode_groups i out ([b64 (drop_bit 2 b0 AND 63), b64 ((push_bit 4 b0 OR drop_bit 4 b1) AND 63),
      b64 ((push_bit 2 b1 OR drop_bit 6 b2) AND 63), b64 (b2 AND 63)] @ src) =
    decode_groups (i + 4) (out @ [char_of b0, char_of b1, char_of b2]) src"
  using assms(4) first_byte [OF assms(1,2)] second_byte [OF assms(2,3)] third_byte [OF assms(3)]
  by (simp add: decode_b64 and_63 u8_small Let_def)

lemma eq_sign: "decode_table (CHR ''='') = -2"
  by code_simp

lemma decode_encode:
  "\<forall>b \<in> set bs. b < 256 \<Longrightarrow> length out + length bs + 2 < max_output \<Longrightarrow>
     decode_groups i out (encode_groups bs) = Inr (out @ map char_of bs)"
proof (induction bs arbitrary: i out rule: encode_groups.induct)
  case (2 b0)
  then show ?case
    using first_byte [of b0 0] by (simp add: decode_b64 and_63 u8_small eq_sign Let_def)
next
  case (3 b0 b1)
  then show ?case
    using first_byte [of b0 b1] second_byte [of b1 0 b0]
    by (simp add: decode_b64 and_63 u8_small eq_sign Let_def)
next
  case (4 b0 b1 b2 bs)
  then show ?case
    using b64_group [of b0 b1 b2 out i "encode_groups bs"] by simp
qed simp

lemma length_encode_groups: "length (encode_groups bs) = 4 * ((length bs + 2) div 3)"
proof (induction bs rule: encode_groups.induct)
  case (4 b0 b1 b2 bs)
  have "(length (b0 # b1 # b2 # bs) + 2) div 3 = ((length bs + 2) + 3) div 3" by (rule arg_cong [of _ _ "\<lambda>n. n div 3"]) simp
  also have "\<dots> = Suc ((length bs + 2) div 3)" by (subst div_add_self2) simp_all
  finally show ?case using 4 by (simp del: One_nat_def add_2_eq_Suc')
qed simp_all

lemma encode_groups_ne: "bs \<noteq> [] \<Longrightarrow> encode_groups bs \<noteq> []"
  by (cases bs rule: encode_groups.cases) auto

text \<open>
  Base64 round trips: every text whose encoding fits the output buffer is encoded, and decoding the
  encoding gives the text back; longer texts are refused.
\<close>

theorem base64_roundtrip:
  assumes "CHR 0x00 \<notin> set t"
  shows "case apply_base64_encode_stage t of
     Inr e \<Rightarrow> length e < max_output \<and> apply_base64_decode_stage e = Inr t
   | Inl err \<Rightarrow> err = Input_too_long \<and> max_output \<le> 4 * ((length t + 2) div 3)"
proof (cases "t = [] \<or> max_output \<le> 4 * ((length t + 2) div 3)")
  case True
  then show ?thesis
    by (auto simp: apply_base64_encode_stage_def apply_base64_decode_stage_def max_output_def mult.commute)
next
  case False
  define e where "e = encode_groups (map of_char t)"
  have enc: "apply_base64_encode_stage t = Inr e" using False by (simp add: apply_base64_encode_stage_def e_def mult.commute)
  have len: "length e = 4 * ((length t + 2) div 3)" by (simp add: e_def length_encode_groups)
  have "length t + 2 < 3 * ((length t + 2) div 3) + 3" by linarith
  moreover have "(length t + 2) div 3 < 2048" using False by (simp add: max_output_def)
  ultimately have "length t + 2 < max_output" by (simp add: max_output_def)
  then have "decode_groups 0 [] e = Inr (map char_of (map of_char t :: nat list))"
    unfolding e_def using decode_encode [of "map of_char t" "[]" 0] by simp
  moreover have "e \<noteq> []" using False by (simp add: e_def encode_groups_ne)
  moreover have "takeWhile (\<lambda>c. c \<noteq> CHR 0x00) t = t" using assms by (auto intro: takeWhile_eq_all_conv [THEN iffD2])
  ultimately show ?thesis
    using False len by (simp add: enc apply_base64_decode_stage_def comp_def)
qed

theorem base64_roundtrip_witness:
  "apply_base64_decode_stage ''aGVsbG8='' = Inr ''hello''"
proof -
  have "apply_base64_encode_stage ''hello'' = Inr ''aGVsbG8=''"
    by (simp add: apply_base64_encode_stage_def b64_def base64_alphabet_def max_output_def)
  with base64_roundtrip [of "''hello''"] show ?thesis by simp
qed

text \<open>Padding is not checked: it is accepted inside the text and in front of a digit.\<close>

lemma char_of_lits: "char_of (65::nat) = CHR ''A''" "char_of (128::nat) = CHR 0x80"
  by code_simp+

lemma base64_decode_bad_padding:
  "apply_base64_decode_stage ''QQ=A'' = Inr [CHR ''A'', CHR 0x80]"
  "apply_base64_decode_stage ''QQ==QQ=='' = Inr ''AA''"
  by (simp_all add: apply_base64_decode_stage_def decode_table_def u8_def max_output_def Let_def char_of_lits)

subsection \<open>File permissions\<close>

type_synonym perms = "32 word"

fun octal_digits :: "nat \<Rightarrow> nat \<Rightarrow> string" where
  "octal_digits 0 n = []"
| "octal_digits (Suc k) n = octal_digits k (n div 8) @ [digit_char (n mod 8)]"

text \<open>\<open>%04o\<close> and \<open>%03o\<close> of numbers with at most as many octal digits.\<close>

definition format_permission_octal :: "perms \<Rightarrow> string" where
  "format_permission_octal permissions =
     (let masked = permissions AND 0xFFF in
      if masked AND 0xE00 \<noteq> 0 then octal_digits 4 (unat masked)
      else octal_digits 3 (unat (masked AND 0x1FF)))"

definition flag_char :: "perms \<Rightarrow> perms \<Rightarrow> char \<Rightarrow> char" where
  "flag_char masked m c = (if masked AND m \<noteq> 0 then c else CHR ''-'')"

definition exec_char :: "perms \<Rightarrow> perms \<Rightarrow> perms \<Rightarrow> char \<Rightarrow> char \<Rightarrow> char" where
  "exec_char masked special x lower upper =
     (if masked AND special \<noteq> 0 then (if masked AND x \<noteq> 0 then lower else upper)
      else flag_char masked x (CHR ''x''))"

definition format_permission_rwx :: "perms \<Rightarrow> string" where
  "format_permission_rwx permissions =
     (let m = permissions AND 0xFFF in
      [flag_char m 0x100 (CHR ''r''), flag_char m 0x80 (CHR ''w''), exec_char m 0x800 0x40 (CHR ''s'') (CHR ''S''),
       flag_char m 0x20 (CHR ''r''), flag_char m 0x10 (CHR ''w''), exec_char m 0x400 0x8 (CHR ''s'') (CHR ''S''),
       flag_char m 0x4 (CHR ''r''), flag_char m 0x2 (CHR ''w''), exec_char m 0x200 0x1 (CHR ''t'') (CHR ''T'')])"

fun octal_loop :: "nat \<Rightarrow> string \<Rightarrow> nat option" where
  "octal_loop v [] = Some v"
| "octal_loop v (c # cs) =
     (if (of_char c :: nat) < 48 \<or> (of_char c :: nat) > 55 then None
      else
        (let v1 = v * 8 + (of_char c - 48) in
         if v1 > 0xFFF then None else octal_loop v1 cs))"

definition parse_octal_permissions :: "string \<Rightarrow> perms option" where
  "parse_octal_permissions t =
     (if t = [] then None
      else
        (case octal_loop 0 t of
           None \<Rightarrow> None
         | Some v \<Rightarrow> if length t < 3 \<or> length t > 4 then None else Some (of_nat v)))"

definition parse_flag :: "char \<Rightarrow> char \<Rightarrow> perms \<Rightarrow> perms option" where
  "parse_flag c on m = (if c = on then Some m else if c \<noteq> CHR ''-'' then None else Some 0)"

definition parse_exec :: "char \<Rightarrow> char \<Rightarrow> char \<Rightarrow> perms \<Rightarrow> perms \<Rightarrow> perms option" where
  "parse_exec c lower upper x special =
     (if c = CHR ''x'' then Some x
      else if c = lower then Some (x OR special)
      else if c = upper then Some special
      else if c \<noteq> CHR ''-'' then None else Some 0)"

fun or_all :: "perms option list \<Rightarrow> perms option" where
  "or_all [] = Some 0"
| "or_all (p # ps) = (case p of None \<Rightarrow> None | Some v \<Rightarrow> map_option (\<lambda>w. v OR w) (or_all ps))"

definition parse_rwx_permissions :: "string \<Rightarrow> perms option" where
  "parse_rwx_permissions t =
     (if length t \<noteq> 9 then None
      else or_all
        [parse_flag (t ! 0) (CHR ''r'') 0x100, parse_flag (t ! 1) (CHR ''w'') 0x80,
         parse_exec (t ! 2) (CHR ''s'') (CHR ''S'') 0x40 0x800,
         parse_flag (t ! 3) (CHR ''r'') 0x20, parse_flag (t ! 4) (CHR ''w'') 0x10,
         parse_exec (t ! 5) (CHR ''s'') (CHR ''S'') 0x8 0x400,
         parse_flag (t ! 6) (CHR ''r'') 0x4, parse_flag (t ! 7) (CHR ''w'') 0x2,
         parse_exec (t ! 8) (CHR ''t'') (CHR ''T'') 0x1 0x200])"

definition parse_permissions_spec :: "string \<Rightarrow> perms option" where
  "parse_permissions_spec t =
     (case parse_octal_permissions t of
        Some v \<Rightarrow> Some v
      | None \<Rightarrow> parse_rwx_permissions t)"

lemma perm_masks:
  "(0xFFF :: perms) = mask 12" "(0xE00 :: perms) = mask 12 AND NOT (mask 9)" "(0x1FF :: perms) = mask 9"
  by (simp_all add: mask_eq_exp_minus_1)

definition flag_bit :: "perms \<Rightarrow> nat \<Rightarrow> perms" where
  "flag_bit m k = (if bit m k then 2 ^ k else 0)"

lemma flag_roundtrip: "c \<noteq> CHR ''-'' \<Longrightarrow> parse_flag (flag_char m (2 ^ k) c) c (2 ^ k) = Some (flag_bit m k)"
  by (simp add: parse_flag_def flag_char_def flag_bit_def and_exp_eq_0_iff_not_bit)

lemma exec_roundtrip:
  assumes "distinct [CHR ''x'', CHR ''-'', lower, upper]"
  shows "parse_exec (exec_char m (2 ^ s) (2 ^ x) lower upper) lower upper (2 ^ x) (2 ^ s) =
    Some (flag_bit m x OR flag_bit m s)"
  using assms by (auto simp: parse_exec_def exec_char_def flag_char_def flag_bit_def and_exp_eq_0_iff_not_bit)

lemmas flag_lits = flag_roundtrip [where k = 8, simplified] flag_roundtrip [where k = 7, simplified]
  flag_roundtrip [where k = 5, simplified] flag_roundtrip [where k = 4, simplified]
  flag_roundtrip [where k = 2, simplified] flag_roundtrip [where k = 1, simplified]
  exec_roundtrip [where s = 11 and x = 6, simplified] exec_roundtrip [where s = 10 and x = 3, simplified]
  exec_roundtrip [where s = 9 and x = 0, simplified]

lemma bit_flag_bit: "k < 32 \<Longrightarrow> bit (flag_bit m k) n \<longleftrightarrow> n = k \<and> bit m k"
  by (auto simp: flag_bit_def bit_exp_iff possible_bit_def)

lemma flags_of_mask:
  "flag_bit m 8 OR (flag_bit m 7 OR (flag_bit m 6 OR flag_bit m 11 OR (flag_bit m 5 OR (flag_bit m 4 OR
     (flag_bit m 3 OR flag_bit m 10 OR (flag_bit m 2 OR (flag_bit m 1 OR (flag_bit m 0 OR flag_bit m 9)))))))) = m AND mask 12"
proof (rule bit_word_eqI)
  fix n :: nat
  have "n < 12 \<longleftrightarrow> n \<in> {0, 1, 2, 3, 4, 5, 6, 7, 8, 9, 10, 11}"
    by (simp only: insert_iff empty_iff) arith
  then show "bit (flag_bit m 8 OR (flag_bit m 7 OR (flag_bit m 6 OR flag_bit m 11 OR (flag_bit m 5 OR (flag_bit m 4 OR
     (flag_bit m 3 OR flag_bit m 10 OR (flag_bit m 2 OR (flag_bit m 1 OR (flag_bit m 0 OR flag_bit m 9))))))))) n \<longleftrightarrow>
     bit (m AND mask 12) n"
    unfolding bit_or_iff bit_and_iff by (auto simp: bit_flag_bit bit_mask_iff)
qed

lemma rwx_roundtrip: "parse_rwx_permissions (format_permission_rwx p) = Some (p AND 0xFFF)"
proof -
  define m where "m = p AND mask 12"
  have "parse_rwx_permissions (format_permission_rwx p) =
      or_all [Some (flag_bit m 8), Some (flag_bit m 7), Some (flag_bit m 6 OR flag_bit m 11),
        Some (flag_bit m 5), Some (flag_bit m 4), Some (flag_bit m 3 OR flag_bit m 10),
        Some (flag_bit m 2), Some (flag_bit m 1), Some (flag_bit m 0 OR flag_bit m 9)]"
    unfolding parse_rwx_permissions_def format_permission_rwx_def Let_def perm_masks(1) m_def [symmetric]
    by (simp add: flag_lits)
  also have "\<dots> = Some (m AND mask 12)" unfolding flags_of_mask [symmetric] by (simp add: or.assoc)
  also have "m AND mask 12 = p AND mask 12" by (simp add: m_def)
  finally show ?thesis unfolding perm_masks(1) .
qed

lemma octal_loop_digits:
  "u * 8 ^ k + v \<le> 0xFFF \<Longrightarrow> v < 8 ^ k \<Longrightarrow> octal_loop u (octal_digits k v @ cs) = octal_loop (u * 8 ^ k + v) cs"
proof (induction k arbitrary: v cs)
  case (Suc k)
  have v: "v div 8 * 8 + v mod 8 = v" by (rule div_mult_mod_eq)
  have le: "u * 8 ^ k + v div 8 \<le> 0xFFF" using Suc.prems(1) v by simp
  have "octal_loop u (octal_digits (Suc k) v @ cs) = octal_loop (u * 8 ^ k + v div 8) (digit_char (v mod 8) # cs)"
    using Suc.IH [OF le, of "digit_char (v mod 8) # cs"] Suc.prems(2) by (simp add: less_mult_imp_div_less)
  moreover have "(u * 8 ^ k + v div 8) * 8 + v mod 8 = u * 8 ^ Suc k + v"
    using v by (simp add: algebra_simps)
  moreover have "octal_loop w (digit_char d # cs) = octal_loop (w * 8 + d) cs" if "d < 8" "w * 8 + d \<le> 0xFFF" for w d
    using that by (simp add: of_digit_char Let_def)
  ultimately show ?case using Suc.prems(1) by (metis mod_less_divisor zero_less_numeral)
qed simp

lemma length_octal_digits [simp]: "length (octal_digits k v) = k"
  by (induction k arbitrary: v) simp_all

lemma octal_roundtrip:
  assumes "v < 8 ^ k" and "k = 3 \<or> k = 4"
  shows "parse_octal_permissions (octal_digits k v) = Some (of_nat v)"
proof -
  have "v \<le> 0xFFF" using assms by auto
  then have "octal_loop 0 (octal_digits k v) = Some v"
    using octal_loop_digits [of 0 k v "[]"] assms(1) by simp
  moreover have "octal_digits k v \<noteq> []" using assms(2) length_octal_digits [of k v] by fastforce
  ultimately show ?thesis using assms(2) by (auto simp: parse_octal_permissions_def)
qed

lemma unat_mask: "unat (p AND mask n :: perms) < 2 ^ n"
  by (metis take_bit_eq_mask take_bit_nat_less_exp unsigned_take_bit_eq)

text \<open>
  Permissions round trip: both the octal and the symbolic form of a mode are accepted by the parser
  and give back its twelve permission bits, the set-id and sticky bits included.
\<close>

theorem permissions_roundtrip:
  "parse_permissions_spec (format_permission_octal p) = Some (p AND 0xFFF) \<and>
   parse_permissions_spec (format_permission_rwx p) = Some (p AND 0xFFF)"
proof
  let ?m = "p AND mask 12"
  have "parse_octal_permissions (format_permission_octal p) = Some ?m"
  proof (cases "?m AND (mask 12 AND NOT (mask 9)) = 0")
    case True
    have split: "(mask 12 :: perms) = (mask 12 AND NOT (mask 9)) OR mask 9" by (simp add: mask_eq_exp_minus_1)
    have "?m AND ((mask 12 AND NOT (mask 9)) OR mask 9) = ?m AND mask 9"
      using True by (simp only: bit.conj_disj_distrib or.left_neutral)
    then have m: "?m AND mask 9 = ?m" unfolding split [symmetric] by simp
    have "unat (?m AND mask 9) < 8 ^ 3" using unat_mask [of ?m 9] by simp
    from octal_roundtrip [OF this] show ?thesis
      using True m unfolding format_permission_octal_def Let_def perm_masks by simp
  next
    case False
    have "unat ?m < 8 ^ 4" using unat_mask [of p 12] by simp
    from octal_roundtrip [OF this] show ?thesis
      using False unfolding format_permission_octal_def Let_def perm_masks by simp
  qed
  then show "parse_permissions_spec (format_permission_octal p) = Some (p AND 0xFFF)"
    by (simp add: parse_permissions_spec_def perm_masks)
  have "parse_octal_permissions (format_permission_rwx p) = None"
    by (simp add: parse_octal_permissions_def format_permission_rwx_def flag_char_def Let_def)
  then show "parse_permissions_spec (format_permission_rwx p) = Some (p AND 0xFFF)"
    using rwx_roundtrip [of p] by (simp add: parse_permissions_spec_def)
qed

end
