(* ===== verification/Exec_State.thy ===== *)
theory Exec_State
  imports Shell_Vars Lexer_Line "HOL-Library.Monad_Syntax"
begin

text \<open>
  The state and the syntax trees the executor works on, the control signals of \<^verbatim>\<open>src/shell.c\<close>
  and \<^verbatim>\<open>src/executor.c\<close> (\<open>break\<close>, \<open>continue\<close>, \<open>return\<close>), and the line scanners in front of the
  parser.  The parts of the program the executor calls and this development does not model (the
  parser, the evaluator of values, word expansion, external processes) are the fields of a record
  \<open>services\<close>; every definition of the executor takes it as an argument.  A computation that does
  not return is \<open>None\<close>.  Every output buffer has \<open>ARKSH_MAX_OUTPUT\<close> bytes, the size all callers pass.
\<close>

subsection \<open>Syntax trees\<close>

datatype redirect_kind =
    Redirect_input | Redirect_output_truncate | Redirect_output_append
  | Redirect_error_truncate | Redirect_error_append | Redirect_error_to_output
  | Redirect_fd_input | Redirect_fd_output_truncate | Redirect_fd_output_append
  | Redirect_fd_dup_input | Redirect_fd_dup_output | Redirect_fd_close
  | Redirect_herestring | Redirect_heredoc

record redirection =
  rd_kind :: redirect_kind
  rd_fd :: int
  rd_target_fd :: int
  rd_strip_tabs :: bool
  rd_target :: string
  rd_raw_target :: string
  rd_delimiter :: string
  rd_heredoc_body :: string

datatype list_condition = Cond_always | Cond_on_success | Cond_on_failure

record list_entry =
  le_text :: string
  le_condition :: list_condition
  le_background :: bool

record compound_node =
  cn_body :: string
  cn_redirections :: "redirection list"

record if_node =
  if_condition :: string
  if_then :: string
  if_else :: "string option"

record loop_node =
  lp_condition :: string
  lp_body :: string

record for_node =
  for_variable :: string
  for_source :: string
  for_body :: string

record case_branch =
  cb_patterns :: string
  cb_body :: string

record case_node =
  case_expression :: string
  case_branches :: "case_branch list"

record switch_node =
  sw_expression :: string
  sw_cases :: "(string \<times> string) list"
  sw_default :: "string option"

text \<open>\<open>'n\<close> is the contents of the nodes whose execution is not modelled.\<close>

datatype 'n ast =
    Ast_empty
  | Ast_simple_command "string list"
  | Ast_value_expression 'n
  | Ast_object_expression 'n
  | Ast_object_pipeline 'n
  | Ast_command_pipeline 'n
  | Ast_command_list "list_entry list"
  | Ast_group_command compound_node
  | Ast_subshell_command compound_node
  | Ast_if_command if_node
  | Ast_while_command loop_node
  | Ast_until_command loop_node
  | Ast_for_command for_node
  | Ast_case_command case_node
  | Ast_switch_command switch_node
  | Ast_function_command shell_function
  | Ast_class_command 'n
  | Ast_with_sudo_command string

subsection \<open>State\<close>

datatype signal_kind = Sig_none | Sig_break | Sig_continue | Sig_return

text \<open>
  The fields of \<open>ArkshShell\<close> the executor reads or writes.  \<open>reg\<close> holds the registries of commands,
  aliases and functions, \<open>vs\<close> the variables, and \<open>world\<close> stands for everything else.
\<close>

record ('f, 'w) exec_shell =
  running :: bool
  last_status :: int
  inherited_input_active :: bool
  inherited_input_redirection :: redirection
  control_signal :: signal_kind
  control_levels :: int
  loop_depth :: int
  function_depth :: int
  function_names :: "string list"
  err_trap_active :: bool
  err_trap_command :: string
  running_exit_trap :: bool
  opt_errexit :: bool
  in_condition :: int
  errexit_suppressed :: int
  sh_mode :: bool
  ctx_sudo :: int
  reg :: "'f shell"
  vs :: vshell
  world :: 'w

type_synonym ('f, 'w) outcome = "(('f, 'w) exec_shell \<times> string \<times> int) option"

datatype expand_mode =
    Mode_command | Mode_command_name | Mode_conditional | Mode_object_selector | Mode_object_argument
  | Mode_redirect_target

text \<open>
  How the process of a subshell ends for its parent, who reads its output from a pipe and waits for it:
  with its own output and status, killed by a signal after some output, or with a failed call.
\<close>

datatype child_end = Child_exited | Child_signaled string nat | Child_unread | Child_not_waited

datatype 'v iterable = It_list "'v list" | It_empty | It_single 'v

text \<open>
  What the executor calls: \<open>allocate_temp_buffer\<close> by its label, \<open>arksh_evaluate_line_value\<close> and
  \<open>evaluate_expression_atom\<close>, \<open>arksh_expand_word\<close> with a mode and the number of values there is room
  for, the operations on values, bindings and associative arrays, built-in commands, external
  commands, files, the texts of lexer errors, the parser, the nodes not modelled, background jobs, the
  copy of the state a subshell works on, whether its pipe and its process can be created, how the
  process ends as its parent sees it, what it leaves behind in the world of its parent, the \<open>let\<close> and
  \<open>extend\<close> lines, pending signal traps and the ends of process substitutions.
\<close>

record ('f, 'w, 'v, 'n) services =
  sv_mem :: memory
  sv_alloc_ok :: "('f, 'w) exec_shell \<Rightarrow> string \<Rightarrow> bool"
  sv_eval_value :: "('f, 'w) exec_shell \<Rightarrow> string \<Rightarrow> (('f, 'w) exec_shell \<times> (string + 'v)) option"
  sv_eval_atom :: "('f, 'w) exec_shell \<Rightarrow> string \<Rightarrow> (('f, 'w) exec_shell \<times> (string + 'v)) option"
  sv_expand_word :: "('f, 'w) exec_shell \<Rightarrow> string \<Rightarrow> expand_mode \<Rightarrow> nat \<Rightarrow>
     (('f, 'w) exec_shell \<times> (string + string list)) option"
  sv_truthy :: "'v \<Rightarrow> bool"
  sv_iterable :: "'v \<Rightarrow> 'v iterable"
  sv_copy_ok :: "('f, 'w) exec_shell \<Rightarrow> 'v \<Rightarrow> bool"
  sv_render :: "'v \<Rightarrow> string option"
  sv_render_var :: "'v \<Rightarrow> string option"
  sv_text_value :: "string \<Rightarrow> 'v"
  sv_item_value :: "string \<Rightarrow> 'v"
  sv_set_binding :: "('f, 'w) exec_shell \<Rightarrow> string \<Rightarrow> 'v \<Rightarrow> int \<times> ('f, 'w) exec_shell"
  sv_set_assoc :: "('f, 'w) exec_shell \<Rightarrow> string \<Rightarrow> string \<Rightarrow> string \<Rightarrow> ('f, 'w) exec_shell \<times> string option"
  sv_run_builtin :: "'f \<Rightarrow> ('f, 'w) exec_shell \<Rightarrow> string list \<Rightarrow> ('f, 'w) outcome"
  sv_run_external :: "('f, 'w) exec_shell \<Rightarrow> string list \<Rightarrow> ('f, 'w) outcome"
  sv_write_file :: "('f, 'w) exec_shell \<Rightarrow> string \<Rightarrow> string \<Rightarrow> bool \<Rightarrow> ('f, 'w) exec_shell \<times> bool"
  sv_lex_message :: "lex_error \<Rightarrow> string"
  sv_parse_line :: "string \<Rightarrow> string + 'n ast"
  sv_run_node :: "('f, 'w) exec_shell \<Rightarrow> 'n \<Rightarrow> ('f, 'w) outcome"
  sv_background :: "('f, 'w) exec_shell \<Rightarrow> string \<Rightarrow> ('f, 'w) outcome"
  sv_clone_subshell :: "('f, 'w) exec_shell \<Rightarrow> string + ('f, 'w) exec_shell"
  sv_start_child :: "('f, 'w) exec_shell \<Rightarrow> string option"
  sv_child_end :: "('f, 'w) exec_shell \<Rightarrow> child_end"
  sv_join_world :: "'w \<Rightarrow> 'w \<Rightarrow> 'w"
  sv_let_line :: "('f, 'w) exec_shell \<Rightarrow> string \<Rightarrow> ('f, 'w) outcome"
  sv_extend_line :: "('f, 'w) exec_shell \<Rightarrow> string \<Rightarrow> ('f, 'w) outcome"
  sv_fire_traps :: "('f, 'w) exec_shell \<Rightarrow> ('f, 'w) exec_shell option"
  sv_end_substitutions :: "('f, 'w) exec_shell \<Rightarrow> ('f, 'w) exec_shell \<Rightarrow> ('f, 'w) exec_shell"

subsection \<open>Buffers and lines\<close>

text \<open>\<open>append_output_segment\<close>: the return code and the buffer it leaves.\<close>

definition append_output_segment :: "string \<Rightarrow> string \<Rightarrow> int \<times> string" where
  "append_output_segment dest segment =
     (if segment = [] then (0, dest)
      else if dest \<noteq> [] \<and> length dest + 1 \<ge> max_output then (1, dest)
      else
        (let dest1 = (if dest = [] then [] else dest @ [CHR 0x0A]) in
         if length dest1 + length segment \<ge> max_output then (1, dest1) else (0, dest1 @ segment)))"

definition too_large :: string where
  "too_large = ''combined command output too large''"

definition is_blank_or_comment_line :: "string \<Rightarrow> bool" where
  "is_blank_or_comment_line line =
     (case dropWhile c_isspace line of [] \<Rightarrow> True | c # _ \<Rightarrow> c = CHR ''#'')"

definition trim_text :: "string \<Rightarrow> string" where
  "trim_text s = rev (dropWhile c_isspace (rev (dropWhile c_isspace s)))"

definition trim_copy :: "nat \<Rightarrow> string \<Rightarrow> string" where
  "trim_copy dest_size src = copy_string dest_size (trim_text src)"

fun list_operator_scan :: "char option \<Rightarrow> nat \<Rightarrow> nat \<Rightarrow> nat \<Rightarrow> string \<Rightarrow> bool" where
  "list_operator_scan quote parens braces brackets [] = False"
| "list_operator_scan (Some q) parens braces brackets (c # cs) =
     (if c = q then list_operator_scan None parens braces brackets cs
      else if q = dquote \<and> c = bslash \<and> cs \<noteq> [] then list_operator_scan (Some q) parens braces brackets (tl cs)
      else list_operator_scan (Some q) parens braces brackets cs)"
| "list_operator_scan None parens braces brackets (c # cs) =
     (if c = dquote \<or> c = squote then list_operator_scan (Some c) parens braces brackets cs
      else if c = CHR ''('' then list_operator_scan None (parens + 1) braces brackets cs
      else if c = CHR '')'' \<and> parens > 0 then list_operator_scan None (parens - 1) braces brackets cs
      else if c = CHR ''{'' then list_operator_scan None parens (braces + 1) brackets cs
      else if c = CHR ''}'' \<and> braces > 0 then list_operator_scan None parens (braces - 1) brackets cs
      else if c = CHR ''['' then list_operator_scan None parens braces (brackets + 1) cs
      else if c = CHR '']'' \<and> brackets > 0 then list_operator_scan None parens braces (brackets - 1) cs
      else if parens = 0 \<and> braces = 0 \<and> brackets = 0 \<and>
              (c = CHR '';'' \<or> c = CHR ''&'' \<or> (c = CHR ''|'' \<and> next_is ''|'' cs)) then True
      else list_operator_scan None parens braces brackets cs)"

definition contains_top_level_list_operator :: "string \<Rightarrow> bool" where
  "contains_top_level_list_operator text = list_operator_scan None 0 0 0 text"

subsection \<open>Control signals\<close>

definition arksh_shell_clear_control_signal :: "('f, 'w) exec_shell \<Rightarrow> ('f, 'w) exec_shell" where
  "arksh_shell_clear_control_signal shell = shell\<lparr>control_signal := Sig_none, control_levels := 0\<rparr>"

definition arksh_shell_raise_control_signal ::
  "('f, 'w) exec_shell \<Rightarrow> signal_kind \<Rightarrow> int \<Rightarrow> int \<times> ('f, 'w) exec_shell" where
  "arksh_shell_raise_control_signal shell kind levels =
     (if kind = Sig_none \<or> levels \<le> 0 then (1, shell)
      else (0, shell\<lparr>control_signal := kind, control_levels := levels\<rparr>))"

datatype loop_control = Loop_none | Loop_break | Loop_continue | Loop_propagate

definition resolve_loop_control :: "('f, 'w) exec_shell \<Rightarrow> loop_control \<times> ('f, 'w) exec_shell" where
  "resolve_loop_control shell =
     (if control_signal shell = Sig_none then (Loop_none, shell)
      else if control_signal shell = Sig_return then (Loop_propagate, shell)
      else
        (let kind = control_signal shell;
             shell1 = (if control_levels shell > 0 then shell\<lparr>control_levels := control_levels shell - 1\<rparr>
                       else shell) in
         if control_levels shell1 \<le> 0 then
           (if kind = Sig_break then Loop_break else Loop_continue, arksh_shell_clear_control_signal shell1)
         else (Loop_propagate, shell1)))"

definition parse_control_line_argument :: "string \<Rightarrow> string \<Rightarrow> string option" where
  "parse_control_line_argument line keyword =
     (let trimmed = trim_copy max_line line; rest = drop (length keyword) trimmed in
      if \<not> next_is keyword trimmed then None
      else if rest \<noteq> [] \<and> \<not> c_isspace (hd rest) then None
      else Some (dropWhile c_isspace rest))"

text \<open>\<open>strtol\<close> with base 10: the number and the rest, or \<open>None\<close> when there are no digits.\<close>

definition strtol_number :: "string \<Rightarrow> (int \<times> string) option" where
  "strtol_number s =
     (let body = dropWhile c_isspace s;
          neg = next_is ''-'' body;
          digits = (if neg \<or> next_is ''+'' body then tl body else body);
          ds = takeWhile c_isdigit digits;
          n = foldl (\<lambda>a c. a * 10 + (of_char c - 48)) 0 ds in
      if ds = [] then None else Some (if neg then - n else n, dropWhile c_isdigit digits))"

text \<open>The value it returns is the closest \<open>long\<close>; \<open>errno\<close> tells that the number is out of range.\<close>

definition strtol_range :: "int \<Rightarrow> bool" where
  "strtol_range n \<longleftrightarrow> - (2 ^ 63) \<le> n \<and> n < 2 ^ 63"

definition strtol :: "string \<Rightarrow> (int \<times> string) option" where
  "strtol s = map_option (\<lambda>(n, rest). (max (- (2 ^ 63)) (min (2 ^ 63 - 1) n), rest)) (strtol_number s)"

definition parse_positive_control_count :: "string \<Rightarrow> int option" where
  "parse_positive_control_count text =
     (if text = [] then Some 1
      else
        (case strtol text of
           None \<Rightarrow> None
         | Some (v, rest) \<Rightarrow> if rest \<noteq> [] \<or> v \<le> 0 \<or> v > 1024 then None else Some v))"

definition handle_loop_control_line ::
  "('f, 'w) exec_shell \<Rightarrow> string \<Rightarrow> string \<Rightarrow> signal_kind \<Rightarrow> ('f, 'w) exec_shell \<times> string \<times> int" where
  "handle_loop_control_line shell line keyword kind =
     (case parse_control_line_argument line keyword of
        None \<Rightarrow> (shell, ''usage: '' @ keyword @ '' [count]'', 1)
      | Some argument \<Rightarrow>
          if loop_depth shell \<le> 0 then (shell, keyword @ '' is only valid inside loops'', 1)
          else
            (case parse_positive_control_count argument of
               None \<Rightarrow> (shell, ''usage: '' @ keyword @ '' [positive-count]'', 1)
             | Some cnt \<Rightarrow>
                 (case arksh_shell_raise_control_signal shell kind cnt of
                    (status, shell1) \<Rightarrow>
                      if status \<noteq> 0 then (shell1, ''unable to raise '' @ keyword @ '' control signal'', 1)
                      else (shell1, [], 0))))"

definition handle_return_line ::
  "('f, 'w, 'v, 'n) services \<Rightarrow> ('f, 'w) exec_shell \<Rightarrow> string \<Rightarrow> ('f, 'w) outcome" where
  "handle_return_line sv shell line =
     (case parse_control_line_argument line ''return'' of
        None \<Rightarrow> Some (shell, ''usage: return [value-expression]'', 1)
      | Some argument \<Rightarrow>
          if function_depth shell \<le> 0 then Some (shell, ''return is only valid inside shell functions'', 1)
          else
            (let raise = (\<lambda>shell1 out.
                   case arksh_shell_raise_control_signal shell1 Sig_return 1 of
                     (status, shell2) \<Rightarrow>
                       if status \<noteq> 0 then (shell2, ''unable to raise return control signal'', 1)
                       else (shell2, out, 0)) in
             if argument = [] then Some (raise shell [])
             else if \<not> sv_alloc_ok sv shell ''return value'' then
               Some (shell, ''unable to allocate return value'', 1)
             else do {
               (shell1, r) \<leftarrow> sv_eval_value sv shell argument;
               Some (case r of
                  Inl err \<Rightarrow> (shell1, if err = [] then ''unable to evaluate return expression'' else err, 1)
                | Inr v \<Rightarrow>
                    (case sv_render sv v of
                       None \<Rightarrow> (shell1, ''unable to render return value'', 1)
                     | Some out \<Rightarrow> raise shell1 out))
             }))"

end
