(* ===== verification/Simple_Command.thy ===== *)
theory Simple_Command
  imports Exec_State
begin

text \<open>
  Simple commands of \<^verbatim>\<open>src/executor.c\<close>: expansion of the arguments, assignments, assignments in
  front of a command, and the choice between a function, a built-in and an external command, with
  the calls of shell functions.  \<open>exec\<close> is \<open>arksh_shell_execute_line\<close>.  The trace of \<open>set -x\<close> only
  writes to the error stream and is left out.
\<close>

subsection \<open>Assignment words\<close>

definition is_word_char :: "char \<Rightarrow> bool" where
  "is_word_char c \<longleftrightarrow> c_isalnum c \<or> c = CHR ''_''"

definition split_posix_assignment :: "string \<Rightarrow> (string \<times> string) option" where
  "split_posix_assignment s =
     (case s of
        [] \<Rightarrow> None
      | c # cs \<Rightarrow>
          (let name = c # takeWhile is_word_char cs; rest = dropWhile is_word_char cs in
           if \<not> (c_isalpha c \<or> c = CHR ''_'') then None
           else if \<not> next_is ''='' rest then None
           else if max_token \<le> length name then None
           else Some (name, tl rest)))"

definition strip_assoc_key_quotes :: "string \<Rightarrow> string" where
  "strip_assoc_key_quotes key =
     (if length key \<ge> 2 \<and> (hd key = dquote \<and> last key = dquote \<or> hd key = squote \<and> last key = squote)
      then butlast (tl key) else key)"

definition parse_assoc_assignment :: "string \<Rightarrow> (string \<times> string \<times> string) option" where
  "parse_assoc_assignment s =
     (let name = takeWhile is_word_char s; r1 = dropWhile is_word_char s;
          key = takeWhile (\<lambda>c. c \<noteq> CHR '']'') (tl r1); r2 = dropWhile (\<lambda>c. c \<noteq> CHR '']'') (tl r1);
          key' = strip_assoc_key_quotes key in
      if s = [] \<or> \<not> (c_isalpha (hd s) \<or> hd s = CHR ''_'') then None
      else if length name + 1 > max_token then None
      else if \<not> next_is ''['' r1 then None
      else if length key + 1 > 128 then None
      else if \<not> next_is '']='' r2 then None
      else if is_valid_identifier name \<and> key' \<noteq> [] then Some (name, key', drop 2 r2)
      else None)"

subsection \<open>Expansion of the arguments\<close>

definition max_args :: nat where "max_args = 16"

fun expand_arguments_loop ::
  "('f, 'w, 'v, 'n) services \<Rightarrow> bool \<Rightarrow> string list \<Rightarrow> string list \<Rightarrow> ('f, 'w) exec_shell \<Rightarrow>
   (('f, 'w) exec_shell \<times> (string + string list)) option" where
  "expand_arguments_loop sv first expanded [] shell = Some (shell, Inr expanded)"
| "expand_arguments_loop sv first expanded (raw # raws) shell = do {
     (shell1, r) \<leftarrow> sv_expand_word sv shell raw (if first then Mode_command_name else Mode_command) max_args;
     case r of
       Inl err \<Rightarrow> Some (shell1, Inl err)
     | Inr vals \<Rightarrow>
         if length expanded + length vals > max_args then
           Some (shell1, Inl ''expanded command has too many arguments'')
         else expand_arguments_loop sv False (expanded @ map (copy_string max_token) vals) raws shell1
   }"

definition expand_command_arguments ::
  "('f, 'w, 'v, 'n) services \<Rightarrow> string list \<Rightarrow> ('f, 'w) exec_shell \<Rightarrow>
   (('f, 'w) exec_shell \<times> (string + string list)) option" where
  "expand_command_arguments sv raw_argv shell = expand_arguments_loop sv True [] raw_argv shell"

fun expand_conditional_loop ::
  "('f, 'w, 'v, 'n) services \<Rightarrow> bool \<Rightarrow> string list \<Rightarrow> string list \<Rightarrow> ('f, 'w) exec_shell \<Rightarrow>
   (('f, 'w) exec_shell \<times> (string + string list)) option" where
  "expand_conditional_loop sv first expanded [] shell = Some (shell, Inr expanded)"
| "expand_conditional_loop sv first expanded (raw # raws) shell = do {
     (shell1, r) \<leftarrow> sv_expand_word sv shell raw (if first then Mode_command_name else Mode_conditional) 1;
     case r of
       Inl err \<Rightarrow> Some (shell1, Inl err)
     | Inr vals \<Rightarrow>
         if length vals \<noteq> 1 then
           Some (shell1, Inl ''conditional expansion produced an unexpected number of values'')
         else if length expanded \<ge> max_args then
           Some (shell1, Inl ''conditional expression has too many arguments'')
         else expand_conditional_loop sv False (expanded @ [copy_string max_token (hd vals)]) raws shell1
   }"

definition expand_conditional_arguments ::
  "('f, 'w, 'v, 'n) services \<Rightarrow> string list \<Rightarrow> ('f, 'w) exec_shell \<Rightarrow>
   (('f, 'w) exec_shell \<times> (string + string list)) option" where
  "expand_conditional_arguments sv raw_argv shell = expand_conditional_loop sv True [] raw_argv shell"

subsection \<open>Function calls\<close>

text \<open>
  The result of binding is the state and the error text, if any.  A parameter is bound as a value
  and assigned as a variable.
\<close>

fun bind_named_parameters ::
  "('f, 'w, 'v, 'n) services \<Rightarrow> (string \<times> string) list \<Rightarrow> ('f, 'w) exec_shell \<Rightarrow>
   ('f, 'w) exec_shell \<times> string option" where
  "bind_named_parameters sv [] shell = (shell, None)"
| "bind_named_parameters sv ((param, arg) # ps) shell =
     (let v = sv_text_value sv arg in
      case sv_set_binding sv shell param v of
        (status, shell1) \<Rightarrow>
          if status \<noteq> 0 then (shell1, Some (''unable to bind function parameter: '' @ param))
          else
            (case sv_render_var sv v of
               None \<Rightarrow> (shell1, Some (''unable to render function parameter: '' @ param))
             | Some rendered \<Rightarrow>
                 (case arksh_shell_set_var (sv_mem sv) (vs shell1) param rendered False of
                    (status2, vs2) \<Rightarrow>
                      let shell2 = shell1\<lparr>vs := vs2\<rparr> in
                      if status2 \<noteq> 0 then (shell2, Some (''unable to assign function parameter: '' @ param))
                      else bind_named_parameters sv ps shell2)))"

definition bind_function_parameters ::
  "('f, 'w, 'v, 'n) services \<Rightarrow> shell_function \<Rightarrow> string list \<Rightarrow> ('f, 'w) exec_shell \<Rightarrow>
   ('f, 'w) exec_shell \<times> string option" where
  "bind_function_parameters sv f argv shell =
     (let args = tl argv; n = int (length argv) - 1;
          unable = ''function '' @ f_name f @ '': unable to bind positional arguments'' in
      if f_param_count f = -1 then
        (if n > int max_positional_params then
           (shell, Some (''function '' @ f_name f @ '': too many arguments''))
         else
           (case arksh_shell_set_positional_argv (sv_mem sv) (vs shell) args of
              (status, vs1) \<Rightarrow> (shell\<lparr>vs := vs1\<rparr>, if status \<noteq> 0 then Some unable else None)))
      else if n \<noteq> f_param_count f then
        (shell, Some (''function '' @ f_name f @ '' expects '' @ show_int (f_param_count f) @
           '' arguments, got '' @ show_int n))
      else if \<not> sv_alloc_ok sv shell ''function arguments'' then
        (shell, Some ''unable to allocate function arguments'')
      else
        (case arksh_shell_set_positional_argv (sv_mem sv) (vs shell) args of
           (status, vs1) \<Rightarrow>
             if status \<noteq> 0 then (shell\<lparr>vs := vs1\<rparr>, Some unable)
             else bind_named_parameters sv (zip (f_params f) args) (shell\<lparr>vs := vs1\<rparr>)))"

definition push_function_name :: "string \<Rightarrow> ('f, 'w) exec_shell \<Rightarrow> ('f, 'w) exec_shell" where
  "push_function_name name shell =
     (if length (function_names shell) < max_functions
      then shell\<lparr>function_names := copy_string 128 name # function_names shell\<rparr> else shell)"

definition pop_scope :: "('f, 'w, 'v, 'n) services \<Rightarrow> ('f, 'w) exec_shell \<Rightarrow> ('f, 'w) exec_shell" where
  "pop_scope sv shell = shell\<lparr>vs := arksh_shell_pop_scope_frame (sv_mem sv) (vs shell)\<rparr>"

definition execute_shell_function ::
  "('f, 'w, 'v, 'n) services \<Rightarrow> (('f, 'w) exec_shell \<Rightarrow> string \<Rightarrow> ('f, 'w) outcome) \<Rightarrow>
   shell_function \<Rightarrow> string list \<Rightarrow> ('f, 'w) exec_shell \<Rightarrow> ('f, 'w) outcome" where
  "execute_shell_function sv exec f argv shell =
     (case arksh_shell_push_scope_frame (sv_mem sv) (vs shell) of
        (status, vs1) \<Rightarrow>
          if status \<noteq> 0 then Some (shell\<lparr>vs := vs1\<rparr>, ''unable to allocate function scope'', 1)
          else
            (case bind_function_parameters sv f argv (shell\<lparr>vs := vs1\<rparr>) of
               (shell1, Some err) \<Rightarrow> Some (pop_scope sv shell1, err, 1)
             | (shell1, None) \<Rightarrow> do {
                 (shell2, out, status) \<leftarrow>
                   exec (push_function_name (f_name f) (shell1\<lparr>function_depth := function_depth shell1 + 1\<rparr>)) (f_body f);
                 let shell3 = shell2\<lparr>function_names := tl (function_names shell2),
                                     function_depth := function_depth shell2 - 1\<rparr>;
                     shell4 = (if status = 0 \<and> control_signal shell3 = Sig_return
                               then arksh_shell_clear_control_signal shell3 else shell3)
                 in Some (pop_scope sv shell4, out, status)
               }))"

subsection \<open>Simple commands\<close>

fun set_assoc_all ::
  "('f, 'w, 'v, 'n) services \<Rightarrow> string list \<Rightarrow> ('f, 'w) exec_shell \<Rightarrow> ('f, 'w) exec_shell \<times> string \<times> int" where
  "set_assoc_all sv [] shell = (shell, [], 0)"
| "set_assoc_all sv (arg # args) shell =
     (case parse_assoc_assignment arg of
        None \<Rightarrow> set_assoc_all sv args shell
      | Some (name, key, v) \<Rightarrow>
          (case sv_set_assoc sv shell name key v of
             (shell1, Some err) \<Rightarrow> (shell1, err, 1)
           | (shell1, None) \<Rightarrow> set_assoc_all sv args shell1))"

fun assign_all ::
  "memory \<Rightarrow> string list \<Rightarrow> vshell \<Rightarrow> vshell \<times> string \<times> int" where
  "assign_all mem [] vt = (vt, [], 0)"
| "assign_all mem (arg # args) vt =
     (case split_posix_assignment arg of
        None \<Rightarrow> assign_all mem args vt
      | Some (name, v) \<Rightarrow>
          (let target = (case arksh_shell_resolve_nameref vt name max_token of
                           Some resolved \<Rightarrow> resolved | None \<Rightarrow> name) in
           case arksh_shell_set_var mem vt target v False of
             (status, vt1) \<Rightarrow>
               if status \<noteq> 0 then (vt1, ''assignment: cannot set '' @ [squote] @ target @ [squote], 1)
               else assign_all mem args vt1))"

text \<open>
  The assignments in front of a command: each saves the visible value, cut to the size of a token,
  and assigns with the export flag; afterwards the names are restored in the same order.
\<close>

fun save_prefix :: "memory \<Rightarrow> string list \<Rightarrow> vshell \<Rightarrow> (string \<times> string option) list \<times> vshell" where
  "save_prefix mem [] vt = ([], vt)"
| "save_prefix mem (arg # args) vt =
     (case split_posix_assignment arg of
        None \<Rightarrow> save_prefix mem args vt
      | Some (name, v) \<Rightarrow>
          (let saved = map_option (copy_string max_token) (arksh_shell_get_var vt name) in
           case save_prefix mem args (snd (arksh_shell_set_var mem vt name v True)) of
             (rest, vt1) \<Rightarrow> ((name, saved) # rest, vt1)))"

fun restore_prefix :: "memory \<Rightarrow> (string \<times> string option) list \<Rightarrow> vshell \<Rightarrow> vshell" where
  "restore_prefix mem [] vt = vt"
| "restore_prefix mem ((name, Some v) # rest) vt =
     restore_prefix mem rest (snd (arksh_shell_set_var mem vt name v False))"
| "restore_prefix mem ((name, None) # rest) vt =
     restore_prefix mem rest (snd (arksh_shell_unset_var mem vt name))"

definition arksh_shell_find_function :: "'f shell \<Rightarrow> string \<Rightarrow> shell_function option" where
  "arksh_shell_find_function shell name =
     (if name = [] then None
      else map_option ((!) (shell_functions shell)) (find_function_entry shell name))"

text \<open>A user function comes first, then a registered command, then an external one.\<close>

definition dispatch_command ::
  "('f, 'w, 'v, 'n) services \<Rightarrow> (('f, 'w) exec_shell \<Rightarrow> string \<Rightarrow> ('f, 'w) outcome) \<Rightarrow>
   string list \<Rightarrow> ('f, 'w) exec_shell \<Rightarrow> ('f, 'w) outcome" where
  "dispatch_command sv exec argv shell =
     (case arksh_shell_find_function (reg shell) (hd argv) of
        Some f \<Rightarrow> execute_shell_function sv exec f argv shell
      | None \<Rightarrow>
          (case arksh_shell_find_command (reg shell) (hd argv) of
             Some d \<Rightarrow>
               (case d_fn d of
                  Some fn \<Rightarrow> sv_run_builtin sv fn shell argv
                | None \<Rightarrow> None)
           | None \<Rightarrow> sv_run_external sv shell argv))"

definition execute_simple_command ::
  "('f, 'w, 'v, 'n) services \<Rightarrow> (('f, 'w) exec_shell \<Rightarrow> string \<Rightarrow> ('f, 'w) outcome) \<Rightarrow>
   string list \<Rightarrow> ('f, 'w) exec_shell \<Rightarrow> ('f, 'w) outcome" where
  "execute_simple_command sv exec raw_argv shell = do {
     (shell1, r) \<leftarrow> (if raw_argv \<noteq> [] \<and> hd raw_argv = ''[['' then expand_conditional_arguments sv raw_argv shell
                     else expand_command_arguments sv raw_argv shell);
     case r of
       Inl err \<Rightarrow> Some (shell1, err, 1)
     | Inr argv \<Rightarrow>
         if argv = [] then Some (shell1, [], 0)
         else if list_all (\<lambda>a. parse_assoc_assignment a \<noteq> None) argv then Some (set_assoc_all sv argv shell1)
         else if list_all (\<lambda>a. split_posix_assignment a \<noteq> None) argv then
           (case assign_all (sv_mem sv) argv (vs shell1) of
              (vt, out, status) \<Rightarrow> Some (shell1\<lparr>vs := vt\<rparr>, out, status))
         else
           (let prefix = takeWhile (\<lambda>a. split_posix_assignment a \<noteq> None) argv;
                rest = dropWhile (\<lambda>a. split_posix_assignment a \<noteq> None) argv in
            if prefix \<noteq> [] then
              (case save_prefix (sv_mem sv) prefix (vs shell1) of
                 (saved, vt) \<Rightarrow> do {
                   (shell2, out, status) \<leftarrow> dispatch_command sv exec rest (shell1\<lparr>vs := vt\<rparr>);
                   Some (shell2\<lparr>vs := restore_prefix (sv_mem sv) saved (vs shell2)\<rparr>, out, status)
                 })
            else dispatch_command sv exec argv shell1)
   }"

end
