(* ===== verification/Alias_Expansion.thy ===== *)
theory Alias_Expansion
  imports Exec_State
begin

text \<open>
  Alias expansion of \<^verbatim>\<open>src/shell.c\<close>: the line is cut into tokens, the plain words in command position
  that name an alias are replaced in the text, and this is repeated until nothing is replaced, at
  most eight times; and the checks of lines in \<open>sh\<close> mode.
\<close>

datatype alias_error = Alias_lex lex_error | Alias_too_long | Alias_depth

definition append_slice :: "nat \<Rightarrow> string \<Rightarrow> string \<Rightarrow> nat \<Rightarrow> nat \<Rightarrow> string option" where
  "append_slice dest_size dest src start end_pos =
     (if end_pos < start then None
      else if length dest + (end_pos - start) \<ge> dest_size then None
      else Some (dest @ take (end_pos - start) (drop start src)))"

definition append_text :: "nat \<Rightarrow> string \<Rightarrow> string \<Rightarrow> string option" where
  "append_text dest_size dest src = (if length dest + length src \<ge> dest_size then None else Some (dest @ src))"

definition is_command_position :: "token_kind option \<Rightarrow> bool" where
  "is_command_position prev = (case prev of None \<Rightarrow> True | Some k \<Rightarrow> k = Tok_shell_pipe)"

definition token_is_plain_word :: "token \<Rightarrow> bool" where
  "token_is_plain_word t \<longleftrightarrow> tok_kind t = Tok_word \<and> tok_text t \<noteq> [] \<and> tok_raw t = tok_text t"

text \<open>The alias a token stands for, given the kinds of the tokens before and after it.\<close>

definition token_alias :: "'f shell \<Rightarrow> token_kind option \<Rightarrow> token \<Rightarrow> token list \<Rightarrow> string option" where
  "token_alias shell prev t ts =
     (if \<not> is_command_position prev \<or> \<not> token_is_plain_word t \<or> (ts \<noteq> [] \<and> tok_kind (hd ts) = Tok_arrow)
      then None else arksh_shell_get_alias shell (tok_text t))"

fun expand_tokens ::
  "'f shell \<Rightarrow> string \<Rightarrow> token_kind option \<Rightarrow> nat \<Rightarrow> string \<Rightarrow> bool \<Rightarrow> token list \<Rightarrow> alias_error + string \<times> bool" where
  "expand_tokens shell line prev last_position expanded replaced [] =
     (case append_slice max_line expanded line last_position (length line) of
        None \<Rightarrow> Inl Alias_too_long
      | Some e \<Rightarrow> Inr (e, replaced))"
| "expand_tokens shell line prev last_position expanded replaced (t # ts) =
     (if tok_kind t = Tok_eof then
        (case append_slice max_line expanded line last_position (length line) of
           None \<Rightarrow> Inl Alias_too_long
         | Some e \<Rightarrow> Inr (e, replaced))
      else
        (case token_alias shell prev t ts of
           None \<Rightarrow> expand_tokens shell line (Some (tok_kind t)) last_position expanded replaced ts
         | Some v \<Rightarrow>
             (case append_slice max_line expanded line last_position (tok_pos t) of
                None \<Rightarrow> Inl Alias_too_long
              | Some e1 \<Rightarrow>
                  (case append_text max_line e1 v of
                     None \<Rightarrow> Inl Alias_too_long
                   | Some e2 \<Rightarrow>
                       expand_tokens shell line (Some (tok_kind t)) (tok_pos t + length (tok_raw t)) e2 True ts))))"

definition expand_aliases_once :: "'f shell \<Rightarrow> string \<Rightarrow> alias_error + string \<times> bool" where
  "expand_aliases_once shell line =
     (case arksh_lex_line line of
        Inl e \<Rightarrow> Inl (Alias_lex e)
      | Inr toks \<Rightarrow> expand_tokens shell line None 0 [] False toks)"

fun expand_rounds :: "'f shell \<Rightarrow> nat \<Rightarrow> string \<Rightarrow> alias_error + string" where
  "expand_rounds shell 0 current = Inl Alias_depth"
| "expand_rounds shell (Suc n) current =
     (case expand_aliases_once shell current of
        Inl e \<Rightarrow> Inl e
      | Inr (text', replaced) \<Rightarrow>
          if \<not> replaced then Inr (copy_string max_line current)
          else expand_rounds shell n (copy_string max_line text'))"

definition expand_aliases :: "'f shell \<Rightarrow> string \<Rightarrow> alias_error + string" where
  "expand_aliases shell line = expand_rounds shell 8 (copy_string max_line line)"

subsection \<open>Lines in sh mode\<close>

fun block_literal_scan :: "bool \<Rightarrow> bool \<Rightarrow> string \<Rightarrow> bool" where
  "block_literal_scan in_sq in_dq [] = False"
| "block_literal_scan in_sq in_dq (c # cs) =
     (if c = squote \<and> \<not> in_dq then block_literal_scan (\<not> in_sq) in_dq cs
      else if c = dquote \<and> \<not> in_sq then block_literal_scan in_sq (\<not> in_dq) cs
      else if \<not> in_sq \<and> \<not> in_dq \<and> c = CHR ''['' \<and> next_is '':'' cs then True
      else block_literal_scan in_sq in_dq cs)"

definition sh_token_error :: "bool \<Rightarrow> token \<Rightarrow> string option" where
  "sh_token_error first t =
     (if tok_kind t = Tok_arrow then Some ''sh: -> not supported in sh mode''
      else if tok_kind t = Tok_object_pipe then Some ''sh: |> not supported in sh mode''
      else if tok_kind t = Tok_here_string then Some ''sh: <<< not supported in sh mode''
      else if tok_kind t = Tok_proc_subst_in then Some ''sh: <(...) not supported in sh mode''
      else if tok_kind t = Tok_proc_subst_out then Some ''sh: >(...) not supported in sh mode''
      else if tok_kind t = Tok_word then
        (if tok_text t = ''[['' then Some ''sh: [[ not supported in sh mode''
         else if first \<and> tok_text t = ''class'' then Some ''sh: class not supported in sh mode''
         else if first \<and> tok_text t = ''switch'' then Some ''sh: switch not supported in sh mode''
         else if first \<and> tok_text t = ''extend'' then Some ''sh: extend not supported in sh mode''
         else None)
      else None)"

fun sh_tokens_error :: "bool \<Rightarrow> token list \<Rightarrow> string option" where
  "sh_tokens_error first [] = None"
| "sh_tokens_error first (t # ts) =
     (case sh_token_error first t of Some e \<Rightarrow> Some e | None \<Rightarrow> sh_tokens_error False ts)"

definition sh_mode_check_line :: "string \<Rightarrow> string option" where
  "sh_mode_check_line trimmed =
     (if block_literal_scan False False trimmed then Some ''sh: block literal not supported in sh mode''
      else
        (case arksh_lex_line trimmed of
           Inl e \<Rightarrow> None
         | Inr toks \<Rightarrow> sh_tokens_error True toks))"

fun sh_mode_check_ast :: "'n ast \<Rightarrow> string option" where
  "sh_mode_check_ast (Ast_object_expression x) = Some ''sh: object expression not supported in sh mode''"
| "sh_mode_check_ast (Ast_object_pipeline x) = Some ''sh: |> pipeline not supported in sh mode''"
| "sh_mode_check_ast (Ast_switch_command x) = Some ''sh: switch not supported in sh mode''"
| "sh_mode_check_ast (Ast_class_command x) = Some ''sh: class not supported in sh mode''"
| "sh_mode_check_ast _ = None"

end
