(* ===== verification/Control_Flow.thy ===== *)
theory Control_Flow
  imports Simple_Command Alias_Expansion Glob
begin

text \<open>
  Command lists, conditionals, loops, groups, subshells and whole lines:
  \<open>arksh_execute_ast\<close> and its cases in \<^verbatim>\<open>src/executor.c\<close> and \<open>arksh_shell_execute_line\<close> in
  \<^verbatim>\<open>src/shell.c\<close>.  The nodes hold the texts of their parts, which are executed as lines; \<open>exec\<close> stands
  for \<open>arksh_shell_execute_line\<close>, and \<open>execute_line\<close> closes the recursion by a bound on the nesting
  of lines.  A loop that does not end and a nesting deeper than the bound are both \<open>None\<close>; a larger
  bound never changes a result.
\<close>

subsection \<open>Command lists\<close>

fun should_run_list_entry :: "list_condition \<Rightarrow> int \<Rightarrow> bool" where
  "should_run_list_entry Cond_on_success previous_status = (previous_status = 0)"
| "should_run_list_entry Cond_on_failure previous_status = (previous_status \<noteq> 0)"
| "should_run_list_entry Cond_always previous_status = True"

definition suppresses_errexit :: "list_entry list \<Rightarrow> bool" where
  "suppresses_errexit rest = (case rest of [] \<Rightarrow> False | e # _ \<Rightarrow> le_condition e \<noteq> Cond_always)"

text \<open>One entry; while it runs before an \<open>&&\<close> or \<open>||\<close>, failures do not stop the shell.\<close>

definition run_list_entry ::
  "('f, 'w, 'v, 'n) services \<Rightarrow> (('f, 'w) exec_shell \<Rightarrow> string \<Rightarrow> ('f, 'w) outcome) \<Rightarrow>
   bool \<Rightarrow> list_entry \<Rightarrow> ('f, 'w) exec_shell \<Rightarrow> ('f, 'w) outcome" where
  "run_list_entry sv exec suppress e shell = do {
     let shell1 = (if suppress then shell\<lparr>errexit_suppressed := errexit_suppressed shell + 1\<rparr> else shell);
     (shell2, segment, status) \<leftarrow>
       (if le_background e then sv_background sv shell1 (le_text e) else exec shell1 (le_text e));
     Some (if suppress \<and> errexit_suppressed shell2 > 0
           then shell2\<lparr>errexit_suppressed := errexit_suppressed shell2 - 1\<rparr> else shell2, segment, status)
   }"

fun list_loop ::
  "('f, 'w, 'v, 'n) services \<Rightarrow> (('f, 'w) exec_shell \<Rightarrow> string \<Rightarrow> ('f, 'w) outcome) \<Rightarrow>
   int \<Rightarrow> string \<Rightarrow> list_entry list \<Rightarrow> ('f, 'w) exec_shell \<Rightarrow> ('f, 'w) outcome" where
  "list_loop sv exec previous out [] shell = Some (shell, out, previous)"
| "list_loop sv exec previous out (e # rest) shell =
     (if \<not> should_run_list_entry (le_condition e) previous then list_loop sv exec previous out rest shell
      else do {
        (shell1, segment, status) \<leftarrow> run_list_entry sv exec (suppresses_errexit rest) e shell;
        case append_output_segment out segment of
          (rc, out1) \<Rightarrow>
            if rc \<noteq> 0 then Some (shell1, too_large, 1)
            else if \<not> running shell1 \<or> control_signal shell1 \<noteq> Sig_none then Some (shell1, out1, status)
            else list_loop sv exec status out1 rest shell1
      })"

definition execute_command_list ::
  "('f, 'w, 'v, 'n) services \<Rightarrow> (('f, 'w) exec_shell \<Rightarrow> string \<Rightarrow> ('f, 'w) outcome) \<Rightarrow>
   list_entry list \<Rightarrow> ('f, 'w) exec_shell \<Rightarrow> ('f, 'w) outcome" where
  "execute_command_list sv exec es shell = list_loop sv exec 0 [] es shell"

subsection \<open>Conditions and conditionals\<close>

text \<open>
  A condition is evaluated as a value; when that fails it is executed as a line.  The result is the
  status and the output, or nothing when memory is out.
\<close>

definition evaluate_condition_status ::
  "('f, 'w, 'v, 'n) services \<Rightarrow> (('f, 'w) exec_shell \<Rightarrow> string \<Rightarrow> ('f, 'w) outcome) \<Rightarrow>
   string \<Rightarrow> ('f, 'w) exec_shell \<Rightarrow> (('f, 'w) exec_shell \<times> (int \<times> string) option) option" where
  "evaluate_condition_status sv exec text shell =
     (if \<not> sv_alloc_ok sv shell ''condition value'' then Some (shell, None)
      else do {
        (shell1, r) \<leftarrow> sv_eval_value sv shell text;
        case r of
          Inr v \<Rightarrow> Some (shell1, Some (if sv_truthy sv v then 0 else 1, []))
        | Inl err \<Rightarrow> do {
            (shell2, out, status) \<leftarrow> exec shell1 text;
            Some (shell2, Some (status, out))
          }
      })"

text \<open>The condition of a conditional or a loop, evaluated with \<open>in_condition\<close> raised.\<close>

definition run_condition ::
  "('f, 'w, 'v, 'n) services \<Rightarrow> (('f, 'w) exec_shell \<Rightarrow> string \<Rightarrow> ('f, 'w) outcome) \<Rightarrow>
   string \<Rightarrow> ('f, 'w) exec_shell \<Rightarrow> (('f, 'w) exec_shell \<times> (int \<times> string) option) option" where
  "run_condition sv exec text shell = do {
     (shell1, r) \<leftarrow> evaluate_condition_status sv exec text (shell\<lparr>in_condition := in_condition shell + 1\<rparr>);
     Some (shell1\<lparr>in_condition := in_condition shell1 - 1\<rparr>, r)
   }"

text \<open>A branch: the output of the line is appended to what there is.\<close>

definition run_branch ::
  "(('f, 'w) exec_shell \<Rightarrow> string \<Rightarrow> ('f, 'w) outcome) \<Rightarrow> string \<Rightarrow> string \<Rightarrow> ('f, 'w) exec_shell \<Rightarrow> ('f, 'w) outcome" where
  "run_branch exec text out shell = do {
     (shell1, segment, status) \<leftarrow> exec shell text;
     case append_output_segment out segment of
       (rc, out1) \<Rightarrow> if rc \<noteq> 0 then Some (shell1, too_large, 1) else Some (shell1, out1, status)
   }"

definition execute_if_command ::
  "('f, 'w, 'v, 'n) services \<Rightarrow> (('f, 'w) exec_shell \<Rightarrow> string \<Rightarrow> ('f, 'w) outcome) \<Rightarrow>
   if_node \<Rightarrow> ('f, 'w) exec_shell \<Rightarrow> ('f, 'w) outcome" where
  "execute_if_command sv exec command shell = do {
     (shell1, r) \<leftarrow> run_condition sv exec (if_condition command) shell;
     case r of
       None \<Rightarrow> Some (shell1, [], 1)
     | Some (condition_status, segment) \<Rightarrow>
         (case append_output_segment [] segment of
            (rc, out) \<Rightarrow>
              if rc \<noteq> 0 then Some (shell1, too_large, 1)
              else if \<not> running shell1 \<or> control_signal shell1 \<noteq> Sig_none then Some (shell1, out, condition_status)
              else if condition_status = 0 then run_branch exec (if_then command) out shell1
              else
                (case if_else command of
                   Some branch \<Rightarrow> run_branch exec branch out shell1
                 | None \<Rightarrow> Some (shell1, out, 0)))
   }"

subsection \<open>Loops\<close>

definition enter_loop :: "('f, 'w) exec_shell \<Rightarrow> ('f, 'w) exec_shell" where
  "enter_loop shell = shell\<lparr>loop_depth := loop_depth shell + 1\<rparr>"

definition leave_loop :: "('f, 'w) exec_shell \<Rightarrow> ('f, 'w) exec_shell" where
  "leave_loop shell = shell\<lparr>loop_depth := loop_depth shell - 1\<rparr>"

text \<open>
  What follows a body: its output is appended and a pending signal is resolved.  The result of an
  iteration is the state, the output, the status, and whether the loop goes on.
\<close>

definition end_iteration ::
  "string \<Rightarrow> ('f, 'w) exec_shell \<times> string \<times> int \<Rightarrow> ('f, 'w) exec_shell \<times> string \<times> int \<times> bool" where
  "end_iteration out = (\<lambda>(shell, segment, status).
     case append_output_segment out segment of
       (rc, out1) \<Rightarrow>
         if rc \<noteq> 0 then (leave_loop shell, too_large, 1, False)
         else
           (case resolve_loop_control shell of
              (Loop_break, shell1) \<Rightarrow> (leave_loop shell1, out1, 0, False)
            | (Loop_continue, shell1) \<Rightarrow> (shell1, out1, 0, True)
            | (Loop_propagate, shell1) \<Rightarrow> (leave_loop shell1, out1, status, False)
            | (Loop_none, shell1) \<Rightarrow> (shell1, out1, status, True)))"

text \<open>
  An iteration of \<open>while\<close> or \<open>until\<close>: \<open>stop\<close> tells from the condition's status whether to stop,
  \<open>last_body\<close> is the status of the last body.  When the output of a condition does not fit, the
  loop is left without lowering \<open>loop_depth\<close>.
\<close>

definition condition_step ::
  "('f, 'w, 'v, 'n) services \<Rightarrow> (('f, 'w) exec_shell \<Rightarrow> string \<Rightarrow> ('f, 'w) outcome) \<Rightarrow>
   (int \<Rightarrow> bool) \<Rightarrow> loop_node \<Rightarrow> string \<Rightarrow> int \<Rightarrow> ('f, 'w) exec_shell \<Rightarrow>
   (('f, 'w) exec_shell \<times> string \<times> int \<times> bool) option" where
  "condition_step sv exec stop command out last_body shell =
     (if \<not> running shell then Some (leave_loop shell, out, last_body, False)
      else do {
        (shell1, r) \<leftarrow> run_condition sv exec (lp_condition command) shell;
        case r of
          None \<Rightarrow> Some (leave_loop shell1, out, 1, False)
        | Some (condition_status, segment) \<Rightarrow>
            (case append_output_segment out segment of
               (rc, out1) \<Rightarrow>
                 if rc \<noteq> 0 then Some (shell1, too_large, 1, False)
                 else if \<not> running shell1 \<or> control_signal shell1 \<noteq> Sig_none then
                   Some (leave_loop shell1, out1, condition_status, False)
                 else if stop condition_status then Some (leave_loop shell1, out1, last_body, False)
                 else do {
                   result \<leftarrow> exec shell1 (lp_body command);
                   Some (end_iteration out1 result)
                 })
      })"

partial_function (option) condition_loop ::
  "('f, 'w, 'v, 'n) services \<Rightarrow> (('f, 'w) exec_shell \<Rightarrow> string \<Rightarrow> ('f, 'w) outcome) \<Rightarrow>
   (int \<Rightarrow> bool) \<Rightarrow> loop_node \<Rightarrow> string \<Rightarrow> int \<Rightarrow> ('f, 'w) exec_shell \<Rightarrow> ('f, 'w) outcome" where
  "condition_loop sv exec stop command out last_body shell = do {
     (shell1, out1, status, again) \<leftarrow> condition_step sv exec stop command out last_body shell;
     if again then condition_loop sv exec stop command out1 status shell1 else Some (shell1, out1, status)
   }"

declare condition_loop.simps [code]

lemma condition_loop_induct [consumes 1, case_names stop again]:
  assumes ret: "condition_loop sv exec stop c out last_body s = Some res"
    and stop: "\<And>out last_body s t out1 status.
      condition_step sv exec stop c out last_body s = Some (t, out1, status, False) \<Longrightarrow>
      P out last_body s (t, out1, status)"
    and again: "\<And>out last_body s t out1 status res.
      condition_step sv exec stop c out last_body s = Some (t, out1, status, True) \<Longrightarrow>
      condition_loop sv exec stop c out1 status t = Some res \<Longrightarrow> P out1 status t res \<Longrightarrow> P out last_body s res"
  shows "P out last_body s res"
proof -
  have "sv = sv \<and> exec = exec \<and> stop = stop \<and> c = c \<longrightarrow>
      condition_loop sv exec stop c out last_body s = Some res \<and> P out last_body s res"
  proof (rule condition_loop.raw_induct [where P = "\<lambda>sv' exec' stop' c' out last_body s res.
      sv' = sv \<and> exec' = exec \<and> stop' = stop \<and> c' = c \<longrightarrow>
      condition_loop sv exec stop c out last_body s = Some res \<and> P out last_body s res", OF _ ret])
    fix f sv' exec' stop' c' out last_body s res
    assume IH: "\<And>sv' exec' stop' c' out last_body s res. f sv' exec' stop' c' out last_body s = Some res \<Longrightarrow>
        sv' = sv \<and> exec' = exec \<and> stop' = stop \<and> c' = c \<longrightarrow>
        condition_loop sv exec stop c out last_body s = Some res \<and> P out last_body s res"
      and run: "Option.bind (condition_step sv' exec' stop' c' out last_body s) (\<lambda>(t, out1, status, again).
        if again then f sv' exec' stop' c' out1 status t else Some (t, out1, status)) = Some res"
    show "sv' = sv \<and> exec' = exec \<and> stop' = stop \<and> c' = c \<longrightarrow>
        condition_loop sv exec stop c out last_body s = Some res \<and> P out last_body s res"
    proof
      assume same: "sv' = sv \<and> exec' = exec \<and> stop' = stop \<and> c' = c"
      with run obtain t out1 status go where
        step: "condition_step sv exec stop c out last_body s = Some (t, out1, status, go)"
        and rest: "(if go then f sv exec stop c out1 status t else Some (t, out1, status)) = Some res"
        by (auto simp: bind_eq_Some_conv)
      show "condition_loop sv exec stop c out last_body s = Some res \<and> P out last_body s res"
      proof (cases go)
        case True
        with rest IH have *: "condition_loop sv exec stop c out1 status t = Some res \<and> P out1 status t res" by simp
        with step True again show ?thesis by (subst condition_loop.simps) auto
      next
        case False
        with step rest stop show ?thesis by (subst condition_loop.simps) auto
      qed
    qed
  qed
  then show ?thesis by simp
qed

definition execute_while_command ::
  "('f, 'w, 'v, 'n) services \<Rightarrow> (('f, 'w) exec_shell \<Rightarrow> string \<Rightarrow> ('f, 'w) outcome) \<Rightarrow>
   loop_node \<Rightarrow> ('f, 'w) exec_shell \<Rightarrow> ('f, 'w) outcome" where
  "execute_while_command sv exec command shell =
     condition_loop sv exec (\<lambda>status. status \<noteq> 0) command [] 0 (enter_loop shell)"

definition execute_until_command ::
  "('f, 'w, 'v, 'n) services \<Rightarrow> (('f, 'w) exec_shell \<Rightarrow> string \<Rightarrow> ('f, 'w) outcome) \<Rightarrow>
   loop_node \<Rightarrow> ('f, 'w) exec_shell \<Rightarrow> ('f, 'w) outcome" where
  "execute_until_command sv exec command shell =
     condition_loop sv exec (\<lambda>status. status = 0) command [] 0 (enter_loop shell)"

fun append_for_source_word ::
  "('f, 'w, 'v, 'n) services \<Rightarrow> 'v list \<Rightarrow> string list \<Rightarrow> ('f, 'w) exec_shell \<Rightarrow> string + 'v list" where
  "append_for_source_word sv items [] shell = Inr items"
| "append_for_source_word sv items (word # ws) shell =
     (if \<not> sv_alloc_ok sv shell ''for-loop source item'' then Inl ''unable to allocate for-loop source item''
      else if \<not> sv_copy_ok sv shell (sv_item_value sv word) then Inl ''unable to append for-loop item''
      else append_for_source_word sv (items @ [sv_item_value sv word]) ws shell)"

fun append_for_tokens ::
  "('f, 'w, 'v, 'n) services \<Rightarrow> 'v list \<Rightarrow> token list \<Rightarrow> ('f, 'w) exec_shell \<Rightarrow>
   (('f, 'w) exec_shell \<times> (string + 'v iterable)) option" where
  "append_for_tokens sv items [] shell = Some (shell, Inr (It_list items))"
| "append_for_tokens sv items (t # ts) shell =
     (if tok_kind t = Tok_eof then Some (shell, Inr (It_list items))
      else if tok_kind t \<noteq> Tok_word \<and> tok_kind t \<noteq> Tok_string then
        Some (shell, Inl ''for-loop source only supports value expressions or shell words'')
      else do {
        (shell1, r) \<leftarrow> sv_expand_word sv shell (tok_raw t) Mode_command max_args;
        case bind_err r (\<lambda>vals. append_for_source_word sv items vals shell1) of
          Inl err \<Rightarrow> Some (shell1, Inl err)
        | Inr items1 \<Rightarrow> append_for_tokens sv items1 ts shell1
      })"

definition evaluate_for_source ::
  "('f, 'w, 'v, 'n) services \<Rightarrow> string \<Rightarrow> ('f, 'w) exec_shell \<Rightarrow>
   (('f, 'w) exec_shell \<times> (string + 'v iterable)) option" where
  "evaluate_for_source sv text shell =
     (if \<not> sv_alloc_ok sv shell ''for-loop source'' then Some (shell, Inl ''unable to allocate for-loop source'')
      else do {
        (shell1, r) \<leftarrow> sv_eval_value sv shell text;
        case r of
          Inr v \<Rightarrow> Some (shell1, Inr (sv_iterable sv v))
        | Inl err \<Rightarrow>
            (case arksh_lex_line text of
               Inl e \<Rightarrow> Some (shell1, Inl (sv_lex_message sv e))
             | Inr toks \<Rightarrow> append_for_tokens sv [] toks shell1)
      })"

definition assign_for_loop_variable ::
  "('f, 'w, 'v, 'n) services \<Rightarrow> string \<Rightarrow> 'v \<Rightarrow> ('f, 'w) exec_shell \<Rightarrow> ('f, 'w) exec_shell \<times> string option" where
  "assign_for_loop_variable sv name v shell =
     (case sv_set_binding sv shell name v of
        (status, shell1) \<Rightarrow>
          if status \<noteq> 0 then (shell1, Some (''unable to bind for-loop variable: '' @ name))
          else
            (case sv_render_var sv v of
               None \<Rightarrow> (shell1, Some (''unable to render for-loop variable: '' @ name))
             | Some rendered \<Rightarrow>
                 (case arksh_shell_set_var (sv_mem sv) (vs shell1) name rendered False of
                    (status2, vs2) \<Rightarrow>
                      (shell1\<lparr>vs := vs2\<rparr>,
                       if status2 \<noteq> 0 then Some (''unable to assign for-loop variable: '' @ name) else None))))"

text \<open>The items of a list in order; a failing copy of an item leaves \<open>loop_depth\<close> raised.\<close>

definition for_step ::
  "('f, 'w, 'v, 'n) services \<Rightarrow> (('f, 'w) exec_shell \<Rightarrow> string \<Rightarrow> ('f, 'w) outcome) \<Rightarrow>
   for_node \<Rightarrow> string \<Rightarrow> int \<Rightarrow> 'v \<Rightarrow> ('f, 'w) exec_shell \<Rightarrow>
   (('f, 'w) exec_shell \<times> string \<times> int \<times> bool) option" where
  "for_step sv exec command out last_body v shell =
     (if \<not> running shell then Some (leave_loop shell, out, last_body, False)
      else if \<not> sv_alloc_ok sv shell ''for-loop current value'' then
        Some (leave_loop shell, ''unable to allocate for-loop current value'', 1, False)
      else if \<not> sv_copy_ok sv shell v then Some (shell, ''unable to prepare for-loop item'', 1, False)
      else
        (case assign_for_loop_variable sv (for_variable command) v shell of
           (shell1, Some err) \<Rightarrow> Some (leave_loop shell1, err, 1, False)
         | (shell1, None) \<Rightarrow> do {
             result \<leftarrow> exec shell1 (for_body command);
             Some (end_iteration out result)
           }))"

fun for_loop ::
  "('f, 'w, 'v, 'n) services \<Rightarrow> (('f, 'w) exec_shell \<Rightarrow> string \<Rightarrow> ('f, 'w) outcome) \<Rightarrow>
   for_node \<Rightarrow> string \<Rightarrow> int \<Rightarrow> 'v list \<Rightarrow> ('f, 'w) exec_shell \<Rightarrow> ('f, 'w) outcome" where
  "for_loop sv exec command out last_body [] shell = Some (leave_loop shell, out, last_body)"
| "for_loop sv exec command out last_body (v # items) shell = do {
     (shell1, out1, status, again) \<leftarrow> for_step sv exec command out last_body v shell;
     if again then for_loop sv exec command out1 status items shell1 else Some (shell1, out1, status)
   }"

definition for_single ::
  "('f, 'w, 'v, 'n) services \<Rightarrow> (('f, 'w) exec_shell \<Rightarrow> string \<Rightarrow> ('f, 'w) outcome) \<Rightarrow>
   for_node \<Rightarrow> 'v \<Rightarrow> ('f, 'w) exec_shell \<Rightarrow> ('f, 'w) outcome" where
  "for_single sv exec command v shell =
     (case assign_for_loop_variable sv (for_variable command) v shell of
        (shell1, Some err) \<Rightarrow> Some (leave_loop shell1, err, 1)
      | (shell1, None) \<Rightarrow> do {
          (shell2, segment, status) \<leftarrow> exec shell1 (for_body command);
          case append_output_segment [] segment of
            (rc, out) \<Rightarrow>
              if rc \<noteq> 0 then Some (leave_loop shell2, too_large, 1)
              else
                (case resolve_loop_control shell2 of
                   (action, shell3) \<Rightarrow>
                     Some (leave_loop shell3, out,
                           if action = Loop_break \<or> action = Loop_continue then 0 else status))
        })"

definition execute_for_command ::
  "('f, 'w, 'v, 'n) services \<Rightarrow> (('f, 'w) exec_shell \<Rightarrow> string \<Rightarrow> ('f, 'w) outcome) \<Rightarrow>
   for_node \<Rightarrow> ('f, 'w) exec_shell \<Rightarrow> ('f, 'w) outcome" where
  "execute_for_command sv exec command shell =
     (if \<not> sv_alloc_ok sv shell ''for-loop iterable'' then
        Some (shell, ''unable to allocate for-loop iterable'', 1)
      else do {
        (shell1, r) \<leftarrow> evaluate_for_source sv (for_source command) shell;
        case r of
          Inl err \<Rightarrow> Some (shell1, err, 1)
        | Inr (It_list items) \<Rightarrow> for_loop sv exec command [] 0 items (enter_loop shell1)
        | Inr It_empty \<Rightarrow> Some (leave_loop (enter_loop shell1), [], 0)
        | Inr (It_single v) \<Rightarrow> for_single sv exec command v (enter_loop shell1)
      })"

subsection \<open>Switch and case\<close>

definition expand_single_word ::
  "('f, 'w, 'v, 'n) services \<Rightarrow> string \<Rightarrow> expand_mode \<Rightarrow> ('f, 'w) exec_shell \<Rightarrow>
   (('f, 'w) exec_shell \<times> (string + string)) option" where
  "expand_single_word sv raw mode shell = do {
     (shell1, r) \<leftarrow> sv_expand_word sv shell raw mode 1;
     Some (shell1, bind_err r (\<lambda>vals.
       if length vals \<noteq> 1 then Inl ''expansion produced an unexpected number of values''
       else Inr (copy_string max_token (hd vals))))
   }"

definition evaluate_switch_operand ::
  "('f, 'w, 'v, 'n) services \<Rightarrow> string \<Rightarrow> ('f, 'w) exec_shell \<Rightarrow> (('f, 'w) exec_shell \<times> (string + 'v)) option" where
  "evaluate_switch_operand sv text shell =
     (if CHR ''('' \<in> set (takeWhile (\<lambda>c. \<not> c_isspace c) text) then sv_eval_atom sv shell text
      else do {
        (shell1, r) \<leftarrow> expand_single_word sv text Mode_command_name shell;
        case r of
          Inl err \<Rightarrow> sv_eval_atom sv shell1 text
        | Inr expanded \<Rightarrow> Some (shell1, Inr (sv_text_value sv expanded))
      })"

definition compare_rendered_values :: "('f, 'w, 'v, 'n) services \<Rightarrow> 'v \<Rightarrow> 'v \<Rightarrow> string + bool" where
  "compare_rendered_values sv left right =
     (case (sv_render sv left, sv_render sv right) of
        (Some l, Some r) \<Rightarrow> Inr (l = r)
      | _ \<Rightarrow> Inl ''unable to compare values'')"

fun switch_loop ::
  "('f, 'w, 'v, 'n) services \<Rightarrow> (('f, 'w) exec_shell \<Rightarrow> string \<Rightarrow> ('f, 'w) outcome) \<Rightarrow>
   'v \<Rightarrow> string option \<Rightarrow> (string \<times> string) list \<Rightarrow> ('f, 'w) exec_shell \<Rightarrow> ('f, 'w) outcome" where
  "switch_loop sv exec switch_value default_branch [] shell =
     (case default_branch of None \<Rightarrow> Some (shell, [], 0) | Some body \<Rightarrow> exec shell body)"
| "switch_loop sv exec switch_value default_branch ((match, body) # cases) shell =
     (if \<not> sv_alloc_ok sv shell ''switch case value'' then
        Some (shell, ''unable to allocate switch case value'', 1)
      else do {
        (shell1, r) \<leftarrow> evaluate_switch_operand sv match shell;
        case bind_err r (\<lambda>case_value. compare_rendered_values sv switch_value case_value) of
          Inl err \<Rightarrow> Some (shell1, err, 1)
        | Inr matches \<Rightarrow>
            if matches then exec shell1 body
            else switch_loop sv exec switch_value default_branch cases shell1
      })"

definition execute_switch_command ::
  "('f, 'w, 'v, 'n) services \<Rightarrow> (('f, 'w) exec_shell \<Rightarrow> string \<Rightarrow> ('f, 'w) outcome) \<Rightarrow>
   switch_node \<Rightarrow> ('f, 'w) exec_shell \<Rightarrow> ('f, 'w) outcome" where
  "execute_switch_command sv exec command shell =
     (if \<not> sv_alloc_ok sv shell ''switch value'' then Some (shell, ''unable to allocate switch value'', 1)
      else do {
        (shell1, r) \<leftarrow> evaluate_switch_operand sv (sw_expression command) shell;
        case r of
          Inl err \<Rightarrow> Some (shell1, err, 1)
        | Inr v \<Rightarrow> switch_loop sv exec v (sw_default command) (sw_cases command) shell1
      })"

text \<open>
  The alternatives of a case branch: the text is lexed and cut at the pipe tokens; a text the lexer
  refuses is one alternative.  Empty alternatives are dropped.
\<close>

definition copy_trimmed_range :: "string \<Rightarrow> nat \<Rightarrow> nat \<Rightarrow> string" where
  "copy_trimmed_range text start end_pos =
     copy_string max_line (trim_text (take (min (end_pos - start) (max_line - 1)) (drop start text)))"

definition strip_matching_quotes :: "string \<Rightarrow> string" where
  "strip_matching_quotes text =
     (if length text \<ge> 2 \<and> (hd text = dquote \<and> last text = dquote \<or> hd text = squote \<and> last text = squote)
      then butlast (tl text) else text)"

definition max_case_branches :: nat where "max_case_branches = 16"

definition keep_pattern :: "string list \<Rightarrow> string \<Rightarrow> string list" where
  "keep_pattern patterns p =
     (let q = strip_matching_quotes p in if q \<noteq> [] then patterns @ [q] else patterns)"

fun split_alternatives :: "string \<Rightarrow> nat \<Rightarrow> string list \<Rightarrow> token list \<Rightarrow> string list option" where
  "split_alternatives text segment_start patterns [] = Some patterns"
| "split_alternatives text segment_start patterns (t # ts) =
     (if tok_kind t = Tok_eof then
        (if length patterns \<ge> max_case_branches then None
         else Some (keep_pattern patterns (copy_trimmed_range text segment_start (length text))))
      else if tok_kind t = Tok_shell_pipe then
        (if length patterns \<ge> max_case_branches then None
         else split_alternatives text (tok_pos t + length (tok_raw t))
                (keep_pattern patterns (copy_trimmed_range text segment_start (tok_pos t))) ts)
      else split_alternatives text segment_start patterns ts)"

definition split_case_pattern_alternatives :: "string \<Rightarrow> string list option" where
  "split_case_pattern_alternatives patterns_text =
     (case arksh_lex_line patterns_text of
        Inl e \<Rightarrow> Some (keep_pattern [] (copy_trimmed_range patterns_text 0 (length patterns_text)))
      | Inr toks \<Rightarrow> split_alternatives patterns_text 0 [] toks)"

definition case_branch_matches :: "string \<Rightarrow> string \<Rightarrow> bool" where
  "case_branch_matches patterns_text switch_text =
     (case split_case_pattern_alternatives patterns_text of
        None \<Rightarrow> False
      | Some patterns \<Rightarrow> list_ex (\<lambda>p. shell_pattern_matches p switch_text) patterns)"

fun case_loop ::
  "(('f, 'w) exec_shell \<Rightarrow> string \<Rightarrow> ('f, 'w) outcome) \<Rightarrow> string \<Rightarrow> case_branch list \<Rightarrow>
   ('f, 'w) exec_shell \<Rightarrow> ('f, 'w) outcome" where
  "case_loop exec rendered [] shell = Some (shell, [], 0)"
| "case_loop exec rendered (b # bs) shell =
     (if case_branch_matches (cb_patterns b) rendered then
        (if cb_body b = [] then Some (shell, [], 0) else exec shell (cb_body b))
      else case_loop exec rendered bs shell)"

definition execute_case_command ::
  "('f, 'w, 'v, 'n) services \<Rightarrow> (('f, 'w) exec_shell \<Rightarrow> string \<Rightarrow> ('f, 'w) outcome) \<Rightarrow>
   case_node \<Rightarrow> ('f, 'w) exec_shell \<Rightarrow> ('f, 'w) outcome" where
  "execute_case_command sv exec command shell =
     (if \<not> sv_alloc_ok sv shell ''case value'' then Some (shell, ''unable to allocate case value'', 1)
      else do {
        (shell1, r) \<leftarrow> evaluate_switch_operand sv (case_expression command) shell;
        case r of
          Inl err \<Rightarrow> Some (shell1, err, 1)
        | Inr v \<Rightarrow>
            (case sv_render sv v of
               None \<Rightarrow> Some (shell1, ''unable to render case expression'', 1)
             | Some rendered \<Rightarrow> case_loop exec rendered (case_branches command) shell1)
      })"

subsection \<open>Groups, subshells and elevated blocks\<close>

definition redirection_affects_stdin :: "redirection \<Rightarrow> bool" where
  "redirection_affects_stdin r \<longleftrightarrow>
     rd_kind r \<in> {Redirect_input, Redirect_herestring, Redirect_heredoc} \<or>
     rd_kind r \<in> {Redirect_fd_input, Redirect_fd_dup_input, Redirect_fd_close} \<and> rd_fd r = 0"

text \<open>One redirection to a file: the target is expanded and the text written.\<close>

definition redirect_to_file ::
  "('f, 'w, 'v, 'n) services \<Rightarrow> redirection \<Rightarrow> string \<Rightarrow> bool \<Rightarrow> ('f, 'w) exec_shell \<Rightarrow>
   (('f, 'w) exec_shell \<times> string option) option" where
  "redirect_to_file sv r text appending shell = do {
     (shell1, target) \<leftarrow> expand_single_word sv (rd_raw_target r) Mode_redirect_target shell;
     case target of
       Inl err \<Rightarrow> Some (shell1, Some err)
     | Inr path \<Rightarrow>
         (case sv_write_file sv shell1 path text appending of
            (shell2, ok) \<Rightarrow> Some (shell2, if ok then None else Some (''unable to open redirect target: '' @ path)))
   }"

fun compound_redirections_loop ::
  "('f, 'w, 'v, 'n) services \<Rightarrow> redirection list \<Rightarrow> string \<Rightarrow> string \<Rightarrow> ('f, 'w) exec_shell \<Rightarrow>
   (('f, 'w) exec_shell \<times> (string + string \<times> string)) option" where
  "compound_redirections_loop sv [] stdout_text stderr_text shell = Some (shell, Inr (stdout_text, stderr_text))"
| "compound_redirections_loop sv (r # rs) stdout_text stderr_text shell =
     (if rd_kind r \<in> {Redirect_input, Redirect_herestring, Redirect_heredoc} then
        compound_redirections_loop sv rs stdout_text stderr_text shell
      else if rd_kind r \<in> {Redirect_output_truncate, Redirect_output_append} then do {
        (shell1, e) \<leftarrow> redirect_to_file sv r stdout_text (rd_kind r = Redirect_output_append) shell;
        case e of
          Some err \<Rightarrow> Some (shell1, Inl err)
        | None \<Rightarrow> compound_redirections_loop sv rs [] stderr_text shell1
      }
      else if rd_kind r \<in> {Redirect_error_truncate, Redirect_error_append} then do {
        (shell1, e) \<leftarrow> redirect_to_file sv r stderr_text (rd_kind r = Redirect_error_append) shell;
        case e of
          Some err \<Rightarrow> Some (shell1, Inl err)
        | None \<Rightarrow> compound_redirections_loop sv rs stdout_text [] shell1
      }
      else if rd_kind r = Redirect_error_to_output then
        (case append_output_segment stdout_text stderr_text of
           (rc, joined) \<Rightarrow>
             if rc \<noteq> 0 then Some (shell, Inl too_large) else compound_redirections_loop sv rs joined [] shell)
      else if rd_kind r \<in> {Redirect_fd_input, Redirect_fd_dup_input, Redirect_fd_close} \<and> rd_fd r = 0 then
        compound_redirections_loop sv rs stdout_text stderr_text shell
      else Some (shell, Inl ''unsupported redirection kind''))"

definition apply_compound_command_redirections ::
  "('f, 'w, 'v, 'n) services \<Rightarrow> redirection list \<Rightarrow> int \<Rightarrow> string \<Rightarrow> ('f, 'w) exec_shell \<Rightarrow>
   (('f, 'w) exec_shell \<times> (string + string)) option" where
  "apply_compound_command_redirections sv redirections status command_output shell = do {
     (shell1, r) \<leftarrow> compound_redirections_loop sv redirections (if status = 0 then command_output else [])
                      (if status = 0 then [] else command_output) shell;
     Some (shell1, bind_err r (\<lambda>(stdout_text, stderr_text).
       Inr (if status = 0 then stdout_text else if stderr_text \<noteq> [] then stderr_text else stdout_text)))
   }"

definition inherit_input :: "redirection list \<Rightarrow> ('f, 'w) exec_shell \<Rightarrow> ('f, 'w) exec_shell" where
  "inherit_input redirections shell =
     foldl (\<lambda>sh r. if redirection_affects_stdin r
        then sh\<lparr>inherited_input_active := True, inherited_input_redirection := r\<rparr> else sh) shell redirections"

definition execute_compound_body ::
  "('f, 'w, 'v, 'n) services \<Rightarrow> (('f, 'w) exec_shell \<Rightarrow> string \<Rightarrow> ('f, 'w) outcome) \<Rightarrow>
   compound_node \<Rightarrow> ('f, 'w) exec_shell \<Rightarrow> ('f, 'w) outcome" where
  "execute_compound_body sv exec compound shell = do {
     (shell1, command_output, status) \<leftarrow> exec (inherit_input (cn_redirections compound) shell) (cn_body compound);
     let shell2 = shell1\<lparr>inherited_input_active := inherited_input_active shell,
                         inherited_input_redirection := inherited_input_redirection shell\<rparr>;
     (shell3, r) \<leftarrow> apply_compound_command_redirections sv (cn_redirections compound) status command_output shell2;
     Some (case r of Inl err \<Rightarrow> (shell3, err, 1) | Inr out \<Rightarrow> (shell3, out, status))
   }"

text \<open>The text and the status the parent takes from the end of a subshell.\<close>

definition subshell_result :: "child_end \<Rightarrow> string \<Rightarrow> int \<Rightarrow> string \<times> int" where
  "subshell_result ending out status =
     (case ending of
        Child_exited \<Rightarrow> (copy_string max_output out, status mod 256)
      | Child_signaled shown signal \<Rightarrow> (copy_string max_output shown, 128 + int signal)
      | Child_unread \<Rightarrow> (''unable to read subshell output'', 1)
      | Child_not_waited \<Rightarrow> (''unable to wait for subshell'', 1))"

definition execute_subshell_command ::
  "('f, 'w, 'v, 'n) services \<Rightarrow> (('f, 'w) exec_shell \<Rightarrow> string \<Rightarrow> ('f, 'w) outcome) \<Rightarrow>
   compound_node \<Rightarrow> ('f, 'w) exec_shell \<Rightarrow> ('f, 'w) outcome" where
  "execute_subshell_command sv exec compound shell =
     (case sv_clone_subshell sv shell of
        Inl err \<Rightarrow> Some (shell, err, 1)
      | Inr subshell \<Rightarrow>
          (case sv_start_child sv shell of
             Some err \<Rightarrow> Some (shell, err, 1)
           | None \<Rightarrow> do {
               (child, out, status) \<leftarrow> execute_compound_body sv exec compound subshell;
               Some (shell\<lparr>world := sv_join_world sv (world shell) (world child)\<rparr>,
                     subshell_result (sv_child_end sv child) out status)
             }))"

definition execute_with_sudo_command ::
  "(('f, 'w) exec_shell \<Rightarrow> string \<Rightarrow> ('f, 'w) outcome) \<Rightarrow> string \<Rightarrow> ('f, 'w) exec_shell \<Rightarrow> ('f, 'w) outcome" where
  "execute_with_sudo_command exec body shell = do {
     (shell1, out, status) \<leftarrow> exec (shell\<lparr>ctx_sudo := ctx_sudo shell + 1\<rparr>) body;
     Some (shell1\<lparr>ctx_sudo := ctx_sudo shell1 - 1\<rparr>, out, status)
   }"

definition execute_function_definition ::
  "('f, 'w, 'v, 'n) services \<Rightarrow> shell_function \<Rightarrow> ('f, 'w) exec_shell \<Rightarrow> ('f, 'w) outcome" where
  "execute_function_definition sv node shell =
     (case arksh_shell_set_function (realloc_ok (sv_mem sv)) (reg shell) node of
        (status, reg1) \<Rightarrow>
          Some (shell\<lparr>reg := reg1\<rparr>,
                if status \<noteq> 0 then (''unable to define function: '' @ f_name node, 1) else ([], 0)))"

subsection \<open>Syntax trees and lines\<close>

fun arksh_execute_ast ::
  "('f, 'w, 'v, 'n) services \<Rightarrow> (('f, 'w) exec_shell \<Rightarrow> string \<Rightarrow> ('f, 'w) outcome) \<Rightarrow>
   'n ast \<Rightarrow> ('f, 'w) exec_shell \<Rightarrow> ('f, 'w) outcome" where
  "arksh_execute_ast sv exec Ast_empty shell = Some (shell, [], 0)"
| "arksh_execute_ast sv exec (Ast_simple_command raw_argv) shell = execute_simple_command sv exec raw_argv shell"
| "arksh_execute_ast sv exec (Ast_value_expression x) shell = sv_run_node sv shell x"
| "arksh_execute_ast sv exec (Ast_object_expression x) shell = sv_run_node sv shell x"
| "arksh_execute_ast sv exec (Ast_object_pipeline x) shell = sv_run_node sv shell x"
| "arksh_execute_ast sv exec (Ast_command_pipeline x) shell = sv_run_node sv shell x"
| "arksh_execute_ast sv exec (Ast_command_list es) shell = execute_command_list sv exec es shell"
| "arksh_execute_ast sv exec (Ast_group_command c) shell = execute_compound_body sv exec c shell"
| "arksh_execute_ast sv exec (Ast_subshell_command c) shell = execute_subshell_command sv exec c shell"
| "arksh_execute_ast sv exec (Ast_if_command c) shell = execute_if_command sv exec c shell"
| "arksh_execute_ast sv exec (Ast_while_command c) shell = execute_while_command sv exec c shell"
| "arksh_execute_ast sv exec (Ast_until_command c) shell = execute_until_command sv exec c shell"
| "arksh_execute_ast sv exec (Ast_for_command c) shell = execute_for_command sv exec c shell"
| "arksh_execute_ast sv exec (Ast_case_command c) shell = execute_case_command sv exec c shell"
| "arksh_execute_ast sv exec (Ast_switch_command c) shell = execute_switch_command sv exec c shell"
| "arksh_execute_ast sv exec (Ast_function_command c) shell = execute_function_definition sv c shell"
| "arksh_execute_ast sv exec (Ast_class_command x) shell = sv_run_node sv shell x"
| "arksh_execute_ast sv exec (Ast_with_sudo_command body) shell = execute_with_sudo_command exec body shell"

definition keyword_line :: "string \<Rightarrow> string \<Rightarrow> bool" where
  "keyword_line keyword trimmed \<longleftrightarrow>
     trimmed = keyword \<or>
     (next_is keyword trimmed \<and> length trimmed > length keyword \<and> c_isspace (trimmed ! length keyword))"

definition alias_error_text :: "('f, 'w, 'v, 'n) services \<Rightarrow> alias_error \<Rightarrow> string" where
  "alias_error_text sv e =
     (case e of
        Alias_lex l \<Rightarrow> if sv_lex_message sv l = [] then ''alias expansion error'' else sv_lex_message sv l
      | Alias_too_long \<Rightarrow> ''alias expansion produced a line that is too long''
      | Alias_depth \<Rightarrow> ''alias expansion depth exceeded'')"

text \<open>What \<open>arksh_shell_execute_line\<close> does after the tree: the status, the traps and \<open>set -e\<close>.\<close>

definition run_err_trap ::
  "(('f, 'w) exec_shell \<Rightarrow> string \<Rightarrow> ('f, 'w) outcome) \<Rightarrow> ('f, 'w) exec_shell \<Rightarrow> ('f, 'w) exec_shell option" where
  "run_err_trap exec shell =
     (if err_trap_active shell \<and> err_trap_command shell \<noteq> [] then do {
        (shell1, out, status) \<leftarrow> exec (shell\<lparr>err_trap_active := False\<rparr>) (err_trap_command shell);
        Some (shell1\<lparr>err_trap_active := True\<rparr>)
      }
      else Some shell)"

definition finish_line ::
  "('f, 'w, 'v, 'n) services \<Rightarrow> (('f, 'w) exec_shell \<Rightarrow> string \<Rightarrow> ('f, 'w) outcome) \<Rightarrow>
   string \<Rightarrow> int \<Rightarrow> ('f, 'w) exec_shell \<Rightarrow> ('f, 'w) outcome" where
  "finish_line sv exec out status shell = do {
     shell1 \<leftarrow> sv_fire_traps sv (shell\<lparr>last_status := status\<rparr>);
     if status \<noteq> 0 \<and> in_condition shell1 = 0 \<and> errexit_suppressed shell1 = 0 \<and> \<not> running_exit_trap shell1
     then do {
       shell2 \<leftarrow> run_err_trap exec shell1;
       Some (if opt_errexit shell2 then shell2\<lparr>running := False\<rparr> else shell2, out, status)
     }
     else Some (shell1, out, status)
   }"

definition with_status :: "('f, 'w) exec_shell \<times> string \<times> int \<Rightarrow> ('f, 'w) outcome" where
  "with_status = (\<lambda>(shell, out, status). Some (shell\<lparr>last_status := status\<rparr>, out, status))"

text \<open>
  The words handled in front of the parser; \<open>None\<close> when the line is not one of them.
\<close>

definition keyword_dispatch ::
  "('f, 'w, 'v, 'n) services \<Rightarrow> string \<Rightarrow> ('f, 'w) exec_shell \<Rightarrow> ('f, 'w) outcome option" where
  "keyword_dispatch sv trimmed shell =
     (if CHR 0x0A \<in> set trimmed \<or> CHR 0x0D \<in> set trimmed \<or> contains_top_level_list_operator trimmed then None
      else if \<not> sh_mode shell \<and> keyword_line ''let'' trimmed then Some (sv_let_line sv shell trimmed)
      else if \<not> sh_mode shell \<and> keyword_line ''extend'' trimmed then Some (sv_extend_line sv shell trimmed)
      else if keyword_line ''break'' trimmed then
        Some (Some (handle_loop_control_line shell trimmed ''break'' Sig_break))
      else if keyword_line ''continue'' trimmed then
        Some (Some (handle_loop_control_line shell trimmed ''continue'' Sig_continue))
      else if keyword_line ''return'' trimmed then Some (handle_return_line sv shell trimmed)
      else None)"

definition sh_mode_error :: "string \<Rightarrow> ('f, 'w) exec_shell \<Rightarrow> string option" where
  "sh_mode_error trimmed shell =
     (if \<not> sh_mode shell then None
      else if keyword_line ''let'' trimmed then Some ''sh: let not supported in sh mode''
      else if keyword_line ''extend'' trimmed then Some ''sh: extend not supported in sh mode''
      else sh_mode_check_line trimmed)"

definition execute_line_step ::
  "('f, 'w, 'v, 'n) services \<Rightarrow> (('f, 'w) exec_shell \<Rightarrow> string \<Rightarrow> ('f, 'w) outcome) \<Rightarrow>
   ('f, 'w) exec_shell \<Rightarrow> string \<Rightarrow> ('f, 'w) outcome" where
  "execute_line_step sv exec shell line =
     (if is_blank_or_comment_line line then with_status (shell, [], 0)
      else
        (case expand_aliases (reg shell) line of
           Inl e \<Rightarrow> with_status (shell, alias_error_text sv e, 1)
         | Inr expanded \<Rightarrow>
             (let trimmed = trim_copy max_line expanded in
              case sh_mode_error trimmed shell of
                Some err \<Rightarrow> with_status (shell, err, 1)
              | None \<Rightarrow>
                  (case keyword_dispatch sv trimmed shell of
                     Some r \<Rightarrow> Option.bind r with_status
                   | None \<Rightarrow>
                       if \<not> sv_alloc_ok sv shell ''parser state'' then
                         with_status (shell, ''unable to allocate parser state'', 1)
                       else
                         (case sv_parse_line sv expanded of
                            Inl err \<Rightarrow> with_status (shell, if err = [] then ''parse error'' else err, 1)
                          | Inr ast \<Rightarrow>
                              (case (if sh_mode shell then sh_mode_check_ast ast else None) of
                                 Some err \<Rightarrow> with_status (shell, err, 1)
                               | None \<Rightarrow> do {
                                   (shell1, out, status) \<leftarrow> arksh_execute_ast sv exec ast shell;
                                   finish_line sv exec out status (sv_end_substitutions sv shell shell1)
                                 }))))))"

text \<open>\<open>arksh_shell_execute_line\<close>, with a bound on the nesting of lines.\<close>

fun execute_line ::
  "('f, 'w, 'v, 'n) services \<Rightarrow> nat \<Rightarrow> ('f, 'w) exec_shell \<Rightarrow> string \<Rightarrow> ('f, 'w) outcome" where
  "execute_line sv 0 shell line = None"
| "execute_line sv (Suc n) shell line = execute_line_step sv (execute_line sv n) shell line"

end
