(* ===== verification/Exec_Frame.thy ===== *)
theory Exec_Frame
  imports Control_Flow
begin

text \<open>
  What a line may do to the state.  A relation between states that the services respect and that is
  closed under the executor's own updates is respected by the execution of every line; the locale
  proves this once, by cases on the syntax tree.  Its instances say that the counters of the
  executor are balanced and that \<open>set -e\<close> does not stop the shell inside conditions, where it stops
  only when one of the commands \<open>exit\<close> and \<open>exec\<close> asks for it.
\<close>

subsection \<open>The number of scopes\<close>

lemma length_frames_simps [simp]:
  "length (frames (snd (arksh_shell_set_var mem vt name v ex))) = length (frames vt)"
  "length (frames (snd (arksh_shell_unset_var mem vt name))) = length (frames vt)"
  "length (frames (snd (arksh_shell_set_positional_argv mem vt vals))) = length (frames vt)"
  "length (frames (snd (sync_visible_var_env mem name vt))) = length (frames vt)"
  by (auto simp: arksh_shell_set_var_def arksh_shell_unset_var_def arksh_shell_set_positional_argv_def
      sync_visible_var_env_def set_process_env_def unset_process_env_def Let_def
      split: list.splits option.splits prod.splits if_splits)

lemma length_frames_pop [simp]: "length (frames (arksh_shell_pop_scope_frame mem vt)) = length (frames vt) - 1"
proof (cases "frames vt")
  case (Cons f fs)
  have "length (frames (foldl (\<lambda>s e. snd (sync_visible_var_env mem (v_name e) s)) vu es)) = length (frames vu)"
    for vu and es :: "scoped_var list"
    by (induction es arbitrary: vu) simp_all
  then show ?thesis by (simp add: arksh_shell_pop_scope_frame_def Cons)
qed (simp add: arksh_shell_pop_scope_frame_def)

lemma length_frames_assign_all [simp]: "length (frames (fst (assign_all mem args vt))) = length (frames vt)"
proof (induction args arbitrary: vt)
  case (Cons arg args)
  have "length (frames vu) = length (frames vt)" if "arksh_shell_set_var mem vt name v False = (rc, vu)" for name v rc vu
    using length_frames_simps(1) [of mem vt name v False] that by simp
  then show ?case
    by (simp add: Cons.IH Let_def split: option.split prod.split)
qed simp

lemma length_frames_prefix [simp]:
  "length (frames (snd (save_prefix mem args vt))) = length (frames vt)"
  "length (frames (restore_prefix mem saved vt)) = length (frames vt)"
proof -
  show "length (frames (snd (save_prefix mem args vt))) = length (frames vt)"
    by (induction args arbitrary: vt) (auto simp: Let_def split: option.split prod.split, metis length_frames_simps(1) snd_conv)
  show "length (frames (restore_prefix mem saved vt)) = length (frames vt)"
    by (induction mem saved vt rule: restore_prefix.induct) simp_all
qed

subsection \<open>Relations kept by the executor\<close>

locale exec_relation =
  fixes sv :: "('f, 'w, 'v, 'n) services"
    and R :: "('f, 'w) exec_shell \<Rightarrow> ('f, 'w) exec_shell \<Rightarrow> bool"
  assumes R_refl: "R s s"
    and R_trans: "R s t \<Longrightarrow> R t u \<Longrightarrow> R s u"
    and R_eval_value: "sv_eval_value sv s text = Some (t, r) \<Longrightarrow> R s t"
    and R_eval_atom: "sv_eval_atom sv s text = Some (t, r) \<Longrightarrow> R s t"
    and R_expand_word: "sv_expand_word sv s raw mode cells = Some (t, words) \<Longrightarrow> R s t"
    and R_set_binding: "sv_set_binding sv s name v = (rc, t) \<Longrightarrow> R s t"
    and R_set_assoc: "sv_set_assoc sv s name key value = (t, e) \<Longrightarrow> R s t"
    and R_run_builtin: "sv_run_builtin sv fn s argv = Some (t, res) \<Longrightarrow> R s t"
    and R_run_external: "sv_run_external sv s argv = Some (t, res) \<Longrightarrow> R s t"
    and R_write_file: "sv_write_file sv s path body app = (t, ok) \<Longrightarrow> R s t"
    and R_run_node: "sv_run_node sv s x = Some (t, res) \<Longrightarrow> R s t"
    and R_background: "sv_background sv s text = Some (t, res) \<Longrightarrow> R s t"
    and R_let_line: "sv_let_line sv s text = Some (t, res) \<Longrightarrow> R s t"
    and R_extend_line: "sv_extend_line sv s text = Some (t, res) \<Longrightarrow> R s t"
    and R_fire_traps: "sv_fire_traps sv s = Some t \<Longrightarrow> R s t"
    and R_end_substitutions: "R s (sv_end_substitutions sv u s)"
    and R_vs: "length (frames vt) = length (frames (vs s)) \<Longrightarrow> R s (s\<lparr>vs := vt\<rparr>)"
    and R_reg: "R s (s\<lparr>reg := g\<rparr>)"
    and R_world: "R s (s\<lparr>world := sv_join_world sv (world s) w\<rparr>)"
    and R_last_status: "R s (s\<lparr>last_status := i\<rparr>)"
    and R_signal: "R s (s\<lparr>control_signal := sig, control_levels := i\<rparr>)"
    and R_levels: "R s (s\<lparr>control_levels := i\<rparr>)"
    and R_condition: "R (s\<lparr>in_condition := in_condition s + 1\<rparr>) t \<Longrightarrow> R s (t\<lparr>in_condition := in_condition t - 1\<rparr>)"
    and R_loop: "R (enter_loop s) t \<Longrightarrow> R s (leave_loop t)"
    and R_loop_leak: "R (enter_loop s) t \<Longrightarrow> R s t"
    and R_suppress: "R (s\<lparr>errexit_suppressed := errexit_suppressed s + 1\<rparr>) t \<Longrightarrow>
      R s (if errexit_suppressed t > 0 then t\<lparr>errexit_suppressed := errexit_suppressed t - 1\<rparr> else t)"
    and R_sudo: "R (s\<lparr>ctx_sudo := ctx_sudo s + 1\<rparr>) t \<Longrightarrow> R s (t\<lparr>ctx_sudo := ctx_sudo t - 1\<rparr>)"
    and R_input: "R (s\<lparr>inherited_input_active := a, inherited_input_redirection := rd\<rparr>) t \<Longrightarrow>
      R s (t\<lparr>inherited_input_active := inherited_input_active s,
             inherited_input_redirection := inherited_input_redirection s\<rparr>)"
    and R_function: "R (s\<lparr>function_depth := function_depth s + 1, function_names := ns\<rparr>) t \<Longrightarrow>
      R s (t\<lparr>function_names := ms, function_depth := function_depth t - 1\<rparr>)"
    and R_scope: "arksh_shell_push_scope_frame (sv_mem sv) (vs s) = (0, vt) \<Longrightarrow> R (s\<lparr>vs := vt\<rparr>) t \<Longrightarrow>
      R s (pop_scope sv t)"
    and R_err_trap: "err_trap_active s \<Longrightarrow> R (s\<lparr>err_trap_active := False\<rparr>) t \<Longrightarrow> R s (t\<lparr>err_trap_active := True\<rparr>)"
    and R_errexit: "in_condition s = 0 \<Longrightarrow> errexit_suppressed s = 0 \<Longrightarrow> R s t \<Longrightarrow> R s (t\<lparr>running := False\<rparr>)"
begin

text \<open>\<open>wR s m\<close>: whenever \<open>m\<close> returns, its state is related to \<open>s\<close>.\<close>

definition wR :: "('f, 'w) exec_shell \<Rightarrow> (('f, 'w) exec_shell \<times> 'a) option \<Rightarrow> bool" where
  "wR s m \<longleftrightarrow> (\<forall>t x. m = Some (t, x) \<longrightarrow> R s t)"

lemma wR_I: "(\<And>t x. m = Some (t, x) \<Longrightarrow> R s t) \<Longrightarrow> wR s m"
  by (simp add: wR_def)

lemma wR_D: "wR s m \<Longrightarrow> m = Some (t, x) \<Longrightarrow> R s t"
  unfolding wR_def by blast

lemma wR_Some: "R s (fst p) \<Longrightarrow> wR s (Some p)"
  by (cases p) (simp add: wR_def)

lemma wR_None: "wR s None"
  by (simp add: wR_def)

lemma wR_lift: "R s s1 \<Longrightarrow> wR s1 m \<Longrightarrow> wR s m"
  unfolding wR_def using R_trans by blast

lemma wR_bind:
  "wR s m \<Longrightarrow> (\<And>t x. R s t \<Longrightarrow> wR s (f (t, x))) \<Longrightarrow> wR s (Option.bind m f)"
  by (cases m) (force simp: wR_def)+

lemma wR_if: "(b \<Longrightarrow> wR s m) \<Longrightarrow> (\<not> b \<Longrightarrow> wR s m') \<Longrightarrow> wR s (if b then m else m')"
  by simp

lemma wR_pair: "(\<And>a b. p = (a, b) \<Longrightarrow> wR s (f a b)) \<Longrightarrow> wR s (case p of (a, b) \<Rightarrow> f a b)"
  by (cases p) simp

lemma wR_option:
  "(o' = None \<Longrightarrow> wR s m) \<Longrightarrow> (\<And>x. o' = Some x \<Longrightarrow> wR s (f x)) \<Longrightarrow> wR s (case o' of None \<Rightarrow> m | Some x \<Rightarrow> f x)"
  by (cases o') simp_all

lemma wR_sum:
  "(\<And>x. r = Inl x \<Longrightarrow> wR s (f x)) \<Longrightarrow> (\<And>x. r = Inr x \<Longrightarrow> wR s (g x)) \<Longrightarrow>
   wR s (case r of Inl x \<Rightarrow> f x | Inr x \<Rightarrow> g x)"
  by (cases r) simp_all

lemma wR_Let: "(\<And>x. x = e \<Longrightarrow> wR s (f x)) \<Longrightarrow> wR s (Let e f)"
  by simp

lemmas wR_rules = wR_Let wR_if wR_pair wR_option wR_sum wR_None

definition related_by :: "(('f, 'w) exec_shell \<Rightarrow> string \<Rightarrow> ('f, 'w) outcome) \<Rightarrow> bool" where
  "related_by exec \<longleftrightarrow> (\<forall>s line. wR s (exec s line))"

lemma wR_exec: "related_by exec \<Longrightarrow> R s s1 \<Longrightarrow> wR s (exec s1 line)"
  unfolding related_by_def using wR_lift by blast

lemma wR_services:
  "R s s1 \<Longrightarrow> wR s (sv_eval_value sv s1 text)"
  "R s s1 \<Longrightarrow> wR s (sv_eval_atom sv s1 text)"
  "R s s1 \<Longrightarrow> wR s (sv_expand_word sv s1 raw mode cells)"
  "R s s1 \<Longrightarrow> wR s (sv_run_builtin sv fn s1 argv)"
  "R s s1 \<Longrightarrow> wR s (sv_run_external sv s1 argv)"
  "R s s1 \<Longrightarrow> wR s (sv_run_node sv s1 x)"
  "R s s1 \<Longrightarrow> wR s (sv_background sv s1 text)"
  "R s s1 \<Longrightarrow> wR s (sv_let_line sv s1 text)"
  "R s s1 \<Longrightarrow> wR s (sv_extend_line sv s1 text)"
  by (rule wR_lift, assumption, rule wR_I,
      erule R_eval_value R_eval_atom R_expand_word R_run_builtin R_run_external R_run_node R_background
        R_let_line R_extend_line)+

lemma R_updates:
  "R s t \<Longrightarrow> R s (t\<lparr>control_signal := sig, control_levels := i\<rparr>)"
  "R s t \<Longrightarrow> R s (t\<lparr>control_levels := i\<rparr>)"
  "R s t \<Longrightarrow> R s (t\<lparr>last_status := i\<rparr>)"
  "R s t \<Longrightarrow> R s (t\<lparr>reg := g\<rparr>)"
  "R s t \<Longrightarrow> R s (t\<lparr>world := sv_join_world sv (world t) w\<rparr>)"
  "R s t \<Longrightarrow> R s (sv_end_substitutions sv u t)"
  using R_trans R_signal R_levels R_last_status R_reg R_world R_end_substitutions by blast+

lemma R_vs_step: "R s t \<Longrightarrow> length (frames vt) = length (frames (vs t)) \<Longrightarrow> R s (t\<lparr>vs := vt\<rparr>)"
  using R_trans R_vs by blast

lemma R_clear: "R s t \<Longrightarrow> R s (arksh_shell_clear_control_signal t)"
  by (simp add: arksh_shell_clear_control_signal_def R_updates)

lemma R_resolve: "resolve_loop_control t = (action, u) \<Longrightarrow> R s t \<Longrightarrow> R s u"
  using R_updates(2) [of s t "control_levels t - 1"] R_clear [of s t] R_clear [OF R_updates(2), of s t "control_levels t - 1"]
  by (simp add: resolve_loop_control_def Let_def split: if_splits)

lemma wR_return_line: "wR s (handle_return_line sv s line)"
  unfolding handle_return_line_def arksh_shell_raise_control_signal_def Let_def
  by (intro wR_rules wR_bind wR_services wR_Some R_refl) (auto intro: R_refl R_updates split: sum.split option.split)

lemma R_loop_control_line: "R s (fst (handle_loop_control_line s line keyword kind))"
  by (auto simp: handle_loop_control_line_def arksh_shell_raise_control_signal_def
      intro: R_refl R_updates split: option.splits)

subsubsection \<open>Simple commands\<close>

lemma wR_arguments: "R s t \<Longrightarrow> wR s (expand_arguments_loop sv first es raws t)"
proof (induction raws arbitrary: first es t)
  case (Cons raw raws)
  then show ?case
    by (simp only: expand_arguments_loop.simps) (intro wR_rules wR_bind wR_services wR_Some, auto)
qed (simp add: wR_Some)

lemma wR_conditional: "R s t \<Longrightarrow> wR s (expand_conditional_loop sv first es raws t)"
proof (induction raws arbitrary: first es t)
  case (Cons raw raws)
  then show ?case
    by (simp only: expand_conditional_loop.simps) (intro wR_rules wR_bind wR_services wR_Some, auto)
qed (simp add: wR_Some)

lemma R_set_var_step:
  "arksh_shell_set_var mem (vs t) name v ex = (rc, vt) \<Longrightarrow> R s t \<Longrightarrow> R s (t\<lparr>vs := vt\<rparr>)"
  by (rule R_vs_step) (use length_frames_simps(1) [of mem "vs t" name v ex] in simp_all)

lemma R_positional_step:
  "arksh_shell_set_positional_argv mem (vs t) vals = (rc, vt) \<Longrightarrow> R s t \<Longrightarrow> R s (t\<lparr>vs := vt\<rparr>)"
  by (rule R_vs_step) (use length_frames_simps(3) [of mem "vs t" vals] in simp_all)

lemma R_binding_step: "sv_set_binding sv t name v = (rc, u) \<Longrightarrow> R s t \<Longrightarrow> R s u"
  using R_set_binding R_trans by blast

lemma R_named_parameters: "R s t \<Longrightarrow> R s (fst (bind_named_parameters sv ps t))"
proof (induction ps arbitrary: t)
  case (Cons p ps)
  then show ?case
    by (cases p) (auto simp: Let_def split: prod.split option.split intro: R_set_var_step R_binding_step)
qed simp

lemma R_parameters: "R s t \<Longrightarrow> R s (fst (bind_function_parameters sv f argv t))"
  by (auto simp: bind_function_parameters_def Let_def split: prod.split intro: R_positional_step R_named_parameters)

lemma push_scope_frames:
  "arksh_shell_push_scope_frame mem vt = (rc, vu) \<Longrightarrow> rc \<noteq> 0 \<Longrightarrow> vu = vt"
  by (simp add: arksh_shell_push_scope_frame_def split: if_splits)

lemma wR_function_body:
  assumes "related_by exec" and "R s s1"
  shows "wR s (do {
      (shell2, out, status) \<leftarrow>
        exec (push_function_name name (s1\<lparr>function_depth := function_depth s1 + 1\<rparr>)) body;
      let shell3 = shell2\<lparr>function_names := tl (function_names shell2),
                          function_depth := function_depth shell2 - 1\<rparr>;
          shell4 = (if status = 0 \<and> control_signal shell3 = Sig_return
                    then arksh_shell_clear_control_signal shell3 else shell3)
      in Some (shell4, out, status)
    })"
proof (rule wR_I)
  fix t x
  let ?s1 = "push_function_name name (s1\<lparr>function_depth := function_depth s1 + 1\<rparr>)"
  assume "do {
      (shell2, out, status) \<leftarrow> exec ?s1 body;
      let shell3 = shell2\<lparr>function_names := tl (function_names shell2),
                          function_depth := function_depth shell2 - 1\<rparr>;
          shell4 = (if status = 0 \<and> control_signal shell3 = Sig_return
                    then arksh_shell_clear_control_signal shell3 else shell3)
      in Some (shell4, out, status) } = Some (t, x)"
  then obtain s2 out status where run: "exec ?s1 body = Some (s2, out, status)"
    and t: "t = s2\<lparr>function_names := tl (function_names s2), function_depth := function_depth s2 - 1\<rparr> \<or>
      t = arksh_shell_clear_control_signal
            (s2\<lparr>function_names := tl (function_names s2), function_depth := function_depth s2 - 1\<rparr>)"
    by (auto simp: bind_eq_Some_conv Let_def split: if_splits)
  have "\<exists>ns. ?s1 = s1\<lparr>function_depth := function_depth s1 + 1, function_names := ns\<rparr>"
    by (rule exI [of _ "function_names ?s1"]) (simp add: push_function_name_def)
  with wR_D [OF wR_exec [OF assms(1) R_refl] run]
  have "R s1 (s2\<lparr>function_names := tl (function_names s2), function_depth := function_depth s2 - 1\<rparr>)"
    using R_function by auto
  with t assms(2) show "R s t" using R_trans R_clear by blast
qed

lemma wR_map_state:
  "wR s m \<Longrightarrow> (\<And>t. R s t \<Longrightarrow> R s' (g t)) \<Longrightarrow> wR s' (Option.bind m (\<lambda>(t, x). Some (g t, x)))"
  by (cases m) (auto simp: wR_def)

lemma wR_map_outcome:
  "wR s m \<Longrightarrow> (\<And>t. R s t \<Longrightarrow> R s' (g t)) \<Longrightarrow> wR s' (Option.bind m (\<lambda>(t, a, b). Some (g t, a, b)))"
  by (cases m) (auto simp: wR_def)

lemma wR_function:
  assumes "related_by exec"
  shows "wR s (execute_shell_function sv exec f argv s)"
proof (cases "arksh_shell_push_scope_frame (sv_mem sv) (vs s)")
  case (Pair rc vt)
  show ?thesis
  proof (cases "rc = 0")
    case False
    then have "vt = vs s" using Pair by (auto simp: arksh_shell_push_scope_frame_def split: if_splits)
    with False Pair R_refl show ?thesis
      by (simp add: execute_shell_function_def wR_Some)
  next
    case True
    obtain s1 e where b: "bind_function_parameters sv f argv (s\<lparr>vs := vt\<rparr>) = (s1, e)" by fastforce
    have s1: "R (s\<lparr>vs := vt\<rparr>) s1" using R_parameters [OF R_refl, of "s\<lparr>vs := vt\<rparr>" f argv] b by simp
    note pop = R_scope [OF Pair [unfolded True]]
    have "wR s (Option.bind (do {
        (shell2, out, status) \<leftarrow>
          exec (push_function_name (f_name f) (s1\<lparr>function_depth := function_depth s1 + 1\<rparr>)) (f_body f);
        let shell3 = shell2\<lparr>function_names := tl (function_names shell2),
                            function_depth := function_depth shell2 - 1\<rparr>;
            shell4 = (if status = 0 \<and> control_signal shell3 = Sig_return
                      then arksh_shell_clear_control_signal shell3 else shell3)
        in Some (shell4, out, status) }) (\<lambda>(t, x). Some (pop_scope sv t, x)))"
      by (rule wR_map_state [OF wR_function_body [OF assms s1]]) (rule pop)
    then show ?thesis
      using True Pair b pop [OF s1]
      by (simp add: execute_shell_function_def wR_Some Let_def split_def split: option.split)
  qed
qed

lemma wR_dispatch:
  assumes "related_by exec" and "R s t"
  shows "wR s (dispatch_command sv exec argv t)"
  unfolding dispatch_command_def
  by (intro wR_rules wR_services wR_lift [OF assms(2) wR_function] assms)

lemma R_assoc_all: "R s t \<Longrightarrow> R s (fst (set_assoc_all sv args t))"
proof (induction args arbitrary: t)
  case (Cons arg args)
  have "R s u" if "sv_set_assoc sv t name key v = (u, e)" for name key v u e
    using that Cons.prems R_set_assoc R_trans by blast
  with Cons show ?case by (auto split: option.split prod.split)
qed simp

lemma wR_simple_command:
  assumes "related_by exec"
  shows "wR s (execute_simple_command sv exec raw_argv s)"
proof -
  have args: "wR s (if raw_argv \<noteq> [] \<and> hd raw_argv = ''[['' then expand_conditional_arguments sv raw_argv s
      else expand_command_arguments sv raw_argv s)"
    by (simp add: expand_conditional_arguments_def expand_command_arguments_def wR_arguments wR_conditional R_refl)
  have assign: "R s (t\<lparr>vs := vt\<rparr>)" if "R s t" "assign_all mem argv (vs t) = (vt, x)" for t vt mem argv x
    using R_vs_step [OF that(1), of vt] length_frames_assign_all [of mem argv "vs t"] that(2) by simp
  have save: "R s (t\<lparr>vs := vt\<rparr>)" if "R s t" "save_prefix mem argv (vs t) = (saved, vt)" for t vt mem argv saved
    using R_vs_step [OF that(1), of vt] length_frames_prefix(1) [of mem argv "vs t"] that(2) by simp
  have restore: "R s (t\<lparr>vs := restore_prefix mem saved (vs t)\<rparr>)" if "R s t" for t mem saved
    using R_vs_step [OF that] length_frames_prefix(2) by blast
  show ?thesis
    unfolding execute_simple_command_def Let_def
    by (rule wR_bind [OF args])
      (auto intro!: wR_rules wR_bind wR_dispatch wR_Some assms intro: R_assoc_all assign save restore)
qed

subsubsection \<open>Lists and conditionals\<close>

lemma wR_list_entry:
  assumes "related_by exec"
  shows "wR s (run_list_entry sv exec suppress e s)"
proof -
  let ?s1 = "if suppress then s\<lparr>errexit_suppressed := errexit_suppressed s + 1\<rparr> else s"
  have "wR ?s1 (if le_background e then sv_background sv ?s1 (le_text e) else exec ?s1 (le_text e))"
    by (intro wR_if wR_services wR_exec assms R_refl)
  then show ?thesis
    unfolding run_list_entry_def Let_def
    by (rule wR_map_outcome) (use R_suppress in \<open>cases suppress; simp\<close>)
qed

lemma wR_list_loop:
  assumes "related_by exec"
  shows "R s t \<Longrightarrow> wR s (list_loop sv exec previous out es t)"
proof (induction es arbitrary: previous out t)
  case (Cons e rest)
  have "wR s (run_list_entry sv exec (suppresses_errexit rest) e t)"
    using Cons.prems wR_list_entry [OF assms] by (rule wR_lift)
  then show ?case
    unfolding list_loop.simps
    by (intro wR_if wR_bind) (auto intro!: wR_rules wR_Some Cons.IH Cons.prems)
qed (simp add: wR_Some)

lemma wR_evaluate_condition: "related_by exec \<Longrightarrow> wR s (evaluate_condition_status sv exec text s)"
  unfolding evaluate_condition_status_def
  by (intro wR_rules wR_bind wR_services wR_Some)
    (auto intro!: wR_rules wR_bind wR_Some intro: R_refl wR_exec)

lemma wR_run_condition:
  assumes "related_by exec" and "R s t"
  shows "wR s (run_condition sv exec text t)"
proof -
  have "wR t (run_condition sv exec text t)"
    unfolding run_condition_def by (rule wR_map_state [OF wR_evaluate_condition [OF assms(1)]]) (rule R_condition)
  with assms(2) show ?thesis by (rule wR_lift)
qed

lemma wR_run_branch: "related_by exec \<Longrightarrow> R s t \<Longrightarrow> wR s (run_branch exec text out t)"
  unfolding run_branch_def by (rule wR_bind, erule (1) wR_exec) (auto intro!: wR_rules wR_Some)

lemma wR_if_command: "related_by exec \<Longrightarrow> wR s (execute_if_command sv exec c s)"
  unfolding execute_if_command_def
  by (rule wR_bind, rule wR_run_condition) (auto intro!: wR_rules wR_Some wR_run_branch intro: R_refl)

subsubsection \<open>Loops\<close>

text \<open>An iteration keeps the loop entered when it goes on and has left it otherwise.\<close>

definition wL :: "('f, 'w) exec_shell \<Rightarrow> (('f, 'w) exec_shell \<times> string \<times> int \<times> bool) option \<Rightarrow> bool" where
  "wL s m \<longleftrightarrow> (\<forall>t out status again. m = Some (t, out, status, again) \<longrightarrow>
     (if again then R (enter_loop s) t else R s t))"

lemma wL_Some_simps:
  "wL s (Some (t, out, status, True)) \<longleftrightarrow> R (enter_loop s) t"
  "wL s (Some (t, out, status, False)) \<longleftrightarrow> R s t"
  by (auto simp: wL_def)

lemma wL_bind:
  "wR (enter_loop s) m \<Longrightarrow> (\<And>t x. R (enter_loop s) t \<Longrightarrow> wL s (f (t, x))) \<Longrightarrow> wL s (Option.bind m f)"
  by (cases m) (force simp: wR_def wL_def)+

lemma wL_end_iteration:
  assumes "R (enter_loop s) t"
  shows "wL s (Some (end_iteration out (t, segment, status)))"
proof -
  obtain action u where r: "resolve_loop_control t = (action, u)" by fastforce
  have "R (enter_loop s) u" using R_resolve [OF r assms] .
  then show ?thesis
    using assms r by (auto simp: end_iteration_def wL_Some_simps R_loop split: prod.split loop_control.split)
qed

lemma wL_condition_step:
  assumes "related_by exec" and "R (enter_loop s) t"
  shows "wL s (condition_step sv exec stop c out last_body t)"
  unfolding condition_step_def
  using assms(2)
  by (auto intro!: wL_bind wR_run_condition wR_exec wL_end_iteration assms
      simp: wL_Some_simps R_loop R_loop_leak split: option.split prod.split)

lemma wR_condition_loop:
  assumes "related_by exec" and "R (enter_loop s) t"
  shows "wR s (condition_loop sv exec stop c out last_body t)"
proof (rule wR_I)
  fix u x
  assume "condition_loop sv exec stop c out last_body t = Some (u, x)"
  then show "R s u"
    using assms(2)
  proof (induction out last_body t "(u, x)" rule: condition_loop_induct)
    case (stop out last_body t out1 status)
    then show ?case using wL_condition_step [OF assms(1) stop(3)] by (auto simp: wL_def)
  next
    case (again out last_body t v out1 status)
    then show ?case using wL_condition_step [OF assms(1) again(4)] by (auto simp: wL_def)
  qed
qed

lemma R_for_variable: "R s t \<Longrightarrow> R s (fst (assign_for_loop_variable sv name v t))"
  by (auto simp: assign_for_loop_variable_def split: prod.split option.split intro: R_set_var_step R_binding_step)

lemma wL_for_step:
  assumes "related_by exec" and "R (enter_loop s) t"
  shows "wL s (for_step sv exec c out last_body v t)"
proof -
  have "R (enter_loop s) u" if "assign_for_loop_variable sv (for_variable c) v t = (u, e)" for u e
    using R_for_variable [OF assms(2), of "for_variable c" v] that by simp
  then show ?thesis
    unfolding for_step_def
    using assms(2)
    by (auto intro!: wL_bind wR_exec wL_end_iteration assms
        simp: wL_Some_simps R_loop R_loop_leak split: option.split prod.split)
qed

lemma wR_for_loop:
  assumes "related_by exec"
  shows "R (enter_loop s) t \<Longrightarrow> wR s (for_loop sv exec c out last_body items t)"
proof (induction items arbitrary: out last_body t)
  case (Cons v items)
  have "wR s (Option.bind (for_step sv exec c out last_body v t) (\<lambda>(t1, out1, status, again).
      if again then for_loop sv exec c out1 status items t1 else Some (t1, out1, status)))"
    using wL_for_step [OF assms Cons.prems, of c out last_body v] Cons.IH
    by (cases "for_step sv exec c out last_body v t")
      (auto simp: wR_None wL_Some_simps intro!: wR_Some split: if_splits)
  then show ?case by simp
qed (simp add: wR_Some R_loop)

lemma wR_for_single:
  assumes "related_by exec" and "R (enter_loop s) t"
  shows "wR s (for_single sv exec c v t)"
proof -
  have a: "R (enter_loop s) u" if "assign_for_loop_variable sv (for_variable c) v t = (u, e)" for u e
    using R_for_variable [OF assms(2), of "for_variable c" v] that by simp
  have res: "R s (leave_loop w)" if "R (enter_loop s) u" "resolve_loop_control u = (action, w)" for u w action
    using R_loop R_resolve that by blast
  have body: "wR s (Option.bind (exec u (for_body c)) f)"
    if "R (enter_loop s) u" "\<And>w x. R (enter_loop s) w \<Longrightarrow> wR s (f (w, x))" for u f
    using wR_exec [OF assms(1) that(1)] that(2)
    by (cases "exec u (for_body c)") (force simp: wR_def)+
  show ?thesis
    unfolding for_single_def
    by (auto intro!: wR_rules wR_Some body intro: a R_loop [OF a] R_loop res split: option.split prod.split)
qed

lemma wR_for_tokens: "R s t \<Longrightarrow> wR s (append_for_tokens sv items toks t)"
proof (induction toks arbitrary: items t)
  case (Cons tok toks)
  show ?case
    unfolding append_for_tokens.simps
    by (intro wR_rules wR_bind wR_services wR_Some Cons.prems) (auto intro!: wR_rules wR_Some Cons.IH simp: Cons.prems)
qed (simp add: wR_Some)

lemma wR_for_source: "wR s (evaluate_for_source sv text s)"
  unfolding evaluate_for_source_def
  by (intro wR_rules wR_bind wR_services wR_Some R_refl) (auto intro!: wR_rules wR_Some wR_for_tokens R_refl)

lemma wR_for_command: "related_by exec \<Longrightarrow> wR s (execute_for_command sv exec c s)"
proof -
  assume exec: "related_by exec"
  have lift: "wR s m" if "R s t" "wR t m" for t and m :: "('f, 'w) outcome" using wR_lift that by blast
  show ?thesis
    unfolding execute_for_command_def
    by (intro wR_rules wR_bind [OF wR_for_source] wR_Some R_refl)
      (auto intro!: wR_rules wR_Some R_refl split: iterable.split
        intro: lift [OF _ wR_for_loop [OF exec R_refl]] lift [OF _ wR_for_single [OF exec R_refl]] R_trans [OF _ R_loop [OF R_refl]])
qed

subsubsection \<open>Switch, case, groups and subshells\<close>

lemma wR_single_word: "R s t \<Longrightarrow> wR s (expand_single_word sv raw mode t)"
  unfolding expand_single_word_def by (rule wR_bind [OF wR_services(3)]) (auto intro: wR_Some)

lemma wR_operand: "R s t \<Longrightarrow> wR s (evaluate_switch_operand sv text t)"
  unfolding evaluate_switch_operand_def
  by (intro wR_rules wR_bind wR_single_word wR_services) (auto intro!: wR_rules wR_Some wR_services)

lemma wR_switch_loop:
  assumes "related_by exec"
  shows "R s t \<Longrightarrow> wR s (switch_loop sv exec v d cases t)"
proof (induction cases arbitrary: t)
  case (Cons c cases)
  then show ?case
    by (cases c) (auto intro!: wR_if wR_bind wR_operand wR_Some, auto intro!: wR_rules wR_Some wR_exec [OF assms])
qed (auto intro!: wR_rules wR_Some wR_exec [OF assms])

lemma wR_switch_command: "related_by exec \<Longrightarrow> wR s (execute_switch_command sv exec c s)"
  unfolding execute_switch_command_def
  by (intro wR_rules wR_bind wR_operand wR_Some R_refl) (auto intro!: wR_rules wR_Some wR_switch_loop R_refl)

lemma wR_case_loop:
  assumes "related_by exec"
  shows "R s t \<Longrightarrow> wR s (case_loop exec rendered bs t)"
  by (induction bs) (auto intro!: wR_rules wR_Some wR_exec assms)

lemma wR_case_command: "related_by exec \<Longrightarrow> wR s (execute_case_command sv exec c s)"
  unfolding execute_case_command_def
  by (intro wR_rules wR_bind wR_operand wR_Some R_refl) (auto intro!: wR_rules wR_Some wR_case_loop R_refl)

lemma wR_redirect_to_file: "R s t \<Longrightarrow> wR s (redirect_to_file sv r body app t)"
  unfolding redirect_to_file_def
  by (intro wR_bind wR_single_word) (auto intro!: wR_rules wR_Some intro: R_trans [OF _ R_write_file])

lemma wR_redirections_loop: "R s t \<Longrightarrow> wR s (compound_redirections_loop sv rs so se t)"
proof (induction rs arbitrary: so se t)
  case (Cons r rs)
  show ?case
    unfolding compound_redirections_loop.simps
    by (intro wR_rules wR_bind wR_redirect_to_file wR_Some Cons.prems Cons.IH)
      (auto intro!: wR_rules wR_Some Cons.IH Cons.prems)
qed (simp add: wR_Some)

lemma R_inherit: "\<exists>a rd. inherit_input rs s = s\<lparr>inherited_input_active := a, inherited_input_redirection := rd\<rparr>"
proof (induction rs rule: rev_induct)
  case Nil
  have "inherit_input [] s = s\<lparr>inherited_input_active := inherited_input_active s,
      inherited_input_redirection := inherited_input_redirection s\<rparr>"
    by (simp add: inherit_input_def)
  then show ?case by blast
next
  case (snoc r rs)
  then obtain a rd where *: "inherit_input rs s = s\<lparr>inherited_input_active := a, inherited_input_redirection := rd\<rparr>"
    by blast
  then have "inherit_input (rs @ [r]) s = (if redirection_affects_stdin r
      then s\<lparr>inherited_input_active := True, inherited_input_redirection := r\<rparr>
      else s\<lparr>inherited_input_active := a, inherited_input_redirection := rd\<rparr>)"
    by (simp add: inherit_input_def)
  then show ?case by (cases "redirection_affects_stdin r") (simp, blast)+
qed

lemma wR_apply_redirections: "R s t \<Longrightarrow> wR s (apply_compound_command_redirections sv rs status out t)"
  unfolding apply_compound_command_redirections_def
  by (rule wR_bind, erule wR_redirections_loop) (auto intro: wR_Some)

lemma wR_compound_body:
  assumes "related_by exec"
  shows "wR s (execute_compound_body sv exec c s)"
proof -
  let ?reset = "\<lambda>t :: ('f, 'w) exec_shell. t\<lparr>inherited_input_active := inherited_input_active s,
      inherited_input_redirection := inherited_input_redirection s\<rparr>"
  have input: "R s (?reset t)" if "R (inherit_input (cn_redirections c) s) t" for t
    using that R_inherit [of "cn_redirections c" s] R_input by auto
  have run: "wR (inherit_input (cn_redirections c) s) (exec (inherit_input (cn_redirections c) s) (cn_body c))"
    by (rule wR_exec [OF assms R_refl])
  have step: "wR s (Option.bind (exec (inherit_input (cn_redirections c) s) (cn_body c)) f)"
    if "\<And>t x. R s (?reset t) \<Longrightarrow> wR s (f (t, x))" for f
    using run that input by (cases "exec (inherit_input (cn_redirections c) s) (cn_body c)") (force simp: wR_def)+
  show ?thesis
    unfolding execute_compound_body_def Let_def
    by (rule step, clarsimp) (rule wR_bind, erule wR_apply_redirections, auto intro!: wR_Some split: sum.split)
qed

lemma wR_subshell: "wR s (execute_subshell_command sv exec c s)"
  unfolding execute_subshell_command_def
  by (rule wR_I) (auto simp: bind_eq_Some_conv intro: R_refl R_world split: sum.splits option.splits)

lemma wR_with_sudo: "related_by exec \<Longrightarrow> wR s (execute_with_sudo_command exec body s)"
  unfolding execute_with_sudo_command_def
  by (rule wR_map_outcome [OF wR_exec [OF _ R_refl]], assumption) (rule R_sudo)

lemma wR_function_definition: "wR s (execute_function_definition sv c s)"
  unfolding execute_function_definition_def by (auto intro!: wR_rules wR_Some R_reg)

subsubsection \<open>Trees and lines\<close>

lemma wR_execute_ast: "related_by exec \<Longrightarrow> wR s (arksh_execute_ast sv exec ast s)"
  by (cases ast)
    (auto simp: execute_command_list_def execute_while_command_def execute_until_command_def R_refl
      intro: wR_Some wR_simple_command wR_services wR_list_loop wR_compound_body wR_subshell wR_if_command
        wR_condition_loop wR_for_command wR_case_command wR_switch_command wR_function_definition wR_with_sudo)

lemma R_run_err_trap:
  assumes "related_by exec" and "run_err_trap exec s = Some t"
  shows "R s t"
  using assms(2) R_refl [of s] R_err_trap wR_D [OF wR_exec [OF assms(1) R_refl]]
  by (auto simp: run_err_trap_def bind_eq_Some_conv split: if_splits)

lemma wR_finish_line:
  assumes "related_by exec" and "R s t"
  shows "wR s (finish_line sv exec out status t)"
proof (rule wR_I)
  fix u x
  assume "finish_line sv exec out status t = Some (u, x)"
  then obtain s1 where f: "sv_fire_traps sv (t\<lparr>last_status := status\<rparr>) = Some s1"
    and u: "u = s1 \<or> (in_condition s1 = 0 \<and> errexit_suppressed s1 = 0 \<and>
      (\<exists>s2. run_err_trap exec s1 = Some s2 \<and> (u = s2 \<or> u = s2\<lparr>running := False\<rparr>)))"
    by (auto simp: finish_line_def bind_eq_Some_conv split: if_splits)
  have "R s s1" using R_trans [OF R_updates(3) [OF assms(2)] R_fire_traps [OF f]] .
  then show "R s u"
    using u R_run_err_trap [OF assms(1)] R_errexit [of s1] R_trans by blast
qed

lemma wR_with_status: "R s (fst p) \<Longrightarrow> wR s (with_status p)"
  by (auto simp: with_status_def split_def intro!: wR_Some R_updates)

lemma wR_keyword_dispatch:
  assumes "keyword_dispatch sv trimmed s = Some r"
  shows "wR s (Option.bind r with_status)"
proof -
  have "wR s r"
    using assms unfolding keyword_dispatch_def
    by (auto intro: wR_services wR_return_line wR_Some R_loop_control_line R_refl split: if_splits)
  then show ?thesis by (rule wR_bind) (auto intro: wR_with_status)
qed

lemma wR_line_step: "related_by exec \<Longrightarrow> wR s (execute_line_step sv exec s line)"
  unfolding execute_line_step_def Let_def
  by (auto intro!: wR_rules wR_with_status R_refl
      intro: wR_keyword_dispatch wR_bind [OF wR_execute_ast] wR_finish_line R_updates)

lemma execute_line_related: "related_by (execute_line sv n)"
proof (induction n)
  case 0
  show ?case by (simp add: related_by_def wR_None)
next
  case (Suc n)
  then show ?case by (simp add: related_by_def wR_line_step)
qed

text \<open>The results without the auxiliary predicates.\<close>

lemma line_R: "execute_line sv n s line = Some (t, x) \<Longrightarrow> R s t"
  by (rule wR_D [OF wR_exec [OF execute_line_related R_refl]])

lemma condition_R: "evaluate_condition_status sv (execute_line sv n) text s = Some (t, r) \<Longrightarrow> R s t"
  by (rule wR_D [OF wR_evaluate_condition [OF execute_line_related]])

lemma entry_R:
  "(if le_background e then sv_background sv s body else execute_line sv n s body) = Some (t, x) \<Longrightarrow> R s t"
  using line_R [of n s body t x] R_background [of s body t x] by (simp split: if_splits)

end

subsection \<open>Balanced counters\<close>

text \<open>
  What a line leaves as it found it: the depth of functions, conditions, suppressed failures and
  elevated blocks, the inherited input and the number of scopes.  The depth of loops never drops.
\<close>

definition balanced :: "('f, 'w) exec_shell \<Rightarrow> ('f, 'w) exec_shell \<Rightarrow> bool" where
  "balanced s t \<longleftrightarrow> (0 \<le> errexit_suppressed s \<longrightarrow>
     function_depth t = function_depth s \<and> in_condition t = in_condition s \<and>
     errexit_suppressed t = errexit_suppressed s \<and> ctx_sudo t = ctx_sudo s \<and>
     inherited_input_active t = inherited_input_active s \<and>
     inherited_input_redirection t = inherited_input_redirection s \<and>
     length (frames (vs t)) = length (frames (vs s)) \<and> loop_depth s \<le> loop_depth t)"

text \<open>The services respect a relation between states.\<close>

definition services_keep ::
  "(('f, 'w) exec_shell \<Rightarrow> ('f, 'w) exec_shell \<Rightarrow> bool) \<Rightarrow> ('f, 'w, 'v, 'n) services \<Rightarrow> bool" where
  "services_keep K sv \<longleftrightarrow>
     (\<forall>s x t r. sv_eval_value sv s x = Some (t, r) \<longrightarrow> K s t) \<and>
     (\<forall>s x t r. sv_eval_atom sv s x = Some (t, r) \<longrightarrow> K s t) \<and>
     (\<forall>s x mode k t r. sv_expand_word sv s x mode k = Some (t, r) \<longrightarrow> K s t) \<and>
     (\<forall>s name v rc t. sv_set_binding sv s name v = (rc, t) \<longrightarrow> K s t) \<and>
     (\<forall>s name key v t e. sv_set_assoc sv s name key v = (t, e) \<longrightarrow> K s t) \<and>
     (\<forall>fn s argv t r. sv_run_builtin sv fn s argv = Some (t, r) \<longrightarrow> K s t) \<and>
     (\<forall>s argv t r. sv_run_external sv s argv = Some (t, r) \<longrightarrow> K s t) \<and>
     (\<forall>s path body app t ok. sv_write_file sv s path body app = (t, ok) \<longrightarrow> K s t) \<and>
     (\<forall>s x t r. sv_run_node sv s x = Some (t, r) \<longrightarrow> K s t) \<and>
     (\<forall>s x t r. sv_background sv s x = Some (t, r) \<longrightarrow> K s t) \<and>
     (\<forall>s x t r. sv_let_line sv s x = Some (t, r) \<longrightarrow> K s t) \<and>
     (\<forall>s x t r. sv_extend_line sv s x = Some (t, r) \<longrightarrow> K s t) \<and>
     (\<forall>s t. sv_fire_traps sv s = Some t \<longrightarrow> K s t) \<and>
     (\<forall>s u. K s (sv_end_substitutions sv u s))"

lemma services_keepD:
  assumes "services_keep K sv"
  shows "sv_eval_value sv s x = Some (t, r) \<Longrightarrow> K s t"
    "sv_eval_atom sv s x = Some (t, r) \<Longrightarrow> K s t"
    "sv_expand_word sv s x mode k = Some (t, words) \<Longrightarrow> K s t"
    "sv_set_binding sv s name v = (rc, t) \<Longrightarrow> K s t"
    "sv_set_assoc sv s name key body = (t, e) \<Longrightarrow> K s t"
    "sv_run_builtin sv fn s argv = Some (t, res) \<Longrightarrow> K s t"
    "sv_run_external sv s argv = Some (t, res) \<Longrightarrow> K s t"
    "sv_write_file sv s path body app = (t, ok) \<Longrightarrow> K s t"
    "sv_run_node sv s node = Some (t, res) \<Longrightarrow> K s t"
    "sv_background sv s x = Some (t, res) \<Longrightarrow> K s t"
    "sv_let_line sv s x = Some (t, res) \<Longrightarrow> K s t"
    "sv_extend_line sv s x = Some (t, res) \<Longrightarrow> K s t"
    "sv_fire_traps sv s = Some t \<Longrightarrow> K s t"
    "K s (sv_end_substitutions sv u s)"
  using assms unfolding services_keep_def by (elim conjE, (blast | metis))+

lemma push_scope_length:
  "arksh_shell_push_scope_frame mem vt = (0, vu) \<Longrightarrow> length (frames vu) = Suc (length (frames vt))"
  by (auto simp: arksh_shell_push_scope_frame_def split: if_splits)

interpretation balanced_exec: exec_relation sv "\<lambda>s t. services_keep balanced sv \<longrightarrow> balanced s t" for sv
proof
  show "services_keep balanced sv \<longrightarrow> balanced s t \<Longrightarrow> services_keep balanced sv \<longrightarrow> balanced t u \<Longrightarrow>
      services_keep balanced sv \<longrightarrow> balanced s u" for s t u
    by (auto simp: balanced_def)
  show "arksh_shell_push_scope_frame (sv_mem sv) (vs s) = (0, vt) \<Longrightarrow>
      services_keep balanced sv \<longrightarrow> balanced (s\<lparr>vs := vt\<rparr>) t \<Longrightarrow>
      services_keep balanced sv \<longrightarrow> balanced s (pop_scope sv t)" for s vt t
    by (auto simp: balanced_def pop_scope_def dest: push_scope_length)
qed ((rule impI, erule services_keepD, assumption?; fail) |
  (auto simp: balanced_def enter_loop_def leave_loop_def; fail))+

text \<open>
  (C1) Executing a line is balanced.  Whatever the line contains (loops left by \<open>break\<close>, functions
  left by \<open>return\<close>, errors in the middle of a block, traps), the depth of function calls, conditions,
  suppressed failures and elevated blocks, the inherited input and the number of variable scopes are
  afterwards what they were before, and the depth of loops has not dropped, provided the parts of the
  program outside the executor leave them alone.
\<close>

theorem execute_line_balanced:
  assumes "services_keep balanced sv" and "0 \<le> errexit_suppressed shell"
    and "execute_line sv n shell line = Some (shell', out, status)"
  shows "function_depth shell' = function_depth shell \<and> in_condition shell' = in_condition shell \<and>
    errexit_suppressed shell' = errexit_suppressed shell \<and> ctx_sudo shell' = ctx_sudo shell \<and>
    inherited_input_active shell' = inherited_input_active shell \<and>
    inherited_input_redirection shell' = inherited_input_redirection shell \<and>
    length (frames (vs shell')) = length (frames (vs shell)) \<and> loop_depth shell \<le> loop_depth shell'"
  using balanced_exec.line_R [OF assms(3)] assms(1,2) by (simp add: balanced_def)

subsection \<open>Failures inside conditions\<close>

text \<open>
  \<open>exit\<close> and \<open>exec\<close> stop the shell on purpose.  \<open>asked\<close> tells from the world whether one of them has
  been called.  Inside a condition, or before \<open>&&\<close> or \<open>||\<close>, nothing else stops a running shell.
\<close>

definition stopped_by_exit :: "('w \<Rightarrow> bool) \<Rightarrow> ('f, 'w) exec_shell \<Rightarrow> ('f, 'w) exec_shell \<Rightarrow> bool" where
  "stopped_by_exit asked s t \<longleftrightarrow> balanced s t \<and> (asked (world s) \<longrightarrow> asked (world t)) \<and>
     (0 \<le> in_condition s \<and> 0 \<le> errexit_suppressed s \<and> (0 < in_condition s \<or> 0 < errexit_suppressed s) \<and>
      running s \<longrightarrow> running t \<or> asked (world t))"

text \<open>The parts outside the executor stop the shell only by such a call, which is not forgotten.\<close>

definition services_stop_by_exit :: "('w \<Rightarrow> bool) \<Rightarrow> ('f, 'w, 'v, 'n) services \<Rightarrow> bool" where
  "services_stop_by_exit asked sv \<longleftrightarrow>
     services_keep (stopped_by_exit asked) sv \<and> (\<forall>w w'. asked w \<longrightarrow> asked (sv_join_world sv w w'))"

interpretation exit_exec: exec_relation sv "\<lambda>s t. services_stop_by_exit asked sv \<longrightarrow> stopped_by_exit asked s t" for sv asked
proof
  show "services_stop_by_exit asked sv \<longrightarrow> stopped_by_exit asked s t \<Longrightarrow>
      services_stop_by_exit asked sv \<longrightarrow> stopped_by_exit asked t u \<Longrightarrow>
      services_stop_by_exit asked sv \<longrightarrow> stopped_by_exit asked s u" for s t u
    by (auto simp: stopped_by_exit_def balanced_def)
  show "arksh_shell_push_scope_frame (sv_mem sv) (vs s) = (0, vt) \<Longrightarrow>
      services_stop_by_exit asked sv \<longrightarrow> stopped_by_exit asked (s\<lparr>vs := vt\<rparr>) t \<Longrightarrow>
      services_stop_by_exit asked sv \<longrightarrow> stopped_by_exit asked s (pop_scope sv t)" for s vt t
    by (auto simp: stopped_by_exit_def balanced_def pop_scope_def dest: push_scope_length)
  show "services_stop_by_exit asked sv \<longrightarrow> stopped_by_exit asked s (s\<lparr>world := sv_join_world sv (world s) w\<rparr>)" for s w
    by (auto simp: services_stop_by_exit_def stopped_by_exit_def balanced_def)
qed ((rule impI, simp only: services_stop_by_exit_def, elim conjE, erule services_keepD, assumption?; fail) |
  (auto simp: stopped_by_exit_def balanced_def enter_loop_def leave_loop_def; fail))+

text \<open>
  (C10) Under \<open>set -e\<close> a failure does not stop the shell where it must not: while the condition of an
  \<open>if\<close>, \<open>while\<close> or \<open>until\<close> is evaluated, however deep the failing command is nested in it, and while
  an entry of a list in front of \<open>&&\<close> or \<open>||\<close> runs, a running shell stays running, unless one of the
  commands \<open>exit\<close> and \<open>exec\<close>, which stop it on purpose, has been called.
\<close>

theorem errexit_spares_conditions:
  assumes "services_stop_by_exit asked sv" and "running shell" and "0 \<le> in_condition shell"
    and "0 \<le> errexit_suppressed shell"
  shows "(\<forall>shell' r. run_condition sv (execute_line sv n) text shell = Some (shell', r) \<longrightarrow>
      running shell' \<or> asked (world shell')) \<and>
    (\<forall>shell' out status. run_list_entry sv (execute_line sv n) True e shell = Some (shell', out, status) \<longrightarrow>
      running shell' \<or> asked (world shell'))"
proof -
  let ?up = "shell\<lparr>in_condition := in_condition shell + 1\<rparr>"
  let ?sup = "shell\<lparr>errexit_suppressed := errexit_suppressed shell + 1\<rparr>"
  have "running shell' \<or> asked (world shell')"
    if run: "run_condition sv (execute_line sv n) text shell = Some (shell', r)" for shell' r
  proof -
    obtain t where t: "evaluate_condition_status sv (execute_line sv n) text ?up = Some (t, r)"
      and s': "shell' = t\<lparr>in_condition := in_condition t - 1\<rparr>"
      using run by (auto simp: run_condition_def bind_eq_Some_conv)
    have "stopped_by_exit asked ?up t"
      using exit_exec.condition_R [OF t] assms(1) by simp
    then show ?thesis using s' assms(2-4) by (auto simp: stopped_by_exit_def)
  qed
  moreover have "running shell' \<or> asked (world shell')"
    if run: "run_list_entry sv (execute_line sv n) True e shell = Some (shell', out, status)" for shell' out status
  proof -
    obtain t where t: "(if le_background e then sv_background sv ?sup (le_text e)
        else execute_line sv n ?sup (le_text e)) = Some (t, out, status)"
      and s': "running shell' = running t" "world shell' = world t"
      using run by (auto simp: run_list_entry_def Let_def bind_eq_Some_conv)
    have "stopped_by_exit asked ?sup t"
      using exit_exec.entry_R [OF t] assms(1) by simp
    then show ?thesis using s' assms(2-4) by (auto simp: stopped_by_exit_def)
  qed
  ultimately show ?thesis by blast
qed

subsection \<open>A small program\<close>

text \<open>
  Services with a table of parsed lines and the external commands \<open>ext\<close>: every other line is a
  command of its words, values are texts and nothing else changes the state.
\<close>

fun words_of :: "string \<Rightarrow> string \<Rightarrow> string list" where
  "words_of acc [] = (if acc = [] then [] else [acc])"
| "words_of acc (c # cs) =
     (if c = CHR '' '' then (if acc = [] then words_of [] cs else acc # words_of [] cs)
      else words_of (acc @ [c]) cs)"

definition basic_services ::
  "((unit, 'w) exec_shell \<Rightarrow> string list \<Rightarrow> (unit, 'w) outcome) \<Rightarrow> (string \<Rightarrow> string + 'n ast) \<Rightarrow>
   (unit, 'w, string, 'n) services" where
  "basic_services ext parse =
     \<lparr>sv_mem = plenty,
      sv_alloc_ok = \<lambda>s label. True,
      sv_eval_value = \<lambda>s x. Some (s, Inl ''not a value''),
      sv_eval_atom = \<lambda>s x. Some (s, Inl ''not a value''),
      sv_expand_word = \<lambda>s raw mode k. Some (s, Inr [raw]),
      sv_truthy = \<lambda>v. v \<noteq> [],
      sv_iterable = It_single,
      sv_copy_ok = \<lambda>s v. True,
      sv_render = Some,
      sv_render_var = Some,
      sv_text_value = \<lambda>v. v,
      sv_item_value = \<lambda>v. v,
      sv_set_binding = \<lambda>s name v. (0, s),
      sv_set_assoc = \<lambda>s name key v. (s, None),
      sv_run_builtin = \<lambda>fn s argv. Some (s, [], 0),
      sv_run_external = ext,
      sv_write_file = \<lambda>s path body app. (s, True),
      sv_lex_message = \<lambda>e. ''lexer error'',
      sv_parse_line = parse,
      sv_run_node = \<lambda>s x. Some (s, [], 0),
      sv_background = \<lambda>s x. Some (s, [], 0),
      sv_clone_subshell = Inr,
      sv_start_child = \<lambda>s. None,
      sv_child_end = \<lambda>s. Child_exited,
      sv_join_world = \<lambda>w w'. w,
      sv_let_line = \<lambda>s x. Some (s, [], 0),
      sv_extend_line = \<lambda>s x. Some (s, [], 0),
      sv_fire_traps = Some,
      sv_end_substitutions = \<lambda>u s. s\<rparr>"

definition table_services ::
  "((unit, 'w) exec_shell \<Rightarrow> string list \<Rightarrow> (unit, 'w) outcome) \<Rightarrow> (string \<times> unit ast) list \<Rightarrow>
   (unit, 'w, string, unit) services" where
  "table_services ext program =
     basic_services ext (\<lambda>line. Inr (case map_of program line of
                                    Some ast \<Rightarrow> ast | None \<Rightarrow> Ast_simple_command (words_of [] line)))"

lemma table_services_keep:
  "(\<And>s. K s s) \<Longrightarrow> (\<And>s argv t r. ext s argv = Some (t, r) \<Longrightarrow> K s t) \<Longrightarrow>
   services_keep K (table_services ext program)"
  by (auto simp: services_keep_def table_services_def basic_services_def)

text \<open>\<open>echo\<close> prints its words, \<open>false\<close> fails.\<close>

definition echo_commands :: "(unit, 'w) exec_shell \<Rightarrow> string list \<Rightarrow> (unit, 'w) outcome" where
  "echo_commands s argv =
     Some (s, if hd argv = ''echo'' then concat (tl argv) else [], if hd argv = ''false'' then 1 else 0)"

definition start_shell :: "(unit, unit) exec_shell" where
  "start_shell =
     \<lparr>running = True, last_status = 0, inherited_input_active = False,
      inherited_input_redirection = \<lparr>rd_kind = Redirect_input, rd_fd = 0, rd_target_fd = 0, rd_strip_tabs = False,
        rd_target = [], rd_raw_target = [], rd_delimiter = [], rd_heredoc_body = []\<rparr>,
      control_signal = Sig_none, control_levels = 0, loop_depth = 0, function_depth = 0, function_names = [],
      err_trap_active = False, err_trap_command = [], running_exit_trap = False, opt_errexit = False,
      in_condition = 0, errexit_suppressed = 0, sh_mode = False, ctx_sudo = 0, reg = empty_shell,
      vs = login_shell, world = ()\<rparr>"

definition small_program :: "(string \<times> unit ast) list" where
  "small_program =
     [(''i'', Ast_if_command \<lparr>if_condition = ''false'', if_then = ''echo a'', if_else = Some ''echo b''\<rparr>)]"

lemma small_program_runs:
  "map_option snd (execute_line (table_services echo_commands small_program) 2 start_shell ''i'') = Some (''b'', 0)"
  by code_simp

theorem execute_line_balanced_witness:
  "\<exists>shell'. execute_line (table_services echo_commands small_program) 2 start_shell ''i'' = Some (shell', ''b'', 0) \<and>
     in_condition shell' = 0 \<and> function_depth shell' = 0 \<and> length (frames (vs shell')) = 0"
proof -
  obtain shell' where run: "execute_line (table_services echo_commands small_program) 2 start_shell ''i'' = Some (shell', ''b'', 0)"
    using small_program_runs by auto
  have "services_keep balanced (table_services echo_commands small_program)"
    by (rule table_services_keep) (auto simp: balanced_def echo_commands_def)
  from execute_line_balanced [OF this _ run] run show ?thesis
    by (simp add: start_shell_def login_shell_def)
qed

text \<open>\<open>exit\<close> stops the shell and notes it in the world; the other commands are those above.\<close>

definition exit_commands :: "(unit, bool) exec_shell \<Rightarrow> string list \<Rightarrow> (unit, bool) outcome" where
  "exit_commands s argv =
     (if hd argv = ''exit'' then Some (s\<lparr>running := False, world := True\<rparr>, ''bye'', 0) else echo_commands s argv)"

definition errexit_shell :: "(unit, bool) exec_shell" where
  "errexit_shell =
     \<lparr>running = True, last_status = 0, inherited_input_active = False,
      inherited_input_redirection = \<lparr>rd_kind = Redirect_input, rd_fd = 0, rd_target_fd = 0, rd_strip_tabs = False,
        rd_target = [], rd_raw_target = [], rd_delimiter = [], rd_heredoc_body = []\<rparr>,
      control_signal = Sig_none, control_levels = 0, loop_depth = 0, function_depth = 0, function_names = [],
      err_trap_active = False, err_trap_command = [], running_exit_trap = False, opt_errexit = True,
      in_condition = 0, errexit_suppressed = 0, sh_mode = False, ctx_sudo = 0, reg = empty_shell,
      vs = login_shell, world = False\<rparr>"

definition entry_of :: "string \<Rightarrow> list_entry" where
  "entry_of t = \<lparr>le_text = t, le_condition = Cond_always, le_background = False\<rparr>"

lemma false_entry_runs:
  "map_option (\<lambda>(s, r). (world s, r)) (run_list_entry (table_services exit_commands [])
     (execute_line (table_services exit_commands []) 1) True (entry_of ''false'') errexit_shell) = Some (False, [], 1)"
  by code_simp

lemma exit_entry_runs:
  "map_option (\<lambda>(s, r). (running s, r)) (run_list_entry (table_services exit_commands [])
     (execute_line (table_services exit_commands []) 1) True (entry_of ''exit'') errexit_shell) = Some (False, ''bye'', 0)"
  by code_simp

theorem errexit_spares_conditions_witness:
  "(\<exists>shell'. run_list_entry (table_services exit_commands []) (execute_line (table_services exit_commands []) 1) True
     (entry_of ''false'') errexit_shell = Some (shell', [], 1) \<and> running shell' \<and> \<not> world shell') \<and>
   (\<exists>shell'. run_list_entry (table_services exit_commands []) (execute_line (table_services exit_commands []) 1) True
     (entry_of ''exit'') errexit_shell = Some (shell', ''bye'', 0) \<and> \<not> running shell' \<and> world shell')"
proof -
  have "services_keep (stopped_by_exit id) (table_services exit_commands [])"
    by (rule table_services_keep) (auto simp: stopped_by_exit_def balanced_def exit_commands_def echo_commands_def split: if_splits)
  then have keep: "services_stop_by_exit id (table_services exit_commands [])"
    by (simp add: services_stop_by_exit_def table_services_def basic_services_def)
  show ?thesis
    using errexit_spares_conditions [OF keep, of errexit_shell 1 _ "entry_of ''false''"]
      errexit_spares_conditions [OF keep, of errexit_shell 1 _ "entry_of ''exit''"] false_entry_runs exit_entry_runs
    by (fastforce simp: errexit_shell_def)
qed

end
