(* ===== verification/Exec_Loops.thy ===== *)
theory Exec_Loops
  imports Exec_Frame
begin

text \<open>
  Termination and signals of the executor: a larger bound on the nesting of lines never changes a
  result; a loop whose iterations decrease a measure ends; \<open>break\<close> and \<open>continue\<close> leave as many loops
  as they are told to, and where they leave a signal behind.
\<close>

subsection \<open>The bound on the nesting of lines\<close>

definition below :: "'a option \<Rightarrow> 'a option \<Rightarrow> bool" where
  "below m m' \<longleftrightarrow> (\<forall>r. m = Some r \<longrightarrow> m' = Some r)"

lemma below_refl: "below m m"
  by (simp add: below_def)

lemma below_None: "below None m"
  by (simp add: below_def)

lemma below_bind: "below m m' \<Longrightarrow> (\<And>x. below (f x) (g x)) \<Longrightarrow> below (Option.bind m f) (Option.bind m' g)"
  by (cases m) (auto simp: below_def)

lemma below_if: "(b \<Longrightarrow> below m m') \<Longrightarrow> (\<not> b \<Longrightarrow> below n n') \<Longrightarrow> below (if b then m else n) (if b then m' else n')"
  by simp

lemma below_pair: "(\<And>a b. below (f a b) (g a b)) \<Longrightarrow> below (case p of (a, b) \<Rightarrow> f a b) (case p of (a, b) \<Rightarrow> g a b)"
  by (cases p) simp

lemma below_option:
  "below m m' \<Longrightarrow> (\<And>x. below (f x) (g x)) \<Longrightarrow>
   below (case o' of None \<Rightarrow> m | Some x \<Rightarrow> f x) (case o' of None \<Rightarrow> m' | Some x \<Rightarrow> g x)"
  by (cases o') simp_all

lemma below_sum:
  "(\<And>x. below (f x) (f' x)) \<Longrightarrow> (\<And>x. below (g x) (g' x)) \<Longrightarrow>
   below (case r of Inl x \<Rightarrow> f x | Inr x \<Rightarrow> g x) (case r of Inl x \<Rightarrow> f' x | Inr x \<Rightarrow> g' x)"
  by (cases r) simp_all

lemma below_iterable:
  "(\<And>x. below (f x) (f' x)) \<Longrightarrow> below m m' \<Longrightarrow> (\<And>x. below (g x) (g' x)) \<Longrightarrow>
   below (case r of It_list x \<Rightarrow> f x | It_empty \<Rightarrow> m | It_single x \<Rightarrow> g x)
     (case r of It_list x \<Rightarrow> f' x | It_empty \<Rightarrow> m' | It_single x \<Rightarrow> g' x)"
  by (cases r) simp_all

lemmas below_rules = below_refl below_bind below_if below_pair below_option below_sum below_iterable

definition exec_below ::
  "(('f, 'w) exec_shell \<Rightarrow> string \<Rightarrow> ('f, 'w) outcome) \<Rightarrow> (('f, 'w) exec_shell \<Rightarrow> string \<Rightarrow> ('f, 'w) outcome) \<Rightarrow> bool" where
  "exec_below e e' \<longleftrightarrow> (\<forall>s line. below (e s line) (e' s line))"

lemma exec_belowD: "exec_below e e' \<Longrightarrow> below (e s line) (e' s line)"
  by (simp add: exec_below_def)

lemma below_simple_command:
  assumes "exec_below e e'"
  shows "below (execute_simple_command sv e raw s) (execute_simple_command sv e' raw s)"
proof -
  have "below (execute_shell_function sv e f argv t) (execute_shell_function sv e' f argv t)" for f argv t
    unfolding execute_shell_function_def
    by (intro below_rules exec_belowD [OF assms])
  then have "below (dispatch_command sv e argv t) (dispatch_command sv e' argv t)" for argv t
    unfolding dispatch_command_def by (intro below_rules)
  then show ?thesis
    unfolding execute_simple_command_def Let_def by (intro below_rules)
qed

lemma below_list_loop:
  assumes "exec_below e e'"
  shows "below (list_loop sv e previous out es s) (list_loop sv e' previous out es s)"
proof (induction es arbitrary: previous out s)
  case (Cons x es)
  have "below (run_list_entry sv e suppress x s) (run_list_entry sv e' suppress x s)" for suppress
    unfolding run_list_entry_def Let_def by (intro below_rules exec_belowD [OF assms])
  then show ?case unfolding list_loop.simps by (intro below_rules Cons.IH)
qed (simp add: below_refl)

lemma below_run_condition:
  assumes "exec_below e e'"
  shows "below (run_condition sv e cond s) (run_condition sv e' cond s)"
  unfolding run_condition_def evaluate_condition_status_def
  by (intro below_rules exec_belowD [OF assms])

lemma below_condition_loop:
  assumes "exec_below e e'"
  shows "below (condition_loop sv e stop c out last_body s) (condition_loop sv e' stop c out last_body s)"
proof -
  have step: "below (condition_step sv e stop c out last_body s) (condition_step sv e' stop c out last_body s)"
    for out last_body s
    unfolding condition_step_def by (intro below_rules exec_belowD [OF assms] below_run_condition [OF assms])
  have "condition_loop sv e' stop c out last_body s = Some res"
    if "condition_loop sv e stop c out last_body s = Some res" for res
    using that
  proof (induction rule: condition_loop_induct)
    case (stop out last_body s t out1 status)
    then show ?case using step [of out last_body s] by (subst condition_loop.simps) (simp add: below_def)
  next
    case (again out last_body s t out1 status res)
    then show ?case using step [of out last_body s] by (subst condition_loop.simps) (simp add: below_def)
  qed
  then show ?thesis by (simp add: below_def)
qed

lemma below_for_loop:
  assumes "exec_below e e'"
  shows "below (for_loop sv e c out last_body items s) (for_loop sv e' c out last_body items s)"
proof (induction items arbitrary: out last_body s)
  case (Cons v items)
  show ?case
    unfolding for_loop.simps for_step_def by (intro below_rules exec_belowD [OF assms] Cons.IH)
qed (simp add: below_refl)

lemma below_switch_loop:
  assumes "exec_below e e'"
  shows "below (switch_loop sv e v d cases s) (switch_loop sv e' v d cases s)"
proof (induction cases arbitrary: s)
  case (Cons c cases)
  then show ?case
    by (cases c) (simp only: switch_loop.simps, intro below_rules exec_belowD [OF assms])
qed (simp only: switch_loop.simps, intro below_rules exec_belowD [OF assms])

lemma below_case_loop:
  assumes "exec_below e e'"
  shows "below (case_loop e rendered bs s) (case_loop e' rendered bs s)"
  by (induction bs) (simp_all only: case_loop.simps, (intro below_rules exec_belowD [OF assms])+)

lemma below_compound_body:
  assumes "exec_below e e'"
  shows "below (execute_compound_body sv e c s) (execute_compound_body sv e' c s)"
  unfolding execute_compound_body_def Let_def by (intro below_rules exec_belowD [OF assms])

lemma below_execute_ast:
  assumes "exec_below e e'"
  shows "below (arksh_execute_ast sv e ast s) (arksh_execute_ast sv e' ast s)"
proof -
  note be = exec_belowD [OF assms]
  have "below (execute_if_command sv e c s) (execute_if_command sv e' c s)" for c
    unfolding execute_if_command_def run_branch_def by (intro below_rules be below_run_condition [OF assms])
  moreover have "below (execute_for_command sv e c s) (execute_for_command sv e' c s)" for c
    unfolding execute_for_command_def for_single_def
    by (intro below_rules be below_for_loop [OF assms])
  moreover have "below (execute_switch_command sv e c s) (execute_switch_command sv e' c s)" for c
    unfolding execute_switch_command_def by (intro below_rules below_switch_loop [OF assms])
  moreover have "below (execute_case_command sv e c s) (execute_case_command sv e' c s)" for c
    unfolding execute_case_command_def by (intro below_rules below_case_loop [OF assms])
  moreover have "below (execute_subshell_command sv e c s) (execute_subshell_command sv e' c s)" for c
    unfolding execute_subshell_command_def by (intro below_rules below_compound_body [OF assms])
  moreover have "below (execute_with_sudo_command e c s) (execute_with_sudo_command e' c s)" for c
    unfolding execute_with_sudo_command_def by (intro below_rules be)
  ultimately show ?thesis
    by (cases ast) (simp_all add: below_refl below_simple_command [OF assms] execute_command_list_def
        below_list_loop [OF assms] below_compound_body [OF assms] execute_while_command_def
        execute_until_command_def below_condition_loop [OF assms])
qed

lemma below_line_step:
  assumes "exec_below e e'"
  shows "below (execute_line_step sv e s line) (execute_line_step sv e' s line)"
proof -
  have "below (finish_line sv e out status t) (finish_line sv e' out status t)" for out status t
    unfolding finish_line_def run_err_trap_def by (intro below_rules exec_belowD [OF assms])
  then show ?thesis
    unfolding execute_line_step_def Let_def by (intro below_rules below_execute_ast [OF assms])
qed

lemma execute_line_Suc: "exec_below (execute_line sv n) (execute_line sv (Suc n))"
proof (induction n)
  case 0
  show ?case by (simp add: exec_below_def below_None)
next
  case (Suc n)
  show ?case unfolding exec_below_def execute_line.simps(2) [of sv "Suc n"] execute_line.simps(2) [of sv n]
    by (intro allI below_line_step [OF Suc.IH [unfolded execute_line.simps]])
qed

lemma execute_line_mono:
  assumes "n \<le> m" and "execute_line sv n s line = Some r"
  shows "execute_line sv m s line = Some r"
  using assms
proof (induction rule: dec_induct)
  case (step k)
  then show ?case using execute_line_Suc [of sv k] by (simp only: exec_below_def below_def)
qed

text \<open>
  The bound on the nesting of lines only decides whether there is a result: two bounds that are
  both large enough give the same state, output and status, and every larger bound gives it too.
\<close>

theorem execute_line_bound:
  assumes "execute_line sv n shell line = Some r"
  shows "(\<forall>m r'. execute_line sv m shell line = Some r' \<longrightarrow> r' = r) \<and>
    (\<forall>m \<ge> n. execute_line sv m shell line = Some r)"
proof -
  have "r' = r" if "execute_line sv m shell line = Some r'" for m r'
    using execute_line_mono [OF max.cobounded1 assms, of m] execute_line_mono [OF max.cobounded2 that, of n] by simp
  then show ?thesis using execute_line_mono assms by blast
qed

theorem execute_line_bound_witness:
  "map_option snd (execute_line (table_services echo_commands small_program) 9 start_shell ''i'') = Some (''b'', 0)"
proof -
  obtain r where r: "execute_line (table_services echo_commands small_program) 2 start_shell ''i'' = Some r"
    and "snd r = (''b'', 0)"
    using small_program_runs by auto
  then show ?thesis using execute_line_bound [OF r] by auto
qed

subsection \<open>Loops that end\<close>

lemma condition_loop_returns:
  fixes m :: "('f, 'w) exec_shell \<Rightarrow> nat"
  assumes "I s"
    and "\<And>s. I s \<Longrightarrow> running s \<Longrightarrow>
      \<exists>t r. run_condition sv exec (lp_condition c) s = Some (t, r) \<and>
        (\<forall>cs seg. r = Some (cs, seg) \<longrightarrow> running t \<and> control_signal t = Sig_none \<and> \<not> stop cs \<longrightarrow>
          (\<exists>u seg' status action v. exec t (lp_body c) = Some (u, seg', status) \<and>
            resolve_loop_control u = (action, v) \<and>
            (action \<in> {Loop_none, Loop_continue} \<longrightarrow> I v \<and> m v < m s)))"
  shows "\<exists>r. condition_loop sv exec stop c out last_body s = Some r"
  using assms(1)
proof (induction "m s" arbitrary: s out last_body rule: less_induct)
  case less
  obtain t out1 status again where step: "condition_step sv exec stop c out last_body s = Some (t, out1, status, again)"
    and next_iteration: "again \<longrightarrow> I t \<and> m t < m s"
  proof (cases "running s")
    case False
    then show thesis using that by (simp add: condition_step_def)
  next
    case True
    from assms(2) [OF less.prems True] obtain t r where
      cond: "run_condition sv exec (lp_condition c) s = Some (t, r)"
      and body: "\<And>cs seg. r = Some (cs, seg) \<Longrightarrow> running t \<Longrightarrow> control_signal t = Sig_none \<Longrightarrow> \<not> stop cs \<Longrightarrow>
        \<exists>u seg' status action v. exec t (lp_body c) = Some (u, seg', status) \<and>
            resolve_loop_control u = (action, v) \<and>
            (action \<in> {Loop_none, Loop_continue} \<longrightarrow> I v \<and> m v < m s)"
      by blast
    have "\<exists>t out1 status again. condition_step sv exec stop c out last_body s = Some (t, out1, status, again) \<and>
        (again \<longrightarrow> I t \<and> m t < m s)"
      using True cond body
      by (fastforce simp: condition_step_def end_iteration_def split: option.split prod.split loop_control.split)
    then show thesis using that by blast
  qed
  show ?case
  proof (cases again)
    case True
    with next_iteration less.hyps [of t] obtain r where "condition_loop sv exec stop c out1 status t = Some r"
      by blast
    with step True show ?thesis by (subst condition_loop.simps) (cases r, simp)
  next
    case False
    with step show ?thesis by (subst condition_loop.simps) simp
  qed
qed

text \<open>
  (C11) A loop whose iterations decrease a measure ends.  Let an invariant hold on entry, let every
  condition evaluated under it return, and, where the condition does not stop the loop, let the body
  return and the state in which the next iteration starts satisfy the invariant with a smaller measure
  (after a plain end of the body or a \<open>continue\<close>; a \<open>break\<close>, a \<open>return\<close> or output that does not fit
  ends the loop).  Then \<open>while\<close> and \<open>until\<close> return.
\<close>

theorem loops_terminate:
  fixes m :: "('f, 'w) exec_shell \<Rightarrow> nat"
  assumes "I (enter_loop shell)"
    and "\<And>s. I s \<Longrightarrow> running s \<Longrightarrow>
      \<exists>t r. run_condition sv exec (lp_condition c) s = Some (t, r) \<and>
        (\<forall>cs seg. r = Some (cs, seg) \<longrightarrow> running t \<and> control_signal t = Sig_none \<and> (cs = 0 \<longleftrightarrow> is_while) \<longrightarrow>
          (\<exists>u seg' status action v. exec t (lp_body c) = Some (u, seg', status) \<and>
            resolve_loop_control u = (action, v) \<and>
            (action \<in> {Loop_none, Loop_continue} \<longrightarrow> I v \<and> m v < m s)))"
  shows "\<exists>r. (if is_while then execute_while_command sv exec c shell else execute_until_command sv exec c shell) = Some r"
proof (cases is_while)
  case True
  have "\<exists>r. condition_loop sv exec (\<lambda>i. i \<noteq> 0) c [] 0 (enter_loop shell) = Some r"
    by (rule condition_loop_returns [where I = I and m = m, OF assms(1)]) (use assms(2) True in simp)
  with True show ?thesis by (simp add: execute_while_command_def)
next
  case False
  have "\<exists>r. condition_loop sv exec (\<lambda>i. i = 0) c [] 0 (enter_loop shell) = Some r"
    by (rule condition_loop_returns [where I = I and m = m, OF assms(1)]) (use assms(2) False in simp)
  with False show ?thesis by (simp add: execute_until_command_def)
qed

text \<open>Lines over a counter: \<open>more\<close> tells whether it is positive, every other line lowers it.\<close>

definition countdown :: "(unit, nat) exec_shell \<Rightarrow> string \<Rightarrow> (unit, nat) outcome" where
  "countdown s line =
     (if line = ''more'' then Some (s, [], if 0 < world s then 0 else 1)
      else Some (s\<lparr>world := world s - 1\<rparr>, [], 0))"

definition counting_shell :: "(unit, nat) exec_shell" where
  "counting_shell =
     \<lparr>running = True, last_status = 0, inherited_input_active = False,
      inherited_input_redirection = \<lparr>rd_kind = Redirect_input, rd_fd = 0, rd_target_fd = 0, rd_strip_tabs = False,
        rd_target = [], rd_raw_target = [], rd_delimiter = [], rd_heredoc_body = []\<rparr>,
      control_signal = Sig_none, control_levels = 0, loop_depth = 0, function_depth = 0, function_names = [],
      err_trap_active = False, err_trap_command = [], running_exit_trap = False, opt_errexit = False,
      in_condition = 0, errexit_suppressed = 0, sh_mode = False, ctx_sudo = 0, reg = empty_shell,
      vs = login_shell, world = 1000000\<rparr>"

theorem loops_terminate_witness:
  "\<exists>r. execute_while_command (table_services echo_commands []) countdown
     \<lparr>lp_condition = ''more'', lp_body = ''tick''\<rparr> counting_shell = Some r"
proof -
  let ?sv = "table_services echo_commands []"
  let ?c = "\<lparr>lp_condition = ''more'', lp_body = ''tick''\<rparr>"
  let ?I = "\<lambda>s :: (unit, nat) exec_shell. control_signal s = Sig_none"
  have cond: "run_condition ?sv countdown ''more'' s = Some (s, Some (if 0 < world s then 0 else 1, []))"
    for s :: "(unit, nat) exec_shell"
    by (simp add: run_condition_def evaluate_condition_status_def table_services_def basic_services_def countdown_def)
  have "?I (enter_loop counting_shell)" by (simp add: enter_loop_def counting_shell_def)
  from loops_terminate [of ?I, OF this, of ?sv countdown ?c True world] show ?thesis
    by (simp add: cond countdown_def resolve_loop_control_def)
qed

subsection \<open>Leaving nested loops\<close>

text \<open>Loops inside each other, the body of each running the next one and the innermost body a line.\<close>

fun nested_for ::
  "('f, 'w, 'v, 'n) services \<Rightarrow> (('f, 'w) exec_shell \<Rightarrow> string \<Rightarrow> ('f, 'w) outcome) \<Rightarrow> for_node list \<Rightarrow>
   ('f, 'w) exec_shell \<Rightarrow> string \<Rightarrow> ('f, 'w) outcome" where
  "nested_for sv exec [] shell line = exec shell line"
| "nested_for sv exec (c # cs) shell line = execute_for_command sv (\<lambda>s _. nested_for sv exec cs s line) c shell"

text \<open>In the states \<open>P\<close> the source of the loop gives at least one item, which can be bound.\<close>

definition loop_starts ::
  "('f, 'w, 'v, 'n) services \<Rightarrow> (('f, 'w) exec_shell \<Rightarrow> bool) \<Rightarrow> for_node \<Rightarrow> bool" where
  "loop_starts sv P c \<longleftrightarrow> (\<forall>s. P s \<and> running s \<longrightarrow> sv_alloc_ok sv s ''for-loop iterable'' \<and>
     (\<exists>t v items u. evaluate_for_source sv (for_source c) s = Some (t, Inr (It_list (v # items))) \<and>
        running t \<and> loop_depth t = loop_depth s \<and> sv_alloc_ok sv (enter_loop t) ''for-loop current value'' \<and>
        sv_copy_ok sv (enter_loop t) v \<and> assign_for_loop_variable sv (for_variable c) v (enter_loop t) = (u, None) \<and>
        running u \<and> P u \<and> loop_depth u = loop_depth t + 1))"

lemma append_nothing [simp]: "append_output_segment out [] = (0, out)"
  by (simp add: append_output_segment_def)

text \<open>The state after the innermost \<open>k\<close> loops have been left by a \<open>break\<close> of \<open>n\<close> levels.\<close>

definition broken :: "nat \<Rightarrow> nat \<Rightarrow> ('f, 'w) exec_shell \<Rightarrow> bool" where
  "broken n k t \<longleftrightarrow> (if k < n then control_signal t = Sig_break \<and> control_levels t = int n - int k
     else control_signal t = Sig_none)"

lemma broken_resolve:
  assumes "broken n k u" and "k < n"
  shows "\<exists>action t. resolve_loop_control u = (action, t) \<and> action \<in> {Loop_break, Loop_propagate} \<and>
    broken n (Suc k) t \<and> loop_depth t = loop_depth u \<and> running t = running u"
  using assms
  by (auto simp: broken_def resolve_loop_control_def arksh_shell_clear_control_signal_def Let_def)

lemma nested_break:
  assumes "\<And>s. running s \<Longrightarrow> 0 < loop_depth s \<Longrightarrow>
      \<exists>t. exec s line = Some (t, [], 0) \<and> broken n 0 t \<and> loop_depth t = loop_depth s \<and> running t"
    and "\<forall>c \<in> set cs. loop_starts sv P c" and "length cs \<le> n" and "running s" and "P s"
    and "0 \<le> loop_depth s" and "cs = [] \<longrightarrow> 0 < loop_depth s"
  shows "\<exists>t. nested_for sv exec cs s line = Some (t, [], 0) \<and> broken n (length cs) t \<and>
    loop_depth t = loop_depth s \<and> running t"
  using assms(2-7)
proof (induction cs arbitrary: s)
  case Nil
  then show ?case using assms(1) by simp
next
  case (Cons c cs)
  obtain t v items u where start: "sv_alloc_ok sv s ''for-loop iterable''"
    "evaluate_for_source sv (for_source c) s = Some (t, Inr (It_list (v # items)))"
    "running t" "loop_depth t = loop_depth s" "sv_alloc_ok sv (enter_loop t) ''for-loop current value''"
    "sv_copy_ok sv (enter_loop t) v" "assign_for_loop_variable sv (for_variable c) v (enter_loop t) = (u, None)"
    "running u" "P u" "loop_depth u = loop_depth t + 1"
    using Cons.prems by (auto simp: loop_starts_def)
  obtain w where w: "nested_for sv exec cs u line = Some (w, [], 0)" "broken n (length cs) w"
    "loop_depth w = loop_depth u" "running w"
    using Cons.IH [of u] Cons.prems start by auto
  have run: "running (enter_loop t)" using start by (simp add: enter_loop_def)
  obtain action x where x: "resolve_loop_control w = (action, x)" "action \<in> {Loop_break, Loop_propagate}"
    "broken n (Suc (length cs)) x" "loop_depth x = loop_depth w" "running x"
    using broken_resolve [OF w(2)] Cons.prems w(4) by auto
  have "for_loop sv (\<lambda>s _. nested_for sv exec cs s line) c [] 0 (v # items) (enter_loop t) = Some (leave_loop x, [], 0)"
    using start run w x by (auto simp: for_step_def end_iteration_def)
  then have "nested_for sv exec (c # cs) s line = Some (leave_loop x, [], 0)"
    using start by (simp add: execute_for_command_def)
  then show ?case
    using x w start by (auto simp: broken_def leave_loop_def)
qed

text \<open>
  (C8) \<open>break\<close> leaves as many loops as it is told to: in \<open>k\<close> loops inside each other a \<open>break n\<close> with
  \<open>n\<close> at least \<open>k\<close> ends all of them in their first iteration, with status 0, no output of its own and the
  depth of loops restored.  When there are exactly \<open>n\<close> loops no signal is left; when there are fewer, the
  remaining \<open>n - k\<close> levels stay pending after the outermost loop.
\<close>

theorem break_leaves_loops:
  assumes "\<forall>c \<in> set cs. loop_starts sv P c" and "cs \<noteq> []" and "length cs \<le> n" and "running shell" and "P shell"
    and "0 \<le> loop_depth shell" and "parse_control_line_argument line ''break'' = Some arg"
    and "parse_positive_control_count arg = Some (int n)"
  shows "\<exists>t. nested_for sv (\<lambda>s l. Some (handle_loop_control_line s l ''break'' Sig_break)) cs shell line =
      Some (t, [], 0) \<and> loop_depth t = loop_depth shell \<and>
    (if n = length cs then control_signal t = Sig_none
     else control_signal t = Sig_break \<and> control_levels t = int n - int (length cs))"
proof -
  have "0 < n" using assms(2,3) by (cases cs) auto
  then have "\<exists>t. Some (handle_loop_control_line s line ''break'' Sig_break) = Some (t, [], 0) \<and>
      broken n 0 t \<and> loop_depth t = loop_depth s \<and> running t" if "running s" "0 < loop_depth s" for s :: "('a, 'b) exec_shell"
    using that assms(7,8) by (simp add: handle_loop_control_line_def arksh_shell_raise_control_signal_def broken_def)
  from nested_break [where exec = "\<lambda>s l. Some (handle_loop_control_line s l ''break'' Sig_break)" and line = line,
      OF this assms(1,3-6)] assms(2,3) show ?thesis
    by (auto simp: broken_def)
qed

definition x_bound :: vshell where
  "x_bound = login_shell\<lparr>vars := \<lparr>entries = [\<lparr>v_name = ''x'', v_value = ''a'', v_exported = False\<rparr>], capacity = 4\<rparr>\<rparr>"

lemma set_x: "arksh_shell_set_var plenty login_shell ''x'' ''a'' False = (0, x_bound)"
  by (simp add: arksh_shell_set_var_def login_shell_def reserve_first find_var_def is_valid_identifier_def
      c_isalpha_def Let_def blank_var_def x_bound_def max_var_value_def)

lemma set_x_again: "arksh_shell_set_var plenty x_bound ''x'' ''a'' False = (0, x_bound)"
  by (simp add: arksh_shell_set_var_def login_shell_def find_var_def is_valid_identifier_def
      c_isalpha_def Let_def x_bound_def max_var_value_def reserve_entry_def)

definition x_loop :: for_node where
  "x_loop = \<lparr>for_variable = ''x'', for_source = ''a b'', for_body = ''body''\<rparr>"

lemma lex_a_b: "map_sum id (map (\<lambda>t. (tok_kind t, tok_raw t))) (arksh_lex_line ''a b'') =
    Inr [(Tok_word, ''a''), (Tok_word, ''b''), (Tok_eof, [])]"
  by code_simp

lemma x_loop_source:
  "evaluate_for_source (table_services ext program) ''a b'' s = Some (s, Inr (It_list [''a'', ''b'']))"
proof -
  obtain t1 t2 t3 where "arksh_lex_line ''a b'' = Inr [t1, t2, t3]" "tok_kind t1 = Tok_word" "tok_raw t1 = ''a''"
    "tok_kind t2 = Tok_word" "tok_raw t2 = ''b''" "tok_kind t3 = Tok_eof"
    using lex_a_b by (cases "arksh_lex_line ''a b''") (auto simp: map_eq_Cons_conv)
  then show ?thesis by (simp add: evaluate_for_source_def table_services_def basic_services_def)
qed

lemma x_loop_starts:
  "loop_starts (table_services ext program) (\<lambda>s. vs s = login_shell \<or> vs s = x_bound) x_loop"
  unfolding loop_starts_def
proof (intro allI impI, elim conjE)
  fix s :: "(unit, 'a) exec_shell"
  let ?sv = "table_services ext program"
  assume "vs s = login_shell \<or> vs s = x_bound" and "running s"
  moreover have "assign_for_loop_variable ?sv ''x'' ''a'' (enter_loop s) = ((enter_loop s)\<lparr>vs := x_bound\<rparr>, None)"
    using calculation(1) by (auto simp: assign_for_loop_variable_def table_services_def basic_services_def enter_loop_def set_x set_x_again)
  ultimately show "sv_alloc_ok ?sv s ''for-loop iterable'' \<and>
      (\<exists>t v items u. evaluate_for_source ?sv (for_source x_loop) s = Some (t, Inr (It_list (v # items))) \<and>
        running t \<and> loop_depth t = loop_depth s \<and> sv_alloc_ok ?sv (enter_loop t) ''for-loop current value'' \<and>
        sv_copy_ok ?sv (enter_loop t) v \<and>
        assign_for_loop_variable ?sv (for_variable x_loop) v (enter_loop t) = (u, None) \<and>
        running u \<and> (vs u = login_shell \<or> vs u = x_bound) \<and> loop_depth u = loop_depth t + 1)"
    by (simp add: x_loop_def x_loop_source) (simp add: table_services_def basic_services_def enter_loop_def)
qed

theorem break_leaves_loops_witness:
  "\<exists>t. nested_for (table_services echo_commands []) (\<lambda>s l. Some (handle_loop_control_line s l ''break'' Sig_break))
     [x_loop, x_loop] start_shell ''break 3'' = Some (t, [], 0) \<and> loop_depth t = 0 \<and>
     control_signal t = Sig_break \<and> control_levels t = 1"
proof -
  have parse: "parse_control_line_argument ''break 3'' ''break'' = Some ''3''"
    "parse_positive_control_count ''3'' = Some (int 3)"
    by code_simp+
  show ?thesis
    using break_leaves_loops [of "[x_loop, x_loop]" "table_services echo_commands []"
        "\<lambda>s. vs s = login_shell \<or> vs s = x_bound" 3 start_shell, OF _ _ _ _ _ _ parse] x_loop_starts [of echo_commands "[]"]
    by (simp add: start_shell_def)
qed

subsection \<open>Signals that stay behind\<close>

definition entry :: "string \<Rightarrow> list_entry" where
  "entry line = \<lparr>le_text = line, le_condition = Cond_always, le_background = False\<rparr>"

definition lingering_program :: "(string \<times> unit ast) list" where
  "lingering_program =
     [(''f'', Ast_for_command \<lparr>for_variable = ''x'', for_source = ''a'', for_body = ''break 2''\<rparr>),
      (''w'', Ast_while_command \<lparr>lp_condition = ''break'', lp_body = ''echo c''\<rparr>),
      (''l'', Ast_command_list [entry ''echo a'', entry ''echo b'']),
      (''i'', Ast_if_command \<lparr>if_condition = ''true'', if_then = ''echo a'', if_else = None\<rparr>)]"

text \<open>The signal and the output after each of a sequence of lines.\<close>

fun run_lines :: "('f, 'w, 'v, 'n) services \<Rightarrow> nat \<Rightarrow> ('f, 'w) exec_shell \<Rightarrow> string list \<Rightarrow> (signal_kind \<times> string) list" where
  "run_lines sv n shell [] = []"
| "run_lines sv n shell (line # ls) =
     (case execute_line sv n shell line of
        None \<Rightarrow> []
      | Some (shell1, out, status) \<Rightarrow> (control_signal shell1, out) # run_lines sv n shell1 ls)"

text \<open>
  Nothing clears a \<open>break\<close> that no loop consumes.  At the top level, the loop
  \<open>for x in a; do break 2; done\<close> leaves the signal pending, and so does \<open>while break; do echo c; done\<close>,
  whose condition raises it.  From then on a list runs only its first command and an \<open>if\<close> whose
  condition holds runs no branch.
\<close>

theorem unconsumed_break_lingers:
  "run_lines (table_services echo_commands lingering_program) 2 start_shell [''f'', ''l'', ''i''] =
     [(Sig_break, []), (Sig_break, ''a''), (Sig_break, [])] \<and>
   run_lines (table_services echo_commands lingering_program) 2 start_shell [''w'', ''l'', ''i''] =
     [(Sig_break, []), (Sig_break, ''a''), (Sig_break, [])] \<and>
   run_lines (table_services echo_commands lingering_program) 2 start_shell [''l'', ''i''] =
     [(Sig_none, ''a'' @ [CHR 0x0A] @ ''b''), (Sig_none, ''a'')]"
  by code_simp

end
