(* ===== verification/Lexer_Plain.thy ===== *)
theory Lexer_Plain
  imports Lexer_Line
begin

text \<open>
  Words without quotes or operators, and the tokens the lexer makes of them.  Alias expansion and
  case patterns rest on these facts.
\<close>

definition plain_char :: "char \<Rightarrow> bool" where
  "plain_char c \<longleftrightarrow> c_isalnum c \<or> c \<in> set ''_./*?%+@:~''"

definition plain_word :: "string \<Rightarrow> bool" where
  "plain_word w \<longleftrightarrow> w \<noteq> [] \<and> list_all plain_char w \<and> length w < max_token"

text \<open>What may follow a plain word: nothing, white space, a pipe or a semicolon.\<close>

definition word_end :: "string \<Rightarrow> bool" where
  "word_end rest \<longleftrightarrow> rest = [] \<or> c_isspace (hd rest) \<or> hd rest = CHR ''|'' \<or> hd rest = CHR '';''"

lemma plain_char_not:
  assumes "plain_char c"
  shows "c \<notin> set ''<>|&;(),$[!-'' \<and> c \<noteq> bslash \<and> c \<noteq> squote \<and> c \<noteq> dquote \<and> \<not> c_isspace c"
  using assms by (auto simp: plain_char_def c_isalnum_def c_isalpha_def c_isdigit_def c_isspace_def)

lemma dropWhile_append_if:
  "dropWhile P (xs @ ys) = (if dropWhile P xs = [] then dropWhile P ys else dropWhile P xs @ ys)"
  by (induction xs) auto

lemma plain_next:
  "plain_char c \<Longrightarrow> a \<in> set ''<>|&;(),$[!-'' \<Longrightarrow> \<not> next_is (a # x) (c # cs)"
  using plain_char_not [of c] by auto

lemma plain_fd:
  assumes "list_all plain_char w" and "word_end rest" and "w \<noteq> []"
  shows "match_fd_redirection_token (w @ rest) = None"
proof -
  let ?r = "dropWhile c_isdigit (w @ rest)"
  have "\<not> next_is (a # x) ?r" if "a = CHR ''<'' \<or> a = CHR ''>''" for a x
  proof (cases "dropWhile c_isdigit w")
    case (Cons d ds)
    then have "plain_char d" using assms(1) by (metis list.set_intros(1) list_all_iff set_dropWhileD)
    moreover have "?r = d # ds @ rest" by (simp add: dropWhile_append_if Cons)
    ultimately show ?thesis using that plain_next [of d a x "ds @ rest"] by auto
  next
    case Nil
    then have "?r = dropWhile c_isdigit rest" by (simp add: dropWhile_append_if)
    moreover have "dropWhile c_isdigit rest = rest"
      using assms(2) digit_not_space by (cases rest) (auto simp: word_end_def c_isdigit_def)
    ultimately have "?r = rest" by simp
    moreover have "\<not> next_is (a # x) rest"
      using assms(2) that by (cases rest) (auto simp: word_end_def c_isspace_def)
    ultimately show ?thesis by (simp only: not_False_eq_True)
  qed
  then show ?thesis
    unfolding match_fd_redirection_token_def Let_def dropWhile_eq_drop [symmetric]
    by (simp del: next_is_simps next_is_split)
qed

lemma two_no_fd: "match_fd_redirection_token cs = None \<Longrightarrow> \<not> next_is (CHR ''2'' # CHR ''>'' # x) cs"
  using match_fd_two [of cs] next_is_take [of "''2>''" x cs] by auto

lemma plain_not_special:
  assumes "list_all plain_char w" and "word_end rest" and "w \<noteq> []"
  shows "\<not> is_special_token_start (w @ rest)"
proof -
  obtain c cs where w: "w = c # cs" using assms(3) by (cases w) auto
  have c: "plain_char c" using assms(1) w by simp
  have fd: "match_fd_redirection_token (c # cs @ rest) = None" using plain_fd [OF assms] w by simp
  have two: "\<not> next_is (CHR ''2'' # CHR ''>'' # x) (c # cs @ rest)" for x
    using two_no_fd fd by blast
  show ?thesis
    unfolding is_special_token_start_def w append_Cons
    by (simp add: fd two plain_next [OF c] del: next_is_simps next_is_split)
qed

lemma scan_plain:
  "list_all plain_char w \<Longrightarrow> word_end rest \<Longrightarrow> length rw + length w < max_token \<Longrightarrow>
   length ck + length w < max_token \<Longrightarrow>
   scan_word_loop False saw rw ck (w @ rest) = Inr (saw \<or> w \<noteq> [], rw @ w, ck @ w, rest)"
proof (induction w arbitrary: saw rw ck)
  case Nil
  show ?case
  proof (cases rest)
    case (Cons c cs)
    with Nil.prems(2) have "word_stop False c cs"
      by (auto simp: word_end_def word_stop_def subst_start_def is_special_token_start_def c_isspace_def)
    with Cons show ?thesis by (simp add: word_stop)
  qed simp
next
  case (Cons c w)
  have c: "plain_char c" using Cons.prems(1) by simp
  have stop: "\<not> word_stop False c (w @ rest)" and sub: "\<not> subst_start c (w @ rest)"
    using plain_char_not [OF c] plain_not_special [OF Cons.prems(1,2)]
    by (auto simp: word_stop_def subst_start_def)
  have "scan_word_loop False saw rw ck ((c # w) @ rest) =
      bind_err (append_both ''word token'' rw ck [c]) (\<lambda>(rw, ck). scan_word_loop False True rw ck (w @ rest))"
    using word_plain [OF stop sub] plain_char_not [OF c] by simp
  moreover have "append_both ''word token'' rw ck [c] = Inr (rw @ [c], ck @ [c])"
    using Cons.prems by simp
  ultimately show ?case using Cons.IH [of "rw @ [c]" "ck @ [c]" True] Cons.prems by simp
qed

lemma scan_word_plain:
  "plain_word w \<Longrightarrow> word_end rest \<Longrightarrow>
   scan_word_token False pos (w @ rest) = Inr (\<lparr>tok_kind = Tok_word, tok_text = w, tok_raw = w, tok_pos = pos\<rparr>, rest)"
  by (simp add: scan_word_token_def plain_word_def scan_plain)

lemma lex_step_plain:
  assumes "plain_word w" and "word_end rest" and "ls_rest st = w @ rest"
    and "\<not> in_double_bracket st" and "length (ls_tokens st) < max_lexer_tokens"
  shows "\<exists>st'. lex_step len st = Inr st' \<and> ls_rest st' = rest \<and> \<not> in_double_bracket st' \<and>
    ls_tokens st' = ls_tokens st @
      [\<lparr>tok_kind = Tok_word, tok_text = w, tok_raw = w, tok_pos = len - length (ls_rest st)\<rparr>]"
proof -
  obtain c cs where w: "w = c # cs" using assms(1) by (cases w) (auto simp: plain_word_def)
  have c: "plain_char c" using assms(1) w by (simp add: plain_word_def)
  have rest: "ls_rest st = c # cs @ rest" using assms(3) w by simp
  have nn: "\<not> next_is (a # x) (ls_rest st)" if "a \<in> set ''<>|&;(),$[!-''" for a x
    using rest that plain_next [OF c] by simp
  have fd: "match_fd_redirection_token (ls_rest st) = None"
    using plain_fd [of w rest] assms(1-3) by (simp add: plain_word_def)
  have two: "\<not> next_is (CHR ''2'' # CHR ''>'' # x) (ls_rest st)" for x
    using two_no_fd fd by blast
  have "lex_step len st = lex_command_step len st"
    using assms(4) plain_char_not [OF c] by (simp add: lex_step_def rest)
  also have "\<dots> = lex_operator_step len st"
    by (simp add: lex_command_step_def Let_def fd opens_double_bracket_def nn del: next_is_split next_is_simps)
  also have "\<dots> = lex_redirect_step len st"
    by (simp add: lex_operator_step_def Let_def nn del: next_is_split next_is_simps)
  also have "\<dots> = lex_word_step len st"
    by (simp add: lex_redirect_step_def Let_def nn two del: next_is_split next_is_simps)
  also have "\<dots> = (if pending_redirect_target st
      then set_pending False (emit_scanned (scan_word_token False) len st)
      else set_flags False False (emit_scanned (scan_word_token False) len st))"
    by (simp add: lex_word_step_def Let_def nn del: next_is_split next_is_simps)
  finally show ?thesis
    using scan_word_plain [OF assms(1,2)] assms(3-5)
    by (simp add: emit_scanned_def set_flags_def set_pending_def)
qed

text \<open>Only the characters of an arrow make an arrow token.\<close>

lemma emit_scanned_kind:
  assumes "emit_scanned (scan_word_token cond) len st = Inr st'"
  shows "\<exists>t. ls_tokens st' = ls_tokens st @ [t] \<and> tok_kind t = Tok_word"
  using assms by (auto simp: emit_scanned_def scan_word_token_def err_simps split: if_splits)

lemma emit_kind:
  "emit len k s st = Inr st' \<Longrightarrow> \<exists>t. ls_tokens st' = ls_tokens st @ [t] \<and> tok_kind t = k"
  by (auto simp: emit_def push_token_def err_simps split: if_splits)

lemma emit_procsubst_kind:
  assumes "emit_scanned (scan_process_substitution_token k) len st = Inr st'"
  shows "\<exists>t. ls_tokens st' = ls_tokens st @ [t] \<and> tok_kind t = k"
  using assms
  by (auto simp: emit_scanned_def scan_process_substitution_token_def err_simps split: if_splits list.splits)

lemma flags_tokens:
  "set_flags a b m = Inr st' \<Longrightarrow> \<exists>st1. m = Inr st1 \<and> ls_tokens st' = ls_tokens st1"
  "set_pending b m = Inr st' \<Longrightarrow> \<exists>st1. m = Inr st1 \<and> ls_tokens st' = ls_tokens st1"
  by (auto simp: set_flags_def set_pending_def err_simps)

lemma fd_kind_not_arrow: "match_fd_redirection_token cs = Some (k, n) \<Longrightarrow> k \<noteq> Tok_arrow"
  by (auto simp: match_fd_redirection_token_def Let_def split: if_splits)

definition adds_arrow_only :: "bool \<Rightarrow> lex_state \<Rightarrow> lex_error + lex_state \<Rightarrow> bool" where
  "adds_arrow_only arrow st m \<longleftrightarrow>
     (\<forall>st'. m = Inr st' \<longrightarrow> (\<exists>t. ls_tokens st' = ls_tokens st @ [t] \<and> (tok_kind t = Tok_arrow \<longrightarrow> arrow)))"

lemma adds_arrow_emit: "k \<noteq> Tok_arrow \<or> arrow \<Longrightarrow> adds_arrow_only arrow st (emit len k s st)"
  unfolding adds_arrow_only_def using emit_kind by blast

lemma adds_arrow_word: "adds_arrow_only arrow st (emit_scanned (scan_word_token cond) len st)"
  unfolding adds_arrow_only_def using emit_scanned_kind by fastforce

lemma adds_arrow_procsubst:
  "adds_arrow_only arrow st (emit_scanned (scan_process_substitution_token (proc_subst_kind cs)) len st)"
  unfolding adds_arrow_only_def using emit_procsubst_kind by (fastforce simp: proc_subst_kind_def)

lemma adds_arrow_flags:
  "adds_arrow_only arrow st m \<Longrightarrow> adds_arrow_only arrow st (set_flags a b m)"
  "adds_arrow_only arrow st m \<Longrightarrow> adds_arrow_only arrow st (set_pending b m)"
  unfolding adds_arrow_only_def by (auto dest!: flags_tokens)

lemma adds_arrow_if:
  "(b \<Longrightarrow> adds_arrow_only arrow st m) \<Longrightarrow> (\<not> b \<Longrightarrow> adds_arrow_only arrow st m') \<Longrightarrow>
   adds_arrow_only arrow st (if b then m else m')"
  by simp

lemma lex_word_step_arrow: "adds_arrow_only arrow st (lex_word_step len st)"
  unfolding lex_word_step_def Let_def
  by (intro adds_arrow_if adds_arrow_flags adds_arrow_emit adds_arrow_word) simp_all

lemma lex_redirect_step_arrow: "adds_arrow_only arrow st (lex_redirect_step len st)"
  unfolding lex_redirect_step_def Let_def
  by (intro adds_arrow_if adds_arrow_flags adds_arrow_emit lex_word_step_arrow) simp_all

lemma lex_operator_step_arrow: "adds_arrow_only (next_is ''->'' (ls_rest st)) st (lex_operator_step len st)"
  unfolding lex_operator_step_def Let_def
  by (intro adds_arrow_if adds_arrow_flags adds_arrow_emit lex_redirect_step_arrow) simp_all

lemma lex_command_step_arrow: "adds_arrow_only (next_is ''->'' (ls_rest st)) st (lex_command_step len st)"
proof -
  have "adds_arrow_only arrow st (bind_err (emit len Tok_word s st) (\<lambda>st'. Inr (f st')))"
    if "\<And>st'. ls_tokens (f st') = ls_tokens st'" for arrow s f
    using adds_arrow_emit [of Tok_word arrow st len s] that by (auto simp: adds_arrow_only_def err_simps)
  then show ?thesis
    unfolding lex_command_step_def Let_def
    by (auto intro!: adds_arrow_if adds_arrow_flags adds_arrow_emit adds_arrow_procsubst lex_operator_step_arrow
        split: option.split dest: fd_kind_not_arrow simp: adds_arrow_only_def [of _ _ "Inl _"]
        simp del: next_is_split)
qed

text \<open>The kind of the token a step adds outside \<open>[[\<close>.\<close>

lemma lex_step_arrow:
  assumes "lex_step len st = Inr st'" and "\<not> c_isspace (hd (ls_rest st))" and "\<not> in_double_bracket st"
  shows "\<exists>t. ls_tokens st' = ls_tokens st @ [t] \<and> (tok_kind t = Tok_arrow \<longrightarrow> next_is ''->'' (ls_rest st))"
  using assms lex_command_step_arrow [of st len] by (auto simp: lex_step_def adds_arrow_only_def)

end
