(* ===== verification/Alias_Laws.thy ===== *)
theory Alias_Laws
  imports Alias_Expansion Lexer_Plain
begin

text \<open>What alias expansion guarantees, and what it refuses.\<close>

subsection \<open>Expanded lines are stable\<close>

lemma append_slice_all: "length line < max_line \<Longrightarrow> append_slice max_line [] line 0 (length line) = Some line"
  by (simp add: append_slice_def)

lemma append_slice_prefix: "append_slice n dest src i j = Some e \<Longrightarrow> \<exists>x. e = dest @ x"
  by (auto simp: append_slice_def split: if_splits)

text \<open>What is already expanded stays in front, and a replacement is not forgotten.\<close>

lemma expand_tokens_prefix:
  "expand_tokens shell line prev pos expanded replaced toks = Inr (e, r) \<Longrightarrow>
   (\<exists>x. e = expanded @ x) \<and> length e < max_line \<and> (replaced \<longrightarrow> r)"
proof (induction toks arbitrary: prev pos expanded replaced)
  case Nil
  then show ?case by (auto simp: append_slice_def split: if_splits)
next
  case (Cons t ts)
  show ?case
  proof (cases "tok_kind t = Tok_eof \<or> token_alias shell prev t ts = None")
    case True
    with Cons show ?thesis by (auto simp: append_slice_def split: if_splits)
  next
    case False
    then obtain v where v: "token_alias shell prev t ts = Some v" and k: "tok_kind t \<noteq> Tok_eof" by auto
    obtain e1 e2 where e: "append_slice max_line expanded line pos (tok_pos t) = Some e1"
      "append_text max_line e1 v = Some e2"
      "expand_tokens shell line (Some (tok_kind t)) (tok_pos t + length (tok_raw t)) e2 True ts = Inr (e, r)"
      using Cons.prems v k by (auto split: option.splits)
    from Cons.IH [OF e(3)] append_slice_prefix [OF e(1)] e(2) show ?thesis
      by (auto simp: append_text_def split: if_splits)
  qed
qed

lemma expand_tokens_unchanged:
  "expand_tokens shell line prev 0 [] False toks = Inr (e, False) \<Longrightarrow> e = line"
proof (induction toks arbitrary: prev)
  case (Cons t ts)
  show ?case
  proof (cases "tok_kind t = Tok_eof \<or> token_alias shell prev t ts = None")
    case True
    with Cons show ?thesis by (auto simp: append_slice_def split: if_splits)
  next
    case False
    then have "\<exists>e2. expand_tokens shell line (Some (tok_kind t)) (tok_pos t + length (tok_raw t)) e2 True ts = Inr (e, False)"
      using Cons.prems by (auto split: option.splits)
    then show ?thesis using expand_tokens_prefix by blast
  qed
qed (auto simp: append_slice_def split: if_splits)

lemma expand_once_unchanged: "expand_aliases_once shell line = Inr (e, False) \<Longrightarrow> e = line"
  by (auto simp: expand_aliases_once_def dest: expand_tokens_unchanged split: sum.splits)

lemma expand_once_short: "expand_aliases_once shell line = Inr (e, r) \<Longrightarrow> length e < max_line"
  by (auto simp: expand_aliases_once_def dest: expand_tokens_prefix split: sum.splits)

lemma expand_rounds_stable:
  "length current < max_line \<Longrightarrow> expand_rounds shell n current = Inr e \<Longrightarrow>
   expand_aliases_once shell e = Inr (e, False)"
proof (induction n arbitrary: current)
  case (Suc n)
  obtain t r where o: "expand_aliases_once shell current = Inr (t, r)"
    using Suc.prems(2) by (auto split: sum.splits)
  have "length t < max_line" using expand_once_short [OF o] .
  then show ?case
    using Suc o expand_once_unchanged [of shell current t] by (cases r) auto
qed simp

text \<open>
  (C22) An expanded line has no alias left to expand: when alias expansion succeeds, expanding the result
  once more replaces nothing and gives the same line, and expanding it anew gives the line itself.  The
  result always fits the line buffer.
\<close>

theorem alias_expansion_stable:
  assumes "expand_aliases shell line = Inr e"
  shows "expand_aliases_once shell e = Inr (e, False) \<and> expand_aliases shell e = Inr e \<and> length e < max_line"
proof -
  have "length (copy_string max_line line) < max_line" by (simp add: length_copy_string max_line_def)
  with assms have once: "expand_aliases_once shell e = Inr (e, False)"
    unfolding expand_aliases_def by (rule expand_rounds_stable [rotated])
  have short: "length e < max_line" using expand_once_short [OF once] .
  then have "expand_rounds shell (Suc 7) (copy_string max_line e) = Inr e"
    using once by (simp only: expand_rounds.simps) simp
  moreover have "Suc 7 = (8::nat)" by simp
  ultimately have "expand_aliases shell e = Inr e" by (simp only: expand_aliases_def)
  with once short show ?thesis by simp
qed

theorem alias_expansion_stable_witness:
  "let shell = (empty_shell :: unit shell)\<lparr>aliases := [\<lparr>a_name = ''ll'', a_value = ''ls -l''\<rparr>], alias_count := 1\<rparr> in
   expand_aliases shell ''ll | ll'' = Inr ''ls -l | ls -l'' \<and>
   expand_aliases_once shell ''ls -l | ls -l'' = Inr (''ls -l | ls -l'', False)"
proof -
  let ?s = "(empty_shell :: unit shell)\<lparr>aliases := [\<lparr>a_name = ''ll'', a_value = ''ls -l''\<rparr>], alias_count := 1\<rparr>"
  have "expand_aliases ?s ''ll | ll'' = Inr ''ls -l | ls -l''" by code_simp
  with alias_expansion_stable [OF this] show ?thesis by simp
qed

subsection \<open>Aliases for themselves\<close>

text \<open>The first token of a line that starts with a plain word, and whether an arrow follows it.\<close>

definition word_args :: "string \<Rightarrow> bool" where
  "word_args rest \<longleftrightarrow>
     rest = [] \<or> (\<exists>r. rest = CHR '' '' # r \<and> r \<noteq> [] \<and> \<not> c_isspace (hd r) \<and> \<not> next_is ''->'' r)"

lemma lex_loop_keeps:
  "lex_loop len st = Inr toks \<Longrightarrow> \<exists>ts. toks = ls_tokens st @ ts"
proof (induction len st rule: lex_loop.induct)
  case (1 len st)
  show ?case
  proof (cases "ls_rest st = []")
    case True
    with "1.prems" show ?thesis
      by (auto simp: lex_loop.simps [of len st] lex_finish_def push_token_def err_simps split: if_splits)
  next
    case False
    with "1.prems"(1) obtain st' where st': "lex_step len st = Inr st'" "lex_loop len st' = Inr toks"
      by (auto simp: lex_loop.simps [of len st] err_simps)
    from lex_step_ok [OF False, of len] st'(1) have "\<exists>ts. ls_tokens st' = ls_tokens st @ ts"
      by (auto simp: step_ok_def lex_advance_def)
    with "1.IH" [OF False st'] show ?thesis by auto
  qed
qed

lemma first_token_plain:
  assumes "plain_word w" and "word_args rest" and "arksh_lex_line (w @ rest) = Inr toks"
  shows "\<exists>ts. toks = \<lparr>tok_kind = Tok_word, tok_text = w, tok_raw = w, tok_pos = 0\<rparr> # ts \<and>
    ts \<noteq> [] \<and> tok_kind (hd ts) \<noteq> Tok_arrow"
proof -
  let ?len = "length (w @ rest)"
  let ?t = "\<lparr>tok_kind = Tok_word, tok_text = w, tok_raw = w, tok_pos = 0\<rparr>"
  let ?st = "\<lparr>ls_tokens = [], in_double_bracket = False, command_word_allowed = True,
        pending_redirect_target = False, ls_rest = w @ rest\<rparr>"
  have "word_end rest" using assms(2) by (auto simp: word_args_def word_end_def c_isspace_def)
  from lex_step_plain [OF assms(1) this, of ?st ?len]
  obtain st1 where st1: "lex_step ?len ?st = Inr st1" "ls_rest st1 = rest" "\<not> in_double_bracket st1"
    "ls_tokens st1 = [?t]" by (auto simp: max_lexer_tokens_def)
  have ne: "w @ rest \<noteq> []" using assms(1) by (simp add: plain_word_def)
  have l1: "lex_loop ?len st1 = Inr toks"
    using assms(3) ne st1(1) by (simp only: arksh_lex_line_def lex_loop.simps [of ?len ?st]) (auto simp: err_simps)
  show ?thesis
  proof (cases "rest = []")
    case True
    then show ?thesis using l1 st1
      by (auto simp: lex_loop.simps [of _ st1] lex_finish_def push_token_def err_simps split: if_splits)
  next
    case False
    then obtain r where r: "rest = CHR '' '' # r" "r \<noteq> []" "\<not> c_isspace (hd r)" "\<not> next_is ''->'' r"
      using assms(2) by (auto simp: word_args_def)
    let ?st2 = "st1\<lparr>ls_rest := r\<rparr>"
    have l2: "lex_loop ?len ?st2 = Inr toks"
      using l1 r st1(2) lex_step_space [of "CHR '' ''" st1 r ?len]
      by (simp add: lex_loop.simps [of _ st1] err_simps c_isspace_def)
    then obtain st3 where st3: "lex_step ?len ?st2 = Inr st3" "lex_loop ?len st3 = Inr toks"
      using r by (auto simp: lex_loop.simps [of _ ?st2] err_simps)
    obtain t where t: "ls_tokens st3 = [?t, t]" "tok_kind t \<noteq> Tok_arrow"
      using lex_step_arrow [OF st3(1)] r st1(3,4) by auto
    show ?thesis using lex_loop_keeps [OF st3(2)] t by auto
  qed
qed

text \<open>One round on such a line replaces the first word again.\<close>

lemma expand_once_first_word:
  assumes "plain_word w" and "word_args rest" and "arksh_shell_get_alias shell w = Some v"
    and "expand_aliases_once shell (w @ rest) = Inr (e, r)"
  shows "r \<and> (\<exists>x. e = v @ x)"
proof -
  obtain toks where toks: "arksh_lex_line (w @ rest) = Inr toks"
    "expand_tokens shell (w @ rest) None 0 [] False toks = Inr (e, r)"
    using assms(4) by (auto simp: expand_aliases_once_def split: sum.splits)
  obtain ts where ts: "toks = \<lparr>tok_kind = Tok_word, tok_text = w, tok_raw = w, tok_pos = 0\<rparr> # ts"
    "ts \<noteq> []" "tok_kind (hd ts) \<noteq> Tok_arrow"
    using first_token_plain [OF assms(1,2) toks(1)] by blast
  have w: "w \<noteq> []" using assms(1) by (simp add: plain_word_def)
  have "token_alias shell None \<lparr>tok_kind = Tok_word, tok_text = w, tok_raw = w, tok_pos = 0\<rparr> ts = Some v"
    using ts(3) assms(3) w by (simp add: token_alias_def is_command_position_def token_is_plain_word_def)
  with toks(2) ts(1) have "expand_tokens shell (w @ rest) (Some Tok_word) (length w) v True ts = Inr (e, r)"
    by (auto simp: append_slice_def append_text_def split: option.splits if_splits)
  from expand_tokens_prefix [OF this] show ?thesis by auto
qed

lemma expand_rounds_self:
  assumes "plain_word w" and "arksh_shell_get_alias shell w = Some (w @ args)"
    and "word_args args" and "args \<noteq> []" and "args \<noteq> '' -''"
  shows "word_args rest \<Longrightarrow> length (w @ rest) < max_line \<Longrightarrow> \<exists>err. expand_rounds shell n (w @ rest) = Inl err"
proof (induction n arbitrary: rest)
  case (Suc n)
  show ?case
  proof (cases "expand_aliases_once shell (w @ rest)")
    case (Inr p)
    then obtain e r where p: "expand_aliases_once shell (w @ rest) = Inr (e, r)" by (cases p) auto
    from expand_once_first_word [OF assms(1) Suc.prems(1) assms(2) p]
    obtain x where x: "r" "e = w @ args @ x" by auto
    have "word_args (args @ x)"
      using assms(3-5) by (auto simp: word_args_def next_is_split neq_Nil_conv append_eq_Cons_conv)
    moreover have "length (w @ args @ x) < max_line" using expand_once_short [OF p] x(2) by simp
    ultimately have "\<exists>err. expand_rounds shell n (w @ args @ x) = Inl err" by (rule Suc.IH)
    then show ?thesis using p x expand_once_short [OF p] by simp
  qed simp
qed simp

text \<open>
  An alias that names itself makes its command unusable: an alias whose value is its own name
  followed by arguments, such as \<open>ls='ls -F'\<close>, is expanded again and again, and every line that
  starts with the name is refused, whatever arguments follow.
\<close>

theorem self_alias_refused:
  assumes "plain_word name" and "arksh_shell_get_alias shell name = Some (name @ '' '' @ opts)"
    and "opts \<noteq> []" and "opts \<noteq> ''-''" and "\<not> c_isspace (hd opts)" and "\<not> next_is ''->'' opts"
    and "word_args rest" and "length (name @ rest) < max_line"
  shows "\<exists>err. expand_aliases shell (name @ rest) = Inl err"
proof -
  have "word_args ('' '' @ opts)" using assms(3,5,6) by (simp add: word_args_def)
  then show ?thesis
    using expand_rounds_self [of name shell "'' '' @ opts" rest 8] assms(1,2,4,7,8)
    by (simp add: expand_aliases_def)
qed

theorem self_alias_refused_witness:
  "\<exists>err. expand_aliases ((empty_shell :: unit shell)\<lparr>aliases := [\<lparr>a_name = ''ls'', a_value = ''ls -F''\<rparr>], alias_count := 1\<rparr>)
     ''ls /tmp'' = Inl err"
proof -
  let ?s = "(empty_shell :: unit shell)\<lparr>aliases := [\<lparr>a_name = ''ls'', a_value = ''ls -F''\<rparr>], alias_count := 1\<rparr>"
  have "plain_word ''ls''" by code_simp
  moreover have "arksh_shell_get_alias ?s ''ls'' = Some (''ls'' @ '' '' @ ''-F'')" by code_simp
  ultimately show ?thesis
    using self_alias_refused [of "''ls''" ?s "''-F''" "'' /tmp''"]
    by (simp add: word_args_def c_isspace_def max_line_def)
qed

end
