(* ===== verification/Case_Patterns.thy ===== *)
theory Case_Patterns
  imports Exec_Frame Lexer_Plain
begin

text \<open>
  The branches of \<open>case\<close>: the alternatives of a pattern are found by lexing it, and the first branch
  one of whose alternatives matches is run.
\<close>

fun pipes :: "string list \<Rightarrow> string" where
  "pipes [] = []"
| "pipes [w] = w"
| "pipes (w # ws) = w @ CHR ''|'' # pipes ws"

text \<open>The tokens of a pattern whose text starts at \<open>pos\<close>.\<close>

fun pattern_tokens :: "nat \<Rightarrow> string list \<Rightarrow> token list" where
  "pattern_tokens pos [] = []"
| "pattern_tokens pos [w] =
     [\<lparr>tok_kind = Tok_word, tok_text = w, tok_raw = w, tok_pos = pos\<rparr>,
      \<lparr>tok_kind = Tok_eof, tok_text = [], tok_raw = [], tok_pos = pos + length w\<rparr>]"
| "pattern_tokens pos (w # ws) =
     \<lparr>tok_kind = Tok_word, tok_text = w, tok_raw = w, tok_pos = pos\<rparr> #
     \<lparr>tok_kind = Tok_shell_pipe, tok_text = ''|'', tok_raw = ''|'', tok_pos = pos + length w\<rparr> #
     pattern_tokens (pos + length w + 1) ws"

lemma lex_step_pipe:
  assumes "ls_rest st = CHR ''|'' # c # r" and "plain_char c" and "\<not> in_double_bracket st"
    and "length (ls_tokens st) < max_lexer_tokens"
  shows "\<exists>st'. lex_step len st = Inr st' \<and> ls_rest st' = c # r \<and> \<not> in_double_bracket st' \<and>
    ls_tokens st' = ls_tokens st @
      [\<lparr>tok_kind = Tok_shell_pipe, tok_text = ''|'', tok_raw = ''|'', tok_pos = len - length (ls_rest st)\<rparr>]"
proof -
  have fd: "match_fd_redirection_token (CHR ''|'' # c # r) = None"
    by (simp add: match_fd_redirection_token_def c_isdigit_def)
  have c: "c \<noteq> CHR ''>''" "c \<noteq> CHR ''|''" using plain_char_not [OF assms(2)] by auto
  have "lex_step len st = set_flags True False (emit len Tok_shell_pipe ''|'' st)"
    using assms(3) c by (simp add: lex_step_def assms(1) c_isspace_def lex_command_step_def fd
        opens_double_bracket_def lex_operator_step_def)
  then show ?thesis
    using assms by (simp add: set_flags_def emit_def push_token_def max_token_def)
qed

lemma pipes_Cons: "ws \<noteq> [] \<Longrightarrow> pipes (w # ws) = w @ CHR ''|'' # pipes ws"
  by (cases ws) auto

lemma pattern_tokens_Cons:
  "ws \<noteq> [] \<Longrightarrow> pattern_tokens pos (w # ws) =
     \<lparr>tok_kind = Tok_word, tok_text = w, tok_raw = w, tok_pos = pos\<rparr> #
     \<lparr>tok_kind = Tok_shell_pipe, tok_text = ''|'', tok_raw = ''|'', tok_pos = pos + length w\<rparr> #
     pattern_tokens (pos + length w + 1) ws"
  by (cases ws) auto

lemma pipes_starts_plain: "ws \<noteq> [] \<Longrightarrow> list_all plain_word ws \<Longrightarrow> \<exists>c r. pipes ws = c # r \<and> plain_char c"
proof (cases ws)
  case (Cons w vs)
  assume "list_all plain_word ws"
  then obtain c r where "w = c # r" "plain_char c" using Cons by (cases w) (auto simp: plain_word_def)
  then show ?thesis using Cons by (cases vs) auto
qed simp

lemma lex_loop_pipes:
  "ws \<noteq> [] \<Longrightarrow> list_all plain_word ws \<Longrightarrow> ls_rest st = pipes ws \<Longrightarrow> \<not> in_double_bracket st \<Longrightarrow>
   length (ls_tokens st) + 2 * length ws \<le> max_lexer_tokens \<Longrightarrow> len = pos + length (pipes ws) \<Longrightarrow>
   lex_loop len st = Inr (ls_tokens st @ pattern_tokens pos ws)"
proof (induction ws arbitrary: st pos)
  case (Cons w ws)
  define rest where "rest = (if ws = [] then [] else CHR ''|'' # pipes ws)"
  have eq: "pipes (w # ws) = w @ rest" by (simp add: rest_def pipes_Cons)
  have "word_end rest" by (simp add: rest_def word_end_def)
  with Cons.prems lex_step_plain [of w rest st len] eq
  obtain st1 where st1: "lex_step len st = Inr st1" "ls_rest st1 = rest" "\<not> in_double_bracket st1"
    "ls_tokens st1 = ls_tokens st @ [\<lparr>tok_kind = Tok_word, tok_text = w, tok_raw = w, tok_pos = pos\<rparr>]"
    by auto
  have "ls_rest st \<noteq> []" using Cons.prems(2,3) eq by (auto simp: plain_word_def)
  then have l1: "lex_loop len st = lex_loop len st1"
    using st1(1) by (simp add: lex_loop.simps [of len st])
  show ?case
  proof (cases "ws = []")
    case True
    then have "lex_loop len st1 = lex_finish len st1"
      using st1(2) by (simp add: rest_def lex_loop.simps [of len st1])
    then show ?thesis
      using l1 st1 Cons.prems(5,6) True by (simp add: lex_finish_def push_token_def copy_string_def)
  next
    case False
    obtain c r where c: "pipes ws = c # r" "plain_char c" using pipes_starts_plain [OF False] Cons.prems(2) by auto
    have r1: "ls_rest st1 = CHR ''|'' # c # r" using st1(2) False c by (simp add: rest_def)
    have "len - length (ls_rest st1) = pos + length w"
      using Cons.prems(6) False c by (simp add: r1 pipes_Cons)
    with lex_step_pipe [OF r1 c(2) st1(3), of len] st1(4) Cons.prems(5)
    obtain st2 where st2: "lex_step len st1 = Inr st2" "ls_rest st2 = pipes ws" "\<not> in_double_bracket st2"
      "ls_tokens st2 = ls_tokens st1 @
        [\<lparr>tok_kind = Tok_shell_pipe, tok_text = ''|'', tok_raw = ''|'', tok_pos = pos + length w\<rparr>]"
      using c by auto
    have l2: "lex_loop len st1 = lex_loop len st2"
      using st2(1) r1 by (simp add: lex_loop.simps [of len st1])
    have "lex_loop len st2 = Inr (ls_tokens st2 @ pattern_tokens (pos + length w + 1) ws)"
      using Cons.prems st1(4) st2 False by (intro Cons.IH) (auto simp: pipes_Cons)
    then show ?thesis
      using l1 l2 st1(4) st2(4) False by (simp add: pattern_tokens_Cons)
  qed
qed simp

lemma trim_no_space: "list_all (\<lambda>c. \<not> c_isspace c) w \<Longrightarrow> trim_text w = w"
proof -
  assume w: "list_all (\<lambda>c. \<not> c_isspace c) w"
  then have "dropWhile c_isspace w = w" "dropWhile c_isspace (rev w) = rev w"
    by (auto simp: dropWhile_eq_self_iff list_all_iff hd_in_set) (metis hd_in_set rev_is_Nil_conv set_rev)
  then show ?thesis by (simp add: trim_text_def)
qed

text \<open>A plain alternative is kept as it is.\<close>

lemma plain_range:
  assumes "plain_word w" and "drop (length pre) s = w @ post" and "n = length pre"
  shows "keep_pattern ps (copy_trimmed_range s n (n + length w)) = ps @ [w]"
proof -
  have "list_all (\<lambda>c. \<not> c_isspace c) w" and q: "list_all (\<lambda>c. c \<noteq> dquote \<and> c \<noteq> squote) w"
    using assms(1) plain_char_not by (auto simp: plain_word_def list_all_iff)
  moreover have "length w < max_line" using assms(1) by (simp add: plain_word_def max_token_def max_line_def)
  ultimately have "copy_trimmed_range s n (n + length w) = w"
    using assms(2,3) by (simp add: copy_trimmed_range_def trim_no_space)
  moreover have "w \<noteq> []" using assms(1) by (simp add: plain_word_def)
  moreover have "strip_matching_quotes w = w"
    using q \<open>w \<noteq> []\<close> by (auto simp: strip_matching_quotes_def list_all_iff)
  ultimately show ?thesis by (simp add: keep_pattern_def)
qed

lemma split_plain:
  "ws \<noteq> [] \<Longrightarrow> list_all plain_word ws \<Longrightarrow> length ps + length ws \<le> max_case_branches \<Longrightarrow> n = length pre \<Longrightarrow>
   split_alternatives (pre @ pipes ws) n ps (pattern_tokens n ws) = Some (ps @ ws)"
proof (induction ws arbitrary: pre ps n)
  case (Cons w ws)
  have w: "plain_word w" using Cons.prems(2) by simp
  show ?case
  proof (cases "ws = []")
    case True
    then show ?thesis
      using Cons.prems plain_range [OF w, of pre "pre @ w" "[]" n ps] by simp
  next
    case False
    have "keep_pattern ps (copy_trimmed_range (pre @ pipes (w # ws)) n (n + length w)) = ps @ [w]"
      using plain_range [OF w, of pre _ "CHR ''|'' # pipes ws" n ps] Cons.prems(4) False by (simp add: pipes_Cons)
    moreover have "split_alternatives ((pre @ w @ ''|'') @ pipes ws) (n + length w + 1) (ps @ [w])
        (pattern_tokens (n + length w + 1) ws) = Some ((ps @ [w]) @ ws)"
      using Cons.prems False by (intro Cons.IH) auto
    ultimately show ?thesis using Cons.prems(3) False by (simp add: pattern_tokens_Cons pipes_Cons)
  qed
qed simp

lemma split_pipes:
  assumes "ws \<noteq> []" and "list_all plain_word ws" and "length ws \<le> max_case_branches"
  shows "split_case_pattern_alternatives (pipes ws) = Some ws"
proof -
  have "arksh_lex_line (pipes ws) = Inr ([] @ pattern_tokens 0 ws)"
    unfolding arksh_lex_line_def
    using lex_loop_pipes [where pos = 0 and len = "length (pipes ws)" and ws = ws and st =
        "\<lparr>ls_tokens = [], in_double_bracket = False, command_word_allowed = True,
          pending_redirect_target = False, ls_rest = pipes ws\<rparr>"] assms
    by (simp add: max_case_branches_def max_lexer_tokens_def)
  then show ?thesis
    using split_plain [of ws "[]" 0 "[]"] assms by (simp add: split_case_pattern_alternatives_def)
qed

lemma case_loop_find:
  "case_loop exec rendered bs shell =
     (case find (\<lambda>b. case_branch_matches (cb_patterns b) rendered) bs of
        None \<Rightarrow> Some (shell, [], 0)
      | Some b \<Rightarrow> if cb_body b = [] then Some (shell, [], 0) else exec shell (cb_body b))"
  by (induction bs) auto

text \<open>
  (C19) A \<open>case\<close> whose branches are words joined by \<open>|\<close> runs the first branch one of whose words,
  read as a pattern, matches the value, and no other; with no such branch, and for an empty body,
  nothing runs and the status is 0.
\<close>

theorem case_runs_first_match:
  assumes "sv_alloc_ok sv shell ''case value''"
    and "evaluate_switch_operand sv (case_expression command) shell = Some (shell1, Inr v)"
    and "sv_render sv v = Some rendered"
    and "case_branches command = map (\<lambda>(ws, body). \<lparr>cb_patterns = pipes ws, cb_body = body\<rparr>) alts"
    and "\<forall>(ws, body) \<in> set alts. ws \<noteq> [] \<and> list_all plain_word ws \<and> length ws \<le> max_case_branches"
  shows "execute_case_command sv exec command shell =
    (case find (\<lambda>(ws, body). \<exists>w \<in> set ws. pmatch (case_elems w) rendered) alts of
       None \<Rightarrow> Some (shell1, [], 0)
     | Some (ws, body) \<Rightarrow> if body = [] then Some (shell1, [], 0) else exec shell1 body)"
proof -
  have "case_loop exec rendered (map (\<lambda>(ws, body). \<lparr>cb_patterns = pipes ws, cb_body = body\<rparr>) alts) shell1 =
    (case find (\<lambda>(ws, body). \<exists>w \<in> set ws. pmatch (case_elems w) rendered) alts of
       None \<Rightarrow> Some (shell1, [], 0)
     | Some (ws, body) \<Rightarrow> if body = [] then Some (shell1, [], 0) else exec shell1 body)"
    using assms(5)
  proof (induction alts)
    case (Cons a alts)
    obtain ws body where a: "a = (ws, body)" by (cases a)
    have "case_branch_matches (pipes ws) rendered = (\<exists>w \<in> set ws. pmatch (case_elems w) rendered)"
      using Cons.prems a split_pipes [of ws]
      by (simp add: case_branch_matches_def shell_pattern_matches_elems list_ex_iff)
    then show ?case using Cons a by simp
  qed simp
  then show ?thesis using assms(1-4) by (simp add: execute_case_command_def)
qed

theorem case_runs_first_match_witness:
  "execute_case_command (table_services echo_commands []) (execute_line (table_services echo_commands []) 1)
     \<lparr>case_expression = ''x.txt'', case_branches =
        [\<lparr>cb_patterns = ''a|b'', cb_body = ''echo no''\<rparr>, \<lparr>cb_patterns = ''y|*.txt'', cb_body = ''echo hit''\<rparr>]\<rparr> start_shell =
   execute_line (table_services echo_commands []) 1 start_shell ''echo hit''"
proof -
  let ?sv = "table_services echo_commands [] :: (unit, unit, string, unit) services"
  let ?alts = "[([''a'', ''b''], ''echo no''), ([''y'', ''*.txt''], ''echo hit'')]"
  have op: "evaluate_switch_operand ?sv ''x.txt'' start_shell = Some (start_shell, Inr ''x.txt'')"
    by (simp add: evaluate_switch_operand_def expand_single_word_def table_services_def basic_services_def copy_string_def max_token_def c_isspace_def)
  have words: "list_all plain_word [''a'', ''b'', ''y'', ''*.txt'']" by code_simp
  have m: "\<not> pmatch (case_elems ''a'') ''x.txt''" "\<not> pmatch (case_elems ''b'') ''x.txt''"
    "pmatch (case_elems ''*.txt'') ''x.txt''" by code_simp+
  show ?thesis
    using case_runs_first_match [of ?sv start_shell "\<lparr>case_expression = ''x.txt'', case_branches =
        [\<lparr>cb_patterns = ''a|b'', cb_body = ''echo no''\<rparr>, \<lparr>cb_patterns = ''y|*.txt'', cb_body = ''echo hit''\<rparr>]\<rparr>"
      start_shell "''x.txt''" "''x.txt''" ?alts] op words m
    by (simp add: table_services_def basic_services_def max_case_branches_def)
qed

end
