(* ===== verification/Prefix_Assign.thy ===== *)
theory Prefix_Assign
  imports Exec_Frame
begin

text \<open>
  Assignments in front of a command, \<open>X=1 cmd\<close>: the command and the programs it starts see them, and
  afterwards the names have their old values again.  The saved values are kept in token buffers and restored in the order
  they were saved, so long values and repeated names do not come back; and the names stay exported.
\<close>

subsection \<open>Room in the innermost scope\<close>

definition scope_count :: "vshell \<Rightarrow> nat" where
  "scope_count vt = (case frames vt of [] \<Rightarrow> length (entries (vars vt)) | f # fs \<Rightarrow> length (entries (f_vars f)))"

lemma reserve_entry_count:
  "reserve_entry mem sz blank name t0 = Some (i, t) \<Longrightarrow> length (entries t) \<le> Suc (length (entries t0))"
  by (auto simp: reserve_entry_def split: option.splits)

lemma set_var_count: "scope_count (snd (arksh_shell_set_var mem vt name v ex)) \<le> Suc (scope_count vt)"
  by (auto simp: arksh_shell_set_var_def scope_count_def set_process_env_def Let_def
      split: list.split option.split prod.split dest: reserve_entry_count)

lemma unset_var_count: "scope_count (snd (arksh_shell_unset_var mem vt name)) \<le> Suc (scope_count vt)"
  by (auto simp: arksh_shell_unset_var_def scope_count_def unset_process_env_def sync_visible_var_env_def
      set_process_env_def Let_def split: list.split option.split prod.split dest: reserve_entry_count)

lemma scope_room_count: "scope_count vt < max_shell_vars \<Longrightarrow> scope_room vt name"
  by (auto simp: scope_count_def scope_room_def split: list.splits)

text \<open>With room and memory, assigning and unsetting a valid name succeed.\<close>

lemma set_var_get:
  assumes "is_valid_identifier name" and "length name < 64" and "\<forall>n. realloc_ok mem n"
    and "\<forall>n v. setenv_ok mem n v" and "scope_count vt < max_shell_vars"
  shows "arksh_shell_get_var (snd (arksh_shell_set_var mem vt name v ex)) =
      (arksh_shell_get_var vt)(name \<mapsto> copy_string max_var_value v) \<and>
    (tables_ok vt \<longrightarrow> tables_ok (snd (arksh_shell_set_var mem vt name v ex)))"
proof -
  obtain st vt' where r: "arksh_shell_set_var mem vt name v ex = (st, vt')" by fastforce
  have "st = 0" using set_var_succeeds [OF assms(1,3,4) scope_room_count [OF assms(5)], of v ex] r by simp
  then obtain ef where "assigned vt name (copy_string max_var_value v) ef vt'"
    using set_var_effect [OF assms(2,4) r] by auto
  with assigned_get_var [OF this] r valid_identifier_ne [OF assms(1)] show ?thesis by (simp add: assigned_def)
qed

lemma unset_var_succeeds:
  assumes "is_valid_identifier name" and "\<forall>n. realloc_ok mem n" and "\<forall>n v. setenv_ok mem n v"
    and "scope_room vt name"
  shows "fst (arksh_shell_unset_var mem vt name) = 0"
proof (cases "frames vt")
  case (Cons f fs)
  then obtain i t where "reserve_entry mem 1096 blank_scoped_var name (f_vars f) = Some (i, t)"
    using reserve_entry_total [OF assms(2), of 1096 "f_vars f" name blank_scoped_var] assms(4)
    by (auto simp: scope_room_def)
  then show ?thesis
    using Cons assms(1,3)
    by (simp add: arksh_shell_unset_var_def Let_def sync_visible_var_env_def set_process_env_def
        split: prod.split option.split)
qed (simp add: arksh_shell_unset_var_def assms(1) Let_def)

lemma unset_var_get:
  assumes "is_valid_identifier name" and "length name < 64" and "\<forall>n. realloc_ok mem n"
    and "\<forall>n v. setenv_ok mem n v" and "scope_count vt < max_shell_vars" and "tables_ok vt"
  shows "arksh_shell_get_var (snd (arksh_shell_unset_var mem vt name)) = (arksh_shell_get_var vt)(name := None) \<and>
    tables_ok (snd (arksh_shell_unset_var mem vt name))"
proof -
  obtain st vt' where r: "arksh_shell_unset_var mem vt name = (st, vt')" by fastforce
  have "st = 0" using unset_var_succeeds [OF assms(1,3,4) scope_room_count [OF assms(5)]] r by simp
  then have "removed vt name vt'" using unset_var_effect [OF assms(6,2,4) r] by auto
  with removed_get_var [OF this] r show ?thesis by (simp add: removed_def)
qed

text \<open>An exporting assignment also reaches the environment of child processes.\<close>

lemma set_var_exports:
  assumes "is_valid_identifier name" and "length name < 64" and "\<forall>n. realloc_ok mem n"
    and "\<forall>n v. setenv_ok mem n v" and "scope_count vt < max_shell_vars"
  shows "visible_var (snd (arksh_shell_set_var mem vt name v True)) =
      (visible_var vt)(name := (True, Some (copy_string max_var_value v), True)) \<and>
    env (snd (arksh_shell_set_var mem vt name v True)) = (env vt)(name \<mapsto> copy_string max_var_value v)"
proof -
  obtain st vt' where r: "arksh_shell_set_var mem vt name v True = (st, vt')" by fastforce
  have "st = 0" using set_var_succeeds [OF assms(1,3,4) scope_room_count [OF assms(5)], of v True] r by simp
  then have "assigned vt name (copy_string max_var_value v) True vt'"
    using set_var_effect [OF assms(2,4) r] by (metis (full_types) one_neq_zero)
  then show ?thesis using r by (simp add: assigned_def)
qed

subsection \<open>Saving and restoring\<close>

lemma split_posix_valid: "split_posix_assignment s = Some (name, v) \<Longrightarrow> is_valid_identifier name"
  by (auto simp: split_posix_assignment_def is_valid_identifier_def Let_def is_word_char_def list_all_iff
      split: list.splits if_splits dest: set_takeWhileD)

text \<open>The assignments of a prefix, each name with its value.\<close>

definition good_memory :: "memory \<Rightarrow> bool" where
  "good_memory mem \<longleftrightarrow> (\<forall>n. realloc_ok mem n) \<and> (\<forall>n v. setenv_ok mem n v)"

lemma good_memoryD:
  assumes "good_memory mem"
  shows "\<forall>n. realloc_ok mem n" and "\<forall>n v. setenv_ok mem n v"
  using assms unfolding good_memory_def by blast+

lemma save_prefix_effect:
  assumes "good_memory mem"
  shows "map split_posix_assignment args = map Some asg \<Longrightarrow> distinct (map fst asg) \<Longrightarrow>
    \<forall>(n, v) \<in> set asg. length n < 64 \<Longrightarrow> scope_count vt + length asg \<le> max_shell_vars \<Longrightarrow>
    fst (save_prefix mem args vt) =
      map (\<lambda>(n, v). (n, map_option (copy_string max_token) (arksh_shell_get_var vt n))) asg \<and>
    arksh_shell_get_var (snd (save_prefix mem args vt)) =
      (arksh_shell_get_var vt) ++ map_of (map (\<lambda>(n, v). (n, copy_string max_var_value v)) asg)"
proof (induction args arbitrary: asg vt)
  case (Cons arg args)
  then obtain n v rest where asg: "asg = (n, v) # rest" "split_posix_assignment arg = Some (n, v)"
    "map split_posix_assignment args = map Some rest" by (cases asg) auto
  define vt1 where "vt1 = snd (arksh_shell_set_var mem vt n v True)"
  have g: "arksh_shell_get_var vt1 = (arksh_shell_get_var vt)(n \<mapsto> copy_string max_var_value v)"
    using set_var_get [OF split_posix_valid [OF asg(2)] _ good_memoryD [OF assms], of vt v True] Cons.prems
    by (simp add: vt1_def asg(1))
  have "scope_count vt1 + length rest \<le> max_shell_vars"
    using set_var_count [of mem vt n v True] Cons.prems(4) by (simp add: vt1_def asg(1))
  with Cons.IH [OF asg(3), of vt1] Cons.prems(2,3) asg(1)
  have ih: "fst (save_prefix mem args vt1) =
      map (\<lambda>(n, v). (n, map_option (copy_string max_token) (arksh_shell_get_var vt1 n))) rest"
    "arksh_shell_get_var (snd (save_prefix mem args vt1)) =
      (arksh_shell_get_var vt1) ++ map_of (map (\<lambda>(n, v). (n, copy_string max_var_value v)) rest)"
    by auto
  have fresh: "n \<notin> fst ` set rest" using Cons.prems(2) asg(1) by auto
  have step: "save_prefix mem (arg # args) vt =
      ((n, map_option (copy_string max_token) (arksh_shell_get_var vt n)) # fst (save_prefix mem args vt1),
       snd (save_prefix mem args vt1))"
    using asg(2) by (simp add: vt1_def Let_def split: prod.split)
  have "fst (save_prefix mem args vt1) =
      map (\<lambda>(m, v). (m, map_option (copy_string max_token) (arksh_shell_get_var vt m))) rest"
    using fresh unfolding ih(1) by (auto simp: g rev_image_eqI)
  moreover have "map_of (map (\<lambda>(m, v). (m, copy_string max_var_value v)) rest) n = None"
    using fresh by (auto simp: map_of_eq_None_iff image_iff)
  then have "arksh_shell_get_var (snd (save_prefix mem args vt1)) =
      (arksh_shell_get_var vt) ++ map_of (map (\<lambda>(m, v). (m, copy_string max_var_value v)) asg)"
    unfolding ih(2) g asg(1) by (auto simp: fun_eq_iff map_add_def split: option.splits)
  ultimately show ?case unfolding step asg(1) by (simp add: fun_eq_iff map_add_def split: option.split)
qed simp

lemma save_prefix_exports:
  assumes "good_memory mem"
  shows "map split_posix_assignment args = map Some asg \<Longrightarrow> distinct (map fst asg) \<Longrightarrow>
    \<forall>(n, v) \<in> set asg. length n < 64 \<Longrightarrow> scope_count vt + length asg \<le> max_shell_vars \<Longrightarrow>
    (case map_of asg x of
       None \<Rightarrow> visible_var (snd (save_prefix mem args vt)) x = visible_var vt x \<and> env (snd (save_prefix mem args vt)) x = env vt x
     | Some v \<Rightarrow> visible_var (snd (save_prefix mem args vt)) x = (True, Some (copy_string max_var_value v), True) \<and>
         env (snd (save_prefix mem args vt)) x = Some (copy_string max_var_value v))"
proof (induction args arbitrary: asg vt)
  case (Cons arg args)
  then obtain n v rest where asg: "asg = (n, v) # rest" "split_posix_assignment arg = Some (n, v)"
    "map split_posix_assignment args = map Some rest" by (cases asg) auto
  define vt1 where "vt1 = snd (arksh_shell_set_var mem vt n v True)"
  have g: "visible_var vt1 = (visible_var vt)(n := (True, Some (copy_string max_var_value v), True))"
    "env vt1 = (env vt)(n \<mapsto> copy_string max_var_value v)"
    using set_var_exports [OF split_posix_valid [OF asg(2)] _ good_memoryD [OF assms], of vt v] Cons.prems
    by (simp_all add: vt1_def asg(1))
  have "scope_count vt1 + length rest \<le> max_shell_vars"
    using set_var_count [of mem vt n v True] Cons.prems(4) by (simp add: vt1_def asg(1))
  note ih = Cons.IH [OF asg(3) _ _ this]
  have step: "snd (save_prefix mem (arg # args) vt) = snd (save_prefix mem args vt1)"
    using asg(2) by (simp add: vt1_def Let_def split: prod.split)
  have fresh: "map_of rest n = None" using Cons.prems(2) by (auto simp: asg(1) map_of_eq_None_iff)
  have rest: "distinct (map fst rest)" "\<forall>(n, v) \<in> set rest. length n < 64" using Cons.prems(2,3) by (auto simp: asg(1))
  show ?case
  proof (cases "x = n")
    case True
    then show ?thesis unfolding step using ih [OF rest] fresh by (simp add: asg(1) g)
  next
    case False
    then have "map_of asg x = map_of rest x" "visible_var vt1 x = visible_var vt x" "env vt1 x = env vt x"
      by (simp_all add: asg(1) g)
    then show ?thesis unfolding step using ih [OF rest] by (simp only:)
  qed
qed simp

lemma restore_prefix_effect:
  assumes "good_memory mem"
  shows "distinct (map fst saved) \<Longrightarrow> \<forall>(n, x) \<in> set saved. is_valid_identifier n \<and> length n < 64 \<Longrightarrow>
    tables_ok vt \<Longrightarrow> scope_count vt + length saved \<le> max_shell_vars \<Longrightarrow>
    arksh_shell_get_var (restore_prefix mem saved vt) n =
      (case map_of saved n of
         None \<Rightarrow> arksh_shell_get_var vt n
       | Some x \<Rightarrow> map_option (copy_string max_var_value) x)"
proof (induction saved arbitrary: vt)
  case (Cons p rest)
  obtain m x where p: "p = (m, x)" by (cases p)
  define vt1 where "vt1 = (case x of Some v \<Rightarrow> snd (arksh_shell_set_var mem vt m v False)
    | None \<Rightarrow> snd (arksh_shell_unset_var mem vt m))"
  have g: "arksh_shell_get_var vt1 = (arksh_shell_get_var vt)(m := map_option (copy_string max_var_value) x)"
    and t: "tables_ok vt1"
    using set_var_get [OF _ _ good_memoryD [OF assms], of m vt _ False]
      unset_var_get [OF _ _ good_memoryD [OF assms], of m vt] Cons.prems p
    by (auto simp: vt1_def split: option.splits)
  have "scope_count vt1 \<le> Suc (scope_count vt)"
    by (auto simp: vt1_def set_var_count unset_var_count split: option.split)
  with Cons.IH [of vt1] Cons.prems p t have
    "arksh_shell_get_var (restore_prefix mem rest vt1) n =
      (case map_of rest n of
         None \<Rightarrow> arksh_shell_get_var vt1 n
       | Some x \<Rightarrow> map_option (copy_string max_var_value) x)" by simp
  moreover have "restore_prefix mem (p # rest) vt = restore_prefix mem rest vt1"
    by (cases x) (simp_all add: p vt1_def)
  moreover have "map_of rest m = None" using Cons.prems(1) p by (simp add: map_of_eq_None_iff)
  ultimately show ?case by (auto simp: g p split: option.splits)
qed simp

lemma prefix_split:
  assumes "map split_posix_assignment assigns = map Some asg" and "split_posix_assignment cmd = None"
  shows "takeWhile (\<lambda>a. \<exists>y. split_posix_assignment a = Some y) (assigns @ cmd # args) = assigns \<and>
    dropWhile (\<lambda>a. \<exists>y. split_posix_assignment a = Some y) (assigns @ cmd # args) = cmd # args"
proof -
  have "\<exists>y. split_posix_assignment a = Some y" if "a \<in> set assigns" for a
  proof -
    have "split_posix_assignment a \<in> set (map Some asg)" using that unfolding assms(1) [symmetric] by simp
    then show ?thesis by auto
  qed
  then show ?thesis using assms(2) by (simp add: takeWhile_append dropWhile_append)
qed

lemma restore_saved:
  assumes "good_memory mem" and "map split_posix_assignment assigns = map Some asg" and "distinct (map fst asg)"
    and "\<forall>(n, v) \<in> set asg. length n < 64"
    and "\<forall>(n, v) \<in> set asg. \<forall>old. arksh_shell_get_var vt n = Some old \<longrightarrow> length old < max_token"
    and "tables_ok vt2" and "scope_count vt2 + length asg \<le> max_shell_vars"
  shows "arksh_shell_get_var (restore_prefix mem
      (map (\<lambda>(n, v). (n, map_option (copy_string max_token) (arksh_shell_get_var vt n))) asg) vt2) n =
    (if n \<in> fst ` set asg then arksh_shell_get_var vt n else arksh_shell_get_var vt2 n)"
proof -
  let ?saved = "map (\<lambda>(n, v). (n, map_option (copy_string max_token) (arksh_shell_get_var vt n))) asg"
  have "is_valid_identifier n" if "(n, v) \<in> set asg" for n v
  proof -
    have "Some (n, v) \<in> set (map split_posix_assignment assigns)" using that by (simp add: assms(2))
    then show ?thesis by (auto dest!: sym [of "Some (n, v)"] intro: split_posix_valid)
  qed
  then have "arksh_shell_get_var (restore_prefix mem ?saved vt2) n =
    (case map_of ?saved n of None \<Rightarrow> arksh_shell_get_var vt2 n | Some x \<Rightarrow> map_option (copy_string max_var_value) x)"
    using assms(1,3,4,6,7) by (intro restore_prefix_effect) (auto simp: case_prod_unfold comp_def)
  moreover have "map_of ?saved n = (if n \<in> fst ` set asg
      then Some (map_option (copy_string max_token) (arksh_shell_get_var vt n)) else None)"
    by (induction asg) auto
  moreover have "map_option (copy_string max_var_value) (map_option (copy_string max_token) (arksh_shell_get_var vt n))
      = arksh_shell_get_var vt n" if "n \<in> fst ` set asg"
    using that assms(5) by (cases "arksh_shell_get_var vt n") (fastforce simp: max_var_value_def max_token_def)+
  ultimately show ?thesis by simp
qed

text \<open>
  (C21) Assignments in front of a command hold for the command, and their values are undone afterwards:
  the command runs with every name of the prefix set to its value and exported, so it is in the
  environment of the programs the command starts; when the command returns every such name reads as
  before, or is unknown as before, while every other name is as the command left it.  The output and
  the status are the command's.  The names are distinct and shorter than 64 characters, their old
  values shorter than 256, and the innermost scope has room for them.  Only the values are undone: a
  name that had a value stays exported.
\<close>

theorem prefix_assignments_restored:
  assumes "good_memory (sv_mem sv)" and "hd raw \<noteq> ''[[''"
    and "expand_command_arguments sv raw shell = Some (shell1, Inr (assigns @ cmd # args))"
    and "map split_posix_assignment assigns = map Some asg" and "assigns \<noteq> []"
    and "split_posix_assignment cmd = None" and "parse_assoc_assignment cmd = None"
    and "distinct (map fst asg)" and "\<forall>(n, v) \<in> set asg. length n < 64"
    and "\<forall>(n, v) \<in> set asg. \<forall>old. arksh_shell_get_var (vs shell1) n = Some old \<longrightarrow> length old < max_token"
    and "scope_count (vs shell1) + length asg \<le> max_shell_vars"
  shows "let vt = snd (save_prefix (sv_mem sv) assigns (vs shell1)) in
    arksh_shell_get_var vt =
      (arksh_shell_get_var (vs shell1)) ++ map_of (map (\<lambda>(n, v). (n, copy_string max_var_value v)) asg) \<and>
    (\<forall>(n, v) \<in> set asg. exported_value vt n = Some (copy_string max_var_value v) \<and>
       env vt n = Some (copy_string max_var_value v)) \<and>
    (\<forall>n. n \<notin> fst ` set asg \<longrightarrow> exported_value vt n = exported_value (vs shell1) n \<and> env vt n = env (vs shell1) n) \<and>
    (\<forall>shell2 out st. dispatch_command sv exec (cmd # args) (shell1\<lparr>vs := vt\<rparr>) = Some (shell2, out, st) \<and>
       tables_ok (vs shell2) \<and> scope_count (vs shell2) + length asg \<le> max_shell_vars \<longrightarrow>
       (\<exists>shell'. execute_simple_command sv exec raw shell = Some (shell', out, st) \<and>
          (\<forall>n. arksh_shell_get_var (vs shell') n =
            (if n \<in> fst ` set asg then arksh_shell_get_var (vs shell1) n else arksh_shell_get_var (vs shell2) n))))"
proof -
  let ?mem = "sv_mem sv"
  obtain saved vt where sp: "save_prefix ?mem assigns (vs shell1) = (saved, vt)" by fastforce
  have saved: "saved = map (\<lambda>(n, v). (n, map_option (copy_string max_token) (arksh_shell_get_var (vs shell1) n))) asg"
    and seen: "arksh_shell_get_var vt =
      (arksh_shell_get_var (vs shell1)) ++ map_of (map (\<lambda>(n, v). (n, copy_string max_var_value v)) asg)"
    using save_prefix_effect [OF assms(1,4,8,9,11)] sp by auto
  note exports = save_prefix_exports [OF assms(1,4,8,9,11)]
  have inside: "exported_value vt n = Some (copy_string max_var_value v) \<and> env vt n = Some (copy_string max_var_value v)"
    if "(n, v) \<in> set asg" for n v
    using exports [of n] that assms(8) sp by (simp add: exported_value_def)
  have outside: "exported_value vt n = exported_value (vs shell1) n \<and> env vt n = env (vs shell1) n"
    if "n \<notin> fst ` set asg" for n
  proof -
    have "map_of asg n = None" using that by (simp add: map_of_eq_None_iff)
    then show ?thesis using exports [of n] sp by (simp add: exported_value_def)
  qed
  have restored: "arksh_shell_get_var (restore_prefix ?mem saved vt2) n =
      (if n \<in> fst ` set asg then arksh_shell_get_var (vs shell1) n else arksh_shell_get_var vt2 n)"
    if "tables_ok vt2" "scope_count vt2 + length asg \<le> max_shell_vars" for vt2 n
    using restore_saved [OF assms(1,4,8-10) that] saved by simp
  have run: "execute_simple_command sv exec raw shell =
      Some (shell2\<lparr>vs := restore_prefix ?mem saved (vs shell2)\<rparr>, out, st)"
    if "dispatch_command sv exec (cmd # args) (shell1\<lparr>vs := vt\<rparr>) = Some (shell2, out, st)" for shell2 out st
    unfolding execute_simple_command_def
    using assms(2,3,5-7) sp that prefix_split [OF assms(4,6)] by (simp add: Let_def)
  have after: "\<forall>shell2 out st. dispatch_command sv exec (cmd # args) (shell1\<lparr>vs := vt\<rparr>) = Some (shell2, out, st) \<and>
       tables_ok (vs shell2) \<and> scope_count (vs shell2) + length asg \<le> max_shell_vars \<longrightarrow>
       (\<exists>shell'. execute_simple_command sv exec raw shell = Some (shell', out, st) \<and>
          (\<forall>n. arksh_shell_get_var (vs shell') n =
            (if n \<in> fst ` set asg then arksh_shell_get_var (vs shell1) n else arksh_shell_get_var (vs shell2) n)))"
    using restored run by fastforce
  show ?thesis using seen inside outside after by (simp add: sp Let_def split_beta)
qed

lemma echo_expand:
  "expand_command_arguments (table_services echo_commands []) [''X=1'', ''run''] start_shell =
     Some (start_shell, Inr ([''X=1''] @ ''run'' # []))"
  by (simp add: expand_command_arguments_def table_services_def basic_services_def copy_string_def max_token_def max_args_def)

lemma echo_dispatch:
  "dispatch_command (table_services echo_commands []) exec [''run''] (start_shell\<lparr>vs := vt\<rparr>) =
     Some (start_shell\<lparr>vs := vt\<rparr>, [], 0)"
proof -
  have "arksh_shell_find_function (empty_shell :: unit shell) ''run'' = None" by code_simp
  moreover have "arksh_shell_find_command (empty_shell :: unit shell) ''run'' = None" by code_simp
  ultimately show ?thesis
    by (simp add: dispatch_command_def start_shell_def table_services_def basic_services_def echo_commands_def)
qed

theorem prefix_assignments_restored_witness:
  "env (snd (save_prefix plenty [''X=1''] login_shell)) ''X'' = Some ''1'' \<and>
   (\<exists>shell'. execute_simple_command (table_services echo_commands [])
       (execute_line (table_services echo_commands []) 1) [''X=1'', ''run''] start_shell = Some (shell', [], 0) \<and>
     arksh_shell_get_var (vs shell') ''X'' = None)"
proof -
  let ?sv = "table_services echo_commands [] :: (unit, unit, string, unit) services"
  let ?exec = "execute_line ?sv 1"
  have split: "split_posix_assignment ''X=1'' = Some (''X'', ''1'')" "split_posix_assignment ''run'' = None"
    "parse_assoc_assignment ''run'' = None" by code_simp+
  have mem: "sv_mem ?sv = plenty" "good_memory plenty" "vs start_shell = login_shell"
    by (simp_all add: table_services_def basic_services_def good_memory_def plenty_ok start_shell_def)
  have old: "arksh_shell_get_var login_shell ''X'' = None" by code_simp
  have room: "scope_count login_shell + 1 \<le> max_shell_vars"
    "tables_ok (snd (save_prefix plenty [''X=1''] login_shell))"
    "scope_count (snd (save_prefix plenty [''X=1''] login_shell)) + 1 \<le> max_shell_vars" by code_simp+
  have cut: "copy_string max_var_value ''1'' = ''1''" by (simp add: max_var_value_def)
  show ?thesis
    using prefix_assignments_restored [of ?sv "[''X=1'', ''run'']" start_shell start_shell "[''X=1'']" "''run''" "[]"
        "[(''X'', ''1'')]" ?exec] echo_expand echo_dispatch mem split old room cut
    by (auto simp: Let_def)
qed

text \<open>
  What does not come back: with \<open>X\<close> set to \<open>0\<close>, a command after \<open>X=1 X=2\<close> leaves \<open>X\<close> at \<open>1\<close>, since the
  second assignment saves the value of the first and is restored last; after \<open>X=1\<close> the variable stays
  exported, so later commands see it in their environment; and an old value of 300 characters comes
  back cut to 255.
\<close>

definition x_set :: "string \<Rightarrow> vshell" where
  "x_set v = snd (arksh_shell_set_var plenty login_shell ''X'' v False)"

definition after_prefix :: "string list \<Rightarrow> vshell \<Rightarrow> vshell" where
  "after_prefix assigns vt = (case save_prefix plenty assigns vt of (saved, vt1) \<Rightarrow> restore_prefix plenty saved vt1)"

theorem prefix_assignments_left_behind:
  "arksh_shell_get_var (x_set ''0'') ''X'' = Some ''0'' \<and>
   arksh_shell_get_var (after_prefix [''X=1'', ''X=2''] (x_set ''0'')) ''X'' = Some ''1'' \<and>
   exported_value (x_set ''0'') ''X'' = None \<and>
   exported_value (after_prefix [''X=1''] (x_set ''0'')) ''X'' = Some ''0'' \<and>
   arksh_shell_get_var (after_prefix [''X=1''] (x_set (replicate 300 CHR ''a''))) ''X'' = Some (replicate 255 CHR ''a'')"
proof (intro conjI)
  show "arksh_shell_get_var (x_set ''0'') ''X'' = Some ''0''" by code_simp
  show "arksh_shell_get_var (after_prefix [''X=1'', ''X=2''] (x_set ''0'')) ''X'' = Some ''1''" by code_simp
  show "exported_value (x_set ''0'') ''X'' = None" by code_simp
  show "exported_value (after_prefix [''X=1''] (x_set ''0'')) ''X'' = Some ''0''" by code_simp
  show "arksh_shell_get_var (after_prefix [''X=1''] (x_set (replicate 300 CHR ''a''))) ''X'' = Some (replicate 255 CHR ''a'')"
    by code_simp
qed

end
