(* ===== verification/Parser_Text.thy ===== *)
theory Parser_Text
  imports Simple_Command
begin

text \<open>
  The text scanners of \<^verbatim>\<open>src/parser.c\<close>: trimmed slices of a line, nesting of brackets, keywords and the
  places where commands start, matching delimiters, and the bodies of here-documents.  The names of
  token kinds and the texts of lexer errors are those of \<^verbatim>\<open>src/lexer.c\<close>.
\<close>

subsection \<open>Names and messages\<close>

fun arksh_token_kind_name :: "token_kind \<Rightarrow> string" where
  "arksh_token_kind_name Tok_eof = ''eof''"
| "arksh_token_kind_name Tok_word = ''word''"
| "arksh_token_kind_name Tok_string = ''string''"
| "arksh_token_kind_name Tok_arrow = ''arrow''"
| "arksh_token_kind_name Tok_object_pipe = ''object-pipe''"
| "arksh_token_kind_name Tok_shell_pipe = ''shell-pipe''"
| "arksh_token_kind_name Tok_redirect_in = ''redirect-in''"
| "arksh_token_kind_name Tok_redirect_out = ''redirect-out''"
| "arksh_token_kind_name Tok_redirect_append = ''redirect-append''"
| "arksh_token_kind_name Tok_proc_subst_in = ''proc-subst-in''"
| "arksh_token_kind_name Tok_proc_subst_out = ''proc-subst-out''"
| "arksh_token_kind_name Tok_here_string = ''here-string''"
| "arksh_token_kind_name Tok_heredoc = ''heredoc''"
| "arksh_token_kind_name Tok_heredoc_strip = ''heredoc-strip''"
| "arksh_token_kind_name Tok_redirect_error = ''redirect-error''"
| "arksh_token_kind_name Tok_redirect_error_append = ''redirect-error-append''"
| "arksh_token_kind_name Tok_redirect_error_to_output = ''redirect-error-to-output''"
| "arksh_token_kind_name Tok_redirect_fd_in = ''redirect-fd-in''"
| "arksh_token_kind_name Tok_redirect_fd_out = ''redirect-fd-out''"
| "arksh_token_kind_name Tok_redirect_fd_append = ''redirect-fd-append''"
| "arksh_token_kind_name Tok_redirect_dup_in = ''redirect-dup-in''"
| "arksh_token_kind_name Tok_redirect_dup_out = ''redirect-dup-out''"
| "arksh_token_kind_name Tok_and_if = ''and-if''"
| "arksh_token_kind_name Tok_or_if = ''or-if''"
| "arksh_token_kind_name Tok_sequence = ''sequence''"
| "arksh_token_kind_name Tok_background = ''background''"
| "arksh_token_kind_name Tok_lparen = ''lparen''"
| "arksh_token_kind_name Tok_rparen = ''rparen''"
| "arksh_token_kind_name Tok_comma = ''comma''"
| "arksh_token_kind_name Tok_invalid = ''invalid''"

fun lex_error_text :: "lex_error \<Rightarrow> string" where
  "lex_error_text (Too_long label) = label @ '' too long''"
| "lex_error_text Invalid_arith_start = ''invalid arithmetic expansion start''"
| "lex_error_text Dangling_escape_arith = ''dangling escape in arithmetic expansion''"
| "lex_error_text Unterminated_arith = ''unterminated arithmetic expansion''"
| "lex_error_text Dangling_escape_cmdsubst = ''dangling escape in command substitution''"
| "lex_error_text Unterminated_cmdsubst = ''unterminated command substitution''"
| "lex_error_text Dangling_escape_line = ''dangling escape at end of line''"
| "lex_error_text Dangling_escape_dquote = ''dangling escape inside double quotes''"
| "lex_error_text Unterminated_string = ''unterminated string''"
| "lex_error_text (Invalid_token n) = ''invalid token at position '' @ show_int (int n)"
| "lex_error_text Invalid_procsubst_start = ''invalid process substitution start''"
| "lex_error_text Dangling_escape_procsubst = ''dangling escape in process substitution''"
| "lex_error_text Unterminated_procsubst = ''unterminated process substitution''"
| "lex_error_text Fd_token_too_long = ''fd redirection token too long''"
| "lex_error_text Too_many_tokens = ''too many tokens''"
| "lex_error_text Unterminated_conditional = ''unterminated [[ conditional''"

subsection \<open>Slices\<close>

definition copy_trimmed_slice :: "string \<Rightarrow> nat \<Rightarrow> nat \<Rightarrow> string" where
  "copy_trimmed_slice line start end_pos =
     trim_copy max_line (take (min (end_pos - start) (max_line - 1)) (drop start line))"

lemma trim_text_shorter: "length (trim_text s) \<le> length s"
  unfolding trim_text_def length_rev
  by (rule order_trans [OF length_dropWhile_le]) (simp add: length_dropWhile_le)

text \<open>The loop of \<open>trim_compound_segment\<close>: trailing semicolons go, with the white space before them.\<close>

function strip_semicolons :: "string \<Rightarrow> string" where
  "strip_semicolons s =
     (if s \<noteq> [] \<and> last s = CHR '';'' then strip_semicolons (trim_copy max_line (butlast s)) else s)"
  by pat_completeness auto
termination
proof (relation "measure length")
  fix s :: string
  assume "s \<noteq> [] \<and> last s = CHR '';''"
  then have "length (butlast s) < length s" by simp
  moreover have "length (trim_copy max_line (butlast s)) \<le> length (trim_text (butlast s))"
    by (simp add: trim_copy_def copy_string_def)
  ultimately show "(trim_copy max_line (butlast s), s) \<in> measure length"
    using trim_text_shorter [of "butlast s"] by simp
qed simp

declare strip_semicolons.simps [simp del]

definition trim_compound_segment :: "string \<Rightarrow> nat \<Rightarrow> nat \<Rightarrow> string" where
  "trim_compound_segment line start end_pos = strip_semicolons (copy_trimmed_slice line start end_pos)"

subsection \<open>Nesting\<close>

text \<open>Depths of parentheses, braces and brackets at the end of a text.\<close>

fun nesting_loop :: "char option \<Rightarrow> nat \<Rightarrow> nat \<Rightarrow> nat \<Rightarrow> string \<Rightarrow> nat \<times> nat \<times> nat" where
  "nesting_loop quote parens braces brackets [] = (parens, braces, brackets)"
| "nesting_loop (Some q) parens braces brackets (c # cs) =
     (if c = q then nesting_loop None parens braces brackets cs
      else if q = dquote \<and> c = bslash \<and> cs \<noteq> [] then nesting_loop (Some q) parens braces brackets (tl cs)
      else nesting_loop (Some q) parens braces brackets cs)"
| "nesting_loop None parens braces brackets (c # cs) =
     (if c = dquote \<or> c = squote then nesting_loop (Some c) parens braces brackets cs
      else if c = bslash \<and> cs \<noteq> [] then nesting_loop None parens braces brackets (tl cs)
      else if c = CHR ''('' then nesting_loop None (parens + 1) braces brackets cs
      else if c = CHR '')'' \<and> parens > 0 then nesting_loop None (parens - 1) braces brackets cs
      else if c = CHR ''{'' then nesting_loop None parens (braces + 1) brackets cs
      else if c = CHR ''}'' \<and> braces > 0 then nesting_loop None parens (braces - 1) brackets cs
      else if c = CHR ''['' then nesting_loop None parens braces (brackets + 1) cs
      else if c = CHR '']'' \<and> brackets > 0 then nesting_loop None parens braces (brackets - 1) cs
      else nesting_loop None parens braces brackets cs)"

definition analyze_text_nesting_before :: "string \<Rightarrow> nat \<Rightarrow> nat \<times> nat \<times> nat" where
  "analyze_text_nesting_before text position = nesting_loop None 0 0 0 (take position text)"

definition position_is_inside_nested_structure :: "string \<Rightarrow> nat \<Rightarrow> bool" where
  "position_is_inside_nested_structure text position =
     (case analyze_text_nesting_before text position of (p, b, k) \<Rightarrow> p > 0 \<or> b > 0 \<or> k > 0)"

text \<open>The position of the delimiter that closes the one the text starts with.\<close>

fun delimiter_loop :: "char \<Rightarrow> char \<Rightarrow> char option \<Rightarrow> int \<Rightarrow> nat \<Rightarrow> string \<Rightarrow> nat option" where
  "delimiter_loop opn cls quote depth i [] = None"
| "delimiter_loop opn cls (Some q) depth i (c # cs) =
     (if c = q then delimiter_loop opn cls None depth (i + 1) cs
      else if q = dquote \<and> c = bslash \<and> cs \<noteq> [] then delimiter_loop opn cls (Some q) depth (i + 2) (tl cs)
      else delimiter_loop opn cls (Some q) depth (i + 1) cs)"
| "delimiter_loop opn cls None depth i (c # cs) =
     (if c = dquote \<or> c = squote then delimiter_loop opn cls (Some c) depth (i + 1) cs
      else if c = bslash \<and> cs \<noteq> [] then delimiter_loop opn cls None depth (i + 2) (tl cs)
      else if c = opn then delimiter_loop opn cls None (depth + 1) (i + 1) cs
      else if c = cls then
        (if depth - 1 = 0 then Some i else delimiter_loop opn cls None (depth - 1) (i + 1) cs)
      else delimiter_loop opn cls None depth (i + 1) cs)"

definition find_matching_delimiter :: "string \<Rightarrow> char \<Rightarrow> char \<Rightarrow> nat option" where
  "find_matching_delimiter text opn cls =
     (if text = [] \<or> hd text \<noteq> opn then None else delimiter_loop opn cls None 0 0 text)"

subsection \<open>Token classes and keywords\<close>

definition is_value_token :: "token_kind \<Rightarrow> bool" where
  "is_value_token k \<longleftrightarrow> k \<in> {Tok_word, Tok_string, Tok_proc_subst_in, Tok_proc_subst_out}"

definition is_redirect_token :: "token_kind \<Rightarrow> bool" where
  "is_redirect_token k \<longleftrightarrow>
     k \<in> {Tok_redirect_in, Tok_redirect_out, Tok_redirect_append, Tok_here_string, Tok_heredoc,
          Tok_heredoc_strip, Tok_redirect_error, Tok_redirect_error_append, Tok_redirect_error_to_output,
          Tok_redirect_fd_in, Tok_redirect_fd_out, Tok_redirect_fd_append, Tok_redirect_dup_in,
          Tok_redirect_dup_out}"

definition is_list_control_token :: "token_kind \<Rightarrow> bool" where
  "is_list_control_token k \<longleftrightarrow> k \<in> {Tok_sequence, Tok_and_if, Tok_or_if, Tok_background}"

definition is_identifier_text :: "string \<Rightarrow> bool" where
  "is_identifier_text text =
     (case text of
        [] \<Rightarrow> False
      | c # cs \<Rightarrow> (c_isalpha c \<or> c = CHR ''_'') \<and> list_all (\<lambda>d. c_isalnum d \<or> d = CHR ''_'') cs)"

definition keyword_is_compound_open :: "string \<Rightarrow> bool" where
  "keyword_is_compound_open w \<longleftrightarrow>
     w \<in> {''if'', ''while'', ''until'', ''for'', ''case'', ''switch'', ''function'', ''class'', ''with''}"

definition keyword_is_compound_close :: "string \<Rightarrow> bool" where
  "keyword_is_compound_close w \<longleftrightarrow>
     w \<in> {''fi'', ''done'', ''esac'', ''endswitch'', ''endfunction'', ''endclass'', ''endwith''}"

text \<open>The leading word is copied to a buffer of \<open>ARKSH_MAX_NAME\<close> characters.\<close>

definition starts_with_compound_construct :: "string \<Rightarrow> bool" where
  "starts_with_compound_construct text =
     (let t = dropWhile c_isspace text in
      t \<noteq> [] \<and> (hd t = CHR ''{'' \<or> hd t = CHR ''('') \<or>
      keyword_is_compound_open (take (max_name - 1) (takeWhile (\<lambda>c. \<not> c_isspace c \<and> c \<noteq> CHR '';'') t)))"

definition is_newline :: "char \<Rightarrow> bool" where
  "is_newline c \<longleftrightarrow> c = CHR 0x0A \<or> c = CHR 0x0D"

definition text_range_contains_newline :: "string \<Rightarrow> nat \<Rightarrow> nat \<Rightarrow> bool" where
  "text_range_contains_newline text start end_pos = list_ex is_newline (take (end_pos - start) (drop start text))"

definition token_end :: "token \<Rightarrow> nat" where
  "token_end t = tok_pos t + length (tok_raw t)"

definition newline_between :: "string \<Rightarrow> token \<Rightarrow> token \<Rightarrow> bool" where
  "newline_between line p t = text_range_contains_newline line (token_end p) (tok_pos t)"

text \<open>Whether a token is where a command starts, given the token before it.\<close>

definition token_starts_command :: "string \<Rightarrow> token option \<Rightarrow> token \<Rightarrow> bool" where
  "token_starts_command line prev t =
     (case prev of
        None \<Rightarrow> True
      | Some p \<Rightarrow>
          newline_between line p t \<or>
          tok_kind p \<in> {Tok_sequence, Tok_and_if, Tok_or_if, Tok_background, Tok_shell_pipe} \<or>
          tok_kind p = Tok_word \<and> tok_text p \<in> {''then'', ''do'', ''else''})"

definition token_is_word_value :: "token \<Rightarrow> string \<Rightarrow> bool" where
  "token_is_word_value t v \<longleftrightarrow> tok_kind t = Tok_word \<and> tok_text t = v"

text \<open>The first token of a stream is looked at without a check; a stream always ends with the end token.\<close>

definition first_word_is :: "token list \<Rightarrow> string \<Rightarrow> bool" where
  "first_word_is toks v = (case toks of [] \<Rightarrow> False | t # ts \<Rightarrow> token_is_word_value t v)"

definition depth_after :: "string \<Rightarrow> nat \<Rightarrow> nat" where
  "depth_after w depth =
     (if keyword_is_compound_open w then depth + 1
      else if keyword_is_compound_close w \<and> depth > 0 then depth - 1
      else depth)"

text \<open>
  The loop that looks for a keyword outside nested compound commands: the token found and the tokens
  after it.
\<close>

fun find_keyword :: "(string \<Rightarrow> bool) \<Rightarrow> string \<Rightarrow> nat \<Rightarrow> token \<Rightarrow> token list \<Rightarrow> (token \<times> token list) option" where
  "find_keyword target line depth p [] = None"
| "find_keyword target line depth p (t # ts) =
     (if tok_kind t = Tok_word \<and> token_starts_command line (Some p) t then
        (if depth = 0 \<and> target (tok_text t) then Some (t, ts)
         else find_keyword target line (depth_after (tok_text t) depth) t ts)
      else find_keyword target line depth t ts)"

subsection \<open>Here-documents\<close>

record parsed_heredoc =
  hd_delimiter :: string
  hd_body :: string
  hd_strip_tabs :: bool

definition max_redirections :: nat where "max_redirections = 8"

datatype 'a heredoc_status = Heredocs 'a | No_heredoc | Heredoc_error string

definition find_first_line_end :: "string \<Rightarrow> nat" where
  "find_first_line_end text = length (takeWhile (\<lambda>c. \<not> is_newline c) text)"

definition normalize_heredoc_line :: "string \<Rightarrow> bool \<Rightarrow> string" where
  "normalize_heredoc_line src strip_tabs =
     copy_string max_line (if strip_tabs then dropWhile (\<lambda>c. c = CHR 0x09) src else src)"

text \<open>The here-documents the tokens of the header announce.\<close>

fun heredoc_headers :: "token list \<Rightarrow> parsed_heredoc list \<Rightarrow> string + parsed_heredoc list" where
  "heredoc_headers [] docs = Inr docs"
| "heredoc_headers [t] docs =
     (if tok_kind t \<in> {Tok_heredoc, Tok_heredoc_strip}
      then Inl (''heredoc '' @ arksh_token_kind_name (tok_kind t) @ '' expects a delimiter'') else Inr docs)"
| "heredoc_headers (t # u # ts) docs =
     (if tok_kind t = Tok_eof then Inr docs
      else if tok_kind t \<notin> {Tok_heredoc, Tok_heredoc_strip} then heredoc_headers (u # ts) docs
      else if \<not> is_value_token (tok_kind u) then
        Inl (''heredoc '' @ arksh_token_kind_name (tok_kind t) @ '' expects a delimiter'')
      else if length docs \<ge> max_redirections then Inl ''too many heredoc redirections''
      else heredoc_headers ts (docs @ [\<lparr>hd_delimiter = copy_string max_token (tok_text u), hd_body = [],
             hd_strip_tabs = (tok_kind t = Tok_heredoc_strip)\<rparr>]))"

text \<open>What is left after a line and its end: a carriage return, a line feed, or both.\<close>

definition skip_line_end :: "string \<Rightarrow> string" where
  "skip_line_end cs =
     (let a = (if next_is [CHR 0x0D] cs then tl cs else cs) in if next_is [CHR 0x0A] a then tl a else a)"

lemma skip_line_end_shorter: "length (skip_line_end cs) \<le> length cs"
  by (simp add: skip_line_end_def Let_def)

lemma heredoc_progress:
  assumes "dropWhile (\<lambda>c. \<not> is_newline c) cursor \<noteq> []"
  shows "length (skip_line_end (dropWhile (\<lambda>c. \<not> is_newline c) cursor)) < length cursor"
proof -
  obtain c cs where l: "dropWhile (\<lambda>c. \<not> is_newline c) cursor = c # cs" "is_newline c"
    using assms by (metis hd_dropWhile list.exhaust list.sel(1))
  then have "length (skip_line_end (c # cs)) < length (c # cs)"
    by (auto simp: skip_line_end_def Let_def is_newline_def)
  then show ?thesis using length_dropWhile_le [of "\<lambda>c. \<not> is_newline c" cursor] l(1) by simp
qed

definition append_body :: "string \<Rightarrow> string \<Rightarrow> string option" where
  "append_body body src = (if length body + length src \<ge> max_output then None else Some (body @ src))"

text \<open>The body of one here-document: the text up to the line that is the delimiter, and the rest.\<close>

function heredoc_body :: "string \<Rightarrow> bool \<Rightarrow> string \<Rightarrow> string \<Rightarrow> string + string \<times> string" where
  "heredoc_body delimiter strip body cursor =
     (if cursor = [] then Inl (''unterminated heredoc: missing delimiter '' @ delimiter)
      else
        (let raw = takeWhile (\<lambda>c. \<not> is_newline c) cursor;
             line_end = dropWhile (\<lambda>c. \<not> is_newline c) cursor;
             normalized = normalize_heredoc_line (take (max_line - 1) raw) strip;
             rest = skip_line_end line_end in
         if normalized = delimiter then Inr (body, rest)
         else
           (case append_body body normalized of
              None \<Rightarrow> Inl ''heredoc body too large''
            | Some body1 \<Rightarrow>
                if line_end = [] then heredoc_body delimiter strip body1 []
                else
                  (case append_body body1 [CHR 0x0A] of
                     None \<Rightarrow> Inl ''heredoc body too large''
                   | Some body2 \<Rightarrow> heredoc_body delimiter strip body2 rest))))"
  by pat_completeness auto
termination
  by (relation "measure (\<lambda>(_, _, _, cursor). length cursor)") (auto intro: heredoc_progress)

declare heredoc_body.simps [simp del]

fun heredoc_bodies :: "parsed_heredoc list \<Rightarrow> string \<Rightarrow> string + parsed_heredoc list" where
  "heredoc_bodies [] cursor = Inr []"
| "heredoc_bodies (d # ds) cursor =
     bind_err (heredoc_body (hd_delimiter d) (hd_strip_tabs d) [] cursor) (\<lambda>(body, rest).
       bind_err (heredoc_bodies ds rest) (\<lambda>ds1. Inr (d\<lparr>hd_body := body\<rparr> # ds1)))"

definition collect_leading_heredocs :: "string \<Rightarrow> (string \<times> parsed_heredoc list) heredoc_status" where
  "collect_leading_heredocs line =
     (let header_end = find_first_line_end line; header = copy_trimmed_slice line 0 header_end in
      if header = [] then No_heredoc
      else
        (case arksh_lex_line header of
           Inl e \<Rightarrow> Heredoc_error (lex_error_text e)
         | Inr toks \<Rightarrow>
             (case heredoc_headers toks [] of
                Inl e \<Rightarrow> Heredoc_error e
              | Inr [] \<Rightarrow> No_heredoc
              | Inr (d # ds) \<Rightarrow>
                  if drop header_end line = [] then
                    Heredoc_error (''unterminated heredoc: missing delimiter '' @ hd_delimiter d)
                  else
                    (case heredoc_bodies (d # ds) (skip_line_end (drop header_end line)) of
                       Inl e \<Rightarrow> Heredoc_error e
                     | Inr docs \<Rightarrow> Heredocs (header, docs)))))"

end
