(* ===== verification/Parser_Command.thy ===== *)
theory Parser_Command
  imports Parser_Text Platform_Path
begin

text \<open>
  Commands, redirections, pipelines and command lists in \<^verbatim>\<open>src/parser.c\<close>.  A token stream is the list of
  its tokens, the last of which is the end token; an index into it is the rest of the list.
\<close>

subsection \<open>Simple commands\<close>

text \<open>The raw texts of the arguments, which are what the executor expands.\<close>

fun simple_command_loop :: "string list \<Rightarrow> token list \<Rightarrow> string + string list" where
  "simple_command_loop raw_argv [] = Inr raw_argv"
| "simple_command_loop raw_argv (t # ts) =
     (if tok_kind t = Tok_eof then Inr raw_argv
      else if \<not> is_value_token (tok_kind t) then
        Inl (''unexpected token in command: '' @ arksh_token_kind_name (tok_kind t))
      else if length raw_argv \<ge> max_args then Inl ''too many command arguments''
      else simple_command_loop (raw_argv @ [copy_string max_token (tok_raw t)]) ts)"

definition parse_simple_command_tokens :: "token list \<Rightarrow> string + string list" where
  "parse_simple_command_tokens toks = simple_command_loop [] toks"

subsection \<open>Redirections\<close>

definition append_redirection ::
  "redirection list \<Rightarrow> redirect_kind \<Rightarrow> int \<Rightarrow> int \<Rightarrow> bool \<Rightarrow> string \<Rightarrow> string \<Rightarrow> string \<Rightarrow> string \<Rightarrow>
   string + redirection list" where
  "append_redirection rs kind fd target_fd strip target raw_target delimiter body =
     (if length rs \<ge> max_redirections then Inl ''too many redirections''
      else Inr (rs @ [\<lparr>rd_kind = kind, rd_fd = fd, rd_target_fd = target_fd, rd_strip_tabs = strip,
                       rd_target = copy_string max_path target, rd_raw_target = copy_string max_token raw_target,
                       rd_delimiter = copy_string max_token delimiter,
                       rd_heredoc_body = copy_string max_output body\<rparr>]))"

definition parse_fd_token_value :: "string \<Rightarrow> int option" where
  "parse_fd_token_value s =
     (if s = [] \<or> \<not> c_isdigit (hd s) then None
      else (case strtol s of
              None \<Rightarrow> None
            | Some (v, rest) \<Rightarrow> if v < 0 \<or> v > 1024 then None else Some v))"

text \<open>
  The texts of the errors, which differ between a stage of a pipeline and the redirections after a
  compound command: a missing value of a redirection, and a wrong descriptor in a duplication.
\<close>

record redirect_messages =
  msg_missing :: "token_kind \<Rightarrow> string \<Rightarrow> string"
  msg_bad_dup :: "string \<Rightarrow> string"

definition stage_messages :: redirect_messages where
  "stage_messages =
     \<lparr>msg_missing = \<lambda>k what. ''redirection '' @ arksh_token_kind_name k @ '' expects '' @ what,
      msg_bad_dup = \<lambda>s. ''invalid fd duplication: '' @ s\<rparr>"

definition tail_messages :: "string \<Rightarrow> redirect_messages" where
  "tail_messages closing =
     \<lparr>msg_missing = \<lambda>k what. ''unexpected token after '' @ closing,
      msg_bad_dup = \<lambda>s. ''unexpected token after '' @ closing\<rparr>"

text \<open>The value of a redirection is the next token.\<close>

definition value_after :: "redirect_messages \<Rightarrow> token_kind \<Rightarrow> string \<Rightarrow> token list \<Rightarrow> string + token" where
  "value_after msgs k what ts =
     (case ts of
        [] \<Rightarrow> Inl (msg_missing msgs k what)
      | u # us \<Rightarrow> if is_value_token (tok_kind u) then Inr u else Inl (msg_missing msgs k what))"

definition file_redirection ::
  "redirect_messages \<Rightarrow> token \<Rightarrow> token list \<Rightarrow> redirect_kind \<Rightarrow> int \<Rightarrow> redirection list \<Rightarrow> string + redirection list" where
  "file_redirection msgs t ts kind fd rs =
     bind_err (value_after msgs (tok_kind t) ''a target path'' ts) (\<lambda>u.
       append_redirection rs kind fd (- 1) False (tok_text u) (tok_raw u) [] [])"

definition fd_file_redirection ::
  "redirect_messages \<Rightarrow> token \<Rightarrow> token list \<Rightarrow> redirect_kind \<Rightarrow> redirection list \<Rightarrow> string + redirection list" where
  "fd_file_redirection msgs t ts kind rs =
     (case parse_fd_token_value (tok_text t) of
        None \<Rightarrow> Inl (''invalid fd redirection: '' @ tok_text t)
      | Some fd \<Rightarrow> file_redirection msgs t ts kind fd rs)"

definition dup_redirection ::
  "redirect_messages \<Rightarrow> token \<Rightarrow> token list \<Rightarrow> redirect_kind \<Rightarrow> redirection list \<Rightarrow> string + redirection list" where
  "dup_redirection msgs t ts kind rs =
     (case parse_fd_token_value (tok_text t) of
        None \<Rightarrow> Inl (msg_bad_dup msgs (tok_text t))
      | Some fd \<Rightarrow>
          bind_err (value_after msgs (tok_kind t) ''a source fd'' ts) (\<lambda>u.
            if tok_text u = ''-'' then append_redirection rs Redirect_fd_close fd (- 1) False [] [] [] []
            else
              (case parse_fd_token_value (tok_text u) of
                 None \<Rightarrow> Inl (''invalid source fd: '' @ tok_text u)
               | Some target \<Rightarrow> append_redirection rs kind fd target False [] [] [] [])))"

definition heredoc_redirection ::
  "redirect_messages \<Rightarrow> token \<Rightarrow> token list \<Rightarrow> parsed_heredoc list \<Rightarrow> nat \<Rightarrow> redirection list \<Rightarrow>
   string + redirection list" where
  "heredoc_redirection msgs t ts docs h rs =
     bind_err (value_after msgs (tok_kind t) ''a delimiter'' ts) (\<lambda>u.
       if h \<ge> length docs then Inl (''unterminated heredoc: missing delimiter '' @ tok_text u)
       else if hd_delimiter (docs ! h) \<noteq> tok_text u then
         Inl (''heredoc delimiter mismatch: expected '' @ tok_text u)
       else append_redirection rs Redirect_heredoc 0 (- 1) (tok_kind t = Tok_heredoc_strip) [] []
              (hd_delimiter (docs ! h)) (hd_body (docs ! h)))"

text \<open>A redirection with a value: what it appends and the number of here-documents used.\<close>

definition parse_redirection ::
  "redirect_messages \<Rightarrow> parsed_heredoc list \<Rightarrow> token \<Rightarrow> token list \<Rightarrow> nat \<Rightarrow> redirection list \<Rightarrow>
   string + redirection list \<times> nat" where
  "parse_redirection msgs docs t ts h rs =
     (let k = tok_kind t; same = (\<lambda>m. bind_err m (\<lambda>rs1. Inr (rs1, h))) in
      if k = Tok_heredoc \<or> k = Tok_heredoc_strip then
        bind_err (heredoc_redirection msgs t ts docs h rs) (\<lambda>rs1. Inr (rs1, h + 1))
      else if k = Tok_here_string then
        same (bind_err (value_after msgs k ''a string value'' ts) (\<lambda>u.
          append_redirection rs Redirect_herestring 0 (- 1) False (tok_text u) (tok_raw u) [] []))
      else if k = Tok_redirect_in then same (file_redirection msgs t ts Redirect_input 0 rs)
      else if k = Tok_redirect_out then same (file_redirection msgs t ts Redirect_output_truncate 1 rs)
      else if k = Tok_redirect_append then same (file_redirection msgs t ts Redirect_output_append 1 rs)
      else if k = Tok_redirect_error then same (file_redirection msgs t ts Redirect_error_truncate 2 rs)
      else if k = Tok_redirect_error_append then same (file_redirection msgs t ts Redirect_error_append 2 rs)
      else if k = Tok_redirect_fd_in then same (fd_file_redirection msgs t ts Redirect_fd_input rs)
      else if k = Tok_redirect_fd_out then same (fd_file_redirection msgs t ts Redirect_fd_output_truncate rs)
      else if k = Tok_redirect_fd_append then same (fd_file_redirection msgs t ts Redirect_fd_output_append rs)
      else if k = Tok_redirect_dup_in then same (dup_redirection msgs t ts Redirect_fd_dup_input rs)
      else if k = Tok_redirect_dup_out then same (dup_redirection msgs t ts Redirect_fd_dup_output rs)
      else Inl (''unsupported redirection token: '' @ arksh_token_kind_name k))"

subsection \<open>Pipelines\<close>

record command_stage =
  cs_argv :: "string list"
  cs_raw_argv :: "string list"
  cs_redirections :: "redirection list"

definition max_pipeline_stages :: nat where "max_pipeline_stages = 8"

function stage_loop ::
  "parsed_heredoc list \<Rightarrow> nat \<Rightarrow> command_stage \<Rightarrow> token list \<Rightarrow> string + command_stage \<times> nat" where
  "stage_loop docs h stage [] =
     (if cs_argv stage = [] then Inl ''each shell pipeline stage requires a command'' else Inr (stage, h))"
| "stage_loop docs h stage (t # ts) =
     (if is_value_token (tok_kind t) then
        (if length (cs_argv stage) \<ge> max_args then Inl ''too many command arguments''
         else stage_loop docs h (stage\<lparr>cs_argv := cs_argv stage @ [copy_string max_token (tok_text t)],
                cs_raw_argv := cs_raw_argv stage @ [copy_string max_token (tok_raw t)]\<rparr>) ts)
      else if tok_kind t = Tok_redirect_error_to_output then
        bind_err (append_redirection (cs_redirections stage) Redirect_error_to_output 2 1 False [] [] [] []) (\<lambda>rs.
          stage_loop docs h (stage\<lparr>cs_redirections := rs\<rparr>) ts)
      else if is_redirect_token (tok_kind t) then
        bind_err (parse_redirection stage_messages docs t ts h (cs_redirections stage)) (\<lambda>(rs, h1).
          stage_loop docs h1 (stage\<lparr>cs_redirections := rs\<rparr>) (tl ts))
      else Inl (''unexpected token in command stage: '' @ arksh_token_kind_name (tok_kind t)))"
  by pat_completeness auto
termination
  by (relation "measure (\<lambda>(_, _, _, ts). length ts)") auto

definition parse_command_stage_tokens ::
  "token list \<Rightarrow> parsed_heredoc list \<Rightarrow> nat \<Rightarrow> string + command_stage \<times> nat" where
  "parse_command_stage_tokens toks docs h =
     stage_loop docs h \<lparr>cs_argv = [], cs_raw_argv = [], cs_redirections = []\<rparr> toks"

fun pipeline_loop ::
  "parsed_heredoc list \<Rightarrow> nat \<Rightarrow> command_stage list \<Rightarrow> token list \<Rightarrow> token list \<Rightarrow> string + command_stage list" where
  "pipeline_loop docs h stages seg [] = Inl []"
| "pipeline_loop docs h stages seg (t # ts) =
     (if tok_kind t = Tok_shell_pipe \<or> tok_kind t = Tok_eof then
        (if length stages \<ge> max_pipeline_stages then Inl ''too many shell pipeline stages''
         else
           bind_err (parse_command_stage_tokens seg docs h) (\<lambda>(stage, h1).
             if tok_kind t = Tok_eof then Inr (stages @ [stage])
             else pipeline_loop docs h1 (stages @ [stage]) [] ts))
      else pipeline_loop docs h stages (seg @ [t]) ts)"

definition parse_command_pipeline_tokens ::
  "token list \<Rightarrow> parsed_heredoc list \<Rightarrow> string + command_stage list" where
  "parse_command_pipeline_tokens toks docs = pipeline_loop docs 0 [] [] toks"

subsection \<open>Command lists\<close>

definition max_list_entries :: nat where "max_list_entries = 16"

definition add_entry ::
  "list_entry list \<Rightarrow> string \<Rightarrow> list_condition \<Rightarrow> bool \<Rightarrow> string + list_entry list" where
  "add_entry es seg cond bg =
     (if seg = [] then Inl ''unexpected control operator in command list''
      else if length es \<ge> max_list_entries then Inl ''too many command list entries''
      else Inr (es @ [\<lparr>le_text = seg, le_condition = cond, le_background = bg\<rparr>]))"

definition condition_after :: "token_kind \<Rightarrow> list_condition" where
  "condition_after k =
     (if k = Tok_and_if then Cond_on_success else if k = Tok_or_if then Cond_on_failure else Cond_always)"

text \<open>The variables of the loop over the tokens.\<close>

record list_state =
  ls_entries :: "list_entry list"
  ls_start :: nat
  ls_last :: token_kind
  ls_cond :: list_condition
  ls_depth :: nat

text \<open>A word that starts a command: a line break in front of it ends an entry, keywords change the depth.\<close>

definition command_word :: "string \<Rightarrow> token option \<Rightarrow> token \<Rightarrow> list_state \<Rightarrow> string + list_state" where
  "command_word line prev t st =
     bind_err
       (if ls_depth st = 0 \<and> (case prev of None \<Rightarrow> False | Some p \<Rightarrow> newline_between line p t) then
          bind_err (add_entry (ls_entries st) (copy_trimmed_slice line (ls_start st) (tok_pos t)) (ls_cond st) False)
            (\<lambda>es. Inr (st\<lparr>ls_entries := es, ls_start := tok_pos t, ls_last := Tok_sequence, ls_cond := Cond_always\<rparr>))
        else Inr st)
       (\<lambda>st1. Inr (st1\<lparr>ls_depth := depth_after (tok_text t) (ls_depth st1)\<rparr>))"

fun list_tokens_loop ::
  "string \<Rightarrow> list_state \<Rightarrow> token option \<Rightarrow> token list \<Rightarrow> string + list_entry list" where
  "list_tokens_loop line st prev [] = Inl []"
| "list_tokens_loop line st prev (t # ts) =
     (if tok_kind t = Tok_eof then
        (let seg = copy_trimmed_slice line (ls_start st) (length line) in
         if seg = [] \<and> ls_last st = Tok_background \<and> ls_entries st \<noteq> [] then Inr (ls_entries st)
         else add_entry (ls_entries st) seg (ls_cond st) False)
      else if position_is_inside_nested_structure line (tok_pos t) then list_tokens_loop line st (Some t) ts
      else
        bind_err (if tok_kind t = Tok_word \<and> token_starts_command line prev t then command_word line prev t st
                  else Inr st) (\<lambda>st1.
          if ls_depth st1 = 0 \<and> is_list_control_token (tok_kind t) then
            bind_err (add_entry (ls_entries st1) (copy_trimmed_slice line (ls_start st1) (tok_pos t)) (ls_cond st1)
                       (tok_kind t = Tok_background)) (\<lambda>es.
              list_tokens_loop line
                (st1\<lparr>ls_entries := es, ls_start := tok_pos t + length (tok_text t), ls_last := tok_kind t,
                     ls_cond := condition_after (tok_kind t)\<rparr>) (Some t) ts)
          else list_tokens_loop line st1 (Some t) ts))"

definition parse_command_list_tokens :: "string \<Rightarrow> token list \<Rightarrow> string + list_entry list" where
  "parse_command_list_tokens line toks =
     list_tokens_loop line \<lparr>ls_entries = [], ls_start = 0, ls_last = Tok_invalid, ls_cond = Cond_always,
       ls_depth = 0\<rparr> None toks"

fun boundary_loop :: "string \<Rightarrow> nat \<Rightarrow> token option \<Rightarrow> token list \<Rightarrow> bool" where
  "boundary_loop line depth prev [] = False"
| "boundary_loop line depth prev (t # ts) =
     (if tok_kind t = Tok_eof then False
      else if position_is_inside_nested_structure line (tok_pos t) then boundary_loop line depth (Some t) ts
      else if tok_kind t = Tok_word \<and> token_starts_command line prev t then
        (if depth = 0 \<and> (case prev of None \<Rightarrow> False | Some p \<Rightarrow> newline_between line p t) then True
         else boundary_loop line (depth_after (tok_text t) depth) (Some t) ts)
      else boundary_loop line depth (Some t) ts)"

definition has_top_level_command_boundary :: "string \<Rightarrow> token list \<Rightarrow> bool" where
  "has_top_level_command_boundary line toks = boundary_loop line 0 None toks"

end
