(* ===== verification/Parser_Compound.thy ===== *)
theory Parser_Compound
  imports Parser_Command Control_Flow
begin

text \<open>
  The parsers of \<^verbatim>\<open>src/parser.c\<close> for compound commands.  A parser that does not apply returns
  \<open>Inl None\<close> and leaves the error buffer alone; \<open>Inl (Some e)\<close> is a failure that wrote \<open>e\<close> to it.
\<close>

abbreviation perr :: "string \<Rightarrow> string option + 'a" where
  "perr e \<equiv> Inl (Some e)"

definition quoted :: "string \<Rightarrow> string" where
  "quoted w = [squote] @ w @ [squote]"

definition at_end :: "token list \<Rightarrow> bool" where
  "at_end ts = (case ts of [] \<Rightarrow> False | t # us \<Rightarrow> tok_kind t = Tok_eof)"

subsection \<open>Conditionals and loops\<close>

text \<open>
  The rest of a conditional: the token \<open>fi\<close>, the last \<open>else\<close> outside nested commands, and what
  follows.
\<close>

fun if_tail_loop ::
  "string \<Rightarrow> nat \<Rightarrow> token option \<Rightarrow> token \<Rightarrow> token list \<Rightarrow> (token \<times> token option \<times> token list) option" where
  "if_tail_loop line depth els p [] = None"
| "if_tail_loop line depth els p (t # ts) =
     (if tok_kind t = Tok_word \<and> token_starts_command line (Some p) t then
        (if depth = 0 \<and> tok_text t = ''else'' then if_tail_loop line depth (Some t) t ts
         else if depth = 0 \<and> tok_text t = ''fi'' then Some (t, els, ts)
         else if_tail_loop line (depth_after (tok_text t) depth) els t ts)
      else if_tail_loop line depth els t ts)"

definition parse_if_command_tokens :: "string \<Rightarrow> token list \<Rightarrow> string option + if_node" where
  "parse_if_command_tokens line toks =
     (case toks of
        [] \<Rightarrow> Inl None
      | t0 # ts \<Rightarrow>
          if \<not> token_is_word_value t0 ''if'' then Inl None
          else
            (case find_keyword (\<lambda>w. w = ''then'') line 0 t0 ts of
               None \<Rightarrow> perr ''unterminated if command: missing then''
             | Some (th, us) \<Rightarrow>
                 (case if_tail_loop line 0 None th us of
                    None \<Rightarrow> perr ''unterminated if command: missing fi''
                  | Some (fi, els, rest) \<Rightarrow>
                      (let cond = trim_compound_segment line (token_end t0) (tok_pos th);
                           then_branch = trim_compound_segment line (token_end th)
                             (case els of Some e \<Rightarrow> tok_pos e | None \<Rightarrow> tok_pos fi);
                           else_branch = (case els of None \<Rightarrow> []
                             | Some e \<Rightarrow> trim_compound_segment line (token_end e) (tok_pos fi)) in
                       if cond = [] \<or> then_branch = [] then perr ''if command requires a condition and a then branch''
                       else if \<not> at_end rest then perr ''unexpected token after fi''
                       else Inr \<lparr>if_condition = cond, if_then = then_branch,
                                 if_else = (if else_branch = [] then None else Some else_branch)\<rparr>))))"

definition parse_loop_tokens :: "string \<Rightarrow> string \<Rightarrow> token list \<Rightarrow> string option + loop_node" where
  "parse_loop_tokens kw line toks =
     (case toks of
        [] \<Rightarrow> Inl None
      | t0 # ts \<Rightarrow>
          if \<not> token_is_word_value t0 kw then Inl None
          else
            (case find_keyword (\<lambda>w. w = ''do'') line 0 t0 ts of
               None \<Rightarrow> perr (''unterminated '' @ kw @ '' command: missing do'')
             | Some (dt, us) \<Rightarrow>
                 (case find_keyword (\<lambda>w. w = ''done'') line 0 dt us of
                    None \<Rightarrow> perr (''unterminated '' @ kw @ '' command: missing done'')
                  | Some (fin, rest) \<Rightarrow>
                      (let cond = trim_compound_segment line (token_end t0) (tok_pos dt);
                           body = trim_compound_segment line (token_end dt) (tok_pos fin) in
                       if cond = [] \<or> body = [] then perr (kw @ '' command requires a condition and a body'')
                       else if \<not> at_end rest then perr ''unexpected token after done''
                       else Inr \<lparr>lp_condition = cond, lp_body = body\<rparr>))))"

definition parse_while_command_tokens :: "string \<Rightarrow> token list \<Rightarrow> string option + loop_node" where
  "parse_while_command_tokens = parse_loop_tokens ''while''"

definition parse_until_command_tokens :: "string \<Rightarrow> token list \<Rightarrow> string option + loop_node" where
  "parse_until_command_tokens = parse_loop_tokens ''until''"

definition parse_for_command_tokens :: "string \<Rightarrow> token list \<Rightarrow> string option + for_node" where
  "parse_for_command_tokens line toks =
     (case toks of
        t0 # t1 # ts \<Rightarrow>
          if \<not> token_is_word_value t0 ''for'' then Inl None
          else if tok_kind t1 \<noteq> Tok_word \<or> \<not> is_identifier_text (tok_text t1) then
            perr (''for command expects an identifier after '' @ quoted ''for'')
          else
            (case ts of
               [] \<Rightarrow> perr (''for command expects '' @ quoted ''in'' @ '' after the loop variable'')
             | t2 # us \<Rightarrow>
                 if \<not> token_is_word_value t2 ''in'' then perr (''for command expects '' @ quoted ''in'' @ '' after the loop variable'')
                 else
                   (case find_keyword (\<lambda>w. w = ''do'') line 0 t2 us of
                      None \<Rightarrow> perr ''unterminated for command: missing do''
                    | Some (dt, us1) \<Rightarrow>
                        (case find_keyword (\<lambda>w. w = ''done'') line 0 dt us1 of
                           None \<Rightarrow> perr ''unterminated for command: missing done''
                         | Some (fin, rest) \<Rightarrow>
                             (let source = trim_compound_segment line (token_end t2) (tok_pos dt);
                                  body = trim_compound_segment line (token_end dt) (tok_pos fin) in
                              if source = [] \<or> body = [] then perr ''for command requires an item source and a body''
                              else if \<not> at_end rest then perr ''unexpected token after done''
                              else Inr \<lparr>for_variable = copy_string max_name (tok_text t1), for_source = source,
                                        for_body = body\<rparr>))))
      | _ \<Rightarrow> Inl None)"

subsection \<open>Case\<close>

text \<open>The position of the word \<open>in\<close> outside quotes, parentheses and brackets, from position \<open>i\<close> on.\<close>

fun case_in_loop :: "string \<Rightarrow> char option \<Rightarrow> nat \<Rightarrow> nat \<Rightarrow> nat \<Rightarrow> string \<Rightarrow> nat option" where
  "case_in_loop line quote parens brackets i [] = None"
| "case_in_loop line (Some q) parens brackets i (c # cs) =
     (if c = q then case_in_loop line None parens brackets (i + 1) cs
      else if q = dquote \<and> c = bslash \<and> cs \<noteq> [] then case_in_loop line (Some q) parens brackets (i + 2) (tl cs)
      else case_in_loop line (Some q) parens brackets (i + 1) cs)"
| "case_in_loop line None parens brackets i (c # cs) =
     (if c = dquote \<or> c = squote then case_in_loop line (Some c) parens brackets (i + 1) cs
      else if c = bslash \<and> cs \<noteq> [] then case_in_loop line None parens brackets (i + 2) (tl cs)
      else if c = CHR ''('' then case_in_loop line None (parens + 1) brackets (i + 1) cs
      else if c = CHR '')'' \<and> parens > 0 then case_in_loop line None (parens - 1) brackets (i + 1) cs
      else if c = CHR ''['' then case_in_loop line None parens (brackets + 1) (i + 1) cs
      else if c = CHR '']'' \<and> brackets > 0 then case_in_loop line None parens (brackets - 1) (i + 1) cs
      else if parens = 0 \<and> brackets = 0 \<and> c = CHR ''i'' \<and> next_is ''n'' cs \<and>
              (i = 0 \<or> c_isspace (line ! (i - 1))) \<and> (tl cs = [] \<or> c_isspace (hd (tl cs))) then Some i
      else case_in_loop line None parens brackets (i + 1) cs)"

definition find_top_level_case_in_keyword :: "string \<Rightarrow> nat \<Rightarrow> nat option" where
  "find_top_level_case_in_keyword line start = case_in_loop line None 0 0 start (drop start line)"

fun find_in_token :: "nat \<Rightarrow> token list \<Rightarrow> (token \<times> token list) option" where
  "find_in_token pos [] = None"
| "find_in_token pos (t # ts) =
     (if tok_pos t = pos \<and> token_is_word_value t ''in'' then Some (t, ts) else find_in_token pos ts)"

definition skip_sequence :: "token list \<Rightarrow> token list" where
  "skip_sequence ts = dropWhile (\<lambda>t. tok_kind t = Tok_sequence) ts"

text \<open>The parenthesis that closes a pattern and the tokens after it.\<close>

fun pattern_close_loop :: "nat \<Rightarrow> token list \<Rightarrow> (token \<times> token list) option" where
  "pattern_close_loop depth [] = None"
| "pattern_close_loop depth (t # ts) =
     (if tok_kind t = Tok_lparen then pattern_close_loop (depth + 1) ts
      else if tok_kind t = Tok_rparen then
        (if depth > 0 then pattern_close_loop (depth - 1) ts else Some (t, ts))
      else if token_is_word_value t ''esac'' then None
      else pattern_close_loop depth ts)"

text \<open>The end of a branch: its position, and the tokens of the next section.\<close>

fun branch_end_loop :: "string \<Rightarrow> nat \<Rightarrow> token \<Rightarrow> token list \<Rightarrow> (nat \<times> token list) option" where
  "branch_end_loop line depth p [] = None"
| "branch_end_loop line depth p (t # ts) =
     (if position_is_inside_nested_structure line (tok_pos t) then branch_end_loop line depth t ts
      else
        (let starts = (token_starts_command line (Some p) t \<and> tok_kind t = Tok_word) in
         if starts \<and> depth = 0 \<and> tok_text t = ''esac'' then Some (tok_pos t, t # ts)
         else
           (let depth1 = (if starts then depth_after (tok_text t) depth else depth) in
            if depth1 = 0 \<and> tok_kind t = Tok_sequence \<and> ts \<noteq> [] \<and> tok_kind (hd ts) = Tok_sequence
            then Some (tok_pos t, tl ts)
            else branch_end_loop line depth1 t ts)))"

lemma pattern_close_shorter: "pattern_close_loop d ts = Some (t, us) \<Longrightarrow> length us < length ts"
  by (induction d ts rule: pattern_close_loop.induct) (auto split: if_splits)

lemma branch_end_shorter: "branch_end_loop line d p ts = Some (n, us) \<Longrightarrow> length us \<le> length ts"
  by (induction ts arbitrary: d p) (auto simp: Let_def le_SucI split: if_splits)

lemma skip_sequence_shorter: "length (skip_sequence ts) \<le> length ts"
  by (simp add: skip_sequence_def length_dropWhile_le)

function case_sections :: "string \<Rightarrow> case_branch list \<Rightarrow> token list \<Rightarrow> string + case_branch list \<times> token list" where
  "case_sections line branches [] = Inl ''unterminated case command: missing esac''"
| "case_sections line branches (s # ss) =
     (if token_is_word_value s ''esac'' then Inr (branches, ss)
      else
        (let ps = (if tok_kind s = Tok_lparen then ss else s # ss) in
         case pattern_close_loop 0 ps of
           None \<Rightarrow> Inl (''case branch requires a closing '' @ quoted '')'')
         | Some (close, us) \<Rightarrow>
             if tok_kind (hd ps) = Tok_rparen then Inl ''case branch requires at least one pattern''
             else if length branches \<ge> max_case_branches then Inl ''too many case branches''
             else
               (let pats = trim_compound_segment line (tok_pos (hd ps)) (tok_pos close) in
                if pats = [] then Inl ''case branch requires at least one pattern''
                else
                  (case branch_end_loop line 0 close us of
                     None \<Rightarrow> Inl ''unterminated case command: missing ;; or esac''
                   | Some (body_end, next_toks) \<Rightarrow>
                       case_sections line
                         (branches @ [\<lparr>cb_patterns = pats, cb_body = trim_compound_segment line (token_end close) body_end\<rparr>])
                         (skip_sequence next_toks)))))"
  by pat_completeness auto
termination
proof (relation "measure (\<lambda>(_, _, ts). length ts)", simp, goal_cases)
  case (1 line branches s ss ps a close us pats b body_end next_toks)
  then have "length next_toks \<le> length us" "length us < length ps" "length ps \<le> Suc (length ss)"
    using branch_end_shorter [of line 0 close us body_end next_toks] pattern_close_shorter [of 0 ps close us]
    by (auto split: if_splits)
  then show ?case using skip_sequence_shorter [of next_toks] by simp
qed

definition parse_case_command_tokens :: "string \<Rightarrow> token list \<Rightarrow> string option + case_node" where
  "parse_case_command_tokens line toks =
     (case toks of
        [] \<Rightarrow> Inl None
      | t0 # ts \<Rightarrow>
          if \<not> token_is_word_value t0 ''case'' then Inl None
          else
            (case Option.bind (find_top_level_case_in_keyword line (length (tok_raw t0)))
                    (\<lambda>pos. find_in_token pos ts) of
               None \<Rightarrow> perr ''unterminated case command: missing in''
             | Some (it, us) \<Rightarrow>
                 (let expr = trim_compound_segment line (token_end t0) (tok_pos it) in
                  if expr = [] then perr ''case command requires an expression''
                  else
                    (case case_sections line [] (skip_sequence us) of
                       Inl e \<Rightarrow> perr e
                     | Inr (branches, rest) \<Rightarrow>
                         if branches = [] then perr ''case command requires at least one branch''
                         else if \<not> at_end rest then perr ''unexpected token after esac''
                         else Inr \<lparr>case_expression = expr, case_branches = branches\<rparr>))))"

subsection \<open>Switch\<close>

definition max_switch_cases :: nat where "max_switch_cases = 16"

definition switch_boundary :: "string \<Rightarrow> bool" where
  "switch_boundary w \<longleftrightarrow> w \<in> {''case'', ''default'', ''endswitch''}"

lemma find_keyword_shorter: "find_keyword target line d p ts = Some (t, us) \<Longrightarrow> length us < length ts"
  by (induction ts arbitrary: d p) (auto split: if_splits dest: less_SucI)

text \<open>
  The branches from the token \<open>s\<close> on, with the cases and the default read so far; at the end, the
  tokens after \<open>endswitch\<close>.
\<close>

function switch_sections ::
  "string \<Rightarrow> (string \<times> string) list \<Rightarrow> string option \<Rightarrow> token \<Rightarrow> token list \<Rightarrow>
   string + (string \<times> string) list \<times> string option \<times> token list" where
  "switch_sections line cases dflt s ss =
     (if tok_kind s \<noteq> Tok_word then Inl ''invalid switch branch''
      else if tok_text s = ''endswitch'' then Inr (cases, dflt, ss)
      else
        (case find_keyword (\<lambda>w. switch_boundary w \<or> w = ''then'') line 0 s ss of
           None \<Rightarrow> Inl ''unterminated switch command: missing then''
         | Some (th, us) \<Rightarrow>
             if tok_text th \<noteq> ''then'' then Inl ''switch branch requires then''
             else
               (case find_keyword switch_boundary line 0 th us of
                  None \<Rightarrow> Inl ''unterminated switch command: missing endswitch''
                | Some (nx, ws) \<Rightarrow>
                    (let header = trim_compound_segment line (token_end s) (tok_pos th);
                         body = trim_compound_segment line (token_end th) (tok_pos nx) in
                     if tok_text s = ''case'' then
                       (if length cases \<ge> max_switch_cases then Inl ''too many switch cases''
                        else if header = [] \<or> body = [] then Inl ''switch case requires a match expression and a body''
                        else switch_sections line (cases @ [(header, body)]) dflt nx ws)
                     else if tok_text s = ''default'' then
                       (if dflt \<noteq> None then Inl ''switch command only supports one default branch''
                        else if tok_text nx \<noteq> ''endswitch'' then Inl ''default branch must be the last branch in switch''
                        else if header \<noteq> [] then Inl ''default branch does not accept a match expression''
                        else if body = [] then Inl ''default branch requires a body''
                        else switch_sections line cases (Some body) nx ws)
                     else Inl (''invalid switch branch: '' @ tok_text s)))))"
  by pat_completeness auto
termination
  by (relation "measure (\<lambda>(_, _, _, _, ss). length ss)") (auto dest!: find_keyword_shorter)

declare switch_sections.simps [simp del]

definition parse_switch_command_tokens :: "string \<Rightarrow> token list \<Rightarrow> string option + switch_node" where
  "parse_switch_command_tokens line toks =
     (case toks of
        [] \<Rightarrow> Inl None
      | t0 # ts \<Rightarrow>
          if \<not> token_is_word_value t0 ''switch'' then Inl None
          else
            (case find_keyword switch_boundary line 0 t0 ts of
               None \<Rightarrow> perr ''unterminated switch command: missing case, default or endswitch''
             | Some (s, ss) \<Rightarrow>
                 (let expr = trim_compound_segment line (token_end t0) (tok_pos s) in
                  if tok_text s = ''endswitch'' then perr ''switch command requires at least one case or default branch''
                  else if expr = [] then perr ''switch command requires an expression''
                  else
                    (case switch_sections line [] None s ss of
                       Inl e \<Rightarrow> perr e
                     | Inr (cases, dflt, rest) \<Rightarrow>
                         if cases = [] \<and> dflt = None then
                           perr ''switch command requires at least one case or default branch''
                         else if \<not> at_end rest then perr ''unexpected token after endswitch''
                         else Inr \<lparr>sw_expression = expr, sw_cases = cases, sw_default = dflt\<rparr>))))"

subsection \<open>Functions and classes\<close>

definition parse_posix_function_command_tokens :: "string \<Rightarrow> token list \<Rightarrow> string option + shell_function" where
  "parse_posix_function_command_tokens line toks =
     (case toks of
        t0 # t1 # t2 # t3 # ts \<Rightarrow>
          if tok_kind t0 \<noteq> Tok_word \<or> \<not> is_identifier_text (tok_text t0) \<or> tok_kind t1 \<noteq> Tok_lparen \<or>
             tok_kind t2 \<noteq> Tok_rparen \<or> tok_kind t3 = Tok_eof then Inl None
          else if keyword_is_compound_open (tok_text t0) \<or> keyword_is_compound_close (tok_text t0) then Inl None
          else
            (let msg = (\<lambda>what. ''POSIX function '' @ quoted (tok_text t0) @ '': '' @ what);
                 braces = dropWhile (\<lambda>c. c \<noteq> CHR ''{'') (drop (token_end t2) line) in
             if braces = [] then perr (msg (''expected '' @ quoted ''{'' @ '' after '' @ quoted ''()''))
             else
               (case find_matching_delimiter braces CHR ''{'' CHR ''}'' of
                  None \<Rightarrow> perr (msg (''unterminated '' @ quoted ''{'' @ '' '' @ [CHR 0xE2, CHR 0x80, CHR 0x94] @ '' missing '' @ quoted ''}''))
                | Some e \<Rightarrow>
                    (let body = trim_compound_segment braces 1 e in
                     if body = [] then perr (msg ''body cannot be empty'')
                     else if dropWhile (\<lambda>c. c = CHR '';'' \<or> c_isspace c) (drop (e + 1) braces) \<noteq> [] then
                       perr ''unexpected token after POSIX function definition''
                     else Inr \<lparr>f_name = copy_string max_name (tok_text t0), f_params = [], f_param_count = - 1,
                               f_body = body, f_source = copy_string max_line line\<rparr>)))
      | _ \<Rightarrow> Inl None)"

definition max_function_params :: nat where "max_function_params = 8"

fun params_loop :: "string list \<Rightarrow> token list \<Rightarrow> string + string list" where
  "params_loop params [] = Inr params"
| "params_loop params (t # ts) =
     (if tok_kind t \<noteq> Tok_word \<or> \<not> is_identifier_text (tok_text t) then
        Inl ''function parameters must be valid identifiers''
      else if length params \<ge> max_function_params then Inl ''too many function parameters''
      else if tok_text t \<in> set params then Inl (''duplicate function parameter: '' @ tok_text t)
      else
        (case ts of
           [] \<Rightarrow> Inr (params @ [copy_string max_name (tok_text t)])
         | u # us \<Rightarrow>
             if tok_kind u \<noteq> Tok_comma then Inl ''function parameter list expects commas between parameters''
             else if us = [] then Inl ''function parameter list cannot end with a comma''
             else params_loop (params @ [copy_string max_name (tok_text t)]) us))"

definition parse_function_params_tokens :: "token list \<Rightarrow> string + string list" where
  "parse_function_params_tokens toks = params_loop [] toks"

text \<open>The parameter list and what follows it.\<close>

definition function_header :: "token list \<Rightarrow> string + string list \<times> token list" where
  "function_header ts =
     (case ts of
        [] \<Rightarrow> Inr ([], [])
      | t # us \<Rightarrow>
          if tok_kind t \<noteq> Tok_lparen then Inr ([], ts)
          else
            (case dropWhile (\<lambda>u. tok_kind u \<noteq> Tok_rparen) us of
               [] \<Rightarrow> Inl (''unterminated function command: missing '' @ quoted '')'')
             | close # rest \<Rightarrow>
                 bind_err (parse_function_params_tokens (takeWhile (\<lambda>u. tok_kind u \<noteq> Tok_rparen) us))
                   (\<lambda>params. Inr (params, rest))))"

definition parse_function_command_tokens :: "string \<Rightarrow> token list \<Rightarrow> string option + shell_function" where
  "parse_function_command_tokens line toks =
     (case toks of
        t0 # t1 # ts \<Rightarrow>
          if \<not> token_is_word_value t0 ''function'' then Inl None
          else if tok_kind t1 = Tok_eof then perr []
          else if tok_kind t1 \<noteq> Tok_word \<or> \<not> is_identifier_text (tok_text t1) then
            perr (''function command expects an identifier after '' @ quoted ''function'')
          else
            (case function_header ts of
               Inl e \<Rightarrow> perr e
             | Inr (params, us) \<Rightarrow>
                 (case skip_sequence us of
                    [] \<Rightarrow> perr ''unterminated function command: missing do''
                  | dt # ws \<Rightarrow>
                      if \<not> token_is_word_value dt ''do'' then perr ''unterminated function command: missing do''
                      else
                        (case find_keyword (\<lambda>w. w = ''endfunction'') line 0 dt ws of
                           None \<Rightarrow> perr ''unterminated function command: missing endfunction''
                         | Some (fin, rest) \<Rightarrow>
                             (let body = trim_compound_segment line (token_end dt) (tok_pos fin) in
                              if body = [] then perr ''function command requires a body''
                              else if \<not> at_end rest then perr ''unexpected token after endfunction''
                              else Inr \<lparr>f_name = copy_string max_name (tok_text t1), f_params = params,
                                        f_param_count = int (length params), f_body = body,
                                        f_source = copy_string max_line line\<rparr>))))
      | _ \<Rightarrow> Inl None)"

record class_node =
  cl_name :: string
  cl_bases :: "string list"
  cl_body :: string
  cl_source :: string

definition max_class_bases :: nat where "max_class_bases = 8"

text \<open>The list after \<open>extends\<close>, up to \<open>do\<close> or the end; whether a name is expected next.\<close>

fun bases_loop :: "bool \<Rightarrow> string list \<Rightarrow> token list \<Rightarrow> string + bool \<times> string list \<times> token list" where
  "bases_loop expect bases [] = Inr (expect, bases, [])"
| "bases_loop expect bases (t # ts) =
     (if tok_kind t = Tok_eof \<or> token_is_word_value t ''do'' then Inr (expect, bases, t # ts)
      else if tok_kind t = Tok_sequence then bases_loop expect bases ts
      else if expect then
        (if tok_kind t \<noteq> Tok_word \<or> \<not> is_identifier_text (tok_text t) then
           Inl ''class extends list expects base class identifiers''
         else if length bases \<ge> max_class_bases then Inl ''too many base classes''
         else if tok_text t \<in> set bases then Inl (''duplicate base class: '' @ tok_text t)
         else bases_loop False (bases @ [copy_string max_name (tok_text t)]) ts)
      else if tok_kind t \<noteq> Tok_comma then Inl ''class extends list expects commas between base classes''
      else bases_loop True bases ts)"

definition class_bases :: "token list \<Rightarrow> string + string list \<times> token list" where
  "class_bases ts =
     (case ts of
        [] \<Rightarrow> Inr ([], [])
      | t # us \<Rightarrow>
          if \<not> token_is_word_value t ''extends'' then Inr ([], ts)
          else
            bind_err (bases_loop True [] us) (\<lambda>(expect, bases, rest).
              if bases = [] then Inl ''class extends list requires at least one base class''
              else if expect then Inl ''class extends list cannot end with a comma''
              else Inr (bases, rest)))"

text \<open>A closing word that need not be where a command starts; nested commands count where they start.\<close>

fun find_closing_word :: "string \<Rightarrow> string \<Rightarrow> nat \<Rightarrow> token \<Rightarrow> token list \<Rightarrow> (token \<times> token list) option" where
  "find_closing_word target line depth p [] = None"
| "find_closing_word target line depth p (t # ts) =
     (if tok_kind t \<noteq> Tok_word then find_closing_word target line depth t ts
      else if depth = 0 \<and> tok_text t = target then Some (t, ts)
      else if token_starts_command line (Some p) t then
        find_closing_word target line (depth_after (tok_text t) depth) t ts
      else find_closing_word target line depth t ts)"

definition parse_class_command_tokens :: "string \<Rightarrow> token list \<Rightarrow> string option + class_node" where
  "parse_class_command_tokens line toks =
     (case toks of
        t0 # t1 # ts \<Rightarrow>
          if \<not> token_is_word_value t0 ''class'' then Inl None
          else if tok_kind t1 = Tok_eof then perr []
          else if tok_kind t1 \<noteq> Tok_word \<or> \<not> is_identifier_text (tok_text t1) then
            perr (''class command expects an identifier after '' @ quoted ''class'')
          else
            (case class_bases (skip_sequence ts) of
               Inl e \<Rightarrow> perr e
             | Inr (bases, us) \<Rightarrow>
                 (case skip_sequence us of
                    [] \<Rightarrow> perr ''unterminated class command: missing do''
                  | dt # ws \<Rightarrow>
                      if \<not> token_is_word_value dt ''do'' then perr ''unterminated class command: missing do''
                      else
                        (case find_closing_word ''endclass'' line 0 dt ws of
                           None \<Rightarrow> perr ''unterminated class command: missing endclass''
                         | Some (fin, rest) \<Rightarrow>
                             if \<not> at_end rest then perr ''unexpected token after endclass''
                             else Inr \<lparr>cl_name = copy_string max_name (tok_text t1), cl_bases = bases,
                                       cl_body = trim_compound_segment line (token_end dt) (tok_pos fin),
                                       cl_source = copy_string max_line line\<rparr>)))
      | _ \<Rightarrow> Inl None)"

subsection \<open>Elevated blocks, groups and subshells\<close>

fun find_word_at_depth :: "string \<Rightarrow> nat \<Rightarrow> token list \<Rightarrow> (token \<times> token list) option" where
  "find_word_at_depth target depth [] = None"
| "find_word_at_depth target depth (t # ts) =
     (if tok_kind t \<noteq> Tok_word then find_word_at_depth target depth ts
      else if depth = 0 \<and> tok_text t = target then Some (t, ts)
      else find_word_at_depth target (depth_after (tok_text t) depth) ts)"

definition parse_with_sudo_command_tokens :: "string \<Rightarrow> token list \<Rightarrow> string option + string" where
  "parse_with_sudo_command_tokens line toks =
     (case toks of
        t0 # t1 # ts \<Rightarrow>
          if \<not> token_is_word_value t0 ''with'' then Inl None
          else if \<not> token_is_word_value t1 ''sudo'' then
            perr (''with: expected '' @ quoted ''sudo'' @ '' after '' @ quoted ''with'')
          else
            (case find_word_at_depth ''do'' 0 ts of
               None \<Rightarrow> perr ''unterminated with sudo command: missing do''
             | Some (dt, us) \<Rightarrow>
                 (case find_closing_word ''endwith'' line 0 dt us of
                    None \<Rightarrow> perr ''unterminated with sudo command: missing endwith''
                  | Some (fin, rest) \<Rightarrow>
                      (let body = trim_compound_segment line (token_end dt) (tok_pos fin) in
                       if body = [] then perr ''with sudo: empty body'' else Inr body)))
      | _ \<Rightarrow> Inl None)"

function tail_loop ::
  "string \<Rightarrow> parsed_heredoc list \<Rightarrow> nat \<Rightarrow> redirection list \<Rightarrow> token list \<Rightarrow> string + redirection list" where
  "tail_loop closing docs h rs [] = Inr rs"
| "tail_loop closing docs h rs (t # ts) =
     (if tok_kind t = Tok_eof then Inr rs
      else if tok_kind t = Tok_redirect_error_to_output then
        bind_err (append_redirection rs Redirect_error_to_output 2 1 False [] [] [] []) (\<lambda>rs1.
          tail_loop closing docs h rs1 ts)
      else if \<not> is_redirect_token (tok_kind t) then Inl (''unexpected token after '' @ closing)
      else
        bind_err (parse_redirection (tail_messages closing) docs t ts h rs) (\<lambda>(rs1, h1).
          tail_loop closing docs h1 rs1 (tl ts)))"
  by pat_completeness auto
termination
  by (relation "measure (\<lambda>(_, _, _, _, ts). length ts)") auto

definition parse_compound_redirection_tail ::
  "string \<Rightarrow> string \<Rightarrow> parsed_heredoc list \<Rightarrow> string + redirection list" where
  "parse_compound_redirection_tail tail closing docs =
     (let trimmed = trim_copy max_line tail in
      if trimmed = [] then Inr []
      else
        (case arksh_lex_line trimmed of
           Inl e \<Rightarrow> Inl (lex_error_text e)
         | Inr toks \<Rightarrow> tail_loop closing docs 0 [] toks))"

text \<open>What groups and subshells share: the redirections after the closing delimiter.\<close>

definition compound_tail :: "string \<Rightarrow> nat \<Rightarrow> string \<Rightarrow> string \<Rightarrow> string option + compound_node" where
  "compound_tail line close_index closing body =
     (let tail = copy_trimmed_slice line (close_index + 1) (length line);
          finish = (\<lambda>header docs.
            (case parse_compound_redirection_tail header closing docs of
               Inl e \<Rightarrow> perr e
             | Inr rs \<Rightarrow> Inr \<lparr>cn_body = body, cn_redirections = rs\<rparr>)) in
      case collect_leading_heredocs tail of
        Heredocs (header, docs) \<Rightarrow> finish header docs
      | Heredoc_error e \<Rightarrow> perr e
      | No_heredoc \<Rightarrow> finish tail [])"

definition parse_group_command_text :: "string \<Rightarrow> string option + compound_node" where
  "parse_group_command_text line =
     (if line = [] \<or> hd line \<noteq> CHR ''{'' then Inl None
      else
        (case find_matching_delimiter line CHR ''{'' CHR ''}'' of
           None \<Rightarrow> perr ''unterminated group command: missing }''
         | Some close_index \<Rightarrow>
             (let before = dropWhile (\<lambda>c. c \<in> {CHR '' '', CHR 0x09, CHR 0x0D}) (rev (take close_index line));
                  body = trim_compound_segment line 1 close_index in
              if before = [] \<or> (hd before \<noteq> CHR '';'' \<and> hd before \<noteq> CHR 0x0A) then
                perr (''group command requires '' @ quoted '';'' @ '' or newline before }'')
              else if body = [] then perr ''group command requires a body''
              else compound_tail line close_index ''}'' body)))"

definition parse_subshell_command_text :: "string \<Rightarrow> string option + compound_node" where
  "parse_subshell_command_text line =
     (if line = [] \<or> hd line \<noteq> CHR ''('' then Inl None
      else
        (case find_matching_delimiter line CHR ''('' CHR '')'' of
           None \<Rightarrow> perr (''unterminated subshell command: missing '' @ quoted '')'')
         | Some close_index \<Rightarrow>
             (let body = trim_compound_segment line 1 close_index in
              if body = [] then perr ''subshell command requires a body''
              else compound_tail line close_index '')'' body)))"

end
