(* ===== verification/Parser.thy ===== *)
theory Parser
  imports Parser_Compound
begin

text \<open>
  \<open>arksh_parse_line\<close> of \<^verbatim>\<open>src/parser.c\<close>: here-documents, the compound commands in the order the code tries
  them, command lists, object pipelines and expressions, pipelines of processes and simple commands.
  The parsers of value expressions are parameters, the fields of \<open>value_parser\<close>: object expressions,
  value sources (with or without references to bindings) and stages of object pipelines.
\<close>

text \<open>
  What the parser of value sources answers: a source, with whether it is an object expression; no
  value, with the text left in the error buffer; or an error.
\<close>

datatype 'v source_result = Vs_value 'v bool | Vs_none string | Vs_error string

record ('o, 'v, 's) value_parser =
  vp_object :: "string \<Rightarrow> 'o option"
  vp_source :: "bool \<Rightarrow> string \<Rightarrow> 'v source_result"
  vp_capture :: "string \<Rightarrow> 'v"
  vp_stage :: "string \<Rightarrow> 's option"

text \<open>The contents of the nodes the executor model leaves to its services.\<close>

datatype ('o, 'v, 's) node =
    Node_object 'o
  | Node_value 'v
  | Node_object_pipeline 'v "'s list"
  | Node_command_pipeline "command_stage list"
  | Node_class class_node

text \<open>
  One attempt: a result ends the parse; otherwise the error buffer keeps its text or has the new one,
  and a fatal text ends the parse too.
\<close>

definition attempt ::
  "(string option + 'a) \<Rightarrow> ('a \<Rightarrow> 'b) \<Rightarrow> (string \<Rightarrow> bool) \<Rightarrow> string \<Rightarrow> (string \<Rightarrow> string + 'b) \<Rightarrow> string + 'b" where
  "attempt r wrap fatal err continue =
     (case r of
        Inr x \<Rightarrow> Inr (wrap x)
      | Inl e \<Rightarrow>
          (let err1 = (case e of None \<Rightarrow> err | Some s \<Rightarrow> s) in
           if fatal err1 then Inl err1 else continue err1))"

text \<open>The comparisons of the error text with \<open>strncmp\<close> and \<open>strcmp\<close>.\<close>

definition if_fatal :: "string \<Rightarrow> bool" where
  "if_fatal e \<longleftrightarrow> next_is (take 22 ''unterminated if command'') e \<or> next_is ''if command '' e \<or>
     e = ''unexpected token after fi''"

definition while_fatal :: "string \<Rightarrow> bool" where
  "while_fatal e \<longleftrightarrow> next_is (take 25 ''unterminated while command'') e \<or> next_is ''while command '' e \<or>
     e = ''unexpected token after done''"

definition until_fatal :: "string \<Rightarrow> bool" where
  "until_fatal e \<longleftrightarrow> next_is (take 25 ''unterminated until command'') e \<or> next_is ''until command '' e \<or>
     e = ''unexpected token after done''"

definition for_fatal :: "string \<Rightarrow> bool" where
  "for_fatal e \<longleftrightarrow> next_is (take 23 ''unterminated for command'') e \<or> next_is ''for command '' e \<or>
     e = ''unexpected token after done''"

definition case_fatal :: "string \<Rightarrow> bool" where
  "case_fatal e \<longleftrightarrow> next_is (take 24 ''unterminated case command'') e \<or> next_is ''case branch '' e \<or>
     next_is ''case command '' e \<or> e = ''unexpected token after esac''"

definition switch_fatal :: "string \<Rightarrow> bool" where
  "switch_fatal e \<longleftrightarrow> next_is ''unterminated switch command'' e \<or> next_is ''switch command '' e \<or>
     next_is ''switch branch '' e \<or> e = ''unexpected token after endswitch'' \<or>
     e = ''default branch does not accept a match expression'' \<or>
     e = ''default branch must be the last branch in switch''"

fun contains_text :: "string \<Rightarrow> string \<Rightarrow> bool" where
  "contains_text needle [] = (needle = [])"
| "contains_text needle (c # cs) = (next_is needle (c # cs) \<or> contains_text needle cs)"

definition posix_fatal :: "string \<Rightarrow> bool" where
  "posix_fatal e \<longleftrightarrow>
     e \<noteq> [] \<and> next_is ''POSIX function'' e \<and> \<not> contains_text (''expected '' @ quoted ''{'') e \<or>
     e = ''unexpected token after POSIX function definition''"

text \<open>The stages of an object pipeline, from the tokens after the first \<open>|>\<close> on.\<close>

fun object_stages :: "('o, 'v, 's) value_parser \<Rightarrow> string \<Rightarrow> 's list \<Rightarrow> nat \<Rightarrow> token list \<Rightarrow> string + 's list" where
  "object_stages vp line stages prev_pos [] = Inr stages"
| "object_stages vp line stages prev_pos (t # ts) =
     (if tok_kind t = Tok_object_pipe \<or> tok_kind t = Tok_eof then
        (let stage_text = copy_trimmed_slice line prev_pos (tok_pos t) in
         if length stages \<ge> max_pipeline_stages then Inl ''too many pipeline stages''
         else
           (case vp_stage vp stage_text of
              None \<Rightarrow> Inl (''invalid pipeline stage: '' @ stage_text)
            | Some s \<Rightarrow> object_stages vp line (stages @ [s]) (tok_pos t + length (tok_text t)) ts))
      else object_stages vp line stages prev_pos ts)"

definition parse_object_pipeline ::
  "('o, 'v, 's) value_parser \<Rightarrow> string \<Rightarrow> token \<Rightarrow> token list \<Rightarrow> string + ('o, 'v, 's) node ast" where
  "parse_object_pipeline vp line p ts =
     (let source_text = copy_trimmed_slice line 0 (tok_pos p);
          finish = (\<lambda>src.
            bind_err (object_stages vp line [] (tok_pos p + length (tok_text p)) ts) (\<lambda>stages.
              if stages = [] then Inl [] else Inr (Ast_object_pipeline (Node_object_pipeline src stages)))) in
      case vp_source vp True source_text of
        Vs_value v b \<Rightarrow> finish v
      | Vs_none e \<Rightarrow>
          if source_text \<noteq> [] then finish (vp_capture vp source_text)
          else Inl (if e = [] then ''invalid pipeline source'' else e)
      | Vs_error e \<Rightarrow>
          if source_text \<noteq> [] then finish (vp_capture vp source_text)
          else Inl (if e = [] then ''invalid pipeline source'' else e))"

text \<open>What is neither compound nor a list nor an object pipeline.\<close>

definition parse_plain_line ::
  "('o, 'v, 's) value_parser \<Rightarrow> string \<Rightarrow> token list \<Rightarrow> parsed_heredoc list \<Rightarrow> string + ('o, 'v, 's) node ast" where
  "parse_plain_line vp line toks docs =
     (case vp_object vp line of
        Some x \<Rightarrow> Inr (Ast_object_expression (Node_object x))
      | None \<Rightarrow>
          (let has = (\<lambda>P. list_ex (\<lambda>t. P (tok_kind t)) toks);
               commands_from = (\<lambda>err.
                 if has (\<lambda>k. k = Tok_arrow) \<or> next_is ''obj('' line then
                   Inl (if has (\<lambda>k. k = Tok_shell_pipe) \<or> has is_redirect_token then
                          ''shell pipe and redirection are not supported after object expressions yet''
                        else if err = [] then ''invalid object expression'' else err)
                 else if has (\<lambda>k. k = Tok_shell_pipe) \<or> has is_redirect_token then
                   bind_err (parse_command_pipeline_tokens toks docs) (\<lambda>stages.
                     Inr (Ast_command_pipeline (Node_command_pipeline stages)))
                 else
                   bind_err (parse_simple_command_tokens toks) (\<lambda>raw_argv.
                     Inr (if raw_argv = [] then Ast_empty else Ast_simple_command raw_argv))) in
           case vp_source vp False line of
             Vs_value v is_object \<Rightarrow> if \<not> is_object then Inr (Ast_value_expression (Node_value v)) else commands_from []
           | Vs_none e \<Rightarrow> commands_from e
           | Vs_error e \<Rightarrow> Inl e))"

text \<open>The part of \<open>arksh_parse_line\<close> after lexing.\<close>

definition parse_tokens ::
  "('o, 'v, 's) value_parser \<Rightarrow> string \<Rightarrow> token list \<Rightarrow> parsed_heredoc list \<Rightarrow> string + ('o, 'v, 's) node ast" where
  "parse_tokens vp line toks docs =
     attempt (parse_if_command_tokens line toks) Ast_if_command if_fatal [] (\<lambda>err.
     attempt (parse_while_command_tokens line toks) Ast_while_command while_fatal err (\<lambda>err.
     attempt (parse_until_command_tokens line toks) Ast_until_command until_fatal err (\<lambda>err.
     attempt (parse_for_command_tokens line toks) Ast_for_command for_fatal err (\<lambda>err.
     attempt (parse_case_command_tokens line toks) Ast_case_command case_fatal err (\<lambda>err.
     attempt (parse_switch_command_tokens line toks) Ast_switch_command switch_fatal err (\<lambda>err.
     attempt (parse_posix_function_command_tokens line toks) Ast_function_command posix_fatal [] (\<lambda>posix_err.
     attempt (parse_function_command_tokens line toks) Ast_function_command
       (\<lambda>e. first_word_is toks ''function'' \<and> e \<noteq> []) err (\<lambda>err.
     attempt (parse_class_command_tokens line toks) (\<lambda>c. Ast_class_command (Node_class c))
       (\<lambda>e. first_word_is toks ''class'' \<and> e \<noteq> []) err (\<lambda>err.
     attempt (parse_with_sudo_command_tokens line toks) Ast_with_sudo_command
       (\<lambda>e. first_word_is toks ''with'' \<and> e \<noteq> []) err (\<lambda>err.
     attempt (parse_group_command_text line) Ast_group_command
       (\<lambda>e. next_is ''{'' line \<and> e \<noteq> [] \<and> e \<noteq> ''unexpected token after }'') err (\<lambda>err.
     attempt (parse_subshell_command_text line) Ast_subshell_command
       (\<lambda>e. next_is ''('' line \<and> e \<noteq> [] \<and> e \<noteq> ''unexpected token after )'') err (\<lambda>err.
     if list_ex (\<lambda>t. is_list_control_token (tok_kind t) \<and> \<not> position_is_inside_nested_structure line (tok_pos t)) toks \<or>
        has_top_level_command_boundary line toks then
       bind_err (parse_command_list_tokens line toks) (\<lambda>es. Inr (Ast_command_list es))
     else
       (case dropWhile (\<lambda>t. tok_kind t \<noteq> Tok_object_pipe) toks of
          p # ts \<Rightarrow> parse_object_pipeline vp line p ts
        | [] \<Rightarrow> parse_plain_line vp line toks docs)))))))))))))"

definition parse_with_heredocs ::
  "('o, 'v, 's) value_parser \<Rightarrow> string \<Rightarrow> parsed_heredoc list \<Rightarrow> string + ('o, 'v, 's) node ast" where
  "parse_with_heredocs vp line docs =
     (case arksh_lex_line line of
        Inl e \<Rightarrow> Inl (lex_error_text e)
      | Inr toks \<Rightarrow> parse_tokens vp line toks docs)"

definition arksh_parse_line ::
  "('o, 'v, 's) value_parser \<Rightarrow> string \<Rightarrow> string + ('o, 'v, 's) node ast" where
  "arksh_parse_line vp line =
     (let trimmed = trim_copy max_line line in
      if trimmed = [] then Inr Ast_empty
      else if starts_with_compound_construct trimmed \<or> contains_top_level_list_operator trimmed then
        parse_with_heredocs vp trimmed []
      else
        (case collect_leading_heredocs trimmed of
           Heredocs (header, docs) \<Rightarrow> parse_with_heredocs vp header docs
         | Heredoc_error e \<Rightarrow> Inl e
         | No_heredoc \<Rightarrow> parse_with_heredocs vp trimmed []))"

end
