(* ===== verification/Lexer_Items.thy ===== *)
theory Lexer_Items
  imports Lexer_Plain
begin

text \<open>
  Lines of plain words and control operators, printed with single spaces, and the tokens the lexer
  makes of them.
\<close>

definition operators :: "string list" where
  "operators = ['';'', ''&&'', ''||'', ''&'', ''|'']"

definition item_kind :: "string \<Rightarrow> token_kind" where
  "item_kind w =
     (if w = '';'' then Tok_sequence else if w = ''&&'' then Tok_and_if else if w = ''||'' then Tok_or_if
      else if w = ''&'' then Tok_background else if w = ''|'' then Tok_shell_pipe else Tok_word)"

definition item_ok :: "string \<Rightarrow> bool" where
  "item_ok w \<longleftrightarrow> plain_word w \<or> w \<in> set operators"

definition item_token :: "nat \<Rightarrow> string \<Rightarrow> token" where
  "item_token pos w = \<lparr>tok_kind = item_kind w, tok_text = w, tok_raw = w, tok_pos = pos\<rparr>"

text \<open>A semicolon follows the word before it, everything else a space.\<close>

definition item_sep :: "string \<Rightarrow> string" where
  "item_sep w = (if w = '';'' then [] else '' '')"

fun items_text :: "string list \<Rightarrow> string" where
  "items_text [] = []"
| "items_text [w] = w"
| "items_text (w # v # ws) = w @ item_sep v @ items_text (v # ws)"

fun item_tokens :: "nat \<Rightarrow> string list \<Rightarrow> token list" where
  "item_tokens pos [] = []"
| "item_tokens pos [w] = [item_token pos w]"
| "item_tokens pos (w # v # ws) = item_token pos w # item_tokens (pos + length w + length (item_sep v)) (v # ws)"

text \<open>Operators are followed by words.\<close>

fun items_ok :: "string list \<Rightarrow> bool" where
  "items_ok [] = True"
| "items_ok [w] = item_ok w"
| "items_ok (w # v # ws) = (item_ok w \<and> (w \<in> set operators \<longrightarrow> v \<noteq> '';'') \<and> items_ok (v # ws))"

lemma plain_not_operator: "plain_word w \<Longrightarrow> w \<notin> set operators"
proof
  assume "plain_word w" "w \<in> set operators"
  then show False
    using plain_char_not [of "hd w"]
    by (cases w) (auto simp: plain_word_def operators_def)
qed

lemma item_kind_plain [simp]: "plain_word w \<Longrightarrow> item_kind w = Tok_word"
  using plain_not_operator [of w] by (auto simp: operators_def item_kind_def)

lemma items_text_append:
  "xs \<noteq> [] \<Longrightarrow> ys \<noteq> [] \<Longrightarrow> items_text (xs @ ys) = items_text xs @ item_sep (hd ys) @ items_text ys"
proof (induction xs rule: items_text.induct)
  case (2 w)
  then show ?case by (cases ys) auto
qed auto

lemma item_tokens_append:
  "xs \<noteq> [] \<Longrightarrow> ys \<noteq> [] \<Longrightarrow> item_tokens pos (xs @ ys) =
     item_tokens pos xs @ item_tokens (pos + length (items_text xs) + length (item_sep (hd ys))) ys"
proof (induction pos xs rule: item_tokens.induct)
  case (2 pos w)
  then show ?case by (cases ys) auto
qed (auto simp: add.assoc)

lemma length_item_tokens [simp]: "length (item_tokens pos ws) = length ws"
  by (induction pos ws rule: item_tokens.induct) auto

lemma lex_step_operator:
  assumes "w \<in> set operators" and "ls_rest st = w @ rest" and "rest = [] \<or> next_is '' '' rest"
    and "\<not> in_double_bracket st" and "length (ls_tokens st) < max_lexer_tokens"
  shows "\<exists>st'. lex_step len st = Inr st' \<and> ls_rest st' = rest \<and> \<not> in_double_bracket st' \<and>
    ls_tokens st' = ls_tokens st @ [item_token (len - length (ls_rest st)) w]"
proof -
  have fd: "match_fd_redirection_token (w @ rest) = None"
    using assms(1) by (auto simp: match_fd_redirection_token_def c_isdigit_def operators_def)
  obtain r where rest: "rest = [] \<or> rest = CHR '' '' # r" using assms(3) by auto
  consider "w = '';''" | "w = ''&&''" | "w = ''||''" | "w = ''&''" | "w = ''|''"
    using assms(1) by (auto simp: operators_def)
  then have "lex_step len st = set_flags True False (emit len (item_kind w) w st)"
    using fd rest assms(4)
    by cases (auto simp: lex_step_def assms(2) lex_command_step_def opens_double_bracket_def lex_operator_step_def
        item_kind_def c_isspace_def)
  then show ?thesis
    using assms by (auto simp: set_flags_def emit_def push_token_def item_token_def operators_def max_token_def)
qed

lemma items_ok_Cons: "items_ok (w # ws) \<Longrightarrow> item_ok w \<and> items_ok ws"
  by (cases ws) auto

lemma item_not_space: "item_ok w \<Longrightarrow> w \<noteq> [] \<and> \<not> c_isspace (hd w)"
proof (cases "plain_word w")
  case True
  then show ?thesis using plain_char_not [of "hd w"] by (cases w) (simp_all add: plain_word_def)
qed (auto simp: item_ok_def operators_def c_isspace_def)

lemma lex_loop_items:
  "items_ok ws \<Longrightarrow> ws \<noteq> [] \<Longrightarrow> ls_rest st = items_text ws \<Longrightarrow> \<not> in_double_bracket st \<Longrightarrow>
   length (ls_tokens st) + length ws < max_lexer_tokens \<Longrightarrow> len = pos + length (items_text ws) \<Longrightarrow>
   lex_loop len st = Inr (ls_tokens st @ item_tokens pos ws @
     [\<lparr>tok_kind = Tok_eof, tok_text = [], tok_raw = [], tok_pos = len\<rparr>])"
proof (induction ws arbitrary: st pos)
  case (Cons w ws)
  define rest where "rest = (case ws of [] \<Rightarrow> [] | v # vs \<Rightarrow> item_sep v @ items_text ws)"
  have eq: "items_text (w # ws) = w @ rest" by (cases ws) (auto simp: rest_def)
  have w: "item_ok w" and ok: "items_ok ws" using items_ok_Cons [OF Cons.prems(1)] by auto
  have sep: "ws = [] \<and> rest = [] \<or> (\<exists>v vs. ws = v # vs \<and> rest = item_sep v @ items_text ws)"
    by (cases ws) (auto simp: rest_def)
  have semi [simp]: "hd (items_text ('';'' # vs)) = CHR '';''" for vs by (cases vs) simp_all
  obtain st1 where st1: "lex_step len st = Inr st1" "ls_rest st1 = rest" "\<not> in_double_bracket st1"
    "ls_tokens st1 = ls_tokens st @ [item_token pos w]"
  proof (cases "w \<in> set operators")
    case True
    then have "rest = [] \<or> next_is '' '' rest"
      using sep Cons.prems(1) by (cases ws) (auto simp: item_sep_def)
    then show ?thesis
      using that lex_step_operator [OF True, of st rest len] Cons.prems eq by auto
  next
    case False
    then have p: "plain_word w" using w by (simp add: item_ok_def)
    moreover have "word_end rest"
    proof (cases ws)
      case (Cons v vs)
      then show ?thesis
        by (cases "v = '';''") (simp_all add: rest_def word_end_def item_sep_def c_isspace_def)
    qed (simp add: rest_def word_end_def)
    ultimately show ?thesis
      using that lex_step_plain [of w rest st len] Cons.prems eq by (auto simp: item_token_def)
  qed
  have "ls_rest st \<noteq> []" using Cons.prems(3) eq item_not_space [OF w] by simp
  then have l1: "lex_loop len st = lex_loop len st1"
    using st1(1) by (simp add: lex_loop.simps [of len st])
  show ?case
  proof (cases ws)
    case Nil
    then have "lex_loop len st1 = lex_finish len st1"
      using st1(2) by (simp add: rest_def lex_loop.simps [of len st1])
    then show ?thesis
      using l1 st1 Cons.prems(5,6) Nil by (simp add: lex_finish_def push_token_def copy_string_def)
  next
    case (Cons v vs)
    obtain st2 where st2: "lex_loop len st1 = lex_loop len st2" "ls_rest st2 = items_text ws"
      "\<not> in_double_bracket st2" "ls_tokens st2 = ls_tokens st1"
    proof (cases "v = '';''")
      case True
      then have "ls_rest st1 = items_text ws" using st1(2) Cons by (simp add: rest_def item_sep_def)
      then show ?thesis using that st1(3) by blast
    next
      case False
      then have r: "ls_rest st1 = CHR '' '' # items_text ws" using st1(2) Cons by (simp add: rest_def item_sep_def)
      have "lex_step len st1 = Inr (st1\<lparr>ls_rest := items_text ws\<rparr>)"
        by (rule lex_step_space [OF _ r]) (simp add: c_isspace_def)
      then have "lex_loop len st1 = lex_loop len (st1\<lparr>ls_rest := items_text ws\<rparr>)"
        using r by (simp add: lex_loop.simps [of len st1])
      then show ?thesis using that st1(3) by fastforce
    qed
    have "lex_loop len st2 = Inr (ls_tokens st2 @ item_tokens (pos + length w + length (item_sep v)) ws @
        [\<lparr>tok_kind = Tok_eof, tok_text = [], tok_raw = [], tok_pos = len\<rparr>])"
      using Cons.prems ok st2 st1(4) Cons by (intro Cons.IH) auto
    then show ?thesis using l1 st1(4) st2 Cons by simp
  qed
qed simp

lemma lex_items:
  assumes "items_ok ws" and "ws \<noteq> []" and "length ws < max_lexer_tokens"
  shows "arksh_lex_line (items_text ws) = Inr (item_tokens 0 ws @
    [\<lparr>tok_kind = Tok_eof, tok_text = [], tok_raw = [], tok_pos = length (items_text ws)\<rparr>])"
  unfolding arksh_lex_line_def
  using lex_loop_items [where pos = 0 and len = "length (items_text ws)" and ws = ws and st =
      "\<lparr>ls_tokens = [], in_double_bracket = False, command_word_allowed = True,
        pending_redirect_target = False, ls_rest = items_text ws\<rparr>"] assms by simp

end
