(* ===== verification/Parser_Roundtrip.thy ===== *)
theory Parser_Roundtrip
  imports Parser Lexer_Items
begin

text \<open>
  Compound commands printed as text and parsed again.  The parser scans the tokens for the keywords of
  the outermost command, counting nested ones; what the scanners share is stated once as a locale.
\<close>

subsection \<open>Scanning over nested commands\<close>

definition reserved :: "string \<Rightarrow> bool" where
  "reserved w \<longleftrightarrow>
     keyword_is_compound_open w \<or> keyword_is_compound_close w \<or> w \<in> {''then'', ''do'', ''else''}"

definition marks :: "string set" where
  "marks = {''then'', ''do'', ''else'', ''fi'', ''done''}"

text \<open>Tokens that read as the given items, wherever they are in the line.\<close>

definition reads :: "token list \<Rightarrow> string list \<Rightarrow> bool" where
  "reads ts ws = list_all2 (\<lambda>t w. tok_text t = w \<and> tok_kind t = item_kind w) ts ws"

lemma reads_append: "reads ts (ws @ xs) \<longleftrightarrow> (\<exists>us rs. ts = us @ rs \<and> reads us ws \<and> reads rs xs)"
proof
  show "reads ts (ws @ xs) \<Longrightarrow> \<exists>us rs. ts = us @ rs \<and> reads us ws \<and> reads rs xs"
    by (auto simp: reads_def list_all2_append2)
  show "\<exists>us rs. ts = us @ rs \<and> reads us ws \<and> reads rs xs \<Longrightarrow> reads ts (ws @ xs)"
    by (auto simp: reads_def intro: list_all2_appendI)
qed

lemma reads_simps [simp]:
  "reads ts [] \<longleftrightarrow> ts = []"
  "reads ts (w # ws) \<longleftrightarrow> (\<exists>t us. ts = t # us \<and> tok_text t = w \<and> tok_kind t = item_kind w \<and> reads us ws)"
  by (auto simp: reads_def list_all2_Cons2)

definition plain_words :: "string list \<Rightarrow> bool" where
  "plain_words ws \<longleftrightarrow> ws \<noteq> [] \<and> list_all (\<lambda>w. plain_word w \<and> \<not> reserved w) ws"

text \<open>Commands made of plain words, conditionals, loops and sequences.\<close>

datatype cmd =
    Simple "string list"
  | If_then "string list" cmd
  | If_else "string list" cmd cmd
  | Loop bool "string list" cmd
  | For string "string list" cmd
  | is_Seq: Seq cmd cmd

fun cmd_items :: "cmd \<Rightarrow> string list" where
  "cmd_items (Simple ws) = ws"
| "cmd_items (If_then ws t) = ''if'' # ws @ '';'' # ''then'' # cmd_items t @ '';'' # [''fi'']"
| "cmd_items (If_else ws t e) =
     ''if'' # ws @ '';'' # ''then'' # cmd_items t @ '';'' # ''else'' # cmd_items e @ '';'' # [''fi'']"
| "cmd_items (Loop is_while ws b) =
     (if is_while then ''while'' else ''until'') # ws @ '';'' # ''do'' # cmd_items b @ '';'' # [''done'']"
| "cmd_items (For x ws b) = ''for'' # x # ''in'' # ws @ '';'' # ''do'' # cmd_items b @ '';'' # [''done'']"
| "cmd_items (Seq a b) = cmd_items a @ '';'' # cmd_items b"

fun cmd_ok :: "cmd \<Rightarrow> bool" where
  "cmd_ok (Simple ws) = plain_words ws"
| "cmd_ok (If_then ws t) = (plain_words ws \<and> cmd_ok t)"
| "cmd_ok (If_else ws t e) = (plain_words ws \<and> cmd_ok t \<and> cmd_ok e)"
| "cmd_ok (Loop is_while ws b) = (plain_words ws \<and> cmd_ok b)"
| "cmd_ok (For x ws b) =
     (plain_word x \<and> \<not> reserved x \<and> is_identifier_text x \<and> length x < max_name \<and> plain_words ws \<and> cmd_ok b)"
| "cmd_ok (Seq a b) = (cmd_ok a \<and> cmd_ok b)"

definition starts_after :: "token \<Rightarrow> bool" where
  "starts_after p \<longleftrightarrow> tok_kind p \<in> {Tok_sequence, Tok_and_if, Tok_or_if, Tok_background, Tok_shell_pipe} \<or>
     tok_kind p = Tok_word \<and> tok_text p \<in> {''then'', ''do'', ''else''}"

lemma starts_after_starts: "starts_after p \<Longrightarrow> token_starts_command line (Some p) t"
  by (auto simp: starts_after_def token_starts_command_def)

lemma depth_after_plain: "\<not> reserved w \<Longrightarrow> depth_after w d = d"
  by (simp add: depth_after_def reserved_def)

lemma depth_after_keywords:
  "depth_after ''if'' d = d + 1" "depth_after ''while'' d = d + 1" "depth_after ''until'' d = d + 1"
  "depth_after ''for'' d = d + 1" "depth_after ''then'' d = d" "depth_after ''else'' d = d" "depth_after ''do'' d = d"
  "depth_after ''fi'' (Suc d) = d" "depth_after ''done'' (Suc d) = d"
  by (simp_all add: depth_after_def keyword_is_compound_open_def keyword_is_compound_close_def)

lemma item_kind_keyword:
  "item_kind ''if'' = Tok_word" "item_kind ''while'' = Tok_word" "item_kind ''until'' = Tok_word"
  "item_kind ''for'' = Tok_word" "item_kind ''then'' = Tok_word" "item_kind ''else'' = Tok_word"
  "item_kind ''do'' = Tok_word" "item_kind ''fi'' = Tok_word" "item_kind ''done'' = Tok_word" "item_kind ''in'' = Tok_word"
  "item_kind '';'' = Tok_sequence"
  by (simp_all add: item_kind_def)

lemma in_plain: "plain_word ''in'' \<and> \<not> reserved ''in''"
  by code_simp

locale keyword_scan =
  fixes scan :: "nat \<Rightarrow> token \<Rightarrow> token list \<Rightarrow> 'r" and line :: string and hit :: "string \<Rightarrow> bool"
    and stop :: "token_kind \<Rightarrow> bool"
  assumes skip: "\<not> (tok_kind t = Tok_word \<and> token_starts_command line (Some p) t) \<Longrightarrow>
      tok_kind t \<noteq> Tok_eof \<Longrightarrow> d > 0 \<or> \<not> stop (tok_kind t) \<Longrightarrow> scan d p (t # ts) = scan d t ts"
    and keyword: "tok_kind t = Tok_word \<Longrightarrow> token_starts_command line (Some p) t \<Longrightarrow> d > 0 \<or> \<not> hit (tok_text t) \<Longrightarrow>
      scan d p (t # ts) = scan (depth_after (tok_text t) d) t ts"
    and hit_marks: "hit w \<Longrightarrow> w \<in> marks"
    and word_goes: "\<not> stop Tok_word"
begin

lemma plain_step:
  "tok_kind t = Tok_word \<Longrightarrow> \<not> reserved (tok_text t) \<Longrightarrow> scan d p (t # ts) = scan d t ts"
  using hit_marks [of "tok_text t"] keyword [of t p d ts] skip [of t p d ts] word_goes
  by (cases "token_starts_command line (Some p) t") (auto simp: depth_after_plain reserved_def marks_def
      keyword_is_compound_close_def)

lemma words_pass:
  "plain_words ws \<or> ws = [] \<Longrightarrow> reads ts ws \<Longrightarrow> scan d p (ts @ rest) = scan d (last (p # ts)) rest"
proof (induction ws arbitrary: ts p)
  case (Cons w ws)
  then obtain t us where t: "ts = t # us" "tok_text t = w" "tok_kind t = item_kind w" "reads us ws" by auto
  have w: "plain_word w" "\<not> reserved w" "plain_words ws \<or> ws = []" using Cons.prems(1) by (auto simp: plain_words_def)
  then have "scan d p (t # us @ rest) = scan d t (us @ rest)" using t plain_step by simp
  then show ?case using Cons.IH [OF w(3) t(4), of t] t(1) by simp
qed simp

lemma semi_pass: "tok_kind s = Tok_sequence \<Longrightarrow> d > 0 \<or> \<not> stop Tok_sequence \<Longrightarrow> scan d p (s # ts) = scan d s ts"
  using skip [of s p d ts] by simp

lemma keyword_pass:
  "starts_after p \<Longrightarrow> tok_kind t = Tok_word \<Longrightarrow> d > 0 \<or> \<not> hit (tok_text t) \<Longrightarrow>
   scan d p (t # ts) = scan (depth_after (tok_text t) d) t ts"
  using keyword starts_after_starts by blast

lemma open_pass:
  assumes "starts_after p" and "tok_kind t = Tok_word" and "keyword_is_compound_open (tok_text t)"
  shows "scan d p (t # ts) = scan (d + 1) t ts"
proof -
  have "\<not> hit (tok_text t)"
    using hit_marks [of "tok_text t"] assms(3) by (auto simp: marks_def keyword_is_compound_open_def)
  then show ?thesis using keyword_pass [of p t d ts] assms by (simp add: depth_after_def)
qed

lemma head_pass:
  assumes "starts_after p" and "tok_kind t = Tok_word" and "keyword_is_compound_open (tok_text t)"
    and "plain_words ws \<or> ws = []" and "reads tw ws" and "tok_kind s = Tok_sequence" and "tok_kind m = Tok_word"
    and "tok_text m \<in> {''then'', ''do''}"
  shows "scan d p (t # tw @ s # m # r) = scan (d + 1) m r"
proof -
  have "scan d p (t # tw @ s # m # r) = scan (d + 1) s (m # r)"
    using open_pass [OF assms(1-3)] words_pass [OF assms(4,5)] assms(6) by (simp add: semi_pass)
  also have "\<dots> = scan (d + 1) m r"
    using keyword_pass [of s m "d + 1" r] assms(6-8) by (auto simp: starts_after_def depth_after_keywords)
  finally show ?thesis .
qed

lemma close_pass:
  assumes "tok_kind s = Tok_sequence" and "tok_kind c = Tok_word" and "tok_text c \<in> {''fi'', ''done''}"
  shows "scan (d + 1) p (s # c # r) = scan d c r"
  using assms keyword_pass [of s c "d + 1" r] by (auto simp: semi_pass starts_after_def depth_after_keywords)

lemma else_pass:
  assumes "tok_kind s = Tok_sequence" and "tok_kind e = Tok_word" and "tok_text e = ''else''"
  shows "scan (d + 1) p (s # e # r) = scan (d + 1) e r"
  using assms keyword_pass [of s e "d + 1" r] by (simp add: semi_pass starts_after_def depth_after_keywords)

text \<open>A command is scanned without a hit and leaves the depth as it was.\<close>

lemma cmd_pass:
  "cmd_ok c \<Longrightarrow> reads ts (cmd_items c) \<Longrightarrow> starts_after p \<Longrightarrow> d > 0 \<or> \<not> stop Tok_sequence \<or> \<not> is_Seq c \<Longrightarrow>
   scan d p (ts @ rest) = scan d (last ts) rest \<and> ts \<noteq> []"
proof (induction c arbitrary: ts p d rest)
  case (Simple ws)
  then have "ts \<noteq> []" by (auto simp: plain_words_def reads_def)
  then show ?case using Simple words_pass [of ws ts d p rest] by simp
next
  case (If_then ws t)
  then obtain t0 tw s1 th tt s2 fi where ts: "ts = t0 # tw @ s1 # th # tt @ s2 # [fi]"
    and r: "reads tw ws" "reads tt (cmd_items t)"
    and k: "tok_text t0 = ''if''" "tok_kind t0 = Tok_word" "tok_kind s1 = Tok_sequence" "tok_text th = ''then''"
      "tok_kind th = Tok_word" "tok_kind s2 = Tok_sequence" "tok_text fi = ''fi''" "tok_kind fi = Tok_word"
    by (auto simp: item_kind_keyword reads_append)
  have "scan d p (ts @ rest) = scan (d + 1) th (tt @ s2 # fi # rest)"
    using head_pass [of p t0 ws tw s1 th d] If_then.prems r k by (simp add: ts keyword_is_compound_open_def)
  also have "\<dots> = scan d fi rest"
    using If_then.IH [OF _ r(2), of th "d + 1" "s2 # fi # rest"] close_pass [of s2 fi d] If_then.prems k
    by (simp add: starts_after_def)
  finally show ?case by (simp add: ts)
next
  case (If_else ws t e)
  then obtain t0 tw s1 th tt s2 el te s3 fi where ts: "ts = t0 # tw @ s1 # th # tt @ s2 # el # te @ s3 # [fi]"
    and r: "reads tw ws" "reads tt (cmd_items t)" "reads te (cmd_items e)"
    and k: "tok_text t0 = ''if''" "tok_kind t0 = Tok_word" "tok_kind s1 = Tok_sequence" "tok_text th = ''then''"
      "tok_kind th = Tok_word" "tok_kind s2 = Tok_sequence" "tok_text el = ''else''" "tok_kind el = Tok_word"
      "tok_kind s3 = Tok_sequence" "tok_text fi = ''fi''" "tok_kind fi = Tok_word"
    by (auto simp: item_kind_keyword reads_append)
  have "scan d p (ts @ rest) = scan (d + 1) th (tt @ s2 # el # te @ s3 # fi # rest)"
    using head_pass [of p t0 ws tw s1 th d] If_else.prems r k by (simp add: ts keyword_is_compound_open_def)
  also have "\<dots> = scan (d + 1) el (te @ s3 # fi # rest)"
    using If_else.IH(1) [OF _ r(2), of th "d + 1" "s2 # el # te @ s3 # fi # rest"] else_pass [of s2 el d] If_else.prems k
    by (simp add: starts_after_def)
  also have "\<dots> = scan d fi rest"
    using If_else.IH(2) [OF _ r(3), of el "d + 1" "s3 # fi # rest"] close_pass [of s3 fi d] If_else.prems k
    by (simp add: starts_after_def)
  finally show ?case by (simp add: ts)
next
  case (Loop w ws b)
  then obtain t0 tw s1 dt tb s2 fin where ts: "ts = t0 # tw @ s1 # dt # tb @ s2 # [fin]"
    and r: "reads tw ws" "reads tb (cmd_items b)"
    and k: "tok_text t0 = (if w then ''while'' else ''until'')" "tok_kind t0 = Tok_word" "tok_kind s1 = Tok_sequence"
      "tok_text dt = ''do''" "tok_kind dt = Tok_word" "tok_kind s2 = Tok_sequence" "tok_text fin = ''done''"
      "tok_kind fin = Tok_word"
    by (auto simp: item_kind_keyword reads_append)
  have "scan d p (ts @ rest) = scan (d + 1) dt (tb @ s2 # fin # rest)"
    using head_pass [of p t0 ws tw s1 dt d] Loop.prems r k by (simp add: ts keyword_is_compound_open_def)
  also have "\<dots> = scan d fin rest"
    using Loop.IH [OF _ r(2), of dt "d + 1" "s2 # fin # rest"] close_pass [of s2 fin d] Loop.prems k
    by (simp add: starts_after_def)
  finally show ?case by (simp add: ts)
next
  case (For x ws b)
  then obtain t0 t1 t2 tw s1 dt tb s2 fin where ts: "ts = t0 # (t1 # t2 # tw) @ s1 # dt # tb @ s2 # [fin]"
    and r: "reads tw ws" "reads tb (cmd_items b)"
    and k: "tok_text t0 = ''for''" "tok_kind t0 = Tok_word" "tok_text t1 = x" "tok_kind t1 = item_kind x"
      "tok_text t2 = ''in''" "tok_kind t2 = item_kind ''in''" "tok_kind s1 = Tok_sequence"
      "tok_text dt = ''do''" "tok_kind dt = Tok_word" "tok_kind s2 = Tok_sequence" "tok_text fin = ''done''"
      "tok_kind fin = Tok_word"
    by (auto simp: item_kind_keyword reads_append)
  have "plain_words (x # ''in'' # ws)"
    using For.prems(1) in_plain by (simp add: plain_words_def)
  then have "scan d p (ts @ rest) = scan (d + 1) dt (tb @ s2 # fin # rest)"
    using head_pass [of p t0 "x # ''in'' # ws" "t1 # t2 # tw" s1 dt d] For.prems r k
    by (simp add: ts keyword_is_compound_open_def)
  also have "\<dots> = scan d fin rest"
    using For.IH [OF _ r(2), of dt "d + 1" "s2 # fin # rest"] close_pass [of s2 fin d] For.prems k
    by (simp add: starts_after_def)
  finally show ?case by (simp add: ts)
next
  case (Seq a b)
  then obtain ta s tb where ts: "ts = ta @ s # tb" and r: "reads ta (cmd_items a)" "reads tb (cmd_items b)"
    and k: "tok_kind s = Tok_sequence"
    by (auto simp: item_kind_keyword reads_append)
  have "scan d p (ts @ rest) = scan d s (tb @ rest)"
    using Seq.IH(1) [OF _ r(1), of p d "s # tb @ rest"] Seq.prems k by (auto simp: ts semi_pass)
  moreover have "scan d s (tb @ rest) = scan d (last tb) rest \<and> tb \<noteq> []"
    using Seq.IH(2) [OF _ r(2), of s d rest] Seq.prems k by (auto simp: starts_after_def)
  ultimately show ?case by (simp add: ts)
qed

end

interpretation then_scan: keyword_scan "find_keyword (\<lambda>w. w = ''then'') line" line "\<lambda>w. w = ''then''" "\<lambda>_. False"
  for line
  by unfold_locales (auto simp: marks_def)

interpretation do_scan: keyword_scan "find_keyword (\<lambda>w. w = ''do'') line" line "\<lambda>w. w = ''do''" "\<lambda>_. False"
  for line
  by unfold_locales (auto simp: marks_def)

interpretation done_scan: keyword_scan "find_keyword (\<lambda>w. w = ''done'') line" line "\<lambda>w. w = ''done''" "\<lambda>_. False"
  for line
  by unfold_locales (auto simp: marks_def)

interpretation if_scan: keyword_scan "\<lambda>d. if_tail_loop line d els" line "\<lambda>w. w = ''else'' \<or> w = ''fi''"
  "\<lambda>_. False" for line els
  by unfold_locales (auto simp: marks_def)

subsection \<open>Positions\<close>

text \<open>The token of an item after the items \<open>xs\<close>, and the tokens of several items.\<close>

definition token_after :: "string list \<Rightarrow> string \<Rightarrow> token" where
  "token_after xs w = item_token (length (items_text (xs @ [w])) - length w) w"

fun tokens_after :: "string list \<Rightarrow> string list \<Rightarrow> token list" where
  "tokens_after xs [] = []"
| "tokens_after xs (w # ws) = token_after xs w # tokens_after (xs @ [w]) ws"

lemma tokens_after_append: "tokens_after xs (ys @ zs) = tokens_after xs ys @ tokens_after (xs @ ys) zs"
  by (induction ys arbitrary: xs) auto

lemma items_text_snoc: "xs \<noteq> [] \<Longrightarrow> items_text (xs @ [w]) = items_text xs @ item_sep w @ w"
  by (simp add: items_text_append)

lemma item_tokens_from:
  "xs \<noteq> [] \<Longrightarrow> ws \<noteq> [] \<Longrightarrow> item_tokens (length (items_text xs) + length (item_sep (hd ws))) ws = tokens_after xs ws"
proof (induction ws arbitrary: xs)
  case (Cons w ws)
  show ?case
  proof (cases ws)
    case Nil
    then show ?thesis using Cons.prems by (simp add: token_after_def items_text_snoc)
  next
    case (Cons v vs)
    with Cons.IH [of "xs @ [w]"] Cons.prems show ?thesis
      by (simp add: token_after_def items_text_snoc add.assoc)
  qed
qed simp

lemma item_tokens_after: "item_tokens 0 ws = tokens_after [] ws"
proof (cases ws)
  case (Cons w vs)
  then show ?thesis
    using item_tokens_from [of "[w]" vs] by (cases vs) (simp_all add: token_after_def)
qed simp

lemma tokens_after_reads: "reads (tokens_after xs ws) ws"
  by (induction ws arbitrary: xs) (simp_all add: token_after_def item_token_def)

lemma token_after_simps [simp]:
  "tok_kind (token_after xs w) = item_kind w" "tok_text (token_after xs w) = w"
  "token_end (token_after xs w) = length (items_text (xs @ [w]))"
proof -
  have "length w \<le> length (items_text (xs @ [w]))" by (cases "xs = []") (simp_all add: items_text_snoc)
  then show "token_end (token_after xs w) = length (items_text (xs @ [w]))"
    by (simp add: token_after_def item_token_def token_end_def)
qed (simp_all add: token_after_def item_token_def)

subsection \<open>Segments\<close>

text \<open>A text that trimming leaves alone.\<close>

definition segment_ok :: "string \<Rightarrow> bool" where
  "segment_ok s \<longleftrightarrow> s \<noteq> [] \<and> \<not> c_isspace (hd s) \<and> \<not> c_isspace (last s) \<and> last s \<noteq> CHR '';''"

lemma trim_segment: "segment_ok s \<Longrightarrow> trim_text s = s"
proof -
  assume s: "segment_ok s"
  then have "dropWhile c_isspace s = s" "dropWhile c_isspace (rev s) = rev s"
    by (simp_all add: segment_ok_def dropWhile_eq_self_iff hd_rev)
  then show ?thesis by (simp add: trim_text_def)
qed

lemma trim_around: "segment_ok s \<Longrightarrow> trim_text ('' '' @ s @ '';'' @ '' '') = s @ '';''"
  by (cases s) (auto simp: segment_ok_def trim_text_def c_isspace_def dropWhile_append)

lemma segment_between:
  assumes "segment_ok s" and "line = pre @ '' '' @ s @ '';'' @ '' '' @ post" and "length line < max_line"
    and "i = length pre" and "j = length pre + length s + 3"
  shows "trim_compound_segment line i j = s"
proof -
  have len: "length s + 3 < max_line" using assms(2,3) by simp
  have "take (min (j - i) (max_line - 1)) (drop i line) = '' '' @ s @ '';'' @ '' ''"
    using assms(2,4,5) len by (simp add: numeral_3_eq_3)
  then have "copy_trimmed_slice line i j = s @ '';''"
    using trim_around [OF assms(1)] len by (simp add: copy_trimmed_slice_def trim_copy_def)
  moreover have "strip_semicolons (s @ '';'') = s"
  proof -
    have "strip_semicolons s = s" using assms(1) by (simp add: strip_semicolons.simps [of s] segment_ok_def)
    then show ?thesis
      using trim_segment [OF assms(1)] len by (simp add: strip_semicolons.simps [of "s @ '';''"] trim_copy_def)
  qed
  ultimately show ?thesis by (simp add: trim_compound_segment_def)
qed

lemma hd_items: "ws \<noteq> [] \<Longrightarrow> hd ws \<noteq> [] \<Longrightarrow> hd (items_text ws) = hd (hd ws) \<and> items_text ws \<noteq> []"
  by (cases ws rule: items_text.cases) auto

lemma last_items: "ws \<noteq> [] \<Longrightarrow> last ws \<noteq> [] \<Longrightarrow> last (items_text ws) = last (last ws)"
proof (induction ws rule: rev_induct)
  case (snoc w ws)
  then show ?case by (cases "ws = []") (simp_all add: items_text_snoc)
qed simp

lemma plain_segment:
  assumes "ws \<noteq> []" and "plain_word (hd ws)" and "plain_word (last ws)"
  shows "segment_ok (items_text ws)"
proof -
  have h: "hd ws \<noteq> []" "plain_char (hd (hd ws))" using assms(2) by (cases "hd ws"; simp add: plain_word_def)+
  have l: "last ws \<noteq> []" "plain_char (last (last ws))"
    using assms(3) by (auto simp: plain_word_def list_all_iff)
  show ?thesis
    using hd_items [OF assms(1) h(1)] last_items [OF assms(1) l(1)] plain_char_not [OF h(2)] plain_char_not [OF l(2)]
    by (simp add: segment_ok_def)
qed

text \<open>The segment between two keywords of a line of items.\<close>

lemma keyword_segment:
  assumes "line = items_text (xs @ ws @ '';'' # k # ys)" and "xs \<noteq> []" and "ws \<noteq> []" and "plain_word (hd ws)"
    and "plain_word (last ws)" and "k \<noteq> '';''" and "length line < max_line" and "i = length (items_text xs)"
  shows "trim_compound_segment line i (tok_pos (token_after (xs @ ws @ ['';'']) k)) = items_text ws"
proof -
  have w: "hd ws \<noteq> '';''" using assms(4) plain_not_operator [of "hd ws"] by (auto simp: operators_def)
  have "items_text (xs @ ws @ '';'' # k # ys) =
      items_text xs @ '' '' @ items_text ws @ '';'' @ '' '' @ items_text (k # ys)"
    using assms(2,3,6) w by (simp add: items_text_append item_sep_def)
  moreover have "tok_pos (token_after (xs @ ws @ ['';'']) k) = length (items_text xs) + length (items_text ws) + 3"
    using assms(2,3,6) w by (simp add: token_after_def item_token_def items_text_append item_sep_def)
  ultimately show ?thesis
    using segment_between [OF plain_segment [OF assms(3-5)], of line "items_text xs" "items_text (k # ys)"] assms(1,7,8)
    by simp
qed

subsection \<open>Parsing printed commands\<close>

definition cmd_text :: "cmd \<Rightarrow> string" where
  "cmd_text c = items_text (cmd_items c)"

lemma keywords_plain:
  "plain_word ''if''" "plain_word ''then''" "plain_word ''else''" "plain_word ''fi''" "plain_word ''while''"
  "plain_word ''until''" "plain_word ''for''" "plain_word ''in''" "plain_word ''do''" "plain_word ''done''"
  by code_simp+

lemma plain_words_ends: "plain_words ws \<Longrightarrow> ws \<noteq> [] \<and> plain_word (hd ws) \<and> plain_word (last ws)"
  by (cases ws) (auto simp: plain_words_def list_all_iff)

lemma cmd_ends: "cmd_ok c \<Longrightarrow> cmd_items c \<noteq> [] \<and> plain_word (hd (cmd_items c)) \<and> plain_word (last (cmd_items c))"
  by (induction c) (auto simp: keywords_plain plain_words_ends)

lemma find_from:
  assumes "plain_words ws" and "tok_kind p = Tok_word"
  shows "find_keyword (\<lambda>w. w = ''then'') line 0 p (tokens_after xs (ws @ '';'' # [''then'']) @ r) =
      Some (token_after (xs @ ws @ ['';'']) ''then'', r)"
    and "find_keyword (\<lambda>w. w = ''do'') line 0 p (tokens_after xs (ws @ '';'' # [''do'']) @ r) =
      Some (token_after (xs @ ws @ ['';'']) ''do'', r)"
proof -
  note pass = tokens_after_reads [of xs ws]
  show "find_keyword (\<lambda>w. w = ''then'') line 0 p (tokens_after xs (ws @ '';'' # [''then'']) @ r) =
      Some (token_after (xs @ ws @ ['';'']) ''then'', r)"
    using then_scan.words_pass [OF _ pass, of line 0 p] assms(1)
    by (simp add: tokens_after_append item_kind_keyword token_starts_command_def)
  show "find_keyword (\<lambda>w. w = ''do'') line 0 p (tokens_after xs (ws @ '';'' # [''do'']) @ r) =
      Some (token_after (xs @ ws @ ['';'']) ''do'', r)"
    using do_scan.words_pass [OF _ pass, of line 0 p] assms(1)
    by (simp add: tokens_after_append item_kind_keyword token_starts_command_def)
qed

lemma find_done:
  assumes "cmd_ok b"
  shows "find_keyword (\<lambda>w. w = ''done'') line 0 (token_after ys ''do'') (tokens_after xs (cmd_items b @ '';'' # [''done'']) @ r) =
      Some (token_after (xs @ cmd_items b @ ['';'']) ''done'', r)"
  using done_scan.cmd_pass [OF assms tokens_after_reads, of "token_after ys ''do''" 0 line xs]
  by (simp add: tokens_after_append item_kind_keyword token_starts_command_def starts_after_def)

lemma if_tail_fi:
  assumes "cmd_ok t" and "starts_after p"
  shows "if_tail_loop line 0 els p (tokens_after xs (cmd_items t @ '';'' # [''fi'']) @ r) =
      Some (token_after (xs @ cmd_items t @ ['';'']) ''fi'', els, r)"
  using if_scan.cmd_pass [where line = line and els = els and d = 0, OF assms(1) tokens_after_reads [of xs] assms(2)]
  by (simp add: tokens_after_append item_kind_keyword token_starts_command_def)

lemma if_tail_else:
  assumes "cmd_ok t" and "starts_after p"
  shows "if_tail_loop line 0 els p (tokens_after xs (cmd_items t @ '';'' # [''else'']) @ r) =
      if_tail_loop line 0 (Some (token_after (xs @ cmd_items t @ ['';'']) ''else''))
        (token_after (xs @ cmd_items t @ ['';'']) ''else'') r"
  using if_scan.cmd_pass [where line = line and els = els and d = 0, OF assms(1) tokens_after_reads [of xs] assms(2)]
  by (simp add: tokens_after_append item_kind_keyword token_starts_command_def)

abbreviation eof_at :: "nat \<Rightarrow> token" where
  "eof_at n \<equiv> \<lparr>tok_kind = Tok_eof, tok_text = [], tok_raw = [], tok_pos = n\<rparr>"

lemma segment_nonempty: "ws \<noteq> [] \<Longrightarrow> plain_word (hd ws) \<Longrightarrow> items_text ws \<noteq> []"
  using hd_items [of ws] by (auto simp: plain_word_def)

lemma parse_if:
  assumes "cmd_ok (If_then ws t)" and "line = items_text (cmd_items (If_then ws t) @ ys)" and "length line < max_line"
  shows "parse_if_command_tokens line (tokens_after [] (cmd_items (If_then ws t)) @ r) =
    (if at_end r then Inr \<lparr>if_condition = items_text ws, if_then = cmd_text t, if_else = None\<rparr>
     else perr ''unexpected token after fi'')"
proof -
  let ?x1 = "[''if''] @ ws @ ['';'', ''then'']"
  let ?th = "token_after ([''if''] @ ws @ ['';'']) ''then''" and ?fi = "token_after (?x1 @ cmd_items t @ ['';'']) ''fi''"
  have ok: "plain_words ws" "cmd_ok t" using assms(1) by simp_all
  note ends = plain_words_ends [OF ok(1)] cmd_ends [OF ok(2)]
  have toks: "tokens_after [] (cmd_items (If_then ws t)) = token_after [] ''if'' #
      tokens_after [''if''] (ws @ '';'' # [''then'']) @ tokens_after ?x1 (cmd_items t @ '';'' # [''fi''])"
    by (simp add: tokens_after_append)
  have "trim_compound_segment line (length (items_text [''if''])) (tok_pos ?th) = items_text ws"
    by (rule keyword_segment [where ys = "(cmd_items t @ '';'' # [''fi'']) @ ys"])
      (use assms(2,3) ends in \<open>simp_all add: cmd_text_def\<close>)
  moreover have "trim_compound_segment line (length (items_text ?x1)) (tok_pos ?fi) = items_text (cmd_items t)"
    by (rule keyword_segment [where ys = ys]) (use assms(2,3) ends in \<open>simp_all add: cmd_text_def\<close>)
  moreover have "if_tail_loop line 0 None ?th (tokens_after ?x1 (cmd_items t @ '';'' # [''fi'']) @ r) =
      Some (?fi, None, r)"
    by (rule if_tail_fi [OF ok(2)]) (simp add: starts_after_def item_kind_keyword)
  ultimately show ?thesis
    unfolding toks using find_from(1) [OF ok(1), of "token_after [] ''if''" line "[''if'']"] segment_nonempty ends
    by (simp add: parse_if_command_tokens_def token_is_word_value_def item_kind_keyword cmd_text_def Let_def)
qed

lemma parse_if_else:
  assumes "cmd_ok (If_else ws t e)" and "line = items_text (cmd_items (If_else ws t e) @ ys)" and "length line < max_line"
  shows "parse_if_command_tokens line (tokens_after [] (cmd_items (If_else ws t e)) @ r) =
    (if at_end r then Inr \<lparr>if_condition = items_text ws, if_then = cmd_text t, if_else = Some (cmd_text e)\<rparr>
     else perr ''unexpected token after fi'')"
proof -
  let ?x1 = "[''if''] @ ws @ ['';'', ''then'']"
  let ?x2 = "?x1 @ cmd_items t @ ['';'', ''else'']"
  let ?th = "token_after ([''if''] @ ws @ ['';'']) ''then''" and ?el = "token_after (?x1 @ cmd_items t @ ['';'']) ''else''"
    and ?fi = "token_after (?x2 @ cmd_items e @ ['';'']) ''fi''"
  have ok: "plain_words ws" "cmd_ok t" "cmd_ok e" using assms(1) by simp_all
  note ends = plain_words_ends [OF ok(1)] cmd_ends [OF ok(2)] cmd_ends [OF ok(3)]
  have toks: "tokens_after [] (cmd_items (If_else ws t e)) = token_after [] ''if'' #
      tokens_after [''if''] (ws @ '';'' # [''then'']) @ tokens_after ?x1 (cmd_items t @ '';'' # [''else'']) @
      tokens_after ?x2 (cmd_items e @ '';'' # [''fi''])"
    by (simp add: tokens_after_append)
  have "trim_compound_segment line (length (items_text [''if''])) (tok_pos ?th) = items_text ws"
    by (rule keyword_segment [where ys = "(cmd_items t @ '';'' # ''else'' # cmd_items e @ '';'' # [''fi'']) @ ys"])
      (use assms(2,3) ends in \<open>simp_all add: cmd_text_def\<close>)
  moreover have "trim_compound_segment line (length (items_text ?x1)) (tok_pos ?el) = items_text (cmd_items t)"
    by (rule keyword_segment [where ys = "(cmd_items e @ '';'' # [''fi'']) @ ys"])
      (use assms(2,3) ends in \<open>simp_all add: cmd_text_def\<close>)
  moreover have "trim_compound_segment line (length (items_text ?x2)) (tok_pos ?fi) = items_text (cmd_items e)"
    by (rule keyword_segment [where ys = ys]) (use assms(2,3) ends in \<open>simp_all add: cmd_text_def\<close>)
  moreover have "if_tail_loop line 0 None ?th (tokens_after ?x1 (cmd_items t @ '';'' # [''else'']) @
        tokens_after ?x2 (cmd_items e @ '';'' # [''fi'']) @ r) = Some (?fi, Some ?el, r)"
    using if_tail_else [OF ok(2), of ?th line None ?x1] if_tail_fi [OF ok(3), of ?el line "Some ?el" ?x2]
    by (simp add: starts_after_def item_kind_keyword)
  ultimately show ?thesis
    unfolding toks using find_from(1) [OF ok(1), of "token_after [] ''if''" line "[''if'']"] segment_nonempty ends
    by (simp add: parse_if_command_tokens_def token_is_word_value_def item_kind_keyword cmd_text_def Let_def)
qed

lemma parse_loop:
  assumes "cmd_ok (Loop w ws b)" and "line = items_text (cmd_items (Loop w ws b) @ ys)" and "length line < max_line"
    and "kw = (if w then ''while'' else ''until'')"
  shows "parse_loop_tokens kw line (tokens_after [] (cmd_items (Loop w ws b)) @ r) =
    (if at_end r then Inr \<lparr>lp_condition = items_text ws, lp_body = cmd_text b\<rparr>
     else perr ''unexpected token after done'')"
proof -
  let ?x1 = "[kw] @ ws @ ['';'', ''do'']"
  let ?dt = "token_after ([kw] @ ws @ ['';'']) ''do''" and ?fin = "token_after (?x1 @ cmd_items b @ ['';'']) ''done''"
  have ok: "plain_words ws" "cmd_ok b" using assms(1) by simp_all
  note ends = plain_words_ends [OF ok(1)] cmd_ends [OF ok(2)]
  have kind: "item_kind kw = Tok_word" by (simp add: assms(4) item_kind_keyword)
  have toks: "tokens_after [] (cmd_items (Loop w ws b)) = token_after [] kw #
      tokens_after [kw] (ws @ '';'' # [''do'']) @ tokens_after ?x1 (cmd_items b @ '';'' # [''done''])"
    by (simp add: tokens_after_append assms(4))
  have "trim_compound_segment line (length (items_text [kw])) (tok_pos ?dt) = items_text ws"
    by (rule keyword_segment [where ys = "(cmd_items b @ '';'' # [''done'']) @ ys"])
      (use assms(2-4) ends in \<open>simp_all add: cmd_text_def\<close>)
  moreover have "trim_compound_segment line (length (items_text ?x1)) (tok_pos ?fin) = items_text (cmd_items b)"
    by (rule keyword_segment [where ys = ys]) (use assms(2-4) ends in \<open>simp_all add: cmd_text_def\<close>)
  ultimately show ?thesis
    unfolding toks using find_from(2) [OF ok(1), of "token_after [] kw" line "[kw]"] find_done [OF ok(2)] segment_nonempty ends kind
    by (simp add: parse_loop_tokens_def token_is_word_value_def cmd_text_def Let_def)
qed

lemma parse_for:
  assumes "cmd_ok (For x ws b)" and "line = items_text (cmd_items (For x ws b) @ ys)" and "length line < max_line"
  shows "parse_for_command_tokens line (tokens_after [] (cmd_items (For x ws b)) @ r) =
    (if at_end r then Inr \<lparr>for_variable = x, for_source = items_text ws, for_body = cmd_text b\<rparr>
     else perr ''unexpected token after done'')"
proof -
  let ?x0 = "[''for'', x, ''in'']"
  let ?x1 = "?x0 @ ws @ ['';'', ''do'']"
  let ?dt = "token_after (?x0 @ ws @ ['';'']) ''do''" and ?fin = "token_after (?x1 @ cmd_items b @ ['';'']) ''done''"
  have ok: "plain_words ws" "cmd_ok b" "plain_word x" "is_identifier_text x" "length x < max_name" using assms(1) by simp_all
  note ends = plain_words_ends [OF ok(1)] cmd_ends [OF ok(2)]
  have toks: "tokens_after [] (cmd_items (For x ws b)) = token_after [] ''for'' # token_after [''for''] x #
      token_after [''for'', x] ''in'' #
      tokens_after ?x0 (ws @ '';'' # [''do'']) @ tokens_after ?x1 (cmd_items b @ '';'' # [''done''])"
    by (simp add: tokens_after_append)
  have "trim_compound_segment line (length (items_text ?x0)) (tok_pos ?dt) = items_text ws"
    by (rule keyword_segment [where ys = "(cmd_items b @ '';'' # [''done'']) @ ys"])
      (use assms(2,3) ends in \<open>simp_all add: cmd_text_def\<close>)
  moreover have "trim_compound_segment line (length (items_text ?x1)) (tok_pos ?fin) = items_text (cmd_items b)"
    by (rule keyword_segment [where ys = ys]) (use assms(2,3) ends in \<open>simp_all add: cmd_text_def\<close>)
  ultimately show ?thesis
    unfolding toks using find_from(2) [OF ok(1), of "token_after [''for'', x] ''in''" line ?x0] find_done [OF ok(2)] segment_nonempty ends ok
    by (simp add: parse_for_command_tokens_def token_is_word_value_def item_kind_keyword cmd_text_def Let_def)
qed

subsection \<open>Whole lines\<close>

fun compound :: "cmd \<Rightarrow> bool" where
  "compound (Simple ws) = False"
| "compound (Seq a b) = False"
| "compound c = True"

text \<open>The node of a compound command.\<close>

fun cmd_node :: "cmd \<Rightarrow> 'n ast" where
  "cmd_node (If_then ws t) = Ast_if_command \<lparr>if_condition = items_text ws, if_then = cmd_text t, if_else = None\<rparr>"
| "cmd_node (If_else ws t e) =
     Ast_if_command \<lparr>if_condition = items_text ws, if_then = cmd_text t, if_else = Some (cmd_text e)\<rparr>"
| "cmd_node (Loop is_while ws b) =
     (if is_while then Ast_while_command else Ast_until_command) \<lparr>lp_condition = items_text ws, lp_body = cmd_text b\<rparr>"
| "cmd_node (For x ws b) = Ast_for_command \<lparr>for_variable = x, for_source = items_text ws, for_body = cmd_text b\<rparr>"
| "cmd_node c = Ast_empty"

lemma items_ok_append:
  "items_ok xs \<Longrightarrow> items_ok ys \<Longrightarrow> plain_word (last xs) \<or> hd ys \<noteq> '';'' \<Longrightarrow> xs \<noteq> [] \<Longrightarrow> items_ok (xs @ ys)"
proof (induction xs rule: items_ok.induct)
  case (2 w)
  then show ?case by (cases ys) (auto dest: plain_not_operator)
qed auto

lemma items_ok_semi:
  "items_ok xs \<Longrightarrow> plain_word (last xs) \<Longrightarrow> xs \<noteq> [] \<Longrightarrow> items_ok (k # ys) \<Longrightarrow> plain_word k \<Longrightarrow> items_ok (xs @ '';'' # k # ys)"
  using items_ok_append [of xs "'';'' # k # ys"] plain_not_operator [of k]
  by (auto simp: item_ok_def operators_def)

lemma items_ok_plain: "list_all plain_word ws \<Longrightarrow> items_ok ws"
  by (induction ws rule: items_ok.induct) (auto simp: item_ok_def dest: plain_not_operator)

lemma items_ok_word: "plain_word w \<Longrightarrow> items_ok ws \<Longrightarrow> items_ok (w # ws)"
  by (cases ws) (auto simp: item_ok_def dest: plain_not_operator)

lemma plain_words_ok: "plain_words ws \<Longrightarrow> items_ok ws"
  by (rule items_ok_plain) (auto simp: plain_words_def list_all_iff)

lemma cmd_items_ok: "cmd_ok c \<Longrightarrow> items_ok (cmd_items c)"
proof (induction c)
  case (Seq a b)
  obtain k ys where "cmd_items b = k # ys" "plain_word k" using cmd_ends [of b] Seq.prems by (cases "cmd_items b") auto
  then show ?case using Seq cmd_ends [of a] items_ok_semi [of "cmd_items a" k ys] by simp
qed (auto intro!: items_ok_word items_ok_semi simp: keywords_plain plain_words_ok plain_words_ends cmd_ends
    simp del: items_ok.simps(2,3) dest: plain_words_ends)

lemma compound_line:
  assumes "compound c" and "cmd_ok c"
  obtains kw s where "items_text (cmd_items c @ ys) = kw @ CHR '' '' # s" and "kw \<in> {''if'', ''while'', ''until'', ''for''}"
proof -
  have "\<exists>kw v xs. cmd_items c = kw # v # xs \<and> plain_word v \<and> kw \<in> {''if'', ''while'', ''until'', ''for''}"
  proof (cases c)
    case (If_then ws t)
    then show ?thesis using assms(2) plain_words_ends [of ws] by (cases ws) simp_all
  next
    case (If_else ws t e)
    then show ?thesis using assms(2) plain_words_ends [of ws] by (cases ws) simp_all
  next
    case (Loop w ws b)
    then show ?thesis using assms(2) plain_words_ends [of ws] by (cases ws) simp_all
  qed (use assms in simp_all)
  then obtain kw v xs where c: "cmd_items c = kw # v # xs" "plain_word v" "kw \<in> {''if'', ''while'', ''until'', ''for''}"
    by blast
  then have "v \<noteq> '';''" using plain_not_operator [of v] by (auto simp: operators_def)
  then have "items_text (cmd_items c @ ys) = kw @ CHR '' '' # items_text (v # xs @ ys)" using c(1) by (simp add: item_sep_def)
  then show thesis using c(3) that by blast
qed

lemma compound_starts:
  assumes "compound c" and "cmd_ok c"
  shows "starts_with_compound_construct (items_text (cmd_items c @ ys))"
proof -
  obtain kw s where "items_text (cmd_items c @ ys) = kw @ CHR '' '' # s" "kw \<in> {''if'', ''while'', ''until'', ''for''}"
    using compound_line [OF assms] .
  then show ?thesis
    by (auto simp: starts_with_compound_construct_def c_isspace_def keyword_is_compound_open_def max_name_def)
qed

lemma not_first: "\<not> token_is_word_value t kw \<Longrightarrow> parse_loop_tokens kw line (t # ts) = Inl None"
  "\<not> token_is_word_value t ''if'' \<Longrightarrow> parse_if_command_tokens line (t # ts) = Inl None"
  by (simp_all add: parse_loop_tokens_def parse_if_command_tokens_def)

text \<open>What the parser says of a token behind a compound command.\<close>

fun after_message :: "cmd \<Rightarrow> string" where
  "after_message (If_then ws t) = ''unexpected token after fi''"
| "after_message (If_else ws t e) = ''unexpected token after fi''"
| "after_message c = ''unexpected token after done''"

lemma attempt_if:
  "e \<noteq> [] \<Longrightarrow> fatal e \<Longrightarrow> attempt (if b then Inr x else perr e) wrap fatal err k = (if b then Inr (wrap x) else Inl e)"
  by (simp add: attempt_def)

lemma attempt_none: "\<not> fatal err \<Longrightarrow> attempt (Inl None) wrap fatal err k = k err"
  by (simp add: attempt_def)

lemma parse_tokens_compound:
  assumes "compound c" and "cmd_ok c" and "line = items_text (cmd_items c @ ys)" and "length line < max_line"
  shows "parse_tokens vp line (tokens_after [] (cmd_items c) @ r) docs =
    (if at_end r then Inr (cmd_node c) else Inl (after_message c))"
proof (cases c)
  case (If_then ws t)
  show ?thesis
    unfolding parse_tokens_def using parse_if [of ws t line ys r] assms
    by (simp add: If_then attempt_if if_fatal_def del: cmd_items.simps)
next
  case (If_else ws t e)
  show ?thesis
    unfolding parse_tokens_def using parse_if_else [of ws t e line ys r] assms
    by (simp add: If_else attempt_if if_fatal_def del: cmd_items.simps)
next
  case (Loop w ws b)
  define kw where "kw = (if w then ''while'' else ''until'')"
  obtain ts where ts: "tokens_after [] (cmd_items c) = token_after [] kw # ts" by (simp add: Loop kw_def)
  have "parse_loop_tokens kw line (token_after [] kw # ts @ r) =
      (if at_end r then Inr \<lparr>lp_condition = items_text ws, lp_body = cmd_text b\<rparr>
       else perr ''unexpected token after done'')"
    using parse_loop [of w ws b line ys kw r] assms ts by (simp add: Loop kw_def del: cmd_items.simps)
  then show ?thesis
    unfolding parse_tokens_def parse_while_command_tokens_def parse_until_command_tokens_def ts
    by (cases w) (simp_all add: not_first attempt_none attempt_if token_is_word_value_def Loop kw_def if_fatal_def
        while_fatal_def until_fatal_def)
next
  case (For x ws b)
  obtain ts where ts: "tokens_after [] (cmd_items c) = token_after [] ''for'' # ts" by (simp add: For)
  have "parse_for_command_tokens line (token_after [] ''for'' # ts @ r) =
      (if at_end r then Inr \<lparr>for_variable = x, for_source = items_text ws, for_body = cmd_text b\<rparr>
       else perr ''unexpected token after done'')"
    using parse_for [of x ws b line ys r] assms ts by (simp add: For del: cmd_items.simps)
  then show ?thesis
    unfolding parse_tokens_def parse_while_command_tokens_def parse_until_command_tokens_def ts
    by (simp add: not_first attempt_none attempt_if token_is_word_value_def For if_fatal_def while_fatal_def
        until_fatal_def for_fatal_def)
qed (use assms in simp_all)

lemma trim_copy_items:
  "ws \<noteq> [] \<Longrightarrow> plain_word (hd ws) \<Longrightarrow> plain_word (last ws) \<Longrightarrow> length (items_text ws) < max_line \<Longrightarrow>
   trim_copy max_line (items_text ws) = items_text ws"
  using trim_segment [OF plain_segment] by (simp add: trim_copy_def copy_string_def)

text \<open>A line that starts with a compound command.\<close>

lemma parse_compound_items:
  assumes "compound c" and "cmd_ok c" and "items_ok (cmd_items c @ ys)" and "plain_word (last (cmd_items c @ ys))"
    and "length (items_text (cmd_items c @ ys)) < max_line" and "length (cmd_items c @ ys) < max_lexer_tokens"
  shows "arksh_parse_line vp (items_text (cmd_items c @ ys)) =
    (if ys = [] then Inr (cmd_node c) else Inl (after_message c))"
proof -
  let ?line = "items_text (cmd_items c @ ys)"
  let ?r = "tokens_after (cmd_items c) ys @ [eof_at (length ?line)]"
  have e: "cmd_items c @ ys \<noteq> []" "plain_word (hd (cmd_items c @ ys))" using cmd_ends [OF assms(2)] by auto
  have trim: "trim_copy max_line ?line = ?line" "?line \<noteq> []"
    using trim_copy_items [OF e assms(4,5)] segment_nonempty [OF e] by simp_all
  have lex: "arksh_lex_line ?line = Inr (tokens_after [] (cmd_items c) @ ?r)"
    using lex_items [OF assms(3) e(1) assms(6)] by (simp add: item_tokens_after tokens_after_append)
  have kinds: "item_kind w \<noteq> Tok_eof" for w by (simp add: item_kind_def)
  have "at_end ?r \<longleftrightarrow> ys = []" by (cases ys) (simp_all add: at_end_def kinds)
  then have "parse_tokens vp ?line (tokens_after [] (cmd_items c) @ ?r) [] =
      (if ys = [] then Inr (cmd_node c) else Inl (after_message c))"
    using parse_tokens_compound [OF assms(1,2) refl assms(5), of vp ?r "[]"] by simp
  then show ?thesis
    using trim compound_starts [OF assms(1,2), of ys] lex
    by (simp add: arksh_parse_line_def parse_with_heredocs_def Let_def)
qed

lemma parse_compound_line:
  assumes "compound c" and "cmd_ok c" and "length (cmd_text c) < max_line" and "length (cmd_items c) < max_lexer_tokens"
  shows "arksh_parse_line vp (cmd_text c) = Inr (cmd_node c)"
  using parse_compound_items [OF assms(1,2), of "[]" vp] assms(3,4) cmd_items_ok [OF assms(2)] cmd_ends [OF assms(2)]
  by (simp add: cmd_text_def)

text \<open>
  (C3) Compound commands survive printing and parsing: for every conditional, with or without an else
  branch, every while or until loop and every for loop over plain words, whose branches and bodies are
  again commands of this kind nested to any depth and joined by semicolons, and whose text and number of
  tokens fit the limits of the shell, the parser applied to the text gives exactly the node of the
  command: condition, branches, loop variable, word list and body are the texts of the parts, and no
  keyword of a nested command is taken for one of the outer command.
\<close>

theorem compound_roundtrip:
  assumes "compound c" and "cmd_ok c" and "length (cmd_text c) < max_line"
    and "length (cmd_items c) < max_lexer_tokens"
  shows "arksh_parse_line vp (cmd_text c) = Inr (cmd_node c)"
  by (rule parse_compound_line [OF assms])

definition nested_example :: cmd where
  "nested_example =
     If_else [''test'', ''a'']
       (Seq (Simple [''echo'', ''then'' @ ''x'']) (Loop True [''true''] (If_then [''b''] (Simple [''break'']))))
       (For ''i'' [''1'', ''2''] (Simple [''echo'', ''i'']))"

theorem compound_roundtrip_witness:
  "arksh_parse_line
     \<lparr>vp_object = \<lambda>_. None, vp_source = \<lambda>_ _. Vs_none [], vp_capture = \<lambda>_. (), vp_stage = \<lambda>_. None\<rparr>
     (cmd_text nested_example) =
   (Inr (cmd_node nested_example) :: string + (unit, unit, unit) node ast)"
  by (rule compound_roundtrip) code_simp+

text \<open>
  Nothing may follow a compound command on its line: a conditional or a loop with a semicolon and
  another command behind it is not a list of two commands but a syntax error, whatever the second
  command is.  The same holds of the bodies of loops and functions, which are parsed as lines.
\<close>

theorem compound_then_command_rejected:
  assumes "compound c" and "cmd_ok c" and "cmd_ok d" and "length (cmd_text (Seq c d)) < max_line"
    and "length (cmd_items (Seq c d)) < max_lexer_tokens"
  shows "arksh_parse_line vp (cmd_text (Seq c d)) = Inl (after_message c)"
  using parse_compound_items [OF assms(1,2), of "'';'' # cmd_items d" vp] cmd_items_ok [of "Seq c d"] cmd_ends [of "Seq c d"] assms
  by (simp add: cmd_text_def)

theorem compound_then_command_rejected_witness:
  "arksh_parse_line
     \<lparr>vp_object = \<lambda>_. None, vp_source = \<lambda>_ _. Vs_none [], vp_capture = \<lambda>_. (), vp_stage = \<lambda>_. None\<rparr>
     (cmd_text (Seq (If_then [''a''] (Simple [''b''])) (Simple [''echo'', ''x'']))) =
   (Inl ''unexpected token after fi'' :: string + (unit, unit, unit) node ast)"
proof -
  have "arksh_parse_line
     \<lparr>vp_object = \<lambda>_. None, vp_source = \<lambda>_ _. Vs_none [], vp_capture = \<lambda>_. (), vp_stage = \<lambda>_. None\<rparr>
     (cmd_text (Seq (If_then [''a''] (Simple [''b''])) (Simple [''echo'', ''x'']))) =
   (Inl (after_message (If_then [''a''] (Simple [''b'']))) :: string + (unit, unit, unit) node ast)"
    by (rule compound_then_command_rejected) code_simp+
  then show ?thesis by simp
qed

end
