(* ===== verification/Parser_Lists.thy ===== *)
theory Parser_Lists
  imports Parser_Roundtrip
begin

text \<open>
  Lists of commands joined by \<open>;\<close>, \<open>&&\<close>, \<open>||\<close> and \<open>&\<close>, printed and parsed again, and what becomes of a
  pipe into a compound command.
\<close>

subsection \<open>Lines without quotes, brackets and line breaks\<close>

definition quiet_char :: "char \<Rightarrow> bool" where
  "quiet_char c \<longleftrightarrow> plain_char c \<or> c \<in> set '' ;&|''"

lemma quiet_char_not:
  assumes "quiet_char c"
  shows "c \<noteq> dquote" "c \<noteq> squote" "c \<noteq> bslash" "c \<noteq> CHR ''(''" "c \<noteq> CHR '')''" "c \<noteq> CHR ''{''" "c \<noteq> CHR ''}''"
    "c \<noteq> CHR ''[''" "c \<noteq> CHR '']''" "\<not> is_newline c"
  using assms by (auto simp: quiet_char_def is_newline_def plain_char_def c_isalnum_def c_isalpha_def c_isdigit_def)

lemma nesting_quiet: "list_all quiet_char s \<Longrightarrow> nesting_loop None p b k s = (p, b, k)"
  by (induction s) (simp_all add: quiet_char_not)

lemma position_quiet: "list_all quiet_char line \<Longrightarrow> \<not> position_is_inside_nested_structure line i"
proof -
  assume "list_all quiet_char line"
  then have "list_all quiet_char (take i line)" by (auto simp: list_all_iff dest: in_set_takeD)
  then show ?thesis
    by (simp add: position_is_inside_nested_structure_def analyze_text_nesting_before_def nesting_quiet)
qed

lemma newline_quiet: "list_all quiet_char line \<Longrightarrow> \<not> newline_between line p t"
  by (auto simp: newline_between_def text_range_contains_newline_def list_ex_iff list_all_iff
      dest!: in_set_takeD in_set_dropD dest: quiet_char_not)

lemma quiet_items: "list_all item_ok ws \<Longrightarrow> list_all quiet_char (items_text ws)"
proof (induction ws rule: items_text.induct)
  case (2 w)
  then show ?case by (auto simp: item_ok_def plain_word_def quiet_char_def list_all_iff operators_def)
next
  case (3 w v ws)
  moreover have "list_all quiet_char w" "list_all quiet_char (item_sep v)"
    using 3 by (auto simp: item_ok_def plain_word_def quiet_char_def list_all_iff operators_def item_sep_def)
  ultimately show ?case by simp
qed simp

lemma items_ok_all: "items_ok ws \<Longrightarrow> list_all item_ok ws"
  by (induction ws rule: items_ok.induct) auto

lemma list_scan:
  "list_all quiet_char line \<Longrightarrow>
   keyword_scan (\<lambda>d p ts. list_tokens_loop line (st\<lparr>ls_depth := d\<rparr>) (Some p) ts) line (\<lambda>_. False) is_list_control_token"
  by unfold_locales
    (auto simp: position_quiet newline_quiet command_word_def is_list_control_token_def bind_err_def)

subsection \<open>Lists\<close>

text \<open>A first command and the others, each with the operator in front of it.\<close>

fun tail_items :: "(string \<times> cmd) list \<Rightarrow> string list" where
  "tail_items [] = []"
| "tail_items ((opr, c) # cs) = opr # cmd_items c @ tail_items cs"

definition list_items :: "cmd \<Rightarrow> (string \<times> cmd) list \<Rightarrow> string list" where
  "list_items c cs = cmd_items c @ tail_items cs"

text \<open>When a command behind an operator runs.\<close>

definition op_condition :: "string \<Rightarrow> list_condition" where
  "op_condition opr = (if opr = ''&&'' then Cond_on_success else if opr = ''||'' then Cond_on_failure else Cond_always)"

lemma condition_after_op: "opr \<in> {'';'', ''&&'', ''||'', ''&''} \<Longrightarrow> condition_after (item_kind opr) = op_condition opr"
  by (auto simp: condition_after_def op_condition_def item_kind_def)

fun list_entries :: "cmd \<Rightarrow> list_condition \<Rightarrow> (string \<times> cmd) list \<Rightarrow> list_entry list" where
  "list_entries c cond [] = [\<lparr>le_text = cmd_text c, le_condition = cond, le_background = False\<rparr>]"
| "list_entries c cond ((opr, d) # cs) =
     \<lparr>le_text = cmd_text c, le_condition = cond, le_background = (opr = ''&'')\<rparr> #
     list_entries d (op_condition opr) cs"

definition tail_ok :: "(string \<times> cmd) list \<Rightarrow> bool" where
  "tail_ok cs \<longleftrightarrow> list_all (\<lambda>(opr, c). opr \<in> {'';'', ''&&'', ''||'', ''&''} \<and> cmd_ok c \<and> \<not> is_Seq c) cs"

lemma tail_ok_Cons [simp]:
  "tail_ok ((opr, c) # cs) \<longleftrightarrow>
     opr \<in> {'';'', ''&&'', ''||'', ''&''} \<and> cmd_ok c \<and> \<not> is_Seq c \<and> tail_ok cs"
  by (simp add: tail_ok_def)

lemma trim_padded:
  assumes "segment_ok s" and "list_all c_isspace a" and "list_all c_isspace b"
  shows "trim_text (a @ s @ b) = s"
proof -
  have "dropWhile c_isspace (a @ s @ b) = s @ b"
    using assms by (cases s) (auto simp: segment_ok_def dropWhile_append2 list_all_iff)
  moreover have "dropWhile c_isspace (rev b @ rev s) = rev s"
    using assms by (subst dropWhile_append2) (simp_all add: segment_ok_def list_all_iff dropWhile_eq_self_iff hd_rev)
  ultimately show ?thesis by (simp add: trim_text_def)
qed

lemma cmd_segment: "cmd_ok c \<Longrightarrow> segment_ok (cmd_text c)"
  using cmd_ends [of c] by (simp add: cmd_text_def plain_segment)

text \<open>The text of a command in a line, from the end of what is before it to its own end or the next item.\<close>

lemma slice_command:
  assumes "line = pre @ a @ s @ b @ post" and "segment_ok s" and "list_all c_isspace a" and "list_all c_isspace b"
    and "i = length pre" and "j = length (pre @ a @ s @ b)" and "length line < max_line"
  shows "copy_trimmed_slice line i j = s"
proof -
  have "take (min (j - i) (max_line - 1)) (drop i line) = a @ s @ b"
    using assms(1,5-7) by simp
  then show ?thesis
    using trim_padded [OF assms(2-4)] assms(1,7) by (simp add: copy_trimmed_slice_def trim_copy_def copy_string_def)
qed

lemma hd_cmd: "cmd_ok c \<Longrightarrow> item_sep (hd (cmd_items c)) = '' ''"
  using cmd_ends [of c] plain_not_operator [of "hd (cmd_items c)"] by (auto simp: item_sep_def operators_def)

lemma text_before:
  assumes "cmd_ok c"
  shows "\<exists>a. items_text (xs @ cmd_items c) = items_text xs @ a @ cmd_text c \<and> list_all c_isspace a"
proof (cases "xs = []")
  case False
  then have "items_text (xs @ cmd_items c) = items_text xs @ '' '' @ cmd_text c"
    using items_text_append [of xs "cmd_items c"] cmd_ends [OF assms] hd_cmd [OF assms] by (simp add: cmd_text_def)
  then show ?thesis by (intro exI [of _ "'' ''"]) (simp add: c_isspace_def)
qed (simp add: cmd_text_def)

lemma item_sep_space: "list_all c_isspace (item_sep w)"
  by (simp add: item_sep_def c_isspace_def)

lemma slice_to_operator:
  assumes "cmd_ok c" and "line = items_text (xs @ cmd_items c @ opr # ys)" and "length line < max_line"
  shows "copy_trimmed_slice line (length (items_text xs)) (tok_pos (token_after (xs @ cmd_items c) opr)) = cmd_text c"
proof -
  have ne: "xs @ cmd_items c \<noteq> []" using cmd_ends [OF assms(1)] by simp
  obtain a where a: "items_text (xs @ cmd_items c) = items_text xs @ a @ cmd_text c" "list_all c_isspace a"
    using text_before [OF assms(1)] by blast
  have "line = items_text xs @ a @ cmd_text c @ item_sep opr @ items_text (opr # ys)"
    using items_text_append [OF ne, of "opr # ys"] a(1) assms(2) by simp
  moreover have "tok_pos (token_after (xs @ cmd_items c) opr) = length (items_text xs @ a @ cmd_text c @ item_sep opr)"
    using items_text_snoc [OF ne, of opr] a(1) by (simp add: token_after_def item_token_def)
  ultimately show ?thesis
    using cmd_segment [OF assms(1)] a(2) item_sep_space assms(3)
    by (intro slice_command [where b = "item_sep opr"]) auto
qed

lemma slice_to_end:
  assumes "cmd_ok c" and "line = items_text (xs @ cmd_items c)" and "length line < max_line"
  shows "copy_trimmed_slice line (length (items_text xs)) (length line) = cmd_text c"
proof -
  obtain a where "items_text (xs @ cmd_items c) = items_text xs @ a @ cmd_text c" "list_all c_isspace a"
    using text_before [OF assms(1)] by blast
  then show ?thesis
    using cmd_segment [OF assms(1)] assms(2,3) by (intro slice_command [where b = "[]" and post = "[]"]) auto
qed

lemma token_after_length: "tok_pos (token_after xs w) + length w = length (items_text (xs @ [w]))"
  using token_after_simps(3) [of xs w] by (simp add: token_end_def token_after_def item_token_def)

lemma operator_kind:
  "opr \<in> {'';'', ''&&'', ''||'', ''&''} \<Longrightarrow>
   is_list_control_token (item_kind opr) \<and> item_kind opr \<noteq> Tok_eof \<and> item_kind opr \<noteq> Tok_word \<and>
   (item_kind opr = Tok_background) = (opr = ''&'')"
  by (auto simp: item_kind_def is_list_control_token_def)

lemma list_loop_from:
  assumes quiet: "list_all quiet_char line" and len: "length line < max_line"
  shows "cmd_ok c \<Longrightarrow> tail_ok cs \<Longrightarrow> line = items_text (xs @ list_items c cs) \<Longrightarrow> length es + length cs < max_list_entries \<Longrightarrow>
    list_tokens_loop line
      \<lparr>ls_entries = es, ls_start = length (items_text xs), ls_last = k, ls_cond = cond, ls_depth = 0\<rparr> (Some p)
      (tokens_after (xs @ cmd_items c) (tail_items cs) @ [eof_at n]) = Inr (es @ list_entries c cond cs)"
proof (induction cs arbitrary: c xs es k cond p)
  case Nil
  have "cmd_text c \<noteq> []" using cmd_segment [OF Nil.prems(1)] by (simp add: segment_ok_def)
  then show ?case
    using Nil.prems slice_to_end [OF Nil.prems(1) _ len, of xs] by (simp add: list_items_def add_entry_def Let_def)
next
  case (Cons od cs)
  obtain opr d where od [simp]: "od = (opr, d)" by (cases od)
  let ?x = "xs @ cmd_items c" and ?t = "token_after (xs @ cmd_items c) opr"
  have o: "opr \<in> {'';'', ''&&'', ''||'', ''&''}" "cmd_ok d" "\<not> is_Seq d" "tail_ok cs" using Cons.prems(2) by simp_all
  note kind = operator_kind [OF o(1)]
  have ne: "cmd_text c \<noteq> []" using cmd_segment [OF Cons.prems(1)] by (simp add: segment_ok_def)
  have seg: "copy_trimmed_slice line (length (items_text xs)) (tok_pos ?t) = cmd_text c"
    by (rule slice_to_operator [OF Cons.prems(1) _ len]) (simp add: Cons.prems(3) list_items_def)
  have step: "list_tokens_loop line
      \<lparr>ls_entries = es, ls_start = length (items_text xs), ls_last = k, ls_cond = cond, ls_depth = 0\<rparr> (Some p) (?t # ts) =
    list_tokens_loop line
      \<lparr>ls_entries = es @ [\<lparr>le_text = cmd_text c, le_condition = cond, le_background = (opr = ''&'')\<rparr>],
       ls_start = length (items_text (?x @ [opr])), ls_last = item_kind opr,
       ls_cond = op_condition opr, ls_depth = 0\<rparr> (Some ?t) ts" for ts
    using kind seg Cons.prems(4) ne position_quiet [OF quiet] token_after_length [of ?x opr]
    by (simp add: add_entry_def condition_after_op [OF o(1)])
  have "starts_after ?t" using o(1) by (auto simp: starts_after_def item_kind_def)
  then have pass: "list_tokens_loop line (st\<lparr>ls_depth := 0\<rparr>) (Some ?t) (tokens_after (?x @ [opr]) (cmd_items d) @ r) =
      list_tokens_loop line (st\<lparr>ls_depth := 0\<rparr>) (Some (last (tokens_after (?x @ [opr]) (cmd_items d)))) r" for st r
    using keyword_scan.cmd_pass [OF list_scan [OF quiet, of st] o(2) tokens_after_reads, of ?t 0 "?x @ [opr]" r] o(3) by simp
  have "list_tokens_loop line
      \<lparr>ls_entries = es @ [\<lparr>le_text = cmd_text c, le_condition = cond, le_background = (opr = ''&'')\<rparr>],
       ls_start = length (items_text (?x @ [opr])), ls_last = item_kind opr,
       ls_cond = op_condition opr, ls_depth = 0\<rparr> (Some ?t)
      (tokens_after (?x @ [opr]) (cmd_items d) @ tokens_after ((?x @ [opr]) @ cmd_items d) (tail_items cs) @ [eof_at n]) =
    Inr ((es @ [\<lparr>le_text = cmd_text c, le_condition = cond, le_background = (opr = ''&'')\<rparr>]) @
      list_entries d (op_condition opr) cs)"
    using pass [of "\<lparr>ls_entries = es @ [\<lparr>le_text = cmd_text c, le_condition = cond, le_background = (opr = ''&'')\<rparr>],
       ls_start = length (items_text (?x @ [opr])), ls_last = item_kind opr,
       ls_cond = op_condition opr, ls_depth = 0\<rparr>"]
      Cons.IH [OF o(2,4), of "?x @ [opr]"] Cons.prems(3,4) by (simp add: list_items_def)
  then show ?case using step by (simp add: tokens_after_append)
qed

subsection \<open>Whole lines\<close>

text \<open>A line that starts with a plain word and has a control operator is parsed as a list.\<close>

lemma parse_tokens_list:
  assumes "plain_word w" and "\<not> reserved w" and "list_all quiet_char line" and "next_is w line"
    and "tok_kind t0 = Tok_word" and "tok_text t0 = w" and "\<forall>t \<in> set ts. tok_kind t \<noteq> Tok_lparen"
    and "\<exists>t \<in> set ts. is_list_control_token (tok_kind t)"
  shows "parse_tokens vp line (t0 # ts) docs =
    bind_err (parse_command_list_tokens line (t0 # ts)) (\<lambda>es. Inr (Ast_command_list es))"
proof -
  have w: "w \<noteq> ''if''" "w \<noteq> ''while''" "w \<noteq> ''until''" "w \<noteq> ''for''" "w \<noteq> ''case''" "w \<noteq> ''switch''"
    "w \<noteq> ''function''" "w \<noteq> ''class''" "w \<noteq> ''with''"
    using assms(2) by (auto simp: reserved_def keyword_is_compound_open_def)
  obtain t1 us where ts: "ts = t1 # us" using assms(8) by (cases ts) auto
  have h: "line \<noteq> []" "hd line \<noteq> CHR ''{''" "hd line \<noteq> CHR ''(''"
    using assms(1,3,4) quiet_char_not [of "hd line"] by (cases w; cases line; auto simp: plain_word_def)+
  have posix: "parse_posix_function_command_tokens line (t0 # ts) = Inl None"
    using assms(7) by (auto simp: parse_posix_function_command_tokens_def ts split: list.splits)
  have ctl: "list_ex (\<lambda>t. is_list_control_token (tok_kind t) \<and> \<not> position_is_inside_nested_structure line (tok_pos t)) (t0 # ts)"
    using assms(3,8) position_quiet by (auto simp: list_ex_iff)
  have nf: "first_word_is (t0 # ts) k \<longleftrightarrow> w = k" for k
    using assms(5,6) by (simp add: first_word_is_def token_is_word_value_def)
  have ff: "\<not> if_fatal []" "\<not> while_fatal []" "\<not> until_fatal []" "\<not> for_fatal []" "\<not> case_fatal []" "\<not> switch_fatal []"
    "\<not> posix_fatal []"
    by (simp_all add: if_fatal_def while_fatal_def until_fatal_def for_fatal_def case_fatal_def switch_fatal_def posix_fatal_def)
  have none: "parse_if_command_tokens line (t0 # ts) = Inl None" "parse_while_command_tokens line (t0 # ts) = Inl None"
    "parse_until_command_tokens line (t0 # ts) = Inl None" "parse_for_command_tokens line (t0 # ts) = Inl None"
    "parse_case_command_tokens line (t0 # ts) = Inl None" "parse_switch_command_tokens line (t0 # ts) = Inl None"
    "parse_function_command_tokens line (t0 # ts) = Inl None" "parse_class_command_tokens line (t0 # ts) = Inl None"
    "parse_with_sudo_command_tokens line (t0 # ts) = Inl None" "parse_group_command_text line = Inl None"
    "parse_subshell_command_text line = Inl None"
    using w h assms(5,6)
    by (simp_all add: parse_if_command_tokens_def parse_while_command_tokens_def parse_until_command_tokens_def
        parse_loop_tokens_def parse_for_command_tokens_def parse_case_command_tokens_def parse_switch_command_tokens_def
        parse_function_command_tokens_def parse_class_command_tokens_def parse_with_sudo_command_tokens_def
        parse_group_command_text_def parse_subshell_command_text_def token_is_word_value_def ts)
  show ?thesis
    unfolding parse_tokens_def none posix attempt_def using ctl ff by (simp add: nf)
qed

fun list_operator :: "string \<Rightarrow> bool" where
  "list_operator [] = False"
| "list_operator (c # cs) = (c = CHR '';'' \<or> c = CHR ''&'' \<or> c = CHR ''|'' \<and> next_is ''|'' cs \<or> list_operator cs)"

lemma list_operator_quiet: "list_all quiet_char s \<Longrightarrow> list_operator_scan None 0 0 0 s = list_operator s"
proof (induction s)
  case (Cons c s)
  then show ?case by (simp add: quiet_char_not) blast
qed simp

lemma list_operator_append: "list_operator b \<Longrightarrow> list_operator (a @ b)"
  by (induction a) auto

lemma list_operator_items:
  "opr \<in> {'';'', ''&&'', ''||'', ''&''} \<Longrightarrow> list_operator (items_text (xs @ opr # ys))"
proof -
  assume o: "opr \<in> {'';'', ''&&'', ''||'', ''&''}"
  have "\<exists>b. items_text (opr # ys) = opr @ b" by (cases ys) auto
  then have y: "list_operator (items_text (opr # ys))" using o by auto
  show ?thesis
  proof (cases "xs = []")
    case False
    then have "items_text (xs @ opr # ys) = (items_text xs @ item_sep opr) @ items_text (opr # ys)"
      by (simp add: items_text_append)
    then show ?thesis using list_operator_append [OF y, of "items_text xs @ item_sep opr"] by simp
  qed (use y in simp)
qed

text \<open>What a line of items that starts with a simple command and has a control operator is parsed to.\<close>

lemma parse_items_list:
  assumes "plain_word w" and "\<not> reserved w" and "items_ok (w # ws)" and "plain_word (last (w # ws))"
    and "length (items_text (w # ws)) < max_line" and "length (w # ws) < max_lexer_tokens"
    and "set ws \<inter> {'';'', ''&&'', ''||'', ''&''} \<noteq> {}"
  shows "arksh_parse_line vp (items_text (w # ws)) =
    bind_err (parse_command_list_tokens (items_text (w # ws))
      (tokens_after [] (w # ws) @ [eof_at (length (items_text (w # ws)))])) (\<lambda>es. Inr (Ast_command_list es))"
proof -
  let ?line = "items_text (w # ws)"
  have trim: "trim_copy max_line ?line = ?line" "?line \<noteq> []"
    using trim_copy_items [of "w # ws"] segment_nonempty [of "w # ws"] assms(1,4,5) by simp_all
  have quiet: "list_all quiet_char ?line" by (rule quiet_items [OF items_ok_all [OF assms(3)]])
  obtain opr ys zs where op: "w # ws = ys @ opr # zs" "opr \<in> {'';'', ''&&'', ''||'', ''&''}"
    using assms(7) by (metis Int_emptyI append_Cons split_list)
  have ctl: "contains_top_level_list_operator ?line"
    using list_operator_items [OF op(2)] op(1) list_operator_quiet [OF quiet]
    by (simp add: contains_top_level_list_operator_def)
  have lex: "arksh_lex_line ?line = Inr (tokens_after [] (w # ws) @ [eof_at (length ?line)])"
    using lex_items [OF assms(3)] assms(6) by (simp add: item_tokens_after)
  have kinds: "\<forall>t \<in> set (tokens_after xs vs). tok_kind t \<noteq> Tok_lparen" for xs vs
    by (induction vs arbitrary: xs) (simp_all add: item_kind_def)
  have has: "\<exists>t \<in> set (tokens_after [w] ws). is_list_control_token (tok_kind t)"
  proof -
    obtain o1 ys zs where "ws = ys @ o1 # zs" "o1 \<in> {'';'', ''&&'', ''||'', ''&''}"
      using assms(7) by (metis Int_emptyI split_list)
    then show ?thesis using operator_kind [of o1] by (simp add: tokens_after_append)
  qed
  have first: "next_is w ?line" by (cases ws) (simp_all add: next_is_def)
  have "parse_tokens vp ?line (tokens_after [] (w # ws) @ [eof_at (length ?line)]) [] =
    bind_err (parse_command_list_tokens ?line (tokens_after [] (w # ws) @ [eof_at (length ?line)]))
      (\<lambda>es. Inr (Ast_command_list es))"
    using parse_tokens_list [OF assms(1,2) quiet first, of "token_after [] w"
        "tokens_after [w] ws @ [eof_at (length ?line)]"] kinds has assms(1)
    by simp
  then show ?thesis
    using trim ctl lex by (simp add: arksh_parse_line_def parse_with_heredocs_def Let_def del: items_text.simps)
qed

lemma list_items_ends:
  "cmd_ok c \<Longrightarrow> tail_ok cs \<Longrightarrow> plain_word (last (list_items c cs)) \<and> items_ok (list_items c cs) \<and> list_items c cs \<noteq> []"
proof (induction cs arbitrary: c)
  case Nil
  then show ?case using cmd_ends [of c] cmd_items_ok [of c] by (simp add: list_items_def)
next
  case (Cons od cs)
  obtain opr d where od [simp]: "od = (opr, d)" by (cases od)
  have ih: "plain_word (last (list_items d cs))" "items_ok (list_items d cs)" "list_items d cs \<noteq> []"
    using Cons by simp_all
  have h: "hd (list_items d cs) \<noteq> '';''"
    using cmd_ends [of d] Cons.prems plain_not_operator [of "hd (cmd_items d)"]
    by (auto simp: list_items_def operators_def)
  have "items_ok (opr # list_items d cs)"
    using ih h Cons.prems(2) by (cases "list_items d cs") (auto simp: item_ok_def operators_def)
  moreover have eq: "list_items c ((opr, d) # cs) = cmd_items c @ opr # list_items d cs" by (simp add: list_items_def)
  ultimately show ?case
    using ih cmd_ends [OF Cons.prems(1)] items_ok_append [OF cmd_items_ok [OF Cons.prems(1)], of "opr # list_items d cs"]
    by simp
qed

text \<open>The words of the first command of a line.\<close>

lemma first_words_pass:
  assumes "list_all quiet_char line" and "plain_words ws"
  shows "list_tokens_loop line st None (tokens_after [] ws @ r) =
    list_tokens_loop line st (Some (last (tokens_after [] ws))) r"
proof -
  obtain w vs where ws: "ws = w # vs" using assms(2) by (cases ws) (auto simp: plain_words_def)
  have w: "plain_word w" "\<not> reserved w" "plain_words vs \<or> vs = []" using assms(2) by (auto simp: plain_words_def ws)
  have "list_tokens_loop line st None (token_after [] w # ts) = list_tokens_loop line st (Some (token_after [] w)) ts" for ts
    using w(1,2) position_quiet [OF assms(1)]
    by (simp add: command_word_def depth_after_plain is_list_control_token_def)
  then show ?thesis
    using keyword_scan.words_pass [OF list_scan [OF assms(1), of st] w(3) tokens_after_reads,
        of "ls_depth st" "token_after [] w" "[w]" r]
    by (simp add: ws del: list_tokens_loop.simps)
qed

lemma parse_list_line:
  assumes "plain_words ws" and "tail_ok cs" and "cs \<noteq> []" and "length cs < max_list_entries"
    and "length (items_text (list_items (Simple ws) cs)) < max_line"
    and "length (list_items (Simple ws) cs) < max_lexer_tokens"
  shows "arksh_parse_line vp (items_text (list_items (Simple ws) cs)) =
    Inr (Ast_command_list (list_entries (Simple ws) Cond_always cs))"
proof -
  obtain w vs where ws: "ws = w # vs" using assms(1) by (cases ws) (auto simp: plain_words_def)
  have w: "plain_word w" "\<not> reserved w" using assms(1) by (auto simp: plain_words_def ws)
  have items: "list_items (Simple ws) cs = w # vs @ tail_items cs" by (simp add: list_items_def ws)
  let ?line = "items_text (w # vs @ tail_items cs)"
  note ends = list_items_ends [of "Simple ws" cs]
  have quiet: "list_all quiet_char ?line"
    using quiet_items [OF items_ok_all] ends assms(1,2) by (simp add: items)
  obtain opr d cs' where cs: "cs = (opr, d) # cs'" "opr \<in> {'';'', ''&&'', ''||'', ''&''}"
    using assms(2,3) by (cases cs) auto
  have start: "list_tokens_loop ?line st None (tokens_after [] (w # vs @ tail_items cs) @ r) =
      list_tokens_loop ?line st (Some (last (tokens_after [] ws))) (tokens_after ws (tail_items cs) @ r)" for st r
    using first_words_pass [OF quiet assms(1), of st "tokens_after ws (tail_items cs) @ r"]
    by (simp add: tokens_after_append ws del: list_tokens_loop.simps)
  have "parse_command_list_tokens ?line (tokens_after [] (w # vs @ tail_items cs) @ [eof_at (length ?line)]) =
      Inr (list_entries (Simple ws) Cond_always cs)"
  proof -
    have len: "length ?line < max_line" "length ([] :: list_entry list) + length cs < max_list_entries"
      "cmd_ok (Simple ws)" "?line = items_text ([] @ list_items (Simple ws) cs)"
      using assms by (simp_all add: items)
    show ?thesis
      unfolding parse_command_list_tokens_def start
      using list_loop_from [OF quiet len(1,3) assms(2) len(4,2)]
      by (simp only: append_Nil items_text.simps(1) list.size(3) cmd_items.simps(1))
  qed
  moreover have "arksh_parse_line vp ?line =
    bind_err (parse_command_list_tokens ?line (tokens_after [] (w # vs @ tail_items cs) @ [eof_at (length ?line)]))
      (\<lambda>es. Inr (Ast_command_list es))"
  proof (rule parse_items_list [OF w(1,2)])
    show "set (vs @ tail_items cs) \<inter> {'';'', ''&&'', ''||'', ''&''} \<noteq> {}" using cs by auto
  qed (use ends assms in \<open>simp_all add: items\<close>)
  ultimately show ?thesis by (simp add: items)
qed

text \<open>
  (C4) Lists of commands survive printing and parsing: a simple command followed by up to fifteen simple
  or compound commands, each introduced by one of the four control operators, is parsed to the list of
  these commands in order; the entry of each has its text, runs always, on success or on failure as the
  operator in front of it says, and runs in the background when an ampersand follows it.  The first
  command has to be a simple one: a compound command takes the whole line, and a list that begins with
  one is a syntax error (\<open>compound_then_command_rejected\<close> of \<open>Parser_Roundtrip\<close>).
\<close>

theorem command_list_roundtrip:
  assumes "plain_words ws" and "tail_ok cs" and "cs \<noteq> []" and "length cs < max_list_entries"
    and "length (items_text (list_items (Simple ws) cs)) < max_line"
    and "length (list_items (Simple ws) cs) < max_lexer_tokens"
  shows "arksh_parse_line vp (items_text (list_items (Simple ws) cs)) =
    Inr (Ast_command_list (list_entries (Simple ws) Cond_always cs))"
  by (rule parse_list_line [OF assms])

theorem command_list_roundtrip_witness:
  "arksh_parse_line
     \<lparr>vp_object = \<lambda>_. None, vp_source = \<lambda>_ _. Vs_none [], vp_capture = \<lambda>_. (), vp_stage = \<lambda>_. None\<rparr>
     (items_text (list_items (Simple [''make'', ''all''])
       [(''&&'', If_then [''test'', ''x''] (Simple [''ls''])), (''||'', Simple [''echo'', ''no'']), (''&'', Simple [''wait''])])) =
   (Inr (Ast_command_list (list_entries (Simple [''make'', ''all'']) Cond_always
       [(''&&'', If_then [''test'', ''x''] (Simple [''ls''])), (''||'', Simple [''echo'', ''no'']), (''&'', Simple [''wait''])]))
     :: string + (unit, unit, unit) node ast)"
  by (rule command_list_roundtrip) code_simp+

end
