(* ===== verification/Parser_Exec.thy ===== *)
theory Parser_Exec
  imports Parser_Lists Alias_Laws Exec_Frame
begin

text \<open>
  The parser and the executor together: how \<open>arksh_shell_execute_line\<close> runs lines of printed commands
  when it is given \<open>arksh_parse_line\<close> as its parser.
\<close>

definition unaliased :: "'f shell \<Rightarrow> bool" where
  "unaliased shell \<longleftrightarrow> arksh_shell_get_alias shell = (\<lambda>_. None)"

lemma expand_tokens_unaliased:
  "unaliased shell \<Longrightarrow> length line < max_line \<Longrightarrow> expand_tokens shell line prev 0 [] False toks = Inr (line, False)"
  by (induction toks arbitrary: prev)
    (simp_all add: append_slice_all token_alias_def unaliased_def)

lemma expand_unaliased:
  assumes "unaliased shell" and "arksh_lex_line line = Inr toks" and "length line < max_line"
  shows "expand_aliases shell line = Inr line"
proof -
  have "expand_aliases_once shell line = Inr (line, False)"
    using assms expand_tokens_unaliased [OF assms(1,3)] by (simp add: expand_aliases_once_def)
  then have "expand_rounds shell (Suc n) line = Inr line" for n using assms(3) by (simp add: copy_string_def)
  moreover have "copy_string max_line line = line" using assms(3) by (simp add: copy_string_def)
  ultimately show ?thesis using assms(3) by (simp only: expand_aliases_def eval_nat_numeral)
qed

text \<open>A shell in which lines go to the parser: no aliases, not in sh mode, memory for the parser.\<close>

definition parses_lines :: "('f, 'w, 'v, 'n) services \<Rightarrow> ('f, 'w) exec_shell \<Rightarrow> bool" where
  "parses_lines sv shell \<longleftrightarrow>
     unaliased (reg shell) \<and> \<not> sh_mode shell \<and> sv_alloc_ok sv shell ''parser state''"

lemma quiet_no_break: "list_all quiet_char line \<Longrightarrow> CHR 0x0A \<notin> set line \<and> CHR 0x0D \<notin> set line"
  using quiet_char_not(10) by (auto simp: list_all_iff is_newline_def)

lemma items_not_blank: "plain_word (hd ws) \<Longrightarrow> ws \<noteq> [] \<Longrightarrow> \<not> is_blank_or_comment_line (items_text ws)"
proof -
  assume w: "plain_word (hd ws)" "ws \<noteq> []"
  then have "hd ws \<noteq> []" "plain_char (hd (hd ws))" by (cases "hd ws"; simp add: plain_word_def)+
  then show ?thesis
    using hd_items [OF w(2)] plain_char_not [of "hd (hd ws)"]
    by (cases "items_text ws")
      (auto simp: is_blank_or_comment_line_def plain_char_def c_isalnum_def c_isalpha_def c_isdigit_def)
qed

lemma execute_items_line:
  assumes "items_ok ws" and "ws \<noteq> []" and "plain_word (hd ws)" and "plain_word (last ws)"
    and "length (items_text ws) < max_line" and "length ws < max_lexer_tokens"
    and "set ws \<inter> {'';'', ''&&'', ''||'', ''&''} \<noteq> {}" and "parses_lines sv shell"
    and "sv_parse_line sv (items_text ws) = Inr ast"
  shows "execute_line sv (Suc n) shell (items_text ws) =
    Option.bind (arksh_execute_ast sv (execute_line sv n) ast shell) (\<lambda>(shell1, out, status).
      finish_line sv (execute_line sv n) out status (sv_end_substitutions sv shell shell1))"
proof -
  let ?line = "items_text ws"
  have quiet: "list_all quiet_char ?line" by (rule quiet_items [OF items_ok_all [OF assms(1)]])
  obtain opr ys zs where op: "ws = ys @ opr # zs" "opr \<in> {'';'', ''&&'', ''||'', ''&''}"
    using assms(7) by (metis Int_emptyI split_list)
  have "contains_top_level_list_operator ?line"
    using list_operator_items [OF op(2)] op(1) list_operator_quiet [OF quiet]
    by (simp add: contains_top_level_list_operator_def)
  then have kd: "keyword_dispatch sv ?line shell = None" by (simp add: keyword_dispatch_def)
  have ex: "expand_aliases (reg shell) ?line = Inr ?line"
    by (rule expand_unaliased [OF _ lex_items [OF assms(1,2,6)] assms(5)]) (use assms(8) in \<open>simp add: parses_lines_def\<close>)
  have "trim_copy max_line ?line = ?line" by (rule trim_copy_items [OF assms(2-5)])
  then show ?thesis
    using kd ex items_not_blank [OF assms(3,2)] assms(8,9)
    by (simp add: execute_line_step_def Let_def sh_mode_error_def parses_lines_def)
qed

lemma cmd_has_semicolon: "compound c \<Longrightarrow> '';'' \<in> set (cmd_items c)"
  by (cases c) auto

text \<open>
  (C2) Printed programs run as their trees: in a shell without aliases, outside of sh mode and with
  memory for the parser, executing the text of a compound command whose text and token number fit the
  limits lexes it, expands no alias, parses it and executes the node of the command, running the texts
  of its conditions, branches and bodies as lines, and then sets the status, runs pending traps and
  applies the error trap and \<open>set -e\<close>.
\<close>

theorem printed_command_runs:
  assumes "compound c" and "cmd_ok c" and "length (cmd_text c) < max_line" and "length (cmd_items c) < max_lexer_tokens"
    and "parses_lines sv shell" and "sv_parse_line sv = arksh_parse_line vp"
  shows "execute_line sv (Suc n) shell (cmd_text c) =
    Option.bind (arksh_execute_ast sv (execute_line sv n) (cmd_node c) shell) (\<lambda>(shell1, out, status).
      finish_line sv (execute_line sv n) out status (sv_end_substitutions sv shell shell1))"
  unfolding cmd_text_def
  by (rule execute_items_line)
    (use assms cmd_ends [OF assms(2)] cmd_items_ok [OF assms(2)] cmd_has_semicolon [OF assms(1)]
        parse_compound_line [OF assms(1-4), of vp] in \<open>auto simp: cmd_text_def\<close>)

text \<open>Services with the modelled parser, in a shell that knows \<open>echo\<close> and \<open>false\<close>.\<close>

definition no_values :: "(unit, unit, unit) value_parser" where
  "no_values = \<lparr>vp_object = \<lambda>_. None, vp_source = \<lambda>_ _. Vs_none [], vp_capture = \<lambda>_. (), vp_stage = \<lambda>_. None\<rparr>"

definition parser_services :: "(unit, unit, string, (unit, unit, unit) node) services" where
  "parser_services = basic_services echo_commands (arksh_parse_line no_values)"

lemma parser_services_simps [simp]: "sv_parse_line parser_services = arksh_parse_line no_values"
  by (simp add: parser_services_def basic_services_def)

lemma start_parses: "parses_lines parser_services start_shell"
  by (simp add: parses_lines_def unaliased_def start_shell_def parser_services_def basic_services_def fun_eq_iff
      arksh_shell_get_alias_def find_alias_entry_def empty_shell_def)

theorem printed_command_runs_witness:
  "map_option snd (execute_line parser_services 3 start_shell
     (cmd_text (If_else [''false''] (Simple [''echo'', ''a'']) (Simple [''echo'', ''b''])))) = Some (''b'', 0)"
proof -
  let ?c = "If_else [''false''] (Simple [''echo'', ''a'']) (Simple [''echo'', ''b''])"
  have "execute_line parser_services (Suc 2) start_shell (cmd_text ?c) =
    Option.bind (arksh_execute_ast parser_services (execute_line parser_services 2) (cmd_node ?c) start_shell)
      (\<lambda>(shell1, out, status).
        finish_line parser_services (execute_line parser_services 2) out status
          (sv_end_substitutions parser_services start_shell shell1))"
    by (rule printed_command_runs [where vp = no_values, OF _ _ _ _ start_parses]) (simp, code_simp, code_simp, code_simp, simp)
  moreover have "map_option snd (Option.bind
      (arksh_execute_ast parser_services (execute_line parser_services 2) (cmd_node ?c) start_shell)
      (\<lambda>(shell1, out, status).
        finish_line parser_services (execute_line parser_services 2) out status
          (sv_end_substitutions parser_services start_shell shell1))) = Some (''b'', 0)"
    by code_simp
  ultimately show ?thesis by (simp only: numeral_3_eq_3 numeral_2_eq_2)
qed

subsection \<open>A pipe into a compound command\<close>

definition pipe_items :: "string list \<Rightarrow> cmd \<Rightarrow> string list" where
  "pipe_items ws c = ws @ ''|'' # cmd_items c"

lemma pipe_items_ok:
  assumes "plain_words ws" and "cmd_ok c"
  shows "items_ok (pipe_items ws c) \<and> plain_word (hd (pipe_items ws c)) \<and> plain_word (last (pipe_items ws c)) \<and>
    pipe_items ws c \<noteq> []"
proof -
  obtain k ys where k: "cmd_items c = k # ys" "plain_word k" using cmd_ends [OF assms(2)] by (cases "cmd_items c") auto
  have "items_ok (''|'' # cmd_items c)"
    using cmd_items_ok [OF assms(2)] k plain_not_operator [of k] by (auto simp: item_ok_def operators_def)
  then show ?thesis
    using items_ok_append [OF plain_words_ok [OF assms(1)], of "''|'' # cmd_items c"] plain_words_ends [OF assms(1)]
      cmd_ends [OF assms(2)] by (simp add: pipe_items_def)
qed

lemma parse_pipe_line:
  assumes "plain_words ws" and "compound c" and "cmd_ok c" and "line = items_text (pipe_items ws c)"
    and "length line < max_line" and "length (pipe_items ws c) < max_lexer_tokens"
  shows "arksh_parse_line vp line =
    Inr (Ast_command_list [\<lparr>le_text = line, le_condition = Cond_always, le_background = False\<rparr>])"
proof -
  obtain w vs where ws: "ws = w # vs" using assms(1) by (cases ws) (auto simp: plain_words_def)
  have w: "plain_word w" "\<not> reserved w" using assms(1) by (auto simp: plain_words_def ws)
  note ok = pipe_items_ok [OF assms(1,3)]
  have items: "pipe_items ws c = w # vs @ ''|'' # cmd_items c" by (simp add: pipe_items_def ws)
  have quiet: "list_all quiet_char line" using quiet_items [OF items_ok_all] ok assms(4) by simp
  let ?p = "token_after ws ''|''" and ?tc = "tokens_after (ws @ [''|'']) (cmd_items c)"
  have kind: "item_kind ''|'' = Tok_shell_pipe" by (simp add: item_kind_def)
  have pipe: "list_tokens_loop line st prev (?p # ts) = list_tokens_loop line st (Some ?p) ts" for st prev ts
    using position_quiet [OF quiet] kind by (simp add: is_list_control_token_def)
  have body: "list_tokens_loop line st (Some ?p) (?tc @ r) = list_tokens_loop line st (Some (last ?tc)) r" for st r
    using keyword_scan.cmd_pass [OF list_scan [OF quiet, of st] assms(3) tokens_after_reads, of ?p "ls_depth st" "ws @ [''|'']" r]
      assms(2) kind by (cases c) (simp_all add: starts_after_def del: list_tokens_loop.simps cmd_items.simps)
  have toks: "tokens_after [] (pipe_items ws c) = tokens_after [] ws @ ?p # ?tc"
    by (simp add: pipe_items_def tokens_after_append)
  have "segment_ok line" using plain_segment ok assms(4) by simp
  then have slice: "copy_trimmed_slice line 0 (length line) = line" "line \<noteq> []"
    using slice_command [of line "[]" "[]" line "[]" "[]" 0 "length line"] assms(5) by (simp_all add: segment_ok_def)
  have "parse_command_list_tokens line (tokens_after [] (pipe_items ws c) @ [eof_at (length line)]) =
      Inr [\<lparr>le_text = line, le_condition = Cond_always, le_background = False\<rparr>]"
    using slice
    by (simp add: parse_command_list_tokens_def toks first_words_pass [OF quiet assms(1)] pipe body del: list_tokens_loop.simps)
      (simp add: add_entry_def Let_def max_list_entries_def)
  moreover have "set (vs @ ''|'' # cmd_items c) \<inter> {'';'', ''&&'', ''||'', ''&''} \<noteq> {}"
    using cmd_has_semicolon [OF assms(2)] by auto
  ultimately show ?thesis
    using parse_items_list [OF w(1,2), of "vs @ ''|'' # cmd_items c" vp] ok assms(4-6)
    by (simp add: items del: items_text.simps items_ok.simps tokens_after.simps)
qed

text \<open>
  (C38) A pipe into a compound command never comes to an end: the parser answers a list whose only entry
  is the whole line again, so that in a shell without aliases, outside of sh mode and with memory for
  the parser, executing the line executes the same line in the same state, without a bound on the nesting.
\<close>

theorem pipe_into_compound_diverges:
  assumes "plain_words ws" and "compound c" and "cmd_ok c" and "length (items_text (pipe_items ws c)) < max_line"
    and "length (pipe_items ws c) < max_lexer_tokens" and "parses_lines sv shell" and "sv_parse_line sv = arksh_parse_line vp"
  shows "execute_line sv n shell (items_text (pipe_items ws c)) = None"
proof (induction n)
  case (Suc n)
  let ?line = "items_text (pipe_items ws c)"
  have parse: "sv_parse_line sv ?line =
      Inr (Ast_command_list [\<lparr>le_text = ?line, le_condition = Cond_always, le_background = False\<rparr>])"
    unfolding assms(7) by (rule parse_pipe_line [OF assms(1-3) refl assms(4,5)])
  have "set (pipe_items ws c) \<inter> {'';'', ''&&'', ''||'', ''&''} \<noteq> {}"
    using cmd_has_semicolon [OF assms(2)] by (auto simp: pipe_items_def)
  then have "execute_line sv (Suc n) shell ?line =
      Option.bind (execute_command_list sv (execute_line sv n)
        [\<lparr>le_text = ?line, le_condition = Cond_always, le_background = False\<rparr>] shell) (\<lambda>(shell1, out, status).
      finish_line sv (execute_line sv n) out status (sv_end_substitutions sv shell shell1))"
    using execute_items_line [OF _ _ _ _ assms(4,5) _ assms(6) parse, of n] pipe_items_ok [OF assms(1,3)] by simp
  then show ?case
    using Suc.IH by (simp add: execute_command_list_def run_list_entry_def suppresses_errexit_def)
qed simp

theorem pipe_into_compound_diverges_witness:
  "\<forall>n. execute_line parser_services n start_shell ''echo a | while true; do echo b; done'' = None"
proof
  fix n
  let ?c = "Loop True [''true''] (Simple [''echo'', ''b''])"
  have "execute_line parser_services n start_shell (items_text (pipe_items [''echo'', ''a''] ?c)) = None"
    by (rule pipe_into_compound_diverges [where vp = no_values, OF _ _ _ _ _ start_parses])
      (code_simp, simp, code_simp, code_simp, code_simp, simp)
  moreover have "items_text (pipe_items [''echo'', ''a''] ?c) = ''echo a | while true; do echo b; done''"
    by code_simp
  ultimately show "execute_line parser_services n start_shell ''echo a | while true; do echo b; done'' = None" by simp
qed

end
