(* ===== verification/Word_Expansion.thy ===== *)
theory Word_Expansion
  imports Simple_Command Glob Arith Field_Splitting Platform_Path
begin

text \<open>
  Expansion of words in \<^verbatim>\<open>src/expand.c\<close>: quotes and escapes, the home directory, parameters with their
  operators, command, arithmetic and process substitution, field splitting and path name patterns.
  The record \<open>word_env\<close> holds what the expansion calls: subshells and the execution of a line, files,
  process substitutions and path name matching of the platform layer, the associative arrays among
  the value bindings with their values rendered, and the numbers and paths the shell keeps for
  special parameters.  A result \<open>None\<close> means that the expansion does not return or runs into an
  operation the C standard leaves undefined.
\<close>

record ('f, 'w) word_env =
  we_mem :: memory
  we_clone :: "('f, 'w) exec_shell \<Rightarrow> string + ('f, 'w) exec_shell"
  we_execute :: "('f, 'w) exec_shell \<Rightarrow> string \<Rightarrow> ('f, 'w) outcome"
  we_restore :: "('f, 'w) exec_shell \<Rightarrow> ('f, 'w) exec_shell \<Rightarrow> ('f, 'w) exec_shell \<times> string option"
  we_read_file :: "('f, 'w) exec_shell \<Rightarrow> string \<Rightarrow> string option"
  we_process_subst :: "('f, 'w) exec_shell \<Rightarrow> bool \<Rightarrow> string \<Rightarrow> ('f, 'w) exec_shell \<times> (string + string)"
  we_glob :: "('f, 'w) exec_shell \<Rightarrow> string \<Rightarrow> nat \<Rightarrow> int \<times> string list"
  we_assoc :: "('f, 'w) exec_shell \<Rightarrow> string \<Rightarrow> (string \<times> string option) list option"
  we_nounset :: "('f, 'w) exec_shell \<Rightarrow> bool"
  we_shell_pid :: "('f, 'w) exec_shell \<Rightarrow> int"
  we_parent_pid :: "('f, 'w) exec_shell \<Rightarrow> int"
  we_bg_pid :: "('f, 'w) exec_shell \<Rightarrow> int"
  we_pid :: "('f, 'w) exec_shell \<Rightarrow> nat"
  we_line :: "('f, 'w) exec_shell \<Rightarrow> nat"
  we_source_path :: "('f, 'w) exec_shell \<Rightarrow> string"
  we_program_path :: "('f, 'w) exec_shell \<Rightarrow> string"

subsection \<open>Patterns\<close>

definition is_glob_meta_char :: "char \<Rightarrow> bool" where
  "is_glob_meta_char c \<longleftrightarrow> c \<in> set ''*?[]''"

definition pattern_size :: nat where
  "pattern_size = 2 * max_token"

definition append_char :: "nat \<Rightarrow> string \<Rightarrow> char \<Rightarrow> string \<Rightarrow> string + string" where
  "append_char sz label c dest = (if length dest + 1 \<ge> sz then Inl (label @ '' too long'') else Inr (dest @ [c]))"

fun append_pattern_text :: "bool \<Rightarrow> string \<Rightarrow> string \<times> bool \<Rightarrow> string + (string \<times> bool)" where
  "append_pattern_text allow_glob [] (pat, has_glob) = Inr (pat, has_glob)"
| "append_pattern_text allow_glob (c # cs) (pat, has_glob) =
     (if allow_glob \<and> is_glob_meta_char c then
        bind_err (append_char pattern_size ''glob pattern'' c pat) (\<lambda>pat1.
          append_pattern_text allow_glob cs (pat1, True))
      else
        bind_err (if c = bslash \<or> is_glob_meta_char c then append_char pattern_size ''glob pattern'' bslash pat else Inr pat)
          (\<lambda>pat1. bind_err (append_char pattern_size ''glob pattern'' c pat1) (\<lambda>pat2.
            append_pattern_text allow_glob cs (pat2, has_glob))))"

definition lookup_home_directory :: "('f, 'w) exec_shell \<Rightarrow> string option" where
  "lookup_home_directory shell =
     (case arksh_shell_get_var (vs shell) ''HOME'' of
        Some home \<Rightarrow> if home \<noteq> [] then Some home else None
      | None \<Rightarrow> None)"

definition trim_trailing_newlines :: "string \<Rightarrow> string" where
  "trim_trailing_newlines s = rev (dropWhile (\<lambda>c. c = CHR 0x0A \<or> c = CHR 0x0D) (rev s))"

subsection \<open>Command and process substitution\<close>

text \<open>The text of a command from after \<open>$(\<close> to the closing parenthesis, and what follows it.\<close>

definition add_command_char :: "char \<Rightarrow> string \<Rightarrow> string + string" where
  "add_command_char c cmd = append_char max_output ''command substitution'' c cmd"

fun command_text :: "char option \<Rightarrow> nat \<Rightarrow> string \<Rightarrow> string \<Rightarrow> string + (string \<times> string)" where
  "command_text quote depth cmd [] = Inl ''unterminated command substitution''"
| "command_text quote depth cmd (c # cs) =
     (if quote \<noteq> Some squote \<and> c = bslash then
        (case cs of
           [] \<Rightarrow> Inl ''dangling escape in command substitution''
         | d # ds \<Rightarrow>
             bind_err (add_command_char c cmd) (\<lambda>cmd1. bind_err (add_command_char d cmd1) (\<lambda>cmd2.
               command_text quote depth cmd2 ds)))
      else if quote = None \<and> c = CHR '')'' \<and> depth = 1 then Inr (cmd, cs)
      else
        (let quote1 = (case quote of
               None \<Rightarrow> if c = squote \<or> c = dquote then Some c else None
             | Some q \<Rightarrow> if c = q then None else Some q);
             depth1 = (if quote \<noteq> None then depth
               else if c = CHR ''$'' \<and> next_is ''('' cs then depth + 1
               else if c = CHR '')'' then depth - 1 else depth) in
         bind_err (add_command_char c cmd) (\<lambda>cmd1. command_text quote1 depth1 cmd1 cs)))"

definition parse_command_substitution :: "string \<Rightarrow> string + (string \<times> string)" where
  "parse_command_substitution cs = command_text None 1 [] cs"

text \<open>Whether the substitution reads, and the command.\<close>

definition parse_process_substitution_raw :: "string \<Rightarrow> string + (bool \<times> string)" where
  "parse_process_substitution_raw raw =
     (if length raw < 4 \<or> raw ! 1 \<noteq> CHR ''('' \<or> last raw \<noteq> CHR '')'' \<or> (hd raw \<noteq> CHR ''<'' \<and> hd raw \<noteq> CHR ''>'') then
        Inl ''invalid process substitution syntax''
      else if length raw - 3 + 1 > max_line then Inl ''process substitution command too long''
      else Inr (hd raw = CHR ''<'', take (length raw - 3) (drop 2 raw)))"

definition blank :: "char \<Rightarrow> bool" where
  "blank c \<longleftrightarrow> c = CHR '' '' \<or> c = CHR 0x09"

text \<open>The file of a command \<open>< file\<close>, which is read without a subshell.\<close>

definition read_redirect :: "string \<Rightarrow> string option" where
  "read_redirect command =
     (case dropWhile blank command of
        c # cs \<Rightarrow>
          (let p = dropWhile blank cs; in_path = (\<lambda>d. \<not> blank d \<and> d \<noteq> CHR 0x0A);
               path = take (max_path - 1) (takeWhile in_path p) in
           if c = CHR ''<'' \<and> p \<noteq> [] \<and> (dropWhile in_path p = [] \<or> path \<noteq> []) then Some path else None)
      | [] \<Rightarrow> None)"

definition execute_command_substitution ::
  "('f, 'w) word_env \<Rightarrow> ('f, 'w) exec_shell \<Rightarrow> string \<Rightarrow> (('f, 'w) exec_shell \<times> (string + string)) option" where
  "execute_command_substitution we shell command =
     (case read_redirect command of
        Some path \<Rightarrow>
          Some (shell, case we_read_file we shell path of
                         None \<Rightarrow> Inl (''$(< '' @ path @ ''): cannot open file'')
                       | Some body \<Rightarrow> Inr (trim_trailing_newlines (take (max_output - 1) body)))
      | None \<Rightarrow>
          (case we_clone we shell of
             Inl err \<Rightarrow> Some (shell, Inl err)
           | Inr subshell \<Rightarrow> do {
               (subshell1, out, status) \<leftarrow> we_execute we subshell command;
               Some (case we_restore we shell subshell1 of
                  (shell1, Some err) \<Rightarrow> (shell1, Inl err)
                | (shell1, None) \<Rightarrow>
                    (shell1, if status \<noteq> 0 then Inl (''command substitution failed: '' @ command)
                             else Inr (copy_string max_output (trim_trailing_newlines out))))
             }))"

subsection \<open>Special parameters\<close>

text \<open>\<open>atoi\<close> of the C library on digits: \<open>strtol\<close>, cut to 32 bits.\<close>

definition c_atoi :: "string \<Rightarrow> int" where
  "c_atoi ds = (case strtol ds of None \<Rightarrow> 0 | Some (v, _) \<Rightarrow> (v + 2 ^ 31) mod 2 ^ 32 - 2 ^ 31)"

fun positional_loop :: "nat \<Rightarrow> bool \<Rightarrow> string \<Rightarrow> string option list \<Rightarrow> string" where
  "positional_loop sz first out [] = out"
| "positional_loop sz first out (None # ps) = positional_loop sz False out ps"
| "positional_loop sz first out (Some p # ps) =
     (let out1 = (if \<not> first \<and> length out + 1 < sz then out @ '' '' else out) in
      positional_loop sz False (if length out1 + length p < sz then out1 @ p else out1) ps)"

definition expand_positional_list :: "('f, 'w) exec_shell \<Rightarrow> nat \<Rightarrow> string" where
  "expand_positional_list shell sz =
     positional_loop sz True []
       (map (\<lambda>j. arksh_shell_get_positional (vs shell) (int j)) [0..<arksh_shell_get_positional_count (vs shell)])"

text \<open>Parameter number \<open>idx\<close>, the program for 0.\<close>

definition positional_value :: "('f, 'w) word_env \<Rightarrow> ('f, 'w) exec_shell \<Rightarrow> int \<Rightarrow> nat \<Rightarrow> string" where
  "positional_value we shell idx sz =
     (if idx = 0 then copy_string sz (we_program_path we shell)
      else if 1 \<le> idx \<and> idx \<le> int (arksh_shell_get_positional_count (vs shell)) then
        (case arksh_shell_get_positional (vs shell) (idx - 1) of None \<Rightarrow> [] | Some v \<Rightarrow> copy_string sz v)
      else [])"

definition special_char :: "('f, 'w) word_env \<Rightarrow> ('f, 'w) exec_shell \<Rightarrow> char \<Rightarrow> nat \<Rightarrow> string option" where
  "special_char we shell c sz =
     (if c = CHR ''?'' then Some (copy_string sz (show_int (last_status shell)))
      else if c = CHR ''#'' then Some (copy_string sz (show_nat (arksh_shell_get_positional_count (vs shell))))
      else if c = CHR ''$'' then Some (copy_string sz (show_int (we_shell_pid we shell)))
      else if c = CHR ''!'' then Some (if we_bg_pid we shell \<ge> 0 then copy_string sz (show_int (we_bg_pid we shell)) else [])
      else if c = CHR ''-'' then Some []
      else if c = CHR ''@'' \<or> c = CHR ''*'' then Some (expand_positional_list shell sz)
      else None)"

definition resolve_special_name :: "('f, 'w) word_env \<Rightarrow> ('f, 'w) exec_shell \<Rightarrow> string \<Rightarrow> nat \<Rightarrow> string option" where
  "resolve_special_name we shell name sz =
     (case (if length name = 1 then special_char we shell (hd name) sz else None) of
        Some v \<Rightarrow> Some v
      | None \<Rightarrow>
          if name = ''PPID'' then Some (copy_string sz (show_int (we_parent_pid we shell)))
          else if name = ''BASHPID'' then Some (copy_string sz (show_nat (we_pid we shell)))
          else if name = ''LINENO'' then Some (copy_string sz (show_nat (if we_line we shell > 0 then we_line we shell else 1)))
          else if name = ''FUNCNAME'' then
            Some (case function_names shell of [] \<Rightarrow> [] | f # _ \<Rightarrow> copy_string sz f)
          else if name = ''BASH_SOURCE'' then
            Some (copy_string sz (if we_source_path we shell \<noteq> [] then we_source_path we shell else we_program_path we shell))
          else if name \<noteq> [] \<and> list_all c_isdigit name then Some (positional_value we shell (c_atoi name) sz)
          else None)"

subsection \<open>Values of parameters\<close>

text \<open>The value, or \<open>None\<close> when the parameter is not set; chains of name references end after 32 steps.\<close>

fun lookup_var_value_depth ::
  "nat \<Rightarrow> ('f, 'w) word_env \<Rightarrow> ('f, 'w) exec_shell \<Rightarrow> string \<Rightarrow> nat \<Rightarrow> string option" where
  "lookup_var_value_depth 0 we shell name sz = None"
| "lookup_var_value_depth (Suc n) we shell name sz =
     (case resolve_special_name we shell name sz of
        Some v \<Rightarrow> Some v
      | None \<Rightarrow>
          (case arksh_shell_get_var (vs shell) name of
             None \<Rightarrow> None
           | Some v \<Rightarrow>
               if next_is nameref_prefix v then
                 (let t = drop (length nameref_prefix) v in
                  if t = [] \<or> length t \<ge> 128 then None else lookup_var_value_depth n we shell t sz)
               else Some (copy_string sz v)))"

definition lookup_var_value ::
  "('f, 'w) word_env \<Rightarrow> ('f, 'w) exec_shell \<Rightarrow> string \<Rightarrow> nat \<Rightarrow> string option" where
  "lookup_var_value we shell name sz = lookup_var_value_depth 33 we shell name sz"

definition append_assoc_joined :: "nat \<Rightarrow> bool \<Rightarrow> string \<Rightarrow> string \<Rightarrow> string" where
  "append_assoc_joined sz first out s =
     copy_string sz ((if first then out else copy_string sz (out @ '' '')) @ s)"

fun assoc_join :: "nat \<Rightarrow> bool \<Rightarrow> string \<Rightarrow> string list \<Rightarrow> string" where
  "assoc_join sz first out [] = out"
| "assoc_join sz first out (s # ss) = assoc_join sz False (append_assoc_joined sz first out s) ss"

text \<open>
  The text, whether it is set, and the number of elements; \<open>None\<close> when the element cannot be rendered.
\<close>

definition render_assoc_value ::
  "(string \<times> string option) list \<Rightarrow> string \<Rightarrow> bool \<Rightarrow> nat \<Rightarrow> (string \<times> bool \<times> nat) option" where
  "render_assoc_value es subscript key_mode sz =
     (if subscript = ''@'' \<or> subscript = ''*'' then
        Some (assoc_join sz True [] (map (\<lambda>(k, r). if key_mode then k else (case r of None \<Rightarrow> [] | Some v \<Rightarrow> v)) es),
              True, length es)
      else if key_mode then Some ([], False, 0)
      else
        (case map_of es subscript of
           None \<Rightarrow> Some ([], False, 0)
         | Some None \<Rightarrow> None
         | Some (Some v) \<Rightarrow> Some (copy_string sz v, True, 1)))"

subsection \<open>Parameters in braces\<close>

record param =
  p_length :: bool
  p_keys :: bool
  p_name :: string
  p_subscript :: "string option"
  p_colon :: bool
  p_op :: "char option"
  p_twice :: bool
  p_operand :: string

definition word_start :: "char \<Rightarrow> bool" where
  "word_start c \<longleftrightarrow> c_isalpha c \<or> c = CHR ''_''"

definition word_char :: "char \<Rightarrow> bool" where
  "word_char c \<longleftrightarrow> c_isalnum c \<or> c = CHR ''_''"

definition takes_length :: "string \<Rightarrow> bool" where
  "takes_length t =
     (case t of
        h # n # _ \<Rightarrow> h = CHR ''#'' \<and> (word_start n \<or> c_isdigit n \<or> n \<in> set ''@*?!-$'')
      | _ \<Rightarrow> False)"

definition takes_keys :: "string \<Rightarrow> bool" where
  "takes_keys t = (case t of h # n # _ \<Rightarrow> h = CHR ''!'' \<and> word_start n | _ \<Rightarrow> False)"

definition braced_name :: "string \<Rightarrow> string + (string \<times> string)" where
  "braced_name t =
     (case t of
        [] \<Rightarrow> Inr ([], [])
      | c # cs \<Rightarrow>
          (let names = (\<lambda>P. if length (takeWhile P t) > 127 then Inl ''variable name too long in ${...}''
                            else Inr (takeWhile P t, dropWhile P t)) in
           if word_start c then names word_char
           else if c_isdigit c then names c_isdigit
           else if c \<in> set ''@*#$!?-'' then Inr ([c], cs)
           else Inr ([], t)))"

definition braced_subscript :: "string \<Rightarrow> string \<Rightarrow> string + (string option \<times> string)" where
  "braced_subscript name t =
     (if name = [] \<or> \<not> next_is ''['' t then Inr (None, t)
      else
        (let key = takeWhile (\<lambda>c. c \<noteq> CHR '']'') (tl t); rest = dropWhile (\<lambda>c. c \<noteq> CHR '']'') (tl t) in
         if length key \<ge> max_name then Inl ''associative array key too long in ${...}''
         else if rest = [] then Inl ''unterminated associative array subscript in ${...}''
         else Inr (Some (strip_assoc_key_quotes key), tl rest)))"

text \<open>The operator: whether a colon is in front, the character, whether it is doubled, and the rest.\<close>

definition braced_operator :: "bool \<Rightarrow> string \<Rightarrow> bool \<times> char option \<times> bool \<times> string" where
  "braced_operator length_mode t =
     (case t of
        [] \<Rightarrow> (False, None, False, [])
      | c # cs \<Rightarrow>
          if c = CHR '':'' \<and> cs \<noteq> [] \<and> hd cs \<in> set ''-=+?'' then (True, Some (hd cs), False, tl cs)
          else if c \<in> set ''-=+?'' then (False, Some c, False, cs)
          else if c = CHR ''%'' \<or> (c = CHR ''#'' \<and> \<not> length_mode) \<or> c = CHR ''/'' then
            (if next_is [c] cs then (False, Some c, True, tl cs) else (False, Some c, False, cs))
          else (False, None, False, t))"

text \<open>The parts of \<open>${...}\<close>, from after the brace, and what follows the closing brace.\<close>

definition parse_braced :: "string \<Rightarrow> string + (param \<times> string)" where
  "parse_braced t0 =
     (let len = takes_length t0; t1 = (if len then tl t0 else t0);
          keys = takes_keys t1; t2 = (if keys then tl t1 else t1) in
      bind_err (braced_name t2) (\<lambda>(name, t3).
      bind_err (braced_subscript name t3) (\<lambda>(sub, t4).
        (case braced_operator len t4 of
           (colon, op, twice, t5) \<Rightarrow>
             (let operand = takeWhile (\<lambda>c. c \<noteq> CHR ''}'') t5; rest = dropWhile (\<lambda>c. c \<noteq> CHR ''}'') t5 in
              if length operand \<ge> max_output then Inl ''parameter expansion operand too long''
              else if rest = [] then Inl ''unterminated ${...} expansion''
              else Inr (\<lparr>p_length = len, p_keys = keys, p_name = name, p_subscript = sub, p_colon = colon,
                         p_op = op, p_twice = twice, p_operand = operand\<rparr>, tl rest))))))"

text \<open>The value of the parameter, whether it is set, and the number of elements.\<close>

definition param_value ::
  "('f, 'w) word_env \<Rightarrow> ('f, 'w) exec_shell \<Rightarrow> param \<Rightarrow> string + (string \<times> bool \<times> nat)" where
  "param_value we shell p =
     (if p_subscript p \<noteq> None \<or> p_keys p then
        (case (if p_name p = [] then None else we_assoc we shell (p_name p)) of
           None \<Rightarrow> Inr ([], False, 0)
         | Some es \<Rightarrow>
             (case p_subscript p of
                None \<Rightarrow> Inl (''unsupported associative expansion: ${!'' @ p_name p @ ''}'')
              | Some sub \<Rightarrow>
                  (case render_assoc_value es sub (p_keys p) max_output of
                     None \<Rightarrow> Inl ''unable to render associative array expansion''
                   | Some r \<Rightarrow> Inr r)))
      else
        (case lookup_var_value we shell (p_name p) max_output of
           None \<Rightarrow> Inr ([], False, 0)
         | Some v \<Rightarrow> Inr (v, True, 0)))"

text \<open>The pattern and the replacement of a substitution.\<close>

definition split_substitution :: "string \<Rightarrow> string \<times> string" where
  "split_substitution operand =
     (let pat = takeWhile (\<lambda>c. c \<noteq> CHR ''/'') operand; rest = dropWhile (\<lambda>c. c \<noteq> CHR ''/'') operand in
      (copy_string max_output pat, if rest = [] then [] else tl rest))"

definition apply_operator ::
  "('f, 'w) word_env \<Rightarrow> ('f, 'w) exec_shell \<Rightarrow> param \<Rightarrow> char \<Rightarrow> string \<Rightarrow> bool \<Rightarrow>
   (('f, 'w) exec_shell \<times> (string + string)) option" where
  "apply_operator we shell p opr val is_set =
     (let trigger = (if p_colon p then \<not> is_set \<or> val = [] else \<not> is_set); operand = p_operand p;
          ok = (\<lambda>s. Some (shell, Inr (copy_string max_output s))) in
      if opr = CHR ''-'' then ok (if trigger then operand else val)
      else if opr = CHR ''='' then
        (if trigger then
           Some (shell\<lparr>vs := snd (arksh_shell_set_var (we_mem we) (vs shell) (p_name p) operand False)\<rparr>,
                 Inr (copy_string max_output operand))
         else ok val)
      else if opr = CHR ''+'' then ok (if trigger then [] else operand)
      else if opr = CHR ''?'' then
        (if trigger then
           Some (shell, Inl ((if p_name p \<noteq> [] then p_name p else ''parameter'') @ '': '' @
             (if operand \<noteq> [] then operand else ''parameter null or not set'')))
         else ok val)
      else if opr = CHR ''%'' then Some (shell, Inr (apply_suffix_trim val operand (p_twice p) max_output))
      else if opr = CHR ''#'' then Some (shell, Inr (apply_prefix_trim val operand (p_twice p) max_output))
      else if opr = CHR ''/'' then
        (case split_substitution operand of
           (pat, repl) \<Rightarrow>
             map_option (\<lambda>s. (shell, Inr s)) (apply_pattern_subst val pat repl (p_twice p) max_output))
      else ok val)"

definition resolve_braced ::
  "('f, 'w) word_env \<Rightarrow> ('f, 'w) exec_shell \<Rightarrow> param \<Rightarrow> (('f, 'w) exec_shell \<times> (string + string)) option" where
  "resolve_braced we shell p =
     (case param_value we shell p of
        Inl err \<Rightarrow> Some (shell, Inl err)
      | Inr (val, is_set, elements) \<Rightarrow>
          if p_length p then
            Some (shell, Inr (copy_string max_output (show_nat
              (if p_subscript p = Some ''@'' \<or> p_subscript p = Some ''*'' then elements else length val))))
          else
            (case p_op p of
               None \<Rightarrow>
                 if we_nounset we shell \<and> \<not> is_set \<and> \<not> (p_name p \<noteq> [] \<and> hd (p_name p) \<in> set ''@*#'') then
                   Some (shell, Inl (p_name p @ '': unbound variable''))
                 else Some (shell, Inr (copy_string max_output val))
             | Some opr \<Rightarrow> apply_operator we shell p opr val is_set))"

text \<open>A parameter from after the dollar sign: its value and the rest of the word.\<close>

definition resolve_variable ::
  "('f, 'w) word_env \<Rightarrow> ('f, 'w) exec_shell \<Rightarrow> string \<Rightarrow>
   (('f, 'w) exec_shell \<times> (string + (string \<times> string))) option" where
  "resolve_variable we shell cs =
     (case cs of
        [] \<Rightarrow> Some (shell, Inr (''$'', []))
      | c # r \<Rightarrow>
          (case special_char we shell c max_output of
             Some v \<Rightarrow> Some (shell, Inr (v, r))
           | None \<Rightarrow>
               if c_isdigit c then Some (shell, Inr (positional_value we shell (c_atoi [c]) max_output, r))
               else if c = CHR ''{'' then
                 (case parse_braced r of
                    Inl err \<Rightarrow> Some (shell, Inl err)
                  | Inr (p, rest) \<Rightarrow> do {
                      (shell1, res) \<leftarrow> resolve_braced we shell p;
                      Some (shell1, bind_err res (\<lambda>v. Inr (v, rest)))
                    })
               else if \<not> word_start c then Some (shell, Inr (''$'', cs))
               else if length (takeWhile word_char cs) > 127 then
                 Some (shell, Inl ''environment variable name too long'')
               else
                 (let name = takeWhile word_char cs in
                  case lookup_var_value we shell name max_output of
                    None \<Rightarrow>
                      Some (shell, if we_nounset we shell then Inl (name @ '': unbound variable'')
                                   else Inr ([], dropWhile word_char cs))
                  | Some v \<Rightarrow> Some (shell, Inr (v, dropWhile word_char cs)))))"

subsection \<open>Words\<close>

fun arith_error_text :: "arith_error \<Rightarrow> string" where
  "arith_error_text Unexpected_end = ''unexpected end of arithmetic expression''"
| "arith_error_text Missing_paren = ''missing '' @ [squote] @ '')'' @ [squote] @ '' in arithmetic expression''"
| "arith_error_text Unterminated_nested = ''unterminated arithmetic expansion''"
| "arith_error_text (Unexpected_char c) = ''unexpected character '' @ [squote, c, squote] @ '' in arithmetic expression''"
| "arith_error_text Negative_exponent = ''negative exponent not supported''"
| "arith_error_text Division_by_zero = ''division by zero''"
| "arith_error_text Modulo_by_zero = ''modulo by zero''"
| "arith_error_text Missing_colon = ''missing '' @ [squote] @ '':'' @ [squote] @ '' in ternary arithmetic expression''"
| "arith_error_text (Unexpected_token c) = ''unexpected token in arithmetic expression: '' @ [squote, c, squote]"

fun arith_word_error_text :: "arith_word_error \<Rightarrow> string" where
  "arith_word_error_text Unmatched_paren = ''unmatched '' @ [squote] @ '')'' @ [squote] @ '' inside arithmetic expansion''"
| "arith_word_error_text Unterminated_expansion = ''unterminated arithmetic expansion''"

text \<open>A substitution from after the dollar sign: whether it is arithmetic, its text and the rest of the word.\<close>

definition substitute ::
  "('f, 'w) word_env \<Rightarrow> ('f, 'w) exec_shell \<Rightarrow> string \<Rightarrow>
   (('f, 'w) exec_shell \<times> (string + (bool \<times> string \<times> string))) option" where
  "substitute we shell cs =
     (if next_is ''(('' cs then
        (case parse_arith_expansion max_output (CHR ''$'' # cs) of
           Inl e \<Rightarrow> Some (shell, Inl (arith_word_error_text e))
         | Inr (expr, rest) \<Rightarrow>
             (case evaluate_arith (arksh_shell_get_var (vs shell)) expr of
                Inr v \<Rightarrow> Some (shell, Inr (True, show_int v, rest))
              | Inl (Arith_error e) \<Rightarrow> Some (shell, Inl (arith_error_text e))
              | Inl Undefined \<Rightarrow> None
              | Inl Stuck \<Rightarrow> None))
      else if next_is ''('' cs then
        (case parse_command_substitution (tl cs) of
           Inl err \<Rightarrow> Some (shell, Inl err)
         | Inr (command, rest) \<Rightarrow> do {
             (shell1, r) \<leftarrow> execute_command_substitution we shell command;
             Some (shell1, bind_err r (\<lambda>s. Inr (False, s, rest)))
           })
      else do {
        (shell1, r) \<leftarrow> resolve_variable we shell cs;
        Some (shell1, bind_err r (\<lambda>(s, rest). Inr (False, s, rest)))
      })"

lemma command_text_shorter: "command_text q d cmd cs = Inr (x, rest) \<Longrightarrow> length rest \<le> length cs"
proof (induction q d cmd cs rule: command_text.induct)
  case (2 quote depth cmd c cs)
  then show ?case
    by (fastforce simp: bind_err_eq_Inr Let_def split: if_splits list.splits)
qed simp

lemma arith_text_shorter: "arith_text d e cs = Inr (x, rest) \<Longrightarrow> length rest \<le> length cs"
  by (induction d e cs rule: arith_text.induct) (auto simp: Let_def split: if_splits)

lemma length_dropWhile_tl: "length (tl (dropWhile P xs)) \<le> length xs"
  using length_dropWhile_le [of P xs] by simp

lemma braced_name_shorter: "braced_name t = Inr (n, r) \<Longrightarrow> length r \<le> length t"
  by (auto simp: braced_name_def Let_def length_dropWhile_le le_SucI split: list.splits if_splits)

lemma braced_subscript_shorter: "braced_subscript n t = Inr (s, r) \<Longrightarrow> length r \<le> length t"
  using length_dropWhile_le [of "\<lambda>c. c \<noteq> CHR '']''" "tl t"]
  by (auto simp: braced_subscript_def Let_def split: if_splits)

lemma braced_operator_shorter: "braced_operator b t = (x, y, z, r) \<Longrightarrow> length r \<le> length t"
  by (auto simp: braced_operator_def split: list.splits if_splits)

lemma parse_braced_shorter:
  assumes "parse_braced t = Inr (p, rest)"
  shows "length rest \<le> length t"
proof -
  define t2 where "t2 = (let t1 = (if takes_length t then tl t else t) in if takes_keys t1 then tl t1 else t1)"
  have t2: "length t2 \<le> length t" by (auto simp: t2_def Let_def)
  obtain name t3 sub t4 where n: "braced_name t2 = Inr (name, t3)" and b: "braced_subscript name t3 = Inr (sub, t4)"
    using assms by (auto simp: parse_braced_def t2_def Let_def bind_err_eq_Inr split del: if_split)
  obtain colon op twice t5 where o: "braced_operator (takes_length t) t4 = (colon, op, twice, t5)" by (metis surj_pair)
  have rest: "rest = tl (dropWhile (\<lambda>c. c \<noteq> CHR ''}'') t5)"
    using assms n b o by (simp add: parse_braced_def t2_def Let_def split: if_splits)
  show ?thesis
    unfolding rest
    using t2 braced_name_shorter [OF n] braced_subscript_shorter [OF b] braced_operator_shorter [OF o]
      length_dropWhile_tl [of "\<lambda>c. c \<noteq> CHR ''}''" t5]
    by linarith
qed

lemma resolve_variable_shorter:
  assumes "resolve_variable we shell cs = Some (s, Inr (v, rest))"
  shows "length rest \<le> length cs"
proof (cases cs)
  case (Cons c r)
  then show ?thesis
    using assms parse_braced_shorter [of r] length_dropWhile_le [of word_char cs]
    by (auto simp: resolve_variable_def Let_def bind_eq_Some_conv bind_err_eq_Inr le_SucI
        split: option.splits if_splits sum.splits)
qed (use assms in \<open>auto simp: resolve_variable_def\<close>)

lemma substitute_shorter:
  assumes "substitute we shell cs = Some (s, Inr (a, v, rest))"
  shows "length rest \<le> length cs"
proof -
  have "length rest \<le> length cs" if "parse_arith_expansion max_output (CHR ''$'' # cs) = Inr (e, rest)" for e
    using that arith_text_shorter [of 0 "[]" "drop 2 cs"]
    by (auto simp: parse_arith_expansion_def bind_err_eq_Inr numeral_3_eq_3 numeral_2_eq_2)
  moreover have "length rest \<le> length cs" if "parse_command_substitution (tl cs) = Inr (e, rest)" for e
    using that command_text_shorter [of None 1 "[]" "tl cs"] by (auto simp: parse_command_substitution_def)
  ultimately show ?thesis
    using assms resolve_variable_shorter [of we shell cs s v rest]
    by (auto simp: substitute_def bind_eq_Some_conv bind_err_eq_Inr split: if_splits sum.splits arith_stop.splits)
qed

text \<open>The buffers of \<open>expand_raw_token\<close>; the characters carry their split flags.\<close>

record expand_state =
  xs_chars :: "(char \<times> bool) list"
  xs_pattern :: string
  xs_glob :: bool
  xs_quote_open :: bool
  xs_fragment :: bool

definition put_text :: "bool \<Rightarrow> bool \<Rightarrow> string \<Rightarrow> expand_state \<Rightarrow> string + expand_state" where
  "put_text split_flag allow_glob s st =
     (if s \<noteq> [] \<and> length (xs_chars st) + length s \<ge> max_token then Inl ''expanded token too long''
      else
        bind_err (append_pattern_text allow_glob s (xs_pattern st, xs_glob st)) (\<lambda>(pat, has_glob).
          Inr (st\<lparr>xs_chars := xs_chars st @ map (\<lambda>c. (c, split_flag)) s, xs_pattern := pat, xs_glob := has_glob,
                  xs_fragment := True\<rparr>)))"

definition home_text :: "('f, 'w) exec_shell \<Rightarrow> string" where
  "home_text shell = (case lookup_home_directory shell of Some home \<Rightarrow> home | None \<Rightarrow> ''~'')"

function expand_loop ::
  "('f, 'w) word_env \<Rightarrow> expand_mode \<Rightarrow> char option \<Rightarrow> expand_state \<Rightarrow> ('f, 'w) exec_shell \<Rightarrow> string \<Rightarrow>
   (('f, 'w) exec_shell \<times> (string + expand_state)) option" where
  "expand_loop we mode quote st shell [] =
     Some (shell, if quote \<noteq> None then Inl ''unterminated quoted token'' else Inr st)"
| "expand_loop we mode quote st shell (c # cs) =
     (let allow_glob = (mode = Mode_command \<and> quote = None);
          literal = (\<lambda>s k glob.
            case put_text False glob s st of
              Inl err \<Rightarrow> Some (shell, Inl err)
            | Inr st1 \<Rightarrow> expand_loop we mode quote st1 shell (drop k cs)) in
      if quote = None \<and> (c = squote \<or> c = dquote) then
        expand_loop we mode (Some c) (st\<lparr>xs_fragment := True, xs_quote_open := True\<rparr>) shell cs
      else if quote = Some c then expand_loop we mode None st shell cs
      else if quote = Some squote then literal [c] 0 False
      else if c = bslash then
        (case cs of
           [] \<Rightarrow> Some (shell, Inl (if quote = None then ''dangling escape at end of token''
                                   else ''dangling escape inside double quotes''))
         | d # ds \<Rightarrow>
             literal (if quote = None \<or> d \<in> {CHR ''$'', CHR 0x60, dquote, bslash, CHR 0x0A} then [d] else [bslash, d]) 1 False)
      else if quote = None \<and> c = CHR ''~'' \<and> \<not> xs_fragment st \<and> xs_chars st = [] \<and> (cs = [] \<or> hd cs = CHR ''/'') then
        literal (home_text shell) 0 allow_glob
      else if c = CHR ''$'' then do {
        (shell1, r) \<leftarrow> substitute we shell cs;
        case r of
          Inl err \<Rightarrow> Some (shell1, Inl err)
        | Inr (is_arith, s, rest) \<Rightarrow>
            (case put_text (quote = None \<and> \<not> is_arith) allow_glob s st of
               Inl err \<Rightarrow> Some (shell1, Inl err)
             | Inr st1 \<Rightarrow> expand_loop we mode quote st1 shell1 rest)
      }
      else literal [c] 0 allow_glob)"
  by pat_completeness auto
termination
proof (relation "measure (\<lambda>(_, _, _, _, _, cs). length cs)")
qed (auto dest: substitute_shorter simp: le_imp_less_Suc)

definition expand_raw_token ::
  "('f, 'w) word_env \<Rightarrow> expand_mode \<Rightarrow> ('f, 'w) exec_shell \<Rightarrow> string \<Rightarrow>
   (('f, 'w) exec_shell \<times> (string + expand_state)) option" where
  "expand_raw_token we mode shell raw =
     expand_loop we mode None
       \<lparr>xs_chars = [], xs_pattern = [], xs_glob = False, xs_quote_open = False, xs_fragment = False\<rparr> shell raw"

definition expand_process_substitution ::
  "('f, 'w) word_env \<Rightarrow> expand_mode \<Rightarrow> ('f, 'w) exec_shell \<Rightarrow> string \<Rightarrow> ('f, 'w) exec_shell \<times> (string + string list)" where
  "expand_process_substitution we mode shell raw =
     (if mode = Mode_command_name then (shell, Inl ''process substitution is not valid as a command name'')
      else if mode = Mode_object_selector \<or> mode = Mode_object_argument then
        (shell, Inl ''process substitution is not valid in object expressions'')
      else
        (case parse_process_substitution_raw raw of
           Inl err \<Rightarrow> (shell, Inl err)
         | Inr (reads, command) \<Rightarrow>
             (case we_process_subst we shell reads command of
                (shell1, r) \<Rightarrow> (shell1, bind_err r (\<lambda>path. Inr [copy_string max_token path])))))"

text \<open>The fields of an expanded word that matched no path names.\<close>

definition split_word :: "expand_mode \<Rightarrow> nat \<Rightarrow> ('f, 'w) exec_shell \<Rightarrow> expand_state \<Rightarrow> string + string list" where
  "split_word mode max_values shell st =
     (if mode = Mode_command then
        (let ifs = (case arksh_shell_get_var (vs shell) ''IFS'' of None \<Rightarrow> [CHR '' '', CHR 0x09, CHR 0x0A] | Some v \<Rightarrow> v) in
         case apply_ifs_splitting (xs_chars st) (xs_quote_open st) ifs max_values of
           Inl Too_many_fields \<Rightarrow> Inl ''too many fields after IFS splitting''
         | Inr fs \<Rightarrow> Inr fs)
      else Inr [copy_string max_token (map fst (xs_chars st))])"

definition finish_word ::
  "('f, 'w) word_env \<Rightarrow> expand_mode \<Rightarrow> nat \<Rightarrow> ('f, 'w) exec_shell \<Rightarrow> expand_state \<Rightarrow> string + string list" where
  "finish_word we mode max_values shell st =
     (if mode = Mode_command \<and> xs_glob st then
        (case we_glob we shell (xs_pattern st) max_values of
           (status, matches) \<Rightarrow>
             if status = 0 \<and> matches \<noteq> [] then Inr matches
             else if status = 2 then Inl ''glob expansion produced too many matches''
             else if status \<noteq> 0 then Inl ''glob expansion failed''
             else split_word mode max_values shell st)
      else split_word mode max_values shell st)"

definition arksh_expand_word ::
  "('f, 'w) word_env \<Rightarrow> ('f, 'w) exec_shell \<Rightarrow> string \<Rightarrow> expand_mode \<Rightarrow> nat \<Rightarrow>
   (('f, 'w) exec_shell \<times> (string + string list)) option" where
  "arksh_expand_word we shell raw mode max_values =
     (if next_is ''<('' raw \<or> next_is ''>('' raw then Some (expand_process_substitution we mode shell raw)
      else do {
        (shell1, r) \<leftarrow> expand_raw_token we mode shell raw;
        Some (shell1, bind_err r (finish_word we mode max_values shell1))
      })"

end
