(* ===== verification/Word_Laws.thy ===== *)
theory Word_Laws
  imports Word_Expansion Exec_Frame
begin

text \<open>
  What the expansion of words promises: quoted words give one argument with exactly their text and the
  values of their parameters, unquoted parameters are split into fields, and the results fit the
  arrays they are written to.
\<close>

subsection \<open>Growing the buffers\<close>

text \<open>The pattern has at most two characters for each character of the text, so it never overflows.\<close>

definition buffers_ok :: "expand_state \<Rightarrow> bool" where
  "buffers_ok st \<longleftrightarrow> length (xs_pattern st) \<le> 2 * length (xs_chars st) \<and> length (xs_chars st) < max_token"

definition grown :: "bool \<Rightarrow> string \<Rightarrow> expand_state \<Rightarrow> expand_state \<Rightarrow> bool" where
  "grown split_flag s st st' \<longleftrightarrow>
     xs_chars st' = xs_chars st @ map (\<lambda>c. (c, split_flag)) s \<and> buffers_ok st' \<and>
     xs_quote_open st' = xs_quote_open st"

lemma append_pattern_fits:
  "length pat + 2 * length s < pattern_size \<Longrightarrow>
   \<exists>p g. append_pattern_text allow s (pat, has) = Inr (pat @ p, g) \<and> length p \<le> 2 * length s \<and>
     (g \<longleftrightarrow> has \<or> (allow \<and> list_ex is_glob_meta_char s))"
proof (induction s arbitrary: pat has)
  case (Cons c s)
  define pat1 where "pat1 = (if \<not> (allow \<and> is_glob_meta_char c) \<and> (c = bslash \<or> is_glob_meta_char c) then pat @ [bslash, c] else pat @ [c])"
  have "length pat1 + 2 * length s < pattern_size" using Cons.prems by (simp add: pat1_def)
  then obtain p g where *: "append_pattern_text allow s (pat1, has \<or> (allow \<and> is_glob_meta_char c)) = Inr (pat1 @ p, g)"
    "length p \<le> 2 * length s" "g \<longleftrightarrow> (has \<or> (allow \<and> is_glob_meta_char c)) \<or> (allow \<and> list_ex is_glob_meta_char s)"
    using Cons.IH by blast
  have "append_pattern_text allow (c # s) (pat, has) = append_pattern_text allow s (pat1, has \<or> (allow \<and> is_glob_meta_char c))"
    using Cons.prems by (auto simp: pat1_def append_char_def)
  moreover have "\<exists>q. pat1 = pat @ q \<and> length q \<le> 2" by (auto simp: pat1_def)
  ultimately show ?case using * by fastforce
qed simp

lemma put_text_fits:
  assumes "buffers_ok st" and "length (xs_chars st) + length s < max_token"
  shows "\<exists>st'. put_text f allow s st = Inr st' \<and> grown f s st st' \<and>
    (xs_glob st' \<longleftrightarrow> xs_glob st \<or> (allow \<and> list_ex is_glob_meta_char s))"
proof -
  have "length (xs_pattern st) + 2 * length s < pattern_size"
    using assms by (simp add: buffers_ok_def pattern_size_def)
  then obtain p g where "append_pattern_text allow s (xs_pattern st, xs_glob st) = Inr (xs_pattern st @ p, g)"
    "length p \<le> 2 * length s" "g \<longleftrightarrow> xs_glob st \<or> (allow \<and> list_ex is_glob_meta_char s)"
    using append_pattern_fits by blast
  then show ?thesis
    using assms by (auto simp: put_text_def grown_def buffers_ok_def)
qed

lemma put_text_inv:
  assumes "put_text f allow s st = Inr st'" and "buffers_ok st"
  shows "grown f s st st' \<and> (xs_glob st' \<longleftrightarrow> xs_glob st \<or> (allow \<and> list_ex is_glob_meta_char s))"
proof -
  have "length (xs_chars st) + length s < max_token"
    using assms by (auto simp: put_text_def buffers_ok_def split: if_splits)
  then show ?thesis using put_text_fits [OF assms(2), of s f allow] assms(1) by simp
qed

subsection \<open>Quoted words\<close>

text \<open>Words made of plain characters, quoted texts and parameters in double quotes, and how they are written.\<close>

datatype dpart = Chars string | Param string

datatype piece = Raw string | Single string | Double "dpart list"

definition show_dchar :: "char \<Rightarrow> string" where
  "show_dchar c = (if c \<in> {CHR ''$'', CHR 0x60, dquote, bslash} then [bslash, c] else [c])"

fun show_dpart :: "dpart \<Rightarrow> string" where
  "show_dpart (Chars s) = concat (map show_dchar s)"
| "show_dpart (Param x) = CHR ''$'' # CHR ''{'' # x @ ''}''"

fun show_piece :: "piece \<Rightarrow> string" where
  "show_piece (Raw s) = s"
| "show_piece (Single s) = squote # s @ [squote]"
| "show_piece (Double ds) = dquote # concat (map show_dpart ds) @ [dquote]"

definition show_word :: "piece list \<Rightarrow> string" where
  "show_word ps = concat (map show_piece ps)"

text \<open>What they stand for.\<close>

fun dpart_text :: "(string \<Rightarrow> string) \<Rightarrow> dpart \<Rightarrow> string" where
  "dpart_text val (Chars s) = s"
| "dpart_text val (Param x) = val x"

fun piece_text :: "(string \<Rightarrow> string) \<Rightarrow> piece \<Rightarrow> string" where
  "piece_text val (Raw s) = s"
| "piece_text val (Single s) = s"
| "piece_text val (Double ds) = concat (map (dpart_text val) ds)"

definition word_text :: "(string \<Rightarrow> string) \<Rightarrow> piece list \<Rightarrow> string" where
  "word_text val ps = concat (map (piece_text val) ps)"

text \<open>A variable with an ordinary name and value.\<close>

definition variable_is :: "('f, 'w) exec_shell \<Rightarrow> string \<Rightarrow> string \<Rightarrow> bool" where
  "variable_is shell x v \<longleftrightarrow>
     x \<noteq> [] \<and> word_start (hd x) \<and> list_all word_char x \<and> length x < 128 \<and>
     x \<notin> {''PPID'', ''BASHPID'', ''LINENO'', ''FUNCNAME'', ''BASH_SOURCE''} \<and>
     arksh_shell_get_var (vs shell) x = Some v \<and> \<not> next_is nameref_prefix v \<and> length v < max_output"

definition raw_char :: "char \<Rightarrow> bool" where
  "raw_char c \<longleftrightarrow> \<not> is_glob_meta_char c \<and> c \<notin> {squote, dquote, bslash, CHR ''$'', CHR ''~'', CHR ''<'', CHR ''>''}"

fun dpart_ok :: "('f, 'w) exec_shell \<Rightarrow> (string \<Rightarrow> string) \<Rightarrow> dpart \<Rightarrow> bool" where
  "dpart_ok shell val (Chars s) = True"
| "dpart_ok shell val (Param x) = variable_is shell x (val x)"

fun piece_ok :: "('f, 'w) exec_shell \<Rightarrow> (string \<Rightarrow> string) \<Rightarrow> piece \<Rightarrow> bool" where
  "piece_ok shell val (Raw s) = list_all raw_char s"
| "piece_ok shell val (Single s) = (squote \<notin> set s)"
| "piece_ok shell val (Double ds) = list_all (dpart_ok shell val) ds"

lemma special_word_start:
  assumes "word_start c"
  shows "special_char we shell c n = None"
proof -
  have "\<not> word_start d" if "d \<in> set ''?#$!-@*''" for d
    using that by (auto simp: word_start_def c_isalpha_def)
  then have "c \<notin> set ''?#$!-@*''" using assms by blast
  then show ?thesis by (simp add: special_char_def)
qed

lemma variable_lookup:
  assumes "variable_is shell x v"
  shows "lookup_var_value we shell x max_output = Some v"
proof -
  have h: "word_start (hd x)" "x \<noteq> []" using assms by (simp_all add: variable_is_def)
  have "\<not> list_all c_isdigit x"
    using h by (cases x) (auto simp: word_start_def c_isalpha_def c_isdigit_def)
  moreover have "(if length x = 1 then special_char we shell (hd x) max_output else None) = None"
    by (simp add: special_word_start [OF h(1)])
  moreover have "x \<noteq> ''PPID''" "x \<noteq> ''BASHPID''" "x \<noteq> ''LINENO''" "x \<noteq> ''FUNCNAME''" "x \<noteq> ''BASH_SOURCE''"
    using assms by (simp_all add: variable_is_def)
  ultimately have "resolve_special_name we shell x max_output = None"
    unfolding resolve_special_name_def by (simp only: option.case if_False simp_thms)
  then show ?thesis
    using assms by (simp add: lookup_var_value_def variable_is_def eval_nat_numeral)
qed

lemma parse_plain_braced:
  assumes "variable_is shell x v"
  shows "parse_braced (x @ CHR ''}'' # r) =
    Inr (\<lparr>p_length = False, p_keys = False, p_name = x, p_subscript = None, p_colon = False, p_op = None,
      p_twice = False, p_operand = []\<rparr>, r)"
proof -
  obtain c cs where x: "x = c # cs" and c: "word_start c" and w: "list_all word_char x" "length x < 128"
    using assms by (cases x) (auto simp: variable_is_def)
  have ne: "c \<noteq> CHR ''#''" "c \<noteq> CHR ''!''" using c by (auto simp: word_start_def c_isalpha_def)
  have t: "\<not> takes_length (x @ CHR ''}'' # r)" "\<not> takes_keys (x @ CHR ''}'' # r)"
    using ne by (auto simp: takes_length_def takes_keys_def x split: list.splits)
  have "\<not> word_char (CHR ''}'')" by (simp add: word_char_def c_isalnum_def c_isalpha_def c_isdigit_def)
  then have tw: "takeWhile word_char (x @ CHR ''}'' # r) = x" "dropWhile word_char (x @ CHR ''}'' # r) = CHR ''}'' # r"
    using w(1) by (auto simp: takeWhile_append dropWhile_append list_all_iff)
  have n: "braced_name (x @ CHR ''}'' # r) = Inr (x, CHR ''}'' # r)"
    using c w(2) tw by (simp add: braced_name_def x Let_def)
  show ?thesis
    using t n x by (simp add: parse_braced_def braced_subscript_def braced_operator_def Let_def max_output_def)
qed

lemma substitute_variable:
  assumes "variable_is shell x v"
  shows "substitute we shell (CHR ''{'' # x @ CHR ''}'' # r) = Some (shell, Inr (False, v, r))"
proof -
  have "special_char we shell (CHR ''{'') max_output = None" by (simp add: special_char_def)
  moreover have "length v < max_output" using assms by (simp add: variable_is_def)
  ultimately show ?thesis
    using parse_plain_braced [OF assms, of r] variable_lookup [OF assms, of we]
    by (simp add: substitute_def resolve_variable_def resolve_braced_def param_value_def c_isdigit_def)
qed

text \<open>A part of a word that is read inside one kind of quotes and adds its text.\<close>

definition reads_as ::
  "('f, 'w) word_env \<Rightarrow> expand_mode \<Rightarrow> ('f, 'w) exec_shell \<Rightarrow> char option \<Rightarrow> string \<Rightarrow> string \<Rightarrow> bool" where
  "reads_as we mode shell q w t \<longleftrightarrow>
     (\<forall>st. buffers_ok st \<longrightarrow> length (xs_chars st) + length t < max_token \<longrightarrow>
        (\<exists>st'. grown False t st st' \<and> xs_glob st' = xs_glob st \<and>
           (\<forall>r. expand_loop we mode q st shell (w @ r) = expand_loop we mode q st' shell r)))"

lemma reads_as_Nil: "reads_as we mode shell q [] []"
  unfolding reads_as_def by (auto simp: grown_def)

lemma reads_as_append:
  assumes "reads_as we mode shell q w1 t1" and "reads_as we mode shell q w2 t2"
  shows "reads_as we mode shell q (w1 @ w2) (t1 @ t2)"
  unfolding reads_as_def
proof (intro allI impI)
  fix st
  assume st: "buffers_ok st" "length (xs_chars st) + length (t1 @ t2) < max_token"
  obtain st1 where 1: "grown False t1 st st1" "xs_glob st1 = xs_glob st"
    "\<And>r. expand_loop we mode q st shell (w1 @ r) = expand_loop we mode q st1 shell r"
    using assms(1) st unfolding reads_as_def by (metis add_leD1 length_append nat_add_left_cancel_less add.assoc add_lessD1)
  have "buffers_ok st1" "length (xs_chars st1) + length t2 < max_token" using 1(1) st(2) by (auto simp: grown_def)
  then obtain st2 where 2: "grown False t2 st1 st2" "xs_glob st2 = xs_glob st1"
    "\<And>r. expand_loop we mode q st1 shell (w2 @ r) = expand_loop we mode q st2 shell r"
    using assms(2) unfolding reads_as_def by metis
  show "\<exists>st'. grown False (t1 @ t2) st st' \<and> xs_glob st' = xs_glob st \<and>
      (\<forall>r. expand_loop we mode q st shell ((w1 @ w2) @ r) = expand_loop we mode q st' shell r)"
    using 1 2 by (intro exI [of _ st2]) (auto simp: grown_def)
qed

lemma reads_as_concat:
  "(\<And>x. x \<in> set xs \<Longrightarrow> reads_as we mode shell q (f x) (g x)) \<Longrightarrow>
   reads_as we mode shell q (concat (map f xs)) (concat (map g xs))"
  by (induction xs) (auto simp: reads_as_Nil intro: reads_as_append)

text \<open>One step that writes literal text.\<close>

lemma reads_as_literal:
  assumes "\<And>st r. expand_loop we mode q st shell (w @ r) =
      (case put_text False allow s st of
         Inl err \<Rightarrow> Some (shell, Inl err)
       | Inr st1 \<Rightarrow> expand_loop we mode q st1 shell r)"
    and "\<not> allow \<or> \<not> list_ex is_glob_meta_char s"
  shows "reads_as we mode shell q w s"
  unfolding reads_as_def
proof (intro allI impI)
  fix st
  assume "buffers_ok st" "length (xs_chars st) + length s < max_token"
  then obtain st' where "put_text False allow s st = Inr st'" "grown False s st st'" "xs_glob st' = xs_glob st"
    using put_text_fits [of st s False allow] assms(2) by auto
  then show "\<exists>st'. grown False s st st' \<and> xs_glob st' = xs_glob st \<and>
      (\<forall>r. expand_loop we mode q st shell (w @ r) = expand_loop we mode q st' shell r)"
    using assms(1) by auto
qed

lemma quote_ne: "squote \<noteq> dquote" "squote \<noteq> bslash" "dquote \<noteq> bslash" "dquote \<noteq> CHR ''$''" "bslash \<noteq> CHR ''$''"
  "CHR ''$'' \<noteq> dquote" "CHR ''$'' \<noteq> bslash" "CHR ''$'' \<noteq> squote"
  by simp_all

lemma reads_raw_char: "raw_char c \<Longrightarrow> reads_as we mode shell None [c] [c]"
  by (rule reads_as_literal [where allow = "mode = Mode_command"]) (auto simp: raw_char_def split: sum.split)

lemma reads_single_char: "c \<noteq> squote \<Longrightarrow> reads_as we mode shell (Some squote) [c] [c]"
  by (rule reads_as_literal [where allow = False]) (simp_all split: sum.split)

lemma reads_double_char: "reads_as we mode shell (Some dquote) (show_dchar c) [c]"
proof (cases "c \<in> {CHR ''$'', CHR 0x60, dquote, bslash}")
  case True
  then show ?thesis
    by (intro reads_as_literal [where allow = False]) (auto simp: show_dchar_def split: sum.split)
next
  case False
  then show ?thesis
    by (intro reads_as_literal [where allow = False]) (auto simp: show_dchar_def split: sum.split)
qed

lemma reads_param:
  assumes "variable_is shell x v"
  shows "reads_as we mode shell (Some dquote) (show_dpart (Param x)) v"
  by (rule reads_as_literal [where allow = False])
    (simp_all add: substitute_variable [OF assms] split: sum.split)

lemma reads_dpart: "dpart_ok shell val d \<Longrightarrow> reads_as we mode shell (Some dquote) (show_dpart d) (dpart_text val d)"
proof (cases d)
  case (Chars s)
  have "reads_as we mode shell (Some dquote) (concat (map show_dchar s)) (concat (map (\<lambda>c. [c]) s))"
    by (rule reads_as_concat) (rule reads_double_char)
  then show ?thesis by (simp add: Chars concat_map_singleton)
qed (simp add: reads_param del: show_dpart.simps)

text \<open>Pieces outside of quotes.\<close>

fun is_quoted :: "piece \<Rightarrow> bool" where
  "is_quoted (Raw s) = False"
| "is_quoted p = True"

lemma read_piece:
  assumes "piece_ok shell val p" and "buffers_ok st" and "length (xs_chars st) + length (piece_text val p) < max_token"
  shows "\<exists>st'. xs_chars st' = xs_chars st @ map (\<lambda>c. (c, False)) (piece_text val p) \<and> buffers_ok st' \<and>
    xs_glob st' = xs_glob st \<and> (xs_quote_open st' \<longleftrightarrow> xs_quote_open st \<or> is_quoted p) \<and>
    (\<forall>r. expand_loop we mode None st shell (show_piece p @ r) = expand_loop we mode None st' shell r)"
proof -
  let ?o = "st\<lparr>xs_fragment := True, xs_quote_open := True\<rparr>"
  have o: "buffers_ok ?o" "length (xs_chars ?o) + length (piece_text val p) < max_token"
    using assms(2,3) by (simp_all add: buffers_ok_def)
  show ?thesis
  proof (cases p)
    case (Raw s)
    have "reads_as we mode shell None (concat (map (\<lambda>c. [c]) s)) (concat (map (\<lambda>c. [c]) s))"
      by (rule reads_as_concat) (use assms(1) Raw in \<open>auto intro!: reads_raw_char simp: list_all_iff\<close>)
    then obtain st' where "grown False s st st'" "xs_glob st' = xs_glob st"
      "\<forall>r. expand_loop we mode None st shell (s @ r) = expand_loop we mode None st' shell r"
      using assms(2,3) Raw unfolding reads_as_def concat_map_singleton by (metis map_ident piece_text.simps(1))
    then show ?thesis using Raw by (intro exI [of _ st']) (simp add: grown_def)
  next
    case (Single s)
    have "reads_as we mode shell (Some squote) (concat (map (\<lambda>c. [c]) s)) (concat (map (\<lambda>c. [c]) s))"
      by (rule reads_as_concat) (use assms(1) Single in \<open>auto intro!: reads_single_char\<close>)
    then obtain st' where "grown False s ?o st'" "xs_glob st' = xs_glob ?o"
      "\<forall>r. expand_loop we mode (Some squote) ?o shell (s @ r) = expand_loop we mode (Some squote) st' shell r"
      using o Single unfolding reads_as_def concat_map_singleton by (metis map_ident piece_text.simps(2))
    then show ?thesis using Single by (intro exI [of _ st']) (simp add: grown_def)
  next
    case (Double ds)
    have "reads_as we mode shell (Some dquote) (concat (map show_dpart ds)) (concat (map (dpart_text val) ds))"
      by (rule reads_as_concat) (use assms(1) Double in \<open>auto intro!: reads_dpart simp: list_all_iff\<close>)
    then obtain st' where "grown False (piece_text val p) ?o st'" "xs_glob st' = xs_glob ?o"
      "\<forall>r. expand_loop we mode (Some dquote) ?o shell (concat (map show_dpart ds) @ r) =
         expand_loop we mode (Some dquote) st' shell r"
      using o Double unfolding reads_as_def by (metis piece_text.simps(3))
    then show ?thesis using Double by (intro exI [of _ st']) (simp add: grown_def)
  qed
qed

lemma read_word:
  "list_all (piece_ok shell val) ps \<Longrightarrow> buffers_ok st \<Longrightarrow> length (xs_chars st) + length (word_text val ps) < max_token \<Longrightarrow>
   \<exists>st'. expand_loop we mode None st shell (show_word ps) = Some (shell, Inr st') \<and>
     xs_chars st' = xs_chars st @ map (\<lambda>c. (c, False)) (word_text val ps) \<and> xs_glob st' = xs_glob st \<and>
     (xs_quote_open st' \<longleftrightarrow> xs_quote_open st \<or> list_ex is_quoted ps)"
proof (induction ps arbitrary: st)
  case Nil
  then show ?case by (simp add: show_word_def word_text_def)
next
  case (Cons p ps)
  obtain st1 where 1: "xs_chars st1 = xs_chars st @ map (\<lambda>c. (c, False)) (piece_text val p)" "buffers_ok st1"
    "xs_glob st1 = xs_glob st" "xs_quote_open st1 \<longleftrightarrow> xs_quote_open st \<or> is_quoted p"
    "\<And>r. expand_loop we mode None st shell (show_piece p @ r) = expand_loop we mode None st1 shell r"
    using read_piece [of shell val p st we mode] Cons.prems by (auto simp: word_text_def)
  obtain st2 where 2: "expand_loop we mode None st1 shell (show_word ps) = Some (shell, Inr st2)"
    "xs_chars st2 = xs_chars st1 @ map (\<lambda>c. (c, False)) (word_text val ps)" "xs_glob st2 = xs_glob st1"
    "xs_quote_open st2 \<longleftrightarrow> xs_quote_open st1 \<or> list_ex is_quoted ps"
    using Cons.IH [of st1] Cons.prems 1 by (auto simp: word_text_def)
  show ?case
    using 1 2 by (intro exI [of _ st2]) (simp add: show_word_def word_text_def)
qed

lemma literal_fields: "word_fields ifs (map (\<lambda>c. (c, False)) s) = (if s = [] then [] else [s])"
proof -
  have "map (mark_of ifs) (map (\<lambda>c. (c, False)) s) = map Data s" by (induction s) (simp_all add: mark_of_def)
  moreover have "fields_from False (map Data s) = (if s = [] then [] else [s])"
    using segments_data [of s "[]"] by (simp add: fields_from_def runs_only_data)
  ultimately show ?thesis by (simp only: word_fields_def)
qed

lemma split_literal:
  assumes "length s < max_token" and "k > 0" and "q \<or> s \<noteq> []"
  shows "apply_ifs_splitting (map (\<lambda>c. (c, False)) s) q ifs k = Inr [s]"
proof -
  have f: "length s < field_size" using assms(1) by (simp add: field_size_def max_token_def)
  show ?thesis
  proof (cases "ifs = []")
    case True
    have "map fst (map (\<lambda>c. (c, False)) s) = s" by (induction s) simp_all
    then show ?thesis using True assms(3) f by (auto simp: apply_ifs_splitting_def)
  next
    case False
    then show ?thesis using literal_fields [of ifs s] assms(2,3) f by (auto simp: ifs_split_eq)
  qed
qed

lemma word_start_ok:
  assumes "list_all (piece_ok shell val) ps"
  shows "\<not> next_is ''<('' (show_word ps) \<and> \<not> next_is ''>('' (show_word ps)"
  using assms
proof (induction ps)
  case (Cons p ps)
  then show ?case
  proof (cases p)
    case (Raw s)
    then show ?thesis using Cons by (cases s) (auto simp: show_word_def raw_char_def)
  qed (simp_all add: show_word_def)
qed (simp add: show_word_def)

lemma quoted_word_expands:
  assumes "list_all (piece_ok shell val) ps" and "list_ex is_quoted ps \<or> word_text val ps \<noteq> []"
    and "length (word_text val ps) < max_token" and "max_values > 0"
  shows "arksh_expand_word we shell (show_word ps) mode max_values = Some (shell, Inr [word_text val ps])"
proof -
  obtain st where "expand_raw_token we mode shell (show_word ps) = Some (shell, Inr st)"
    "xs_chars st = map (\<lambda>c. (c, False)) (word_text val ps)" "\<not> xs_glob st" "xs_quote_open st \<longleftrightarrow> list_ex is_quoted ps"
    using read_word [OF assms(1), of "\<lparr>xs_chars = [], xs_pattern = [], xs_glob = False, xs_quote_open = False,
        xs_fragment = False\<rparr>" we mode] assms(3)
    by (auto simp: expand_raw_token_def buffers_ok_def)
  moreover have "map fst (map (\<lambda>c. (c, False)) s) = s" for s :: string by (induction s) simp_all
  ultimately show ?thesis
    using word_start_ok [OF assms(1)] split_literal [OF assms(3,4), of "list_ex is_quoted ps"] assms(2,3)
    by (auto simp: arksh_expand_word_def finish_word_def split_word_def Let_def)
qed

text \<open>
  (C6) A quoted word is one argument with exactly its text: a word put together from plain characters,
  texts in single quotes, and texts and parameters in double quotes, that has a quote or is not
  empty and whose text fits a token, expands to the one field that joins the plain characters, the
  quoted texts character by character and the values of the parameters.  Whatever the field
  separators are and whatever the values contain, nothing is split, no path name is matched, and the
  shell is unchanged.
\<close>

theorem quoted_word_expands_to_itself:
  assumes "list_all (piece_ok shell val) ps" and "list_ex is_quoted ps \<or> word_text val ps \<noteq> []"
    and "length (word_text val ps) < max_token" and "max_values > 0"
  shows "arksh_expand_word we shell (show_word ps) mode max_values = Some (shell, Inr [word_text val ps])"
  by (rule quoted_word_expands [OF assms])

text \<open>An environment without subshells, files and associative arrays, for examples.\<close>

definition plain_env :: "(unit, unit) word_env" where
  "plain_env =
     \<lparr>we_mem = plenty, we_clone = Inr, we_execute = \<lambda>s line. Some (s, [], 0), we_restore = \<lambda>s t. (s, None),
      we_read_file = \<lambda>s path. None, we_process_subst = \<lambda>s reads command. (s, Inl ''no process substitution''),
      we_glob = \<lambda>s pat k. (0, []), we_assoc = \<lambda>s name. None, we_nounset = \<lambda>s. False, we_shell_pid = \<lambda>s. 1,
      we_parent_pid = \<lambda>s. 0, we_bg_pid = \<lambda>s. -1, we_pid = \<lambda>s. 1, we_line = \<lambda>s. 0, we_source_path = \<lambda>s. [],
      we_program_path = \<lambda>s. ''arksh''\<rparr>"

definition shell_with :: "string \<Rightarrow> string \<Rightarrow> (unit, unit) exec_shell" where
  "shell_with x v = start_shell\<lparr>vs := snd (arksh_shell_set_var plenty (vs start_shell) x v False)\<rparr>"

theorem quoted_word_expands_to_itself_witness:
  "arksh_expand_word plain_env (shell_with ''x'' ''a  b*'')
     (show_word [Raw ''pre-'', Single ''$HOME'', Double [Chars ''<'', Param ''x'', Chars ''>'']]) Mode_command 16 =
   Some (shell_with ''x'' ''a  b*'', Inr [''pre-$HOME<a  b*>''])"
proof -
  let ?val = "\<lambda>_ :: string. ''a  b*''"
    and ?ps = "[Raw ''pre-'', Single ''$HOME'', Double [Chars ''<'', Param ''x'', Chars ''>'']]"
  have "list_all (piece_ok (shell_with ''x'' ''a  b*'') ?val) ?ps" by code_simp
  from quoted_word_expands_to_itself [OF this, of 16 plain_env Mode_command] show ?thesis
    by (simp add: word_text_def max_token_def)
qed

subsection \<open>Unquoted parameters\<close>

lemma substitute_plain_variable:
  assumes "variable_is shell x v"
  shows "substitute we shell x = Some (shell, Inr (False, v, []))"
proof -
  obtain c cs where x: "x = c # cs" and c: "word_start c" and w: "list_all word_char x" "length x < 128"
    using assms by (cases x) (auto simp: variable_is_def)
  have ne: "c \<noteq> CHR ''(''" "c \<noteq> CHR ''{''" "\<not> c_isdigit c"
    using c by (auto simp: word_start_def c_isalpha_def c_isdigit_def)
  have "takeWhile word_char x = x" "dropWhile word_char x = []" using w(1) by (simp_all add: list_all_iff)
  then show ?thesis
    using ne c w(2) variable_lookup [OF assms, of we] special_word_start [OF c, of we shell max_output]
    by (simp add: substitute_def resolve_variable_def x Let_def)
qed

text \<open>
  (C28) An unquoted parameter is split into fields: the word of a dollar sign and the name of a variable
  whose value has no pattern characters and fits a token expands to the fields of the value between
  the separators in \<open>IFS\<close>, or to an error when there are more fields than the caller has room for.
\<close>

theorem unquoted_parameter_splits:
  assumes "variable_is shell x v" and "\<not> list_ex is_glob_meta_char v" and "length v < max_token"
    and "arksh_shell_get_var (vs shell) ''IFS'' = Some ifs" and "ifs \<noteq> []"
  shows "arksh_expand_word we shell (CHR ''$'' # x) Mode_command max_values =
    Some (shell, let fs = word_fields ifs (splittable v) in
      if length fs > max_values then Inl ''too many fields after IFS splitting''
      else Inr (map (copy_string max_token) fs))"
proof -
  let ?st = "\<lparr>xs_chars = [], xs_pattern = [], xs_glob = False, xs_quote_open = False, xs_fragment = False\<rparr>"
  obtain st where st: "put_text True True v ?st = Inr st" "grown True v ?st st" "\<not> xs_glob st"
    using put_text_fits [of ?st v True True] assms(2,3) by (auto simp: buffers_ok_def)
  have "expand_raw_token we Mode_command shell (CHR ''$'' # x) = Some (shell, Inr st)"
    using substitute_plain_variable [OF assms(1), of we] st(1) by (simp add: expand_raw_token_def)
  moreover have "xs_chars st = splittable v" "\<not> xs_quote_open st"
    using st(2) by (simp_all add: grown_def)
  moreover have "copy_string max_token = take (field_size - 1)"
    by (simp add: fun_eq_iff copy_string_def max_token_def field_size_def)
  ultimately show ?thesis
    using st(3) assms(4,5) by (simp add: arksh_expand_word_def finish_word_def split_word_def ifs_split_eq Let_def)
qed

definition ifs_shell :: "(unit, unit) exec_shell" where
  "ifs_shell = (shell_with ''p'' ''/bin::/usr'')\<lparr>vs :=
     snd (arksh_shell_set_var plenty (vs (shell_with ''p'' ''/bin::/usr'')) ''IFS'' '':'' False)\<rparr>"

theorem unquoted_parameter_splits_witness:
  "arksh_expand_word plain_env ifs_shell ''$p'' Mode_command 16 = Some (ifs_shell, Inr [''/bin'', [], ''/usr''])"
proof -
  have "variable_is ifs_shell ''p'' ''/bin::/usr''" by code_simp
  moreover have "arksh_shell_get_var (vs ifs_shell) ''IFS'' = Some '':''" by code_simp
  moreover have "word_fields '':'' (splittable ''/bin::/usr'') = [''/bin'', [], ''/usr'']" by code_simp
  ultimately show ?thesis
    using unquoted_parameter_splits [of ifs_shell "''p''" "''/bin::/usr''" "'':''" plain_env 16]
    by (simp add: is_glob_meta_char_def max_token_def)
qed

subsection \<open>All positional parameters\<close>

lemma positional_loop_join:
  "length out + 1 + length (join (CHR '' '') ps) < sz \<or> ps = [] \<Longrightarrow>
   positional_loop sz False out (map Some ps) = (if ps = [] then out else out @ CHR '' '' # join (CHR '' '') ps)"
proof (induction ps arbitrary: out)
  case (Cons p ps)
  then show ?case by (cases "ps = []") (simp_all add: join_Cons)
qed simp

lemma expand_positional_join:
  assumes "map (\<lambda>j. arksh_shell_get_positional (vs shell) (int j)) [0..<arksh_shell_get_positional_count (vs shell)] = map Some ps"
    and "length (join (CHR '' '') ps) < sz"
  shows "expand_positional_list shell sz = join (CHR '' '') ps"
proof (cases ps)
  case (Cons p qs)
  have "length p < sz" using assms(2) by (cases "qs = []") (simp_all add: Cons join_Cons)
  then show ?thesis
    using assms positional_loop_join [of p qs sz] by (cases "qs = []") (simp_all add: expand_positional_list_def Cons join_Cons)
qed (use assms in \<open>simp add: expand_positional_list_def\<close>)

text \<open>
  (C39) The positional parameters in double quotes become one argument: the word of a quoted dollar sign
  and at sign expands to a single field, the parameters joined by spaces, however many there are;
  their boundaries are lost, and without parameters the result is one empty argument.
\<close>

theorem quoted_positional_joined:
  assumes "map (\<lambda>j. arksh_shell_get_positional (vs shell) (int j)) [0..<arksh_shell_get_positional_count (vs shell)] = map Some ps"
    and "length (join (CHR '' '') ps) < max_token" and "max_values > 0"
  shows "arksh_expand_word we shell [dquote, CHR ''$'', CHR ''@'', dquote] Mode_command max_values =
    Some (shell, Inr [join (CHR '' '') ps])"
proof -
  let ?st = "\<lparr>xs_chars = [], xs_pattern = [], xs_glob = False, xs_quote_open = True, xs_fragment = True\<rparr>"
    and ?v = "join (CHR '' '') ps"
  have "length ?v < max_output" using assms(2) by (simp add: max_token_def max_output_def)
  then have sub: "substitute we shell [CHR ''@'', dquote] = Some (shell, Inr (False, ?v, [dquote]))"
    using expand_positional_join [OF assms(1), of max_output]
    by (simp add: substitute_def resolve_variable_def special_char_def)
  obtain st where st: "put_text False False ?v ?st = Inr st" "grown False ?v ?st st" "\<not> xs_glob st"
    using put_text_fits [of ?st ?v False False] assms(2) by (auto simp: buffers_ok_def)
  have "expand_raw_token we Mode_command shell [dquote, CHR ''$'', CHR ''@'', dquote] = Some (shell, Inr st)"
    using sub st(1) by (simp add: expand_raw_token_def)
  moreover have "xs_chars st = map (\<lambda>c. (c, False)) ?v" "xs_quote_open st"
    using st(2) by (simp_all add: grown_def)
  ultimately show ?thesis
    using st(3) split_literal [OF assms(2,3), of True]
    by (simp add: arksh_expand_word_def finish_word_def split_word_def Let_def)
qed

definition args_shell :: "(unit, unit) exec_shell" where
  "args_shell = start_shell\<lparr>vs := snd (arksh_shell_set_positional_argv plenty (vs start_shell) [''a b'', ''c''])\<rparr>"

theorem quoted_positional_joined_witness:
  "arksh_expand_word plain_env args_shell [dquote, CHR ''$'', CHR ''@'', dquote] Mode_command 16 =
     Some (args_shell, Inr [''a b c''])"
proof -
  have "map (\<lambda>j. arksh_shell_get_positional (vs args_shell) (int j)) [0..<arksh_shell_get_positional_count (vs args_shell)] =
      map Some [''a b'', ''c'']"
    by code_simp
  from quoted_positional_joined [OF this, of 16 plain_env] show ?thesis by (simp add: max_token_def)
qed

subsection \<open>Bounds\<close>

lemma ifs_split_bounds:
  assumes "apply_ifs_splitting xs q ifs k = Inr fs" and "k > 0"
  shows "length fs \<le> k \<and> (\<forall>f \<in> set fs. length f < max_token)"
proof (cases "ifs = []")
  case True
  then show ?thesis
    using assms by (auto simp: apply_ifs_splitting_def field_size_def max_token_def length_copy_string split: if_splits)
next
  case False
  then show ?thesis
    using assms by (auto simp: ifs_split_eq Let_def field_size_def max_token_def split: if_splits)
qed

text \<open>
  (C29) The results of an expansion fit the array they are written to: whatever the word, the mode and
  the state, an expansion that succeeds gives at most as many fields as the caller has room for, each
  shorter than a token, if the path names the platform layer finds do.
\<close>

theorem expand_word_fits:
  assumes "arksh_expand_word we shell raw mode max_values = Some (shell', Inr fs)" and "max_values > 0"
    and "\<forall>s pat k. length (snd (we_glob we s pat k)) \<le> k \<and> (\<forall>m \<in> set (snd (we_glob we s pat k)). length m < max_token)"
  shows "length fs \<le> max_values \<and> (\<forall>f \<in> set fs. length f < max_token)"
proof -
  have cp: "length (copy_string max_token s) < max_token" for s by (simp add: length_copy_string max_token_def)
  have split: "length fs \<le> max_values \<and> (\<forall>f \<in> set fs. length f < max_token)"
    if "split_word mode max_values s st = Inr fs" for s st
    using that ifs_split_bounds [OF _ assms(2)] assms(2) cp
    by (auto simp: split_word_def Let_def split: if_splits sum.splits ifs_error.splits)
  have finish: "length fs \<le> max_values \<and> (\<forall>f \<in> set fs. length f < max_token)"
    if "finish_word we mode max_values s st = Inr fs" for s st
  proof -
    obtain status matches where "we_glob we s (xs_pattern st) max_values = (status, matches)" by fastforce
    moreover have "length matches \<le> max_values \<and> (\<forall>m \<in> set matches. length m < max_token)"
      using assms(3) calculation by (metis snd_conv)
    ultimately show ?thesis
      using that split [of s st] by (auto simp: finish_word_def split: if_splits)
  qed
  show ?thesis
    using assms(1,2) finish cp
    by (auto simp: arksh_expand_word_def expand_process_substitution_def bind_eq_Some_conv bind_err_eq_Inr
        split: if_splits sum.splits prod.splits)
qed

theorem expand_word_fits_witness:
  "\<exists>fs. arksh_expand_word plain_env start_shell ''ab'' Mode_command 1 = Some (start_shell, Inr fs) \<and>
     length fs \<le> 1 \<and> list_all (\<lambda>f. length f < max_token) fs"
proof -
  have e: "arksh_expand_word plain_env start_shell ''ab'' Mode_command 1 = Some (start_shell, Inr [''ab''])"
    using quoted_word_expands [of start_shell "\<lambda>_. []" "[Raw ''ab'']" 1 plain_env Mode_command]
    by (simp add: show_word_def word_text_def raw_char_def is_glob_meta_char_def max_token_def)
  have "length [''ab''] \<le> (1 :: nat) \<and> (\<forall>f \<in> set [''ab'']. length f < max_token)"
    by (rule expand_word_fits [OF e]) (simp_all add: plain_env_def)
  with e show ?thesis by (simp add: list_all_iff)
qed

subsection \<open>Arguments of commands\<close>

lemma expand_arguments_quoted:
  "list_all (\<lambda>ps. list_all (piece_ok shell val) ps \<and> (list_ex is_quoted ps \<or> word_text val ps \<noteq> []) \<and>
     length (word_text val ps) < max_token) pss \<Longrightarrow>
   length out + length pss \<le> max_args \<Longrightarrow> sv_expand_word sv = arksh_expand_word we \<Longrightarrow>
   expand_arguments_loop sv first out (map show_word pss) shell = Some (shell, Inr (out @ map (word_text val) pss))"
proof (induction pss arbitrary: first out)
  case (Cons ps pss)
  then show ?case
    using quoted_word_expands [of shell val ps max_args we "if first then Mode_command_name else Mode_command"]
    by (simp add: max_args_def)
qed simp

text \<open>
  (C7) Quoted arguments reach the command: when a simple command is written as quoted words, and words are
  expanded by \<open>arksh_expand_word\<close>, the function, the built-in command or the program it names is
  called with exactly the texts of the words as arguments, in the state before the command.
\<close>

theorem quoted_arguments_reach_command:
  assumes "list_all (\<lambda>ps. list_all (piece_ok shell val) ps \<and> (list_ex is_quoted ps \<or> word_text val ps \<noteq> []) \<and>
      length (word_text val ps) < max_token) pss"
    and "pss \<noteq> []" and "length pss \<le> max_args" and "sv_expand_word sv = arksh_expand_word we"
    and "show_word (hd pss) \<noteq> ''[[''"
    and "split_posix_assignment (word_text val (hd pss)) = None" and "parse_assoc_assignment (word_text val (hd pss)) = None"
  shows "execute_simple_command sv exec (map show_word pss) shell =
    dispatch_command sv exec (map (word_text val) pss) shell"
proof -
  obtain ps qss where pss: "pss = ps # qss" using assms(2) by (cases pss) auto
  have "expand_command_arguments sv (map show_word pss) shell = Some (shell, Inr (map (word_text val) pss))"
    using expand_arguments_quoted [OF assms(1), of "[]" sv we True] assms(3,4) by (simp add: expand_command_arguments_def)
  then show ?thesis
    using assms(5-7) by (simp add: execute_simple_command_def pss Let_def)
qed

definition word_services :: "(unit, unit, string, unit) services" where
  "word_services = (table_services echo_commands [])\<lparr>sv_expand_word := arksh_expand_word plain_env\<rparr>"

theorem quoted_arguments_reach_command_witness:
  "execute_simple_command word_services (\<lambda>s line. None) [''echo'', squote # ''a  b'' @ [squote], dquote # ''c*'' @ [dquote]]
     start_shell = Some (start_shell, ''a  bc*'', 0)"
proof -
  let ?pss = "[[Raw ''echo''], [Single ''a  b''], [Double [Chars ''c*'']]]" and ?val = "\<lambda>_ :: string. [] :: string"
  have "execute_simple_command word_services (\<lambda>s line. None) (map show_word ?pss) start_shell =
      dispatch_command word_services (\<lambda>s line. None) (map (word_text ?val) ?pss) start_shell"
  proof (rule quoted_arguments_reach_command [where we = plain_env])
    show "list_all (\<lambda>ps. list_all (piece_ok start_shell ?val) ps \<and> (list_ex is_quoted ps \<or> word_text ?val ps \<noteq> []) \<and>
        length (word_text ?val ps) < max_token) ?pss"
      by (simp add: word_text_def raw_char_def is_glob_meta_char_def max_token_def)
    show "sv_expand_word word_services = arksh_expand_word plain_env" by (simp add: word_services_def)
    show "split_posix_assignment (word_text ?val (hd ?pss)) = None" by code_simp
    show "parse_assoc_assignment (word_text ?val (hd ?pss)) = None" by code_simp
  qed (simp_all add: max_args_def show_word_def)
  moreover have "map show_word ?pss = [''echo'', squote # ''a  b'' @ [squote], dquote # ''c*'' @ [dquote]]"
    by (simp add: show_word_def show_dchar_def)
  moreover have "dispatch_command word_services (\<lambda>s line. None) (map (word_text ?val) ?pss) start_shell =
      Some (start_shell, ''a  bc*'', 0)"
  proof -
    have "arksh_shell_find_function (empty_shell :: unit shell) ''echo'' = None" by code_simp
    moreover have "arksh_shell_find_command (empty_shell :: unit shell) ''echo'' = None" by code_simp
    ultimately show ?thesis
      by (simp add: dispatch_command_def start_shell_def word_services_def table_services_def basic_services_def
          echo_commands_def word_text_def)
  qed
  ultimately show ?thesis by simp
qed

end
