(* ===== verification/Descent.thy ===== *)
theory Descent
  imports Arksh_Prelude "HOL-Library.Monad_Syntax"
begin

text \<open>
  Recursive descent over the words of a command, as the evaluators of \<open>test\<close> and \<open>[[\<close> do it.  A reader
  takes the words and a state and gives a result, the state and the words that are left, or \<open>None\<close>
  when its bound is used up.  A chain reads operands with a word between them; its bound is the
  number of operands.  Readers with larger bounds agree with readers with smaller ones, and a chain
  of readers that answer answers.
\<close>

type_synonym ('s, 'r) reader = "string list \<Rightarrow> 's \<Rightarrow> ('r \<times> 's \<times> string list) option"

definition test_word :: "string \<Rightarrow> string list \<Rightarrow> bool" where
  "test_word w args \<longleftrightarrow> args \<noteq> [] \<and> hd args = w"

lemma test_word_simps [simp]:
  "\<not> test_word w []"
  "test_word w (u # us) \<longleftrightarrow> u = w"
  by (simp_all add: test_word_def)

lemma test_word_shorter: "test_word w args \<Longrightarrow> length args \<le> Suc k \<Longrightarrow> length (tl args) \<le> k \<and> length (tl args) < length args"
  by (auto simp: test_word_def)

text \<open>
  The loop after the first operand: \<open>stop\<close> tells when a result is returned at once, \<open>after r\<close> reads
  the next operand when the result so far is \<open>r\<close>.
\<close>

fun chain_rest ::
  "nat \<Rightarrow> string \<Rightarrow> ('r \<Rightarrow> bool) \<Rightarrow> ('r \<Rightarrow> ('s, 'r) reader) \<Rightarrow> 'r \<Rightarrow> ('s, 'r) reader" where
  "chain_rest 0 w stop after r args s = None"
| "chain_rest (Suc n) w stop after r args s =
     (if test_word w args then do {
        (r1, s1, rest) \<leftarrow> after r (tl args) s;
        if stop r1 then Some (r1, s1, rest) else chain_rest n w stop after r1 rest s1
      }
      else Some (r, s, args))"

definition chain ::
  "nat \<Rightarrow> string \<Rightarrow> ('r \<Rightarrow> bool) \<Rightarrow> ('r \<Rightarrow> ('s, 'r) reader) \<Rightarrow> ('s, 'r) reader \<Rightarrow> ('s, 'r) reader" where
  "chain n w stop after first args s = do {
     (r, s1, rest) \<leftarrow> first args s;
     if stop r then Some (r, s1, rest) else chain_rest n w stop after r rest s1
   }"

subsection \<open>Larger bounds\<close>

definition refines :: "('s, 'r) reader \<Rightarrow> ('s, 'r) reader \<Rightarrow> bool" where
  "refines f g \<longleftrightarrow> (\<forall>args s x. f args s = Some x \<longrightarrow> g args s = Some x)"

lemma refinesD: "refines f g \<Longrightarrow> f args s = Some x \<Longrightarrow> g args s = Some x"
  unfolding refines_def by blast

lemma refines_bind:
  assumes "refines f g" and "\<And>r e rest. c (r, e, rest) = Some x \<Longrightarrow> d (r, e, rest) = Some x"
    and "Option.bind (f args s) c = Some x"
  shows "Option.bind (g args s) d = Some x"
  using assms(3) refinesD [OF assms(1)] assms(2) by (cases "f args s") auto

lemma chain_rest_mono:
  assumes fg: "\<And>r. refines (f r) (g r)"
  shows "n \<le> m \<Longrightarrow> chain_rest n w stop f r args s = Some x \<Longrightarrow> chain_rest m w stop g r args s = Some x"
proof (induction n arbitrary: m r args s)
  case (Suc n)
  then obtain k where m: "m = Suc k" "n \<le> k" by (cases m) auto
  show ?case
  proof (cases "test_word w args")
    case True
    then show ?thesis
      using Suc.prems(2) Suc.IH [OF m(2)]
      by (auto simp: m(1) split: if_splits elim!: refines_bind [OF fg, rotated 1])
  next
    case False
    then show ?thesis using Suc.prems(2) by (simp add: m(1))
  qed
qed simp

lemma chain_mono:
  "(\<And>r. refines (f r) (g r)) \<Longrightarrow> refines f0 g0 \<Longrightarrow> n \<le> m \<Longrightarrow> refines (chain n w stop f f0) (chain m w stop g g0)"
  unfolding refines_def [of "chain n w stop f f0"] chain_def
  by (auto split: if_splits dest: chain_rest_mono elim!: refines_bind [rotated 2])

subsection \<open>Readers that answer\<close>

text \<open>A reader that answers for at most \<open>k\<close> words, and leaves no more words than it was given.\<close>

definition answers :: "nat \<Rightarrow> ('s, 'r) reader \<Rightarrow> bool" where
  "answers k f \<longleftrightarrow> (\<forall>args s. length args \<le> k \<longrightarrow>
     (\<exists>r s1 rest. f args s = Some (r, s1, rest) \<and> length rest \<le> length args))"

lemma answersE:
  assumes "answers k f" and "length args \<le> k"
  obtains r s1 rest where "f args s = Some (r, s1, rest)" "length rest \<le> length args"
  using assms unfolding answers_def by blast

lemma answers_less: "answers k f \<Longrightarrow> j \<le> k \<Longrightarrow> answers j f"
  by (auto simp: answers_def)

lemma answers_map:
  assumes "answers k f" shows "answers k (\<lambda>args s. do { (r, s1, rest) \<leftarrow> f args s; Some (h r s1, s1, rest) })"
  unfolding answers_def
proof (intro allI impI)
  fix args s assume "length (args :: string list) \<le> k"
  with assms obtain r s1 rest where "f args s = Some (r, s1, rest)" "length rest \<le> length args" by (rule answersE)
  then show "\<exists>r s1 rest. do { (r, s1, rest) \<leftarrow> f args s; Some (h r s1, s1, rest) } = Some (r, s1, rest) \<and> length rest \<le> length args"
    by simp
qed

lemma chain_rest_answers: "(\<And>r. answers k (f r)) \<Longrightarrow> k < n \<Longrightarrow> answers k (chain_rest n w stop f r)"
proof (induction k arbitrary: n r)
  case 0
  then show ?case by (cases n) (auto simp: answers_def)
next
  case (Suc k)
  then obtain m where n: "n = Suc m" "k < m" by (cases n) auto
  have f: "answers k (f r)" for r using Suc.prems(1) by (rule answers_less) simp
  show ?case
    unfolding answers_def
  proof (intro allI impI)
    fix args :: "string list" and s
    assume l: "length args \<le> Suc k"
    show "\<exists>q s1 rest. chain_rest n w stop f r args s = Some (q, s1, rest) \<and> length rest \<le> length args"
    proof (cases "test_word w args")
      case True
      then have t: "length (tl args) \<le> k" "length (tl args) < length args" using test_word_shorter l by blast+
      obtain q s1 rest where q: "f r (tl args) s = Some (q, s1, rest)" "length rest \<le> length (tl args)"
        using f t(1) by (rule answersE)
      have "length rest \<le> k" using q(2) t(1) by simp
      then obtain u s2 rest2 where "chain_rest m w stop f q rest s1 = Some (u, s2, rest2)"
        "length rest2 \<le> length rest"
        using answersE [OF Suc.IH [OF f n(2)]] by blast
      then show ?thesis using True q t by (simp add: n(1))
    qed (simp add: n(1))
  qed
qed

lemma chain_answers:
  assumes "\<And>r. answers k (f r)" and "answers k f0" and "k < n"
  shows "answers k (chain n w stop f f0)"
  unfolding answers_def
proof (intro allI impI)
  fix args :: "string list" and s
  assume l: "length args \<le> k"
  obtain q s1 rest where q: "f0 args s = Some (q, s1, rest)" "length rest \<le> length args"
    using assms(2) l by (rule answersE)
  obtain u s2 rest2 where "chain_rest n w stop f q rest s1 = Some (u, s2, rest2)" "length rest2 \<le> length rest"
    by (rule answersE [OF chain_rest_answers [OF assms(1,3)] le_trans [OF q(2) l]])
  then show "\<exists>r s1 rest. chain n w stop f f0 args s = Some (r, s1, rest) \<and> length rest \<le> length args"
    using q by (auto simp: chain_def)
qed

end
