(* ===== verification/Condition_Syntax.thy ===== *)
theory Condition_Syntax
  imports Arksh_Prelude
begin

text \<open>
  Conditions as trees over primaries, and their words: negation binds closer than conjunction,
  conjunction closer than disjunction, both group to the left, and parentheses are printed where
  the tree needs them.  The words for \<open>and\<close> and \<open>or\<close> are arguments: \<open>test\<close> has \<open>-a\<close> and \<open>-o\<close>,
  \<open>[[\<close> has \<open>&&\<close> and \<open>||\<close>.
\<close>

datatype 'p cond =
    Prim 'p
  | Neg "'p cond"
  | Both "'p cond" "'p cond"
  | Either "'p cond" "'p cond"

definition parens :: "bool \<Rightarrow> string list \<Rightarrow> string list" where
  "parens b ws = (if b then [''(''] @ ws @ ['')''] else ws)"

fun show_cond :: "string \<Rightarrow> string \<Rightarrow> ('p \<Rightarrow> string list) \<Rightarrow> nat \<Rightarrow> 'p cond \<Rightarrow> string list" where
  "show_cond aw ow sh l (Prim p) = sh p"
| "show_cond aw ow sh l (Neg e) = ''!'' # show_cond aw ow sh 2 e"
| "show_cond aw ow sh l (Both a b) = parens (l > 1) (show_cond aw ow sh 1 a @ [aw] @ show_cond aw ow sh 2 b)"
| "show_cond aw ow sh l (Either a b) = parens (l > 0) (show_cond aw ow sh 0 a @ [ow] @ show_cond aw ow sh 1 b)"

text \<open>The value when every primary is evaluated, left to right, up to the first error.\<close>

fun cond_result :: "('p \<Rightarrow> 'e + bool) \<Rightarrow> 'p cond \<Rightarrow> 'e + bool" where
  "cond_result v (Prim p) = v p"
| "cond_result v (Neg e) = bind_err (cond_result v e) (\<lambda>x. Inr (\<not> x))"
| "cond_result v (Both a b) = bind_err (cond_result v a) (\<lambda>x. bind_err (cond_result v b) (\<lambda>y. Inr (x \<and> y)))"
| "cond_result v (Either a b) = bind_err (cond_result v a) (\<lambda>x. bind_err (cond_result v b) (\<lambda>y. Inr (x \<or> y)))"

fun primaries :: "'p cond \<Rightarrow> 'p list" where
  "primaries (Prim p) = [p]"
| "primaries (Neg e) = primaries e"
| "primaries (Both a b) = primaries a @ primaries b"
| "primaries (Either a b) = primaries a @ primaries b"

text \<open>
  A value with the effects of the primaries on a state, where the second operand is skipped when the
  first decides; \<open>None\<close> when a primary that is evaluated fails.
\<close>

fun lazy_cond :: "('s \<Rightarrow> 'p \<Rightarrow> ('s \<times> bool) option) \<Rightarrow> 's \<Rightarrow> 'p cond \<Rightarrow> ('s \<times> bool) option" where
  "lazy_cond v s (Prim p) = v s p"
| "lazy_cond v s (Neg e) = map_option (\<lambda>(s1, x). (s1, \<not> x)) (lazy_cond v s e)"
| "lazy_cond v s (Both a b) =
     (case lazy_cond v s a of
        None \<Rightarrow> None | Some (s1, x) \<Rightarrow> if x then lazy_cond v s1 b else Some (s1, False))"
| "lazy_cond v s (Either a b) =
     (case lazy_cond v s a of
        None \<Rightarrow> None | Some (s1, x) \<Rightarrow> if x then Some (s1, True) else lazy_cond v s1 b)"

end
