(* ===== verification/Test_Builtin.thy ===== *)
theory Test_Builtin
  imports Word_Expansion Sorted_Index Descent
begin

text \<open>
  The built-in commands \<open>test\<close> and \<open>[\<close> of \<^verbatim>\<open>src/shell.c\<close>: primaries over strings, integers and files, and
  the recursive descent over the argument list with \<open>!\<close>, parentheses, \<open>-a\<close> and \<open>-o\<close>.  The record
  \<open>test_env\<close> holds the answers of the system calls.  The first argument of the evaluators bounds
  the nesting and the length of the chains; the number of argument words and one more is enough
  (\<open>test_eval_total\<close>), so the commands always answer.
\<close>

datatype file_kind = Regular | Directory | Symlink | Block_device | Char_device | Fifo | Socket_file

record file_status =
  fs_kind :: file_kind
  fs_size :: int
  fs_setgid :: bool
  fs_setuid :: bool
  fs_sticky :: bool
  fs_uid :: nat
  fs_gid :: nat
  fs_mtime :: int
  fs_atime :: int
  fs_dev :: nat
  fs_ino :: nat

datatype access_mode = May_read | May_write | May_execute

record test_env =
  te_stat :: "string \<Rightarrow> file_status option"
  te_lstat :: "string \<Rightarrow> file_status option"
  te_access :: "string \<Rightarrow> access_mode \<Rightarrow> bool"
  te_euid :: nat
  te_egid :: nat
  te_isatty :: "int \<Rightarrow> bool"

subsection \<open>Primaries\<close>

definition err_size :: nat where
  "err_size = 256"

definition parse_test_integer :: "string \<Rightarrow> string + int" where
  "parse_test_integer t =
     (case strtol_number t of
        Some (n, []) \<Rightarrow> if strtol_range n then Inr n else Inl (copy_string err_size (''test: integer expression expected: '' @ t))
      | _ \<Rightarrow> Inl (copy_string err_size (''test: integer expression expected: '' @ t)))"

definition stat_is :: "file_status option \<Rightarrow> (file_status \<Rightarrow> bool) \<Rightarrow> bool" where
  "stat_is st P = (case st of None \<Rightarrow> False | Some s \<Rightarrow> P s)"

text \<open>The tests with one operand, \<open>None\<close> for an unknown operator.\<close>

definition unary_test :: "test_env \<Rightarrow> string \<Rightarrow> string \<Rightarrow> bool option" where
  "unary_test te opr arg =
     (let st = te_stat te arg in
      if opr = ''-e'' then Some (st \<noteq> None)
      else if opr = ''-f'' then Some (stat_is st (\<lambda>s. fs_kind s = Regular))
      else if opr = ''-d'' then Some (stat_is st (\<lambda>s. fs_kind s = Directory))
      else if opr = ''-L'' \<or> opr = ''-h'' then Some (stat_is (te_lstat te arg) (\<lambda>s. fs_kind s = Symlink))
      else if opr = ''-r'' then Some (te_access te arg May_read)
      else if opr = ''-w'' then Some (te_access te arg May_write)
      else if opr = ''-x'' then Some (te_access te arg May_execute)
      else if opr = ''-s'' then Some (stat_is st (\<lambda>s. fs_size s > 0))
      else if opr = ''-b'' then Some (stat_is st (\<lambda>s. fs_kind s = Block_device))
      else if opr = ''-c'' then Some (stat_is st (\<lambda>s. fs_kind s = Char_device))
      else if opr = ''-p'' then Some (stat_is st (\<lambda>s. fs_kind s = Fifo))
      else if opr = ''-S'' then Some (stat_is st (\<lambda>s. fs_kind s = Socket_file))
      else if opr = ''-g'' then Some (stat_is st fs_setgid)
      else if opr = ''-u'' then Some (stat_is st fs_setuid)
      else if opr = ''-k'' then Some (stat_is st fs_sticky)
      else if opr = ''-O'' then Some (stat_is st (\<lambda>s. fs_uid s = te_euid te))
      else if opr = ''-G'' then Some (stat_is st (\<lambda>s. fs_gid s = te_egid te))
      else if opr = ''-N'' then Some (stat_is st (\<lambda>s. fs_mtime s > fs_atime s))
      else if opr = ''-t'' then Some (te_isatty te (c_atoi arg))
      else if opr = ''-n'' then Some (arg \<noteq> [])
      else if opr = ''-z'' then Some (arg = [])
      else None)"

definition integer_ops :: "string list" where
  "integer_ops = [''-eq'', ''-ne'', ''-lt'', ''-le'', ''-gt'', ''-ge'']"

definition integer_test :: "string \<Rightarrow> int \<Rightarrow> int \<Rightarrow> bool" where
  "integer_test opr l r =
     (if opr = ''-eq'' then l = r
      else if opr = ''-ne'' then l \<noteq> r
      else if opr = ''-lt'' then l < r
      else if opr = ''-le'' then l \<le> r
      else if opr = ''-gt'' then l > r
      else l \<ge> r)"

text \<open>The tests with two operands; an unknown operator is false.\<close>

definition binary_test :: "test_env \<Rightarrow> string \<Rightarrow> string \<Rightarrow> string \<Rightarrow> string + bool" where
  "binary_test te lhs opr rhs =
     (if opr = ''='' \<or> opr = ''=='' then Inr (lhs = rhs)
      else if opr = ''!='' then Inr (lhs \<noteq> rhs)
      else if opr = ''<'' then Inr (c_strcmp lhs rhs < 0)
      else if opr = ''>'' then Inr (c_strcmp lhs rhs > 0)
      else if opr \<in> set integer_ops then
        bind_err (parse_test_integer lhs) (\<lambda>l. bind_err (parse_test_integer rhs) (\<lambda>r. Inr (integer_test opr l r)))
      else
        (case (te_stat te lhs, te_stat te rhs) of
           (Some s1, Some s2) \<Rightarrow>
             Inr (if opr = ''-nt'' then fs_mtime s1 > fs_mtime s2
                  else if opr = ''-ot'' then fs_mtime s1 < fs_mtime s2
                  else if opr = ''-ef'' then fs_dev s1 = fs_dev s2 \<and> fs_ino s1 = fs_ino s2
                  else False)
         | _ \<Rightarrow> Inr False))"

definition truth_status :: "bool \<Rightarrow> int" where
  "truth_status b = (if b then 0 else 1)"

text \<open>The status and the text in the error buffer; \<open>eval\<close> is the evaluator it calls for a negation.\<close>

definition test_primary ::
  "test_env \<Rightarrow> (string list \<Rightarrow> string \<Rightarrow> (int \<times> string \<times> string list) option) \<Rightarrow> string list \<Rightarrow> string \<Rightarrow>
   (int \<times> string) option" where
  "test_primary te eval args err =
     (case args of
        [] \<Rightarrow> Some (2, ''test: missing expression'')
      | [a] \<Rightarrow> Some (truth_status (a \<noteq> []), err)
      | a # b # rest \<Rightarrow>
          if a = ''!'' then do {
            (r, err1, _) \<leftarrow> eval (b # rest) err;
            Some (truth_status (r \<noteq> 0), err1)
          }
          else
            (case rest of
               [] \<Rightarrow>
                 (case unary_test te a b of Some t \<Rightarrow> Some (truth_status t, err) | None \<Rightarrow> Some (1, err))
             | [c] \<Rightarrow>
                 (case binary_test te a b c of Inl m \<Rightarrow> Some (2, m) | Inr t \<Rightarrow> Some (truth_status t, err))
             | _ \<Rightarrow> Some (1, err)))"

subsection \<open>The evaluators\<close>

definition lookahead_ops :: "string list" where
  "lookahead_ops = integer_ops @ [''='', ''!='', ''<'', ''>'', ''-nt'', ''-ot'', ''-ef'']"

text \<open>The words of a primary and the rest of the arguments.\<close>

fun collect_primary :: "string list \<Rightarrow> string list \<Rightarrow> string list \<times> string list" where
  "collect_primary prim [] = (prim, [])"
| "collect_primary prim (a # args) =
     (if a = ''-a'' \<or> a = ''-o'' \<or> a = '')'' \<or> length prim \<ge> 15 then (prim, a # args)
      else if length prim = 1 \<and> length args \<ge> 2 \<and> hd args \<in> set lookahead_ops then
        (prim @ take 3 (a # args), drop 3 (a # args))
      else collect_primary (prim @ [a]) args)"

text \<open>An evaluator has the text in the error buffer as its state and the status as its result.\<close>

type_synonym evaluator = "(string, int) reader"

definition is_error :: "int \<Rightarrow> bool" where
  "is_error r \<longleftrightarrow> r > 1"

text \<open>The operand after the value \<open>r\<close>: an error is returned, other values are combined.\<close>

definition combined :: "(bool \<Rightarrow> bool \<Rightarrow> bool) \<Rightarrow> evaluator \<Rightarrow> int \<Rightarrow> evaluator" where
  "combined combine operand r args err = do {
     (right, err1, rest) \<leftarrow> operand args err;
     Some (if is_error right then right else truth_status (combine (r = 0) (right = 0)), err1, rest)
   }"

definition test_eval_and :: "nat \<Rightarrow> evaluator \<Rightarrow> evaluator" where
  "test_eval_and n eval_not = chain n ''-a'' is_error (combined (\<and>) eval_not) eval_not"

definition test_eval_or :: "nat \<Rightarrow> evaluator \<Rightarrow> evaluator" where
  "test_eval_or n eval_not =
     chain n ''-o'' is_error (combined (\<or>) (test_eval_and n eval_not)) (test_eval_and n eval_not)"

text \<open>One level of \<open>test_eval_not\<close>, with the evaluator for the levels below.\<close>

definition test_not_step :: "nat \<Rightarrow> test_env \<Rightarrow> evaluator \<Rightarrow> evaluator" where
  "test_not_step n te eval_not args err =
     (if test_word ''!'' args then do {
        (r, err1, rest) \<leftarrow> eval_not (tl args) err;
        if r > 1 then Some (r, err1, rest) else Some (truth_status (r \<noteq> 0), err1, rest)
      }
      else if test_word ''('' args then do {
        (r, err1, rest) \<leftarrow> test_eval_or n eval_not (tl args) err;
        if r > 1 then Some (r, err1, rest)
        else if \<not> test_word '')'' rest then Some (2, ''test: missing closing )'', rest)
        else Some (r, err1, tl rest)
      }
      else
        (case collect_primary [] args of
           (prim, rest) \<Rightarrow>
             if prim = [] then Some (2, ''test: missing expression'', rest)
             else do {
               (r, err1) \<leftarrow> test_primary te (test_eval_or n eval_not) prim err;
               Some (r, err1, rest)
             }))"

primrec test_eval_not :: "nat \<Rightarrow> test_env \<Rightarrow> evaluator" where
  "test_eval_not 0 te args err = None"
| "test_eval_not (Suc n) te args err = test_not_step n te (test_eval_not n te) args err"

definition test_eval :: "test_env \<Rightarrow> string list \<Rightarrow> string \<Rightarrow> (int \<times> string \<times> string list) option" where
  "test_eval te args err = test_eval_or (length args + 1) (test_eval_not (length args + 1) te) args err"

text \<open>The output and the status of the command, with its name in front of the arguments.\<close>

definition command_test :: "test_env \<Rightarrow> string list \<Rightarrow> (string \<times> int) option" where
  "command_test te argv =
     (if tl argv = [] then Some ([], 1)
      else do {
        (r, err, rest) \<leftarrow> test_eval te (tl argv) [];
        Some (if r \<le> 1 \<and> rest \<noteq> [] then (if err = [] then ''test: too many arguments'' else err, 2)
              else (err, r))
      })"

definition command_lbracket :: "test_env \<Rightarrow> string list \<Rightarrow> (string \<times> int) option" where
  "command_lbracket te argv =
     (if length argv < 2 \<or> last argv \<noteq> '']'' then Some (''[: missing closing ]'', 2)
      else command_test te (butlast argv))"

end
