(* ===== verification/Test_Laws.thy ===== *)
theory Test_Laws
  imports Test_Builtin Condition_Syntax
begin

text \<open>
  The evaluators of \<open>test\<close> always answer, and give a printed condition the value of its tree.
\<close>

subsection \<open>Bounds\<close>

lemma truth_status_simps [simp]: "truth_status b \<le> 1" "truth_status b = 0 \<longleftrightarrow> b" "\<not> 1 < truth_status b"
  by (auto simp: truth_status_def)

lemma combined_mono: "refines f g \<Longrightarrow> refines (combined cb f r) (combined cb g r)"
  unfolding refines_def [of "combined cb f r"] combined_def by (auto elim!: refines_bind [rotated 2])

lemma test_eval_and_mono: "refines f g \<Longrightarrow> n \<le> m \<Longrightarrow> refines (test_eval_and n f) (test_eval_and m g)"
  unfolding test_eval_and_def by (intro chain_mono combined_mono)

lemma test_eval_or_mono: "refines f g \<Longrightarrow> n \<le> m \<Longrightarrow> refines (test_eval_or n f) (test_eval_or m g)"
  unfolding test_eval_or_def by (intro chain_mono combined_mono test_eval_and_mono)

lemma test_primary_mono:
  "refines f g \<Longrightarrow> test_primary te f prim err = Some x \<Longrightarrow> test_primary te g prim err = Some x"
  by (auto simp: test_primary_def bind_eq_Some_conv split: list.splits if_splits dest: refinesD)

lemma test_not_step_mono:
  assumes fg: "refines f g" and nm: "n \<le> m"
  shows "refines (test_not_step n te f) (test_not_step m te g)"
  unfolding refines_def
proof (intro allI impI)
  fix args err x
  note or = test_eval_or_mono [OF fg nm]
  assume *: "test_not_step n te f args err = Some x"
  show "test_not_step m te g args err = Some x"
  proof (cases "test_word ''!'' args")
    case True
    then show ?thesis using * refinesD [OF fg] by (fastforce simp: test_not_step_def bind_eq_Some_conv)
  next
    case no: False
    show ?thesis
    proof (cases "test_word ''('' args")
      case True
      then show ?thesis using * no refinesD [OF or] by (fastforce simp: test_not_step_def bind_eq_Some_conv)
    next
      case False
      then show ?thesis
        using * no test_primary_mono [OF or, of te] by (fastforce simp: test_not_step_def bind_eq_Some_conv split: if_splits prod.splits)
    qed
  qed
qed

lemma test_eval_not_mono: "n \<le> m \<Longrightarrow> refines (test_eval_not n te) (test_eval_not m te)"
proof (induction n arbitrary: m)
  case (Suc n)
  then obtain k where m: "m = Suc k" "n \<le> k" by (cases m) auto
  have "refines (test_not_step n te (test_eval_not n te)) (test_not_step k te (test_eval_not k te))"
    using Suc.IH [OF m(2)] m(2) by (rule test_not_step_mono)
  then show ?case unfolding m refines_def test_eval_not.simps .
qed (simp add: refines_def)

subsection \<open>Totality\<close>

lemma combined_answers: "answers k f \<Longrightarrow> answers k (combined cb f r)"
  using answers_map [of k f "\<lambda>right _. if is_error right then right else truth_status (cb (r = 0) (right = 0))"]
  by (simp add: combined_def [abs_def])

lemma test_eval_or_answers: "answers k f \<Longrightarrow> k < n \<Longrightarrow> answers k (test_eval_or n f)"
  unfolding test_eval_or_def test_eval_and_def by (intro chain_answers combined_answers)

lemma collect_primary_length:
  "collect_primary prim args = (p, rest) \<Longrightarrow> length rest \<le> length args \<and> length p = length prim + length args - length rest"
proof (induction args arbitrary: prim)
  case (Cons a args)
  define stop where "stop \<longleftrightarrow> a = ''-a'' \<or> a = ''-o'' \<or> a = '')'' \<or> length prim \<ge> 15"
  define look where "look \<longleftrightarrow> length prim = 1 \<and> length args \<ge> 2 \<and> hd args \<in> set lookahead_ops"
  have eq: "collect_primary prim (a # args) =
    (if stop then (prim, a # args) else if look then (prim @ take 3 (a # args), drop 3 (a # args))
     else collect_primary (prim @ [a]) args)"
    by (simp only: collect_primary.simps stop_def look_def)
  have "length args \<ge> 2" if look using that by (simp add: look_def)
  then show ?case using Cons.prems Cons.IH [of "prim @ [a]"] unfolding eq by (auto split: if_splits)
qed simp

lemma test_primary_answers:
  assumes "answers k f" and "length prim \<le> Suc k"
  shows "\<exists>r err1. test_primary te f prim err = Some (r, err1)"
proof -
  have "\<exists>y. f (tl prim) err = Some y" using answersE [OF assms(1), of "tl prim" err] assms(2) by fastforce
  then show ?thesis by (fastforce simp: test_primary_def split: list.splits option.splits sum.splits)
qed

lemma test_not_step_answers:
  assumes f: "answers k f" and "k < n"
  shows "answers (Suc k) (test_not_step n te f)"
  unfolding answers_def
proof (intro allI impI)
  fix args :: "string list" and err
  assume l: "length args \<le> Suc k"
  note or = test_eval_or_answers [OF assms]
  consider "test_word ''!'' args" | "\<not> test_word ''!'' args" "test_word ''('' args"
    | "\<not> test_word ''!'' args" "\<not> test_word ''('' args" by blast
  then show "\<exists>r err1 rest. test_not_step n te f args err = Some (r, err1, rest) \<and> length rest \<le> length args"
  proof cases
    case 1
    then have "length (tl args) \<le> k" using l by (auto simp: test_word_def)
    with f obtain s err1 rest where "f (tl args) err = Some (s, err1, rest)" "length rest \<le> length (tl args)"
      by (rule answersE)
    then show ?thesis using 1 by (simp add: test_not_step_def)
  next
    case 2
    then have "length (tl args) \<le> k" using l by (auto simp: test_word_def)
    with or obtain s err1 rest where "test_eval_or n f (tl args) err = Some (s, err1, rest)" "length rest \<le> length (tl args)"
      by (rule answersE)
    then show ?thesis using 2 by (auto simp: test_not_step_def)
  next
    case 3
    obtain p rest where c: "collect_primary [] args = (p, rest)" by fastforce
    have b: "length rest \<le> length args" "length p \<le> Suc k" using collect_primary_length [OF c] l by auto
    obtain r err1 where "test_primary te (test_eval_or n f) p err = Some (r, err1)"
      using test_primary_answers [OF or b(2)] by blast
    then show ?thesis using 3 b(1) by (simp add: test_not_step_def c)
  qed
qed

lemma test_eval_not_answers: "answers k (test_eval_not (Suc k) te)"
proof (induction k)
  case 0
  show ?case
    by (auto simp: answers_def test_not_step_def test_word_def)
next
  case (Suc k)
  from test_not_step_answers [OF Suc, of "Suc k"] show ?case
    unfolding answers_def test_eval_not.simps(2) [of "Suc k"] by simp
qed

lemma test_eval_total: "\<exists>r err1 rest. test_eval te args err = Some (r, err1, rest)"
proof -
  have "answers (length args) (test_eval_or (length args + 1) (test_eval_not (length args + 1) te))"
    using test_eval_or_answers [OF test_eval_not_answers] by simp
  then show ?thesis unfolding test_eval_def answers_def by blast
qed


subsection \<open>Conditions\<close>

text \<open>Whether an evaluator of some bound answers.\<close>

definition not_gives :: "test_env \<Rightarrow> string list \<Rightarrow> string \<Rightarrow> int \<times> string \<times> string list \<Rightarrow> bool" where
  "not_gives te args err x \<longleftrightarrow> (\<exists>n. test_eval_not n te args err = Some x)"

definition and_gives :: "test_env \<Rightarrow> string list \<Rightarrow> string \<Rightarrow> int \<times> string \<times> string list \<Rightarrow> bool" where
  "and_gives te args err x \<longleftrightarrow> (\<exists>n. test_eval_and n (test_eval_not n te) args err = Some x)"

definition or_gives :: "test_env \<Rightarrow> string list \<Rightarrow> string \<Rightarrow> int \<times> string \<times> string list \<Rightarrow> bool" where
  "or_gives te args err x \<longleftrightarrow> (\<exists>n. test_eval_or n (test_eval_not n te) args err = Some x)"

definition and_rest_gives :: "test_env \<Rightarrow> int \<Rightarrow> string list \<Rightarrow> string \<Rightarrow> int \<times> string \<times> string list \<Rightarrow> bool" where
  "and_rest_gives te r args err x \<longleftrightarrow> (\<exists>n. chain_rest n ''-a'' is_error (combined (\<and>) (test_eval_not n te)) r args err = Some x)"

definition or_rest_gives :: "test_env \<Rightarrow> int \<Rightarrow> string list \<Rightarrow> string \<Rightarrow> int \<times> string \<times> string list \<Rightarrow> bool" where
  "or_rest_gives te r args err x \<longleftrightarrow>
     (\<exists>n. chain_rest n ''-o'' is_error (combined (\<or>) (test_eval_and n (test_eval_not n te))) r args err = Some x)"

lemma not_at: "test_eval_not n te args err = Some x \<Longrightarrow> n \<le> m \<Longrightarrow> test_eval_not m te args err = Some x"
  by (rule refinesD [OF test_eval_not_mono])

lemma and_level: "n \<le> m \<Longrightarrow> refines (test_eval_and n (test_eval_not n te)) (test_eval_and m (test_eval_not m te))"
  by (intro test_eval_and_mono test_eval_not_mono)

lemma or_level: "n \<le> m \<Longrightarrow> refines (test_eval_or n (test_eval_not n te)) (test_eval_or m (test_eval_not m te))"
  by (intro test_eval_or_mono test_eval_not_mono)

lemma and_rest_at:
  "chain_rest n ''-a'' is_error (combined (\<and>) (test_eval_not n te)) r args err = Some x \<Longrightarrow> n \<le> k \<Longrightarrow> n \<le> m \<Longrightarrow>
   chain_rest k ''-a'' is_error (combined (\<and>) (test_eval_not m te)) r args err = Some x"
  by (rule chain_rest_mono [OF combined_mono [OF test_eval_not_mono]])

lemma or_rest_at:
  "chain_rest n ''-o'' is_error (combined (\<or>) (test_eval_and n (test_eval_not n te))) r args err = Some x \<Longrightarrow>
   n \<le> k \<Longrightarrow> n \<le> m \<Longrightarrow>
   chain_rest k ''-o'' is_error (combined (\<or>) (test_eval_and m (test_eval_not m te))) r args err = Some x"
  by (rule chain_rest_mono [OF combined_mono [OF and_level]])

lemma and_givesI:
  assumes "not_gives te args err (r, err1, rest)" and "r \<le> 1" and "and_rest_gives te r rest err1 x"
  shows "and_gives te args err x"
proof -
  obtain n m where n: "test_eval_not n te args err = Some (r, err1, rest)"
    and m: "chain_rest m ''-a'' is_error (combined (\<and>) (test_eval_not m te)) r rest err1 = Some x"
    using assms by (auto simp: not_gives_def and_rest_gives_def)
  let ?k = "max n m"
  have "test_eval_not ?k te args err = Some (r, err1, rest)" using n by (rule not_at) simp
  moreover have "chain_rest ?k ''-a'' is_error (combined (\<and>) (test_eval_not ?k te)) r rest err1 = Some x"
    by (rule and_rest_at [OF m]) simp_all
  ultimately have "test_eval_and ?k (test_eval_not ?k te) args err = Some x"
    using assms(2) by (simp add: test_eval_and_def chain_def is_error_def)
  then show ?thesis unfolding and_gives_def by blast
qed

lemma or_givesI:
  assumes "and_gives te args err (r, err1, rest)" and "r \<le> 1" and "or_rest_gives te r rest err1 x"
  shows "or_gives te args err x"
proof -
  obtain n m where n: "test_eval_and n (test_eval_not n te) args err = Some (r, err1, rest)"
    and m: "chain_rest m ''-o'' is_error (combined (\<or>) (test_eval_and m (test_eval_not m te))) r rest err1 = Some x"
    using assms by (auto simp: and_gives_def or_rest_gives_def)
  let ?k = "max n m"
  have "test_eval_and ?k (test_eval_not ?k te) args err = Some (r, err1, rest)"
    using refinesD [OF and_level n] by simp
  moreover have "chain_rest ?k ''-o'' is_error (combined (\<or>) (test_eval_and ?k (test_eval_not ?k te))) r rest err1 = Some x"
    by (rule or_rest_at [OF m]) simp_all
  ultimately have "test_eval_or ?k (test_eval_not ?k te) args err = Some x"
    using assms(2) by (simp add: test_eval_or_def chain_def is_error_def)
  then show ?thesis unfolding or_gives_def by blast
qed

lemma and_rest_givesI:
  assumes "not_gives te args err (q, err1, rest)" and "q \<le> 1"
    and "and_rest_gives te (truth_status (r = 0 \<and> q = 0)) rest err1 x"
  shows "and_rest_gives te r (''-a'' # args) err x"
proof -
  obtain n m where n: "test_eval_not n te args err = Some (q, err1, rest)"
    and m: "chain_rest m ''-a'' is_error (combined (\<and>) (test_eval_not m te)) (truth_status (r = 0 \<and> q = 0)) rest err1 = Some x"
    using assms by (auto simp: not_gives_def and_rest_gives_def)
  let ?k = "max n m"
  have "test_eval_not (Suc ?k) te args err = Some (q, err1, rest)" using n by (rule not_at) simp
  moreover have "chain_rest ?k ''-a'' is_error (combined (\<and>) (test_eval_not (Suc ?k) te)) (truth_status (r = 0 \<and> q = 0)) rest err1 = Some x"
    by (rule and_rest_at [OF m]) simp_all
  ultimately have "chain_rest (Suc ?k) ''-a'' is_error (combined (\<and>) (test_eval_not (Suc ?k) te)) r (''-a'' # args) err = Some x"
    using assms(2) by (simp add: combined_def is_error_def del: test_eval_not.simps)
  then show ?thesis unfolding and_rest_gives_def by blast
qed

lemma or_rest_givesI:
  assumes "and_gives te args err (q, err1, rest)" and "q \<le> 1"
    and "or_rest_gives te (truth_status (r = 0 \<or> q = 0)) rest err1 x"
  shows "or_rest_gives te r (''-o'' # args) err x"
proof -
  obtain n m where n: "test_eval_and n (test_eval_not n te) args err = Some (q, err1, rest)"
    and m: "chain_rest m ''-o'' is_error (combined (\<or>) (test_eval_and m (test_eval_not m te))) (truth_status (r = 0 \<or> q = 0)) rest err1 = Some x"
    using assms by (auto simp: and_gives_def or_rest_gives_def)
  let ?k = "max n m"
  let ?and = "test_eval_and (Suc ?k) (test_eval_not (Suc ?k) te)"
  have "?and args err = Some (q, err1, rest)" using refinesD [OF and_level n, of "Suc ?k"] by simp
  moreover have "chain_rest ?k ''-o'' is_error (combined (\<or>) ?and) (truth_status (r = 0 \<or> q = 0)) rest err1 = Some x"
    by (rule or_rest_at [OF m]) simp_all
  ultimately have "chain_rest (Suc ?k) ''-o'' is_error (combined (\<or>) ?and) r (''-o'' # args) err = Some x"
    using assms(2) by (simp add: combined_def is_error_def del: test_eval_not.simps)
  then show ?thesis unfolding or_rest_gives_def by blast
qed

lemma rest_gives_end:
  "\<not> test_word ''-a'' args \<Longrightarrow> and_rest_gives te r args err (r, err, args)"
  "\<not> test_word ''-o'' args \<Longrightarrow> or_rest_gives te r args err (r, err, args)"
  unfolding and_rest_gives_def or_rest_gives_def by (rule exI [of _ "Suc 0"], simp)+


lemma errors_give:
  "not_gives te args err (2, e, rest) \<Longrightarrow> and_gives te args err (2, e, rest)"
  "not_gives te args err (2, e, rest) \<Longrightarrow> and_rest_gives te r (''-a'' # args) err (2, e, rest)"
  "and_gives te args err (2, e, rest) \<Longrightarrow> or_gives te args err (2, e, rest)"
  "and_gives te args err (2, e, rest) \<Longrightarrow> or_rest_gives te r (''-o'' # args) err (2, e, rest)"
proof -
  assume "not_gives te args err (2, e, rest)"
  then obtain n where n: "test_eval_not n te args err = Some (2, e, rest)" by (auto simp: not_gives_def)
  then have n1: "test_eval_not (Suc n) te args err = Some (2, e, rest)" by (rule not_at) simp
  show "and_gives te args err (2, e, rest)"
    using n unfolding and_gives_def by (intro exI [of _ n]) (simp add: test_eval_and_def chain_def is_error_def)
  show "and_rest_gives te r (''-a'' # args) err (2, e, rest)"
    using n1 unfolding and_rest_gives_def by (intro exI [of _ "Suc n"]) (simp add: combined_def is_error_def del: test_eval_not.simps)
next
  assume "and_gives te args err (2, e, rest)"
  then obtain n where n: "test_eval_and n (test_eval_not n te) args err = Some (2, e, rest)" by (auto simp: and_gives_def)
  then have n1: "test_eval_and (Suc n) (test_eval_not (Suc n) te) args err = Some (2, e, rest)"
    by (rule refinesD [OF and_level, rotated]) simp
  show "or_gives te args err (2, e, rest)"
    using n unfolding or_gives_def by (intro exI [of _ n]) (simp add: test_eval_or_def chain_def is_error_def)
  show "or_rest_gives te r (''-o'' # args) err (2, e, rest)"
    using n1 unfolding or_rest_gives_def by (intro exI [of _ "Suc n"]) (simp add: combined_def is_error_def del: test_eval_not.simps)
qed

text \<open>An evaluator gives a result for words in front of the rest, or hands it to the loop after it.\<close>

definition yields ::
  "(string list \<Rightarrow> string \<Rightarrow> int \<times> string \<times> string list \<Rightarrow> bool) \<Rightarrow> string + bool \<Rightarrow> string list \<Rightarrow> string list \<Rightarrow> bool" where
  "yields G res ws rest \<longleftrightarrow>
     (\<forall>err. case res of Inr b \<Rightarrow> G (ws @ rest) err (truth_status b, err, rest)
                     | Inl m \<Rightarrow> \<exists>rest'. G (ws @ rest) err (2, m, rest'))"

definition hands_over ::
  "(string list \<Rightarrow> string \<Rightarrow> int \<times> string \<times> string list \<Rightarrow> bool) \<Rightarrow>
   (int \<Rightarrow> string list \<Rightarrow> string \<Rightarrow> int \<times> string \<times> string list \<Rightarrow> bool) \<Rightarrow>
   string + bool \<Rightarrow> string list \<Rightarrow> string list \<Rightarrow> bool" where
  "hands_over G R res ws rest \<longleftrightarrow>
     (\<forall>err. case res of Inr b \<Rightarrow> \<forall>x. R (truth_status b) rest err x \<longrightarrow> G (ws @ rest) err x
                     | Inl m \<Rightarrow> \<exists>rest'. G (ws @ rest) err (2, m, rest'))"

lemma not_into_and:
  "yields (not_gives te) res ws rest \<Longrightarrow> hands_over (and_gives te) (and_rest_gives te) res ws rest"
  unfolding yields_def hands_over_def
  by (cases res) (fastforce intro: errors_give, fastforce intro: and_givesI)

lemma and_into_or:
  "yields (and_gives te) res ws rest \<Longrightarrow> hands_over (or_gives te) (or_rest_gives te) res ws rest"
  unfolding yields_def hands_over_def
  by (cases res) (fastforce intro: errors_give, fastforce intro: or_givesI)

lemma chain_ends:
  "hands_over (and_gives te) (and_rest_gives te) res ws rest \<Longrightarrow> \<not> test_word ''-a'' rest \<Longrightarrow> yields (and_gives te) res ws rest"
  "hands_over (or_gives te) (or_rest_gives te) res ws rest \<Longrightarrow> \<not> test_word ''-o'' rest \<Longrightarrow> yields (or_gives te) res ws rest"
  unfolding yields_def hands_over_def by (cases res; simp add: rest_gives_end)+

lemma both_hands_over:
  assumes "hands_over (and_gives te) (and_rest_gives te) ra wa (''-a'' # wb @ rest)" and "yields (not_gives te) rb wb rest"
  shows "hands_over (and_gives te) (and_rest_gives te) (bind_err ra (\<lambda>x. bind_err rb (\<lambda>y. Inr (x \<and> y))))
    (wa @ [''-a''] @ wb) rest"
proof (cases ra)
  case (Inl m)
  then show ?thesis using assms(1) by (simp add: hands_over_def)
next
  case a: (Inr x)
  have go: "and_gives te (wa @ ''-a'' # wb @ rest) err y" if "and_rest_gives te (truth_status x) (''-a'' # wb @ rest) err y" for err y
    using assms(1) that by (cases y) (simp add: hands_over_def a)
  show ?thesis
  proof (cases rb)
    case (Inl m)
    then have "\<exists>rest'. not_gives te (wb @ rest) err (2, m, rest')" for err using assms(2) by (simp add: yields_def)
    then have "\<exists>rest'. and_gives te (wa @ ''-a'' # wb @ rest) err (2, m, rest')" for err
      using go errors_give(2) by blast
    then show ?thesis by (simp add: a Inl hands_over_def)
  next
    case (Inr y)
    then have "not_gives te (wb @ rest) err (truth_status y, err, rest)" for err using assms(2) by (simp add: yields_def)
    from and_rest_givesI [OF this, of "truth_status x"] go show ?thesis by (simp add: a Inr hands_over_def)
  qed
qed

lemma either_hands_over:
  assumes "hands_over (or_gives te) (or_rest_gives te) ra wa (''-o'' # wb @ rest)" and "yields (and_gives te) rb wb rest"
  shows "hands_over (or_gives te) (or_rest_gives te) (bind_err ra (\<lambda>x. bind_err rb (\<lambda>y. Inr (x \<or> y))))
    (wa @ [''-o''] @ wb) rest"
proof (cases ra)
  case (Inl m)
  then show ?thesis using assms(1) by (simp add: hands_over_def)
next
  case a: (Inr x)
  have go: "or_gives te (wa @ ''-o'' # wb @ rest) err y" if "or_rest_gives te (truth_status x) (''-o'' # wb @ rest) err y" for err y
    using assms(1) that by (cases y) (simp add: hands_over_def a)
  show ?thesis
  proof (cases rb)
    case (Inl m)
    then have "\<exists>rest'. and_gives te (wb @ rest) err (2, m, rest')" for err using assms(2) by (simp add: yields_def)
    then have "\<exists>rest'. or_gives te (wa @ ''-o'' # wb @ rest) err (2, m, rest')" for err
      using go errors_give(4) by blast
    then show ?thesis by (simp add: a Inl hands_over_def)
  next
    case (Inr y)
    then have "and_gives te (wb @ rest) err (truth_status y, err, rest)" for err using assms(2) by (simp add: yields_def)
    from or_rest_givesI [OF this, of "truth_status x"] go show ?thesis by (simp add: a Inr hands_over_def)
  qed
qed

lemma neg_yields:
  assumes "yields (not_gives te) res ws rest"
  shows "yields (not_gives te) (bind_err res (\<lambda>x. Inr (\<not> x))) (''!'' # ws) rest"
proof -
  have step: "not_gives te (''!'' # args) err (if r > 1 then r else truth_status (r \<noteq> 0), e, t)"
    if g: "not_gives te args err (r, e, t)" for args err r e t
  proof -
    obtain n where "test_eval_not n te args err = Some (r, e, t)" using g by (auto simp: not_gives_def)
    then have "test_eval_not (Suc n) te (''!'' # args) err = Some (if r > 1 then r else truth_status (r \<noteq> 0), e, t)"
      by (simp add: test_not_step_def test_word_def)
    then show ?thesis unfolding not_gives_def by blast
  qed
  show ?thesis
  proof (cases res)
    case (Inl m)
    then show ?thesis using assms step [of _ _ 2] by (fastforce simp: yields_def)
  next
    case (Inr b)
    then show ?thesis using assms step [of "ws @ rest" _ "truth_status b"] by (simp add: yields_def)
  qed
qed

lemma group_yields:
  assumes "yields (or_gives te) res ws ('')'' # rest)"
  shows "yields (not_gives te) res ([''(''] @ ws @ ['')'']) rest"
proof -
  have step: "not_gives te (''('' # args) err (if r > 1 then (r, e, t) else (r, e, tl t))"
    if g: "or_gives te args err (r, e, t)" and r: "r > 1 \<or> test_word '')'' t" for args err r e t
  proof -
    obtain n where "test_eval_or n (test_eval_not n te) args err = Some (r, e, t)" using g by (auto simp: or_gives_def)
    then have "test_eval_not (Suc n) te (''('' # args) err = Some (if r > 1 then (r, e, t) else (r, e, tl t))"
      using r by (auto simp: test_not_step_def test_word_def)
    then show ?thesis unfolding not_gives_def by blast
  qed
  show ?thesis
  proof (cases res)
    case (Inl m)
    then show ?thesis using assms step [of "ws @ '')'' # rest" _ 2] by (fastforce simp: yields_def)
  next
    case (Inr b)
    then show ?thesis
      using assms step [of "ws @ '')'' # rest" _ "truth_status b" _ "'')'' # rest"] by (simp add: yields_def test_word_def)
  qed
qed


text \<open>What may follow an operand.\<close>

definition stops :: "string list \<Rightarrow> bool" where
  "stops rest \<longleftrightarrow> rest = [] \<or> hd rest \<in> {''-a'', ''-o'', '')''}"

lemma stops_simps [simp]: "stops []" "stops (''-a'' # ws)" "stops (''-o'' # ws)" "stops ('')'' # ws)"
  by (simp_all add: stops_def)

abbreviation show_test :: "('p \<Rightarrow> string list) \<Rightarrow> nat \<Rightarrow> 'p cond \<Rightarrow> string list" where
  "show_test \<equiv> show_cond ''-a'' ''-o''"

lemma printed_cond_yields:
  assumes "\<forall>p \<in> set (primaries c). \<forall>rest. stops rest \<longrightarrow> yields (not_gives te) (v p) (sh p) rest"
  shows "(\<forall>rest. stops rest \<longrightarrow> yields (not_gives te) (cond_result v c) (show_test sh 2 c) rest) \<and>
    (\<forall>rest. stops rest \<longrightarrow> hands_over (and_gives te) (and_rest_gives te) (cond_result v c) (show_test sh 1 c) rest) \<and>
    (\<forall>rest. stops rest \<longrightarrow> \<not> test_word ''-a'' rest \<longrightarrow>
       hands_over (or_gives te) (or_rest_gives te) (cond_result v c) (show_test sh 0 c) rest)"
  using assms
proof (induction c)
  case (Prim p)
  then show ?case using not_into_and and_into_or chain_ends(1) by simp
next
  case (Neg c)
  then have n: "yields (not_gives te) (cond_result v (Neg c)) (''!'' # show_test sh 2 c) rest" if "stops rest" for rest
    using neg_yields that by simp
  then show ?case using not_into_and and_into_or chain_ends(1) by (simp del: cond_result.simps)
next
  case (Both a b)
  have h: "hands_over (and_gives te) (and_rest_gives te) (cond_result v (Both a b))
      (show_test sh 1 a @ [''-a''] @ show_test sh 2 b) rest" if "stops rest" for rest
    using Both that unfolding cond_result.simps by (intro both_hands_over) simp_all
  then have o: "hands_over (or_gives te) (or_rest_gives te) (cond_result v (Both a b))
      (show_test sh 1 a @ [''-a''] @ show_test sh 2 b) rest" if "stops rest" "\<not> test_word ''-a'' rest" for rest
    using that and_into_or chain_ends(1) by blast
  then have "yields (not_gives te) (cond_result v (Both a b)) (parens True (show_test sh 1 a @ [''-a''] @ show_test sh 2 b)) rest"
    if "stops rest" for rest
    unfolding parens_def if_True by (intro group_yields chain_ends(2)) simp_all
  then show ?case using h o by (simp add: parens_def del: cond_result.simps)
next
  case (Either a b)
  have "yields (and_gives te) (cond_result v b) (show_test sh 1 b) rest" if "stops rest" "\<not> test_word ''-a'' rest" for rest
    using Either.IH(2) Either.prems that chain_ends(1) by simp
  then have o: "hands_over (or_gives te) (or_rest_gives te) (cond_result v (Either a b))
      (show_test sh 0 a @ [''-o''] @ show_test sh 1 b) rest" if "stops rest" "\<not> test_word ''-a'' rest" for rest
    using Either that unfolding cond_result.simps by (intro either_hands_over) simp_all
  then have n: "yields (not_gives te) (cond_result v (Either a b)) (parens True (show_test sh 0 a @ [''-o''] @ show_test sh 1 b)) rest"
    if "stops rest" for rest
    unfolding parens_def if_True by (intro group_yields chain_ends(2)) simp_all
  then show ?case using o not_into_and by (simp add: parens_def del: cond_result.simps)
qed


subsection \<open>Primaries\<close>

datatype test_prim =
    Text string
  | Unary string string
  | Same string string
  | Differs string string
  | Compare string int int

fun prim_words :: "test_prim \<Rightarrow> string list" where
  "prim_words (Text s) = [s]"
| "prim_words (Unary opr s) = [opr, s]"
| "prim_words (Same s t) = [s, ''='', t]"
| "prim_words (Differs s t) = [s, ''!='', t]"
| "prim_words (Compare opr i j) = [show_int i, opr, show_int j]"

text \<open>A word that is read as an operand.\<close>

definition operand :: "string \<Rightarrow> bool" where
  "operand s \<longleftrightarrow> s \<notin> {''-a'', ''-o'', '')'', ''!'', ''(''}"

fun prim_ok :: "test_env \<Rightarrow> test_prim \<Rightarrow> bool" where
  "prim_ok te (Text s) \<longleftrightarrow> operand s"
| "prim_ok te (Unary opr s) \<longleftrightarrow> operand opr \<and> operand s \<and> unary_test te opr s \<noteq> None"
| "prim_ok te (Same s t) \<longleftrightarrow> operand s \<and> operand t \<and> t \<notin> set lookahead_ops"
| "prim_ok te (Differs s t) \<longleftrightarrow> operand s \<and> operand t \<and> t \<notin> set lookahead_ops"
| "prim_ok te (Compare opr i j) \<longleftrightarrow> opr \<in> set integer_ops"

text \<open>An integer out of the range of \<open>long\<close> is an error.\<close>

definition range_error :: "int \<Rightarrow> string" where
  "range_error i = copy_string err_size (''test: integer expression expected: '' @ show_int i)"

fun prim_value :: "test_env \<Rightarrow> test_prim \<Rightarrow> string + bool" where
  "prim_value te (Text s) = Inr (s \<noteq> [])"
| "prim_value te (Unary opr s) = Inr (unary_test te opr s = Some True)"
| "prim_value te (Same s t) = Inr (s = t)"
| "prim_value te (Differs s t) = Inr (s \<noteq> t)"
| "prim_value te (Compare opr i j) =
     (if \<not> strtol_range i then Inl (range_error i)
      else if \<not> strtol_range j then Inl (range_error j)
      else Inr (integer_test opr i j))"


lemma show_int_last: "show_int i \<noteq> [] \<and> c_isdigit (last (show_int i))"
proof -
  have "c_isdigit (last (show_nat n))" for n using show_nat_digits [of n] by (simp add: list_all_iff)
  then show ?thesis by (simp add: show_int_def)
qed

lemma show_int_not_word: "list_all (\<lambda>w. \<not> c_isdigit (last w)) ws \<Longrightarrow> show_int i \<notin> set ws"
  using show_int_last by (auto simp: list_all_iff)

lemma show_int_operand: "operand (show_int i)" "show_int i \<notin> set lookahead_ops"
proof -
  have "show_int i \<notin> set [''-a'', ''-o'', '')'', ''!'', ''(''] "
    by (rule show_int_not_word) code_simp
  then show "operand (show_int i)" by (simp add: operand_def)
  show "show_int i \<notin> set lookahead_ops"
    by (rule show_int_not_word) code_simp
qed

lemma digit_code: "n < 10 \<Longrightarrow> (of_char (digit_char n) :: int) = 48 + int n"
  using of_digit_char [of n] of_nat_of_char [of "digit_char n", where 'a = int] by simp

lemma foldl_show_nat:
  "foldl (\<lambda>a c. a * 10 + (of_char c - 48)) 0 (show_nat n) = (int n :: int)"
proof (induction n rule: show_nat.induct)
  case (1 n)
  show ?case
  proof (cases "n < 10")
    case True
    then show ?thesis by (subst show_nat.simps) (simp add: digit_code)
  next
    case False
    have "(of_char (digit_char (n mod 10)) :: int) - 48 = int (n mod 10)" by (simp add: digit_code)
    moreover have "int n = int (n div 10) * 10 + int (n mod 10)" by (simp add: zdiv_int zmod_int)
    ultimately show ?thesis using False 1 by (subst show_nat.simps) simp
  qed
qed

lemma strtol_show_int: "strtol_number (show_int i) = Some (i, [])"
proof -
  have d: "\<forall>c \<in> set (show_nat n). c_isdigit c" for n using show_nat_digits [of n] by (simp add: list_all_iff)
  have scan: "takeWhile c_isdigit (show_nat n) = show_nat n" "dropWhile c_isdigit (show_nat n) = []" for n
    using d by (simp_all add: takeWhile_eq_all_conv)
  have head: "dropWhile c_isspace (show_nat n) = show_nat n" "\<not> next_is ''-'' (show_nat n)" "\<not> next_is ''+'' (show_nat n)" for n
  proof -
    obtain h t where h: "show_nat n = h # t" by (cases "show_nat n") auto
    then have "c_isdigit h" using d by (metis list.set_intros(1))
    then have "\<not> c_isspace h" "h \<noteq> CHR ''-''" "h \<noteq> CHR ''+''" by (auto simp: c_isdigit_def c_isspace_def)
    then show "dropWhile c_isspace (show_nat n) = show_nat n" "\<not> next_is ''-'' (show_nat n)" "\<not> next_is ''+'' (show_nat n)"
      by (simp_all add: h)
  qed
  show ?thesis
  proof (cases "i < 0")
    case True
    then have "show_int i = CHR ''-'' # show_nat (nat (- i))" by (simp add: show_int_def)
    then show ?thesis using True by (simp add: strtol_number_def Let_def c_isspace_def scan foldl_show_nat)
  next
    case False
    then have "show_int i = show_nat (nat i)" by (simp add: show_int_def)
    then show ?thesis
      using False show_nat_ne [of "nat i"]
      by (simp only: strtol_number_def Let_def head scan foldl_show_nat if_False if_True simp_thms) simp
  qed
qed

lemma collect_stop: "stops rest \<Longrightarrow> collect_primary prim rest = (prim, rest)"
  by (cases rest) (auto simp: stops_def)

lemma collect_word:
  assumes "operand a \<or> a = ''!'' \<or> a = ''(''" and "length prim < 15"
    and "length prim = 1 \<Longrightarrow> length args \<ge> 2 \<Longrightarrow> hd args \<notin> set lookahead_ops"
  shows "collect_primary prim (a # args) = collect_primary (prim @ [a]) args"
proof -
  have "a \<noteq> ''-a''" "a \<noteq> ''-o''" "a \<noteq> '')''" using assms(1) by (auto simp: operand_def)
  then show ?thesis using assms(2,3) by (subst collect_primary.simps) auto
qed

lemma lookahead_stop: "stops rest \<Longrightarrow> length rest \<ge> 2 \<Longrightarrow> hd rest \<notin> set lookahead_ops"
  by (auto simp: stops_def lookahead_ops_def integer_ops_def)

lemma op_operand: "opr \<in> set (''='' # ''!='' # integer_ops) \<Longrightarrow> operand opr"
  by (auto simp: operand_def integer_ops_def)

lemma collect_prim_words:
  assumes "prim_ok te p" and "stops rest"
  shows "collect_primary [] (prim_words p @ rest) = (prim_words p, rest)"
proof -
  have two: "collect_primary [] ([a, b] @ rest) = ([a, b], rest)" if "operand a" "operand b" for a b
  proof -
    have "collect_primary [a] (b # rest) = collect_primary [a, b] rest"
      using that lookahead_stop [OF assms(2)] by (simp add: collect_word del: collect_primary.simps)
    moreover have "collect_primary [] (a # b # rest) = collect_primary [a] (b # rest)"
      using that collect_word [of a "[]" "b # rest"] by (simp del: collect_primary.simps)
    ultimately show ?thesis by (simp add: collect_stop [OF assms(2)] del: collect_primary.simps)
  qed
  have three: "collect_primary [] ([a, b, c] @ rest) = ([a, b, c], rest)"
    if "operand a" "operand b" "operand c" "c \<notin> set lookahead_ops" for a b c
    using that collect_word [of a "[]" "b # c # rest"] collect_word [of b "[a]" "c # rest"]
      collect_word [of c "[a, b]" rest] collect_stop [OF assms(2)]
    by (simp del: collect_primary.simps)
  show ?thesis
    using assms two three show_int_operand collect_word [of _ "[]" rest] collect_stop [OF assms(2)]
    by (cases p) (simp_all add: op_operand del: collect_primary.simps)
qed

lemma prim_yields:
  assumes "prim_ok te p" and "stops rest"
  shows "yields (not_gives te) (prim_value te p) (prim_words p) rest"
proof -
  have head: "\<exists>w ws. prim_words p = w # ws \<and> operand w" using assms(1) show_int_operand by (cases p) auto
  have parse: "parse_test_integer (show_int i) = (if strtol_range i then Inr i else Inl (range_error i))" for i
    by (simp add: parse_test_integer_def strtol_show_int range_error_def)
  have cmp: "opr \<noteq> ''='' \<and> opr \<noteq> ''=='' \<and> opr \<noteq> ''!='' \<and> opr \<noteq> ''<'' \<and> opr \<noteq> ''>''" if "opr \<in> set integer_ops" for opr
    using that by (auto simp: integer_ops_def)
  have prim: "test_primary te ev (prim_words p) err =
      Some (case prim_value te p of Inl m \<Rightarrow> (2, m) | Inr b \<Rightarrow> (truth_status b, err))" for ev err
    using assms(1) show_int_operand(1) cmp
    by (cases p) (auto simp: test_primary_def binary_test_def parse operand_def split: option.splits)
  have "test_eval_not (Suc 0) te (prim_words p @ rest) err =
      Some (case prim_value te p of Inl m \<Rightarrow> (2, m, rest) | Inr b \<Rightarrow> (truth_status b, err, rest))" for err
    using head collect_prim_words [OF assms] prim
    by (auto simp: test_not_step_def test_word_def operand_def split: sum.split)
  then have "not_gives te (prim_words p @ rest) err
      (case prim_value te p of Inl m \<Rightarrow> (2, m, rest) | Inr b \<Rightarrow> (truth_status b, err, rest))" for err
    unfolding not_gives_def by blast
  then show ?thesis unfolding yields_def by (cases "prim_value te p"; simp only: sum.case) blast+
qed

lemma gives_test_eval:
  assumes "or_gives te ws err x"
  shows "test_eval te ws err = Some x"
proof -
  obtain n where n: "test_eval_or n (test_eval_not n te) ws err = Some x" using assms by (auto simp: or_gives_def)
  obtain r e rest where t: "test_eval te ws err = Some (r, e, rest)" using test_eval_total by blast
  let ?k = "max n (length ws + 1)"
  have "test_eval_or ?k (test_eval_not ?k te) ws err = Some x" using n by (rule refinesD [OF or_level, rotated]) simp
  moreover have "test_eval_or ?k (test_eval_not ?k te) ws err = Some (r, e, rest)"
    using t unfolding test_eval_def by (rule refinesD [OF or_level, rotated]) simp
  ultimately show ?thesis using t by simp
qed

lemma printed_test:
  assumes "\<forall>p \<in> set (primaries c). prim_ok te p"
  shows "command_test te (name # show_test prim_words 0 c) =
    Some (case cond_result (prim_value te) c of Inl m \<Rightarrow> (m, 2) | Inr b \<Rightarrow> ([], truth_status b))"
proof -
  let ?ws = "show_test prim_words 0 c"
  have "show_test prim_words l c \<noteq> []" for l
    by (induction c arbitrary: l) (simp_all add: parens_def, metis list.distinct(1) prim_words.elims)
  then have ne: "?ws \<noteq> []" .
  have "hands_over (or_gives te) (or_rest_gives te) (cond_result (prim_value te) c) ?ws []"
    using printed_cond_yields [of c te "prim_value te" prim_words] assms prim_yields by simp
  then have "yields (or_gives te) (cond_result (prim_value te) c) ?ws []" by (rule chain_ends(2)) simp
  then have "case cond_result (prim_value te) c of Inr b \<Rightarrow> or_gives te ?ws [] (truth_status b, [], [])
      | Inl m \<Rightarrow> \<exists>rest'. or_gives te ?ws [] (2, m, rest')"
    unfolding yields_def append_Nil2 by blast
  then show ?thesis
    using gives_test_eval ne by (fastforce simp: command_test_def split: sum.splits)
qed

subsection \<open>The commands\<close>

text \<open>
  (C18) \<open>test\<close> and \<open>[\<close> evaluate conditions: for a tree of negations, conjunctions and disjunctions over
  string, integer and file tests whose operands are not words of the grammar, the words printed with
  the fewest parentheses give status 0 when the tree is true and 1 when it is false.  All primaries
  are evaluated from left to right, and the first integer out of the range of \<open>long\<close> gives status 2 with
  its message.
\<close>

theorem test_evaluates_conditions:
  assumes "\<forall>p \<in> set (primaries c). prim_ok te p"
  shows "command_test te (''test'' # show_test prim_words 0 c) =
      Some (case cond_result (prim_value te) c of Inl m \<Rightarrow> (m, 2) | Inr b \<Rightarrow> ([], truth_status b)) \<and>
    command_lbracket te (''['' # show_test prim_words 0 c @ ['']'']) =
      Some (case cond_result (prim_value te) c of Inl m \<Rightarrow> (m, 2) | Inr b \<Rightarrow> ([], truth_status b))"
  using printed_test [OF assms] by (simp add: command_lbracket_def)

definition empty_system :: test_env where
  "empty_system = \<lparr>te_stat = \<lambda>p. None, te_lstat = \<lambda>p. None, te_access = \<lambda>p mode. False, te_euid = 0, te_egid = 0,
     te_isatty = \<lambda>fd. False\<rparr>"

theorem test_evaluates_conditions_witness:
  "command_test empty_system
     [''test'', ''('', ''-3'', ''-lt'', ''10'', ''-o'', ''-e'', ''/x'', '')'', ''-a'', ''!'', ''a'', ''='', ''b''] = Some ([], 0)"
proof -
  let ?c = "Both (Either (Prim (Compare ''-lt'' (-3) 10)) (Prim (Unary ''-e'' ''/x''))) (Neg (Prim (Same ''a'' ''b'')))"
  have "\<forall>p \<in> set (primaries ?c). prim_ok empty_system p"
    by (simp add: operand_def integer_ops_def lookahead_ops_def unary_test_def)
  moreover have "show_test prim_words 0 ?c =
      [''('', ''-3'', ''-lt'', ''10'', ''-o'', ''-e'', ''/x'', '')'', ''-a'', ''!'', ''a'', ''='', ''b'']" by code_simp
  moreover have "cond_result (prim_value empty_system) ?c = Inr True" by code_simp
  ultimately show ?thesis using test_evaluates_conditions [of ?c empty_system] by (simp add: truth_status_def)
qed

text \<open>
  The look-ahead for an operator looks one word too far: when the right operand of a comparison is
  itself spelled like an operator and \<open>-a\<close> follows, the comparison, the \<open>-a\<close> and the next word are taken
  for one primary of unknown form, and the command fails with too many arguments, whatever the
  operands are.
\<close>

theorem operator_operand_rejected:
  assumes "operand s" and "opr \<in> set lookahead_ops" and "t \<in> set lookahead_ops" and "operand u"
  shows "command_test te [''test'', s, opr, t, ''-a'', u] = Some (''test: too many arguments'', 2)"
proof -
  have "operand opr" using assms(2) by (auto simp: operand_def lookahead_ops_def integer_ops_def)
  have "collect_primary [s] [opr, t, ''-a'', u] = ([s, opr, t, ''-a''], [u])"
    using assms(3) \<open>operand opr\<close> by (subst collect_primary.simps) (auto simp: operand_def numeral_3_eq_3)
  moreover have "collect_primary [] [s, opr, t, ''-a'', u] = collect_primary [s] [opr, t, ''-a'', u]"
    using collect_word [of s "[]"] assms(1) by (simp del: collect_primary.simps)
  ultimately have c: "collect_primary [] [s, opr, t, ''-a'', u] = ([s, opr, t, ''-a''], [u])" by simp
  have "test_eval_not (Suc 0) te [s, opr, t, ''-a'', u] [] = Some (1, [], [u])"
    using assms(1) c by (simp add: test_not_step_def operand_def test_primary_def)
  then have "not_gives te [s, opr, t, ''-a'', u] [] (1, [], [u])" unfolding not_gives_def by blast
  moreover have "\<not> test_word ''-a'' [u]" "\<not> test_word ''-o'' [u]" using assms(4) by (auto simp: operand_def)
  ultimately have "or_gives te [s, opr, t, ''-a'', u] [] (1, [], [u])"
    using and_givesI or_givesI rest_gives_end by (metis order_refl)
  then show ?thesis by (simp add: command_test_def gives_test_eval)
qed

theorem operator_operand_rejected_witness:
  "command_test empty_system [''test'', ''='', ''='', ''='', ''-a'', ''x''] = Some (''test: too many arguments'', 2)"
  by (rule operator_operand_rejected) (simp_all add: operand_def lookahead_ops_def integer_ops_def)

end
