(* ===== verification/Double_Bracket.thy ===== *)
theory Double_Bracket
  imports Test_Builtin
begin

text \<open>
  The command \<open>[[\<close> of \<^verbatim>\<open>src/shell.c\<close>: pattern and regular expression matches, the primaries of \<open>test\<close>,
  and the recursive descent with \<open>&&\<close> and \<open>||\<close>, which skips the words of operands that cannot change
  the value.  The record \<open>bracket_env\<close> holds the matchers of the C library and the operations on
  value bindings.  The bounds of the readers are as in \<open>Test_Builtin\<close>.
\<close>

text \<open>What \<open>regcomp\<close> and \<open>regexec\<close> answer; the pairs are the ends of the groups.\<close>

datatype regex_result =
    Regex_invalid string
  | Regex_no_match
  | Regex_failed
  | Regex_match "(int \<times> int) list"

record ('f, 'w) bracket_env =
  be_test :: test_env
  be_mem :: memory
  be_fnmatch :: "string \<Rightarrow> string \<Rightarrow> bool"
  be_regex :: "string \<Rightarrow> string \<Rightarrow> regex_result"
  be_list_ok :: "string list \<Rightarrow> bool"
  be_unset_binding :: "('f, 'w) exec_shell \<Rightarrow> string \<Rightarrow> ('f, 'w) exec_shell"
  be_set_binding :: "('f, 'w) exec_shell \<Rightarrow> string \<Rightarrow> string list option \<Rightarrow> ('f, 'w) exec_shell \<times> bool"

subsection \<open>Primaries\<close>

definition double_bracket_match_glob :: "('f, 'w) bracket_env \<Rightarrow> string \<Rightarrow> string \<Rightarrow> int" where
  "double_bracket_match_glob be t pattern = truth_status (be_fnmatch be pattern t)"

definition set_rematch_var ::
  "('f, 'w) bracket_env \<Rightarrow> ('f, 'w) exec_shell \<Rightarrow> string \<Rightarrow> int \<times> ('f, 'w) exec_shell" where
  "set_rematch_var be shell v =
     (case arksh_shell_set_var (be_mem be) (vs shell) ''BASH_REMATCH'' v False of (r, vs1) \<Rightarrow> (r, shell\<lparr>vs := vs1\<rparr>))"

definition clear_bash_rematch :: "('f, 'w) bracket_env \<Rightarrow> ('f, 'w) exec_shell \<Rightarrow> ('f, 'w) exec_shell" where
  "clear_bash_rematch be shell = be_unset_binding be (snd (set_rematch_var be shell [])) ''BASH_REMATCH''"

text \<open>The texts of the groups that matched, or an error.\<close>

fun captures_of :: "string \<Rightarrow> (int \<times> int) list \<Rightarrow> string list \<Rightarrow> string + string list" where
  "captures_of t [] out = Inr out"
| "captures_of t ((so, eo) # ms) out =
     (if so < 0 \<or> eo < so then captures_of t ms out
      else if nat (eo - so) \<ge> max_token then Inl ''regex capture too long''
      else captures_of t ms (out @ [take (nat (eo - so)) (drop (nat so) t)]))"

definition set_bash_rematch_capture ::
  "('f, 'w) bracket_env \<Rightarrow> ('f, 'w) exec_shell \<Rightarrow> string \<Rightarrow> (int \<times> int) list \<Rightarrow>
   ('f, 'w) exec_shell \<times> string option" where
  "set_bash_rematch_capture be shell t ms =
     (case captures_of t ms [] of
        Inl m \<Rightarrow> (shell, Some m)
      | Inr captures \<Rightarrow>
          if \<not> be_list_ok be captures then (shell, Some ''unable to store regex capture'')
          else
            (case set_rematch_var be shell (if captures = [] then [] else hd captures) of
               (r, shell1) \<Rightarrow>
                 if r \<noteq> 0 then (shell1, Some ''unable to store BASH_REMATCH'')
                 else
                   (case be_set_binding be shell1 ''BASH_REMATCH'' (if captures = [] then None else Some captures) of
                      (shell2, ok) \<Rightarrow> (shell2, if ok then None else Some ''unable to store BASH_REMATCH binding''))))"

text \<open>The shell and the text in the error buffer.\<close>

type_synonym ('f, 'w) bracket_state = "('f, 'w) exec_shell \<times> string"

definition regex_test ::
  "('f, 'w) bracket_env \<Rightarrow> string \<Rightarrow> string \<Rightarrow> ('f, 'w) bracket_state \<Rightarrow> int \<times> ('f, 'w) bracket_state" where
  "regex_test be t pattern st =
     (case st of (shell, err) \<Rightarrow>
        (let shell1 = clear_bash_rematch be shell in
         case be_regex be pattern t of
           Regex_invalid m \<Rightarrow> (2, shell1, copy_string err_size (''[[: invalid regex: '' @ take 127 m))
         | Regex_no_match \<Rightarrow> (1, clear_bash_rematch be shell1, err)
         | Regex_failed \<Rightarrow> (2, shell1, ''[[: regex evaluation failed'')
         | Regex_match ms \<Rightarrow>
             (case set_bash_rematch_capture be shell1 t (take 16 ms) of
                (shell2, None) \<Rightarrow> (0, shell2, err)
              | (shell2, Some m) \<Rightarrow> (2, shell2, m))))"

definition double_bracket_primary_eval ::
  "('f, 'w) bracket_env \<Rightarrow> string list \<Rightarrow> ('f, 'w) bracket_state \<Rightarrow> (int \<times> ('f, 'w) bracket_state) option" where
  "double_bracket_primary_eval be args st =
     (case st of (shell, err) \<Rightarrow>
        let cleared = clear_bash_rematch be shell in
        if length args = 3 \<and> (args ! 1 = ''=='' \<or> args ! 1 = ''='') then
          Some (double_bracket_match_glob be (args ! 0) (args ! 2), cleared, err)
        else if length args = 3 \<and> args ! 1 = ''!='' then
          Some (truth_status (double_bracket_match_glob be (args ! 0) (args ! 2) \<noteq> 0), cleared, err)
        else if length args = 3 \<and> args ! 1 = ''=~'' then Some (regex_test be (args ! 0) (args ! 2) st)
        else do {
          (r, err1) \<leftarrow> test_primary (be_test be) (test_eval (be_test be)) args err;
          Some (r, cleared, err1)
        })"

subsection \<open>Words to skip\<close>

text \<open>The words in front of the next operator outside parentheses.\<close>

definition ends_primary :: "nat \<Rightarrow> string \<Rightarrow> bool" where
  "ends_primary depth w \<longleftrightarrow> depth = 0 \<and> (w = ''&&'' \<or> w = ''||'' \<or> w = '')'')"

definition paren_depth :: "nat \<Rightarrow> string \<Rightarrow> nat" where
  "paren_depth depth w = (if w = ''('' then depth + 1 else if w = '')'' \<and> depth > 0 then depth - 1 else depth)"

fun skip_words :: "nat \<Rightarrow> string list \<Rightarrow> string list" where
  "skip_words depth [] = []"
| "skip_words depth (w # args) =
     (if ends_primary depth w then w # args else skip_words (paren_depth depth w) args)"

text \<open>Whether the words could be skipped, with the text in the error buffer as the state.\<close>

type_synonym skipper = "(string, bool) reader"

definition double_bracket_skip_and :: "nat \<Rightarrow> skipper \<Rightarrow> skipper" where
  "double_bracket_skip_and n skip_primary = chain n ''&&'' Not (\<lambda>_. skip_primary) skip_primary"

definition double_bracket_skip_or :: "nat \<Rightarrow> skipper \<Rightarrow> skipper" where
  "double_bracket_skip_or n skip_primary =
     chain n ''||'' Not (\<lambda>_. double_bracket_skip_and n skip_primary) (double_bracket_skip_and n skip_primary)"

definition skip_step :: "nat \<Rightarrow> skipper \<Rightarrow> skipper" where
  "skip_step n skip_primary args err =
     (if args = [] then Some (False, ''[[: missing conditional expression'', args)
      else if test_word ''!'' args then skip_primary (tl args) err
      else if test_word ''('' args then do {
        (ok, err1, rest) \<leftarrow> double_bracket_skip_or n skip_primary (tl args) err;
        if \<not> ok then Some (False, err1, rest)
        else if \<not> test_word '')'' rest then Some (False, ''[[: missing closing )'', rest)
        else Some (True, err1, tl rest)
      }
      else Some (True, err, skip_words 0 args))"

primrec double_bracket_skip_primary :: "nat \<Rightarrow> skipper" where
  "double_bracket_skip_primary 0 args err = None"
| "double_bracket_skip_primary (Suc n) args err = skip_step n (double_bracket_skip_primary n) args err"

subsection \<open>Evaluation\<close>

text \<open>The status, and whether the loop it was found in returns it at once.\<close>

type_synonym ('f, 'w) db_evaluator = "(('f, 'w) bracket_state, int) reader"
type_synonym ('f, 'w) db_operand = "(('f, 'w) bracket_state, bool \<times> int) reader"

definition first_operand :: "('f, 'w) db_evaluator \<Rightarrow> ('f, 'w) db_operand" where
  "first_operand eval args st = do { (r, st1, rest) \<leftarrow> eval args st; Some ((r = 2, r), st1, rest) }"

definition next_operand ::
  "(int \<Rightarrow> bool) \<Rightarrow> skipper \<Rightarrow> ('f, 'w) db_evaluator \<Rightarrow> bool \<times> int \<Rightarrow> ('f, 'w) db_operand" where
  "next_operand decided skip eval result args st =
     (if decided (snd result) then do {
        (ok, err1, rest) \<leftarrow> skip args (snd st);
        Some (if ok then (False, snd result) else (True, 2), (fst st, err1), rest)
      }
      else do { (r, st1, rest) \<leftarrow> eval args st; Some ((False, r), st1, rest) })"

definition status_of :: "('f, 'w) db_operand \<Rightarrow> ('f, 'w) db_evaluator" where
  "status_of f args st = do { (r, st1, rest) \<leftarrow> f args st; Some (snd r, st1, rest) }"

definition double_bracket_eval_and :: "nat \<Rightarrow> ('f, 'w) db_evaluator \<Rightarrow> ('f, 'w) db_evaluator" where
  "double_bracket_eval_and n eval_not =
     status_of (chain n ''&&'' fst (next_operand (\<lambda>r. r \<noteq> 0) (double_bracket_skip_primary n) eval_not)
       (first_operand eval_not))"

definition double_bracket_eval_or :: "nat \<Rightarrow> ('f, 'w) db_evaluator \<Rightarrow> ('f, 'w) db_evaluator" where
  "double_bracket_eval_or n eval_not =
     (let eval_and = double_bracket_eval_and n eval_not;
          skip_and = double_bracket_skip_and n (double_bracket_skip_primary n) in
      status_of (chain n ''||'' fst (next_operand (\<lambda>r. r = 0) skip_and eval_and) (first_operand eval_and)))"

fun collect_bracket_primary :: "nat \<Rightarrow> string list \<Rightarrow> string list \<Rightarrow> string list \<times> string list" where
  "collect_bracket_primary depth prim [] = (prim, [])"
| "collect_bracket_primary depth prim (w # args) =
     (if length prim \<ge> 16 \<or> ends_primary depth w then (prim, w # args)
      else collect_bracket_primary (paren_depth depth w) (prim @ [w]) args)"

definition bracket_step :: "nat \<Rightarrow> ('f, 'w) bracket_env \<Rightarrow> ('f, 'w) db_evaluator \<Rightarrow> ('f, 'w) db_evaluator" where
  "bracket_step n be eval_not args st =
     (if args = [] then Some (2, (fst st, ''[[: missing conditional expression''), args)
      else if test_word ''!'' args then do {
        (r, st1, rest) \<leftarrow> eval_not (tl args) st;
        Some (if r = 2 then 2 else truth_status (r \<noteq> 0), st1, rest)
      }
      else if test_word ''('' args then do {
        (r, st1, rest) \<leftarrow> double_bracket_eval_or n eval_not (tl args) st;
        if r = 2 then Some (2, st1, rest)
        else if \<not> test_word '')'' rest then Some (2, (fst st1, ''[[: missing closing )''), rest)
        else Some (r, st1, tl rest)
      }
      else
        (case collect_bracket_primary 0 [] args of
           (prim, rest) \<Rightarrow>
             if prim = [] then Some (2, (fst st, ''[[: missing conditional expression''), rest)
             else do {
               (r, st1) \<leftarrow> double_bracket_primary_eval be prim st;
               Some (r, st1, rest)
             }))"

primrec double_bracket_eval_not :: "nat \<Rightarrow> ('f, 'w) bracket_env \<Rightarrow> ('f, 'w) db_evaluator" where
  "double_bracket_eval_not 0 be args st = None"
| "double_bracket_eval_not (Suc n) be args st = bracket_step n be (double_bracket_eval_not n be) args st"

text \<open>The shell, the output and the status.\<close>

definition command_double_lbracket ::
  "('f, 'w) bracket_env \<Rightarrow> ('f, 'w) exec_shell \<Rightarrow> string list \<Rightarrow> (('f, 'w) exec_shell \<times> string \<times> int) option" where
  "command_double_lbracket be shell argv =
     (if length argv < 2 \<or> last argv \<noteq> '']]'' then Some (shell, ''[[: missing closing ]]'', 2)
      else
        (let args = butlast (tl argv); n = length args + 1 in
         if args = [] then Some (shell, [], 1)
         else do {
           (r, (shell1, err), rest) \<leftarrow> double_bracket_eval_or n (double_bracket_eval_not n be) args (shell, []);
           Some (if r \<noteq> 2 \<and> rest \<noteq> [] then
                   (shell1, copy_string err_size (''[[: unexpected token: '' @ hd rest), 2)
                 else (shell1, err, r))
         }))"

end
