(* ===== verification/Bracket_Laws.thy ===== *)
theory Bracket_Laws
  imports Double_Bracket Test_Laws Exec_Frame
begin

text \<open>
  \<open>[[\<close> always answers, and evaluates a printed condition lazily: operands that cannot change the value
  are skipped, with all their words.
\<close>

subsection \<open>Totality\<close>

lemma skip_step_answers:
  assumes f: "answers k f" and "k < n"
  shows "answers (Suc k) (skip_step n f)"
  unfolding answers_def
proof (intro allI impI)
  fix args :: "string list" and err
  assume l: "length args \<le> Suc k"
  have or: "answers k (double_bracket_skip_or n f)"
    unfolding double_bracket_skip_or_def double_bracket_skip_and_def by (intro chain_answers f \<open>k < n\<close>)
  have w: "length (skip_words d ws) \<le> length ws" for d ws by (induction d ws rule: skip_words.induct) auto
  consider "args = []" | "test_word ''!'' args" | "args \<noteq> []" "\<not> test_word ''!'' args" "test_word ''('' args"
    | "args \<noteq> []" "\<not> test_word ''!'' args" "\<not> test_word ''('' args" by blast
  then show "\<exists>r err1 rest. skip_step n f args err = Some (r, err1, rest) \<and> length rest \<le> length args"
  proof cases
    case 2
    then have t: "length (tl args) \<le> k" "args \<noteq> []" using l by (auto simp: test_word_def)
    obtain s err1 rest where "f (tl args) err = Some (s, err1, rest)" "length rest \<le> length (tl args)"
      using f t(1) by (rule answersE)
    then show ?thesis using 2 t by (simp add: skip_step_def)
  next
    case 3
    then have t: "length (tl args) \<le> k" using l by (auto simp: test_word_def)
    obtain s err1 rest where "double_bracket_skip_or n f (tl args) err = Some (s, err1, rest)" "length rest \<le> length (tl args)"
      using or t by (rule answersE)
    then show ?thesis using 3 by (auto simp: skip_step_def)
  qed (use w in \<open>auto simp: skip_step_def\<close>)
qed

lemma skip_primary_answers: "answers k (double_bracket_skip_primary (Suc k))"
proof (induction k)
  case (Suc k)
  from skip_step_answers [OF Suc, of "Suc k"] show ?case
    unfolding answers_def double_bracket_skip_primary.simps(2) [of "Suc k"] by simp
qed (auto simp: answers_def skip_step_def)

lemma first_operand_answers: "answers k f \<Longrightarrow> answers k (first_operand f)"
  using answers_map [of k f] by (fastforce simp: first_operand_def [abs_def] answers_def bind_eq_Some_conv)

lemma status_of_answers: "answers k f \<Longrightarrow> answers k (status_of f)"
  unfolding status_of_def [abs_def] by (rule answers_map)

lemma next_operand_answers:
  assumes "answers k sk" and "answers k f" shows "answers k (next_operand d sk f r)"
  unfolding answers_def
proof (intro allI impI)
  fix args :: "string list" and st :: "('a, 'b) bracket_state"
  assume l: "length args \<le> k"
  obtain q e rest where q: "sk args (snd st) = Some (q, e, rest)" "length rest \<le> length args"
    using assms(1) l by (rule answersE)
  obtain u s1 rest1 where u: "f args st = Some (u, s1, rest1)" "length rest1 \<le> length args"
    using assms(2) l by (rule answersE)
  show "\<exists>p s1 rest. next_operand d sk f r args st = Some (p, s1, rest) \<and> length rest \<le> length args"
    using q u by (cases "d (snd r)") (simp_all add: next_operand_def ex_bool_eq)
qed

lemma eval_or_answers:
  assumes f: "answers k f" and "k < n"
  shows "answers k (double_bracket_eval_or n f)"
proof -
  have "answers (n - 1) (double_bracket_skip_primary n)" using skip_primary_answers [of "n - 1"] \<open>k < n\<close> by simp
  then have sp: "answers k (double_bracket_skip_primary n)" by (rule answers_less) (use \<open>k < n\<close> in simp)
  have sa: "answers k (double_bracket_skip_and n (double_bracket_skip_primary n))"
    unfolding double_bracket_skip_and_def by (rule chain_answers [OF sp sp \<open>k < n\<close>])
  have "answers k (double_bracket_eval_and n f)"
    unfolding double_bracket_eval_and_def
    by (rule status_of_answers [OF chain_answers [OF next_operand_answers [OF sp f] first_operand_answers [OF f] \<open>k < n\<close>]])
  then show ?thesis
    unfolding double_bracket_eval_or_def Let_def
    by (intro status_of_answers [OF chain_answers [OF next_operand_answers [OF sa] first_operand_answers \<open>k < n\<close>]])
qed

lemma collect_bracket_length: "length (snd (collect_bracket_primary d prim args)) \<le> length args"
  by (induction d prim args rule: collect_bracket_primary.induct) auto

lemma primary_eval_total: "\<exists>r st1. double_bracket_primary_eval be args st = Some (r, st1)"
proof -
  obtain shell err where st: "st = (shell, err)" by (cases st)
  obtain r err1 rest where e: "test_eval (be_test be) (tl args) err = Some (r, err1, rest)" using test_eval_total by blast
  have "\<exists>r err1. test_primary (be_test be) (test_eval (be_test be)) args err = Some (r, err1)"
    using e by (auto simp: test_primary_def split: list.splits option.splits sum.splits)
  then show ?thesis by (auto simp: double_bracket_primary_eval_def st Let_def) (metis surj_pair)+
qed

lemma bracket_step_answers:
  assumes f: "answers k f" and "k < n"
  shows "answers (Suc k) (bracket_step n be f)"
  unfolding answers_def
proof (intro allI impI)
  fix args :: "string list" and st :: "('a, 'b) bracket_state"
  assume l: "length args \<le> Suc k"
  note or = eval_or_answers [OF assms]
  consider "args = []" | "test_word ''!'' args" | "args \<noteq> []" "\<not> test_word ''!'' args" "test_word ''('' args"
    | "args \<noteq> []" "\<not> test_word ''!'' args" "\<not> test_word ''('' args" by blast
  then show "\<exists>r st1 rest. bracket_step n be f args st = Some (r, st1, rest) \<and> length rest \<le> length args"
  proof cases
    case 2
    then have t: "length (tl args) \<le> k" "args \<noteq> []" using l by (auto simp: test_word_def)
    obtain s err1 rest where "f (tl args) st = Some (s, err1, rest)" "length rest \<le> length (tl args)"
      using f t(1) by (rule answersE)
    then show ?thesis using 2 t by (simp add: bracket_step_def)
  next
    case 3
    then have t: "length (tl args) \<le> k" using l by (auto simp: test_word_def)
    obtain s err1 rest where "double_bracket_eval_or n f (tl args) st = Some (s, err1, rest)" "length rest \<le> length (tl args)"
      using or t by (rule answersE)
    then show ?thesis using 3 by (auto simp: bracket_step_def)
  next
    case 4
    obtain prim rest where c: "collect_bracket_primary 0 [] args = (prim, rest)" by fastforce
    then have "length rest \<le> length args" using collect_bracket_length [of 0 "[]" args] by simp
    moreover obtain r st1 where "double_bracket_primary_eval be prim st = Some (r, st1)" using primary_eval_total by blast
    ultimately show ?thesis using 4 by (auto simp: bracket_step_def c)
  qed (simp add: bracket_step_def)
qed

lemma bracket_not_answers: "answers k (double_bracket_eval_not (Suc k) be)"
proof (induction k)
  case (Suc k)
  from bracket_step_answers [OF Suc, of "Suc k"] show ?case
    unfolding answers_def double_bracket_eval_not.simps(2) [of "Suc k"] by simp
qed (auto simp: answers_def bracket_step_def)

lemma command_double_lbracket_total: "\<exists>shell' out status. command_double_lbracket be shell argv = Some (shell', out, status)"
proof -
  let ?args = "butlast (tl argv)"
  let ?n = "length ?args + 1"
  have "answers (length ?args) (double_bracket_eval_or ?n (double_bracket_eval_not ?n be))"
    using eval_or_answers [OF bracket_not_answers, of "length ?args" ?n be] by simp
  then obtain r st1 rest where "double_bracket_eval_or ?n (double_bracket_eval_not ?n be) ?args (shell, []) = Some (r, st1, rest)"
    unfolding answers_def by blast
  then show ?thesis
    by (cases st1) (simp add: command_double_lbracket_def Let_def)
qed


subsection \<open>Skipping\<close>

abbreviation show_bracket :: "nat \<Rightarrow> string list cond \<Rightarrow> string list" where
  "show_bracket \<equiv> show_cond ''&&'' ''||'' (\<lambda>ws. ws)"

definition plain_word :: "string \<Rightarrow> bool" where
  "plain_word w \<longleftrightarrow> w \<notin> {''&&'', ''||'', ''('', '')''}"

text \<open>The words of a primary: the grammar's own words are left out.\<close>

definition bracket_prim_ok :: "string list \<Rightarrow> bool" where
  "bracket_prim_ok ws \<longleftrightarrow> ws \<noteq> [] \<and> length ws \<le> 16 \<and> hd ws \<noteq> ''!'' \<and> list_all plain_word ws"

definition op_follows :: "string list \<Rightarrow> bool" where
  "op_follows rest \<longleftrightarrow> rest = [] \<or> hd rest \<in> {''&&'', ''||'', '')''}"

lemma op_follows_simps [simp]:
  "op_follows []" "op_follows (''&&'' # ws)" "op_follows (''||'' # ws)" "op_follows ('')'' # ws)"
  by (simp_all add: op_follows_def)

lemma ends_primary_follows: "op_follows (w # ws) \<Longrightarrow> ends_primary 0 w"
  by (auto simp: op_follows_def ends_primary_def)

lemma plain_word_inside: "plain_word w \<Longrightarrow> \<not> ends_primary 0 w \<and> paren_depth 0 w = 0"
  by (simp add: plain_word_def ends_primary_def paren_depth_def)

lemma skip_words_plain: "list_all plain_word ws \<Longrightarrow> op_follows rest \<Longrightarrow> skip_words 0 (ws @ rest) = rest"
  by (induction ws) (use ends_primary_follows in \<open>cases rest; auto\<close>, simp add: plain_word_inside)

text \<open>The operands in front of the last one of a chain.\<close>

fun conjuncts :: "'p cond \<Rightarrow> nat" where
  "conjuncts (Both a b) = Suc (conjuncts a)"
| "conjuncts c = 0"

fun disjuncts :: "'p cond \<Rightarrow> nat" where
  "disjuncts (Either a b) = Suc (disjuncts a)"
| "disjuncts c = 0"

lemma show_words: "conjuncts c \<le> length (show_cond aw ow sh 1 c)" "disjuncts c \<le> length (show_cond aw ow sh 0 c)"
  by (induction c) (simp_all add: parens_def)

lemma prims_words: "\<forall>ws \<in> set (primaries c). bracket_prim_ok ws \<Longrightarrow> show_bracket l c \<noteq> []"
  by (induction c arbitrary: l) (simp_all add: parens_def bracket_prim_ok_def)

text \<open>Skipping an operand leaves the words after it; a chain hands over to its loop.\<close>

definition skips_primary :: "nat \<Rightarrow> string list \<Rightarrow> string list \<Rightarrow> bool" where
  "skips_primary k ws rest \<longleftrightarrow> (\<forall>n err. k < n \<longrightarrow> double_bracket_skip_primary n (ws @ rest) err = Some (True, err, rest))"

definition skips_and :: "nat \<Rightarrow> nat \<Rightarrow> string list \<Rightarrow> string list \<Rightarrow> bool" where
  "skips_and k j ws rest \<longleftrightarrow>
     (\<forall>n m err. k < n \<longrightarrow> j < m \<longrightarrow>
       double_bracket_skip_and m (double_bracket_skip_primary n) (ws @ rest) err =
       chain_rest (m - j) ''&&'' Not (\<lambda>_. double_bracket_skip_primary n) True rest err)"

definition skips_or :: "nat \<Rightarrow> nat \<Rightarrow> string list \<Rightarrow> string list \<Rightarrow> bool" where
  "skips_or k j ws rest \<longleftrightarrow>
     (\<forall>n err. k < n \<longrightarrow> j < n \<longrightarrow>
       double_bracket_skip_or n (double_bracket_skip_primary n) (ws @ rest) err =
       chain_rest (n - j) ''||'' Not (\<lambda>_. double_bracket_skip_and n (double_bracket_skip_primary n)) True rest err)"

lemma chain_rest_ends: "0 < n \<Longrightarrow> \<not> test_word w args \<Longrightarrow> chain_rest n w stop f r args s = Some (r, s, args)"
  by (cases n) simp_all

lemma skips_and_end: "skips_and k j ws rest \<Longrightarrow> \<not> test_word ''&&'' rest \<Longrightarrow> k < n \<Longrightarrow> j < n \<Longrightarrow>
    double_bracket_skip_and n (double_bracket_skip_primary n) (ws @ rest) err = Some (True, err, rest)"
  by (simp add: skips_and_def chain_rest_ends)

lemma skips_primary_and: "skips_primary k ws rest \<Longrightarrow> skips_and k 0 ws rest"
  by (simp add: skips_primary_def skips_and_def double_bracket_skip_and_def chain_def)

lemma skips_and_or: "skips_and k j ws rest \<Longrightarrow> \<not> test_word ''&&'' rest \<Longrightarrow> j \<le> k \<Longrightarrow> skips_or k 0 ws rest"
  using skips_and_end [of k j ws rest] by (simp add: skips_or_def double_bracket_skip_or_def chain_def)

lemma skips_both:
  assumes "skips_and k j wa (''&&'' # wb @ rest)" and "skips_primary k wb rest"
  shows "skips_and k (Suc j) (wa @ [''&&''] @ wb) rest"
  unfolding skips_and_def
proof (intro allI impI)
  fix n m err assume n: "k < n" and m: "Suc j < m"
  have "m - j = Suc (m - Suc j)" using m by simp
  then show "double_bracket_skip_and m (double_bracket_skip_primary n) ((wa @ [''&&''] @ wb) @ rest) err =
      chain_rest (m - Suc j) ''&&'' Not (\<lambda>_. double_bracket_skip_primary n) True rest err"
    using assms n m by (simp add: skips_and_def skips_primary_def)
qed

lemma skips_either:
  assumes "skips_or k j wa (''||'' # wb @ rest)" and "skips_and k i wb rest" and "\<not> test_word ''&&'' rest" and "i \<le> k"
  shows "skips_or k (Suc j) (wa @ [''||''] @ wb) rest"
  unfolding skips_or_def
proof (intro allI impI)
  fix n err assume n: "k < n" and m: "Suc j < n"
  have "n - j = Suc (n - Suc j)" using m by simp
  then show "double_bracket_skip_or n (double_bracket_skip_primary n) ((wa @ [''||''] @ wb) @ rest) err =
      chain_rest (n - Suc j) ''||'' Not (\<lambda>_. double_bracket_skip_and n (double_bracket_skip_primary n)) True rest err"
    using assms(1) skips_and_end [OF assms(2,3) n] assms(4) n m by (simp add: skips_or_def)
qed

lemma skips_neg: "skips_primary k ws rest \<Longrightarrow> skips_primary (Suc k) (''!'' # ws) rest"
  unfolding skips_primary_def
proof (intro allI impI)
  fix n err assume *: "\<forall>n err. k < n \<longrightarrow> double_bracket_skip_primary n (ws @ rest) err = Some (True, err, rest)" "Suc k < n"
  then obtain m where "n = Suc m" "k < m" by (cases n) auto
  then show "double_bracket_skip_primary n ((''!'' # ws) @ rest) err = Some (True, err, rest)"
    using *(1) by (simp add: skip_step_def)
qed

lemma skips_group:
  assumes "skips_or k j ws ('')'' # rest)" and "j \<le> k"
  shows "skips_primary (Suc k) ([''(''] @ ws @ ['')'']) rest"
  unfolding skips_primary_def
proof (intro allI impI)
  fix n err assume "Suc k < n"
  then obtain m where m: "n = Suc m" "k < m" "j < m" using assms(2) by (cases n) auto
  then show "double_bracket_skip_primary n (([''(''] @ ws @ ['')'']) @ rest) err = Some (True, err, rest)"
    using assms(1) by (simp add: skip_step_def skips_or_def chain_rest_ends)
qed

lemma skips_primary_less: "skips_primary k ws rest \<Longrightarrow> k \<le> l \<Longrightarrow> skips_primary l ws rest"
  by (simp add: skips_primary_def)

lemma skips_and_less: "skips_and k j ws rest \<Longrightarrow> k \<le> l \<Longrightarrow> skips_and l j ws rest"
  by (simp add: skips_and_def)

lemma skips_or_less: "skips_or k j ws rest \<Longrightarrow> k \<le> l \<Longrightarrow> skips_or l j ws rest"
  by (simp add: skips_or_def)


lemma printed_cond_skips:
  assumes "\<forall>ws \<in> set (primaries c). bracket_prim_ok ws"
  shows "(\<forall>rest. op_follows rest \<longrightarrow> skips_primary (length (show_bracket 2 c)) (show_bracket 2 c) rest) \<and>
    (\<forall>rest. op_follows rest \<longrightarrow> skips_and (length (show_bracket 1 c)) (conjuncts c) (show_bracket 1 c) rest) \<and>
    (\<forall>rest. op_follows rest \<longrightarrow> \<not> test_word ''&&'' rest \<longrightarrow>
       skips_or (length (show_bracket 0 c)) (disjuncts c) (show_bracket 0 c) rest)"
  using assms
proof (induction c)
  case (Prim ws)
  then have "ws \<noteq> []" "hd ws \<noteq> ''!''" "plain_word (hd ws)" "list_all plain_word ws"
    by (auto simp: bracket_prim_ok_def list_all_iff)
  then have p: "skips_primary (length ws) ws rest" if "op_follows rest" for rest
    unfolding skips_primary_def
  proof (intro allI impI)
    fix n err assume "length ws < n"
    then obtain m where "n = Suc m" by (cases n) auto
    then show "double_bracket_skip_primary n (ws @ rest) err = Some (True, err, rest)"
      using \<open>ws \<noteq> []\<close> \<open>hd ws \<noteq> ''!''\<close> \<open>plain_word (hd ws)\<close> skip_words_plain [OF \<open>list_all plain_word ws\<close> that]
      by (simp add: skip_step_def test_word_def plain_word_def)
  qed
  then have "skips_and (length ws) 0 ws rest" if "op_follows rest" for rest using that skips_primary_and by blast
  then have "skips_or (length ws) 0 ws rest" if "op_follows rest" "\<not> test_word ''&&'' rest" for rest
    using that skips_and_or [of "length ws" 0] by simp
  then show ?case using p skips_primary_and by simp
next
  case (Neg c)
  then have p: "skips_primary (Suc (length (show_bracket 2 c))) (''!'' # show_bracket 2 c) rest" if "op_follows rest" for rest
    using skips_neg that by simp
  then have "skips_or (Suc (length (show_bracket 2 c))) 0 (''!'' # show_bracket 2 c) rest"
    if "op_follows rest" "\<not> test_word ''&&'' rest" for rest
    using that skips_and_or [OF skips_primary_and] by simp
  then show ?case using p skips_primary_and by simp
next
  case (Both a b)
  let ?ws = "show_bracket 1 a @ [''&&''] @ show_bracket 2 b"
  have a: "skips_and (length (show_bracket 1 a)) (conjuncts a) (show_bracket 1 a) rest" if "op_follows rest" for rest
    using Both.IH(1) Both.prems that by simp
  have b: "skips_primary (length (show_bracket 2 b)) (show_bracket 2 b) rest" if "op_follows rest" for rest
    using Both.IH(2) Both.prems that by simp
  have h: "skips_and (length ?ws) (Suc (conjuncts a)) ?ws rest" if "op_follows rest" for rest
  proof (rule skips_both)
    show "skips_and (length ?ws) (conjuncts a) (show_bracket 1 a) (''&&'' # show_bracket 2 b @ rest)"
      by (rule skips_and_less [OF a]) simp_all
    show "skips_primary (length ?ws) (show_bracket 2 b) rest"
      by (rule skips_primary_less [OF b [OF that]]) simp
  qed
  have o: "skips_or (length ?ws) 0 ?ws rest" if "op_follows rest" "\<not> test_word ''&&'' rest" for rest
    by (rule skips_and_or [OF h [OF that(1)] that(2)]) (use show_words(1) [of a "''&&''" "''||''" "\<lambda>ws. ws"] in simp)
  then have "skips_primary (length (parens True ?ws)) (parens True ?ws) rest" if "op_follows rest" for rest
    using skips_primary_less [OF skips_group [OF o]] by (simp add: parens_def)
  then show ?case using h o by (simp add: parens_def)
next
  case (Either a b)
  let ?ws = "show_bracket 0 a @ [''||''] @ show_bracket 1 b"
  have a: "skips_or (length (show_bracket 0 a)) (disjuncts a) (show_bracket 0 a) rest"
    if "op_follows rest" "\<not> test_word ''&&'' rest" for rest
    using Either.IH(1) Either.prems that by simp
  have b: "skips_and (length (show_bracket 1 b)) (conjuncts b) (show_bracket 1 b) rest" if "op_follows rest" for rest
    using Either.IH(2) Either.prems that by simp
  have o: "skips_or (length ?ws) (Suc (disjuncts a)) ?ws rest" if "op_follows rest" "\<not> test_word ''&&'' rest" for rest
  proof (rule skips_either [where i = "conjuncts b"])
    show "skips_or (length ?ws) (disjuncts a) (show_bracket 0 a) (''||'' # show_bracket 1 b @ rest)"
      by (rule skips_or_less [OF a]) simp_all
    show "skips_and (length ?ws) (conjuncts b) (show_bracket 1 b) rest"
      by (rule skips_and_less [OF b [OF that(1)]]) simp
    show "conjuncts b \<le> length ?ws" using show_words(1) [of b "''&&''" "''||''" "\<lambda>ws. ws"] by simp
  qed (rule that)
  have d: "Suc (disjuncts a) \<le> length ?ws" using show_words(2) [of a "''&&''" "''||''" "\<lambda>ws. ws"] by simp
  have p: "skips_primary (length (parens True ?ws)) (parens True ?ws) rest" if "op_follows rest" for rest
    using skips_primary_less [OF skips_group [OF o d]] by (simp add: parens_def)
  then show ?case using o skips_primary_and by (simp add: parens_def)
qed


subsection \<open>Primaries\<close>

text \<open>The shell after a primary and its value, \<open>None\<close> when it is in error.\<close>

definition bracket_value ::
  "('f, 'w) bracket_env \<Rightarrow> ('f, 'w) exec_shell \<Rightarrow> string list \<Rightarrow> (('f, 'w) exec_shell \<times> bool) option" where
  "bracket_value be shell ws =
     (case double_bracket_primary_eval be ws (shell, []) of
        Some (r, s, _) \<Rightarrow> if r = 2 then None else Some (s, r = 0)
      | None \<Rightarrow> None)"

lemma test_primary_value:
  "test_primary te ev ws [] = Some (r, e) \<Longrightarrow> ws \<noteq> [] \<Longrightarrow> hd ws \<noteq> ''!'' \<Longrightarrow> r \<noteq> 2 \<Longrightarrow>
   test_primary te ev ws err = Some (r, err) \<and> r = truth_status (r = 0)"
  by (auto simp: test_primary_def truth_status_def split: list.splits option.splits sum.splits)

lemma match_glob_01: "double_bracket_match_glob be t p = truth_status (double_bracket_match_glob be t p = 0)"
  by (simp add: double_bracket_match_glob_def)

lemma regex_value:
  "regex_test be t p (shell, []) = (r, s, e) \<Longrightarrow> r \<noteq> 2 \<Longrightarrow> regex_test be t p (shell, err) = (r, s, err) \<and> r = truth_status (r = 0)"
  by (auto simp: regex_test_def Let_def truth_status_def split: regex_result.splits prod.splits option.splits)

lemma primary_value:
  assumes "bracket_value be shell ws = Some (shell', b)" and "bracket_prim_ok ws"
  shows "double_bracket_primary_eval be ws (shell, err) = Some (truth_status b, shell', err)"
proof -
  have ws: "ws \<noteq> []" "hd ws \<noteq> ''!''" using assms(2) by (simp_all add: bracket_prim_ok_def)
  obtain r e where r: "double_bracket_primary_eval be ws (shell, []) = Some (r, shell', e)" "r \<noteq> 2" "b \<longleftrightarrow> r = 0"
    using assms(1) by (auto simp: bracket_value_def split: option.splits if_splits)
  let ?eq = "length ws = 3 \<and> (ws ! 1 = ''=='' \<or> ws ! 1 = ''='')" and ?ne = "length ws = 3 \<and> ws ! 1 = ''!=''"
    and ?re = "length ws = 3 \<and> ws ! 1 = ''=~''"
  consider ?eq | "\<not> ?eq" ?ne | "\<not> ?eq" "\<not> ?ne" ?re | "\<not> ?eq" "\<not> ?ne" "\<not> ?re" by blast
  then show ?thesis
  proof cases
    case 1
    then show ?thesis using r match_glob_01 [of be "ws ! 0" "ws ! 2"] by (simp add: double_bracket_primary_eval_def Let_def)
  next
    case 2
    then show ?thesis using r by (auto simp: double_bracket_primary_eval_def Let_def)
  next
    case 3
    then have "regex_test be (ws ! 0) (ws ! 2) (shell, []) = (r, shell', e)"
      using r(1) by (simp add: double_bracket_primary_eval_def Let_def)
    from regex_value [OF this r(2), of err] show ?thesis
      using 3 r(3) by (simp add: double_bracket_primary_eval_def Let_def)
  next
    case 4
    then have "test_primary (be_test be) (test_eval (be_test be)) ws [] = Some (r, e)" "shell' = clear_bash_rematch be shell"
      using r(1) by (auto simp: double_bracket_primary_eval_def Let_def bind_eq_Some_conv)
    with test_primary_value [OF this(1) ws r(2), of err] show ?thesis
      using 4 r(3) by (auto simp: double_bracket_primary_eval_def Let_def)
  qed
qed

lemma collect_plain:
  "list_all plain_word ws \<Longrightarrow> op_follows rest \<Longrightarrow> length prim + length ws \<le> 16 \<Longrightarrow>
   collect_bracket_primary 0 prim (ws @ rest) = (prim @ ws, rest)"
proof (induction ws arbitrary: prim)
  case Nil
  then show ?case by (cases rest) (simp_all add: ends_primary_follows)
qed (simp add: plain_word_inside)

subsection \<open>Evaluation\<close>

text \<open>The words are evaluated from \<open>shell\<close> to \<open>shell'\<close> with value \<open>b\<close>.\<close>

definition evals_not ::
  "('f, 'w) bracket_env \<Rightarrow> nat \<Rightarrow> string list \<Rightarrow> string list \<Rightarrow> ('f, 'w) exec_shell \<Rightarrow> ('f, 'w) exec_shell \<Rightarrow> bool \<Rightarrow> bool" where
  "evals_not be k ws rest shell shell' b \<longleftrightarrow>
     (\<forall>n err. k < n \<longrightarrow>
       double_bracket_eval_not n be (ws @ rest) (shell, err) = Some (truth_status b, (shell', err), rest))"

definition and_loop :: "('f, 'w) bracket_env \<Rightarrow> nat \<Rightarrow> nat \<Rightarrow> bool \<times> int \<Rightarrow> ('f, 'w) db_operand" where
  "and_loop be n m =
     chain_rest m ''&&'' fst (next_operand (\<lambda>r. r \<noteq> 0) (double_bracket_skip_primary n) (double_bracket_eval_not n be))"

definition evals_and ::
  "('f, 'w) bracket_env \<Rightarrow> nat \<Rightarrow> nat \<Rightarrow> string list \<Rightarrow> string list \<Rightarrow> ('f, 'w) exec_shell \<Rightarrow> ('f, 'w) exec_shell \<Rightarrow> bool \<Rightarrow> bool" where
  "evals_and be k j ws rest shell shell' b \<longleftrightarrow>
     (\<forall>n err. k < n \<longrightarrow> j < n \<longrightarrow>
       double_bracket_eval_and n (double_bracket_eval_not n be) (ws @ rest) (shell, err) =
       status_of (\<lambda>args st. and_loop be n (n - j) (False, truth_status b) args st) rest (shell', err))"

definition or_loop :: "('f, 'w) bracket_env \<Rightarrow> nat \<Rightarrow> nat \<Rightarrow> bool \<times> int \<Rightarrow> ('f, 'w) db_operand" where
  "or_loop be n m =
     chain_rest m ''||'' fst (next_operand (\<lambda>r. r = 0) (double_bracket_skip_and n (double_bracket_skip_primary n))
       (double_bracket_eval_and n (double_bracket_eval_not n be)))"

definition evals_or ::
  "('f, 'w) bracket_env \<Rightarrow> nat \<Rightarrow> nat \<Rightarrow> string list \<Rightarrow> string list \<Rightarrow> ('f, 'w) exec_shell \<Rightarrow> ('f, 'w) exec_shell \<Rightarrow> bool \<Rightarrow> bool" where
  "evals_or be k j ws rest shell shell' b \<longleftrightarrow>
     (\<forall>n err. k < n \<longrightarrow> j < n \<longrightarrow>
       double_bracket_eval_or n (double_bracket_eval_not n be) (ws @ rest) (shell, err) =
       status_of (\<lambda>args st. or_loop be n (n - j) (False, truth_status b) args st) rest (shell', err))"


lemma evals_and_end:
  "evals_and be k j ws rest s s' b \<Longrightarrow> \<not> test_word ''&&'' rest \<Longrightarrow> k < n \<Longrightarrow> j < n \<Longrightarrow>
   double_bracket_eval_and n (double_bracket_eval_not n be) (ws @ rest) (s, err) = Some (truth_status b, (s', err), rest)"
  by (simp add: evals_and_def and_loop_def status_of_def chain_rest_ends)

lemma evals_or_end:
  "evals_or be k j ws rest s s' b \<Longrightarrow> \<not> test_word ''||'' rest \<Longrightarrow> k < n \<Longrightarrow> j < n \<Longrightarrow>
   double_bracket_eval_or n (double_bracket_eval_not n be) (ws @ rest) (s, err) = Some (truth_status b, (s', err), rest)"
  by (simp add: evals_or_def or_loop_def status_of_def chain_rest_ends)

lemma truth_status_not_2 [simp]: "truth_status b \<noteq> 2"
  by (simp add: truth_status_def)

lemma evals_not_and: "evals_not be k ws rest s s' b \<Longrightarrow> evals_and be k 0 ws rest s s' b"
  by (simp add: evals_not_def evals_and_def double_bracket_eval_and_def chain_def first_operand_def status_of_def and_loop_def)

lemma evals_and_or:
  "evals_and be k j ws rest s s' b \<Longrightarrow> \<not> test_word ''&&'' rest \<Longrightarrow> j \<le> k \<Longrightarrow> evals_or be k 0 ws rest s s' b"
  using evals_and_end [of be k j ws rest s s' b]
  by (simp add: evals_or_def double_bracket_eval_or_def Let_def chain_def first_operand_def status_of_def or_loop_def)

lemma evals_both:
  assumes "evals_and be k j wa (''&&'' # wb @ rest) s s1 x"
    and "if x then evals_not be k wb rest s1 s2 y else skips_primary k wb rest \<and> s2 = s1 \<and> y = False"
  shows "evals_and be k (Suc j) (wa @ [''&&''] @ wb) rest s s2 y"
  unfolding evals_and_def
proof (intro allI impI)
  fix n err assume n: "k < n" and m: "Suc j < n"
  have nj: "n - j = Suc (n - Suc j)" using m by simp
  show "double_bracket_eval_and n (double_bracket_eval_not n be) ((wa @ [''&&''] @ wb) @ rest) (s, err) =
      status_of (\<lambda>args st. and_loop be n (n - Suc j) (False, truth_status y) args st) rest (s2, err)"
  proof (cases x)
    case True
    then show ?thesis
      using assms n m nj by (simp add: evals_and_def and_loop_def status_of_def next_operand_def evals_not_def)
  next
    case False
    then show ?thesis
      using assms n m nj by (simp add: evals_and_def and_loop_def status_of_def next_operand_def skips_primary_def)
  qed
qed

lemma evals_either:
  assumes "evals_or be k j wa (''||'' # wb @ rest) s s1 x" and "\<not> test_word ''&&'' rest" and "i \<le> k"
    and "if x then skips_and k i wb rest \<and> s2 = s1 \<and> y = True else evals_and be k i wb rest s1 s2 y"
  shows "evals_or be k (Suc j) (wa @ [''||''] @ wb) rest s s2 y"
  unfolding evals_or_def
proof (intro allI impI)
  fix n err assume n: "k < n" and m: "Suc j < n"
  have nj: "n - j = Suc (n - Suc j)" and i: "i < n" using m n assms(3) by simp_all
  show "double_bracket_eval_or n (double_bracket_eval_not n be) ((wa @ [''||''] @ wb) @ rest) (s, err) =
      status_of (\<lambda>args st. or_loop be n (n - Suc j) (False, truth_status y) args st) rest (s2, err)"
  proof (cases x)
    case True
    then have "double_bracket_skip_and n (double_bracket_skip_primary n) (wb @ rest) err = Some (True, err, rest)"
      using assms(4) skips_and_end [OF _ assms(2) n i] by simp
    then show ?thesis
      using assms(1,4) True n m nj by (simp add: evals_or_def or_loop_def status_of_def next_operand_def)
  next
    case False
    then have "double_bracket_eval_and n (double_bracket_eval_not n be) (wb @ rest) (s1, err) =
        Some (truth_status y, (s2, err), rest)"
      using assms(4) evals_and_end [OF _ assms(2) n i] by simp
    then show ?thesis
      using assms(1) False n m nj by (simp add: evals_or_def or_loop_def status_of_def next_operand_def)
  qed
qed

lemma evals_neg: "evals_not be k ws rest s s' b \<Longrightarrow> evals_not be (Suc k) (''!'' # ws) rest s s' (\<not> b)"
  unfolding evals_not_def
proof (intro allI impI)
  fix n err
  assume *: "\<forall>n err. k < n \<longrightarrow> double_bracket_eval_not n be (ws @ rest) (s, err) = Some (truth_status b, (s', err), rest)"
    "Suc k < n"
  then obtain m where "n = Suc m" "k < m" by (cases n) auto
  then show "double_bracket_eval_not n be ((''!'' # ws) @ rest) (s, err) = Some (truth_status (\<not> b), (s', err), rest)"
    using *(1) by (simp add: bracket_step_def)
qed

lemma evals_group:
  assumes "evals_or be k j ws ('')'' # rest) s s' b" and "j \<le> k"
  shows "evals_not be (Suc k) ([''(''] @ ws @ ['')'']) rest s s' b"
  unfolding evals_not_def
proof (intro allI impI)
  fix n err assume "Suc k < n"
  then obtain m where m: "n = Suc m" "k < m" "j < m" using assms(2) by (cases n) auto
  then show "double_bracket_eval_not n be (([''(''] @ ws @ ['')'']) @ rest) (s, err) = Some (truth_status b, (s', err), rest)"
    using evals_or_end [OF assms(1) _ m(2,3)] by (simp add: bracket_step_def)
qed

lemma evals_prim:
  assumes "bracket_value be s ws = Some (s', b)" and "bracket_prim_ok ws" and "op_follows rest"
  shows "evals_not be (length ws) ws rest s s' b"
  unfolding evals_not_def
proof (intro allI impI)
  fix n err assume "length ws < n"
  then obtain m where n: "n = Suc m" by (cases n) auto
  have ws: "ws \<noteq> []" "hd ws \<noteq> ''!''" "hd ws \<noteq> ''(''" "list_all plain_word ws" "length ws \<le> 16"
    using assms(2) by (auto simp: bracket_prim_ok_def list_all_iff plain_word_def)
  have "collect_bracket_primary 0 [] (ws @ rest) = (ws, rest)"
    using collect_plain [of ws rest "[]"] ws assms(3) by simp
  then show "double_bracket_eval_not n be (ws @ rest) (s, err) = Some (truth_status b, (s', err), rest)"
    using ws primary_value [OF assms(1,2)] by (simp add: n bracket_step_def test_word_def)
qed

lemma evals_less:
  "evals_not be k ws rest s s' b \<Longrightarrow> k \<le> l \<Longrightarrow> evals_not be l ws rest s s' b"
  "evals_and be k j ws rest s s' b \<Longrightarrow> k \<le> l \<Longrightarrow> evals_and be l j ws rest s s' b"
  "evals_or be k j ws rest s s' b \<Longrightarrow> k \<le> l \<Longrightarrow> evals_or be l j ws rest s s' b"
  by (simp_all add: evals_not_def evals_and_def evals_or_def)


lemma conjuncts_less: "conjuncts c \<le> length (show_bracket 1 c)" "disjuncts c \<le> length (show_bracket 0 c)"
  by (rule show_words)+

lemma printed_cond_evals:
  assumes "\<forall>ws \<in> set (primaries c). bracket_prim_ok ws" and "lazy_cond (bracket_value be) s c = Some (s', b)"
  shows "(\<forall>rest. op_follows rest \<longrightarrow> evals_not be (length (show_bracket 2 c)) (show_bracket 2 c) rest s s' b) \<and>
    (\<forall>rest. op_follows rest \<longrightarrow> evals_and be (length (show_bracket 1 c)) (conjuncts c) (show_bracket 1 c) rest s s' b) \<and>
    (\<forall>rest. op_follows rest \<longrightarrow> \<not> test_word ''&&'' rest \<longrightarrow>
       evals_or be (length (show_bracket 0 c)) (disjuncts c) (show_bracket 0 c) rest s s' b)"
  using assms
proof (induction c arbitrary: s s' b)
  case (Prim ws)
  then have p: "evals_not be (length ws) ws rest s s' b" if "op_follows rest" for rest
    using evals_prim that by simp
  have "evals_or be (length ws) 0 ws rest s s' b" if "op_follows rest" "\<not> test_word ''&&'' rest" for rest
    by (rule evals_and_or [OF evals_not_and [OF p [OF that(1)]] that(2)]) simp
  then show ?case using p evals_not_and [OF p] by simp
next
  case (Neg c)
  then obtain x where x: "lazy_cond (bracket_value be) s c = Some (s', x)" "b = (\<not> x)" by auto
  have "evals_not be (length (show_bracket 2 c)) (show_bracket 2 c) rest s s' x" if "op_follows rest" for rest
    using Neg.IH [OF _ x(1)] Neg.prems(1) that by simp
  then have p: "evals_not be (Suc (length (show_bracket 2 c))) (''!'' # show_bracket 2 c) rest s s' b" if "op_follows rest" for rest
    using evals_neg x(2) that by blast
  have "evals_or be (Suc (length (show_bracket 2 c))) 0 (''!'' # show_bracket 2 c) rest s s' b"
    if "op_follows rest" "\<not> test_word ''&&'' rest" for rest
    by (rule evals_and_or [OF evals_not_and [OF p [OF that(1)]] that(2)]) simp
  then show ?case using p evals_not_and [OF p] by simp
next
  case (Both c d)
  let ?ws = "show_bracket 1 c @ [''&&''] @ show_bracket 2 d"
  obtain s1 x where x: "lazy_cond (bracket_value be) s c = Some (s1, x)"
    and y: "if x then lazy_cond (bracket_value be) s1 d = Some (s', b) else s' = s1 \<and> b = False"
    using Both.prems(2) by (auto split: option.splits if_splits)
  have oks: "\<forall>ws \<in> set (primaries c). bracket_prim_ok ws" "\<forall>ws \<in> set (primaries d). bracket_prim_ok ws"
    using Both.prems(1) by simp_all
  have h: "evals_and be (length ?ws) (Suc (conjuncts c)) ?ws rest s s' b" if "op_follows rest" for rest
  proof (rule evals_both)
    show "evals_and be (length ?ws) (conjuncts c) (show_bracket 1 c) (''&&'' # show_bracket 2 d @ rest) s s1 x"
      by (rule evals_less(2) [of _ "length (show_bracket 1 c)"]) (use Both.IH(1) [OF oks(1) x] in simp_all)
    show "if x then evals_not be (length ?ws) (show_bracket 2 d) rest s1 s' b
        else skips_primary (length ?ws) (show_bracket 2 d) rest \<and> s' = s1 \<and> b = False"
    proof (cases x)
      case True
      then have "evals_not be (length (show_bracket 2 d)) (show_bracket 2 d) rest s1 s' b"
        using Both.IH(2) [OF oks(2)] y that by simp
      then show ?thesis using True evals_less(1) by fastforce
    next
      case False
      have "skips_primary (length (show_bracket 2 d)) (show_bracket 2 d) rest" using printed_cond_skips [OF oks(2)] that by simp
      then show ?thesis using False y skips_primary_less by fastforce
    qed
  qed
  have o: "evals_or be (length ?ws) 0 ?ws rest s s' b" if "op_follows rest" "\<not> test_word ''&&'' rest" for rest
    by (rule evals_and_or [OF h [OF that(1)] that(2)]) (use conjuncts_less(1) [of c] in simp)
  then have "evals_not be (length (parens True ?ws)) (parens True ?ws) rest s s' b" if "op_follows rest" for rest
    using evals_less(1) [OF evals_group [OF o]] by (simp add: parens_def)
  then show ?case using h o by (simp add: parens_def)
next
  case (Either c d)
  let ?ws = "show_bracket 0 c @ [''||''] @ show_bracket 1 d"
  obtain s1 x where x: "lazy_cond (bracket_value be) s c = Some (s1, x)"
    and y: "if x then s' = s1 \<and> b = True else lazy_cond (bracket_value be) s1 d = Some (s', b)"
    using Either.prems(2) by (auto split: option.splits if_splits)
  have oks: "\<forall>ws \<in> set (primaries c). bracket_prim_ok ws" "\<forall>ws \<in> set (primaries d). bracket_prim_ok ws"
    using Either.prems(1) by simp_all
  have o: "evals_or be (length ?ws) (Suc (disjuncts c)) ?ws rest s s' b" if "op_follows rest" "\<not> test_word ''&&'' rest" for rest
  proof (rule evals_either [where i = "conjuncts d"])
    show "evals_or be (length ?ws) (disjuncts c) (show_bracket 0 c) (''||'' # show_bracket 1 d @ rest) s s1 x"
      by (rule evals_less(3) [of _ "length (show_bracket 0 c)"]) (use Either.IH(1) [OF oks(1) x] in simp_all)
    show "conjuncts d \<le> length ?ws" using conjuncts_less(1) [of d] by simp
    show "if x then skips_and (length ?ws) (conjuncts d) (show_bracket 1 d) rest \<and> s' = s1 \<and> b = True
        else evals_and be (length ?ws) (conjuncts d) (show_bracket 1 d) rest s1 s' b"
    proof (cases x)
      case True
      have "skips_and (length (show_bracket 1 d)) (conjuncts d) (show_bracket 1 d) rest" using printed_cond_skips [OF oks(2)] that by simp
      then show ?thesis using True y skips_and_less by fastforce
    next
      case False
      then have "evals_and be (length (show_bracket 1 d)) (conjuncts d) (show_bracket 1 d) rest s1 s' b"
        using Either.IH(2) [OF oks(2)] y that by simp
      then show ?thesis using False evals_less(2) by fastforce
    qed
  qed (rule that)
  have d: "Suc (disjuncts c) \<le> length ?ws" using conjuncts_less(2) [of c] by simp
  have p: "evals_not be (length (parens True ?ws)) (parens True ?ws) rest s s' b" if "op_follows rest" for rest
    using evals_less(1) [OF evals_group [OF o d]] by (simp add: parens_def)
  then show ?case using o evals_not_and [OF p] by (simp add: parens_def)
qed

subsection \<open>The command\<close>

text \<open>
  (C17) \<open>[[\<close> evaluates conditions lazily: for a tree of negations, conjunctions and disjunctions over
  primaries whose words are not the grammar's own, when no primary that is evaluated is in error, the
  words printed with the fewest parentheses give status 0 when the tree is true and 1 when it is
  false, and leave the shell as the primaries that are evaluated leave it one after the other: the
  second operand of \<open>&&\<close> after a false one and of \<open>||\<close> after a true one is skipped with all its words.
\<close>

theorem bracket_evaluates_lazily:
  assumes "\<forall>ws \<in> set (primaries c). bracket_prim_ok ws"
    and "lazy_cond (bracket_value be) shell c = Some (shell', b)"
  shows "command_double_lbracket be shell (''[['' # show_bracket 0 c @ ['']]'']) = Some (shell', [], truth_status b)"
proof -
  have e: "evals_or be (length (show_bracket 0 c)) (disjuncts c) (show_bracket 0 c) [] shell shell' b"
    using printed_cond_evals [OF assms] by simp
  have "disjuncts c < length (show_bracket 0 c) + 1" using conjuncts_less(2) [of c] by simp
  from evals_or_end [OF e _ _ this] show ?thesis
    using prims_words [OF assms(1)] by (simp add: command_double_lbracket_def Let_def)
qed


text \<open>A matcher for patterns without special characters and for literal regular expressions.\<close>

definition literal_regex :: "string \<Rightarrow> string \<Rightarrow> regex_result" where
  "literal_regex pattern t =
     (case filter (\<lambda>j. next_is pattern (drop j t)) [0..<Suc (length t)] of
        [] \<Rightarrow> Regex_no_match
      | j # _ \<Rightarrow> Regex_match [(int j, int (j + length pattern))])"

definition literal_env :: "(unit, unit) bracket_env" where
  "literal_env =
     \<lparr>be_test = empty_system, be_mem = plenty, be_fnmatch = (=), be_regex = literal_regex, be_list_ok = \<lambda>cs. True,
      be_unset_binding = \<lambda>s name. s, be_set_binding = \<lambda>s name v. (s, True)\<rparr>"

lemma clear_literal: "clear_bash_rematch literal_env s = snd (set_rematch_var literal_env s [])"
  by (simp add: clear_bash_rematch_def literal_env_def)

theorem bracket_evaluates_lazily_witness:
  "\<exists>s. command_double_lbracket literal_env start_shell
     [''[['', ''a'', ''='', ''b'', ''&&'', ''x'', ''-lt'', ''y'', ''||'', ''a'', ''!='', ''b'', '']]''] = Some (s, [], 0)"
proof -
  let ?c = "Either (Both (Prim [''a'', ''='', ''b'']) (Prim [''x'', ''-lt'', ''y''])) (Prim [''a'', ''!='', ''b''])"
  have ok: "\<forall>ws \<in> set (primaries ?c). bracket_prim_ok ws" by (simp add: bracket_prim_ok_def plain_word_def)
  have "bracket_value literal_env s [''a'', ''='', ''b''] = Some (clear_bash_rematch literal_env s, False)"
    "bracket_value literal_env s [''a'', ''!='', ''b''] = Some (clear_bash_rematch literal_env s, True)" for s
    by (simp_all add: bracket_value_def double_bracket_primary_eval_def double_bracket_match_glob_def truth_status_def
        literal_env_def)
  then have v: "lazy_cond (bracket_value literal_env) start_shell ?c =
      Some (clear_bash_rematch literal_env (clear_bash_rematch literal_env start_shell), True)"
    by simp
  from bracket_evaluates_lazily [OF ok v] show ?thesis by (auto simp: parens_def truth_status_def)
qed

lemma bracket_chain_error:
  assumes "bracket_prim_ok p" and "bracket_prim_ok q" and "bracket_prim_ok r"
    and "bracket_value be s p = Some (s1, False)"
    and "double_bracket_primary_eval be q (s1, []) = Some (2, s2, m)"
    and "double_bracket_primary_eval be r (s2, m) = Some (0, s3, m')"
  shows "command_double_lbracket be s (''[['' # p @ ''||'' # q @ ''||'' # r @ ['']]'']) = Some (s3, m', 0)"
proof -
  let ?ws = "p @ ''||'' # q @ ''||'' # r"
  obtain n where n: "length ?ws + 1 = Suc (Suc (Suc (Suc n)))"
    using assms(1) by (cases p; cases q; cases r) (auto simp: bracket_prim_ok_def)
  have step: "double_bracket_eval_not (Suc m) be (ws @ rest) (s, err) = map_option (\<lambda>(r, st). (r, st, rest)) (double_bracket_primary_eval be ws (s, err))"
    if "bracket_prim_ok ws" "op_follows rest" for m ws rest s err
  proof -
    have ws: "ws \<noteq> []" "hd ws \<noteq> ''!''" "hd ws \<noteq> ''(''" "list_all plain_word ws" "length ws \<le> 16"
      using that(1) by (auto simp: bracket_prim_ok_def list_all_iff plain_word_def)
    have "collect_bracket_primary 0 [] (ws @ rest) = (ws, rest)" using collect_plain [of ws rest "[]"] ws that(2) by simp
    then show ?thesis using ws by (cases "double_bracket_primary_eval be ws (s, err)") (auto simp: bracket_step_def test_word_def)
  qed
  have and_: "double_bracket_eval_and (Suc (Suc m)) (double_bracket_eval_not (Suc k) be) (ws @ rest) (s, err) =
      map_option (\<lambda>(r, st). (r, st, rest)) (double_bracket_primary_eval be ws (s, err))"
    if "bracket_prim_ok ws" "op_follows rest" "\<not> test_word ''&&'' rest" for m k ws rest s err
    using step [OF that(1,2), of k s err] that(3)
    by (cases "double_bracket_primary_eval be ws (s, err)")
       (auto simp: double_bracket_eval_and_def status_of_def chain_def first_operand_def simp del: double_bracket_eval_not.simps)
  have p: "double_bracket_primary_eval be p (s, []) = Some (1, s1, [])"
    using primary_value [OF assms(4,1), of "[]"] by (simp add: truth_status_def)
  let ?and = "double_bracket_eval_and (Suc (Suc (Suc (Suc n)))) (double_bracket_eval_not (Suc (Suc (Suc (Suc n)))) be)"
  have "?and (p @ ''||'' # q @ ''||'' # r) (s, []) = Some (1, (s1, []), ''||'' # q @ ''||'' # r)"
    using and_ [OF assms(1), of "''||'' # q @ ''||'' # r"] p by simp
  moreover have "?and (q @ ''||'' # r) (s1, []) = Some (2, (s2, m), ''||'' # r)"
    using and_ [OF assms(2), of "''||'' # r"] assms(5) by simp
  moreover have "?and r (s2, m) = Some (0, (s3, m'), [])"
    using and_ [OF assms(3), of "[]"] assms(6) by simp
  ultimately have "double_bracket_eval_or (length ?ws + 1) (double_bracket_eval_not (length ?ws + 1) be) ?ws (s, []) =
      Some (0, (s3, m'), [])"
    unfolding n double_bracket_eval_or_def Let_def
    by (simp add: status_of_def chain_def first_operand_def next_operand_def del: double_bracket_eval_not.simps)
  then show ?thesis by (simp add: command_double_lbracket_def Let_def butlast_append)
qed

text \<open>
  (C40) An error in a later alternative of \<open>[[\<close> is lost: after a false alternative, an alternative in
  error and a true one the command has status 0, although the first alternative in error ends it with
  status 2; the message of the error is left in the output.
\<close>

theorem bracket_error_lost:
  assumes "bracket_prim_ok p" and "bracket_prim_ok q" and "bracket_prim_ok r"
    and "bracket_value be s p = Some (s1, False)"
    and "double_bracket_primary_eval be q (s1, []) = Some (2, s2, m)"
    and "double_bracket_primary_eval be r (s2, m) = Some (0, s3, m')"
  shows "command_double_lbracket be s (''[['' # p @ ''||'' # q @ ''||'' # r @ ['']]'']) = Some (s3, m', 0)"
  by (rule bracket_chain_error [OF assms])

theorem bracket_error_lost_witness:
  "\<exists>s. command_double_lbracket literal_env start_shell
     [''[['', ''a'', ''='', ''b'', ''||'', ''x'', ''-lt'', ''1'', ''||'', ''a'', '']]''] =
   Some (s, ''test: integer expression expected: x'', 0)"
proof -
  let ?clear = "clear_bash_rematch literal_env" and ?m = "''test: integer expression expected: x''"
  have "command_double_lbracket literal_env start_shell
      (''[['' # [''a'', ''='', ''b''] @ ''||'' # [''x'', ''-lt'', ''1''] @ ''||'' # [''a''] @ ['']]'']) =
    Some (?clear (?clear (?clear start_shell)), ?m, 0)"
  proof (rule bracket_error_lost)
    show "bracket_value literal_env start_shell [''a'', ''='', ''b''] = Some (?clear start_shell, False)"
      by (simp add: bracket_value_def double_bracket_primary_eval_def double_bracket_match_glob_def truth_status_def literal_env_def)
    have "binary_test empty_system ''x'' ''-lt'' ''1'' = Inl ?m" by code_simp
    then show "double_bracket_primary_eval literal_env [''x'', ''-lt'', ''1''] (?clear start_shell, []) =
        Some (2, ?clear (?clear start_shell), ?m)"
      by (simp add: double_bracket_primary_eval_def test_primary_def literal_env_def Let_def)
    show "double_bracket_primary_eval literal_env [''a''] (?clear (?clear start_shell), ?m) =
        Some (0, ?clear (?clear (?clear start_shell)), ?m)"
      by (simp add: double_bracket_primary_eval_def test_primary_def truth_status_def Let_def)
  qed (simp_all add: bracket_prim_ok_def plain_word_def)
  then show ?thesis by auto
qed

text \<open>
  (C27) The conditional commands always answer: for any arguments \<open>test\<close>, \<open>[\<close> and \<open>[[\<close> return an output
  and a status; the bounds of the evaluators are enough for every nesting and every chain.
\<close>

theorem conditional_commands_answer:
  "(\<exists>r. command_test te argv = Some r) \<and> (\<exists>r. command_lbracket te argv = Some r) \<and>
   (\<exists>shell' out status. command_double_lbracket be shell argv = Some (shell', out, status))"
proof -
  have t: "\<exists>r. command_test te argv = Some r" for argv
    using test_eval_total [of te "tl argv" "[]"] by (auto simp: command_test_def)
  then have "\<exists>r. command_lbracket te argv = Some r" unfolding command_lbracket_def by (cases "length argv < 2 \<or> last argv \<noteq> '']''") auto
  then show ?thesis using t command_double_lbracket_total by blast
qed

end
