(* ===== verification/Object_Values.thy ===== *)
theory Object_Values
  imports Text_Codecs "HOL-Library.Monad_Syntax"
begin

text \<open>
  The values of \<^verbatim>\<open>src/object.c\<close>: strings, numbers of several kinds, booleans, file system objects, blocks,
  lists, maps, dictionaries, classes, instances and matrices; lists and maps with their operations,
  paths into nested values, and JSON.  A copy of a value is the value itself; memory allocation
  succeeds.  Numbers are a parameter type, and \<open>number_format\<close> holds the conversions of the C library.
\<close>

record 'd number_format =
  nf_text :: "'d \<Rightarrow> string"
  nf_float :: "'d \<Rightarrow> string"
  nf_long :: "'d \<Rightarrow> string"
  nf_special :: "'d \<Rightarrow> bool"
  nf_int :: "'d \<Rightarrow> int"
  nf_read :: "string \<Rightarrow> 'd \<times> string"

subsection \<open>Values\<close>

datatype object_kind = Object_unknown | Object_path | Object_file | Object_directory | Object_device | Object_mount_point

datatype sobject = Sobject
  (ob_kind: object_kind) (ob_path: string) (ob_name: string) (ob_exists: bool) (ob_size: nat)
  (ob_permissions: nat) (ob_hidden: bool) (ob_readable: bool) (ob_writable: bool)

datatype vblock = Vblock (vb_params: "string list") (vb_body: string) (vb_source: string)

datatype value_kind =
    Kind_empty | Kind_string | Kind_number | Kind_boolean | Kind_object | Kind_block | Kind_list | Kind_map
  | Kind_class | Kind_instance | Kind_integer | Kind_float | Kind_double | Kind_imaginary | Kind_dict | Kind_matrix

datatype 'd matrix_cell =
  Cell (mc_kind: value_kind) (mc_text: string) (mc_number: 'd) (mc_boolean: bool)

datatype 'd matrix = Matrix (mx_cols: "string list") (mx_rows: "'d matrix_cell list list")

datatype 'd svalue =
    V_empty
  | V_string string
  | V_number 'd
  | V_bool bool
  | V_object sobject
  | V_block vblock
  | V_list "'d svalue list"
  | V_map "(string \<times> 'd svalue) list"
  | V_class string
  | V_instance string 'd
  | V_integer 'd
  | V_float 'd
  | V_double 'd
  | V_imaginary 'd
  | V_dict "(string \<times> 'd svalue) list"
  | V_matrix "'d matrix option"

text \<open>What an item of a list or a map keeps of a value: a matrix loses its contents.\<close>

definition arksh_value_item_set_from_value :: "'d svalue \<Rightarrow> 'd svalue" where
  "arksh_value_item_set_from_value v = (case v of V_matrix _ \<Rightarrow> V_matrix None | _ \<Rightarrow> v)"

definition arksh_value_list_append_value :: "'d svalue \<Rightarrow> 'd svalue \<Rightarrow> 'd svalue option" where
  "arksh_value_list_append_value v x =
     (let item = arksh_value_item_set_from_value x in
      case v of
        V_empty \<Rightarrow> Some (V_list [item])
      | V_list xs \<Rightarrow> Some (V_list (xs @ [item]))
      | _ \<Rightarrow> None)"

fun entries_of :: "'d svalue \<Rightarrow> (string \<times> 'd svalue) list option" where
  "entries_of (V_map es) = Some es"
| "entries_of (V_dict es) = Some es"
| "entries_of _ = None"

definition value_is_map_like :: "'d svalue \<Rightarrow> bool" where
  "value_is_map_like v \<longleftrightarrow> entries_of v \<noteq> None"

text \<open>The first entry of the key is replaced, or an entry is added with a key cut to its array.\<close>

fun entry_set :: "(string \<times> 'v) list \<Rightarrow> string \<Rightarrow> 'v \<Rightarrow> (string \<times> 'v) list" where
  "entry_set [] key x = [(copy_string max_name key, x)]"
| "entry_set ((k, y) # es) key x = (if k = key then (k, x) # es else (k, y) # entry_set es key x)"

definition arksh_value_map_set :: "'d svalue \<Rightarrow> string \<Rightarrow> 'd svalue \<Rightarrow> 'd svalue option" where
  "arksh_value_map_set v key x =
     (if key = [] then None
      else
        (let item = arksh_value_item_set_from_value x in
         case v of
           V_empty \<Rightarrow> Some (V_map (entry_set [] key item))
         | V_map es \<Rightarrow> Some (V_map (entry_set es key item))
         | V_dict es \<Rightarrow> Some (V_dict (entry_set es key item))
         | _ \<Rightarrow> None))"

definition arksh_value_map_get_item :: "'d svalue \<Rightarrow> string \<Rightarrow> 'd svalue option" where
  "arksh_value_map_get_item v key = (case entries_of v of None \<Rightarrow> None | Some es \<Rightarrow> map_of es key)"

subsection \<open>Selecting and merging entries\<close>

datatype map_error = Pick_kind | Pick_type_tag | Pick_key string | Merge_kind | Merge_key string

definition empty_like :: "'d svalue \<Rightarrow> 'd svalue" where
  "empty_like v = (case v of V_dict _ \<Rightarrow> V_dict [] | _ \<Rightarrow> V_map [])"

fun pick_loop :: "'d svalue \<Rightarrow> string list \<Rightarrow> 'd svalue \<Rightarrow> map_error + 'd svalue" where
  "pick_loop v [] out = Inr out"
| "pick_loop v (k # ks) out =
     (case arksh_value_map_get_item v k of
        None \<Rightarrow> pick_loop v ks out
      | Some x \<Rightarrow>
          (case arksh_value_map_set out k x of
             None \<Rightarrow> Inl (Pick_key k)
           | Some out1 \<Rightarrow> pick_loop v ks out1))"

definition type_key :: string where
  "type_key = ''__type__''"

definition arksh_value_pick :: "'d svalue \<Rightarrow> string list \<Rightarrow> map_error + 'd svalue" where
  "arksh_value_pick v keys =
     (if \<not> value_is_map_like v then Inl Pick_kind
      else
        (case (case v of V_map _ \<Rightarrow> arksh_value_map_get_item v type_key | _ \<Rightarrow> None) of
           None \<Rightarrow> pick_loop v keys (empty_like v)
         | Some t \<Rightarrow>
             (case arksh_value_map_set (empty_like v) type_key t of
                None \<Rightarrow> Inl Pick_type_tag
              | Some out \<Rightarrow> pick_loop v keys out)))"

fun merge_loop :: "(string \<times> 'd svalue) list \<Rightarrow> 'd svalue \<Rightarrow> map_error + 'd svalue" where
  "merge_loop [] out = Inr out"
| "merge_loop ((k, x) # es) out =
     (case arksh_value_map_set out k x of None \<Rightarrow> Inl (Merge_key k) | Some out1 \<Rightarrow> merge_loop es out1)"

definition arksh_value_merge :: "'d svalue \<Rightarrow> 'd svalue \<Rightarrow> map_error + 'd svalue" where
  "arksh_value_merge left right =
     (if \<not> value_is_map_like left then Inl Merge_kind
      else (case entries_of right of None \<Rightarrow> Inl Merge_kind | Some es \<Rightarrow> merge_loop es left))"

subsection \<open>Paths\<close>

datatype path_error =
    Path_too_deep
  | Segment_too_long
  | Unterminated_index
  | Empty_index
  | Empty_path
  | Not_a_map
  | No_auto_list string
  | Map_update
  | Index_expected string
  | Index_out_of_range string
  | Cannot_descend

definition max_value_path_segments :: nat where
  "max_value_path_segments = 128"

text \<open>A segment is its text and whether it is in brackets.\<close>

type_synonym path_segment = "string \<times> bool"

lemma dropWhile_dots_hd: "dropWhile (\<lambda>c. c = d) cs \<noteq> [] \<Longrightarrow> hd (dropWhile (\<lambda>c. c = d) cs) \<noteq> d"
  by (induction cs) auto

function path_loop :: "path_segment list \<Rightarrow> string \<Rightarrow> path_error + path_segment list" where
  "path_loop acc cs =
     (let cs1 = dropWhile (\<lambda>c. c = CHR ''.'') cs in
      if cs1 = [] then Inr acc
      else if length acc \<ge> max_value_path_segments then Inl Path_too_deep
      else if hd cs1 = CHR ''['' then
        (let body = takeWhile (\<lambda>c. c \<noteq> CHR '']'') (tl cs1); rest = dropWhile (\<lambda>c. c \<noteq> CHR '']'') (tl cs1) in
         if length body \<ge> max_name then Inl Segment_too_long
         else if rest = [] then Inl Unterminated_index
         else if body = [] then Inl Empty_index
         else path_loop (acc @ [(body, True)]) (tl rest))
      else
        (let in_segment = (\<lambda>c. c \<noteq> CHR ''.'' \<and> c \<noteq> CHR ''[''); body = takeWhile in_segment cs1 in
         if length body \<ge> max_name then Inl Segment_too_long
         else path_loop (acc @ [(body, False)]) (dropWhile in_segment cs1)))"
  by pat_completeness auto

termination
proof (relation "measure (\<lambda>(acc, cs). length cs)", goal_cases)
  case (2 acc cs cs1 body rest)
  have "length rest \<le> length (tl cs1)" unfolding 2(6) by (rule length_dropWhile_le)
  moreover have "length (tl cs1) < length cs1" using 2(2) by simp
  moreover have "length cs1 \<le> length cs" unfolding 2(1) by (rule length_dropWhile_le)
  ultimately show ?case by simp
next
  case (3 acc cs cs1 in_segment body)
  obtain c r where c: "cs1 = c # r" using 3(2) by (meson neq_Nil_conv)
  have "dropWhile (\<lambda>c. c = CHR ''.'') cs \<noteq> []" using 3(1,2) by metis
  then have "hd cs1 \<noteq> CHR ''.''" unfolding 3(1) by (rule dropWhile_dots_hd)
  then have "in_segment c" using 3(4,5) c by simp
  then have "length (dropWhile in_segment cs1) \<le> length r" unfolding c using length_dropWhile_le [of in_segment r] by simp
  moreover have "length cs1 \<le> length cs" unfolding 3(1) by (rule length_dropWhile_le)
  ultimately show ?case using c by simp
qed simp

declare path_loop.simps [simp del]

definition parse_value_path_segments :: "string \<Rightarrow> path_error + path_segment list" where
  "parse_value_path_segments path =
     bind_err (path_loop [] (dropWhile c_isspace path)) (\<lambda>segs. if segs = [] then Inl Empty_path else Inr segs)"

text \<open>The index is computed in \<open>size_t\<close>.\<close>

definition parse_path_index :: "string \<Rightarrow> nat option" where
  "parse_path_index t =
     (if t = [] \<or> \<not> list_all c_isdigit t then None
      else Some (foldl (\<lambda>v c. (v * 10 + (of_char c - 48)) mod 2 ^ 64) 0 t))"

fun get_segments :: "'d svalue \<Rightarrow> path_segment list \<Rightarrow> 'd svalue option" where
  "get_segments current [] = Some current"
| "get_segments current ((t, bracketed) # segs) =
     (case (if value_is_map_like current then arksh_value_map_get_item current t
            else
              (case current of
                 V_list xs \<Rightarrow>
                   (case parse_path_index t of None \<Rightarrow> None | Some i \<Rightarrow> if i \<ge> length xs then None else Some (xs ! i))
               | _ \<Rightarrow> None)) of
        None \<Rightarrow> None
      | Some x \<Rightarrow> get_segments x segs)"

definition arksh_value_get_path :: "'d svalue \<Rightarrow> string \<Rightarrow> path_error + 'd svalue option" where
  "arksh_value_get_path v path = bind_err (parse_value_path_segments path) (\<lambda>segs. Inr (get_segments v segs))"

fun is_dict :: "'d svalue \<Rightarrow> bool" where
  "is_dict (V_dict _) = True"
| "is_dict _ = False"

text \<open>\<open>None\<close> stands for a value that is missing; \<open>dict\<close> is the kind of map to create in its place.\<close>

fun set_path_recursive ::
  "'d svalue option \<Rightarrow> bool \<Rightarrow> path_segment list \<Rightarrow> 'd svalue \<Rightarrow> path_error + 'd svalue" where
  "set_path_recursive current dict [] replacement = Inr replacement"
| "set_path_recursive current dict ((t, bracketed) # segs) replacement =
     (let missing = (current = None \<or> current = Some V_empty) in
      if missing \<and> bracketed then Inl (No_auto_list t)
      else
        (let base = (if missing then (if dict then V_dict [] else V_map []) else the current) in
         if value_is_map_like base then
           bind_err (set_path_recursive (arksh_value_map_get_item base t) (is_dict base) segs replacement) (\<lambda>updated.
             case arksh_value_map_set base t updated of None \<Rightarrow> Inl Map_update | Some v \<Rightarrow> Inr v)
         else
           (case base of
              V_list xs \<Rightarrow>
                (case parse_path_index t of
                   None \<Rightarrow> Inl (Index_expected t)
                 | Some i \<Rightarrow>
                     if i \<ge> length xs then Inl (Index_out_of_range t)
                     else if segs = [] then Inr (V_list (xs[i := arksh_value_item_set_from_value replacement]))
                     else
                       bind_err (set_path_recursive (Some (xs ! i)) False segs replacement) (\<lambda>updated.
                         Inr (V_list (xs[i := arksh_value_item_set_from_value updated]))))
            | _ \<Rightarrow> Inl Cannot_descend)))"

definition arksh_value_set_path :: "'d svalue \<Rightarrow> string \<Rightarrow> 'd svalue \<Rightarrow> path_error + 'd svalue" where
  "arksh_value_set_path v path replacement =
     (if \<not> value_is_map_like v then Inl Not_a_map
      else bind_err (parse_value_path_segments path) (\<lambda>segs. set_path_recursive (Some v) (is_dict v) segs replacement))"

end
