(* ===== verification/Json_Values.thy ===== *)
theory Json_Values
  imports Object_Values
begin

text \<open>
  JSON documents of \<^verbatim>\<open>src/object.c\<close>: writing values into bounded buffers and reading them back.  The
  offset that is added to the message of a reading error is left out.
\<close>

subsection \<open>Numbers\<close>

definition format_number :: "'d number_format \<Rightarrow> nat \<Rightarrow> 'd \<Rightarrow> string" where
  "format_number nf out_size d = copy_string out_size (nf_text nf d)"

definition format_number_json :: "'d number_format \<Rightarrow> nat \<Rightarrow> 'd \<Rightarrow> string" where
  "format_number_json nf out_size d =
     (if nf_special nf d then copy_string out_size ''null'' else format_number nf out_size d)"

definition imaginary_text :: "'d number_format \<Rightarrow> 'd \<Rightarrow> string" where
  "imaginary_text nf d = copy_string 64 (copy_string 64 (nf_text nf d) @ ''i'')"

definition instance_label :: "'d number_format \<Rightarrow> string \<Rightarrow> 'd \<Rightarrow> string" where
  "instance_label nf name d = copy_string max_output (name @ ''#'' @ show_int (nf_int nf d))"

subsection \<open>Writing\<close>

text \<open>The parts are written one after the other into a buffer; \<open>None\<close> when one does not fit.\<close>

fun append_texts :: "nat \<Rightarrow> string \<Rightarrow> string list \<Rightarrow> string option" where
  "append_texts out_size out [] = Some out"
| "append_texts out_size out (t # ts) = do { out1 \<leftarrow> append_text out_size out t; append_texts out_size out1 ts }"

definition cell_json :: "'d number_format \<Rightarrow> 'd matrix_cell \<Rightarrow> string option" where
  "cell_json nf c =
     (case mc_kind c of
        Kind_number \<Rightarrow> Some (format_number_json nf (max_name + 8) (mc_number c))
      | Kind_boolean \<Rightarrow> Some (copy_string (max_name + 8) (if mc_boolean c then ''true'' else ''false''))
      | Kind_empty \<Rightarrow> Some ''null''
      | _ \<Rightarrow> append_json_escaped_string (max_name + 8) (mc_text c))"

fun cells_json :: "'d number_format \<Rightarrow> bool \<Rightarrow> string \<Rightarrow> (string \<times> 'd matrix_cell) list \<Rightarrow> string option" where
  "cells_json nf first out [] = Some out"
| "cells_json nf first out ((col, c) # cells) = do {
     key \<leftarrow> append_json_escaped_string (max_name + 4) col;
     cell \<leftarrow> cell_json nf c;
     out1 \<leftarrow> append_texts max_output out ((if first then [] else ['','']) @ [key, '':'', cell]);
     cells_json nf False out1 cells
   }"

fun rows_json :: "'d number_format \<Rightarrow> nat \<Rightarrow> bool \<Rightarrow> string \<Rightarrow> string list \<Rightarrow> 'd matrix_cell list list \<Rightarrow> string option" where
  "rows_json nf out_size first out cols [] = Some out"
| "rows_json nf out_size first out cols (row # rows) = do {
     out1 \<leftarrow> (if first then Some out else append_char out_size out (CHR '',''));
     row_text \<leftarrow> cells_json nf True ''{'' (zip cols row);
     row_text1 \<leftarrow> append_char max_output row_text (CHR ''}'');
     out2 \<leftarrow> append_text out_size out1 row_text1;
     rows_json nf out_size False out2 cols rows
   }"

definition matrix_json :: "'d number_format \<Rightarrow> nat \<Rightarrow> 'd matrix option \<Rightarrow> string option" where
  "matrix_json nf out_size m =
     (case m of
        None \<Rightarrow> Some (copy_string out_size ''[]'')
      | Some mx \<Rightarrow>
          if mx_rows mx = [] then Some (copy_string out_size ''[]'')
          else do {
            out \<leftarrow> append_char out_size [] (CHR ''['');
            out1 \<leftarrow> rows_json nf out_size True out (mx_cols mx) (mx_rows mx);
            append_char out_size out1 (CHR '']'')
          })"

text \<open>The loops over lists and maps write items; an item that is a matrix cannot be written.\<close>

fun is_matrix :: "'d svalue \<Rightarrow> bool" where
  "is_matrix (V_matrix _) = True"
| "is_matrix _ = False"

fun value_to_json_text :: "'d number_format \<Rightarrow> nat \<Rightarrow> 'd svalue \<Rightarrow> string option"
  and list_json :: "'d number_format \<Rightarrow> nat \<Rightarrow> bool \<Rightarrow> string \<Rightarrow> 'd svalue list \<Rightarrow> string option"
  and map_json :: "'d number_format \<Rightarrow> nat \<Rightarrow> bool \<Rightarrow> string \<Rightarrow> (string \<times> 'd svalue) list \<Rightarrow> string option"
where
  "value_to_json_text nf out_size V_empty = Some (copy_string out_size ''null'')"
| "value_to_json_text nf out_size (V_string s) = append_json_escaped_string out_size s"
| "value_to_json_text nf out_size (V_number d) = Some (format_number_json nf out_size d)"
| "value_to_json_text nf out_size (V_bool b) = Some (copy_string out_size (if b then ''true'' else ''false''))"
| "value_to_json_text nf out_size (V_object ob) = append_json_escaped_string out_size (ob_path ob)"
| "value_to_json_text nf out_size (V_block b) = append_json_escaped_string out_size (vb_source b)"
| "value_to_json_text nf out_size (V_list xs) = do {
     out \<leftarrow> append_char out_size [] (CHR ''['');
     out1 \<leftarrow> list_json nf out_size True out xs;
     append_char out_size out1 (CHR '']'')
   }"
| "value_to_json_text nf out_size (V_map es) = do {
     out \<leftarrow> append_char out_size [] (CHR ''{'');
     out1 \<leftarrow> map_json nf out_size True out es;
     append_char out_size out1 (CHR ''}'')
   }"
| "value_to_json_text nf out_size (V_class name) = append_json_escaped_string out_size name"
| "value_to_json_text nf out_size (V_instance name d) = append_json_escaped_string out_size (instance_label nf name d)"
| "value_to_json_text nf out_size (V_integer d) = Some (copy_string out_size (nf_long nf d))"
| "value_to_json_text nf out_size (V_float d) = Some (copy_string out_size (nf_float nf d))"
| "value_to_json_text nf out_size (V_double d) = Some (copy_string out_size (nf_text nf d))"
| "value_to_json_text nf out_size (V_imaginary d) = append_json_escaped_string out_size (imaginary_text nf d)"
| "value_to_json_text nf out_size (V_dict es) = do {
     out \<leftarrow> append_char out_size [] (CHR ''{'');
     out1 \<leftarrow> map_json nf out_size True out es;
     append_char out_size out1 (CHR ''}'')
   }"
| "value_to_json_text nf out_size (V_matrix m) = matrix_json nf out_size m"
| "list_json nf out_size first out [] = Some out"
| "list_json nf out_size first out (x # xs) = do {
     item \<leftarrow> (if is_matrix x then None else value_to_json_text nf max_output x);
     out1 \<leftarrow> append_texts out_size out ((if first then [] else ['','']) @ [item]);
     list_json nf out_size False out1 xs
   }"
| "map_json nf out_size first out [] = Some out"
| "map_json nf out_size first out ((k, x) # es) = do {
     key \<leftarrow> append_json_escaped_string max_output k;
     item \<leftarrow> (if is_matrix x then None else value_to_json_text nf max_output x);
     out1 \<leftarrow> append_texts out_size out ((if first then [] else ['','']) @ [key, '':'', item]);
     map_json nf out_size False out1 es
   }"

definition value_item_to_json_text :: "'d number_format \<Rightarrow> 'd svalue \<Rightarrow> string option" where
  "value_item_to_json_text nf x = (if is_matrix x then None else value_to_json_text nf max_output x)"

definition arksh_value_to_json :: "'d number_format \<Rightarrow> nat \<Rightarrow> 'd svalue \<Rightarrow> string option" where
  "arksh_value_to_json nf out_size v = value_to_json_text nf out_size v"


subsection \<open>Reading\<close>

datatype doc_error =
    String_error json_error
  | Too_deep
  | Invalid_value
  | Invalid_number
  | Leading_zero
  | Array_separator
  | Array_unterminated
  | Object_key
  | Object_colon
  | Object_separator
  | Object_unterminated
  | Object_grow
  | Trailing_content
  | Too_many_elements

definition json_ws :: "char \<Rightarrow> bool" where
  "json_ws c \<longleftrightarrow> c \<in> {CHR '' '', CHR 0x09, CHR 0x0A, CHR 0x0D}"

definition json_skip_ws :: "string \<Rightarrow> string" where
  "json_skip_ws cs = dropWhile json_ws cs"

definition read_string :: "nat \<Rightarrow> string \<Rightarrow> doc_error + (string \<times> string)" where
  "read_string out_size cs = (case json_parse_string out_size cs of Inl e \<Rightarrow> Inl (String_error e) | Inr r \<Rightarrow> Inr r)"

definition json_is_number_delimiter :: "string \<Rightarrow> bool" where
  "json_is_number_delimiter cs \<longleftrightarrow> cs = [] \<or> hd cs \<in> set '',]}'' \<or> json_ws (hd cs)"

definition json_parse_number :: "'d number_format \<Rightarrow> string \<Rightarrow> doc_error + ('d svalue \<times> string)" where
  "json_parse_number nf cs =
     (case nf_read nf cs of
        (d, rest) \<Rightarrow> if rest = cs \<or> \<not> json_is_number_delimiter rest then Inl Invalid_number else Inr (V_number d, rest))"

text \<open>A parser of one value; the loops end by the number of characters that are left.\<close>

type_synonym 'd value_reader = "string \<Rightarrow> doc_error + ('d svalue \<times> string)"

fun json_array_loop :: "'d value_reader \<Rightarrow> nat \<Rightarrow> 'd svalue list \<Rightarrow> 'd value_reader" where
  "json_array_loop elem 0 acc cs = Inl Too_many_elements"
| "json_array_loop elem (Suc n) acc cs =
     (if cs = [] then Inl Array_unterminated
      else
        bind_err (elem cs) (\<lambda>(v, r).
          (let acc1 = acc @ [arksh_value_item_set_from_value v]; r1 = json_skip_ws r in
           if next_is '']'' r1 then Inr (V_list acc1, tl r1)
           else if \<not> next_is '','' r1 then Inl Array_separator
           else json_array_loop elem n acc1 (json_skip_ws (tl r1)))))"

definition json_parse_array :: "'d value_reader \<Rightarrow> 'd value_reader" where
  "json_parse_array elem cs =
     (let r = json_skip_ws (tl cs) in
      if next_is '']'' r then Inr (V_list [], tl r) else json_array_loop elem (length r + 1) [] r)"

fun json_object_loop :: "'d value_reader \<Rightarrow> nat \<Rightarrow> 'd svalue \<Rightarrow> 'd value_reader" where
  "json_object_loop elem 0 acc cs = Inl Too_many_elements"
| "json_object_loop elem (Suc n) acc cs =
     (if cs = [] then Inl Object_unterminated
      else if \<not> next_is [dquote] cs then Inl Object_key
      else
        bind_err (read_string max_name cs) (\<lambda>(key, r).
          (let r1 = json_skip_ws r in
           if \<not> next_is '':'' r1 then Inl Object_colon
           else
             bind_err (elem (json_skip_ws (tl r1))) (\<lambda>(v, r2).
               case arksh_value_map_set acc key v of
                 None \<Rightarrow> Inl Object_grow
               | Some acc1 \<Rightarrow>
                   (let r3 = json_skip_ws r2 in
                    if next_is ''}'' r3 then Inr (acc1, tl r3)
                    else if \<not> next_is '','' r3 then Inl Object_separator
                    else json_object_loop elem n acc1 (json_skip_ws (tl r3)))))))"

definition json_parse_object :: "'d value_reader \<Rightarrow> 'd value_reader" where
  "json_parse_object elem cs =
     (let r = json_skip_ws (tl cs) in
      if next_is ''}'' r then Inr (V_map [], tl r) else json_object_loop elem (length r + 1) (V_map []) r)"

text \<open>A value whose elements are read by \<open>elem\<close>.\<close>

definition json_value_step :: "'d number_format \<Rightarrow> 'd value_reader \<Rightarrow> 'd value_reader" where
  "json_value_step nf elem cs0 =
     (let cs = json_skip_ws cs0 in
      if next_is [dquote] cs then bind_err (read_string max_output cs) (\<lambda>(s, r). Inr (V_string s, r))
      else if next_is ''['' cs then json_parse_array elem cs
      else if next_is ''{'' cs then json_parse_object elem cs
      else if next_is ''true'' cs then Inr (V_bool True, drop 4 cs)
      else if next_is ''false'' cs then Inr (V_bool False, drop 5 cs)
      else if next_is ''null'' cs then Inr (V_empty, drop 4 cs)
      else if cs \<noteq> [] \<and> (hd cs = CHR ''-'' \<or> c_isdigit (hd cs)) then
        (let num = (if hd cs = CHR ''-'' then tl cs else cs) in
         if next_is ''0'' num \<and> tl num \<noteq> [] \<and> c_isdigit (hd (tl num)) then Inl Leading_zero
         else json_parse_number nf cs)
      else Inl Invalid_value)"

text \<open>The levels that are left: a value at depth \<open>json_max_depth\<close> is the last one.\<close>

definition json_max_depth :: nat where
  "json_max_depth = 128"

primrec json_parse_value_internal :: "'d number_format \<Rightarrow> nat \<Rightarrow> 'd value_reader" where
  "json_parse_value_internal nf 0 cs = Inl Too_deep"
| "json_parse_value_internal nf (Suc k) cs = json_value_step nf (json_parse_value_internal nf k) cs"

definition arksh_value_parse_json :: "'d number_format \<Rightarrow> string \<Rightarrow> doc_error + 'd svalue" where
  "arksh_value_parse_json nf t =
     bind_err (json_parse_value_internal nf (json_max_depth + 1) t) (\<lambda>(v, r).
       if json_skip_ws r = [] then Inr v else Inl Trailing_content)"

end
