(* ===== verification/Json_Laws.thy ===== *)
theory Json_Laws
  imports Json_Values
begin

text \<open>
  JSON documents: what is written is read back, and what is read is well typed.
\<close>

subsection \<open>Well-formed values\<close>

definition stored :: "'d svalue \<Rightarrow> bool" where
  "stored x \<longleftrightarrow> arksh_value_item_set_from_value x = x"

definition key_ok :: "string \<Rightarrow> bool" where
  "key_ok k \<longleftrightarrow> k \<noteq> [] \<and> length k < max_name"

definition entries_ok :: "(string \<times> 'v) list \<Rightarrow> bool" where
  "entries_ok es \<longleftrightarrow> distinct (map fst es) \<and> list_all key_ok (map fst es)"

fun value_ok :: "'d svalue \<Rightarrow> bool" where
  "value_ok (V_list xs) \<longleftrightarrow> (\<forall>x \<in> set xs. stored x \<and> value_ok x)"
| "value_ok (V_map es) \<longleftrightarrow> entries_ok es \<and> (\<forall>e \<in> set es. stored (snd e) \<and> value_ok (snd e))"
| "value_ok (V_dict es) \<longleftrightarrow> entries_ok es \<and> (\<forall>e \<in> set es. stored (snd e) \<and> value_ok (snd e))"
| "value_ok _ \<longleftrightarrow> True"

text \<open>Values of JSON with at most \<open>k\<close> levels of lists and maps around a value.\<close>

fun json_typed :: "nat \<Rightarrow> 'd svalue \<Rightarrow> bool" where
  "json_typed k V_empty \<longleftrightarrow> True"
| "json_typed k (V_string s) \<longleftrightarrow> length s < max_output"
| "json_typed k (V_number d) \<longleftrightarrow> True"
| "json_typed k (V_bool b) \<longleftrightarrow> True"
| "json_typed k (V_list xs) \<longleftrightarrow> (\<forall>x \<in> set xs. 0 < k \<and> json_typed (k - 1) x)"
| "json_typed k (V_map es) \<longleftrightarrow> entries_ok es \<and> (\<forall>e \<in> set es. 0 < k \<and> json_typed (k - 1) (snd e))"
| "json_typed k _ \<longleftrightarrow> False"

lemma json_typed_stored: "json_typed k v \<Longrightarrow> stored v"
  by (cases v) (simp_all add: stored_def arksh_value_item_set_from_value_def)

lemma json_typed_value_ok: "json_typed k v \<Longrightarrow> value_ok v"
proof (induction v arbitrary: k)
  case (V_list xs)
  then show ?case using json_typed_stored by fastforce
next
  case (V_map es)
  then show ?case using json_typed_stored by (fastforce simp: snds.simps)
qed simp_all

lemma stored_not_matrix: "json_typed k v \<Longrightarrow> \<not> is_matrix v"
  by (cases v) simp_all

subsection \<open>Entries\<close>

lemma copy_key [simp]: "key_ok k \<Longrightarrow> copy_string max_name k = k"
  by (simp add: key_ok_def)

lemma entry_set_new: "key_ok k \<Longrightarrow> k \<notin> fst ` set es \<Longrightarrow> entry_set es k x = es @ [(k, x)]"
  by (induction es k x rule: entry_set.induct) auto

lemma entry_set_lookup: "key_ok k \<Longrightarrow> map_of (entry_set es k x) = (map_of es)(k \<mapsto> x)"
  by (induction es k x rule: entry_set.induct) (auto simp: fun_eq_iff)

lemma entry_set_keys: "key_ok k \<Longrightarrow> fst ` set (entry_set es k x) = insert k (fst ` set es)"
  by (induction es k x rule: entry_set.induct) auto

lemma entry_set_ok: "key_ok k \<Longrightarrow> entries_ok es \<Longrightarrow> entries_ok (entry_set es k x)"
proof (induction es k x rule: entry_set.induct)
  case (2 k y es key x)
  have "entries_ok es" using 2 by (simp add: entries_ok_def)
  then have "entries_ok (entry_set es key x)" if "k \<noteq> key" using 2 that by simp
  moreover have "k \<notin> fst ` set es" using 2 by (auto simp: entries_ok_def)
  ultimately show ?case using 2 entry_set_keys [of key es x] by (auto simp: entries_ok_def)
qed (simp add: entries_ok_def)

lemma entry_set_all: "(\<forall>e \<in> set es. P (snd e)) \<Longrightarrow> P x \<Longrightarrow> \<forall>e \<in> set (entry_set es k x). P (snd e)"
  by (induction es k x rule: entry_set.induct) auto

subsection \<open>Writing and reading\<close>

text \<open>A number whose text the C library reads back.\<close>

definition number_reads :: "'d number_format \<Rightarrow> 'd \<Rightarrow> bool" where
  "number_reads nf d \<longleftrightarrow>
     (let t = nf_text nf d; digits = (if next_is ''-'' t then tl t else t) in
      \<not> nf_special nf d \<and> t \<noteq> [] \<and> length t < 64 \<and> (hd t = CHR ''-'' \<or> c_isdigit (hd t)) \<and>
      \<not> (next_is ''0'' digits \<and> tl digits \<noteq> [] \<and> c_isdigit (hd (tl digits))) \<and>
      (\<forall>rest. json_is_number_delimiter rest \<longrightarrow> nf_read nf (t @ rest) = (d, rest)))"

fun numbers_of :: "'d svalue \<Rightarrow> 'd list" where
  "numbers_of (V_number d) = [d]"
| "numbers_of (V_list xs) = concat (map numbers_of xs)"
| "numbers_of (V_map es) = concat (map (\<lambda>e. numbers_of (snd e)) es)"
| "numbers_of _ = []"

text \<open>The text is read as the value, whatever follows.\<close>

definition reads_as :: "'d value_reader \<Rightarrow> string \<Rightarrow> 'd svalue \<Rightarrow> bool" where
  "reads_as elem t v \<longleftrightarrow>
     t \<noteq> [] \<and> \<not> json_ws (hd t) \<and> hd t \<notin> set '']}'' \<and> (\<forall>rest. json_is_number_delimiter rest \<longrightarrow> elem (t @ rest) = Inr (v, rest))"

lemma skip_ws_text: "t \<noteq> [] \<Longrightarrow> \<not> json_ws (hd t) \<Longrightarrow> json_skip_ws (t @ rest) = t @ rest"
  by (cases t) (simp_all add: json_skip_ws_def)

lemma skip_ws_char [simp]: "\<not> json_ws c \<Longrightarrow> json_skip_ws (c # cs) = c # cs"
  by (simp add: json_skip_ws_def)

lemma json_ws_marks [simp]: "\<not> json_ws (CHR '','')" "\<not> json_ws (CHR '']'')" "\<not> json_ws (CHR ''}'')" "\<not> json_ws (CHR '':'')"
  "\<not> json_ws (CHR ''['')" "\<not> json_ws (CHR ''{'')" "\<not> json_ws dquote"
  by (simp_all add: json_ws_def)

lemma delimiter_marks [simp]:
  "json_is_number_delimiter []" "json_is_number_delimiter (CHR '','' # cs)" "json_is_number_delimiter (CHR '']'' # cs)"
  "json_is_number_delimiter (CHR ''}'' # cs)"
  by (simp_all add: json_is_number_delimiter_def)

lemma append_texts_eq: "append_texts n out ts = Some out' \<Longrightarrow> out' = out @ concat ts"
  by (induction n out ts rule: append_texts.induct) (auto simp: append_text_def bind_eq_Some_conv split: if_splits)

lemma list_text:
  assumes "list_json nf sz False out xs = Some out'"
    and "\<forall>x \<in> set xs. \<forall>t. value_to_json_text nf max_output x = Some t \<longrightarrow> reads_as elem t x" and "\<forall>x \<in> set xs. stored x"
  shows "\<exists>u. out' = out @ u \<and> length xs \<le> length u \<and> (u = [] \<or> hd u = CHR '','') \<and>
    (\<forall>acc n t x rest. reads_as elem t x \<longrightarrow> stored x \<longrightarrow> length xs < n \<longrightarrow>
      json_array_loop elem n acc (t @ u @ CHR '']'' # rest) = Inr (V_list (acc @ x # xs), rest))"
  using assms
proof (induction xs arbitrary: out)
  case Nil
  have "json_array_loop elem n acc (t @ CHR '']'' # rest) = Inr (V_list (acc @ [x]), rest)"
    if "reads_as elem t x" "stored x" "0 < n" for acc n t x rest
    using that by (cases n) (auto simp: reads_as_def stored_def)
  then show ?case using Nil by simp
next
  case (Cons y ys)
  obtain ty out1 where ty: "value_to_json_text nf max_output y = Some ty" and o1: "append_texts sz out ['','', ty] = Some out1"
    and o: "list_json nf sz False out1 ys = Some out'"
    using Cons.prems(1) by (auto simp: bind_eq_Some_conv split: if_splits)
  obtain u where u: "out' = out1 @ u" "length ys \<le> length u" "u = [] \<or> hd u = CHR '',''"
    and loop: "\<And>acc n t x rest. reads_as elem t x \<Longrightarrow> stored x \<Longrightarrow> length ys < n \<Longrightarrow>
      json_array_loop elem n acc (t @ u @ CHR '']'' # rest) = Inr (V_list (acc @ x # ys), rest)"
    using Cons.IH [OF o] Cons.prems(2,3) by auto
  have y: "reads_as elem ty y" "stored y" using Cons.prems(2,3) ty by simp_all
  have "json_array_loop elem n acc (t @ ('','' @ ty @ u) @ CHR '']'' # rest) = Inr (V_list (acc @ x # y # ys), rest)"
    if r: "reads_as elem t x" "stored x" "length (y # ys) < n" for acc n t x rest
  proof -
    obtain m where m: "n = Suc m" "length ys < m" using r(3) by (cases n) auto
    have "elem (t @ CHR '','' # ty @ u @ CHR '']'' # rest) = Inr (x, CHR '','' # ty @ u @ CHR '']'' # rest)"
      using r(1) by (simp add: reads_as_def)
    moreover have "json_skip_ws (ty @ u @ CHR '']'' # rest) = ty @ u @ CHR '']'' # rest"
      using y(1) by (intro skip_ws_text) (simp_all add: reads_as_def)
    moreover have "t \<noteq> []" using r(1) by (simp add: reads_as_def)
    ultimately show ?thesis using r(2) loop [OF y m(2), of "acc @ [x]" rest] by (simp add: m(1) stored_def)
  qed
  moreover have "out' = out @ '','' @ ty @ u" using u(1) append_texts_eq [OF o1] by simp
  ultimately show ?case using u by (intro exI [of _ "'','' @ ty @ u"]) auto
qed


lemma written_string_head: "append_json_escaped_string n t = Some e \<Longrightarrow> \<exists>e'. e = dquote # e'"
  by (auto simp: append_json_escaped_string_eq split: if_splits)

lemma read_written_string:
  assumes "append_json_escaped_string n t = Some e" and "length t < m"
  shows "read_string m (e @ rest) = Inr (t, rest)"
proof -
  have "e = dquote # concat (map json_escape t) @ [dquote]"
    using assms(1) by (auto simp: append_json_escaped_string_eq split: if_splits)
  then show ?thesis
    using json_string_loop_escaped [of "[]" t m rest] assms(2) by (simp add: read_string_def json_parse_string_def)
qed

lemma map_text:
  assumes "map_json nf sz False out es = Some out'"
    and "\<forall>e \<in> set es. \<forall>t. value_to_json_text nf max_output (snd e) = Some t \<longrightarrow> reads_as elem t (snd e)"
    and "\<forall>e \<in> set es. stored (snd e)" and "\<forall>e \<in> set es. key_ok (fst e)" and "distinct (map fst es)"
  shows "\<exists>u. out' = out @ u \<and> length es \<le> length u \<and> (u = [] \<or> hd u = CHR '','') \<and>
    (\<forall>acc n k kt t x rest. append_json_escaped_string max_output k = Some kt \<longrightarrow> key_ok k \<longrightarrow>
      reads_as elem t x \<longrightarrow> stored x \<longrightarrow> length es < n \<longrightarrow> k \<notin> fst ` set acc \<longrightarrow> k \<notin> fst ` set es \<longrightarrow>
      fst ` set acc \<inter> fst ` set es = {} \<longrightarrow>
      json_object_loop elem n (V_map acc) (kt @ '':'' @ t @ u @ CHR ''}'' # rest) = Inr (V_map (acc @ (k, x) # es), rest))"
  using assms
proof (induction es arbitrary: out)
  case Nil
  have "json_object_loop elem n (V_map acc) (kt @ '':'' @ t @ CHR ''}'' # rest) = Inr (V_map (acc @ [(k, x)]), rest)"
    if r: "append_json_escaped_string max_output k = Some kt" "key_ok k" "reads_as elem t x" "stored x" "0 < n" "k \<notin> fst ` set acc"
    for acc n k kt t x rest
  proof -
    obtain m where m: "n = Suc m" using r(5) by (cases n) auto
    obtain e' where e: "kt = dquote # e'" using written_string_head [OF r(1)] by blast
    have "read_string max_name (kt @ '':'' @ t @ CHR ''}'' # rest) = Inr (k, '':'' @ t @ CHR ''}'' # rest)"
      using read_written_string [OF r(1)] r(2) by (simp add: key_ok_def)
    moreover have "json_skip_ws (t @ CHR ''}'' # rest) = t @ CHR ''}'' # rest" "elem (t @ CHR ''}'' # rest) = Inr (x, CHR ''}'' # rest)"
      using r(3) skip_ws_text [of t] by (simp_all add: reads_as_def)
    moreover have "arksh_value_map_set (V_map acc) k x = Some (V_map (acc @ [(k, x)]))"
      using r by (simp add: arksh_value_map_set_def key_ok_def stored_def Let_def entry_set_new)
    ultimately show ?thesis by (simp add: m e)
  qed
  then show ?case using Nil by simp
next
  case (Cons e es)
  obtain k1 y where e: "e = (k1, y)" by fastforce
  obtain key ty out1 where key: "append_json_escaped_string max_output k1 = Some key"
    and ty: "value_to_json_text nf max_output y = Some ty" and o1: "append_texts sz out ['','', key, '':'', ty] = Some out1"
    and o: "map_json nf sz False out1 es = Some out'"
    using Cons.prems(1) by (auto simp: e bind_eq_Some_conv split: if_splits)
  obtain u where u: "out' = out1 @ u" "length es \<le> length u" "u = [] \<or> hd u = CHR '',''"
    and loop: "\<And>acc n k kt t x rest. append_json_escaped_string max_output k = Some kt \<Longrightarrow> key_ok k \<Longrightarrow>
      reads_as elem t x \<Longrightarrow> stored x \<Longrightarrow> length es < n \<Longrightarrow> k \<notin> fst ` set acc \<Longrightarrow> k \<notin> fst ` set es \<Longrightarrow>
      fst ` set acc \<inter> fst ` set es = {} \<Longrightarrow>
      json_object_loop elem n (V_map acc) (kt @ '':'' @ t @ u @ CHR ''}'' # rest) = Inr (V_map (acc @ (k, x) # es), rest)"
    using Cons.IH [OF o] Cons.prems(2-5) by auto
  have y: "reads_as elem ty y" "stored y" "key_ok k1" "k1 \<notin> fst ` set es" using Cons.prems(2-5) ty by (auto simp: e)
  obtain key' where key': "key = dquote # key'" using written_string_head [OF key] by blast
  have "json_object_loop elem n (V_map acc) (kt @ '':'' @ t @ ('','' @ key @ '':'' @ ty @ u) @ CHR ''}'' # rest) =
      Inr (V_map (acc @ (k, x) # e # es), rest)"
    if r: "append_json_escaped_string max_output k = Some kt" "key_ok k" "reads_as elem t x" "stored x" "length (e # es) < n"
      "k \<notin> fst ` set acc" "k \<notin> fst ` set (e # es)" "fst ` set acc \<inter> fst ` set (e # es) = {}" for acc n k kt t x rest
  proof -
    obtain m where m: "n = Suc m" "length es < m" using r(5) by (cases n) auto
    let ?r = "key @ '':'' @ ty @ u @ CHR ''}'' # rest"
    obtain e' where e': "kt = dquote # e'" using written_string_head [OF r(1)] by blast
    have "read_string max_name (kt @ '':'' @ t @ CHR '','' # ?r) = Inr (k, '':'' @ t @ CHR '','' # ?r)"
      using read_written_string [OF r(1)] r(2) by (simp add: key_ok_def)
    moreover have "json_skip_ws (t @ CHR '','' # ?r) = t @ CHR '','' # ?r" "elem (t @ CHR '','' # ?r) = Inr (x, CHR '','' # ?r)"
      using r(3) skip_ws_text [of t] by (simp_all add: reads_as_def)
    moreover have "json_skip_ws ?r = ?r" by (simp add: key')
    moreover have "arksh_value_map_set (V_map acc) k x = Some (V_map (acc @ [(k, x)]))"
      using r by (simp add: arksh_value_map_set_def key_ok_def stored_def Let_def entry_set_new)
    moreover have "json_object_loop elem m (V_map (acc @ [(k, x)])) ?r = Inr (V_map ((acc @ [(k, x)]) @ e # es), rest)"
      unfolding e using r(7,8) by (intro loop key y m(2)) (auto simp: e)
    ultimately show ?thesis by (simp add: m(1) e')
  qed
  moreover have "out' = out @ '','' @ key @ '':'' @ ty @ u" using u(1) append_texts_eq [OF o1] by simp
  ultimately show ?case using u by (intro exI [of _ "'','' @ key @ '':'' @ ty @ u"]) auto
qed

lemma step_array:
  assumes "list_json nf sz True ''['' xs = Some out" and "\<forall>x \<in> set xs. stored x"
    and "\<forall>x \<in> set xs. \<forall>t. value_to_json_text nf max_output x = Some t \<longrightarrow> reads_as elem t x"
  shows "json_value_step nf elem ((out @ '']'') @ rest) = Inr (V_list xs, rest) \<and> (\<exists>u. out = CHR ''['' # u)"
proof (cases xs)
  case Nil
  then have "out = ''[''" using assms(1) by simp
  then show ?thesis by (simp add: Nil json_value_step_def json_parse_array_def Let_def)
next
  case (Cons x ys)
  obtain t out1 where t: "value_to_json_text nf max_output x = Some t" and o1: "append_texts sz ''['' [t] = Some out1"
    and o: "list_json nf sz False out1 ys = Some out"
    using assms(1) by (auto simp: Cons bind_eq_Some_conv split: if_splits)
  have x: "reads_as elem t x" "stored x" using assms(2,3) t by (simp_all add: Cons)
  obtain u where u: "out = out1 @ u" "length ys \<le> length u"
    and loop: "\<And>acc n t x rest. reads_as elem t x \<Longrightarrow> stored x \<Longrightarrow> length ys < n \<Longrightarrow>
      json_array_loop elem n acc (t @ u @ CHR '']'' # rest) = Inr (V_list (acc @ x # ys), rest)"
    using list_text [OF o, of elem] assms(2,3) by (auto simp: Cons)
  have out: "out = ''['' @ t @ u" using u(1) append_texts_eq [OF o1] by simp
  let ?r = "t @ u @ CHR '']'' # rest"
  have "json_skip_ws ?r = ?r" "\<not> next_is '']'' ?r"
    using x(1) skip_ws_text [of t] by (cases t; simp add: reads_as_def)+
  moreover have "json_array_loop elem (length ?r + 1) [] ?r = Inr (V_list (x # ys), rest)"
    using loop [OF x, of "length ?r + 1" "[]" rest] u(2) by simp
  ultimately show ?thesis by (simp add: out Cons json_value_step_def json_parse_array_def Let_def)
qed

lemma step_object:
  assumes "map_json nf sz True ''{'' es = Some out" and "\<forall>e \<in> set es. stored (snd e)" and "entries_ok es"
    and "\<forall>e \<in> set es. \<forall>t. value_to_json_text nf max_output (snd e) = Some t \<longrightarrow> reads_as elem t (snd e)"
  shows "json_value_step nf elem ((out @ ''}'') @ rest) = Inr (V_map es, rest) \<and> (\<exists>u. out = CHR ''{'' # u)"
proof (cases es)
  case Nil
  then have "out = ''{''" using assms(1) by simp
  then show ?thesis by (simp add: Nil json_value_step_def json_parse_object_def Let_def)
next
  case (Cons e fs)
  obtain k x where e: "e = (k, x)" by fastforce
  obtain key t out1 where key: "append_json_escaped_string max_output k = Some key" and t: "value_to_json_text nf max_output x = Some t"
    and o1: "append_texts sz ''{'' [key, '':'', t] = Some out1" and o: "map_json nf sz False out1 fs = Some out"
    using assms(1) by (auto simp: Cons e bind_eq_Some_conv split: if_splits)
  have x: "reads_as elem t x" "stored x" "key_ok k" "k \<notin> fst ` set fs" "distinct (map fst fs)" "\<forall>f \<in> set fs. key_ok (fst f)"
    using assms(2-4) t by (auto simp: Cons e entries_ok_def list_all_iff)
  obtain u where u: "out = out1 @ u" "length fs \<le> length u"
    and loop: "\<And>acc n k kt t x rest. append_json_escaped_string max_output k = Some kt \<Longrightarrow> key_ok k \<Longrightarrow>
      reads_as elem t x \<Longrightarrow> stored x \<Longrightarrow> length fs < n \<Longrightarrow> k \<notin> fst ` set acc \<Longrightarrow> k \<notin> fst ` set fs \<Longrightarrow>
      fst ` set acc \<inter> fst ` set fs = {} \<Longrightarrow>
      json_object_loop elem n (V_map acc) (kt @ '':'' @ t @ u @ CHR ''}'' # rest) = Inr (V_map (acc @ (k, x) # fs), rest)"
    using map_text [OF o, of elem] assms(2,4) x(5,6) by (auto simp: Cons)
  have out: "out = ''{'' @ key @ '':'' @ t @ u" using u(1) append_texts_eq [OF o1] by simp
  obtain key' where key': "key = dquote # key'" using written_string_head [OF key] by blast
  let ?r = "key @ '':'' @ t @ u @ CHR ''}'' # rest"
  have "json_skip_ws ?r = ?r" "\<not> next_is ''}'' ?r" by (simp_all add: key')
  moreover have "json_object_loop elem (length ?r + 1) (V_map []) ?r = Inr (V_map ((k, x) # fs), rest)"
    using loop [OF key x(3,1,2), of "length ?r + 1" "[]" rest] u(2) x(4) by simp
  ultimately show ?thesis by (simp add: out Cons e json_value_step_def json_parse_object_def Let_def)
qed


lemma step_number:
  assumes "number_reads nf d" and "json_is_number_delimiter rest"
  shows "json_value_step nf elem (nf_text nf d @ rest) = Inr (V_number d, rest)"
proof -
  obtain c cs where t: "nf_text nf d = c # cs" "c = CHR ''-'' \<or> c_isdigit c"
    using assms(1) by (cases "nf_text nf d") (auto simp: number_reads_def Let_def)
  have num: "\<not> (next_is ''0'' (if c = CHR ''-'' then cs else c # cs) \<and> tl (if c = CHR ''-'' then cs else c # cs) \<noteq> [] \<and>
      c_isdigit (hd (tl (if c = CHR ''-'' then cs else c # cs))))"
    and r: "nf_read nf (c # cs @ rest) = (d, rest)"
    using assms by (auto simp: number_reads_def Let_def t(1))
  have c: "\<not> json_ws c" "c \<noteq> dquote" "c \<noteq> CHR ''[''" "c \<noteq> CHR ''{''" "c \<noteq> CHR ''t''" "c \<noteq> CHR ''f''" "c \<noteq> CHR ''n''"
    using t(2) by (auto simp: c_isdigit_def json_ws_def)
  have delim: "\<not> (rest \<noteq> [] \<and> c_isdigit (hd rest))"
    using assms(2) by (auto simp: json_is_number_delimiter_def json_ws_def c_isdigit_def)
  have "json_parse_number nf (c # cs @ rest) = Inr (V_number d, rest)"
    using r assms(2) by (simp add: json_parse_number_def)
  moreover have "\<not> (next_is ''0'' (if c = CHR ''-'' then cs @ rest else c # cs @ rest) \<and>
      tl (if c = CHR ''-'' then cs @ rest else c # cs @ rest) \<noteq> [] \<and>
      c_isdigit (hd (tl (if c = CHR ''-'' then cs @ rest else c # cs @ rest))))"
    using num delim t(2) by (cases cs; cases "tl cs"; cases rest) (auto simp: c_isdigit_def split: if_splits)
  ultimately show ?thesis using t(2) c by (cases "c = CHR ''-''") (auto simp: json_value_step_def t(1) Let_def)
qed

lemma text_reads:
  assumes "json_typed k v" and "value_to_json_text nf sz v = Some t" and "64 \<le> sz" and "\<forall>d \<in> set (numbers_of v). number_reads nf d"
  shows "reads_as (json_parse_value_internal nf (Suc k)) t v"
  using assms
proof (induction v arbitrary: k sz t)
  case (V_string s)
  then have w: "append_json_escaped_string sz s = Some t" by simp
  obtain e where "t = dquote # e" using written_string_head [OF w] by blast
  then show ?case
    using V_string(1) read_written_string [OF w, of max_output]
    by (simp add: reads_as_def json_ws_def json_value_step_def Let_def json_skip_ws_def)
next
  case (V_number d)
  then have r: "number_reads nf d" by simp
  then have "t = nf_text nf d" using V_number(2,3) by (simp add: number_reads_def Let_def format_number_json_def format_number_def)
  moreover have "t \<noteq> [] \<and> (hd t = CHR ''-'' \<or> c_isdigit (hd t))" using r calculation by (simp add: number_reads_def Let_def)
  then have "t \<noteq> [] \<and> \<not> json_ws (hd t) \<and> hd t \<notin> set '']}''" by (auto simp: json_ws_def c_isdigit_def)
  ultimately show ?case using step_number [OF r] by (simp add: reads_as_def)
next
  case (V_bool b)
  then have "t = (if b then ''true'' else ''false'')" by simp
  then show ?case by (simp add: reads_as_def json_ws_def json_value_step_def json_skip_ws_def Let_def)
next
  case V_empty
  then have "t = ''null''" by simp
  then show ?case by (simp add: reads_as_def json_ws_def json_value_step_def json_skip_ws_def Let_def)
next
  case (V_list xs)
  obtain out where out: "list_json nf sz True ''['' xs = Some out" "t = out @ '']''"
    using V_list.prems(2) by (auto simp: append_char_def bind_eq_Some_conv split: if_splits)
  have "reads_as (json_parse_value_internal nf k) u x" if x: "x \<in> set xs" and u: "value_to_json_text nf max_output x = Some u" for x u
  proof -
    obtain j where k: "k = Suc j" and j: "json_typed j x" using V_list.prems(1) x by (cases k) auto
    have "\<forall>d \<in> set (numbers_of x). number_reads nf d" using V_list.prems(4) x by auto
    then show ?thesis unfolding k using V_list.IH [OF x j u] by (simp add: max_output_def del: json_parse_value_internal.simps)
  qed
  moreover have "\<forall>x \<in> set xs. stored x" using V_list.prems(1) json_typed_stored by auto
  ultimately have r: "json_value_step nf (json_parse_value_internal nf k) ((out @ '']'') @ rest) = Inr (V_list xs, rest)"
    and "\<exists>u. out = CHR ''['' # u" for rest
    using step_array [OF out(1), of "json_parse_value_internal nf k" rest] by blast+
  then obtain u where "out = CHR ''['' # u" by blast
  then show ?case using r out(2) by (simp add: reads_as_def)
next
  case (V_map es)
  obtain out where out: "map_json nf sz True ''{'' es = Some out" "t = out @ ''}''"
    using V_map.prems(2) by (auto simp: append_char_def bind_eq_Some_conv split: if_splits)
  have "reads_as (json_parse_value_internal nf k) u (snd e)"
    if e: "e \<in> set es" and u: "value_to_json_text nf max_output (snd e) = Some u" for e u
  proof -
    have "0 < k" "json_typed (k - 1) (snd e)" using V_map.prems(1) e unfolding json_typed.simps by blast+
    then obtain j where k: "k = Suc j" and j: "json_typed j (snd e)" by (cases k) auto
    have "\<forall>d \<in> set (numbers_of (snd e)). number_reads nf d" using V_map.prems(4) e by auto
    moreover have "snd e \<in> Basic_BNFs.snds e" by (cases e) simp
    ultimately show ?thesis unfolding k using V_map.IH [OF e _ j u] by (simp add: max_output_def del: json_parse_value_internal.simps)
  qed
  moreover have "\<forall>e \<in> set es. stored (snd e)" "entries_ok es" using V_map.prems(1) json_typed_stored by auto
  ultimately have r: "json_value_step nf (json_parse_value_internal nf k) ((out @ ''}'') @ rest) = Inr (V_map es, rest)"
    and "\<exists>u. out = CHR ''{'' # u" for rest
    using step_object [OF out(1), of "json_parse_value_internal nf k" rest] by blast+
  then obtain u where "out = CHR ''{'' # u" by blast
  then show ?case using r out(2) by (simp add: reads_as_def)
qed simp_all

subsection \<open>What is read is well typed\<close>

lemma append_chars_length: "append_chars n out cs = Some out' \<Longrightarrow> length out < n \<Longrightarrow> length out' < n"
  by (induction n out cs rule: append_chars.induct) (auto simp: append_char_def split: option.splits if_splits)

lemma string_step_length: "json_string_step n out c cs = Inr (out', r) \<Longrightarrow> length out < n \<Longrightarrow> length out' < n"
  by (auto simp: json_string_step_def json_parse_unicode_escape_def put_code_point_def put_char_def append_char_def
      bind_err_eq_Inr split: if_splits list.splits option.splits dest: append_chars_length)

lemma string_loop_length: "json_string_loop n out cs = Inr (out', r) \<Longrightarrow> length out < n \<Longrightarrow> length out' < n \<and> length r < length cs"
proof (induction n out cs rule: json_string_loop.induct)
  case (2 n out c cs)
  show ?case
  proof (cases "c = dquote")
    case False
    then obtain o1 r1 where step: "json_string_step n out c cs = Inr (o1, r1)" and loop: "json_string_loop n o1 r1 = Inr (out', r)"
      using 2(2) by (auto simp: bind_err_eq_Inr)
    then have "length out' < n \<and> length r < length r1"
      using 2(1) [OF False _ refl loop] string_step_length [OF step] 2(3) by auto
    then show ?thesis using json_string_step_shorter [OF step] by simp
  qed (use 2 in simp)
qed simp

lemma read_string_length: "read_string n cs = Inr (s, r) \<Longrightarrow> 0 < n \<Longrightarrow> length s < n \<and> length r < length cs"
  using string_loop_length [of n "[]" "drop 1 cs" s r]
  by (auto simp: read_string_def json_parse_string_def split: sum.splits if_splits)


definition reader_ok :: "('d svalue \<Rightarrow> bool) \<Rightarrow> 'd value_reader \<Rightarrow> bool" where
  "reader_ok Q elem \<longleftrightarrow> (\<forall>cs. elem cs \<noteq> Inl Too_many_elements \<and>
     (\<forall>v r. elem cs = Inr (v, r) \<longrightarrow> Q v \<and> stored v \<and> length r < length cs))"

lemma reader_okD: "reader_ok Q elem \<Longrightarrow> elem cs = Inr (v, r) \<Longrightarrow> Q v \<and> stored v \<and> length r < length cs"
  by (simp add: reader_ok_def)

lemma skip_ws_length: "length (json_skip_ws cs) \<le> length cs"
  by (simp add: json_skip_ws_def length_dropWhile_le)

lemma array_loop_ok:
  assumes "reader_ok Q elem"
  shows "length cs < n \<Longrightarrow> json_array_loop elem n acc cs \<noteq> Inl Too_many_elements \<and>
    (\<forall>v r. json_array_loop elem n acc cs = Inr (v, r) \<longrightarrow>
      (\<exists>xs. v = V_list (acc @ xs) \<and> (\<forall>x \<in> set xs. Q x)) \<and> length r < length cs)"
proof (induction n arbitrary: acc cs)
  case (Suc n)
  show ?case
  proof (cases "cs = []")
    case False
    show ?thesis
    proof (cases "elem cs")
      case (Inl e)
      then show ?thesis using False assms by (auto simp: reader_ok_def)
    next
      case (Inr p)
      obtain v r where p: "p = (v, r)" by fastforce
      have v: "Q v" "stored v" "length r < length cs" using reader_okD [OF assms] Inr p by blast+
      let ?r1 = "json_skip_ws r"
      have r1: "length ?r1 \<le> length r" by (rule skip_ws_length)
      have "length (json_skip_ws (tl ?r1)) < n" "length (json_skip_ws (tl ?r1)) < length cs"
        using skip_ws_length [of "tl ?r1"] r1 v(3) Suc.prems by auto
      then show ?thesis
        using Suc.IH [of "json_skip_ws (tl ?r1)" "acc @ [v]"] v r1 False
        by (auto simp: Inr p Let_def stored_def)
    qed
  qed simp
qed simp


lemma object_loop_ok:
  assumes "reader_ok Q elem"
  shows "length cs < n \<Longrightarrow> entries_ok acc \<Longrightarrow> \<forall>e \<in> set acc. Q (snd e) \<Longrightarrow>
    json_object_loop elem n (V_map acc) cs \<noteq> Inl Too_many_elements \<and>
    (\<forall>v r. json_object_loop elem n (V_map acc) cs = Inr (v, r) \<longrightarrow>
      (\<exists>es. v = V_map es \<and> entries_ok es \<and> (\<forall>e \<in> set es. Q (snd e))) \<and> length r < length cs)"
proof (induction n arbitrary: acc cs)
  case (Suc n)
  have str: "read_string m t \<noteq> Inl Too_many_elements" for m t by (simp add: read_string_def split: sum.split)
  show ?case
  proof (cases "cs \<noteq> [] \<and> next_is [dquote] cs")
    case True
    show ?thesis
    proof (cases "read_string max_name cs")
      case (Inl e)
      then show ?thesis using True str [of max_name cs] by auto
    next
      case (Inr p)
      obtain key r where p: "p = (key, r)" by fastforce
      have key: "length key < max_name" "length r < length cs"
        using read_string_length [of max_name cs key r] Inr p by (simp_all add: max_name_def)
      let ?r1 = "json_skip_ws r"
      have r1: "length ?r1 \<le> length r" by (rule skip_ws_length)
      show ?thesis
      proof (cases "next_is '':'' ?r1")
        case colon: True
        let ?t = "json_skip_ws (tl ?r1)"
        have t: "length ?t < length cs" using skip_ws_length [of "tl ?r1"] r1 key(2) by simp
        show ?thesis
        proof (cases "elem ?t")
          case (Inl e)
          then have "e \<noteq> Too_many_elements" using assms unfolding reader_ok_def by blast
          then show ?thesis using True Inr p colon Inl by simp
        next
          case el: (Inr q)
          obtain v r2 where q: "q = (v, r2)" by fastforce
          have v: "Q v" "stored v" "length r2 < length ?t" using reader_okD [OF assms] el q by blast+
          let ?r3 = "json_skip_ws r2"
          have r3: "length ?r3 \<le> length r2" by (rule skip_ws_length)
          show ?thesis
          proof (cases "key = []")
            case True
            then show ?thesis using \<open>cs \<noteq> [] \<and> next_is [dquote] cs\<close> Inr p colon el q
              by (simp add: arksh_value_map_set_def Let_def)
          next
            case False
            then have k: "key_ok key" using key(1) by (simp add: key_ok_def)
            let ?acc = "entry_set acc key v"
            have set: "arksh_value_map_set (V_map acc) key v = Some (V_map ?acc)"
              using False v(2) by (simp add: arksh_value_map_set_def Let_def stored_def)
            have ok: "entries_ok ?acc" "\<forall>e \<in> set ?acc. Q (snd e)"
              using entry_set_ok [OF k Suc.prems(2)] entry_set_all [OF Suc.prems(3) v(1)] by simp_all
            have l: "length (json_skip_ws (tl ?r3)) < length cs"
              using skip_ws_length [of "tl ?r3"] r3 v(3) t by simp
            have "length (json_skip_ws (tl ?r3)) < n"
              using skip_ws_length [of "tl ?r3"] r3 v(3) t Suc.prems(1) by simp
            from Suc.IH [OF this ok] show ?thesis
              using \<open>cs \<noteq> [] \<and> next_is [dquote] cs\<close> ok l r3 v(3) t
              by (auto simp: Inr p colon el q set Let_def)
          qed
        qed
      qed (use True Inr p in simp)
    qed
  qed auto
qed simp

lemma array_ok:
  assumes "reader_ok Q elem" and "cs \<noteq> []"
  shows "json_parse_array elem cs \<noteq> Inl Too_many_elements \<and>
    (\<forall>v r. json_parse_array elem cs = Inr (v, r) \<longrightarrow> (\<exists>xs. v = V_list xs \<and> (\<forall>x \<in> set xs. Q x)) \<and> length r < length cs)"
proof -
  let ?r = "json_skip_ws (tl cs)"
  have r: "length ?r < length cs" using skip_ws_length [of "tl cs"] assms(2) by (cases cs) auto
  show ?thesis
    using array_loop_ok [OF assms(1), of ?r "length ?r + 1" "[]"] r by (auto simp: json_parse_array_def Let_def)
qed

lemma object_ok:
  assumes "reader_ok Q elem" and "cs \<noteq> []"
  shows "json_parse_object elem cs \<noteq> Inl Too_many_elements \<and>
    (\<forall>v r. json_parse_object elem cs = Inr (v, r) \<longrightarrow>
      (\<exists>es. v = V_map es \<and> entries_ok es \<and> (\<forall>e \<in> set es. Q (snd e))) \<and> length r < length cs)"
proof -
  let ?r = "json_skip_ws (tl cs)"
  have r: "length ?r < length cs" using skip_ws_length [of "tl cs"] assms(2) by (cases cs) auto
  show ?thesis
    using object_loop_ok [OF assms(1), of ?r "length ?r + 1" "[]"] r
    by (auto simp: json_parse_object_def Let_def entries_ok_def)
qed

text \<open>\<open>strtod\<close> leaves an end of the text.\<close>

definition number_suffix :: "'d number_format \<Rightarrow> bool" where
  "number_suffix nf \<longleftrightarrow> (\<forall>cs. suffix (snd (nf_read nf cs)) cs)"

lemma number_ok:
  assumes "number_suffix nf"
  shows "json_parse_number nf cs \<noteq> Inl Too_many_elements \<and>
    (\<forall>v r. json_parse_number nf cs = Inr (v, r) \<longrightarrow> (\<exists>d. v = V_number d) \<and> length r < length cs)"
proof -
  obtain d rest where r: "nf_read nf cs = (d, rest)" by fastforce
  then have "suffix rest cs" using assms by (metis number_suffix_def snd_conv)
  then have "rest \<noteq> cs \<Longrightarrow> length rest < length cs" by (metis suffix_length_less strict_suffix_def)
  then show ?thesis by (auto simp: json_parse_number_def r)
qed

lemma next_is_nonempty: "next_is (c # cs) t \<Longrightarrow> t \<noteq> [] \<and> length cs < length t"
  by (auto dest!: next_isD)

lemma value_step_ok:
  assumes "reader_ok Q elem" and "number_suffix nf"
    and "\<And>xs. \<forall>x \<in> set xs. Q x \<Longrightarrow> P (V_list xs)" and "\<And>es. entries_ok es \<Longrightarrow> \<forall>e \<in> set es. Q (snd e) \<Longrightarrow> P (V_map es)"
    and "P V_empty" and "\<And>b. P (V_bool b)" and "\<And>d. P (V_number d)" and "\<And>s. length s < max_output \<Longrightarrow> P (V_string s)"
    and "\<And>v. P v \<Longrightarrow> stored v"
  shows "reader_ok P (json_value_step nf elem)"
  unfolding reader_ok_def
proof (intro allI conjI impI)
  fix cs0
  define cs where "cs = json_skip_ws cs0"
  have l: "length cs \<le> length cs0" unfolding cs_def by (rule skip_ws_length)
  have both: "json_value_step nf elem cs0 \<noteq> Inl Too_many_elements \<and>
      (\<forall>v r. json_value_step nf elem cs0 = Inr (v, r) \<longrightarrow> P v \<and> length r < length cs)"
  proof -
    have str: "read_string m t \<noteq> Inl Too_many_elements" for m t by (simp add: read_string_def split: sum.split)
    have strv: "P (V_string s) \<and> length r < length cs" if "read_string max_output cs = Inr (s, r)" for s r
      using read_string_length [OF that] assms(8) by (simp add: max_output_def)
    consider (str) "next_is [dquote] cs" | (arr) "\<not> next_is [dquote] cs" "next_is ''['' cs"
      | (obj) "\<not> next_is [dquote] cs" "\<not> next_is ''['' cs" "next_is ''{'' cs"
      | (other) "\<not> next_is [dquote] cs" "\<not> next_is ''['' cs" "\<not> next_is ''{'' cs" by blast
    then show ?thesis
    proof cases
      case str
      then show ?thesis using strv \<open>\<And>m t. read_string m t \<noteq> Inl Too_many_elements\<close> [of max_output cs]
        by (auto simp: json_value_step_def Let_def cs_def [symmetric] bind_err_eq_Inr bind_err_eq_Inl)
    next
      case arr
      then have "json_value_step nf elem cs0 = json_parse_array elem cs" by (simp add: json_value_step_def Let_def cs_def)
      then show ?thesis using array_ok [OF assms(1), of cs] next_is_nonempty [OF arr(2)] assms(3) by auto
    next
      case obj
      then have "json_value_step nf elem cs0 = json_parse_object elem cs" by (simp add: json_value_step_def Let_def cs_def)
      then show ?thesis using object_ok [OF assms(1), of cs] next_is_nonempty [OF obj(3)] assms(4) by auto
    next
      case other
      then show ?thesis using number_ok [OF assms(2), of cs] assms(5-7)
        by (auto simp: json_value_step_def Let_def cs_def [symmetric] dest!: next_is_nonempty split: if_splits)
    qed
  qed
  then show "json_value_step nf elem cs0 \<noteq> Inl Too_many_elements" by blast
  fix v r assume "json_value_step nf elem cs0 = Inr (v, r)"
  with both l assms(9) show "P v" "stored v" "length r < length cs0" by auto
qed

lemma parse_value_ok:
  assumes "number_suffix nf"
  shows "reader_ok (json_typed k) (json_parse_value_internal nf (Suc k))"
proof (induction k)
  case 0
  have "reader_ok (\<lambda>_. False) (json_parse_value_internal nf 0)" by (simp add: reader_ok_def)
  from value_step_ok [OF this assms, of "json_typed 0"] show ?case
    by (simp add: reader_ok_def json_typed_stored)
next
  case (Suc k)
  from value_step_ok [OF Suc assms, of "json_typed (Suc k)"] show ?case
    unfolding json_parse_value_internal.simps(2) [of nf "Suc k"] reader_ok_def by (auto simp: json_typed_stored)
qed


subsection \<open>Documents\<close>

text \<open>
  (C12) JSON documents round trip: a value of JSON with at most 128 levels of lists and maps around each
  of its values, whose keys are distinct, not empty and fit their array, and whose numbers the C
  library reads back from fifteen digits, is read back from the text that writing it gives, whenever
  that text fits the buffer.
\<close>

theorem json_document_roundtrip:
  assumes "json_typed json_max_depth v" and "arksh_value_to_json nf sz v = Some t" and "64 \<le> sz"
    and "\<forall>d \<in> set (numbers_of v). number_reads nf d"
  shows "arksh_value_parse_json nf t = Inr v"
proof -
  have "reads_as (json_parse_value_internal nf (Suc json_max_depth)) t v"
    using text_reads assms by (simp add: arksh_value_to_json_def)
  then have "json_parse_value_internal nf (Suc json_max_depth) (t @ []) = Inr (v, [])"
    unfolding reads_as_def by (metis delimiter_marks(1))
  then show ?thesis by (simp add: arksh_value_parse_json_def json_skip_ws_def)
qed

text \<open>Natural numbers in decimal notation, for examples.\<close>

definition nat_format :: "nat number_format" where
  "nat_format =
     \<lparr>nf_text = show_nat, nf_float = show_nat, nf_long = show_nat, nf_special = \<lambda>d. False, nf_int = int,
      nf_read = \<lambda>cs. (foldl (\<lambda>n c. n * 10 + (of_char c - 48)) 0 (takeWhile c_isdigit cs), dropWhile c_isdigit cs)\<rparr>"

lemma nat_format_suffix: "number_suffix nat_format"
  by (auto simp: number_suffix_def nat_format_def suffix_dropWhile)

lemma nat_format_reads: "number_reads nat_format 42"
proof -
  have t: "nf_text nat_format 42 = ''42''" by code_simp
  have "nf_read nat_format (''42'' @ rest) = (42, rest)" if "json_is_number_delimiter rest" for rest
  proof -
    have "takeWhile c_isdigit rest = []" "dropWhile c_isdigit rest = rest"
      using that by (cases rest; auto simp: json_is_number_delimiter_def json_ws_def c_isdigit_def)+
    moreover have "c_isdigit (CHR ''4'')" "c_isdigit (CHR ''2'')" by code_simp+
    ultimately have "takeWhile c_isdigit (''42'' @ rest) = ''42''" "dropWhile c_isdigit (''42'' @ rest) = rest" by simp_all
    then show ?thesis by (simp add: nat_format_def)
  qed
  moreover have "c_isdigit (CHR ''4'')" by code_simp
  moreover have "\<not> nf_special nat_format 42" by (simp add: nat_format_def)
  ultimately show ?thesis unfolding number_reads_def t Let_def by simp
qed

definition sample_value :: "nat svalue" where
  "sample_value = V_map [(''a'', V_list [V_number 42, V_bool True, V_empty]), (''b'', V_map [(''c'', V_string [CHR ''x'', dquote])])]"

definition sample_text :: string where
  "sample_text = ''{'' @ [dquote] @ ''a'' @ [dquote] @ '':[42,true,null],'' @ [dquote] @ ''b'' @ [dquote] @ '':{'' @ [dquote] @ ''c'' @ [dquote] @
     '':'' @ [dquote, CHR ''x'', bslash, dquote, dquote] @ ''}}''"

theorem json_document_roundtrip_witness: "arksh_value_parse_json nat_format sample_text = Inr sample_value"
proof (rule json_document_roundtrip)
  show "json_typed json_max_depth sample_value" by code_simp
  have "nf_text nat_format 42 = ''42''" "concat (map json_escape [CHR ''x'', dquote]) = [CHR ''x'', bslash, dquote]"
    "concat (map json_escape ''a'') = ''a''" "concat (map json_escape ''b'') = ''b''" "concat (map json_escape ''c'') = ''c''"
    by code_simp+
  moreover have "\<not> nf_special nat_format d" for d by (simp add: nat_format_def)
  ultimately show "arksh_value_to_json nat_format 256 sample_value = Some sample_text"
    by (simp add: arksh_value_to_json_def sample_value_def sample_text_def append_char_def append_text_def
        append_json_escaped_string_eq format_number_json_def format_number_def max_output_def)
  show "\<forall>d \<in> set (numbers_of sample_value). number_reads nat_format d"
    using nat_format_reads by (simp add: sample_value_def)
qed simp

text \<open>
  (C15) What is read is well typed: if \<open>strtod\<close> leaves an end of its text, reading any text as JSON ends,
  and a value that is read consists of null, booleans, numbers, strings shorter than the output
  buffer, lists and maps, with at most 128 levels around each value, and distinct keys in each map
  that are not empty and fit their array.
\<close>

theorem json_parse_typed:
  assumes "number_suffix nf"
  shows "case arksh_value_parse_json nf t of
      Inr v \<Rightarrow> json_typed json_max_depth v \<and> value_ok v
    | Inl e \<Rightarrow> e \<noteq> Too_many_elements"
proof -
  have ok: "reader_ok (json_typed json_max_depth) (json_parse_value_internal nf (Suc json_max_depth))"
    by (rule parse_value_ok [OF assms])
  show ?thesis
  proof (cases "json_parse_value_internal nf (Suc json_max_depth) t")
    case (Inl e)
    then have "e \<noteq> Too_many_elements" using ok unfolding reader_ok_def by blast
    then show ?thesis using Inl by (simp add: arksh_value_parse_json_def del: json_parse_value_internal.simps)
  next
    case (Inr p)
    obtain v r where p: "p = (v, r)" by fastforce
    have "json_typed json_max_depth v" using reader_okD [OF ok] Inr p by blast
    then show ?thesis using Inr p json_typed_value_ok [of json_max_depth v]
      by (simp add: arksh_value_parse_json_def del: json_parse_value_internal.simps)
  qed
qed

theorem json_parse_typed_witness:
  "\<exists>v. arksh_value_parse_json nat_format ''[42, {}]'' = Inr v \<and> json_typed json_max_depth v \<and> value_ok v"
proof -
  have "arksh_value_parse_json nat_format ''[42, {}]'' = Inr (V_list [V_number 42, V_map []])" by code_simp
  then show ?thesis using json_parse_typed [OF nat_format_suffix, of "''[42, {}]''"] by simp
qed

end
