(* ===== verification/Value_Laws.thy ===== *)
theory Value_Laws
  imports Json_Laws
begin

text \<open>
  Maps of values refine finite maps, operations keep values well formed, and paths read what was
  written through them.
\<close>

subsection \<open>Maps\<close>

definition well_keyed :: "'d svalue \<Rightarrow> bool" where
  "well_keyed v \<longleftrightarrow> (\<forall>es. entries_of v = Some es \<longrightarrow> entries_ok es)"

lemma map_like_cases:
  assumes "value_is_map_like v"
  obtains es where "v = V_map es" | es where "v = V_dict es"
  using assms by (cases v) (auto simp: value_is_map_like_def)

lemma map_set_some:
  assumes "value_is_map_like v" and "key_ok k"
  shows "\<exists>v' es. arksh_value_map_set v k x = Some v' \<and> entries_of v = Some es \<and>
    entries_of v' = Some (entry_set es k (arksh_value_item_set_from_value x)) \<and> is_dict v' = is_dict v"
  using assms by (cases v) (auto simp: value_is_map_like_def arksh_value_map_set_def key_ok_def Let_def)

lemma map_set_lookup:
  assumes "value_is_map_like v" and "key_ok k" and "arksh_value_map_set v k x = Some v'"
  shows "arksh_value_map_get_item v' = (arksh_value_map_get_item v)(k \<mapsto> arksh_value_item_set_from_value x)"
    and "value_is_map_like v'" and "well_keyed v \<Longrightarrow> well_keyed v'" and "is_dict v' = is_dict v"
proof -
  obtain es where es: "entries_of v = Some es" "entries_of v' = Some (entry_set es k (arksh_value_item_set_from_value x))"
    "is_dict v' = is_dict v"
    using map_set_some [OF assms(1,2), of x] assms(3) by auto
  show "arksh_value_map_get_item v' = (arksh_value_map_get_item v)(k \<mapsto> arksh_value_item_set_from_value x)"
    using es entry_set_lookup [OF assms(2), of es "arksh_value_item_set_from_value x"]
    by (auto simp: fun_eq_iff arksh_value_map_get_item_def)
  show "value_is_map_like v'" using es by (simp add: value_is_map_like_def)
  show "well_keyed v'" if "well_keyed v" using es entry_set_ok [OF assms(2)] that by (simp add: well_keyed_def)
  show "is_dict v' = is_dict v" by (rule es)
qed

lemma map_add_upd_left_none: "m2 k = None \<Longrightarrow> (m1(k \<mapsto> x)) ++ m2 = m1 ++ m2(k \<mapsto> x)"
  by (simp add: fun_eq_iff map_add_def split: option.split)

lemma merge_loop_refines:
  "value_is_map_like out \<Longrightarrow> entries_ok es \<Longrightarrow> \<forall>e \<in> set es. stored (snd e) \<Longrightarrow>
   \<exists>m. merge_loop es out = Inr m \<and> value_is_map_like m \<and> is_dict m = is_dict out \<and>
     arksh_value_map_get_item m = arksh_value_map_get_item out ++ map_of es \<and> (well_keyed out \<longrightarrow> well_keyed m)"
proof (induction es arbitrary: out)
  case (Cons e es)
  obtain k x where e: "e = (k, x)" by fastforce
  have k: "key_ok k" "k \<notin> fst ` set es" and es: "entries_ok es" and x: "arksh_value_item_set_from_value x = x"
    using Cons.prems by (auto simp: e entries_ok_def stored_def)
  obtain out1 where o: "arksh_value_map_set out k x = Some out1" using map_set_some [OF Cons.prems(1) k(1), of x] by auto
  note lk = map_set_lookup [OF Cons.prems(1) k(1) o]
  obtain m where m: "merge_loop es out1 = Inr m" "value_is_map_like m" "is_dict m = is_dict out1"
    "arksh_value_map_get_item m = arksh_value_map_get_item out1 ++ map_of es" "well_keyed out1 \<longrightarrow> well_keyed m"
    using Cons.IH [OF lk(2) es] Cons.prems(3) by auto
  have "map_of es k = None" using k(2) by (simp add: map_of_eq_None_iff)
  then have "(arksh_value_map_get_item out)(k \<mapsto> x) ++ map_of es = arksh_value_map_get_item out ++ (map_of es)(k \<mapsto> x)"
    by (rule map_add_upd_left_none)
  then have "arksh_value_map_get_item m = arksh_value_map_get_item out ++ map_of (e # es)"
    unfolding m(4) lk(1) x by (simp add: e)
  then show ?case using m(1-3,5) o lk(3,4) unfolding e merge_loop.simps o option.case by blast
qed auto

lemma pick_loop_refines:
  "value_is_map_like out \<Longrightarrow> well_keyed v \<Longrightarrow> \<forall>es. entries_of v = Some es \<longrightarrow> (\<forall>e \<in> set es. stored (snd e)) \<Longrightarrow>
   \<exists>m. pick_loop v ks out = Inr m \<and> value_is_map_like m \<and> is_dict m = is_dict out \<and>
     arksh_value_map_get_item m = arksh_value_map_get_item out ++ (arksh_value_map_get_item v |` set ks) \<and>
     (well_keyed out \<longrightarrow> well_keyed m)"
proof (induction ks arbitrary: out)
  case (Cons k ks)
  show ?case
  proof (cases "arksh_value_map_get_item v k")
    case None
    have "arksh_value_map_get_item v |` set (k # ks) = arksh_value_map_get_item v |` set ks"
      using None by (auto simp: fun_eq_iff restrict_map_def)
    then show ?thesis using Cons None by simp
  next
    case (Some x)
    then obtain es where es: "entries_of v = Some es" "map_of es k = Some x"
      by (auto simp: arksh_value_map_get_item_def split: option.splits)
    then have "(k, x) \<in> set es" by (simp add: map_of_SomeD)
    then have k: "key_ok k" and x: "arksh_value_item_set_from_value x = x"
      using Cons.prems(2,3) es(1) by (fastforce simp: well_keyed_def entries_ok_def list_all_iff stored_def)+
    obtain out1 where o: "arksh_value_map_set out k x = Some out1" using map_set_some [OF Cons.prems(1) k, of x] by auto
    note lk = map_set_lookup [OF Cons.prems(1) k o]
    obtain m where m: "pick_loop v ks out1 = Inr m" "value_is_map_like m" "is_dict m = is_dict out1"
      "arksh_value_map_get_item m = arksh_value_map_get_item out1 ++ (arksh_value_map_get_item v |` set ks)"
      "well_keyed out1 \<longrightarrow> well_keyed m"
      using Cons.IH [OF lk(2) Cons.prems(2,3)] by auto
    have "arksh_value_map_get_item m = arksh_value_map_get_item out ++ (arksh_value_map_get_item v |` set (k # ks))"
      unfolding m(4) lk(1) x using Some by (auto simp: fun_eq_iff map_add_def restrict_map_def split: option.split)
    then show ?thesis using m(1-3,5) o lk(3,4) Some by auto
  qed
qed auto

lemma value_ok_keyed: "value_ok v \<Longrightarrow> well_keyed v"
  by (cases v) (simp_all add: well_keyed_def)

lemma value_ok_entries: "value_ok v \<Longrightarrow> entries_of v = Some es \<Longrightarrow> \<forall>e \<in> set es. stored (snd e) \<and> value_ok (snd e)"
  by (cases v) auto

lemma merge_refines:
  assumes "value_is_map_like v" and "value_is_map_like w" and "value_ok w"
  shows "\<exists>v2. arksh_value_merge v w = Inr v2 \<and> is_dict v2 = is_dict v \<and>
      arksh_value_map_get_item v2 = arksh_value_map_get_item v ++ arksh_value_map_get_item w"
proof -
  obtain ws where ws: "entries_of w = Some ws" using assms(2) by (auto simp: value_is_map_like_def)
  have "entries_ok ws" "\<forall>e \<in> set ws. stored (snd e)"
    using value_ok_keyed [OF assms(3)] value_ok_entries [OF assms(3) ws] ws by (auto simp: well_keyed_def)
  from merge_loop_refines [OF assms(1) this]
  obtain m where m: "merge_loop ws v = Inr m" "is_dict m = is_dict v"
    "arksh_value_map_get_item m = arksh_value_map_get_item v ++ map_of ws" by blast
  have w: "arksh_value_map_get_item w = map_of ws" by (simp add: arksh_value_map_get_item_def ws fun_eq_iff)
  show ?thesis using m assms(1) ws by (simp add: arksh_value_merge_def w)
qed

lemma empty_like_facts [simp]:
  "value_is_map_like (empty_like v)" "well_keyed (empty_like v)" "arksh_value_map_get_item (empty_like v) = Map.empty"
  "is_dict (empty_like v) = is_dict v"
  by (cases v; simp add: empty_like_def value_is_map_like_def well_keyed_def entries_ok_def arksh_value_map_get_item_def fun_eq_iff)+

lemma type_key_ok [simp]: "key_ok type_key"
  by (simp add: key_ok_def type_key_def max_name_def)

lemma tag_add_restrict: "m k = Some x \<Longrightarrow> [k \<mapsto> x] ++ (m |` A) = m |` (A \<union> {k})"
  by (auto simp: fun_eq_iff map_add_def restrict_map_def split: option.split)

lemma none_restrict: "m k = None \<Longrightarrow> m |` (A \<union> {k}) = m |` A"
  by (auto simp: fun_eq_iff restrict_map_def)

lemma pick_refines:
  assumes "value_is_map_like v" and "value_ok v"
  shows "\<exists>v3. arksh_value_pick v ks = Inr v3 \<and> is_dict v3 = is_dict v \<and>
      arksh_value_map_get_item v3 = arksh_value_map_get_item v |` (set ks \<union> (if is_dict v then {} else {type_key}))"
proof -
  have wk: "well_keyed v" and st: "\<forall>es. entries_of v = Some es \<longrightarrow> (\<forall>e \<in> set es. stored (snd e))"
    using value_ok_keyed [OF assms(2)] value_ok_entries [OF assms(2)] by auto
  note loop = pick_loop_refines [OF _ wk st]
  show ?thesis
  proof (cases "is_dict v \<or> arksh_value_map_get_item v type_key = None")
    case True
    have "arksh_value_pick v ks = pick_loop v ks (empty_like v)"
      using True assms(1) by (cases v) (auto simp: arksh_value_pick_def value_is_map_like_def)
    moreover have "arksh_value_map_get_item v |` (set ks \<union> (if is_dict v then {} else {type_key})) =
        arksh_value_map_get_item v |` set ks"
      using True none_restrict [of "arksh_value_map_get_item v" type_key] by auto
    ultimately show ?thesis using loop [of "empty_like v" ks] by auto
  next
    case False
    then obtain t where t: "arksh_value_map_get_item v type_key = Some t" and d: "\<not> is_dict v" by auto
    obtain es where es: "v = V_map es" using map_like_cases [OF assms(1)] d by (metis is_dict.simps(1))
    have "(type_key, t) \<in> set es" using t es by (simp add: arksh_value_map_get_item_def map_of_SomeD)
    then have x: "arksh_value_item_set_from_value t = t" using st es by (fastforce simp: stored_def)
    obtain out where o: "arksh_value_map_set (empty_like v) type_key t = Some out"
      using map_set_some [of "empty_like v" type_key t] by auto
    note lk = map_set_lookup [OF empty_like_facts(1) type_key_ok o]
    have "arksh_value_pick v ks = pick_loop v ks out"
      using assms(1) t o es by (simp add: arksh_value_pick_def)
    moreover have "[type_key \<mapsto> t] ++ (arksh_value_map_get_item v |` set ks) =
        arksh_value_map_get_item v |` (set ks \<union> {type_key})"
      by (rule tag_add_restrict [where m = "arksh_value_map_get_item v"], rule t)
    ultimately show ?thesis using loop [OF lk(2), of ks] lk(1,4) x d by auto
  qed
qed

text \<open>
  (C13) Maps and dictionaries of values refine finite maps: with the lookup of a key as the abstraction,
  setting a key is an update, merging is the right-biased union, and picking keys is a restriction,
  which for maps keeps the type tag as well; none of them fails on well-formed values with a key that
  fits.
\<close>

theorem value_maps_refine:
  assumes "value_is_map_like v" and "value_ok v" and "value_is_map_like w" and "value_ok w" and "key_ok k"
  shows "(\<exists>v1. arksh_value_map_set v k x = Some v1 \<and> is_dict v1 = is_dict v \<and>
      arksh_value_map_get_item v1 = (arksh_value_map_get_item v)(k \<mapsto> arksh_value_item_set_from_value x)) \<and>
    (\<exists>v2. arksh_value_merge v w = Inr v2 \<and> is_dict v2 = is_dict v \<and>
      arksh_value_map_get_item v2 = arksh_value_map_get_item v ++ arksh_value_map_get_item w) \<and>
    (\<exists>v3. arksh_value_pick v ks = Inr v3 \<and> is_dict v3 = is_dict v \<and>
      arksh_value_map_get_item v3 =
        arksh_value_map_get_item v |` (set ks \<union> (if is_dict v then {} else {type_key})))"
  using map_set_some [OF assms(1,5), of x] map_set_lookup(1) [OF assms(1,5)] map_set_lookup(4) [OF assms(1,5)]
    merge_refines [OF assms(1,3,4)] pick_refines [OF assms(1,2), of ks] by blast

lemma value_maps_refine_witness:
  "(\<exists>v1. arksh_value_map_set (V_map [(''a'', V_bool True)]) ''b'' (V_number (1::nat)) = Some v1 \<and> is_dict v1 = False \<and>
      arksh_value_map_get_item v1 ''b'' = Some (V_number 1)) \<and>
    (\<exists>v2. arksh_value_merge (V_map [(''a'', V_bool True)]) (V_dict [(''a'', V_number (2::nat))]) = Inr v2 \<and>
      arksh_value_map_get_item v2 ''a'' = Some (V_number 2))"
proof -
  have p: "value_is_map_like (V_map [(''a'', V_bool True)] :: nat svalue)" "value_ok (V_map [(''a'', V_bool True)] :: nat svalue)"
    "value_is_map_like (V_dict [(''a'', V_number (2::nat))])" "value_ok (V_dict [(''a'', V_number (2::nat))])" "key_ok ''b''"
    by (simp_all add: value_is_map_like_def entries_ok_def key_ok_def max_name_def stored_def arksh_value_item_set_from_value_def)
  show ?thesis
    using value_maps_refine [OF p, of "V_number 1" "[]"]
    by (fastforce simp: arksh_value_item_set_from_value_def arksh_value_map_get_item_def)
qed

lemma item_ok [simp]:
  "stored (arksh_value_item_set_from_value u)" "value_ok u \<Longrightarrow> value_ok (arksh_value_item_set_from_value u)"
  by (cases u; simp add: stored_def arksh_value_item_set_from_value_def)+

lemma map_set_ok:
  assumes "value_ok v" and "value_ok x" and "length k < max_name" and "arksh_value_map_set v k x = Some v1"
  shows "value_ok v1"
proof -
  have k: "key_ok k" using assms(3,4) by (cases "k = []") (simp_all add: key_ok_def arksh_value_map_set_def)
  have step: "entries_ok (entry_set es k (arksh_value_item_set_from_value x)) \<and>
      (\<forall>e \<in> set (entry_set es k (arksh_value_item_set_from_value x)). stored (snd e) \<and> value_ok (snd e))"
    if "entries_ok es" "\<forall>e \<in> set es. stored (snd e) \<and> value_ok (snd e)" for es
    using entry_set_ok [OF k that(1)] assms(2)
      entry_set_all [OF that(2), of "arksh_value_item_set_from_value x" k] by simp
  have ne: "k \<noteq> []" using k by (simp add: key_ok_def)
  consider "v = V_empty" | es where "v = V_map es" | es where "v = V_dict es"
    using assms(4) ne by (cases v) (auto simp: arksh_value_map_set_def)
  then show ?thesis
  proof cases
    case 1
    have "v1 = V_map (entry_set [] k (arksh_value_item_set_from_value x))"
      using assms(4) ne 1 by (simp add: arksh_value_map_set_def)
    then show ?thesis using step [of "[]"] by (simp add: entries_ok_def)
  next
    case (2 es)
    have "v1 = V_map (entry_set es k (arksh_value_item_set_from_value x))"
      using assms(4) ne 2 by (simp add: arksh_value_map_set_def)
    then show ?thesis using step [of es] assms(1) 2 by simp
  next
    case (3 es)
    have "v1 = V_dict (entry_set es k (arksh_value_item_set_from_value x))"
      using assms(4) ne 3 by (simp add: arksh_value_map_set_def)
    then show ?thesis using step [of es] assms(1) 3 by simp
  qed
qed

lemma merge_loop_ok:
  "value_ok out \<Longrightarrow> entries_ok es \<Longrightarrow> \<forall>e \<in> set es. value_ok (snd e) \<Longrightarrow> merge_loop es out = Inr m \<Longrightarrow> value_ok m"
proof (induction es arbitrary: out)
  case (Cons e es)
  obtain k x where e: "e = (k, x)" by fastforce
  obtain out1 where o: "arksh_value_map_set out k x = Some out1" "merge_loop es out1 = Inr m"
    using Cons.prems(4) by (auto simp: e split: option.splits)
  have "length k < max_name" "value_ok x" "entries_ok es" using Cons.prems(2,3) by (auto simp: e entries_ok_def key_ok_def)
  then show ?case using Cons.IH [of out1] map_set_ok [OF Cons.prems(1) _ _ o(1)] o(2) Cons.prems(3) by simp
qed simp

lemma map_get_ok:
  assumes "value_ok v" and "arksh_value_map_get_item v k = Some x"
  shows "length k < max_name" and "value_ok x"
proof -
  obtain es where es: "entries_of v = Some es" "map_of es k = Some x"
    using assms(2) by (auto simp: arksh_value_map_get_item_def split: option.splits)
  then have "(k, x) \<in> set es" by (simp add: map_of_SomeD)
  then show "length k < max_name" and "value_ok x"
    using value_ok_keyed [OF assms(1)] value_ok_entries [OF assms(1) es(1)] es(1)
    by (fastforce simp: well_keyed_def entries_ok_def list_all_iff key_ok_def)+
qed

lemma pick_loop_ok: "value_ok v \<Longrightarrow> value_ok out \<Longrightarrow> pick_loop v ks out = Inr m \<Longrightarrow> value_ok m"
proof (induction ks arbitrary: out)
  case (Cons k ks)
  show ?case
  proof (cases "arksh_value_map_get_item v k")
    case (Some x)
    then obtain out1 where o: "arksh_value_map_set out k x = Some out1" "pick_loop v ks out1 = Inr m"
      using Cons.prems(3) by (auto split: option.splits)
    show ?thesis
      using Cons.IH [OF Cons.prems(1) _ o(2)] map_set_ok [OF Cons.prems(2) _ _ o(1)] map_get_ok [OF Cons.prems(1) Some] by simp
  qed (use Cons in simp)
qed simp

lemma pick_ok:
  assumes "value_ok v" and "arksh_value_pick v ks = Inr m"
  shows "value_ok m"
proof -
  have e: "value_ok (empty_like v)" by (cases v) (simp_all add: empty_like_def entries_ok_def)
  obtain out where o: "pick_loop v ks out = Inr m" "out = empty_like v \<or>
      (\<exists>t. arksh_value_map_get_item v type_key = Some t \<and> arksh_value_map_set (empty_like v) type_key t = Some out)"
    using assms(2) by (cases v) (auto simp: arksh_value_pick_def split: if_splits option.splits)
  have "value_ok out" using o(2) e map_set_ok [OF e] map_get_ok [OF assms(1)] by blast
  then show ?thesis by (rule pick_loop_ok [OF assms(1) _ o(1)])
qed

lemma merge_ok:
  assumes "value_ok v" and "value_ok x" and "arksh_value_merge v x = Inr m"
  shows "value_ok m"
proof -
  obtain es where es: "entries_of x = Some es" "merge_loop es v = Inr m"
    using assms(3) by (auto simp: arksh_value_merge_def split: if_splits option.splits)
  show ?thesis
    using merge_loop_ok [OF assms(1) _ _ es(2)] value_ok_keyed [OF assms(2)] value_ok_entries [OF assms(2) es(1)] es(1)
    by (auto simp: well_keyed_def)
qed

lemma list_append_ok:
  assumes "value_ok v" and "value_ok x" and "arksh_value_list_append_value v x = Some m"
  shows "value_ok m"
  using assms by (cases v) (auto simp: arksh_value_list_append_value_def Let_def)

subsection \<open>Paths\<close>

lemma path_loop_keys: "path_loop acc cs = Inr segs \<Longrightarrow> \<forall>p \<in> set acc. key_ok (fst p) \<Longrightarrow> \<forall>p \<in> set segs. key_ok (fst p)"
proof (induction acc cs rule: path_loop.induct)
  case (1 acc cs)
  let ?cs = "dropWhile (\<lambda>c. c = CHR ''.'') cs"
  let ?body = "takeWhile (\<lambda>c. c \<noteq> CHR '']'') (tl ?cs)" and ?rest = "dropWhile (\<lambda>c. c \<noteq> CHR '']'') (tl ?cs)"
  let ?in = "\<lambda>c. c \<noteq> CHR ''.'' \<and> c \<noteq> CHR ''[''"
  note step = "1.prems"(1) [unfolded path_loop.simps [of acc cs] Let_def]
  consider "?cs = []" | "?cs \<noteq> []" "hd ?cs = CHR ''[''" | "?cs \<noteq> []" "hd ?cs \<noteq> CHR ''[''" by blast
  then show ?case
  proof cases
    case 1
    then show ?thesis using step "1.prems"(2) by simp
  next
    case 2
    have b: "length acc < max_value_path_segments" "length ?body < max_name" "?rest \<noteq> []" "?body \<noteq> []"
      and r: "path_loop (acc @ [(?body, True)]) (tl ?rest) = Inr segs"
      using step 2 by (simp_all split: if_splits)
    show ?thesis
      by (rule "1.IH"(1) [OF refl _ _ _ refl refl _ _ _ r]) (use b 2 "1.prems"(2) in \<open>auto simp: key_ok_def\<close>)
  next
    case 3
    have b: "length acc < max_value_path_segments" "length (takeWhile ?in ?cs) < max_name"
      and r: "path_loop (acc @ [(takeWhile ?in ?cs, False)]) (dropWhile ?in ?cs) = Inr segs"
      using step 3 by (simp_all split: if_splits)
    have "hd ?cs \<noteq> CHR ''.''" by (rule dropWhile_dots_hd [OF 3(1)])
    then have "takeWhile ?in ?cs \<noteq> []" using 3 by (cases ?cs) auto
    then show ?thesis
      by (intro "1.IH"(2) [OF refl _ _ _ refl refl _ r]) (use b 3 "1.prems"(2) in \<open>auto simp: key_ok_def\<close>)
  qed
qed

lemma path_segments_keys:
  assumes "parse_value_path_segments path = Inr segs"
  shows "segs \<noteq> []" and "\<forall>p \<in> set segs. key_ok (fst p)"
  using assms path_loop_keys [of "[]" "dropWhile c_isspace path"]
  by (auto simp: parse_value_path_segments_def bind_err_def split: sum.splits if_splits)

text \<open>Neither path leads through the place the other one leads to.\<close>

fun independent :: "path_segment list \<Rightarrow> path_segment list \<Rightarrow> bool" where
  "independent ((t, _) # p) ((u, _) # q) \<longleftrightarrow>
     (if t = u then independent p q else parse_path_index t = None \<or> parse_path_index t \<noteq> parse_path_index u)"
| "independent _ _ \<longleftrightarrow> False"

definition get_from :: "'d svalue option \<Rightarrow> path_segment list \<Rightarrow> 'd svalue option" where
  "get_from cur q = (case cur of None \<Rightarrow> None | Some c \<Rightarrow> get_segments c q)"

definition seg_get :: "'d svalue \<Rightarrow> string \<Rightarrow> 'd svalue option" where
  "seg_get v t =
     (if value_is_map_like v then arksh_value_map_get_item v t
      else (case v of
          V_list xs \<Rightarrow> (case parse_path_index t of None \<Rightarrow> None | Some i \<Rightarrow> if i \<ge> length xs then None else Some (xs ! i))
        | _ \<Rightarrow> None))"

lemma get_segments_step: "get_segments v ((t, b) # q) = get_from (seg_get v t) q"
  by (simp add: seg_get_def get_from_def)

declare get_segments.simps(2) [simp del]

text \<open>What one segment of a successful update does.\<close>

lemma set_path_step:
  assumes "set_path_recursive cur dict ((t, b) # segs) r = Inr v'" and "key_ok t"
  shows "\<exists>cur1 dict1 u. set_path_recursive cur1 dict1 segs r = Inr u \<and> stored v' \<and>
    (cur1 = (case cur of None \<Rightarrow> None | Some c \<Rightarrow> seg_get c t)) \<and>
    seg_get v' t = Some (arksh_value_item_set_from_value u) \<and>
    (\<forall>t2. t2 \<noteq> t \<longrightarrow> (parse_path_index t = None \<or> parse_path_index t \<noteq> parse_path_index t2) \<longrightarrow>
      seg_get v' t2 = (case cur of None \<Rightarrow> None | Some c \<Rightarrow> seg_get c t2)) \<and>
    ((\<forall>c. cur = Some c \<longrightarrow> value_ok c) \<longrightarrow> (\<forall>c. cur1 = Some c \<longrightarrow> value_ok c) \<and> (value_ok u \<longrightarrow> value_ok v'))"
proof -
  define base where "base = (if cur = None \<or> cur = Some V_empty then (if dict then V_dict [] else V_map []) else the cur)"
  have g: "seg_get base t2 = (case cur of None \<Rightarrow> None | Some c \<Rightarrow> seg_get c t2)" for t2
    by (cases cur) (auto simp: base_def seg_get_def value_is_map_like_def arksh_value_map_get_item_def)
  have vb: "value_ok base" if "\<forall>c. cur = Some c \<longrightarrow> value_ok c"
    using that by (cases cur) (auto simp: base_def entries_ok_def)
  show ?thesis
  proof (cases "value_is_map_like base")
    case True
    have "bind_err (set_path_recursive (arksh_value_map_get_item base t) (is_dict base) segs r) (\<lambda>updated.
        case arksh_value_map_set base t updated of None \<Rightarrow> Inl Map_update | Some v \<Rightarrow> Inr v) = Inr v'"
      using assms(1) True unfolding set_path_recursive.simps Let_def base_def [symmetric]
      by (metis (no_types, lifting) Inl_Inr_False base_def)
    then obtain u where u: "set_path_recursive (arksh_value_map_get_item base t) (is_dict base) segs r = Inr u"
      "arksh_value_map_set base t u = Some v'"
      by (auto simp: bind_err_def split: sum.splits option.splits)
    note lk = map_set_lookup [OF True assms(2) u(2)]
    obtain es where es: "entries_of base = Some es"
      "entries_of v' = Some (entry_set es t (arksh_value_item_set_from_value u))"
      using map_set_some [OF True assms(2), of u] u(2) by auto
    have s: "seg_get w t2 = arksh_value_map_get_item w t2" if "value_is_map_like w" for w :: "'a svalue" and t2
      using that by (simp add: seg_get_def)
    have "stored v'" using es(2) by (cases v') (simp_all add: stored_def arksh_value_item_set_from_value_def)
    moreover have "value_ok v'" if "\<forall>c. cur = Some c \<longrightarrow> value_ok c" "value_ok u"
      using map_set_ok [OF vb [OF that(1)] that(2) _ u(2)] assms(2) by (simp add: key_ok_def)
    moreover have "\<forall>c. seg_get base t = Some c \<longrightarrow> value_ok c" if "\<forall>c. cur = Some c \<longrightarrow> value_ok c"
      using value_ok_entries [OF vb [OF that] es(1)] es(1) s [OF True]
      by (fastforce simp: arksh_value_map_get_item_def dest: map_of_SomeD)
    ultimately show ?thesis using u(1) lk(1) s [OF True] s [OF lk(2)] g by (metis fun_upd_apply)
  next
    case False
    then obtain c where c: "cur = Some c" "base = c" "c \<noteq> V_empty"
      by (cases cur; cases dict) (auto simp: base_def value_is_map_like_def split: if_splits)
    note step = assms(1) [unfolded set_path_recursive.simps Let_def c(1)]
    obtain xs where xs: "c = V_list xs"
      using step False c by (cases c) (simp_all add: value_is_map_like_def)
    obtain i where i: "parse_path_index t = Some i" "i < length xs"
      using step by (auto simp: xs value_is_map_like_def split: option.splits if_splits)
    have "bind_err (set_path_recursive (Some (xs ! i)) False segs r) (\<lambda>updated.
        Inr (V_list (xs[i := arksh_value_item_set_from_value updated]))) = Inr v'"
      using step i by (cases segs) (simp_all add: xs value_is_map_like_def bind_err_def)
    then obtain u where u: "set_path_recursive (Some (xs ! i)) False segs r = Inr u"
      "v' = V_list (xs[i := arksh_value_item_set_from_value u])"
      by (auto simp: bind_err_def split: sum.splits)
    have s: "seg_get (V_list ys) t2 = (case parse_path_index t2 of None \<Rightarrow> None | Some j \<Rightarrow> if j \<ge> length ys then None else Some (ys ! j))"
      for ys :: "'a svalue list" and t2
      by (simp add: seg_get_def value_is_map_like_def)
    have item: "stored (arksh_value_item_set_from_value u) \<and> (value_ok u \<longrightarrow> value_ok (arksh_value_item_set_from_value u))"
      by (cases u) (simp_all add: stored_def arksh_value_item_set_from_value_def)
    have "seg_get v' t2 = seg_get c t2" if "parse_path_index t \<noteq> parse_path_index t2" for t2
      using that i by (auto simp: s xs u(2) split: option.split)
    moreover have "seg_get v' t = Some (arksh_value_item_set_from_value u)" and "seg_get c t = Some (xs ! i)"
      using i by (simp_all add: s xs u(2))
    moreover have "stored v'" by (simp add: u(2) stored_def arksh_value_item_set_from_value_def)
    moreover have "value_ok v'" if "value_ok c" "value_ok u"
      using that item by (auto simp: xs u(2) dest!: set_update_subset_insert [THEN subsetD])
    moreover have "value_ok (xs ! i)" if "value_ok c" using that i by (simp add: xs)
    ultimately show ?thesis using u(1) i(1) c(1) by (intro exI [of _ "Some (xs ! i)"] exI [of _ False] exI [of _ u]) auto
  qed
qed

lemma set_path_stored:
  "set_path_recursive cur dict segs r = Inr v' \<Longrightarrow> \<forall>p \<in> set segs. key_ok (fst p) \<Longrightarrow> segs \<noteq> [] \<Longrightarrow> stored v'"
  using set_path_step by (cases segs) fastforce+

lemma set_path_reads:
  "set_path_recursive cur dict segs r = Inr v' \<Longrightarrow> \<forall>p \<in> set segs. key_ok (fst p) \<Longrightarrow> segs \<noteq> [] \<Longrightarrow>
   get_segments v' segs = Some (arksh_value_item_set_from_value r) \<and>
   (\<forall>q. independent segs q \<longrightarrow> get_segments v' q = get_from cur q) \<and>
   (value_ok r \<longrightarrow> (\<forall>c. cur = Some c \<longrightarrow> value_ok c) \<longrightarrow> value_ok v')"
proof (induction segs arbitrary: cur dict v')
  case (Cons p segs)
  obtain t b where p: "p = (t, b)" by fastforce
  have t: "key_ok t" and ks: "\<forall>p \<in> set segs. key_ok (fst p)" using Cons.prems(2) by (auto simp: p)
  obtain cur1 dict1 u where u: "set_path_recursive cur1 dict1 segs r = Inr u"
    "cur1 = (case cur of None \<Rightarrow> None | Some c \<Rightarrow> seg_get c t)"
    "seg_get v' t = Some (arksh_value_item_set_from_value u)"
    "\<And>t2. t2 \<noteq> t \<Longrightarrow> parse_path_index t = None \<or> parse_path_index t \<noteq> parse_path_index t2 \<Longrightarrow>
      seg_get v' t2 = (case cur of None \<Rightarrow> None | Some c \<Rightarrow> seg_get c t2)"
    "(\<forall>c. cur = Some c \<longrightarrow> value_ok c) \<Longrightarrow> (\<forall>c. cur1 = Some c \<longrightarrow> value_ok c) \<and> (value_ok u \<longrightarrow> value_ok v')"
    using set_path_step [OF Cons.prems(1) [unfolded p] t] by blast
  have get1: "get_from cur ((t2, b2) # q) = get_from (case cur of None \<Rightarrow> None | Some c \<Rightarrow> seg_get c t2) q" for t2 b2 q
    by (cases cur) (simp_all add: get_from_def get_segments_step)
  show ?case
  proof (cases "segs = []")
    case True
    then have "u = r" using u(1) by simp
    moreover have "get_segments v' q = get_from cur q" if q: "independent (p # segs) q" for q
    proof (cases q)
      case (Cons p2 q2)
      obtain t2 b2 where "p2 = (t2, b2)" by fastforce
      then show ?thesis using q Cons True u(4) [of t2] by (auto simp: p get1 get_segments_step split: if_splits)
    qed (use q in \<open>simp add: p\<close>)
    moreover have "get_segments v' (p # segs) = Some (arksh_value_item_set_from_value u)"
      using u(3) True by (simp add: p get_segments_step get_from_def)
    ultimately show ?thesis using u(5) by blast
  next
    case False
    have st: "arksh_value_item_set_from_value u = u" using set_path_stored [OF u(1) ks False] by (simp add: stored_def)
    note ih = Cons.IH [OF u(1) ks False]
    have "get_segments v' q = get_from cur q" if q: "independent (p # segs) q" for q
    proof (cases q)
      case (Cons p2 q2)
      obtain t2 b2 where p2: "p2 = (t2, b2)" by fastforce
      show ?thesis
      proof (cases "t2 = t")
        case True
        then have "independent segs q2" using q Cons p2 by (simp add: p)
        then have "get_segments u q2 = get_from cur1 q2" using ih by blast
        moreover have "get_segments v' q = get_segments u q2" using u(3) st True by (simp add: Cons p2 get_segments_step get_from_def)
        ultimately show ?thesis unfolding Cons p2 get1 u(2) True by simp
      next
        case False
        then show ?thesis using q u(4) [of t2] by (auto simp: Cons p p2 get1 get_segments_step split: if_splits)
      qed
    qed (use q in \<open>simp add: p\<close>)
    moreover have "get_segments v' (p # segs) = Some (arksh_value_item_set_from_value r)"
      using ih u(3) st by (simp add: p get_segments_step get_from_def)
    moreover have "value_ok v'" if "value_ok r" "\<forall>c. cur = Some c \<longrightarrow> value_ok c"
      using ih u(5) [OF that(2)] that by blast
    ultimately show ?thesis by blast
  qed
qed simp

text \<open>
  (C14) An update through a path succeeds only by storing: reading the same path gives the value as an
  item keeps it, and reading any path that does not lead through that place gives what it gave before,
  whatever maps were created on the way.
\<close>

theorem path_update_reads_back:
  assumes "arksh_value_set_path v path r = Inr v'"
  shows "arksh_value_get_path v' path = Inr (Some (arksh_value_item_set_from_value r)) \<and>
    (\<forall>path2 segs segs2. parse_value_path_segments path = Inr segs \<longrightarrow> parse_value_path_segments path2 = Inr segs2 \<longrightarrow>
       independent segs segs2 \<longrightarrow> arksh_value_get_path v' path2 = arksh_value_get_path v path2)"
proof -
  obtain segs where s: "parse_value_path_segments path = Inr segs" "set_path_recursive (Some v) (is_dict v) segs r = Inr v'"
    using assms by (auto simp: arksh_value_set_path_def bind_err_def split: sum.splits if_splits)
  show ?thesis
    using set_path_reads [OF s(2) path_segments_keys(2,1) [OF s(1)]] s(1)
    by (simp add: arksh_value_get_path_def get_from_def)
qed

lemma path_update_reads_back_witness:
  "\<exists>v'. arksh_value_set_path (V_map [(''a'', V_bool True)]) ''b.c'' (V_number (3::nat)) = Inr v' \<and>
      arksh_value_get_path v' ''b.c'' = Inr (Some (V_number 3)) \<and>
      arksh_value_get_path v' ''a'' = Inr (Some (V_bool True))"
proof -
  have p: "parse_value_path_segments ''b.c'' = Inr [(''b'', False), (''c'', False)]"
    "parse_value_path_segments ''a'' = Inr [(''a'', False)]" by code_simp+
  have r: "arksh_value_set_path (V_map [(''a'', V_bool True)]) ''b.c'' (V_number (3::nat)) =
      Inr (V_map [(''a'', V_bool True), (''b'', V_map [(''c'', V_number 3)])])"
    by code_simp
  have i: "independent [(''b'', False), (''c'', False)] [(''a'', False)]"
    by (simp add: parse_path_index_def c_isdigit_def)
  have g: "arksh_value_get_path (V_map [(''a'', V_bool True)]) ''a'' = Inr (Some (V_bool True :: nat svalue))"
    by code_simp
  show ?thesis
    using path_update_reads_back [OF r] r p i g by (auto simp: arksh_value_item_set_from_value_def)
qed

lemma set_path_ok:
  assumes "value_ok v" and "value_ok x" and "arksh_value_set_path v path x = Inr m"
  shows "value_ok m"
proof -
  obtain segs where s: "parse_value_path_segments path = Inr segs" "set_path_recursive (Some v) (is_dict v) segs x = Inr m"
    using assms(3) by (auto simp: arksh_value_set_path_def bind_err_def split: sum.splits if_splits)
  show ?thesis
    using set_path_reads [OF s(2) path_segments_keys(2,1) [OF s(1)]] assms(1,2) by simp
qed

text \<open>
  (C16) Five operations that build values keep them well formed (distinct keys that fit their array,
  items without matrices): appending to a list, setting a key of fewer than 128 characters, picking,
  merging and updating a path.  A longer key is outside the claim: it is cut when it is stored but
  compared in full, so setting it twice leaves two entries with the same key.
\<close>

theorem value_operations_keep_type:
  assumes "value_ok v" and "value_ok x"
  shows "(\<forall>v1. arksh_value_list_append_value v x = Some v1 \<longrightarrow> value_ok v1) \<and>
    (\<forall>k v1. length k < max_name \<longrightarrow> arksh_value_map_set v k x = Some v1 \<longrightarrow> value_ok v1) \<and>
    (\<forall>ks v1. arksh_value_pick v ks = Inr v1 \<longrightarrow> value_ok v1) \<and>
    (\<forall>v1. arksh_value_merge v x = Inr v1 \<longrightarrow> value_ok v1) \<and>
    (\<forall>path v1. arksh_value_set_path v path x = Inr v1 \<longrightarrow> value_ok v1)"
  using list_append_ok [OF assms] map_set_ok [OF assms] pick_ok [OF assms(1)] merge_ok [OF assms] set_path_ok [OF assms]
  by blast

lemma value_operations_keep_type_witness:
  "arksh_value_map_set (V_dict [(''k'', V_list [])]) ''m'' (V_matrix (Some (Matrix [''c''] [[Cell Kind_number [] (1::nat) False]]))) =
     Some (V_dict [(''k'', V_list []), (''m'', V_matrix None)]) \<and>
   value_ok (V_dict [(''k'', V_list []), (''m'', V_matrix (None :: nat matrix option))])"
proof -
  have length_m: "length ''m'' < max_name" by (simp add: max_name_def)
  have s: "arksh_value_map_set (V_dict [(''k'', V_list [])]) ''m'' (V_matrix (Some (Matrix [''c''] [[Cell Kind_number [] (1::nat) False]]))) =
     Some (V_dict [(''k'', V_list []), (''m'', V_matrix None)])"
    by (simp add: arksh_value_map_set_def arksh_value_item_set_from_value_def max_name_def copy_string_def)
  have "value_ok (V_dict [(''k'', V_list [] :: nat svalue)])" "value_ok (V_matrix (Some (Matrix [''c''] [[Cell Kind_number [] (1::nat) False]])))"
    by (simp_all add: entries_ok_def key_ok_def max_name_def stored_def arksh_value_item_set_from_value_def)
  from value_operations_keep_type [OF this] s have "value_ok (V_dict [(''k'', V_list []), (''m'', V_matrix (None :: nat matrix option))])"
    by (meson length_m)
  with s show ?thesis by blast
qed

end
