(* ===== verification/Spec2Isabelle.thy ===== *)
theory Spec2Isabelle
  imports Arksh_Prelude Arena Perf Lexer Lexer_Line Glob Arith Arith_Syntax Field_Splitting
    Platform_Path Sorted_Index Registry Completion Shell_Vars Text_Codecs Control_Flow Exec_Frame
    Exec_Loops Lexer_Plain Alias_Laws Case_Patterns Prefix_Assign
    Parser_Text Parser_Command Parser_Compound Parser Lexer_Items Parser_Roundtrip Parser_Lists Parser_Exec
    Word_Expansion Word_Laws Descent Condition_Syntax Test_Builtin Test_Laws Double_Bracket Bracket_Laws
    Object_Values Json_Values Json_Laws Value_Laws
begin

text \<open>
  A verification development for arksh, an object-oriented shell written in C.

  \<^bold>\<open>The program.\<close>  A line typed by the user or read from a script goes to \<open>arksh_shell_execute_line\<close>
  (\<^verbatim>\<open>src/shell.c\<close>): its aliases are expanded, it is cut into tokens by the lexer (\<^verbatim>\<open>src/lexer.c\<close>), parsed
  into a syntax tree (\<^verbatim>\<open>src/parser.c\<close>) and run by the executor (\<^verbatim>\<open>src/executor.c\<close>).  The bodies of compound
  commands are kept as text, and the executor hands them back to \<open>arksh_shell_execute_line\<close>.  The
  executor asks the expander (\<^verbatim>\<open>src/expand.c\<close>) for the value of each word.  The state of a session lives
  in \<open>ArkshShell\<close>: variables and scopes, the registries of commands, value resolvers, pipeline stages,
  aliases and functions, and the counters and flags of the executor.  Values (\<^verbatim>\<open>src/object.c\<close>) are
  strings, numbers, lists, maps and matrices.  Temporary memory comes from a scratch arena
  (\<^verbatim>\<open>src/arena.c\<close>) behind the profiling allocator (\<^verbatim>\<open>src/perf.c\<close>).  Paths and system calls are in
  \<^verbatim>\<open>src/platform.c\<close>, completion in \<^verbatim>\<open>src/line_editor.c\<close>.

  \<^bold>\<open>How it is modelled.\<close>  Every definition has the name of the C function it translates; a loop or a
  part of a long function has a name of its own next to it.  Strings are the characters before the
  NUL, fixed buffers cut what does not fit, null pointers and error returns are options, sums or
  status numbers.  State is a record that is passed on.  A result \<open>None\<close> of the executor or of the
  expander means that the code does not return, or runs into what C leaves undefined.

  \<^bold>\<open>Memory and tables.\<close>
  \<^item> \<open>Arksh_Prelude\<close>: character classes, bounded copies, error results.
  \<^item> \<open>Arena\<close>: chunks, the allocation search, frames and the active shell, on 64-bit words; \<open>Perf\<close>: the
    counters and the allocation wrappers that decide whether a pointer is the arena's.
  \<^item> \<open>Sorted_Index\<close>: growable arrays, insertion-sorted index arrays, bisection and lower bound.
  \<^item> \<open>Registry\<close>: commands, resolvers, stages, aliases and functions, with the generation counter;
    \<open>Completion\<close>: matches for a typed prefix among the registered names, and the caches.
  \<^item> \<open>Shell_Vars\<close>: variable tables, scope frames, the process environment, positional parameters, name
    references.
  \<^item> \<open>Platform_Path\<close>: normalisation, resolution, directory and base names, POSIX branches.

  \<^bold>\<open>From text to trees.\<close>
  \<^item> \<open>Lexer\<close>: the scanners for words, quotes, arithmetic, command and process substitution; \<open>Lexer_Line\<close>:
    \<open>arksh_lex_line\<close>; \<open>Lexer_Plain\<close> and \<open>Lexer_Items\<close>: the tokens of plain words and of printed lines.
  \<^item> \<open>Alias_Expansion\<close> with \<open>Alias_Laws\<close>: the rounds of alias expansion.
  \<^item> \<open>Parser_Text\<close>, \<open>Parser_Command\<close>, \<open>Parser_Compound\<close>, \<open>Parser\<close>: text scanners, simple commands,
    redirections, pipelines and lists, compound commands, here-documents and \<open>arksh_parse_line\<close>.
  \<^item> \<open>Parser_Roundtrip\<close>, \<open>Parser_Lists\<close>: command trees printed and parsed again, alone and in lists.

  \<^bold>\<open>Words.\<close>
  \<^item> \<open>Glob\<close>: the matchers behind parameter expansion and \<open>case\<close>, prefix and suffix trims, substitution.
  \<^item> \<open>Arith\<close>, \<open>Arith_Syntax\<close>: the arithmetic evaluator, one definition per grammar level, and
    expression trees with their printer.
  \<^item> \<open>Field_Splitting\<close>: \<open>apply_ifs_splitting\<close>.
  \<^item> \<open>Word_Expansion\<close>, \<open>Word_Laws\<close>: \<open>arksh_expand_word\<close> with quotes, parameters and their operators,
    substitutions, splitting and path name patterns, and its laws.

  \<^bold>\<open>Execution.\<close>
  \<^item> \<open>Exec_State\<close>: the state, the syntax trees and control signals; \<open>Simple_Command\<close>: assignments and
    calls; \<open>Control_Flow\<close>: lists, conditionals, loops, groups, subshells, the dispatch on trees and
    \<open>execute_line\<close>, which is \<open>arksh_shell_execute_line\<close>.
  \<^item> \<open>Exec_Frame\<close>: relations every line respects; \<open>Exec_Loops\<close>: the bound on nesting, termination of
    loops, \<open>break\<close> and \<open>continue\<close>; \<open>Case_Patterns\<close>, \<open>Prefix_Assign\<close>: the branches of \<open>case\<close> and assignments
    in front of commands; \<open>Parser_Exec\<close>: parser and executor together on printed commands.
  \<^item> \<open>Descent\<close>, \<open>Condition_Syntax\<close>: recursive descent over words and printed conditions, shared by
    \<open>Test_Builtin\<close> with \<open>Test_Laws\<close> (\<open>test\<close> and \<open>[\<close>) and \<open>Double_Bracket\<close> with \<open>Bracket_Laws\<close> (\<open>[[\<close>).

  \<^bold>\<open>Values.\<close>
  \<^item> \<open>Text_Codecs\<close>: JSON strings, the Base64 stages, file permissions.
  \<^item> \<open>Object_Values\<close>, \<open>Json_Values\<close>: values with list, map, path, pick and merge operations, and JSON in
    both directions; \<open>Value_Laws\<close>, \<open>Json_Laws\<close>: what they guarantee.

  \<^bold>\<open>Parameters.\<close>  Code that is not modelled is an argument, a record of functions: \<open>memory\<close> (the results
  of \<open>malloc\<close>, \<open>realloc\<close> and \<open>setenv\<close>), \<open>services\<close> (what the executor calls: word expansion, built-in and
  external commands, files, object expressions, the processes of subshells), \<open>value_parser\<close> (the
  parsers of value expressions), \<open>word_env\<close>, \<open>test_env\<close> and \<open>bracket_env\<close> (subshells, file status, regular
  expressions and other answers of the system) and \<open>number_format\<close> (\<open>printf\<close> and \<open>strtod\<close>).  Theorems name
  what they need of them; each has a witness with concrete functions.  \<open>Word_Laws\<close> runs the expander
  inside the executor, \<open>Parser_Exec\<close> the parser.

  \<^bold>\<open>Interfaces.\<close>  \<open>frame_stack\<close> in \<open>Arena\<close> is the contract of a frame allocator, \<open>arith_level\<close> in \<open>Arith\<close> that
  of a level of the grammar, \<open>token_scanner\<close> in \<open>Lexer_Line\<close> that of a scanner.  \<open>key_order\<close> in
  \<open>Sorted_Index\<close> asks of a three-way comparison what sorting and bisection need and is interpreted for
  \<open>strcmp\<close> and for instance ids.  \<open>keyed_store\<close> in \<open>Registry\<close> is the contract of a table with names,
  interpreted for the aliases and for the variables.  \<open>keyword_scan\<close> in \<open>Parser_Roundtrip\<close> is what the
  scans for \<open>then\<close>, \<open>do\<close>, \<open>done\<close> and the end of a conditional share.  \<open>exec_relation\<close> in \<open>Exec_Frame\<close> asks of
  a relation between states that it survives every update the executor makes itself; \<open>balanced_exec\<close>
  and \<open>exit_exec\<close> interpret it.

  \<^bold>\<open>What is shown.\<close>  Lexing loses nothing and fails only for the documented reasons.  Printed commands
  and lists that begin with a simple command parse back to their trees, and printed commands run as their parts do.
  Every line leaves the counters and the number of scopes as they were; under \<open>set -e\<close> a failing
  condition never stops the shell; \<open>break\<close> leaves the loops it names; loops with a decreasing measure
  end.  Quoted words expand to themselves and reach commands unchanged, unquoted parameters are
  split, and results fit their arrays.  Arithmetic always answers, and evaluates printed expressions
  in 64-bit arithmetic.  \<open>test\<close>, \<open>[\<close> and \<open>[[\<close> always answer, with the value of the printed condition.  The
  matchers decide the language of the patterns; trims and substitution equal their specifications.
  Allocations are disjoint and inside their chunk.  Normalised paths are canonical.  The registries
  and the maps of values refine finite maps; the completion cache is never stale.  Exported variables
  are in the environment, and scopes restore the variables of the tables.  JSON documents round trip,
  and what is read is well typed.  Reachable states are inductive relations (\<open>session\<close>, \<open>var_session\<close>,
  \<open>runs\<close>), and their invariants are proved by rule induction.

  Where the code does not do what it means to, a theorem says what it does: an empty pattern makes
  global substitution run forever, a pipe into a compound command recurses without end, nothing may
  follow a compound command on its line, quoted positional parameters are joined, an error in a
  later alternative of \<open>[[\<close> is lost, oversized arena requests exhaust \<open>malloc\<close>, a plugin that overrides a
  built-in removes it when disabled, a local assignment to an inherited variable loses it.

  \<^bold>\<open>Bounds and fuel.\<close>  Loops are recursive functions with a termination measure.  The substitution loop
  may run forever and is a partial function into the option type; termination is proved for nonempty
  patterns.  \<open>execute_line\<close> has a bound on the nesting of lines, since a line can run itself; a larger
  bound never changes a result, and the theorems hold for every bound or give one that is enough.
  The readers of conditions are bounded by the number of words plus one, and JSON reading by the
  characters left plus one and by 129 levels; \<open>conditional_commands_answer\<close> and \<open>json_parse_typed\<close> show
  that this is enough.  Reference chains are followed 32 times and aliases expanded in eight rounds,
  as the code does.  The completion theorem assumes fewer than \<open>2 ^ 64 - 1\<close> registry changes, the width of
  the counter.

  \<^bold>\<open>Not modelled.\<close>  Object expressions, object pipelines and pipelines of processes, whose nodes the
  executor hands to its services; classes, instances and value bindings; rendering and the named
  properties and methods of values; the other built-in commands, jobs, traps and history; plugin
  loading, the prompt and the terminal side of the line editor: mainly system calls and text output.
  The error stream (as the trace of \<open>set -x\<close>) is left out, and so are the offsets in JSON error
  messages.  A NUL written by a JSON escape stays a character of the text, where C would cut it.
  The operations on matrices are not included.  The branches for Windows are left out throughout.
\<close>

end
